(* ===== verification/Prelude.thy ===== *)
theory Prelude
  imports Main "HOL-Library.Word"
begin

text \<open>
  Shared vocabulary of the development: the C types of the Mythryl runtime
  (\<open>src/c/h/runtime-base.h\<close>) as machine words, the values a C routine can end with
  (a result, a call of \<open>die\<close>, an access outside the memory it owns), the rounding macro of
  \<open>runtime-base.h\<close>, and the generic lemmas on words, lists and maps that the component
  theories use. The collections \<open>bit_facts\<close> and \<open>fault_simps\<close> hold the facts
  the component proofs hand to the simplifier.
\<close>

unbundle bit_operations_syntax

named_theorems bit_facts \<open>bitwise facts on the tag and mask macros\<close>
named_theorems fault_simps \<open>evaluation of sequenced operations\<close>

section \<open>Types\<close>

type_synonym vunt = "32 word"
type_synonym val = "32 word"
type_synonym unt8 = "8 word"
type_synonym unt16 = "16 word"

section \<open>How a C routine ends\<close>

text \<open>
  \<open>die\<close> prints its message and exits, so a call of it is the result of the routine that
  made it; the model keeps the message's fixed part. \<open>Wild\<close> stands for a read or write
  through a NULL pointer or outside an array, which the C code leaves undefined.
\<close>

datatype fault = Died string | Wild

type_synonym 'a result = "fault + 'a"

definition seq_result :: "'a result \<Rightarrow> ('a \<Rightarrow> 'b result) \<Rightarrow> 'b result" where
  "seq_result r f = (case r of Inl e \<Rightarrow> Inl e | Inr x \<Rightarrow> f x)"

lemma seq_result_simps [simp, fault_simps]:
  "seq_result (Inl e) f = Inl e"
  "seq_result (Inr x) f = f x"
  by (simp_all add: seq_result_def)

lemma seq_result_eq_Inr [fault_simps]:
  "seq_result r f = Inr y \<longleftrightarrow> (\<exists>x. r = Inr x \<and> f x = Inr y)"
  by (cases r) simp_all

lemma seq_result_cong [fundef_cong]:
  "r = r' \<Longrightarrow> (\<And>x. r' = Inr x \<Longrightarrow> f x = g x) \<Longrightarrow> seq_result r f = seq_result r' g"
  by (cases r') simp_all

section \<open>Bitwise operations read as arithmetic\<close>

lemma unat_word_of_nat:
  "n < 2 ^ LENGTH('a) \<Longrightarrow> unat (word_of_nat n :: 'a::len word) = n"
  by (simp add: unsigned_of_nat take_bit_nat_eq_self)

lemma nat_and_mask: "(n :: nat) AND mask k = n mod 2 ^ k"
  by (simp only: take_bit_eq_mod flip: take_bit_eq_mask)

lemma unat_and_mask:
  fixes w :: "'a::len word"
  shows "unat (w AND mask k) = unat w mod 2 ^ k"
  unfolding take_bit_eq_mask [symmetric] unsigned_take_bit_eq
  by (rule take_bit_eq_mod)

lemma unat_push_bit:
  fixes w :: "'a::len word"
  shows "unat w * 2 ^ k < 2 ^ LENGTH('a) \<Longrightarrow> unat (push_bit k w) = unat w * 2 ^ k"
  by (simp only: unsigned_push_bit_eq) (simp add: push_bit_eq_mult take_bit_nat_eq_self)

lemma unat_drop_bit: "unat (drop_bit k w) = unat w div 2 ^ k"
  unfolding unat_drop_bit_eq by (rule drop_bit_eq_div)

text \<open>An \<open>OR\<close> of fields that do not overlap is a sum.\<close>

lemma nat_or_fields:
  fixes a b :: nat
  assumes "b < 2 ^ k"
  shows "a * 2 ^ k OR b = a * 2 ^ k + b"
proof -
  have "a * 2 ^ k AND b = 0"
  proof (rule bit_eqI)
    fix n
    show "bit (a * 2 ^ k AND b) n \<longleftrightarrow> bit (0::nat) n"
    proof (cases "n < k")
      case True
      then show ?thesis by (simp add: bit_and_iff flip: push_bit_eq_mult) (simp add: bit_push_bit_iff)
    next
      case False
      then have "b < 2 ^ n"
        using assms by (meson not_less order_less_le_trans one_le_numeral power_increasing)
      then have "\<not> bit b n" by (simp add: bit_iff_odd)
      then show ?thesis by (simp add: bit_and_iff)
    qed
  qed
  then show ?thesis by (simp add: disjunctive_add_eq_or)
qed

lemma three_eq_mask [bit_facts]: "(3 :: 'a::len word) = mask 2"
  by (simp add: mask_eq_decr_exp)

section \<open>Rounding and C division\<close>

text \<open>
  \<open>ROUND_UP_TO_POWER_OF_TWO(i,n)\<close> is \<open>((i)+((n)-1)) & ~((n)-1)\<close> on 32-bit unsigned
  values; the sum wraps.
\<close>

definition round_up_to_power_of_two :: "nat \<Rightarrow> nat \<Rightarrow> nat" where
  "round_up_to_power_of_two i n =
     unat ((word_of_nat i + (word_of_nat n - 1)) AND NOT (word_of_nat n - 1) :: vunt)"

lemma and_not_mask_nat:
  fixes w :: "'a::len word"
  shows "unat (w AND NOT (mask k)) = unat w div 2 ^ k * 2 ^ k"
proof -
  have "w AND NOT (mask k) = push_bit k (drop_bit k w)"
    by (rule bit_word_eqI) (auto simp: bit_simps)
  moreover have lt: "unat w div 2 ^ k * 2 ^ k < 2 ^ LENGTH('a)"
    using unsigned_less [of w] by (meson div_times_less_eq_dividend le_less_trans)
  moreover have "unat (push_bit k (drop_bit k w)) = unat w div 2 ^ k * 2 ^ k"
    unfolding unsigned_push_bit_eq unat_drop_bit_eq
    using lt by (simp add: drop_bit_eq_div push_bit_eq_mult take_bit_nat_eq_self)
  ultimately show ?thesis by simp
qed

lemma word_of_nat_power_minus_one:
  "k < 32 \<Longrightarrow> (word_of_nat (2 ^ k) - 1 :: vunt) = mask k"
  by (simp add: mask_eq_decr_exp)

lemma round_up_eq:
  assumes "k < 32" and "i + (2 ^ k - 1) < 2 ^ 32"
  shows "round_up_to_power_of_two i (2 ^ k) = (i + (2 ^ k - 1)) div 2 ^ k * 2 ^ k"
proof -
  have "(mask k :: vunt) = word_of_nat (2 ^ k - 1)"
    by (simp add: mask_eq_decr_exp of_nat_diff)
  then have "(word_of_nat i + mask k :: vunt) = word_of_nat (i + (2 ^ k - 1))"
    by (simp only: of_nat_add)
  moreover have "unat (word_of_nat (i + (2 ^ k - 1)) :: vunt) = i + (2 ^ k - 1)"
    using assms(2) by (intro unat_word_of_nat) simp
  ultimately show ?thesis
    unfolding round_up_to_power_of_two_def word_of_nat_power_minus_one [OF assms(1)]
    by (simp only: and_not_mask_nat)
qed

text \<open>C's signed division truncates towards zero.\<close>

definition c_div :: "int \<Rightarrow> int \<Rightarrow> int" where
  "c_div a b = sgn a * sgn b * (\<bar>a\<bar> div \<bar>b\<bar>)"

text \<open>The value of an expression stored in a 32-bit \<open>int\<close>.\<close>

definition wrap_int :: "int \<Rightarrow> int" where
  "wrap_int n = signed_take_bit 31 n"

lemma wrap_int_id [simp]: "- (2 ^ 31) \<le> n \<Longrightarrow> n < 2 ^ 31 \<Longrightarrow> wrap_int n = n"
  unfolding wrap_int_def by (rule signed_take_bit_int_eq_self) simp_all

lemma sint_small:
  fixes w :: vunt
  assumes "unat w < 2 ^ 31"
  shows "sint w = int (unat w)"
proof -
  have "int (unat w) < int (2 ^ 31)" using assms by (simp only: of_nat_less_iff)
  then have "int (unat w) < 2 ^ 31" by (simp only: of_nat_power of_nat_numeral)
  moreover have "- (2 ^ 31) \<le> int (unat w)"
    by (rule order.trans [OF _ of_nat_0_le_iff]) simp
  ultimately have "signed_take_bit 31 (int (unat w)) = int (unat w)"
    by (intro signed_take_bit_int_eq_self)
  moreover have "sint w = signed_take_bit 31 (int (unat w))"
    unfolding sint_uint uint_nat by simp
  ultimately show ?thesis by simp
qed

section \<open>Decimal output\<close>

text \<open>
  What \<open>printf\<close> writes for \<open>%d\<close> of a non-negative number, for \<open>%*d\<close> (a field
  width, left-justified where it is negative) and for \<open>%0kd\<close>.
\<close>

definition digit_char :: "nat \<Rightarrow> char" where
  "digit_char d = ''0123456789'' ! d"

fun decimal :: "nat \<Rightarrow> string" where
  "decimal n = (if n < 10 then [digit_char n] else decimal (n div 10) @ [digit_char (n mod 10)])"

declare decimal.simps [simp del]

definition decimal_int :: "int \<Rightarrow> string" where
  "decimal_int n = (if n < 0 then CHR ''-'' # decimal (nat (- n)) else decimal (nat n))"

lemma decimal_int_of_nat: "decimal_int (int n) = decimal n"
  by (simp add: decimal_int_def)

definition pad_field :: "int \<Rightarrow> string \<Rightarrow> string" where
  "pad_field w s =
     (if 0 \<le> w then replicate (nat w - length s) CHR '' '' @ s
      else s @ replicate (nat (- w) - length s) CHR '' '')"

definition zero_field :: "nat \<Rightarrow> int \<Rightarrow> string" where
  "zero_field k n =
     (if n < 0 then CHR ''-'' # replicate (k - 1 - length (decimal (nat (- n)))) CHR ''0'' @ decimal (nat (- n))
      else replicate (k - length (decimal (nat n))) CHR ''0'' @ decimal (nat n))"

text \<open>The \<open>k\<close> low decimal digits of a number, most significant first.\<close>

fun low_digits :: "nat \<Rightarrow> nat \<Rightarrow> string" where
  "low_digits 0 n = []"
| "low_digits (Suc k) n = low_digits k (n div 10) @ [digit_char (n mod 10)]"

lemma decimal_split:
  "0 < m \<Longrightarrow> n < 10 ^ k \<Longrightarrow> decimal (m * 10 ^ k + n) = decimal m @ low_digits k n"
proof (induction k arbitrary: n)
  case 0
  then show ?case by simp
next
  case (Suc k)
  have ge: "\<not> m * 10 ^ Suc k + n < 10"
    using Suc.prems(1) by (simp add: not_less trans_le_add1)
  have "(m * 10 ^ Suc k + n) div 10 = m * 10 ^ k + n div 10"
    by (simp add: algebra_simps)
  moreover have "(m * 10 ^ Suc k + n) mod 10 = n mod 10"
    using mod_mult_self2 [of n 10 "m * 10 ^ k"] by (simp add: algebra_simps)
  moreover have "n div 10 < 10 ^ k"
    using Suc.prems(2) by (simp add: less_mult_imp_div_less mult.commute)
  ultimately show ?case
    using Suc.IH [of "n div 10"] Suc.prems(1) ge
    by (subst decimal.simps) simp
qed

lemma low_digits_zero: "low_digits k 0 = replicate k CHR ''0''"
proof (induction k)
  case 0
  then show ?case by simp
next
  case (Suc k)
  have "digit_char 0 = CHR ''0''" by (simp add: digit_char_def)
  with Suc show ?case by (simp add: replicate_append_same)
qed

lemma length_low_digits [simp]: "length (low_digits k n) = k"
  by (induction k arbitrary: n) simp_all

lemma zero_field_low_digits:
  "n < 10 ^ k \<Longrightarrow> 0 < k \<Longrightarrow> zero_field k (int n) = low_digits k n"
proof (induction k arbitrary: n)
  case 0
  then show ?case by simp
next
  case (Suc k)
  show ?case
  proof (cases "n < 10")
    case True
    then show ?thesis
      by (simp add: zero_field_def decimal.simps [of n] low_digits_zero)
  next
    case False
    then have k: "0 < k" using Suc.prems(1) by (cases k) auto
    have "n div 10 < 10 ^ k"
      using Suc.prems(1) by (simp add: less_mult_imp_div_less mult.commute)
    then have "zero_field k (int (n div 10)) = low_digits k (n div 10)"
      using k by (rule Suc.IH)
    with False show ?thesis
      by (simp add: zero_field_def decimal.simps [of n])
  qed
qed

section \<open>Chains of buckets\<close>

text \<open>The hash tables keep a vector of chains and add items at the front of one of them.\<close>

lemma length_concat_push:
  "h < length bs \<Longrightarrow> length (concat (bs[h := x # bs ! h])) = Suc (length (concat bs))"
  by (induction bs arbitrary: h) (auto simp: nth_Cons split: nat.split)

lemma set_concat_push:
  "h < length bs \<Longrightarrow> set (concat (bs[h := x # bs ! h])) = insert x (set (concat bs))"
  by (induction bs arbitrary: h) (auto simp: nth_Cons split: nat.split)

lemma distinct_concat_push:
  assumes "h < length bs" and "distinct (concat bs)" and "x \<notin> set (concat bs)"
  shows "distinct (concat (bs[h := x # bs ! h]))"
proof (rule card_distinct)
  have "card (set (concat bs)) = length (concat bs)" using assms(2) by (rule distinct_card)
  moreover have "card (insert x (set (concat bs))) = Suc (card (set (concat bs)))"
    using assms(3) by (intro card_insert_disjoint) simp_all
  ultimately show "card (set (concat (bs[h := x # bs ! h]))) = length (concat (bs[h := x # bs ! h]))"
    by (simp only: set_concat_push [OF assms(1)] length_concat_push [OF assms(1)])
qed

lemma concat_replicate_Nil [simp]: "concat (replicate n []) = []"
  by (induction n) simp_all

lemma power_two_le: "(2 :: nat) ^ k < 2 ^ Suc n \<Longrightarrow> k \<le> n"
  by (simp only: power_strict_increasing_iff one_less_numeral_iff semiring_norm less_Suc_eq_le)

lemma in_set_concat_nth: "x \<in> set (concat bs) \<longleftrightarrow> (\<exists>h < length bs. x \<in> set (bs ! h))"
  by (simp only: set_concat set_conv_nth [of bs]) blast

lemma distinct_concat_by:
  assumes "\<And>h. h < length bs \<Longrightarrow> distinct (map key (bs ! h))"
    and "\<And>h x. h < length bs \<Longrightarrow> x \<in> set (bs ! h) \<Longrightarrow> f (key x) = d + h"
  shows "distinct (map key (concat bs))"
  using assms
proof (induction bs arbitrary: d)
  case Nil
  then show ?case by simp
next
  case (Cons b bs)
  have "distinct (map key b)" using Cons.prems(1) [of 0] by simp
  moreover have "distinct (map key (concat bs))"
  proof (rule Cons.IH [where d = "Suc d"])
    show "distinct (map key (bs ! h))" if "h < length bs" for h
      using Cons.prems(1) [of "Suc h"] that by simp
    show "f (key x) = Suc d + h" if "h < length bs" "x \<in> set (bs ! h)" for h x
      using Cons.prems(2) [of "Suc h" x] that by simp
  qed
  moreover have False if x: "x \<in> set b" and y: "y \<in> set (concat bs)" and "key x = key y" for x y
  proof -
    obtain h where "h < length bs" "y \<in> set (bs ! h)"
      using y unfolding in_set_concat_nth by blast
    then have "f (key y) = d + Suc h" using Cons.prems(2) [of "Suc h" y] by simp
    moreover have "f (key x) = d" using Cons.prems(2) [of 0 x] x by simp
    ultimately show False using \<open>key x = key y\<close> by simp
  qed
  ultimately show ?case by fastforce
qed

end
