(* ===== verification/Heap_Tags.thy ===== *)
theory Heap_Tags
  imports Prelude
begin

text \<open>
  The tag bits of Mythryl heap words (\<open>src/c/h/heap-tags.h\<close>) and the conversions between
  C integers and tagged Mythryl integers (\<open>src/c/h/runtime-values.h\<close>).
  A heap word is a pointer (low bits 00), a tagged integer (low bit 1) or a tagword (low bits
  10); a tagword carries a 5-bit B-tag and a 25-bit length. The lemmas show that the three
  classes partition all words and that building and taking apart tagwords, tagged integers
  and marked pointers are inverse to one another inside the field widths.
\<close>

unbundle bit_operations_syntax

section \<open>A-tags\<close>

definition POINTER_ATAG :: val where "POINTER_ATAG = 0"
definition TAGWORD_ATAG :: val where "TAGWORD_ATAG = 2"
definition TAGGED_INT_ATAG :: val where "TAGGED_INT_ATAG = 1"
definition ATAG_MASK :: val where "ATAG_MASK = 3"

lemmas atag_defs = POINTER_ATAG_def TAGWORD_ATAG_def TAGGED_INT_ATAG_def ATAG_MASK_def

definition MARK_POINTER :: "val \<Rightarrow> val" where
  "MARK_POINTER p = p OR 1"

definition UNMARK_POINTER :: "val \<Rightarrow> val" where
  "UNMARK_POINTER p = p AND NOT 1"

definition IS_POINTER :: "val \<Rightarrow> bool" where
  "IS_POINTER w \<longleftrightarrow> w AND ATAG_MASK = POINTER_ATAG"

definition IS_TAGGED_INT :: "val \<Rightarrow> bool" where
  "IS_TAGGED_INT w \<longleftrightarrow> w AND 1 = TAGGED_INT_ATAG"

definition IS_TAGWORD :: "val \<Rightarrow> bool" where
  "IS_TAGWORD w \<longleftrightarrow> w AND ATAG_MASK = TAGWORD_ATAG"

section \<open>B-tags and tagwords\<close>

definition PAIRS_AND_RECORDS_BTAG :: nat where "PAIRS_AND_RECORDS_BTAG = 0"
definition RO_VECTOR_HEADER_BTAG :: nat where "RO_VECTOR_HEADER_BTAG = 1"
definition RW_VECTOR_HEADER_BTAG :: nat where "RW_VECTOR_HEADER_BTAG = 2"
definition RW_VECTOR_DATA_BTAG :: nat where "RW_VECTOR_DATA_BTAG = 3"
definition FOUR_BYTE_ALIGNED_NONPOINTER_DATA_BTAG :: nat where
  "FOUR_BYTE_ALIGNED_NONPOINTER_DATA_BTAG = 4"
definition EIGHT_BYTE_ALIGNED_NONPOINTER_DATA_BTAG :: nat where
  "EIGHT_BYTE_ALIGNED_NONPOINTER_DATA_BTAG = 5"
definition WEAK_POINTER_OR_SUSPENSION_BTAG :: nat where
  "WEAK_POINTER_OR_SUSPENSION_BTAG = 6"
definition EXTERNAL_REFERENCE_IN_EXPORTED_HEAP_IMAGE_BTAG :: nat where
  "EXTERNAL_REFERENCE_IN_EXPORTED_HEAP_IMAGE_BTAG = 0x10"
definition FORWARDED_CHUNK_BTAG :: nat where "FORWARDED_CHUNK_BTAG = 0x1F"

lemmas btag_defs =
  PAIRS_AND_RECORDS_BTAG_def RO_VECTOR_HEADER_BTAG_def RW_VECTOR_HEADER_BTAG_def
  RW_VECTOR_DATA_BTAG_def FOUR_BYTE_ALIGNED_NONPOINTER_DATA_BTAG_def
  EIGHT_BYTE_ALIGNED_NONPOINTER_DATA_BTAG_def WEAK_POINTER_OR_SUSPENSION_BTAG_def
  EXTERNAL_REFERENCE_IN_EXPORTED_HEAP_IMAGE_BTAG_def FORWARDED_CHUNK_BTAG_def

definition BTAG_SHIFT_IN_BITS :: nat where "BTAG_SHIFT_IN_BITS = 2"
definition BTAG_WIDTH_IN_BITS :: nat where "BTAG_WIDTH_IN_BITS = 5"
definition BTAG_MASK :: val where
  "BTAG_MASK = push_bit BTAG_SHIFT_IN_BITS (push_bit BTAG_WIDTH_IN_BITS 1 - 1)"
definition TAGWORD_LENGTH_FIELD_SHIFT :: nat where
  "TAGWORD_LENGTH_FIELD_SHIFT = BTAG_SHIFT_IN_BITS + BTAG_WIDTH_IN_BITS"

lemmas shift_defs =
  BTAG_SHIFT_IN_BITS_def BTAG_WIDTH_IN_BITS_def BTAG_MASK_def TAGWORD_LENGTH_FIELD_SHIFT_def

definition MAKE_BTAG :: "nat \<Rightarrow> val" where
  "MAKE_BTAG t = push_bit BTAG_SHIFT_IN_BITS (word_of_nat t) OR TAGWORD_ATAG"

definition MAKE_TAGWORD :: "nat \<Rightarrow> nat \<Rightarrow> val" where
  "MAKE_TAGWORD l t = push_bit TAGWORD_LENGTH_FIELD_SHIFT (word_of_nat l) OR MAKE_BTAG t"

definition GET_LENGTH_IN_WORDS_FROM_TAGWORD :: "val \<Rightarrow> nat" where
  "GET_LENGTH_IN_WORDS_FROM_TAGWORD w = unat (drop_bit TAGWORD_LENGTH_FIELD_SHIFT w)"

definition GET_BTAG_FROM_TAGWORD :: "val \<Rightarrow> nat" where
  "GET_BTAG_FROM_TAGWORD w = unat (drop_bit BTAG_SHIFT_IN_BITS (w AND BTAG_MASK))"

definition PAIR_TAGWORD :: val where
  "PAIR_TAGWORD = MAKE_TAGWORD 2 PAIRS_AND_RECORDS_BTAG"

definition FORWARDED_CHUNK_TAGWORD :: val where
  "FORWARDED_CHUNK_TAGWORD = MAKE_TAGWORD 0 FORWARDED_CHUNK_BTAG"

section \<open>C-tags of vector headers and special chunks\<close>

definition TYPEAGNOSTIC_VECTOR_CTAG :: nat where "TYPEAGNOSTIC_VECTOR_CTAG = 0"
definition VECTOR_OF_ONE_BYTE_UNTS_CTAG :: nat where "VECTOR_OF_ONE_BYTE_UNTS_CTAG = 1"
definition VECTOR_OF_EIGHT_BYTE_FLOATS_CTAG :: nat where "VECTOR_OF_EIGHT_BYTE_FLOATS_CTAG = 6"
definition UNEVALUATED_LAZY_SUSPENSION_CTAG :: nat where "UNEVALUATED_LAZY_SUSPENSION_CTAG = 0"
definition EVALUATED_LAZY_SUSPENSION_CTAG :: nat where "EVALUATED_LAZY_SUSPENSION_CTAG = 1"
definition WEAK_POINTER_CTAG :: nat where "WEAK_POINTER_CTAG = 2"
definition NULLED_WEAK_POINTER_CTAG :: nat where "NULLED_WEAK_POINTER_CTAG = 3"

lemmas ctag_defs =
  TYPEAGNOSTIC_VECTOR_CTAG_def VECTOR_OF_ONE_BYTE_UNTS_CTAG_def
  VECTOR_OF_EIGHT_BYTE_FLOATS_CTAG_def UNEVALUATED_LAZY_SUSPENSION_CTAG_def
  EVALUATED_LAZY_SUSPENSION_CTAG_def WEAK_POINTER_CTAG_def NULLED_WEAK_POINTER_CTAG_def

definition STRING_TAGWORD :: val where
  "STRING_TAGWORD = MAKE_TAGWORD VECTOR_OF_ONE_BYTE_UNTS_CTAG RO_VECTOR_HEADER_BTAG"
definition TYPEAGNOSTIC_RO_VECTOR_TAGWORD :: val where
  "TYPEAGNOSTIC_RO_VECTOR_TAGWORD = MAKE_TAGWORD TYPEAGNOSTIC_VECTOR_CTAG RO_VECTOR_HEADER_BTAG"
definition TYPEAGNOSTIC_RW_VECTOR_TAGWORD :: val where
  "TYPEAGNOSTIC_RW_VECTOR_TAGWORD = MAKE_TAGWORD TYPEAGNOSTIC_VECTOR_CTAG RW_VECTOR_HEADER_BTAG"
definition WEAKREF_TAGWORD :: val where
  "WEAKREF_TAGWORD = MAKE_TAGWORD WEAK_POINTER_CTAG WEAK_POINTER_OR_SUSPENSION_BTAG"
definition NULLED_WEAKREF_TAGWORD :: val where
  "NULLED_WEAKREF_TAGWORD = MAKE_TAGWORD NULLED_WEAK_POINTER_CTAG WEAK_POINTER_OR_SUSPENSION_BTAG"

section \<open>Tagged integers\<close>

definition TAGGED_INT_FROM_C_INT :: "int \<Rightarrow> val" where
  "TAGGED_INT_FROM_C_INT n = push_bit 1 (word_of_int n) + 1"

definition TAGGED_INT_TO_C_INT :: "val \<Rightarrow> int" where
  "TAGGED_INT_TO_C_INT v = sint (signed_drop_bit 1 v)"

definition HEAP_VOID :: val where "HEAP_VOID = TAGGED_INT_FROM_C_INT 0"
definition HEAP_FALSE :: val where "HEAP_FALSE = TAGGED_INT_FROM_C_INT 0"
definition HEAP_TRUE :: val where "HEAP_TRUE = TAGGED_INT_FROM_C_INT 1"
definition HEAP_NIL :: val where "HEAP_NIL = TAGGED_INT_FROM_C_INT 0"

section \<open>Facts\<close>

lemma unat_and_ATAG_MASK: "unat (w AND ATAG_MASK) = unat w mod 4"
  unfolding ATAG_MASK_def three_eq_mask unat_and_mask by simp

lemma IS_POINTER_iff: "IS_POINTER w \<longleftrightarrow> unat w mod 4 = 0"
proof -
  have "IS_POINTER w \<longleftrightarrow> unat (w AND ATAG_MASK) = unat (0 :: val)"
    unfolding IS_POINTER_def POINTER_ATAG_def by (rule word_unat_eq_iff)
  then show ?thesis by (simp add: unat_and_ATAG_MASK)
qed

lemma IS_TAGWORD_iff: "IS_TAGWORD w \<longleftrightarrow> unat w mod 4 = 2"
proof -
  have "IS_TAGWORD w \<longleftrightarrow> unat (w AND ATAG_MASK) = unat (2 :: val)"
    unfolding IS_TAGWORD_def TAGWORD_ATAG_def by (rule word_unat_eq_iff)
  then show ?thesis by (simp add: unat_and_ATAG_MASK)
qed

lemma IS_TAGGED_INT_iff: "IS_TAGGED_INT w \<longleftrightarrow> unat w mod 2 = 1"
proof -
  have "unat (w AND mask 1) = unat w mod 2"
    using unat_and_mask [of w 1] by simp
  moreover have "IS_TAGGED_INT w \<longleftrightarrow> unat (w AND mask 1) = unat (1 :: val)"
    unfolding IS_TAGGED_INT_def TAGGED_INT_ATAG_def
    by (simp add: word_unat_eq_iff mask_eq_decr_exp)
  ultimately show ?thesis by simp
qed

lemmas atag_iffs = IS_POINTER_iff IS_TAGWORD_iff IS_TAGGED_INT_iff

lemma BTAG_MASK_eq: "BTAG_MASK = push_bit 2 (mask 5)"
  by (simp add: shift_defs mask_eq_decr_exp)

lemma GET_BTAG_eq: "GET_BTAG_FROM_TAGWORD w = unat w div 4 mod 32"
proof -
  have "drop_bit 2 (w AND BTAG_MASK) = drop_bit 2 w AND mask 5"
    unfolding BTAG_MASK_eq by (rule bit_word_eqI) (auto simp: bit_simps)
  then show ?thesis
    using unat_and_mask [of "drop_bit 2 w" 5]
    by (simp add: GET_BTAG_FROM_TAGWORD_def BTAG_SHIFT_IN_BITS_def unat_drop_bit)
qed

lemma GET_LENGTH_eq: "GET_LENGTH_IN_WORDS_FROM_TAGWORD w = unat w div 128"
  by (simp add: GET_LENGTH_IN_WORDS_FROM_TAGWORD_def shift_defs unat_drop_bit)

lemma unat_MAKE_BTAG: "t < 32 \<Longrightarrow> unat (MAKE_BTAG t) = t * 4 + 2"
  using nat_or_fields [of 2 2 t]
  by (simp add: MAKE_BTAG_def BTAG_SHIFT_IN_BITS_def TAGWORD_ATAG_def unsigned_or_eq
      unat_push_bit unat_word_of_nat)

lemma unat_MAKE_TAGWORD:
  "l < 2 ^ 25 \<Longrightarrow> t < 32 \<Longrightarrow> unat (MAKE_TAGWORD l t) = l * 128 + t * 4 + 2"
  using nat_or_fields [of "t * 4 + 2" 7 l]
  by (simp add: MAKE_TAGWORD_def shift_defs unsigned_or_eq unat_MAKE_BTAG unat_push_bit
      unat_word_of_nat)

lemma tagword_fields:
  fixes l t :: nat
  assumes "t < 32"
  shows "(l * 128 + t * 4 + 2) div 4 mod 32 = t" and "(l * 128 + t * 4 + 2) mod 4 = 2"
    and "(l * 128 + t * 4 + 2) div 128 = l"
proof -
  have "(l * 128 + t * 4 + 2) div 4 = l * 32 + t" by linarith
  then show "(l * 128 + t * 4 + 2) div 4 mod 32 = t" using assms by simp
  show "(l * 128 + t * 4 + 2) mod 4 = 2" by presburger
  show "(l * 128 + t * 4 + 2) div 128 = l" using assms by linarith
qed

lemma btag_bounds [simp]:
  "PAIRS_AND_RECORDS_BTAG < 32" "RO_VECTOR_HEADER_BTAG < 32" "RW_VECTOR_HEADER_BTAG < 32"
  "RW_VECTOR_DATA_BTAG < 32" "FOUR_BYTE_ALIGNED_NONPOINTER_DATA_BTAG < 32"
  "EIGHT_BYTE_ALIGNED_NONPOINTER_DATA_BTAG < 32" "WEAK_POINTER_OR_SUSPENSION_BTAG < 32"
  "EXTERNAL_REFERENCE_IN_EXPORTED_HEAP_IMAGE_BTAG < 32" "FORWARDED_CHUNK_BTAG < 32"
  by (simp_all add: btag_defs)

lemma GET_BTAG_MAKE_TAGWORD [simp]:
  "l < 2 ^ 25 \<Longrightarrow> t < 32 \<Longrightarrow> GET_BTAG_FROM_TAGWORD (MAKE_TAGWORD l t) = t"
  unfolding GET_BTAG_eq by (simp only: unat_MAKE_TAGWORD tagword_fields)

lemma GET_LENGTH_MAKE_TAGWORD [simp]:
  "l < 2 ^ 25 \<Longrightarrow> t < 32 \<Longrightarrow> GET_LENGTH_IN_WORDS_FROM_TAGWORD (MAKE_TAGWORD l t) = l"
  unfolding GET_LENGTH_eq by (simp only: unat_MAKE_TAGWORD tagword_fields)

lemma IS_TAGWORD_MAKE_TAGWORD [simp]:
  "l < 2 ^ 25 \<Longrightarrow> t < 32 \<Longrightarrow> IS_TAGWORD (MAKE_TAGWORD l t)"
  unfolding IS_TAGWORD_iff by (simp only: unat_MAKE_TAGWORD tagword_fields)

section \<open>Tagged integers and marked pointers\<close>

lemma TAGGED_INT_FROM_C_INT_tagged [simp]: "IS_TAGGED_INT (TAGGED_INT_FROM_C_INT n)"
proof -
  have "odd (TAGGED_INT_FROM_C_INT n)"
    by (simp add: TAGGED_INT_FROM_C_INT_def push_bit_eq_mult)
  then show ?thesis
    by (simp add: IS_TAGGED_INT_def TAGGED_INT_ATAG_def and_one_eq odd_iff_mod_2_eq_one)
qed

lemma TAGGED_INT_round_trip [simp]:
  assumes "- (2 ^ 30) \<le> n" and "n < 2 ^ 30"
  shows "TAGGED_INT_TO_C_INT (TAGGED_INT_FROM_C_INT n) = n"
proof -
  have "TAGGED_INT_FROM_C_INT n = word_of_int (2 * n + 1)"
    by (simp add: TAGGED_INT_FROM_C_INT_def push_bit_eq_mult)
  moreover have "sint (word_of_int (2 * n + 1) :: val) = 2 * n + 1"
    using assms signed_take_bit_int_eq_self [of 31 "2 * n + 1"]
    by (simp only: signed_of_int) simp
  ultimately show ?thesis
    by (simp add: TAGGED_INT_TO_C_INT_def sint_signed_drop_bit_eq drop_bit_eq_div)
qed

lemma UNMARK_MARK_POINTER: "IS_POINTER p \<Longrightarrow> UNMARK_POINTER (MARK_POINTER p) = p"
proof -
  assume "IS_POINTER p"
  then have "p AND 3 = 0" by (simp add: IS_POINTER_def ATAG_MASK_def POINTER_ATAG_def)
  then have "bit (p AND 3) 0 = bit (0 :: val) 0" by (simp only:)
  moreover have "bit (3 :: val) 0" by simp
  ultimately have "\<not> bit p 0" unfolding bit_and_iff by simp
  then show ?thesis
    unfolding UNMARK_POINTER_def MARK_POINTER_def
    by (intro bit_word_eqI) (auto simp: bit_simps bit_1_iff intro: gr0I)
qed

lemma MARK_POINTER_tagged [simp]: "IS_TAGGED_INT (MARK_POINTER p)"
proof -
  have "(p OR 1) AND 1 = 1" by (rule bit_word_eqI) (auto simp: bit_simps)
  then show ?thesis by (simp add: IS_TAGGED_INT_def MARK_POINTER_def TAGGED_INT_ATAG_def)
qed

text \<open>
  Every heap word is exactly one of a pointer, a tagged integer and a tagword, as the
  three macros \<open>IS_POINTER\<close>, \<open>IS_TAGGED_INT\<close> and \<open>IS_TAGWORD\<close> see it.
\<close>

theorem heap_word_classes:
  "IS_POINTER w \<and> \<not> IS_TAGGED_INT w \<and> \<not> IS_TAGWORD w \<or>
   \<not> IS_POINTER w \<and> IS_TAGGED_INT w \<and> \<not> IS_TAGWORD w \<or>
   \<not> IS_POINTER w \<and> \<not> IS_TAGGED_INT w \<and> IS_TAGWORD w"
  unfolding atag_iffs by presburger

text \<open>
  A tagword built from a length below \<open>2 ^ 25\<close> and a 5-bit B-tag gives both back, and
  is classified as a tagword.
\<close>

theorem tagword_round_trip:
  assumes "l < 2 ^ 25" and "t < 2 ^ BTAG_WIDTH_IN_BITS"
  shows "GET_LENGTH_IN_WORDS_FROM_TAGWORD (MAKE_TAGWORD l t) = l \<and>
    GET_BTAG_FROM_TAGWORD (MAKE_TAGWORD l t) = t \<and> IS_TAGWORD (MAKE_TAGWORD l t)"
  using assms by (simp add: BTAG_WIDTH_IN_BITS_def)

theorem tagword_round_trip_witness:
  "GET_LENGTH_IN_WORDS_FROM_TAGWORD (MAKE_TAGWORD 33554431 FORWARDED_CHUNK_BTAG) = 33554431"
  using tagword_round_trip [of 33554431 FORWARDED_CHUNK_BTAG]
  by (simp add: FORWARDED_CHUNK_BTAG_def BTAG_WIDTH_IN_BITS_def)

end
