(* ===== verification/Bigcounters.thy ===== *)
theory Bigcounters
  imports Prelude
begin

text \<open>
  The counters of \<open>src/c/h/bigcounter.h\<close>: two 32-bit words holding millions and ones. The
  carry test of the macros is \<open>ones > ONE_MILLION\<close>, so a counter may rest with exactly one
  million ones; the value is right, the printed form is not.
\<close>

definition ONE_MILLION :: nat where "ONE_MILLION = 1000000"

record bigcounter =
  millions :: vunt
  ones :: vunt

definition bigcounter_value :: "bigcounter \<Rightarrow> nat" where
  "bigcounter_value c = unat (millions c) * ONE_MILLION + unat (ones c)"

definition ZERO_BIGCOUNTER :: "bigcounter \<Rightarrow> bigcounter" where
  "ZERO_BIGCOUNTER c = c\<lparr>ones := 0, millions := 0\<rparr>"

definition carry_once :: "bigcounter \<Rightarrow> bigcounter" where
  "carry_once c = c\<lparr>ones := ones c - word_of_nat ONE_MILLION, millions := millions c + 1\<rparr>"

definition INCREMENT_BIGCOUNTER :: "bigcounter \<Rightarrow> bigcounter" where
  "INCREMENT_BIGCOUNTER c =
     (let c = c\<lparr>ones := ones c + 1\<rparr>
      in if ones c > word_of_nat ONE_MILLION then carry_once c else c)"

lemma unat_one_million [simp]: "unat (word_of_nat ONE_MILLION :: vunt) = 1000000"
  by (simp add: ONE_MILLION_def)

lemma unat_ones_carry_once:
  "ones c > word_of_nat ONE_MILLION \<Longrightarrow> unat (ones (carry_once c)) = unat (ones c) - 1000000"
  by (simp add: carry_once_def unat_sub_if_size word_less_nat_alt)

function carry_loop :: "bigcounter \<Rightarrow> bigcounter" where
  "carry_loop c = (if ones c > word_of_nat ONE_MILLION then carry_loop (carry_once c) else c)"
  by pat_completeness auto
termination
  by (relation "measure (\<lambda>c. unat (ones c))") (auto simp: unat_ones_carry_once word_less_nat_alt)

declare carry_loop.simps [simp del]

definition INCREASE_BIGCOUNTER :: "bigcounter \<Rightarrow> vunt \<Rightarrow> bigcounter" where
  "INCREASE_BIGCOUNTER c i = carry_loop (c\<lparr>ones := ones c + i\<rparr>)"

definition BIGCOUNTER_ADD :: "bigcounter \<Rightarrow> bigcounter \<Rightarrow> bigcounter" where
  "BIGCOUNTER_ADD c1 c2 =
     (let c = c1\<lparr>ones := ones c1 + ones c2\<rparr>;
          c = (if ones c > word_of_nat ONE_MILLION then carry_once c else c)
      in c\<lparr>millions := millions c + millions c2\<rparr>)"

definition BIGCOUNTER_FPRINTF :: "bigcounter \<Rightarrow> int \<Rightarrow> string" where
  "BIGCOUNTER_FPRINTF c wid =
     (if millions c > 0
      then pad_field (wid - 6) (decimal_int (sint (millions c))) @ zero_field 6 (sint (ones c))
      else pad_field wid (decimal_int (sint (ones c))))"

section \<open>Facts\<close>

lemma carry_once_value:
  assumes "ones c > word_of_nat ONE_MILLION" and "unat (millions c) + 1 < 2 ^ 32"
  shows "bigcounter_value (carry_once c) = bigcounter_value c"
proof -
  have "unat (millions c + 1) = unat (millions c) + 1"
    using assms(2) by (simp add: unat_word_ariths)
  moreover have "millions (carry_once c) = millions c + 1"
    by (simp add: carry_once_def)
  ultimately show ?thesis
    using assms(1) unat_ones_carry_once [OF assms(1)]
    by (simp add: bigcounter_value_def word_less_nat_alt ONE_MILLION_def)
qed

lemma carry_loop_ones: "unat (ones (carry_loop c)) \<le> ONE_MILLION"
proof (induction c rule: carry_loop.induct)
  case (1 c)
  show ?case
  proof (cases "ones c > word_of_nat ONE_MILLION")
    case True
    with 1 show ?thesis by (simp add: carry_loop.simps [of c])
  next
    case False
    then show ?thesis
      by (simp add: carry_loop.simps [of c] word_less_nat_alt ONE_MILLION_def)
  qed
qed

lemma carry_loop_value:
  "unat (millions c) + unat (ones c) div ONE_MILLION < 2 ^ 32 \<Longrightarrow>
    bigcounter_value (carry_loop c) = bigcounter_value c"
proof (induction c rule: carry_loop.induct)
  case (1 c)
  show ?case
  proof (cases "ones c > word_of_nat ONE_MILLION")
    case True
    then have gt: "1000000 < unat (ones c)" by (simp add: word_less_nat_alt)
    then have pos: "1 \<le> unat (ones c) div ONE_MILLION" by (simp add: ONE_MILLION_def)
    with "1.prems" have m: "unat (millions c) + 1 < 2 ^ 32" by linarith
    then have "unat (millions (carry_once c)) = unat (millions c) + 1"
      by (simp add: carry_once_def unat_word_ariths)
    moreover have "unat (ones (carry_once c)) div ONE_MILLION = unat (ones c) div ONE_MILLION - 1"
      using unat_ones_carry_once [OF True] gt by (simp add: ONE_MILLION_def)
    ultimately have "bigcounter_value (carry_loop (carry_once c)) = bigcounter_value (carry_once c)"
      using "1.prems" pos by (intro "1.IH" True) linarith
    with True m show ?thesis
      by (simp add: carry_loop.simps [of c] carry_once_value)
  next
    case False
    then show ?thesis by (simp add: carry_loop.simps [of c])
  qed
qed

section \<open>Properties\<close>

text \<open>
  Adding \<open>i\<close> to a counter adds \<open>i\<close> to its value and leaves at most one million
  ones, as long as neither word of the counter wraps.
\<close>

theorem increase_bigcounter_value:
  assumes "unat (ones c) + unat i < 2 ^ 32" and "unat (millions c) + 4295 < 2 ^ 32"
  shows "bigcounter_value (INCREASE_BIGCOUNTER c i) = bigcounter_value c + unat i \<and>
    unat (ones (INCREASE_BIGCOUNTER c i)) \<le> ONE_MILLION"
proof -
  let ?c = "c\<lparr>ones := ones c + i\<rparr>"
  have o: "unat (ones ?c) = unat (ones c) + unat i"
    using assms(1) by (simp add: unat_word_ariths)
  with assms have "unat (millions ?c) + unat (ones ?c) div ONE_MILLION < 2 ^ 32"
    by (simp add: ONE_MILLION_def)
  then have "bigcounter_value (carry_loop ?c) = bigcounter_value ?c"
    by (rule carry_loop_value)
  with o show ?thesis
    by (simp add: INCREASE_BIGCOUNTER_def carry_loop_ones) (simp add: bigcounter_value_def)
qed

theorem increase_bigcounter_value_witness:
  "bigcounter_value (INCREASE_BIGCOUNTER \<lparr>millions = 7, ones = 999999\<rparr> 2500000) = 10499999"
  using increase_bigcounter_value [of "\<lparr>millions = 7, ones = 999999\<rparr>" 2500000]
  by (simp add: bigcounter_value_def ONE_MILLION_def)

text \<open>
  A counter with fewer than one million ones prints the decimal digits of its value, in
  a field of the width asked for.
\<close>

theorem bigcounter_print:
  assumes "unat (millions c) < 2 ^ 31" and "unat (ones c) < ONE_MILLION" and "6 \<le> wid"
  shows "BIGCOUNTER_FPRINTF c wid = pad_field wid (decimal (bigcounter_value c))"
proof -
  let ?m = "unat (millions c)" and ?o = "unat (ones c)"
  have m: "sint (millions c) = int ?m"
    using assms(1) by (rule sint_small)
  have o: "sint (ones c) = int ?o"
    using assms(2) by (intro sint_small) (simp add: ONE_MILLION_def)
  show ?thesis
  proof (cases "millions c > 0")
    case True
    then have pos: "0 < ?m" by (simp add: word_less_nat_alt)
    have z: "zero_field 6 (int ?o) = low_digits 6 ?o"
      using assms(2) by (intro zero_field_low_digits) (simp_all add: ONE_MILLION_def)
    have d: "decimal (bigcounter_value c) = decimal ?m @ low_digits 6 ?o"
      using assms(2) pos decimal_split [of ?m ?o 6]
      by (simp add: bigcounter_value_def ONE_MILLION_def)
    have "nat (wid - 6) - length (decimal ?m) = nat wid - length (decimal ?m @ low_digits 6 ?o)"
      using assms(3) by simp
    with True assms(3) show ?thesis
      unfolding BIGCOUNTER_FPRINTF_def m o z d decimal_int_of_nat by (simp add: pad_field_def)
  next
    case False
    then have "?m = 0" by (simp add: word_less_nat_alt)
    with False show ?thesis
      unfolding BIGCOUNTER_FPRINTF_def o decimal_int_of_nat by (simp add: bigcounter_value_def)
  qed
qed

theorem bigcounter_print_witness:
  "BIGCOUNTER_FPRINTF \<lparr>millions = 12, ones = 34\<rparr> 10 = pad_field 10 (decimal 12000034)"
  using bigcounter_print [of "\<lparr>millions = 12, ones = 34\<rparr>" 10]
  by (simp add: bigcounter_value_def ONE_MILLION_def)

text \<open>
  The carry loop also stops at exactly one million ones, and then the six-digit field
  holds seven digits: a counter of one million to which one million is added holds the value
  two million and prints \<open>11000000\<close>.
\<close>

theorem bigcounter_misprints_two_million:
  "bigcounter_value (INCREASE_BIGCOUNTER \<lparr>millions = 1, ones = 0\<rparr> 1000000) = 2000000 \<and>
   BIGCOUNTER_FPRINTF (INCREASE_BIGCOUNTER \<lparr>millions = 1, ones = 0\<rparr> 1000000) 0 \<noteq> decimal 2000000"
proof -
  have "INCREASE_BIGCOUNTER \<lparr>millions = 1, ones = 0\<rparr> 1000000 = \<lparr>millions = 1, ones = 1000000\<rparr>"
    by (simp add: INCREASE_BIGCOUNTER_def carry_loop.simps ONE_MILLION_def)
  moreover have "sint (1000000 :: vunt) = 1000000"
    using sint_small [of 1000000] by simp
  ultimately show ?thesis
    by (simp add: bigcounter_value_def ONE_MILLION_def BIGCOUNTER_FPRINTF_def pad_field_def
        decimal_int_def zero_field_def decimal.simps digit_char_def)
qed

end
