(* ===== verification/Sibids.thy ===== *)
theory Sibids
  imports Heap_Tags
begin

text \<open>
  Sib ids (\<open>src/c/h/sibid.h\<close>): the 16-bit value the runtime keeps for every 64 KB book of
  address space, with the age group, the kind of data and an id bit field, and the loop that
  marks the books of a region (\<open>set_book2sibid_entries_for_range\<close> in
  \<open>src/c/heapcleaner/heapcleaner-stuff.c\<close>). The book map is a function from book numbers.
  The lemmas give the bit fields back, show that the comparison \<open>SIBID_IS_IN_FROMSPACE\<close> is
  a comparison of ages, and say which pointers a marked region answers for.
\<close>

unbundle bit_operations_syntax

type_synonym sibid = unt16
type_synonym book2sibid = "nat \<Rightarrow> sibid"

section \<open>Sibs\<close>

text \<open>The four plain sibs of an age group, in the order of their numbers.\<close>

datatype ilk = RO_POINTERS_SIB | RO_CONSCELL_SIB | NONPTR_DATA_SIB | RW_POINTERS_SIB

primrec ilk_number :: "ilk \<Rightarrow> nat" where
  "ilk_number RO_POINTERS_SIB = 0"
| "ilk_number RO_CONSCELL_SIB = 1"
| "ilk_number NONPTR_DATA_SIB = 2"
| "ilk_number RW_POINTERS_SIB = 3"

definition MAX_PLAIN_SIBS :: nat where "MAX_PLAIN_SIBS = 4"

lemma ilk_number_eq_iff [simp]: "ilk_number a = ilk_number b \<longleftrightarrow> a = b"
  by (cases a; cases b) simp_all

instantiation ilk :: linorder
begin

definition less_eq_ilk :: "ilk \<Rightarrow> ilk \<Rightarrow> bool" where
  "less_eq_ilk a b \<longleftrightarrow> ilk_number a \<le> ilk_number b"

definition less_ilk :: "ilk \<Rightarrow> ilk \<Rightarrow> bool" where
  "less_ilk a b \<longleftrightarrow> ilk_number a < ilk_number b"

instance
  by standard (auto simp: less_eq_ilk_def less_ilk_def)

end

definition all_ilks :: "ilk list" where
  "all_ilks = [RO_POINTERS_SIB, RO_CONSCELL_SIB, NONPTR_DATA_SIB, RW_POINTERS_SIB]"

lemma all_ilks: "set all_ilks = UNIV" "sorted all_ilks" "length all_ilks = MAX_PLAIN_SIBS"
proof -
  show "set all_ilks = UNIV"
    unfolding all_ilks_def by (rule set_eqI) (case_tac x, simp_all)
  show "sorted all_ilks" by (simp add: all_ilks_def less_eq_ilk_def)
  show "length all_ilks = MAX_PLAIN_SIBS" by (simp add: all_ilks_def MAX_PLAIN_SIBS_def)
qed

section \<open>Building and reading sib ids\<close>

definition KIND_FROM_SIB :: "nat \<Rightarrow> nat" where "KIND_FROM_SIB sib = sib + 1"
definition KIND_FROM_HUGESIB :: "nat \<Rightarrow> nat" where
  "KIND_FROM_HUGESIB sib = 0x8 OR push_bit 1 sib"

definition CODE__HUGE_SIB :: nat where "CODE__HUGE_SIB = 0"
definition NEW_KIND :: nat where "NEW_KIND = 0"
definition RO_POINTERS_KIND :: nat where
  "RO_POINTERS_KIND = KIND_FROM_SIB (ilk_number RO_POINTERS_SIB)"
definition RO_CONSCELL_KIND :: nat where
  "RO_CONSCELL_KIND = KIND_FROM_SIB (ilk_number RO_CONSCELL_SIB)"
definition NONPTR_DATA_KIND :: nat where
  "NONPTR_DATA_KIND = KIND_FROM_SIB (ilk_number NONPTR_DATA_SIB)"
definition RW_POINTERS_KIND :: nat where
  "RW_POINTERS_KIND = KIND_FROM_SIB (ilk_number RW_POINTERS_SIB)"
definition CODE_KIND :: nat where "CODE_KIND = KIND_FROM_HUGESIB CODE__HUGE_SIB"

lemmas kind_defs =
  KIND_FROM_SIB_def KIND_FROM_HUGESIB_def CODE__HUGE_SIB_def NEW_KIND_def RO_POINTERS_KIND_def
  RO_CONSCELL_KIND_def NONPTR_DATA_KIND_def RW_POINTERS_KIND_def CODE_KIND_def

definition MAX_AGEGROUPS :: nat where "MAX_AGEGROUPS = push_bit 4 1 - 2"
definition AGEGROUP0 :: nat where "AGEGROUP0 = 0"
definition HUGECHUNK_DATA :: nat where "HUGECHUNK_DATA = 0"
definition HUGECHUNK_RECORD :: nat where "HUGECHUNK_RECORD = 1"
definition MAX_KIND :: nat where "MAX_KIND = 0xf"
definition MAX_ID :: nat where "MAX_ID = 0xff"

definition MAKE_SIBID :: "nat \<Rightarrow> nat \<Rightarrow> nat \<Rightarrow> sibid" where
  "MAKE_SIBID age kind ident = word_of_nat (push_bit 12 age OR push_bit 8 kind OR ident)"

definition MAKE_MAX_SIBID :: "nat \<Rightarrow> sibid" where
  "MAKE_MAX_SIBID age = MAKE_SIBID age MAX_KIND MAX_ID"

definition GET_ID_FROM_SIBID :: "sibid \<Rightarrow> nat" where
  "GET_ID_FROM_SIBID s = unat (s AND mask 8)"

definition GET_KIND_FROM_SIBID :: "sibid \<Rightarrow> nat" where
  "GET_KIND_FROM_SIBID s = unat (drop_bit 8 s AND mask 4)"

definition GET_AGE_FROM_SIBID :: "sibid \<Rightarrow> nat" where
  "GET_AGE_FROM_SIBID s = unat (drop_bit 12 s)"

definition SIBID_IS_IN_FROMSPACE :: "sibid \<Rightarrow> sibid \<Rightarrow> bool" where
  "SIBID_IS_IN_FROMSPACE s max_sibid \<longleftrightarrow> s \<le> max_sibid"

definition AGEGROUP0_SIBID :: sibid where
  "AGEGROUP0_SIBID = MAKE_SIBID AGEGROUP0 NEW_KIND 0"
definition UNMAPPED_BOOK_SIBID :: sibid where "UNMAPPED_BOOK_SIBID = 0xffff"
definition MAX_SIBID :: sibid where "MAX_SIBID = MAKE_MAX_SIBID MAX_AGEGROUPS"

definition HUGECHUNK_DATA_SIBID :: "nat \<Rightarrow> sibid" where
  "HUGECHUNK_DATA_SIBID age = MAKE_SIBID age CODE_KIND HUGECHUNK_DATA"
definition HUGECHUNK_RECORD_SIBID :: "nat \<Rightarrow> sibid" where
  "HUGECHUNK_RECORD_SIBID age = MAKE_SIBID age CODE_KIND HUGECHUNK_RECORD"

definition SIBID_ID_IS_BIGCHUNK_RECORD :: "sibid \<Rightarrow> bool" where
  "SIBID_ID_IS_BIGCHUNK_RECORD s \<longleftrightarrow> GET_ID_FROM_SIBID s = HUGECHUNK_RECORD"
definition SIBID_KIND_IS_CODE :: "sibid \<Rightarrow> bool" where
  "SIBID_KIND_IS_CODE s \<longleftrightarrow> GET_KIND_FROM_SIBID s = CODE_KIND"
definition BOOK_IS_UNMAPPED :: "sibid \<Rightarrow> bool" where
  "BOOK_IS_UNMAPPED s \<longleftrightarrow> s = UNMAPPED_BOOK_SIBID"

section \<open>Books\<close>

definition LOG2_BOOK_BYTESIZE :: nat where "LOG2_BOOK_BYTESIZE = 16"
definition BOOK_BYTESIZE :: nat where "BOOK_BYTESIZE = 2 ^ LOG2_BOOK_BYTESIZE"

definition BOOKROUNDED_BYTESIZE :: "nat \<Rightarrow> nat" where
  "BOOKROUNDED_BYTESIZE bytesize = round_up_to_power_of_two bytesize BOOK_BYTESIZE"

definition GET_BOOK_CONTAINING_POINTEE :: "vunt \<Rightarrow> nat" where
  "GET_BOOK_CONTAINING_POINTEE a = unat (drop_bit LOG2_BOOK_BYTESIZE a)"

definition ADDRESS_OF_BOOK :: "nat \<Rightarrow> vunt" where
  "ADDRESS_OF_BOOK i = push_bit LOG2_BOOK_BYTESIZE (word_of_nat i)"

definition SIBID_FOR_POINTER :: "book2sibid \<Rightarrow> vunt \<Rightarrow> sibid" where
  "SIBID_FOR_POINTER b a = b (GET_BOOK_CONTAINING_POINTEE a)"

function set_books_from :: "book2sibid \<Rightarrow> nat \<Rightarrow> nat \<Rightarrow> sibid \<Rightarrow> book2sibid" where
  "set_books_from b start finish sibid =
     (if start < finish then set_books_from (b(start := sibid)) (Suc start) finish sibid else b)"
  by pat_completeness auto
termination
  by (relation "measure (\<lambda>(b, start, finish, sibid). finish - start)") auto

declare set_books_from.simps [simp del]

definition set_book2sibid_entries_for_range ::
  "book2sibid \<Rightarrow> vunt \<Rightarrow> vunt \<Rightarrow> sibid \<Rightarrow> book2sibid" where
  "set_book2sibid_entries_for_range b base_address bytesize sibid =
     (let start = GET_BOOK_CONTAINING_POINTEE base_address;
          finish = GET_BOOK_CONTAINING_POINTEE (base_address + bytesize)
      in set_books_from b start finish sibid)"

section \<open>Facts\<close>

lemma unat_MAKE_SIBID:
  assumes "age < 16" "kind < 16" "ident < 256"
  shows "unat (MAKE_SIBID age kind ident) = age * 4096 + kind * 256 + ident"
proof -
  have "push_bit 8 kind OR ident = kind * 256 + ident"
    using nat_or_fields [of ident 8 kind] assms(3) by (simp add: push_bit_eq_mult)
  moreover have "age * 4096 OR (kind * 256 + ident) = age * 4096 + (kind * 256 + ident)"
    using nat_or_fields [of "kind * 256 + ident" 12 age] assms by simp
  ultimately have "push_bit 12 age OR push_bit 8 kind OR ident = age * 4096 + kind * 256 + ident"
    by (simp add: push_bit_eq_mult or.assoc)
  moreover have "age * 4096 + kind * 256 + ident < 2 ^ LENGTH(16)"
    using assms by simp
  ultimately show ?thesis
    unfolding MAKE_SIBID_def by (simp only: unat_word_of_nat)
qed

lemma GET_ID_eq: "GET_ID_FROM_SIBID s = unat s mod 256"
  by (simp add: GET_ID_FROM_SIBID_def unat_and_mask)

lemma GET_KIND_eq: "GET_KIND_FROM_SIBID s = unat s div 256 mod 16"
  by (simp add: GET_KIND_FROM_SIBID_def unat_and_mask unat_drop_bit)

lemma GET_AGE_eq: "GET_AGE_FROM_SIBID s = unat s div 4096"
  by (simp add: GET_AGE_FROM_SIBID_def unat_drop_bit)

lemmas sibid_fields = GET_ID_eq GET_KIND_eq GET_AGE_eq

lemma sibid_round_trip:
  assumes "age < 16" "kind < 16" "ident < 256"
  shows "GET_AGE_FROM_SIBID (MAKE_SIBID age kind ident) = age"
    and "GET_KIND_FROM_SIBID (MAKE_SIBID age kind ident) = kind"
    and "GET_ID_FROM_SIBID (MAKE_SIBID age kind ident) = ident"
proof -
  let ?n = "age * 4096 + kind * 256 + ident"
  have "?n div 256 = age * 16 + kind" and "?n div 4096 = age"
    using assms by linarith+
  moreover have "?n = ident + (age * 16 + kind) * 256" by simp
  then have "?n mod 256 = ident"
    using assms by (simp only: mod_mult_self1) simp
  ultimately have "?n div 256 = age * 16 + kind" and "?n div 4096 = age" and "?n mod 256 = ident" .
  then show "GET_AGE_FROM_SIBID (MAKE_SIBID age kind ident) = age"
    "GET_KIND_FROM_SIBID (MAKE_SIBID age kind ident) = kind"
    "GET_ID_FROM_SIBID (MAKE_SIBID age kind ident) = ident"
    using assms by (simp_all only: sibid_fields unat_MAKE_SIBID) simp_all
qed

lemma fromspace_iff_age:
  "m < 16 \<Longrightarrow> SIBID_IS_IN_FROMSPACE s (MAKE_MAX_SIBID m) \<longleftrightarrow> GET_AGE_FROM_SIBID s \<le> m"
  unfolding SIBID_IS_IN_FROMSPACE_def MAKE_MAX_SIBID_def word_le_nat_alt
  by (simp add: unat_MAKE_SIBID MAX_KIND_def MAX_ID_def GET_AGE_eq) linarith

lemma set_books_from_apply:
  "set_books_from b start finish s i = (if start \<le> i \<and> i < finish then s else b i)"
proof (induction b start finish s rule: set_books_from.induct)
  case (1 b start finish sibid)
  show ?case
  proof (cases "start < finish")
    case True
    then have "set_books_from b start finish sibid i =
        set_books_from (b(start := sibid)) (Suc start) finish sibid i"
      by (simp add: set_books_from.simps [of b start])
    with "1.IH" [OF True] True show ?thesis by (simp only:) auto
  next
    case False
    then show ?thesis by (subst set_books_from.simps) auto
  qed
qed

lemma GET_BOOK_eq: "GET_BOOK_CONTAINING_POINTEE a = unat a div 65536"
  by (simp add: GET_BOOK_CONTAINING_POINTEE_def LOG2_BOOK_BYTESIZE_def unat_drop_bit)

lemma set_range_apply:
  assumes "unat base + unat n < 2 ^ 32"
  shows "SIBID_FOR_POINTER (set_book2sibid_entries_for_range b base n s) a =
    (if unat base div 65536 \<le> unat a div 65536 \<and>
        unat a div 65536 < (unat base + unat n) div 65536 then s else SIBID_FOR_POINTER b a)"
proof -
  have "unat (base + n) = unat base + unat n"
    using assms by (simp add: unat_word_ariths)
  then show ?thesis
    by (simp add: SIBID_FOR_POINTER_def set_book2sibid_entries_for_range_def Let_def
        set_books_from_apply GET_BOOK_eq)
qed

section \<open>Properties\<close>

text \<open>
  The collector's from-space test compares ages: a book whose sib id was built for
  age \<open>a\<close> is in from-space of a collection of the age groups up to \<open>m\<close> exactly when
  \<open>a \<le> m\<close>, whatever its kind and id; and no book of any age group is taken for an
  unmapped one.
\<close>

theorem fromspace_test_is_age_test:
  assumes "a \<le> MAX_AGEGROUPS" and "m \<le> MAX_AGEGROUPS" and "kind \<le> MAX_KIND" and "ident \<le> MAX_ID"
  shows "(SIBID_IS_IN_FROMSPACE (MAKE_SIBID a kind ident) (MAKE_MAX_SIBID m) \<longleftrightarrow> a \<le> m) \<and>
    \<not> BOOK_IS_UNMAPPED (MAKE_SIBID a kind ident) \<and>
    \<not> SIBID_IS_IN_FROMSPACE UNMAPPED_BOOK_SIBID (MAKE_MAX_SIBID m)"
proof (intro conjI)
  have b: "a < 15" "m < 15" "kind < 16" "ident < 256"
    using assms by (simp_all add: MAX_AGEGROUPS_def MAX_KIND_def MAX_ID_def)
  then show "SIBID_IS_IN_FROMSPACE (MAKE_SIBID a kind ident) (MAKE_MAX_SIBID m) \<longleftrightarrow> a \<le> m"
    by (simp add: fromspace_iff_age sibid_round_trip)
  have "unat (MAKE_SIBID a kind ident) < 65535"
    using b by (simp add: unat_MAKE_SIBID)
  then show "\<not> BOOK_IS_UNMAPPED (MAKE_SIBID a kind ident)"
    by (auto simp: BOOK_IS_UNMAPPED_def UNMAPPED_BOOK_SIBID_def)
  show "\<not> SIBID_IS_IN_FROMSPACE UNMAPPED_BOOK_SIBID (MAKE_MAX_SIBID m)"
    using b by (simp add: fromspace_iff_age GET_AGE_eq UNMAPPED_BOOK_SIBID_def)
qed

theorem fromspace_test_is_age_test_witness:
  "SIBID_IS_IN_FROMSPACE (MAKE_SIBID 2 RW_POINTERS_KIND 0) (MAKE_MAX_SIBID 3) \<and>
   \<not> SIBID_IS_IN_FROMSPACE (MAKE_SIBID 4 RO_CONSCELL_KIND 255) (MAKE_MAX_SIBID 3)"
  using fromspace_test_is_age_test [of 2 3 RW_POINTERS_KIND 0]
    fromspace_test_is_age_test [of 4 3 RO_CONSCELL_KIND 255]
  by (simp add: MAX_AGEGROUPS_def MAX_KIND_def MAX_ID_def kind_defs)

text \<open>
  C39. Marking a book-aligned region gives its sib id to exactly the pointers into the region:
  every address inside reads the new id, every address outside reads what it read before.
\<close>

theorem marked_region_answers_for_its_addresses:
  assumes "unat base mod BOOK_BYTESIZE = 0" and "unat n mod BOOK_BYTESIZE = 0"
    and "unat base + unat n < 2 ^ 32"
  shows "SIBID_FOR_POINTER (set_book2sibid_entries_for_range b base n s) a =
    (if unat base \<le> unat a \<and> unat a < unat base + unat n then s else SIBID_FOR_POINTER b a)"
proof -
  obtain i j where ij: "unat base = i * 65536" "unat n = j * 65536"
    using assms(1,2) by (auto simp: BOOK_BYTESIZE_def LOG2_BOOK_BYTESIZE_def mod_eq_0_iff_dvd
        dvd_def mult.commute)
  have "i * 65536 \<le> unat a \<longleftrightarrow> i \<le> unat a div 65536"
    and "unat a < (i + j) * 65536 \<longleftrightarrow> unat a div 65536 < i + j"
    by (simp_all add: less_eq_div_iff_mult_less_eq div_less_iff_less_mult)
  moreover have "(i * 65536 + j * 65536) div 65536 = i + j" by simp
  ultimately show ?thesis
    unfolding set_range_apply [OF assms(3)] ij by (simp add: add_mult_distrib)
qed

theorem marked_region_answers_for_its_addresses_witness:
  "SIBID_FOR_POINTER (set_book2sibid_entries_for_range (\<lambda>_. UNMAPPED_BOOK_SIBID) 0x20000 0x30000
      (HUGECHUNK_DATA_SIBID 2)) 0x4FFFC = HUGECHUNK_DATA_SIBID 2"
  using marked_region_answers_for_its_addresses
    [of "0x20000" "0x30000" "\<lambda>_. UNMAPPED_BOOK_SIBID" "HUGECHUNK_DATA_SIBID 2" "0x4FFFC"]
  by (simp add: BOOK_BYTESIZE_def LOG2_BOOK_BYTESIZE_def)

end
