(* ===== verification/Cardmaps.thy ===== *)
theory Cardmaps
  imports Sibids
begin

text \<open>
  The card map (\<open>src/c/h/coarse-inter-agegroup-pointers-map.h\<close>): one byte per 256-byte card
  of an age group's read-write sib, holding the lowest age any pointer on the card points to.
  The mutator's log is turned into card ages with \<open>MAYBE_UPDATE_CARD_MIN_AGE_PER_POINTER\<close>;
  the collector visits the cards at or below an age with \<open>FOR_ALL_DIRTY_CARDS_IN_CARDMAP\<close>.
  The lemmas show that a recorded pointer's card is visited and that nothing else changes.
\<close>

unbundle bit_operations_syntax

record cardmap =
  base_address :: vunt
  card_count :: nat
  map_bytesize :: int
  min_age :: "unt8 list"

definition WORD_BYTESIZE :: nat where "WORD_BYTESIZE = 4"
definition CLEAN_CARD :: unt8 where "CLEAN_CARD = 0xff"
definition LOG2_CARD_BYTESIZE :: nat where "LOG2_CARD_BYTESIZE = 8"
definition CARD_BYTESIZE :: nat where "CARD_BYTESIZE = 2 ^ LOG2_CARD_BYTESIZE"

text \<open>The C struct has four 4-byte fields, the last of them the first word of the map proper.\<close>

definition SIZEOF_CARDMAP_STRUCT :: nat where "SIZEOF_CARDMAP_STRUCT = 16"

definition CARDMAP_BYTESIZE :: "nat \<Rightarrow> int" where
  "CARDMAP_BYTESIZE n = int SIZEOF_CARDMAP_STRUCT
     + (int (drop_bit 2 (n + (WORD_BYTESIZE - 1))) - 1) * int WORD_BYTESIZE"

definition POINTER_TO_CARD_INDEX :: "cardmap \<Rightarrow> vunt \<Rightarrow> nat" where
  "POINTER_TO_CARD_INDEX cm addr = unat (drop_bit LOG2_CARD_BYTESIZE (addr - base_address cm))"

definition CARDMAP_MIN_AGE_VALUE_FOR_POINTER :: "cardmap \<Rightarrow> vunt \<Rightarrow> unt8 result" where
  "CARDMAP_MIN_AGE_VALUE_FOR_POINTER cm p =
     (let i = POINTER_TO_CARD_INDEX cm p
      in if i < length (min_age cm) then Inr (min_age cm ! i) else Inl Wild)"

definition MAYBE_UPDATE_CARD_MIN_AGE_PER_POINTER :: "cardmap \<Rightarrow> vunt \<Rightarrow> int \<Rightarrow> cardmap result" where
  "MAYBE_UPDATE_CARD_MIN_AGE_PER_POINTER cm p age =
     (let i = POINTER_TO_CARD_INDEX cm p
      in if i < length (min_age cm)
         then Inr (if age < uint (min_age cm ! i)
                   then cm\<lparr>min_age := (min_age cm)[i := word_of_int age]\<rparr> else cm)
         else Inl Wild)"

definition CARD_IS_DIRTY :: "cardmap \<Rightarrow> nat \<Rightarrow> int \<Rightarrow> bool" where
  "CARD_IS_DIRTY cm i max_age \<longleftrightarrow> uint (min_age cm ! i) \<le> max_age"

text \<open>
  The loop macro, with its body \<open>cmd\<close> as a parameter. The body may change the map it
  loops over, so the map is read out of the loop's state at every step; the bound is read
  once, as in the macro.
\<close>

function for_all_dirty_from ::
  "('s \<Rightarrow> cardmap) \<Rightarrow> int \<Rightarrow> (nat \<Rightarrow> 's \<Rightarrow> 's result) \<Rightarrow> nat \<Rightarrow> nat \<Rightarrow> 's \<Rightarrow> 's result" where
  "for_all_dirty_from the_map max_age cmd count i s =
     (if i < count
      then if length (min_age (the_map s)) \<le> i then Inl Wild
           else if CARD_IS_DIRTY (the_map s) i max_age
           then seq_result (cmd i s) (for_all_dirty_from the_map max_age cmd count (Suc i))
           else for_all_dirty_from the_map max_age cmd count (Suc i) s
      else Inr s)"
  by pat_completeness auto
termination
  by (relation "measure (\<lambda>(the_map, max_age, cmd, count, i, s). count - i)") auto

declare for_all_dirty_from.simps [simp del]

definition FOR_ALL_DIRTY_CARDS_IN_CARDMAP ::
  "('s \<Rightarrow> cardmap) \<Rightarrow> int \<Rightarrow> (nat \<Rightarrow> 's \<Rightarrow> 's result) \<Rightarrow> 's \<Rightarrow> 's result" where
  "FOR_ALL_DIRTY_CARDS_IN_CARDMAP the_map max_age cmd s =
     for_all_dirty_from the_map max_age cmd (card_count (the_map s)) 0 s"

text \<open>
  \<open>make_new_coarse_inter_agegroup_pointers_map_for_agegroup\<close> in
  \<open>heapcleaner-stuff.c\<close>, for a sib whose to-space starts at \<open>start\<close> and has
  \<open>bytesize\<close> bytes: \<open>memset\<close> fills every byte of the map that was allocated.
\<close>

definition make_new_coarse_inter_agegroup_pointers_map_for_agegroup :: "vunt \<Rightarrow> nat \<Rightarrow> cardmap" where
  "make_new_coarse_inter_agegroup_pointers_map_for_agegroup start bytesize =
     (let map_size_in_slots = bytesize div CARD_BYTESIZE;
          bytes = CARDMAP_BYTESIZE map_size_in_slots
      in \<lparr>base_address = start, card_count = map_size_in_slots, map_bytesize = bytes,
          min_age = replicate (nat (bytes - (int SIZEOF_CARDMAP_STRUCT - int WORD_BYTESIZE))) CLEAN_CARD\<rparr>)"

section \<open>Facts\<close>

lemmas card_defs = WORD_BYTESIZE_def LOG2_CARD_BYTESIZE_def CARD_BYTESIZE_def
  SIZEOF_CARDMAP_STRUCT_def CARDMAP_BYTESIZE_def

text \<open>A map is well formed when it has a byte for each of its cards.\<close>

definition cardmap_ok :: "cardmap \<Rightarrow> bool" where
  "cardmap_ok cm \<longleftrightarrow> card_count cm \<le> length (min_age cm)"

definition dirty_cards :: "cardmap \<Rightarrow> int \<Rightarrow> nat list" where
  "dirty_cards cm max_age = filter (\<lambda>i. CARD_IS_DIRTY cm i max_age) [0..<card_count cm]"

text \<open>The sweep with a body that only notes the card: what the collector's body gets to see.\<close>

definition note_card :: "nat \<Rightarrow> cardmap \<times> nat list \<Rightarrow> (cardmap \<times> nat list) result" where
  "note_card i s = Inr (fst s, snd s @ [i])"

lemma for_all_dirty_from_notes:
  assumes "cardmap_ok cm" and "i \<le> card_count cm"
  shows "for_all_dirty_from fst max_age note_card (card_count cm) i (cm, xs) =
    Inr (cm, xs @ filter (\<lambda>i. CARD_IS_DIRTY cm i max_age) [i..<card_count cm])"
  using assms(2)
proof (induction "card_count cm - i" arbitrary: i xs)
  case 0
  then show ?case by (simp add: for_all_dirty_from.simps)
next
  case (Suc n)
  then have i: "i < card_count cm" and len: "i < length (min_age cm)"
    using assms(1) by (simp_all add: cardmap_ok_def)
  have IH: "for_all_dirty_from fst max_age note_card (card_count cm) (Suc i) (cm, ys) =
      Inr (cm, ys @ filter (\<lambda>i. CARD_IS_DIRTY cm i max_age) [Suc i..<card_count cm])" for ys
    using Suc.hyps Suc.prems i by (intro Suc.hyps(1)) simp_all
  show ?case
    using i len
    by (subst for_all_dirty_from.simps) (simp add: IH note_card_def upt_conv_Cons)
qed

lemma sweep_notes_dirty_cards:
  "cardmap_ok cm \<Longrightarrow>
    FOR_ALL_DIRTY_CARDS_IN_CARDMAP fst max_age note_card (cm, []) = Inr (cm, dirty_cards cm max_age)"
  using for_all_dirty_from_notes [of cm 0 max_age "[]"]
  by (simp add: FOR_ALL_DIRTY_CARDS_IN_CARDMAP_def dirty_cards_def)

lemma cardmap_ok_fresh:
  "cardmap_ok (make_new_coarse_inter_agegroup_pointers_map_for_agegroup start bytesize)"
  by (simp add: cardmap_ok_def make_new_coarse_inter_agegroup_pointers_map_for_agegroup_def
      Let_def card_defs drop_bit_eq_div)

lemma maybe_update_effect:
  assumes "cardmap_ok cm" and "POINTER_TO_CARD_INDEX cm p < card_count cm"
    and "0 \<le> age" and "age < 256"
    and "MAYBE_UPDATE_CARD_MIN_AGE_PER_POINTER cm p age = Inr cm'"
  shows "card_count cm' = card_count cm" and "length (min_age cm') = length (min_age cm)"
    and "j < card_count cm \<Longrightarrow> uint (min_age cm' ! j) =
      (if j = POINTER_TO_CARD_INDEX cm p then min age (uint (min_age cm ! j))
       else uint (min_age cm ! j))"
proof -
  have "uint (word_of_int age :: unt8) = age"
    using assms(3,4) by (simp add: unsigned_of_int take_bit_int_eq_self)
  then show "card_count cm' = card_count cm" "length (min_age cm') = length (min_age cm)"
    "j < card_count cm \<Longrightarrow> uint (min_age cm' ! j) =
      (if j = POINTER_TO_CARD_INDEX cm p then min age (uint (min_age cm ! j))
       else uint (min_age cm ! j))"
    using assms
    by (auto simp: MAYBE_UPDATE_CARD_MIN_AGE_PER_POINTER_def Let_def cardmap_ok_def
        nth_list_update split: if_splits)
qed

section \<open>Properties\<close>

text \<open>
  C25. The write barrier loses nothing: recording a pointer of an age the next collection
  covers succeeds, makes the sweep visit the pointer's card, and leaves every other card as
  dirty or clean as it was.
\<close>

theorem recorded_pointer_is_swept:
  assumes "cardmap_ok cm" and "POINTER_TO_CARD_INDEX cm p < card_count cm"
    and "0 \<le> age" and "age \<le> max_age" and "age < 255"
  shows "\<exists>cm'. MAYBE_UPDATE_CARD_MIN_AGE_PER_POINTER cm p age = Inr cm' \<and> cardmap_ok cm' \<and>
    FOR_ALL_DIRTY_CARDS_IN_CARDMAP fst max_age note_card (cm', []) = Inr (cm', dirty_cards cm' max_age) \<and>
    set (dirty_cards cm' max_age) = insert (POINTER_TO_CARD_INDEX cm p) (set (dirty_cards cm max_age))"
proof -
  obtain cm' where up: "MAYBE_UPDATE_CARD_MIN_AGE_PER_POINTER cm p age = Inr cm'"
    using assms(1,2) by (auto simp: MAYBE_UPDATE_CARD_MIN_AGE_PER_POINTER_def Let_def cardmap_ok_def)
  note eff = maybe_update_effect [OF assms(1,2,3) _ up]
  have ok: "cardmap_ok cm'" using eff(1,2) assms(1,5) by (simp add: cardmap_ok_def)
  have "set (dirty_cards cm' max_age) = insert (POINTER_TO_CARD_INDEX cm p) (set (dirty_cards cm max_age))"
    using eff(1) eff(3) assms(2,4,5) by (auto simp: dirty_cards_def CARD_IS_DIRTY_def)
  with up ok show ?thesis by (simp add: sweep_notes_dirty_cards)
qed

theorem recorded_pointer_is_swept_witness:
  "\<exists>cm'. MAYBE_UPDATE_CARD_MIN_AGE_PER_POINTER
      (make_new_coarse_inter_agegroup_pointers_map_for_agegroup 0x10000 0x10000) 0x10204 1 = Inr cm' \<and>
    2 \<in> set (dirty_cards cm' 3)"
proof -
  let ?cm = "make_new_coarse_inter_agegroup_pointers_map_for_agegroup 0x10000 0x10000"
  have i: "POINTER_TO_CARD_INDEX ?cm 0x10204 = 2"
    by (simp add: POINTER_TO_CARD_INDEX_def LOG2_CARD_BYTESIZE_def
        make_new_coarse_inter_agegroup_pointers_map_for_agegroup_def Let_def)
  moreover have "card_count ?cm = 256"
    by (simp add: make_new_coarse_inter_agegroup_pointers_map_for_agegroup_def Let_def card_defs)
  ultimately show ?thesis
    using recorded_pointer_is_swept [of ?cm "0x10204" 1 3] by (auto simp: cardmap_ok_fresh)
qed

text \<open>
  A freshly made card map has a card for every whole card of its sib and none of them is
  visited by a sweep up to any age group the heap can have.
\<close>

theorem fresh_cardmap_is_clean:
  assumes "max_age \<le> int MAX_AGEGROUPS"
  shows "FOR_ALL_DIRTY_CARDS_IN_CARDMAP fst max_age note_card
      (make_new_coarse_inter_agegroup_pointers_map_for_agegroup start bytesize, []) =
    Inr (make_new_coarse_inter_agegroup_pointers_map_for_agegroup start bytesize, [])"
proof -
  let ?cm = "make_new_coarse_inter_agegroup_pointers_map_for_agegroup start bytesize"
  have "uint (min_age ?cm ! i) = 255" if "i < card_count ?cm" for i
  proof -
    have "i < length (min_age ?cm)" using that cardmap_ok_fresh by (auto simp: cardmap_ok_def intro: less_le_trans)
    then show ?thesis
      by (simp add: make_new_coarse_inter_agegroup_pointers_map_for_agegroup_def Let_def CLEAN_CARD_def)
  qed
  then have "dirty_cards ?cm max_age = []"
    using assms by (auto simp: dirty_cards_def CARD_IS_DIRTY_def filter_empty_conv MAX_AGEGROUPS_def)
  then show ?thesis by (simp add: sweep_notes_dirty_cards cardmap_ok_fresh)
qed

theorem fresh_cardmap_is_clean_witness:
  "FOR_ALL_DIRTY_CARDS_IN_CARDMAP fst 14 note_card
      (make_new_coarse_inter_agegroup_pointers_map_for_agegroup 0x20000 0x30000, []) =
    Inr (make_new_coarse_inter_agegroup_pointers_map_for_agegroup 0x20000 0x30000, [])"
  by (rule fresh_cardmap_is_clean) (simp add: MAX_AGEGROUPS_def)

end
