(* ===== verification/Keyed_Tables.thy ===== *)
theory Keyed_Tables
  imports Prelude
begin

text \<open>
  The contract the runtime's hash tables share: keys are bound once; binding a key again to
  the same value changes nothing; binding it to another value is a call of \<open>die\<close>. The
  locale's lemmas say what a whole sequence of insertions leaves behind; the tables provide
  the contract by interpretation.
\<close>

fun insert_all :: "('t \<Rightarrow> 'k \<Rightarrow> 'v \<Rightarrow> 't result) \<Rightarrow> 't \<Rightarrow> ('k \<times> 'v) list \<Rightarrow> 't result" where
  "insert_all ins t [] = Inr t"
| "insert_all ins t ((k, v) # kvs) = seq_result (ins t k v) (\<lambda>t'. insert_all ins t' kvs)"

definition single_valued_list :: "('k \<times> 'v) list \<Rightarrow> bool" where
  "single_valued_list kvs \<longleftrightarrow> (\<forall>k v w. (k, v) \<in> set kvs \<longrightarrow> (k, w) \<in> set kvs \<longrightarrow> v = w)"

locale write_once_table =
  fixes lookup :: "'t \<Rightarrow> 'k \<Rightarrow> 'v option"
    and ins :: "'t \<Rightarrow> 'k \<Rightarrow> 'v \<Rightarrow> 't result"
    and invar :: "'t \<Rightarrow> bool"
  assumes ins_ok: "invar t \<Longrightarrow> lookup t k = None \<or> lookup t k = Some v \<Longrightarrow>
      \<exists>t'. ins t k v = Inr t' \<and> invar t' \<and> lookup t' = (lookup t)(k \<mapsto> v)"
    and ins_clash: "invar t \<Longrightarrow> lookup t k = Some w \<Longrightarrow> w \<noteq> v \<Longrightarrow> \<exists>m. ins t k v = Inl (Died m)"
begin

lemma ins_Inr_iff:
  assumes "invar t"
  shows "(\<exists>t'. ins t k v = Inr t') \<longleftrightarrow> lookup t k = None \<or> lookup t k = Some v"
  using ins_ok [OF assms] ins_clash [OF assms] by (cases "lookup t k") fastforce+

lemma ins_preserves: "invar t \<Longrightarrow> ins t k v = Inr t' \<Longrightarrow> invar t'"
  using ins_Inr_iff [of t k v] ins_ok [of t k v] by auto

lemma ins_lookup: "invar t \<Longrightarrow> ins t k v = Inr t' \<Longrightarrow> lookup t' = (lookup t)(k \<mapsto> v)"
  using ins_Inr_iff [of t k v] ins_ok [of t k v] by auto

lemma insert_all_ok:
  assumes "invar t" and "single_valued_list kvs"
    and "\<And>k v w. (k, v) \<in> set kvs \<Longrightarrow> lookup t k = Some w \<Longrightarrow> w = v"
  shows "\<exists>t'. insert_all ins t kvs = Inr t' \<and> invar t' \<and> lookup t' = lookup t ++ map_of kvs"
  using assms
proof (induction kvs arbitrary: t)
  case Nil
  then show ?case by simp
next
  case (Cons kv kvs)
  obtain k v where kv: "kv = (k, v)" by (cases kv)
  have "lookup t k = None \<or> lookup t k = Some v"
    using Cons.prems(3) [of k v] kv by (cases "lookup t k") auto
  then obtain t' where t': "ins t k v = Inr t'" "invar t'" "lookup t' = (lookup t)(k \<mapsto> v)"
    using ins_ok Cons.prems(1) by blast
  have sv: "single_valued_list kvs"
    using Cons.prems(2) by (auto simp: single_valued_list_def)
  have "w = v'" if "(k', v') \<in> set kvs" "lookup t' k' = Some w" for k' v' w
  proof (cases "k' = k")
    case True
    with that t'(3) Cons.prems(2) kv show ?thesis by (auto simp: single_valued_list_def)
  next
    case False
    with that t'(3) Cons.prems(3) show ?thesis by fastforce
  qed
  with Cons.IH [OF t'(2) sv] obtain t'' where
    t'': "insert_all ins t' kvs = Inr t''" "invar t''" "lookup t'' = lookup t' ++ map_of kvs" by blast
  have "map_of kvs k = None \<or> map_of kvs k = Some v"
    using Cons.prems(2) kv by (cases "map_of kvs k") (auto simp: single_valued_list_def dest: map_of_SomeD)
  then have "lookup t'' = lookup t ++ map_of (kv # kvs)"
    unfolding t''(3) t'(3) kv by (intro ext) (auto simp: map_add_def split: option.splits)
  moreover have "insert_all ins t (kv # kvs) = Inr t''"
    using t'(1) t''(1) kv by simp
  ultimately show ?case using t''(2) by blast
qed

lemma insert_all_clash:
  assumes "invar t" and "(k, v) \<in> set kvs" and "lookup t k = Some w" and "w \<noteq> v"
  shows "\<exists>m. insert_all ins t kvs = Inl (Died m)"
  using assms
proof (induction kvs arbitrary: t)
  case Nil
  then show ?case by simp
next
  case (Cons kv kvs)
  obtain k' v' where kv: "kv = (k', v')" by (cases kv)
  show ?case
  proof (cases "lookup t k' = None \<or> lookup t k' = Some v'")
    case True
    then obtain t' where t': "ins t k' v' = Inr t'" "invar t'" "lookup t' = (lookup t)(k' \<mapsto> v')"
      using ins_ok Cons.prems(1) by blast
    have "(k, v) \<in> set kvs" and "lookup t' k = Some w"
      using True Cons.prems kv t'(3) by auto
    with Cons.IH [OF t'(2)] Cons.prems(4) t'(1) kv show ?thesis by simp
  next
    case False
    then obtain w' where "lookup t k' = Some w'" "w' \<noteq> v'" by auto
    then show ?thesis using ins_clash Cons.prems(1) kv by force
  qed
qed

end

end
