(* ===== verification/Address_Hashtables.thy ===== *)
theory Address_Hashtables
  imports Keyed_Tables
begin

text \<open>
  The address hash tables of \<open>src/c/heapcleaner/address-hashtable.c\<close>: a vector of
  buckets whose length is a power of two, each bucket a linked list of items, new items at its
  front. The model keeps a bucket as the list of its (address, chunk) items; \<open>MALLOC\<close>, whose
  result the code does not check, is taken to give the memory asked for. The invariant
  says that an item sits in the bucket its address hashes to, once; the operations implement
  a finite map from addresses, which is the interpretation of the shared contract.
\<close>

unbundle bit_operations_syntax

record 'a addr_table =
  ignore_bits :: int
  bucket_count :: int
  mask :: vunt
  vals_count :: nat
  buckets :: "(vunt \<times> 'a) list list"

text \<open>A shift by a negative number of bits or by 32 and more is undefined in C.\<close>

definition HASH :: "'a addr_table \<Rightarrow> vunt \<Rightarrow> nat result" where
  "HASH table addr =
     (if ignore_bits table < 0 \<or> 32 \<le> ignore_bits table then Inl Wild
      else Inr (unat (drop_bit (nat (ignore_bits table)) addr AND mask table)))"

text \<open>
  The bucket count, an \<open>unsigned int\<close>, starts at 16 and is doubled while it is below \<open>buckets\<close>;
  the loop's state is the number of doublings. No \<open>int\<close> is above \<open>2 ^ 31 - 1\<close>, so the loop ends
  at \<open>2 ^ 31\<close> at the latest and the doubling does not wrap.
\<close>

function double_bucket_count :: "nat \<Rightarrow> nat \<Rightarrow> nat" where
  "double_bucket_count doublings wanted =
     (if 16 * 2 ^ doublings < wanted then double_bucket_count (Suc doublings) wanted
      else 16 * 2 ^ doublings)"
  by pat_completeness auto
termination
proof (relation "measure (\<lambda>(k, n). n - k)")
  fix k n :: nat
  assume "16 * 2 ^ k < n"
  moreover have "k < 2 ^ k" by (rule less_exp)
  ultimately have "k < n" by linarith
  then show "((Suc k, n), (k, n)) \<in> measure (\<lambda>(k, n). n - k)" by simp
qed simp

declare double_bucket_count.simps [simp del]

text \<open>
  The size of the vector in bytes is a 32-bit product. When it wraps, the vector is shorter than
  the loop that clears it takes it to be.
\<close>

definition make_address_hashtable :: "int \<Rightarrow> int \<Rightarrow> 'a addr_table result" where
  "make_address_hashtable ignore wanted =
     (let wanted = (if wanted < 16 then 16 else wanted);
          n = double_bucket_count 0 (nat wanted)
      in if unat (word_of_nat n * 4 :: vunt) < n * 4 then Inl Wild
         else Inr \<lparr>ignore_bits = ignore, bucket_count = sint (word_of_nat n :: vunt), mask = word_of_nat n - 1,
                vals_count = 0, buckets = replicate n []\<rparr>)"

fun find_item :: "vunt \<Rightarrow> (vunt \<times> 'a) list \<Rightarrow> 'a option" where
  "find_item addr [] = None"
| "find_item addr ((a, c) # items) = (if a \<noteq> addr then find_item addr items else Some c)"

definition bucket_of :: "'a addr_table \<Rightarrow> nat \<Rightarrow> (vunt \<times> 'a) list result" where
  "bucket_of table h = (if h < length (buckets table) then Inr (buckets table ! h) else Inl Wild)"

definition addresstable_insert :: "'a addr_table \<Rightarrow> vunt \<Rightarrow> 'a \<Rightarrow> 'a addr_table result" where
  "addresstable_insert table addr chunk =
     seq_result (HASH table addr) (\<lambda>h.
     seq_result (bucket_of table h) (\<lambda>items.
        case find_item addr items of
           None \<Rightarrow> Inr (table\<lparr>buckets := (buckets table)[h := (addr, chunk) # items],
                             vals_count := vals_count table + 1\<rparr>)
         | Some c \<Rightarrow>
             if c \<noteq> chunk then Inl (Died ''addresstable_insert: mapped to multiple chunks'')
             else Inr table))"

definition addresstable_look_up :: "'a addr_table \<Rightarrow> vunt \<Rightarrow> 'a option result" where
  "addresstable_look_up table addr =
     seq_result (HASH table addr) (\<lambda>h.
     seq_result (bucket_of table h) (\<lambda>items. Inr (find_item addr items)))"

text \<open>
  Both loops count an \<open>int\<close> from 0 up to \<open>bucket_count\<close>: none of the buckets when it is negative.
\<close>

definition addresstable_apply :: "'a addr_table \<Rightarrow> (vunt \<Rightarrow> 'a \<Rightarrow> 's \<Rightarrow> 's) \<Rightarrow> 's \<Rightarrow> 's result" where
  "addresstable_apply table f s =
     (if int (length (buckets table)) < bucket_count table then Inl Wild
      else Inr (fold (\<lambda>bucket s. fold (\<lambda>(a, c) s. f a c s) bucket s)
                  (take (nat (bucket_count table)) (buckets table)) s))"

text \<open>\<open>free_address_table\<close> as the list of the blocks it hands to \<open>FREE\<close>, in order.\<close>

datatype 'a block = Chunk_block 'a | Item_block vunt | Buckets_block | Table_block

definition free_address_table :: "'a addr_table \<Rightarrow> bool \<Rightarrow> 'a block list result" where
  "free_address_table table free_chunks_also =
     (if int (length (buckets table)) < bucket_count table then Inl Wild
      else Inr (concat (map (\<lambda>bucket. concat (map (\<lambda>(a, c).
         (if free_chunks_also then [Chunk_block c] else []) @ [Item_block a]) bucket))
         (take (nat (bucket_count table)) (buckets table)))
       @ [Buckets_block, Table_block]))"

section \<open>The invariant\<close>

definition table_items :: "'a addr_table \<Rightarrow> (vunt \<times> 'a) list" where
  "table_items table = concat (buckets table)"

definition hash_index :: "'a addr_table \<Rightarrow> vunt \<Rightarrow> nat" where
  "hash_index table addr = unat (drop_bit (nat (ignore_bits table)) addr AND mask table)"

definition addr_table_ok :: "'a addr_table \<Rightarrow> bool" where
  "addr_table_ok t \<longleftrightarrow>
     0 \<le> ignore_bits t \<and> ignore_bits t < 32 \<and> bucket_count t = int (length (buckets t)) \<and>
     (\<exists>k \<le> 29. length (buckets t) = 2 ^ k \<and> mask t = word_of_nat (2 ^ k) - 1) \<and>
     (\<forall>h < length (buckets t). \<forall>a c. (a, c) \<in> set (buckets t ! h) \<longrightarrow> hash_index t a = h) \<and>
     (\<forall>h < length (buckets t). distinct (map fst (buckets t ! h))) \<and>
     vals_count t = length (table_items t)"

lemma find_item_map_of: "find_item a items = map_of items a"
  by (induction a items rule: find_item.induct) auto

lemma hash_index_bound: "addr_table_ok t \<Longrightarrow> hash_index t a < length (buckets t)"
proof -
  assume "addr_table_ok t"
  then obtain k where k: "k \<le> 29" "length (buckets t) = 2 ^ k" "mask t = word_of_nat (2 ^ k) - 1"
    by (auto simp: addr_table_ok_def)
  have "mask t = (Bit_Operations.mask k :: vunt)"
    by (simp add: k(3) mask_eq_decr_exp)
  then show ?thesis by (simp add: hash_index_def unat_and_mask k(2))
qed

lemma HASH_ok: "addr_table_ok t \<Longrightarrow> HASH t a = Inr (hash_index t a)"
  by (simp add: HASH_def addr_table_ok_def hash_index_def)

lemma bucket_of_ok: "addr_table_ok t \<Longrightarrow> bucket_of t (hash_index t a) = Inr (buckets t ! hash_index t a)"
  by (simp add: bucket_of_def hash_index_bound)

lemma look_up_ok: "addr_table_ok t \<Longrightarrow> addresstable_look_up t a = Inr (map_of (buckets t ! hash_index t a) a)"
  by (simp add: addresstable_look_up_def HASH_ok bucket_of_ok find_item_map_of)

text \<open>The finite map a table stands for.\<close>

definition found_at :: "'a addr_table \<Rightarrow> vunt \<rightharpoonup> 'a" where
  "found_at t a = map_of (buckets t ! hash_index t a) a"

lemma double_bucket_count_props:
  "\<exists>k. double_bucket_count d n = 2 ^ k \<and> n \<le> 2 ^ k \<and> (double_bucket_count d n = 16 * 2 ^ d \<or> 2 ^ k < 2 * n)"
proof (induction d n rule: double_bucket_count.induct)
  case (1 d n)
  show ?case
  proof (cases "16 * 2 ^ d < n")
    case True
    with "1.IH" obtain k where k: "double_bucket_count (Suc d) n = 2 ^ k" "n \<le> 2 ^ k"
      "double_bucket_count (Suc d) n = 16 * 2 ^ Suc d \<or> 2 ^ k < 2 * n" by blast
    have "2 ^ k < 2 * n" using k(1,3) True by auto
    with True k show ?thesis by (subst (1 2) double_bucket_count.simps) auto
  next
    case False
    moreover have "16 * 2 ^ d = (2 :: nat) ^ (4 + d)" by (simp add: power_add)
    ultimately show ?thesis by (subst (1 2) double_bucket_count.simps) (metis not_less)
  qed
qed

lemma bucket_count_of_request:
  assumes "wanted < 2 ^ 31"
  defines "n \<equiv> double_bucket_count 0 (nat (if wanted < 16 then 16 else wanted))"
  shows "\<exists>k \<le> 31. n = 2 ^ k \<and> (wanted \<le> 2 ^ 29 \<longrightarrow> k \<le> 29) \<and> (2 ^ 29 < wanted \<longrightarrow> 30 \<le> k)"
proof -
  define w where "w = nat (if wanted < 16 then 16 else wanted)"
  obtain k where k: "n = 2 ^ k" "w \<le> 2 ^ k" "n = 16 \<or> 2 ^ k < 2 * w"
    using double_bucket_count_props [of 0 w] unfolding n_def w_def [symmetric] by auto
  have w: "w < 2 ^ 31" using assms(1) by (auto simp: w_def)
  have "(2 :: nat) ^ k < 2 ^ Suc 31" using k(1,3) w by auto
  then have "k \<le> 31" by (rule power_two_le)
  moreover have "k \<le> 29" if "wanted \<le> 2 ^ 29"
  proof -
    have "w \<le> 2 ^ 29" using that by (auto simp: w_def)
    then have "(2 :: nat) ^ k < 2 ^ Suc 29" using k(1,3) by auto
    then show ?thesis by (rule power_two_le)
  qed
  moreover have "30 \<le> k" if "2 ^ 29 < wanted"
  proof -
    have "(2 :: nat) ^ 29 < w" using that by (simp add: w_def)
    then have "(2 :: nat) ^ 29 < 2 ^ k" using k(2) by linarith
    then have "29 < k" by (simp only: power_strict_increasing_iff)
    then show ?thesis by simp
  qed
  ultimately show ?thesis using k(1) by blast
qed

lemma make_address_hashtable_ok:
  assumes "wanted \<le> 2 ^ 29" and "0 \<le> ignore" and "ignore < 32"
  shows "\<exists>t. make_address_hashtable ignore wanted = Inr (t :: 'a addr_table) \<and> addr_table_ok t \<and> found_at t = Map.empty"
proof -
  define n where "n = double_bucket_count 0 (nat (if wanted < 16 then 16 else wanted))"
  obtain k where k: "k \<le> 29" "n = 2 ^ k"
    using bucket_count_of_request [of wanted] assms(1) unfolding n_def by auto
  have n: "n \<le> 2 ^ 29" unfolding k(2) using k(1) by (rule power_increasing) simp
  let ?t = "\<lparr>ignore_bits = ignore, bucket_count = sint (word_of_nat n :: vunt), mask = word_of_nat n - 1,
    vals_count = 0, buckets = replicate n []\<rparr> :: 'a addr_table"
  have "unat (word_of_nat n * 4 :: vunt) = n * 4"
    using n by (simp add: unat_word_ariths unat_of_nat)
  then have "make_address_hashtable ignore wanted = Inr ?t"
    unfolding make_address_hashtable_def Let_def n_def [symmetric] by simp
  moreover have "sint (word_of_nat n :: vunt) = int n"
    using n by (simp add: sint_uint unsigned_of_nat signed_take_bit_int_eq_self take_bit_nat_eq_self)
  then have "addr_table_ok ?t"
    using k assms(2,3) by (auto simp: addr_table_ok_def table_items_def)
  moreover have "found_at ?t = Map.empty"
  proof
    fix a
    have "hash_index ?t a < n" using hash_index_bound [OF \<open>addr_table_ok ?t\<close>, of a] by simp
    then show "found_at ?t a = None" by (simp add: found_at_def)
  qed
  ultimately show ?thesis by blast
qed

text \<open>A request for more buckets makes a vector whose size in bytes wraps to 0.\<close>

lemma make_address_hashtable_too_big:
  assumes "2 ^ 29 < wanted" and "wanted < 2 ^ 31"
  shows "make_address_hashtable ignore wanted = Inl Wild"
proof -
  define n where "n = double_bucket_count 0 (nat (if wanted < 16 then 16 else wanted))"
  obtain k where k: "30 \<le> k" "k \<le> 31" "n = 2 ^ k"
    using bucket_count_of_request [OF assms(2)] assms(1) unfolding n_def by blast
  then have "k = 30 \<or> k = 31" by linarith
  then have "n = 2 ^ 30 \<or> n = 2 ^ 31" using k(3) by blast
  then have "unat (word_of_nat n * 4 :: vunt) = 0" "0 < n"
    by (auto simp: unat_word_ariths unat_of_nat)
  then show ?thesis unfolding make_address_hashtable_def Let_def n_def [symmetric] by simp
qed

lemma hash_index_update [simp]: "hash_index (t\<lparr>buckets := b, vals_count := n\<rparr>) a = hash_index t a"
  by (simp add: hash_index_def)

lemma addresstable_insert_ok:
  assumes t: "addr_table_ok t"
    and free: "found_at t addr = None \<or> found_at t addr = Some chunk"
  shows "\<exists>t'. addresstable_insert t addr chunk = Inr t' \<and> addr_table_ok t' \<and>
    found_at t' = (found_at t)(addr \<mapsto> chunk)"
proof (cases "found_at t addr")
  case None
  let ?h = "hash_index t addr" and ?b = "buckets t ! hash_index t addr"
  let ?t = "t\<lparr>buckets := (buckets t)[?h := (addr, chunk) # ?b], vals_count := vals_count t + 1\<rparr>"
  have h: "?h < length (buckets t)" by (rule hash_index_bound [OF t])
  have new: "addr \<notin> fst ` set ?b"
    using None by (simp add: found_at_def map_of_eq_None_iff)
  have len: "length (concat ((buckets t)[?h := (addr, chunk) # ?b])) = Suc (length (concat (buckets t)))"
    using h by (rule length_concat_push)
  have "addr_table_ok ?t"
    using t h new len unfolding addr_table_ok_def table_items_def
    by (auto simp: nth_list_update split: if_splits)
  moreover have "found_at ?t = (found_at t)(addr \<mapsto> chunk)"
    using h by (intro ext) (auto simp: found_at_def nth_list_update)
  ultimately show ?thesis
    using None t by (auto simp: addresstable_insert_def HASH_ok bucket_of_ok find_item_map_of found_at_def)
next
  case (Some c)
  with free t have "addresstable_insert t addr chunk = Inr t" "c = chunk"
    by (auto simp: addresstable_insert_def HASH_ok bucket_of_ok find_item_map_of found_at_def)
  with Some t show ?thesis by auto
qed

lemma addresstable_insert_clash:
  "addr_table_ok t \<Longrightarrow> found_at t addr = Some c \<Longrightarrow> c \<noteq> chunk \<Longrightarrow> \<exists>m. addresstable_insert t addr chunk = Inl (Died m)"
  by (simp add: addresstable_insert_def HASH_ok bucket_of_ok find_item_map_of found_at_def)

interpretation addrs: write_once_table found_at addresstable_insert addr_table_ok
proof unfold_locales
  fix t :: "'a addr_table" and k v
  assume "addr_table_ok t" and "found_at t k = None \<or> found_at t k = Some v"
  then show "\<exists>t'. addresstable_insert t k v = Inr t' \<and> addr_table_ok t' \<and>
      found_at t' = (found_at t)(k \<mapsto> v)"
    by (rule addresstable_insert_ok)
next
  fix t :: "'a addr_table" and k w v
  assume "addr_table_ok t" and "found_at t k = Some w" and "w \<noteq> v"
  then show "\<exists>m. addresstable_insert t k v = Inl (Died m)"
    by (rule addresstable_insert_clash)
qed

section \<open>Properties\<close>

lemma table_items_lookup:
  assumes t: "addr_table_ok t"
  shows "(a, c) \<in> set (table_items t) \<longleftrightarrow> found_at t a = Some c"
proof -
  have h: "hash_index t a < length (buckets t)" by (rule hash_index_bound [OF t])
  have "(a, c) \<in> set (table_items t) \<longleftrightarrow> (a, c) \<in> set (buckets t ! hash_index t a)"
    using t h unfolding table_items_def addr_table_ok_def in_set_concat_nth by metis
  moreover have "distinct (map fst (buckets t ! hash_index t a))"
    using t h by (simp add: addr_table_ok_def)
  ultimately show ?thesis
    by (simp add: found_at_def)
qed

lemma table_items_distinct: "addr_table_ok t \<Longrightarrow> distinct (map fst (table_items t))"
  unfolding table_items_def
  by (rule distinct_concat_by [where f = "hash_index t" and d = 0])
     (simp_all add: addr_table_ok_def, metis prod.collapse)

lemma addresstable_apply_items:
  assumes "addr_table_ok t"
  shows "addresstable_apply t f s = Inr (fold (\<lambda>(a, c). f a c) (table_items t) s)"
proof -
  have "fold (\<lambda>bucket. fold (\<lambda>(a, c). f a c) bucket) bs s = fold (\<lambda>(a, c). f a c) (concat bs) s" for bs
    by (induction bs arbitrary: s) simp_all
  moreover have "bucket_count t = int (length (buckets t))" using assms by (simp add: addr_table_ok_def)
  ultimately show ?thesis by (simp add: addresstable_apply_def table_items_def)
qed

lemma set_of_single_valued: "single_valued_list kvs \<Longrightarrow> (a, c) \<in> set kvs \<longleftrightarrow> map_of kvs a = Some c"
proof -
  assume sv: "single_valued_list kvs"
  show ?thesis
  proof
    assume ac: "(a, c) \<in> set kvs"
    then obtain d where d: "map_of kvs a = Some d"
      by (cases "map_of kvs a") (auto simp: map_of_eq_None_iff image_iff)
    then have "(a, d) \<in> set kvs" by (rule map_of_SomeD)
    with ac sv d show "map_of kvs a = Some c" by (auto simp: single_valued_list_def)
  qed (rule map_of_SomeD)
qed

text \<open>
  C26. A table made for any number of ignored bits below 32 and any requested bucket count up to
  \<open>2 ^ 29\<close>, and filled with any list of bindings in which no address has two chunks, answers
  every address as the list does, and applying a function to it visits each binding exactly
  once. A larger request is accepted too, but the size in bytes of its vector wraps to 0 and
  clearing it runs over the end.
\<close>

theorem address_table_is_a_map:
  fixes f :: "vunt \<Rightarrow> 'a \<Rightarrow> 's \<Rightarrow> 's"
  assumes "wanted < 2 ^ 31" and "0 \<le> ignore" and "ignore < 32" and "single_valued_list kvs"
  shows "if wanted \<le> 2 ^ 29
    then \<exists>t items. seq_result (make_address_hashtable ignore wanted) (\<lambda>t. insert_all addresstable_insert t kvs) = Inr t \<and>
      (\<forall>a. addresstable_look_up t a = Inr (map_of kvs a)) \<and> vals_count t = length items \<and>
      distinct (map fst items) \<and> set items = set kvs \<and>
      (\<forall>s. addresstable_apply t f s = Inr (fold (\<lambda>(a, c). f a c) items s))
    else make_address_hashtable ignore wanted = (Inl Wild :: 'a addr_table result)"
proof (cases "wanted \<le> 2 ^ 29")
  case True
  obtain t0 :: "'a addr_table" where t0: "make_address_hashtable ignore wanted = Inr t0" "addr_table_ok t0" "found_at t0 = Map.empty"
    using make_address_hashtable_ok [OF True assms(2,3)] by blast
  obtain t where t: "insert_all addresstable_insert t0 kvs = Inr t" "addr_table_ok t" "found_at t = map_of kvs"
    using addrs.insert_all_ok [OF t0(2) assms(4)] by (auto simp: t0(3))
  have "set (table_items t) = set kvs"
  proof (rule set_eqI)
    fix x show "x \<in> set (table_items t) \<longleftrightarrow> x \<in> set kvs"
      by (cases x) (simp add: table_items_lookup [OF t(2)] t(3) set_of_single_valued [OF assms(4)])
  qed
  moreover have "addresstable_look_up t a = Inr (map_of kvs a)" for a
    using look_up_ok [OF t(2), of a] fun_cong [OF t(3), of a] by (simp add: found_at_def)
  moreover have "vals_count t = length (table_items t)" using t(2) by (simp add: addr_table_ok_def)
  ultimately show ?thesis
    using True t0(1) t(1) table_items_distinct [OF t(2)] addresstable_apply_items [OF t(2), of f]
    by (simp, intro exI [of _ "table_items t"]) simp
next
  case False
  then show ?thesis using make_address_hashtable_too_big [of wanted] assms(1) by simp
qed

definition sample_bindings :: "(vunt \<times> string) list" where
  "sample_bindings = [(0x1000, ''a''), (0x2000, ''b''), (0x1000, ''a'')]"

theorem address_table_is_a_map_witness:
  "\<exists>t items. seq_result (make_address_hashtable 2 20) (\<lambda>t. insert_all addresstable_insert t sample_bindings) = Inr t \<and>
    (\<forall>a. addresstable_look_up t a = Inr (map_of sample_bindings a)) \<and>
    vals_count t = length items \<and> distinct (map fst items) \<and> set items = set sample_bindings \<and>
    (\<forall>s. addresstable_apply t (\<lambda>a c n. n + (1 :: nat)) s = Inr (fold (\<lambda>(a, c) n. n + 1) items s))"
proof -
  have "single_valued_list sample_bindings"
    by (auto simp: single_valued_list_def sample_bindings_def)
  from address_table_is_a_map [OF _ _ _ this, of 20 2 "\<lambda>a c n. n + (1 :: nat)"] show ?thesis by simp
qed

end
