(* ===== verification/Hugechunk_Quires.thy ===== *)
theory Hugechunk_Quires
  imports Sibids
begin

text \<open>
  The sizes of hugechunk quires (\<open>src/c/heapcleaner/hugechunk.c\<close>, \<open>src/c/h/heap.h\<close>). A
  quire is one region from the operating system holding a record, which ends in a vector with
  one pointer per page, and the pages themselves; the loop in \<open>allocate_hugechunk_quire\<close>
  looks for a number of pages at which both fit the region exactly. Sizes are naturals, the
  32-bit operations on them written out. The lemmas give one pass of the loop in closed form
  (in kilobytes), and show that the loop ends for every request up to a gigabyte.
\<close>

definition LOG2_HUGECHUNK_RAM_QUANTUM_IN_BYTES :: nat where "LOG2_HUGECHUNK_RAM_QUANTUM_IN_BYTES = 10"
definition HUGECHUNK_RAM_QUANTUM_IN_BYTES :: nat where
  "HUGECHUNK_RAM_QUANTUM_IN_BYTES = 2 ^ LOG2_HUGECHUNK_RAM_QUANTUM_IN_BYTES"
definition MINIMUM_HUGECHUNK_QUIRE_BYTESIZE :: nat where
  "MINIMUM_HUGECHUNK_QUIRE_BYTESIZE = 128 * 1024"

text \<open>Seven 4-byte fields, the last of them the first slot of the page vector.\<close>

definition SIZEOF_HUGECHUNK_QUIRE :: nat where "SIZEOF_HUGECHUNK_QUIRE = 28"

definition HUGECHUNK_QUIRE_RECORD_BYTESIZE :: "nat \<Rightarrow> nat" where
  "HUGECHUNK_QUIRE_RECORD_BYTESIZE npages =
     nat ((int SIZEOF_HUGECHUNK_QUIRE + (int npages - 1) * 4) mod 2 ^ 32)"

definition pages_of_bytesize :: "nat \<Rightarrow> nat" where
  "pages_of_bytesize bytesize =
     drop_bit LOG2_HUGECHUNK_RAM_QUANTUM_IN_BYTES
       (round_up_to_power_of_two bytesize HUGECHUNK_RAM_QUANTUM_IN_BYTES)"

definition sub32 :: "nat \<Rightarrow> nat \<Rightarrow> nat" where
  "sub32 a b = (a + 2 ^ 32 - b) mod 2 ^ 32"

text \<open>
  The loop, whose result is the number of pages and the sizes of the record, the pages and
  the quire.
\<close>

partial_function (option) size_loop :: "nat \<Rightarrow> (nat \<times> nat \<times> nat \<times> nat) option" where
  "size_loop npages =
     (let record_bytesize = round_up_to_power_of_two (HUGECHUNK_QUIRE_RECORD_BYTESIZE npages)
                              HUGECHUNK_RAM_QUANTUM_IN_BYTES;
          bytesize = (npages * 2 ^ LOG2_HUGECHUNK_RAM_QUANTUM_IN_BYTES) mod 2 ^ 32;
          quire_bytesize = BOOKROUNDED_BYTESIZE (record_bytesize + bytesize);
          quire_bytesize = (if quire_bytesize < MINIMUM_HUGECHUNK_QUIRE_BYTESIZE
                            then MINIMUM_HUGECHUNK_QUIRE_BYTESIZE else quire_bytesize);
          npages' = sub32 quire_bytesize record_bytesize div 2 ^ LOG2_HUGECHUNK_RAM_QUANTUM_IN_BYTES
      in if npages' \<noteq> npages then size_loop npages'
         else Some (npages', record_bytesize, bytesize, quire_bytesize))"

section \<open>One pass in kilobytes\<close>

lemma sub32_eq: "a < 2 ^ 32 \<Longrightarrow> b \<le> a \<Longrightarrow> sub32 a b = a - b"
proof -
  assume "a < 2 ^ 32" and "b \<le> a"
  then have "a + 2 ^ 32 - b = (a - b) + 2 ^ 32" and "a - b < 2 ^ 32" by simp_all
  then show ?thesis unfolding sub32_def by (simp only: mod_add_self2 mod_less)
qed

lemmas quantum_defs = LOG2_HUGECHUNK_RAM_QUANTUM_IN_BYTES_def HUGECHUNK_RAM_QUANTUM_IN_BYTES_def
  MINIMUM_HUGECHUNK_QUIRE_BYTESIZE_def SIZEOF_HUGECHUNK_QUIRE_def

definition record_kb :: "nat \<Rightarrow> nat" where "record_kb n = (n + 261) div 256"
definition quire_kb :: "nat \<Rightarrow> nat" where
  "quire_kb n = max 128 (64 * ((record_kb n + n + 63) div 64))"

lemma record_bytes: "n \<le> 2 ^ 21 \<Longrightarrow>
  round_up_to_power_of_two (HUGECHUNK_QUIRE_RECORD_BYTESIZE n) HUGECHUNK_RAM_QUANTUM_IN_BYTES = 1024 * record_kb n"
proof -
  assume n: "n \<le> 2 ^ 21"
  have "HUGECHUNK_QUIRE_RECORD_BYTESIZE n = 24 + 4 * n"
    using n by (simp add: HUGECHUNK_QUIRE_RECORD_BYTESIZE_def SIZEOF_HUGECHUNK_QUIRE_def nat_add_distrib nat_mult_distrib)
  moreover have "round_up_to_power_of_two (24 + 4 * n) (2 ^ 10) = (24 + 4 * n + (2 ^ 10 - 1)) div 2 ^ 10 * 2 ^ 10"
    using n by (intro round_up_eq) simp_all
  moreover have "(24 + 4 * n + 1023) div 1024 = (n + 261) div 256" by linarith
  ultimately show ?thesis by (simp add: quantum_defs record_kb_def)
qed

lemma quire_bytes: "n \<le> 2 ^ 21 \<Longrightarrow>
  BOOKROUNDED_BYTESIZE (1024 * record_kb n + 1024 * n) = 1024 * (64 * ((record_kb n + n + 63) div 64))"
proof -
  assume n: "n \<le> 2 ^ 21"
  then have r: "record_kb n \<le> 2 ^ 14" by (simp add: record_kb_def)
  have "round_up_to_power_of_two (1024 * record_kb n + 1024 * n) (2 ^ 16) =
      (1024 * record_kb n + 1024 * n + (2 ^ 16 - 1)) div 2 ^ 16 * 2 ^ 16"
    using n r by (intro round_up_eq) simp_all
  moreover have "(1024 * record_kb n + 1024 * n + 65535) div 65536 = (record_kb n + n + 63) div 64" by linarith
  ultimately show ?thesis
    by (simp add: BOOKROUNDED_BYTESIZE_def BOOK_BYTESIZE_def LOG2_BOOK_BYTESIZE_def)
qed

lemma quire_kb_props:
  "record_kb n + n \<le> quire_kb n" "64 dvd quire_kb n" "128 \<le> quire_kb n"
  "quire_kb n < record_kb n + n + 64 \<or> quire_kb n = 128"
proof -
  let ?s = "record_kb n + n + 63"
  have d: "?s = 64 * (?s div 64) + ?s mod 64" "?s mod 64 < 64" by simp_all
  show "record_kb n + n \<le> quire_kb n" "quire_kb n < record_kb n + n + 64 \<or> quire_kb n = 128"
    using d unfolding quire_kb_def by (linarith+)
  show "64 dvd quire_kb n" "128 \<le> quire_kb n" by (auto simp: quire_kb_def max_def)
qed

lemma size_loop_step:
  assumes n: "n \<le> 2 ^ 21"
  shows "size_loop n = (let n' = quire_kb n - record_kb n in
    if n' \<noteq> n then size_loop n'
    else Some (n', 1024 * record_kb n, 1024 * n, 1024 * quire_kb n))"
proof -
  let ?q = "64 * ((record_kb n + n + 63) div 64)"
  have q: "(if 1024 * ?q < MINIMUM_HUGECHUNK_QUIRE_BYTESIZE then MINIMUM_HUGECHUNK_QUIRE_BYTESIZE else 1024 * ?q) =
      1024 * quire_kb n"
    by (simp add: quire_kb_def MINIMUM_HUGECHUNK_QUIRE_BYTESIZE_def max_def)
  have "record_kb n \<le> 2 ^ 14" using n by (simp add: record_kb_def)
  then have "quire_kb n < 2 ^ 22" using quire_kb_props(4) [of n] n by auto
  moreover have le: "record_kb n \<le> quire_kb n" using quire_kb_props(1) [of n] by simp
  ultimately have "sub32 (1024 * quire_kb n) (1024 * record_kb n) = 1024 * (quire_kb n - record_kb n)"
    by (subst sub32_eq) (simp_all add: diff_mult_distrib2)
  then have e: "sub32 (1024 * quire_kb n) (1024 * record_kb n) div 2 ^ LOG2_HUGECHUNK_RAM_QUANTUM_IN_BYTES =
      quire_kb n - record_kb n"
    by (simp add: LOG2_HUGECHUNK_RAM_QUANTUM_IN_BYTES_def)
  have b: "n * 2 ^ LOG2_HUGECHUNK_RAM_QUANTUM_IN_BYTES mod 2 ^ 32 = 1024 * n"
    using n by (simp add: LOG2_HUGECHUNK_RAM_QUANTUM_IN_BYTES_def)
  show ?thesis
    by (subst size_loop.simps)
      (simp only: Let_def record_bytes [OF n] b quire_bytes [OF n] q e if_True if_False)
qed

text \<open>
  A pass never lowers the page count, and a pass that leaves the record's size unchanged
  reaches the fixpoint. The first two passes add fewer than 256 pages, so at most one of them
  changes the record's size.
\<close>

definition next_pages :: "nat \<Rightarrow> nat" where "next_pages n = quire_kb n - record_kb n"

definition sized :: "nat \<Rightarrow> nat \<Rightarrow> bool" where
  "sized n m \<longleftrightarrow> n \<le> m \<and> m + record_kb m = quire_kb m \<and> m \<le> n + 190 \<and>
     size_loop n = Some (m, 1024 * record_kb m, 1024 * m, 1024 * quire_kb m)"

lemma next_pages_props:
  "n \<le> next_pages n" "next_pages n + record_kb n = quire_kb n"
  "next_pages n < n + 64 \<or> next_pages n < 128 \<and> quire_kb n = 128"
proof -
  have "1 \<le> record_kb n" by (simp add: record_kb_def)
  then show "n \<le> next_pages n" "next_pages n + record_kb n = quire_kb n"
    "next_pages n < n + 64 \<or> next_pages n < 128 \<and> quire_kb n = 128"
    using quire_kb_props [of n] unfolding next_pages_def by linarith+
qed

lemma quire_kb_next:
  "record_kb (next_pages n) = record_kb n \<Longrightarrow> quire_kb (next_pages n) = quire_kb n"
proof -
  assume r: "record_kb (next_pages n) = record_kb n"
  obtain k where k: "quire_kb n = 64 * k" "2 \<le> k"
    using quire_kb_props(2,3) [of n] by (auto elim!: dvdE)
  have "quire_kb (next_pages n) = max 128 (64 * ((64 * k + 63) div 64))"
    using next_pages_props(2) [of n] r k(1) by (simp add: quire_kb_def [of "next_pages n"] add.commute)
  also have "(64 * k + 63) div 64 = k" by simp
  finally show ?thesis using k by simp
qed

lemma sized_fixpoint: "n \<le> 2 ^ 21 \<Longrightarrow> next_pages n = n \<Longrightarrow> sized n n"
  using next_pages_props(2) [of n] by (simp add: sized_def size_loop_step next_pages_def)

lemma sized_pass:
  assumes "n \<le> 2 ^ 21" and "sized (next_pages n) m" and "m \<le> n + 190"
  shows "sized n m"
proof (cases "next_pages n = n")
  case False
  then have "size_loop n = size_loop (next_pages n)"
    using assms(1) by (simp add: size_loop_step Let_def next_pages_def)
  with assms(2,3) next_pages_props(1) [of n] show ?thesis by (simp add: sized_def)
qed (use assms(2) in simp)

lemma sized_same_record:
  assumes "n + 128 \<le> 2 ^ 21" and r: "record_kb (next_pages n) = record_kb n"
  shows "sized n (next_pages n)"
proof -
  have "next_pages (next_pages n) = next_pages n"
    using quire_kb_next [OF r] r by (simp add: next_pages_def)
  moreover have "next_pages n \<le> n + 128" using next_pages_props(3) [of n] by linarith
  ultimately show ?thesis
    using assms(1) sized_pass [of n "next_pages n"] sized_fixpoint [of "next_pages n"] by simp
qed

lemma size_loop_ends:
  assumes n: "n \<le> 2 ^ 20"
  shows "\<exists>m. sized n m"
proof (cases "record_kb (next_pages n) = record_kb n")
  case True
  then show ?thesis using sized_same_record [of n] n by auto
next
  case False
  let ?m = "next_pages n"
  have grow: "?m < n + 64"
  proof (rule ccontr)
    assume "\<not> ?m < n + 64"
    then have "?m < 128" "n < 128" using next_pages_props(1,3) [of n] by linarith+
    then have "record_kb ?m = 1" "record_kb n = 1" by (simp_all add: record_kb_def)
    with False show False by simp
  qed
  then have one: "record_kb ?m = record_kb n + 1"
    using False next_pages_props(1) [of n] unfolding record_kb_def by linarith
  have "1 \<le> record_kb n" by (simp add: record_kb_def)
  then have big: "?m \<ge> 128"
    using one unfolding record_kb_def by linarith
  then have "next_pages ?m < ?m + 64" using next_pages_props(1,3) [of ?m] by linarith
  with grow one have "record_kb (next_pages ?m) = record_kb ?m"
    using next_pages_props(1) [of ?m] unfolding record_kb_def by linarith
  then have "sized ?m (next_pages ?m)" using grow n by (intro sized_same_record) simp_all
  then show ?thesis
    using sized_pass [of n "next_pages ?m"] grow n \<open>next_pages ?m < ?m + 64\<close> by auto
qed

section \<open>Properties\<close>

text \<open>
  C24. The sizing loop ends for every request of up to a million pages, with sizes that fit: at
  least the requested pages, a record with room for a pointer per page, record and pages
  filling the quire exactly, and a quire that is a whole number of books and not below the
  minimum.
\<close>

theorem quire_sizes_fit:
  assumes "n \<le> 2 ^ 20"
  shows "\<exists>m r q. size_loop n = Some (m, r, 1024 * m, q) \<and> n \<le> m \<and> r + 1024 * m = q \<and>
    HUGECHUNK_QUIRE_RECORD_BYTESIZE m \<le> r \<and> BOOK_BYTESIZE dvd q \<and> MINIMUM_HUGECHUNK_QUIRE_BYTESIZE \<le> q"
proof -
  obtain m where m: "sized n m" using size_loop_ends [OF assms] by auto
  have "m \<le> 2 ^ 21" using m assms by (simp add: sized_def)
  then have "HUGECHUNK_QUIRE_RECORD_BYTESIZE m \<le> 1024 * record_kb m"
    by (simp add: HUGECHUNK_QUIRE_RECORD_BYTESIZE_def SIZEOF_HUGECHUNK_QUIRE_def nat_add_distrib nat_mult_distrib
        record_kb_def)
  moreover have "BOOK_BYTESIZE dvd 1024 * quire_kb m"
    using quire_kb_props(2) [of m] by (auto simp: BOOK_BYTESIZE_def LOG2_BOOK_BYTESIZE_def elim!: dvdE)
  moreover have "MINIMUM_HUGECHUNK_QUIRE_BYTESIZE \<le> 1024 * quire_kb m"
    using quire_kb_props(3) [of m] by (simp add: MINIMUM_HUGECHUNK_QUIRE_BYTESIZE_def)
  ultimately show ?thesis
    using m by (intro exI [of _ m] exI [of _ "1024 * record_kb m"] exI [of _ "1024 * quire_kb m"])
      (simp add: sized_def)
qed

theorem quire_sizes_fit_witness: "\<exists>m r q. size_loop 300 = Some (m, r, 1024 * m, q) \<and> 300 \<le> m \<and> r + 1024 * m = q"
  using quire_sizes_fit [of 300] by auto

end
