(* ===== verification/Hugechunks.thy ===== *)
theory Hugechunks
  imports Hugechunk_Quires
begin

text \<open>
  The hugechunk allocator (\<open>src/c/heapcleaner/hugechunk.c\<close>, with its types and list
  operations from \<open>src/c/h/heap.h\<close>, and \<open>src/c/heapcleaner/get-chunk-age.c\<close>).
  Descriptors live in a store keyed by name, so that the circular doubly linked free list, the
  page vectors of the quires and the callers' pointers can share them; reading a name that was
  never allocated or was freed is \<open>Wild\<close>. Quires are keyed by their address. \<open>MALLOC\<close> always
  succeeds and never reuses a name; the answer of \<open>obtain_quire_from_os\<close> is an argument.
  A search that could run forever round a damaged list is a partial function.
\<close>

unbundle bit_operations_syntax

record hugechunk =
  hc_chunk :: vunt
  hc_bytesize :: nat
  hc_huge_ilk :: nat
  hc_state :: nat
  hc_age :: nat
  hc_quire :: vunt
  hc_prev :: nat
  hc_next :: nat

record hugechunk_quire =
  hq_first_ram_quantum :: vunt
  hq_page_count :: nat
  hq_free_pages :: int
  hq_youngest :: nat
  hq_quire_bytesize :: nat
  hq_next :: vunt
  hq_map :: "nat list"

record hugeheap =
  hh_chunks :: "nat \<rightharpoonup> hugechunk"
  hh_fresh :: nat
  hh_quires :: "vunt \<rightharpoonup> hugechunk_quire"
  hh_first_quire :: vunt
  hh_quire_count :: int
  hh_freelist :: nat
  hh_books :: book2sibid

definition FREE_HUGECHUNK :: nat where "FREE_HUGECHUNK = 0"
definition JUNIOR_HUGECHUNK :: nat where "JUNIOR_HUGECHUNK = 1"

definition HUGECHUNK_IS_FREE :: "hugechunk \<Rightarrow> bool" where
  "HUGECHUNK_IS_FREE d \<longleftrightarrow> hc_state d = FREE_HUGECHUNK"

definition HUGECHUNK_IS_IN_FROMSPACE :: "hugechunk \<Rightarrow> bool" where
  "HUGECHUNK_IS_IN_FROMSPACE d \<longleftrightarrow> hc_state d AND 1 \<noteq> 0"

definition GET_HUGECHUNK_FOR_POINTER_PAGE :: "hugechunk_quire \<Rightarrow> vunt \<Rightarrow> nat" where
  "GET_HUGECHUNK_FOR_POINTER_PAGE hq addr =
     unat (drop_bit LOG2_HUGECHUNK_RAM_QUANTUM_IN_BYTES (addr - hq_first_ram_quantum hq))"

section \<open>Reading and writing through pointers\<close>

definition get_chunk :: "hugeheap \<Rightarrow> nat \<Rightarrow> hugechunk result" where
  "get_chunk st c = (case hh_chunks st c of None \<Rightarrow> Inl Wild | Some d \<Rightarrow> Inr d)"

definition update_chunk :: "hugeheap \<Rightarrow> nat \<Rightarrow> (hugechunk \<Rightarrow> hugechunk) \<Rightarrow> hugeheap result" where
  "update_chunk st c f =
     seq_result (get_chunk st c) (\<lambda>d. Inr (st\<lparr>hh_chunks := (hh_chunks st)(c \<mapsto> f d)\<rparr>))"

definition get_quire :: "hugeheap \<Rightarrow> vunt \<Rightarrow> hugechunk_quire result" where
  "get_quire st q = (case hh_quires st q of None \<Rightarrow> Inl Wild | Some hq \<Rightarrow> Inr hq)"

definition update_quire :: "hugeheap \<Rightarrow> vunt \<Rightarrow> (hugechunk_quire \<Rightarrow> hugechunk_quire) \<Rightarrow> hugeheap result" where
  "update_quire st q f =
     seq_result (get_quire st q) (\<lambda>hq. Inr (st\<lparr>hh_quires := (hh_quires st)(q \<mapsto> f hq)\<rparr>))"

definition FREE_chunk :: "hugeheap \<Rightarrow> nat \<Rightarrow> hugeheap" where
  "FREE_chunk st c = st\<lparr>hh_chunks := (hh_chunks st)(c := None)\<rparr>"

text \<open>A loop that writes one descriptor into the page vector from \<open>i\<close> up to \<open>j\<close>.\<close>

function set_pages :: "nat list \<Rightarrow> nat \<Rightarrow> nat \<Rightarrow> nat \<Rightarrow> nat list result" where
  "set_pages pm i j c =
     (if i < j then if i < length pm then set_pages (pm[i := c]) (Suc i) j c else Inl Wild
      else Inr pm)"
  by pat_completeness auto
termination
  by (relation "measure (\<lambda>(pm, i, j, c). j - i)") auto

declare set_pages.simps [simp del]

definition claim_pages :: "hugeheap \<Rightarrow> vunt \<Rightarrow> nat \<Rightarrow> nat \<Rightarrow> nat \<Rightarrow> hugeheap result" where
  "claim_pages st q i j c =
     seq_result (get_quire st q) (\<lambda>hq.
     seq_result (set_pages (hq_map hq) i j c) (\<lambda>pm.
       Inr (st\<lparr>hh_quires := (hh_quires st)(q \<mapsto> hq\<lparr>hq_map := pm\<rparr>)\<rparr>)))"

section \<open>The free list\<close>

definition remove_hugechunk_from_doubly_linked_list :: "hugeheap \<Rightarrow> nat \<Rightarrow> hugeheap result" where
  "remove_hugechunk_from_doubly_linked_list st c =
     seq_result (get_chunk st c) (\<lambda>d.
     seq_result (update_chunk st (hc_prev d) (\<lambda>p. p\<lparr>hc_next := hc_next d\<rparr>)) (\<lambda>st.
       update_chunk st (hc_next d) (\<lambda>n. n\<lparr>hc_prev := hc_prev d\<rparr>)))"

definition insert_hugechunk_in_doubly_linked_list :: "hugeheap \<Rightarrow> nat \<Rightarrow> nat \<Rightarrow> hugeheap result" where
  "insert_hugechunk_in_doubly_linked_list st header c =
     seq_result (update_chunk st c (\<lambda>d. d\<lparr>hc_prev := header\<rparr>)) (\<lambda>st.
     seq_result (get_chunk st header) (\<lambda>h.
     seq_result (update_chunk st c (\<lambda>d. d\<lparr>hc_next := hc_next h\<rparr>)) (\<lambda>st.
     seq_result (get_chunk st header) (\<lambda>h.
     seq_result (update_chunk st (hc_next h) (\<lambda>n. n\<lparr>hc_prev := c\<rparr>)) (\<lambda>st.
       update_chunk st header (\<lambda>h. h\<lparr>hc_next := c\<rparr>))))))"

partial_function (option) first_fit ::
  "(nat \<rightharpoonup> hugechunk) \<Rightarrow> nat \<Rightarrow> nat \<Rightarrow> nat \<Rightarrow> nat result option" where
  "first_fit chunks header dp total_bytesize =
     (if dp = header then Some (Inr dp)
      else case chunks dp of
             None \<Rightarrow> Some (Inl Wild)
           | Some d \<Rightarrow> if hc_bytesize d < total_bytesize
                       then first_fit chunks header (hc_next d) total_bytesize
                       else Some (Inr dp))"

section \<open>Allocating\<close>

text \<open>Fields a fresh descriptor is given before they are read; until then their values do not matter.\<close>

definition malloced_chunk :: hugechunk where
  "malloced_chunk = \<lparr>hc_chunk = 0, hc_bytesize = 0, hc_huge_ilk = 0, hc_state = 0, hc_age = 0,
     hc_quire = 0, hc_prev = 0, hc_next = 0\<rparr>"

definition MALLOC_hugechunk :: "hugeheap \<Rightarrow> hugechunk \<Rightarrow> hugeheap \<times> nat" where
  "MALLOC_hugechunk st d =
     (st\<lparr>hh_chunks := (hh_chunks st)(hh_fresh st \<mapsto> d), hh_fresh := hh_fresh st + 1\<rparr>, hh_fresh st)"

definition allocate_hugechunk_quire ::
  "(nat \<Rightarrow> vunt option) \<Rightarrow> hugeheap \<Rightarrow> nat \<Rightarrow> (hugeheap \<times> nat) result option" where
  "allocate_hugechunk_quire obtain_quire_from_os st bytesize =
     (case size_loop (pages_of_bytesize bytesize) of
        None \<Rightarrow> None
      | Some (npages, record_bytesize, bytesize, quire_bytesize) \<Rightarrow> Some (
          case obtain_quire_from_os quire_bytesize of
            None \<Rightarrow> Inl (Died ''Unable to allocate hugechunk quire.'')
          | Some hq \<Rightarrow>
              (let first = hq + word_of_nat record_bytesize;
                   (st, chunk) = MALLOC_hugechunk st (malloced_chunk
                     \<lparr>hc_chunk := first, hc_bytesize := bytesize, hc_state := FREE_HUGECHUNK, hc_quire := hq\<rparr>);
                   quire = \<lparr>hq_first_ram_quantum = first, hq_page_count = npages, hq_free_pages = int npages,
                     hq_youngest = MAX_AGEGROUPS, hq_quire_bytesize = quire_bytesize,
                     hq_next = hh_first_quire st, hq_map = replicate npages chunk\<rparr>
               in Inr (st\<lparr>hh_quires := (hh_quires st)(hq \<mapsto> quire), hh_first_quire := hq,
                          hh_quire_count := hh_quire_count st + 1\<rparr>, chunk))))"

text \<open>
  The split of a free chunk: a new descriptor for its first \<open>total_bytesize\<close> bytes, and the
  free chunk moved behind them.
\<close>

definition split_hugechunk :: "hugeheap \<Rightarrow> nat \<Rightarrow> nat \<Rightarrow> (hugeheap \<times> nat) result" where
  "split_hugechunk st dp total_bytesize =
     seq_result (get_chunk st dp) (\<lambda>d.
       let (st, new_chunk) = MALLOC_hugechunk st (malloced_chunk\<lparr>hc_chunk := hc_chunk d, hc_quire := hc_quire d\<rparr>)
       in seq_result (update_chunk st dp (\<lambda>d. d\<lparr>hc_chunk := hc_chunk d + word_of_nat total_bytesize,
                                              hc_bytesize := sub32 (hc_bytesize d) total_bytesize\<rparr>)) (\<lambda>st.
            Inr (st, new_chunk)))"

definition claim_new_chunk :: "hugeheap \<Rightarrow> nat \<Rightarrow> nat \<Rightarrow> hugeheap result" where
  "claim_new_chunk st new_chunk npages =
     seq_result (get_chunk st new_chunk) (\<lambda>d.
     seq_result (get_quire st (hc_quire d)) (\<lambda>hq.
       let first_ram_quantum = GET_HUGECHUNK_FOR_POINTER_PAGE hq (hc_chunk d)
       in claim_pages st (hc_quire d) first_ram_quantum (first_ram_quantum + npages) new_chunk))"

text \<open>The common end of the three branches.\<close>

definition finish_allocation :: "hugeheap \<Rightarrow> nat \<Rightarrow> nat \<Rightarrow> nat \<Rightarrow> nat \<Rightarrow> (hugeheap \<times> nat) result" where
  "finish_allocation st new_chunk age hugechunk_bytesize npages =
     seq_result (update_chunk st new_chunk (\<lambda>d. d\<lparr>hc_bytesize := hugechunk_bytesize,
         hc_state := JUNIOR_HUGECHUNK, hc_age := age mod 256\<rparr>)) (\<lambda>st.
     seq_result (get_chunk st new_chunk) (\<lambda>d.
       let q = hc_quire d
       in seq_result (update_quire st q (\<lambda>hq. hq\<lparr>hq_free_pages := hq_free_pages hq - int npages\<rparr>)) (\<lambda>st.
          seq_result (get_quire st q) (\<lambda>hq.
            if hq_youngest hq > age
            then Inr (st\<lparr>hh_quires := (hh_quires st)(q \<mapsto> hq\<lparr>hq_youngest := age\<rparr>),
                         hh_books := (set_book2sibid_entries_for_range (hh_books st) q
                             (word_of_nat (hq_quire_bytesize hq)) (HUGECHUNK_DATA_SIBID age))
                           (GET_BOOK_CONTAINING_POINTEE q := HUGECHUNK_RECORD_SIBID age)\<rparr>, new_chunk)
            else Inr (st, new_chunk)))))"

definition allocate_hugechunk ::
  "(nat \<Rightarrow> vunt option) \<Rightarrow> hugeheap \<Rightarrow> nat \<Rightarrow> nat \<Rightarrow> (hugeheap \<times> nat) result option" where
  "allocate_hugechunk obtain_quire_from_os st age hugechunk_bytesize =
     (let total_bytesize = round_up_to_power_of_two hugechunk_bytesize HUGECHUNK_RAM_QUANTUM_IN_BYTES;
          npages = drop_bit LOG2_HUGECHUNK_RAM_QUANTUM_IN_BYTES total_bytesize;
          header = hh_freelist st;
          finish = (\<lambda>st new_chunk. finish_allocation st new_chunk age hugechunk_bytesize npages)
      in case hh_chunks st header of
           None \<Rightarrow> Some (Inl Wild)
         | Some h \<Rightarrow>
       (case first_fit (hh_chunks st) header (hc_next h) total_bytesize of
          None \<Rightarrow> None
        | Some (Inl e) \<Rightarrow> Some (Inl e)
        | Some (Inr dp) \<Rightarrow>
            if dp = header
            then (case allocate_hugechunk_quire obtain_quire_from_os st total_bytesize of
                    None \<Rightarrow> None
                  | Some r \<Rightarrow> Some (seq_result r (\<lambda>(st, dp).
                      seq_result (get_chunk st dp) (\<lambda>d.
                        if hc_bytesize d = total_bytesize then finish st dp
                        else seq_result (split_hugechunk st dp total_bytesize) (\<lambda>(st, new_chunk).
                             seq_result (insert_hugechunk_in_doubly_linked_list st (hh_freelist st) dp) (\<lambda>st.
                             seq_result (claim_new_chunk st new_chunk npages) (\<lambda>st.
                               finish st new_chunk)))))))
            else Some (seq_result (get_chunk st dp) (\<lambda>d.
              if hc_bytesize d = total_bytesize
              then seq_result (remove_hugechunk_from_doubly_linked_list st dp) (\<lambda>st. finish st dp)
              else seq_result (split_hugechunk st dp total_bytesize) (\<lambda>(st, new_chunk).
                   seq_result (claim_new_chunk st new_chunk npages) (\<lambda>st.
                     finish st new_chunk))))))"

section \<open>Freeing\<close>

text \<open>
  The two coalescing steps of \<open>free_hugechunk\<close>. Each returns the state and the total size
  in bytes of the chunk being freed.
\<close>

definition coalesce_left :: "hugeheap \<Rightarrow> nat \<Rightarrow> vunt \<Rightarrow> nat \<Rightarrow> nat \<Rightarrow> (hugeheap \<times> nat) result" where
  "coalesce_left st c q first_ram_quantum total_bytesize =
     seq_result (get_quire st q) (\<lambda>hq.
       if first_ram_quantum > 0
       then if length (hq_map hq) \<le> first_ram_quantum - 1 then Inl Wild
       else let dp = hq_map hq ! (first_ram_quantum - 1)
       in seq_result (get_chunk st dp) (\<lambda>d.
            if HUGECHUNK_IS_FREE d
            then seq_result (remove_hugechunk_from_doubly_linked_list st dp) (\<lambda>st.
                 seq_result (claim_pages st q (GET_HUGECHUNK_FOR_POINTER_PAGE hq (hc_chunk d))
                               first_ram_quantum c) (\<lambda>st.
                 seq_result (update_chunk st c (\<lambda>ch. ch\<lparr>hc_chunk := hc_chunk d\<rparr>)) (\<lambda>st.
                   Inr (FREE_chunk st dp, (total_bytesize + hc_bytesize d) mod 2 ^ 32))))
            else Inr (st, total_bytesize))
       else Inr (st, total_bytesize))"

definition coalesce_right :: "hugeheap \<Rightarrow> nat \<Rightarrow> vunt \<Rightarrow> nat \<Rightarrow> nat \<Rightarrow> (hugeheap \<times> nat) result" where
  "coalesce_right st c q last_ram_quantum total_bytesize =
     seq_result (get_quire st q) (\<lambda>hq.
       if last_ram_quantum < hq_page_count hq
       then if length (hq_map hq) \<le> last_ram_quantum then Inl Wild
       else let dp = hq_map hq ! last_ram_quantum
       in seq_result (get_chunk st dp) (\<lambda>d.
            if HUGECHUNK_IS_FREE d
            then seq_result (remove_hugechunk_from_doubly_linked_list st dp) (\<lambda>st.
                 seq_result (claim_pages st q last_ram_quantum
                     (last_ram_quantum + drop_bit LOG2_HUGECHUNK_RAM_QUANTUM_IN_BYTES (hc_bytesize d)) c) (\<lambda>st.
                   Inr (FREE_chunk st dp, (total_bytesize + hc_bytesize d) mod 2 ^ 32)))
            else Inr (st, total_bytesize))
       else Inr (st, total_bytesize))"

definition free_hugechunk :: "hugeheap \<Rightarrow> nat \<Rightarrow> hugeheap result" where
  "free_hugechunk st c =
     seq_result (get_chunk st c) (\<lambda>d.
     seq_result (get_quire st (hc_quire d)) (\<lambda>hq.
       let q = hc_quire d;
           total_bytesize = round_up_to_power_of_two (hc_bytesize d) HUGECHUNK_RAM_QUANTUM_IN_BYTES;
           first_ram_quantum = GET_HUGECHUNK_FOR_POINTER_PAGE hq (hc_chunk d);
           last_ram_quantum = first_ram_quantum + drop_bit LOG2_HUGECHUNK_RAM_QUANTUM_IN_BYTES total_bytesize
       in seq_result (coalesce_left st c q first_ram_quantum total_bytesize) (\<lambda>(st, total_bytesize).
          seq_result (coalesce_right st c q last_ram_quantum total_bytesize) (\<lambda>(st, total_bytesize).
          seq_result (update_chunk st c (\<lambda>d. d\<lparr>hc_bytesize := total_bytesize, hc_state := FREE_HUGECHUNK\<rparr>)) (\<lambda>st.
          seq_result (update_quire st q (\<lambda>hq. hq\<lparr>hq_free_pages :=
              hq_free_pages hq + (int last_ram_quantum - int first_ram_quantum)\<rparr>)) (\<lambda>st.
            insert_hugechunk_in_doubly_linked_list st (hh_freelist st) c))))))"

section \<open>From addresses to chunks\<close>

text \<open>The walk down the book map to the book that holds the quire's record.\<close>

fun find_record_book :: "book2sibid \<Rightarrow> nat \<Rightarrow> nat result" where
  "find_record_book b 0 = (if SIBID_ID_IS_BIGCHUNK_RECORD (b 0) then Inr 0 else Inl Wild)"
| "find_record_book b (Suc i) =
     (if SIBID_ID_IS_BIGCHUNK_RECORD (b (Suc i)) then Inr (Suc i) else find_record_book b i)"

definition get_hugechunk_holding_pointee :: "hugeheap \<Rightarrow> vunt \<Rightarrow> vunt \<Rightarrow> nat result" where
  "get_hugechunk_holding_pointee st q a =
     seq_result (get_quire st q) (\<lambda>hq.
       let i = GET_HUGECHUNK_FOR_POINTER_PAGE hq a
       in if i < length (hq_map hq) then Inr (hq_map hq ! i) else Inl Wild)"

definition address_to_hugechunk :: "hugeheap \<Rightarrow> vunt \<Rightarrow> nat result" where
  "address_to_hugechunk st addr =
     seq_result (find_record_book (hh_books st) (GET_BOOK_CONTAINING_POINTEE addr)) (\<lambda>i.
       get_hugechunk_holding_pointee st (ADDRESS_OF_BOOK i) addr)"

definition get_chunk_age :: "hugeheap \<Rightarrow> vunt \<Rightarrow> int result" where
  "get_chunk_age st chunk =
     (if \<not> IS_POINTER chunk then Inr (-1)
      else let aid = SIBID_FOR_POINTER (hh_books st) chunk
           in if SIBID_KIND_IS_CODE aid
              then seq_result (address_to_hugechunk st chunk) (\<lambda>dp.
                   seq_result (get_chunk st dp) (\<lambda>d. Inr (int (hc_age d))))
              else if aid = AGEGROUP0_SIBID then Inr 0
              else if BOOK_IS_UNMAPPED aid then Inr (-1)
              else Inr (int (GET_AGE_FROM_SIBID aid)))"

text \<open>
  The comment string of a code chunk, as the pair of its address and its length in bytes: the
  last byte of the chunk holds its length in words. Memory is a parameter.
\<close>

definition get_codechunk_comment_string_else_null :: "(vunt \<Rightarrow> unt8) \<Rightarrow> hugechunk \<Rightarrow> vunt" where
  "get_codechunk_comment_string_else_null mem bdp =
     (let last_byte = hc_chunk bdp + word_of_nat (hc_bytesize bdp) - 1;
          kx = unat (mem last_byte) * 4
      in last_byte - word_of_nat kx + 1)"

definition codechunk_comment_string_for_program_counter ::
  "(vunt \<Rightarrow> unt8) \<Rightarrow> hugeheap \<Rightarrow> vunt \<Rightarrow> vunt option result" where
  "codechunk_comment_string_for_program_counter mem st pc =
     (if \<not> SIBID_KIND_IS_CODE (SIBID_FOR_POINTER (hh_books st) pc) then Inr None
      else seq_result (find_record_book (hh_books st) (GET_BOOK_CONTAINING_POINTEE pc)) (\<lambda>index.
           seq_result (get_hugechunk_holding_pointee st (ADDRESS_OF_BOOK index) pc) (\<lambda>dp.
           seq_result (get_chunk st dp) (\<lambda>d.
             Inr (Some (get_codechunk_comment_string_else_null mem d))))))"

definition initial_hugeheap :: "book2sibid \<Rightarrow> hugeheap" where
  "initial_hugeheap books =
     \<lparr>hh_chunks = [0 \<mapsto> malloced_chunk\<lparr>hc_chunk := 0, hc_bytesize := 0, hc_state := FREE_HUGECHUNK,
                                      hc_prev := 0, hc_next := 0\<rparr>],
      hh_fresh = 1, hh_quires = Map.empty, hh_first_quire = 0, hh_quire_count = 0,
      hh_freelist = 0, hh_books = books\<rparr>"

end
