(* ===== verification/Hugechunk_Lists.thy ===== *)
theory Hugechunk_Lists
  imports Hugechunks
begin

text \<open>
  The free list of hugechunks and the page vectors: what the list operations, the first-fit
  search and the loops over page vectors do to a heap whose free list is a circular doubly
  linked list. The list is described by the names on it; removing and inserting change
  nothing but links.
\<close>

section \<open>Doubly linked segments\<close>

fun links :: "(nat \<Rightarrow> nat option) \<Rightarrow> (nat \<Rightarrow> nat option) \<Rightarrow> nat \<Rightarrow> nat list \<Rightarrow> nat \<Rightarrow> bool" where
  "links nx pv a [] b \<longleftrightarrow> nx a = Some b \<and> pv b = Some a"
| "links nx pv a (x # xs) b \<longleftrightarrow> nx a = Some x \<and> pv x = Some a \<and> links nx pv x xs b"

lemma links_append:
  "links nx pv a (xs @ x # ys) b \<longleftrightarrow> links nx pv a xs x \<and> links nx pv x ys b"
  by (induction xs arbitrary: a) auto

lemma links_upd_nx [simp]:
  "x \<notin> insert a (set xs) \<Longrightarrow> links (nx(x := v)) pv a xs b = links nx pv a xs b"
  by (induction xs arbitrary: a) auto

lemma links_upd_pv [simp]:
  "x \<notin> insert b (set xs) \<Longrightarrow> links nx (pv(x := v)) a xs b = links nx pv a xs b"
  by (induction xs arbitrary: a) auto

lemma links_nx_pv:
  assumes "links nx pv a (xs @ c # ys) b"
  shows "pv c = Some (last (a # xs))" and "nx c = Some (hd (ys @ [b]))"
proof -
  from assms have "links nx pv a xs c" "links nx pv c ys b" by (simp_all add: links_append)
  then show "pv c = Some (last (a # xs))" "nx c = Some (hd (ys @ [b]))"
    by (induction xs arbitrary: a, auto) (cases ys; auto)+
qed

lemma links_remove:
  assumes l: "links nx pv a (xs @ c # ys) b"
    and d: "distinct (xs @ c # ys)" "a \<notin> set (xs @ c # ys)" "b \<notin> set (xs @ c # ys)"
  shows "links (nx(last (a # xs) := Some (hd (ys @ [b])))) (pv(hd (ys @ [b]) := Some (last (a # xs)))) a (xs @ ys) b"
proof -
  from l have left: "links nx pv a xs c" and right: "links nx pv c ys b" by (simp_all add: links_append)
  show ?thesis
  proof (cases xs rule: rev_cases)
    case Nil
    with right d show ?thesis
      by (cases ys) auto
  next
    case (snoc xs0 p)
    then have "links nx pv a xs0 p" using left by (simp add: links_append)
    with snoc right d show ?thesis
      by (cases ys) (auto simp: links_append)
  qed
qed

lemma links_insert:
  assumes l: "links nx pv h xs h" and "c \<noteq> h" "c \<notin> set xs" "h \<notin> set xs" "distinct xs"
    and n: "n = hd (xs @ [h])"
  shows "links (nx(c := Some n, h := Some c)) (pv(c := Some h, n := Some c)) h (c # xs) h"
  using assms by (cases xs) auto

section \<open>The free list of a heap\<close>

definition nexts :: "(nat \<rightharpoonup> hugechunk) \<Rightarrow> nat \<Rightarrow> nat option" where
  "nexts cs x = map_option hc_next (cs x)"
definition prevs :: "(nat \<rightharpoonup> hugechunk) \<Rightarrow> nat \<Rightarrow> nat option" where
  "prevs cs x = map_option hc_prev (cs x)"

definition freelist :: "(nat \<rightharpoonup> hugechunk) \<Rightarrow> nat \<Rightarrow> nat list \<Rightarrow> bool" where
  "freelist cs h fl \<longleftrightarrow> links (nexts cs) (prevs cs) h fl h \<and> distinct (h # fl)"

text \<open>What is left of a store when its links are blanked out.\<close>

definition core :: "(nat \<rightharpoonup> hugechunk) \<Rightarrow> nat \<rightharpoonup> hugechunk" where
  "core cs x = map_option (\<lambda>d. d\<lparr>hc_prev := 0, hc_next := 0\<rparr>) (cs x)"

lemma core_eq_Some: "core cs x = Some k \<longleftrightarrow> (\<exists>d. cs x = Some d \<and> k = d\<lparr>hc_prev := 0, hc_next := 0\<rparr>)"
  by (auto simp: core_def)

lemma core_None [simp]: "core cs x = None \<longleftrightarrow> cs x = None"
  by (simp add: core_def)

lemma core_upd [simp]: "core (cs(x \<mapsto> d)) = (core cs)(x \<mapsto> d\<lparr>hc_prev := 0, hc_next := 0\<rparr>)"
  by (rule ext) (simp add: core_def)

lemma core_del [simp]: "core (cs(x := None)) = (core cs)(x := None)"
  by (rule ext) (simp add: core_def)

lemma core_links_upd:
  "cs x = Some d \<Longrightarrow> core (cs(x \<mapsto> d\<lparr>hc_prev := p, hc_next := n\<rparr>)) = core cs"
  by (rule ext) (simp add: core_def)

lemma core_next_upd [simp]: "cs x = Some d \<Longrightarrow> core (cs(x \<mapsto> d\<lparr>hc_next := n\<rparr>)) = core cs"
  by (rule ext) (simp add: core_def)

lemma core_prev_upd [simp]: "cs x = Some d \<Longrightarrow> core (cs(x \<mapsto> d\<lparr>hc_prev := n\<rparr>)) = core cs"
  by (rule ext) (simp add: core_def)

lemma links_dom:
  "links (nexts cs) (prevs cs) a xs b \<Longrightarrow> x \<in> set (a # xs @ [b]) \<Longrightarrow> \<exists>d. cs x = Some d"
  by (induction xs arbitrary: a) (auto simp: nexts_def prevs_def)

lemma remove_ok:
  assumes "freelist (hh_chunks st) (hh_freelist st) (xs @ c # ys)"
  shows "\<exists>cs. remove_hugechunk_from_doubly_linked_list st c = Inr (st\<lparr>hh_chunks := cs\<rparr>) \<and>
    core cs = core (hh_chunks st) \<and> freelist cs (hh_freelist st) (xs @ ys)"
proof -
  let ?cs = "hh_chunks st" and ?h = "hh_freelist st"
  let ?p = "last (?h # xs)" and ?n = "hd (ys @ [?h])"
  have l: "links (nexts ?cs) (prevs ?cs) ?h (xs @ c # ys) ?h" and d: "distinct (?h # xs @ c # ys)"
    using assms by (simp_all add: freelist_def)
  note ends = links_nx_pv [OF l]
  obtain dc where dc: "?cs c = Some dc" "hc_prev dc = ?p" "hc_next dc = ?n"
    using ends by (auto simp: nexts_def prevs_def)
  have "?p \<in> set (?h # (xs @ c # ys) @ [?h])" "?n \<in> set (?h # (xs @ c # ys) @ [?h])"
    by (auto intro: last_in_set) (cases ys; simp)
  then obtain dp dn where pn: "?cs ?p = Some dp" "?cs ?n = Some dn"
    using links_dom [OF l] by meson
  let ?cs1 = "?cs(?p \<mapsto> dp\<lparr>hc_next := ?n\<rparr>)"
  obtain dn1 where n1: "?cs1 ?n = Some dn1" using pn by (cases "?n = ?p") auto
  let ?cs2 = "?cs1(?n \<mapsto> dn1\<lparr>hc_prev := ?p\<rparr>)"
  have "remove_hugechunk_from_doubly_linked_list st c = Inr (st\<lparr>hh_chunks := ?cs2\<rparr>)"
    using dc pn n1
    by (simp add: remove_hugechunk_from_doubly_linked_list_def update_chunk_def get_chunk_def del: last.simps)
  moreover have "core ?cs2 = core ?cs"
  proof -
    have "core ?cs2 = core ?cs1" by (rule core_prev_upd) (rule n1)
    also have "\<dots> = core ?cs" by (rule core_next_upd) (rule pn)
    finally show ?thesis .
  qed
  moreover have "nexts ?cs2 = (nexts ?cs)(?p := Some ?n)" "prevs ?cs2 = (prevs ?cs)(?n := Some ?p)"
    using pn n1 by (auto simp: nexts_def prevs_def split: if_splits)
  then have "freelist ?cs2 ?h (xs @ ys)"
    using links_remove [OF l] d by (auto simp: freelist_def)
  ultimately show ?thesis by blast
qed

lemma insert_ok:
  assumes fl: "freelist (hh_chunks st) h fl" and c: "hh_chunks st c = Some d" "c \<notin> set (h # fl)"
  shows "\<exists>cs. insert_hugechunk_in_doubly_linked_list st h c = Inr (st\<lparr>hh_chunks := cs\<rparr>) \<and>
    core cs = core (hh_chunks st) \<and> freelist cs h (c # fl)"
proof -
  let ?cs = "hh_chunks st" and ?n = "hd (fl @ [h])"
  have l: "links (nexts ?cs) (prevs ?cs) h fl h" and dist: "distinct (h # fl)"
    using fl by (simp_all add: freelist_def)
  have nx: "nexts ?cs h = Some ?n" using l by (cases fl) simp_all
  then obtain dh where dh: "?cs h = Some dh" "hc_next dh = ?n" by (auto simp: nexts_def)
  have nc: "?n \<noteq> c" "h \<noteq> c" using c(2) by (cases fl; auto)+
  have "?n \<in> set (h # fl @ [h])" by (cases fl) auto
  then obtain dn where dn: "?cs ?n = Some dn" using links_dom [OF l] by blast
  let ?cs1 = "?cs(c \<mapsto> d\<lparr>hc_prev := h\<rparr>)"
  let ?cs2 = "?cs1(c \<mapsto> d\<lparr>hc_prev := h, hc_next := ?n\<rparr>)"
  let ?cs3 = "?cs2(?n \<mapsto> dn\<lparr>hc_prev := c\<rparr>)"
  obtain dh1 where h1: "?cs3 h = Some dh1" using dh nc by (cases "?n = h") auto
  let ?cs4 = "?cs3(h \<mapsto> dh1\<lparr>hc_next := c\<rparr>)"
  have "insert_hugechunk_in_doubly_linked_list st h c = Inr (st\<lparr>hh_chunks := ?cs4\<rparr>)"
    using c dh dn h1 nc
    by (cases "?n = h") (auto simp: insert_hugechunk_in_doubly_linked_list_def update_chunk_def get_chunk_def)
  moreover have "core ?cs4 = core ?cs"
  proof -
    have "core ?cs4 = core ?cs3" by (rule core_next_upd) (rule h1)
    also have "\<dots> = core ?cs2" using dn nc by (intro core_prev_upd) simp
    also have "\<dots> = core ?cs" using c by (rule_tac ext) (simp add: core_def)
    finally show ?thesis .
  qed
  moreover have "nexts ?cs4 = (nexts ?cs)(c := Some ?n, h := Some c)"
    "prevs ?cs4 = (prevs ?cs)(c := Some h, ?n := Some c)"
    using c dh dn h1 nc by (auto simp: nexts_def prevs_def split: if_splits)
  then have "freelist ?cs4 h (c # fl)"
    using links_insert [OF l, of c] c(2) dist by (auto simp: freelist_def)
  ultimately show ?thesis by blast
qed

lemma first_fit_from:
  assumes "links (nexts cs) (prevs cs) a xs h" and "h \<notin> set xs" and "cs a = Some da"
  shows "first_fit cs h (hc_next da) t = Some (Inr h) \<and> (\<forall>x\<in>set xs. \<exists>d. cs x = Some d \<and> hc_bytesize d < t) \<or>
    (\<exists>x\<in>set xs. \<exists>d. first_fit cs h (hc_next da) t = Some (Inr x) \<and> cs x = Some d \<and> t \<le> hc_bytesize d)"
  using assms
proof (induction xs arbitrary: a da)
  case Nil
  then have "hc_next da = h" by (simp add: nexts_def)
  then show ?case by (simp add: first_fit.simps)
next
  case (Cons x xs)
  then have x: "hc_next da = x" "x \<noteq> h" by (auto simp: nexts_def)
  obtain d where d: "cs x = Some d" using links_dom [OF Cons.prems(1), of x] by auto
  from Cons.IH [of x d] Cons.prems d x show ?case
    by (cases "hc_bytesize d < t") (simp_all add: first_fit.simps [of cs h x])
qed

lemma first_fit_ok:
  assumes "freelist cs h fl" and "cs h = Some dh"
  shows "first_fit cs h (hc_next dh) t = Some (Inr h) \<or>
    (\<exists>x\<in>set fl. \<exists>d. first_fit cs h (hc_next dh) t = Some (Inr x) \<and> cs x = Some d \<and> t \<le> hc_bytesize d)"
  using first_fit_from [of cs h fl h dh t] assms by (auto simp: freelist_def)

section \<open>Page vectors\<close>

definition paint :: "nat list \<Rightarrow> nat \<Rightarrow> nat \<Rightarrow> nat \<Rightarrow> nat list" where
  "paint pm i j c = map (\<lambda>k. if i \<le> k \<and> k < j then c else pm ! k) [0..<length pm]"

lemma length_paint [simp]: "length (paint pm i j c) = length pm"
  by (simp add: paint_def)

lemma nth_paint [simp]: "k < length pm \<Longrightarrow> paint pm i j c ! k = (if i \<le> k \<and> k < j then c else pm ! k)"
  by (simp add: paint_def)

lemma set_pages_ok: "j \<le> length pm \<Longrightarrow> set_pages pm i j c = Inr (paint pm i j c)"
proof (induction pm i j c rule: set_pages.induct)
  case (1 pm i j c)
  show ?case
  proof (cases "i < j")
    case True
    with "1.IH" "1.prems" have "set_pages pm i j c = Inr (paint (pm[i := c]) (Suc i) j c)"
      by (simp add: set_pages.simps [of pm i])
    moreover have "paint (pm[i := c]) (Suc i) j c = paint pm i j c"
      by (rule nth_equalityI) (use True in \<open>auto simp: nth_list_update\<close>)
    ultimately show ?thesis by simp
  next
    case False
    moreover have "paint pm i j c = pm" by (rule nth_equalityI) (use False in auto)
    ultimately show ?thesis by (simp add: set_pages.simps)
  qed
qed

end
