(* ===== verification/Hugechunk_Layout.thy ===== *)
theory Hugechunk_Layout
  imports Hugechunk_Lists
begin

text \<open>
  How descriptors and page vectors fit together, apart from links: every descriptor owns one
  run of pages of its quire and the vector says so for exactly those pages. The extent of
  each descriptor (first page, number of pages) is a ghost function. The lemmas follow the
  three changes the allocator makes: splitting a chunk, absorbing a neighbour, adding a quire.
\<close>

type_synonym chunk_store = "nat \<rightharpoonup> hugechunk"
type_synonym quire_store = "vunt \<rightharpoonup> hugechunk_quire"

definition tile :: "quire_store \<Rightarrow> nat \<times> nat \<Rightarrow> nat \<Rightarrow> hugechunk \<Rightarrow> bool" where
  "tile Q e c d \<longleftrightarrow> (\<exists>hq. Q (hc_quire d) = Some hq \<and> 0 < snd e \<and>
     fst e + snd e \<le> length (hq_map hq) \<and>
     hc_chunk d = hq_first_ram_quantum hq + word_of_nat (1024 * fst e) \<and>
     (\<forall>j < length (hq_map hq). hq_map hq ! j = c \<longleftrightarrow> fst e \<le> j \<and> j < fst e + snd e))"

definition owned :: "chunk_store \<Rightarrow> nat \<Rightarrow> vunt \<Rightarrow> hugechunk_quire \<Rightarrow> bool" where
  "owned K h q hq \<longleftrightarrow> hq_page_count hq = length (hq_map hq) \<and> length (hq_map hq) < 2 ^ 21 \<and>
     (\<forall>c \<in> set (hq_map hq). c \<noteq> h \<and> (\<exists>d. K c = Some d \<and> hc_quire d = q))"

definition layout :: "chunk_store \<Rightarrow> quire_store \<Rightarrow> nat \<Rightarrow> (nat \<Rightarrow> nat \<times> nat) \<Rightarrow> bool" where
  "layout K Q h ext \<longleftrightarrow> (\<forall>c d. K c = Some d \<longrightarrow> c \<noteq> h \<longrightarrow> tile Q (ext c) c d) \<and>
     (\<forall>q hq. Q q = Some hq \<longrightarrow> owned K h q hq)"

lemma layoutI:
  "(\<And>c d. K c = Some d \<Longrightarrow> c \<noteq> h \<Longrightarrow> tile Q (ext c) c d) \<Longrightarrow>
   (\<And>q hq. Q q = Some hq \<Longrightarrow> owned K h q hq) \<Longrightarrow> layout K Q h ext"
  by (simp add: layout_def)

lemma layout_tile: "layout K Q h ext \<Longrightarrow> K c = Some d \<Longrightarrow> c \<noteq> h \<Longrightarrow> tile Q (ext c) c d"
  by (simp add: layout_def)

lemma layout_owned: "layout K Q h ext \<Longrightarrow> Q q = Some hq \<Longrightarrow> owned K h q hq"
  by (simp add: layout_def)

text \<open>A change of fields other than place and quire keeps the layout.\<close>

lemma tile_fields:
  "hc_chunk d' = hc_chunk d \<Longrightarrow> hc_quire d' = hc_quire d \<Longrightarrow> tile Q e c d' = tile Q e c d"
  by (simp add: tile_def)

lemma tile_quire_fields:
  "Q q = Some hq \<Longrightarrow> hq_map hq' = hq_map hq \<Longrightarrow> hq_first_ram_quantum hq' = hq_first_ram_quantum hq \<Longrightarrow>
    tile (Q(q \<mapsto> hq')) e c d = tile Q e c d"
  by (simp add: tile_def)

lemma owned_fields:
  "(\<And>c d. K c = Some d \<Longrightarrow> \<exists>d'. K' c = Some d' \<and> hc_quire d' = hc_quire d) \<Longrightarrow> owned K h q hq \<Longrightarrow>
    owned K' h q hq"
  unfolding owned_def by metis

lemma layout_chunk_fields:
  assumes "layout K Q h ext" and "K c = Some d" and "hc_chunk d' = hc_chunk d" and "hc_quire d' = hc_quire d"
  shows "layout (K(c \<mapsto> d')) Q h ext"
proof (rule layoutI)
  fix x dx assume "(K(c \<mapsto> d')) x = Some dx" "x \<noteq> h"
  then show "tile Q (ext x) x dx"
    using assms layout_tile [OF assms(1)] tile_fields [of d' d] by (cases "x = c") auto
next
  fix q hq assume "Q q = Some hq"
  then have "owned K h q hq" by (rule layout_owned [OF assms(1)])
  then show "owned (K(c \<mapsto> d')) h q hq" by (rule owned_fields [rotated]) (use assms in auto)
qed

lemma layout_quire_fields:
  assumes "layout K Q h ext" and "Q q = Some hq" and "hq_map hq' = hq_map hq"
    and "hq_first_ram_quantum hq' = hq_first_ram_quantum hq" and "hq_page_count hq' = hq_page_count hq"
  shows "layout K (Q(q \<mapsto> hq')) h ext"
proof (rule layoutI)
  fix x dx assume "K x = Some dx" "x \<noteq> h"
  then show "tile (Q(q \<mapsto> hq')) (ext x) x dx"
    using layout_tile [OF assms(1)] tile_quire_fields [of Q q hq hq'] assms(2-4) by simp
next
  fix q' hq'' assume "(Q(q \<mapsto> hq')) q' = Some hq''"
  then show "owned K h q' hq''"
    using layout_owned [OF assms(1)] assms by (auto simp: owned_def split: if_splits)
qed

lemma tile_paint_other:
  assumes t: "tile Q e y dy" and hq: "Q q = Some hq" and hq': "hq_map hq' = paint (hq_map hq) a b c"
      "hq_first_ram_quantum hq' = hq_first_ram_quantum hq"
    and y: "y \<noteq> c" "\<And>j. j < length (hq_map hq) \<Longrightarrow> a \<le> j \<Longrightarrow> j < b \<Longrightarrow> hq_map hq ! j \<noteq> y"
  shows "tile (Q(q \<mapsto> hq')) e y dy"
proof (cases "hc_quire dy = q")
  case True
  have "hq_map hq' ! j = y \<longleftrightarrow> hq_map hq ! j = y" if "j < length (hq_map hq)" for j
    using that y hq' by auto
  with True t hq hq' show ?thesis by (simp add: tile_def)
next
  case False
  with t show ?thesis by (simp add: tile_def)
qed

section \<open>Splitting\<close>

lemma layout_split:
  assumes L: "layout K Q h ext" and d: "K dp = Some d" "dp \<noteq> h" and hq: "Q (hc_quire d) = Some hq"
    and e: "ext dp = (i, n)" "0 < k" "k < n" and new: "K new = None" "new \<noteq> h"
    and dn: "hc_chunk dn = hc_chunk d" "hc_quire dn = hc_quire d"
    and dd: "hc_chunk dd = hc_chunk d + word_of_nat (1024 * k)" "hc_quire dd = hc_quire d"
    and hq': "hq_map hq' = paint (hq_map hq) i (i + k) new"
      "hq_first_ram_quantum hq' = hq_first_ram_quantum hq" "hq_page_count hq' = hq_page_count hq"
  shows "layout (K(new \<mapsto> dn, dp \<mapsto> dd)) (Q(hc_quire d \<mapsto> hq')) h (ext(new := (i, k), dp := (i + k, n - k)))"
    (is "layout ?K ?Q h ?ext")
proof (rule layoutI)
  have tdp: "i + n \<le> length (hq_map hq)" "hc_chunk d = hq_first_ram_quantum hq + word_of_nat (1024 * i)"
    "\<And>j. j < length (hq_map hq) \<Longrightarrow> hq_map hq ! j = dp \<longleftrightarrow> i \<le> j \<and> j < i + n"
    using layout_tile [OF L d] hq e by (auto simp: tile_def)
  have own: "owned K h (hc_quire d) hq" by (rule layout_owned [OF L hq])
  then have nnew: "hq_map hq ! j \<noteq> new" if "j < length (hq_map hq)" for j
    using new(1) that by (auto simp: owned_def) (metis nth_mem option.distinct(1))
  have "new \<noteq> dp" using d new by auto
  fix x dx assume x: "?K x = Some dx" "x \<noteq> h"
  show "tile ?Q (?ext x) x dx"
  proof (cases "x = new \<or> x = dp")
    case True
    then show ?thesis
    proof
      assume "x = new"
      with x \<open>new \<noteq> dp\<close> show ?thesis
        using e dn hq' tdp nnew by (auto simp: tile_def)
    next
      assume "x = dp"
      with x \<open>new \<noteq> dp\<close> show ?thesis
        using e dd hq' tdp by (auto simp: tile_def algebra_simps)
    qed
  next
    case False
    then have "tile Q (ext x) x dx" using x layout_tile [OF L] by auto
    then have "tile (Q(hc_quire d \<mapsto> hq')) (ext x) x dx"
      by (rule tile_paint_other [where hq = hq and hq' = hq' and c = new and a = i and b = "i + k"])
        (use False tdp(3) e(3) hq hq' in auto)
    with False show ?thesis by simp
  qed
next
  fix q hq1 assume q: "?Q q = Some hq1"
  show "owned ?K h q hq1"
  proof (cases "q = hc_quire d")
    case True
    have "c \<in> set (paint (hq_map hq) i (i + k) new) \<Longrightarrow> c = new \<or> c \<in> set (hq_map hq)" for c
      by (auto simp: paint_def split: if_splits)
    with True q hq' layout_owned [OF L hq] d new dn dd show ?thesis
      by (auto simp: owned_def)
  next
    case False
    with q have "owned K h q hq1" using layout_owned [OF L] by auto
    then show ?thesis using new dd d by (rule_tac owned_fields) auto
  qed
qed

section \<open>Absorbing a neighbour\<close>

lemma layout_absorb:
  assumes L: "layout K Q h ext" and d: "K c = Some d" "c \<noteq> h" and dx: "K x = Some dx" "x \<noteq> h" "x \<noteq> c"
    and q: "hc_quire dx = hc_quire d" and hq: "Q (hc_quire d) = Some hq"
    and e: "ext c = (i, n)" "ext x = (ix, nx)" "ix + nx = i \<or> i + n = ix"
    and d': "hc_chunk d' = (if ix < i then hc_chunk dx else hc_chunk d)" "hc_quire d' = hc_quire d"
    and hq': "hq_map hq' = paint (hq_map hq) ix (ix + nx) c"
      "hq_first_ram_quantum hq' = hq_first_ram_quantum hq" "hq_page_count hq' = hq_page_count hq"
  shows "layout (K(c \<mapsto> d', x := None)) (Q(hc_quire d \<mapsto> hq')) h (ext(c := (min i ix, n + nx)))"
    (is "layout ?K ?Q h ?ext")
proof (rule layoutI)
  have tc: "0 < n" "i + n \<le> length (hq_map hq)" "hc_chunk d = hq_first_ram_quantum hq + word_of_nat (1024 * i)"
    "\<And>j. j < length (hq_map hq) \<Longrightarrow> hq_map hq ! j = c \<longleftrightarrow> i \<le> j \<and> j < i + n"
    using layout_tile [OF L d] hq e by (auto simp: tile_def)
  have tx: "0 < nx" "ix + nx \<le> length (hq_map hq)" "hc_chunk dx = hq_first_ram_quantum hq + word_of_nat (1024 * ix)"
    "\<And>j. j < length (hq_map hq) \<Longrightarrow> hq_map hq ! j = x \<longleftrightarrow> ix \<le> j \<and> j < ix + nx"
    using layout_tile [OF L dx(1,2)] hq e q by (auto simp: tile_def)
  fix y dy assume y: "?K y = Some dy" "y \<noteq> h"
  show "tile ?Q (?ext y) y dy"
  proof (cases "y = c")
    case True
    have j: "paint (hq_map hq) ix (ix + nx) c ! j = c \<longleftrightarrow> min i ix \<le> j \<and> j < min i ix + (n + nx)"
      if "j < length (hq_map hq)" for j
      using that e(3) tc(1) tx(1) tc(4) [OF that] by (auto simp: min_def)
    have "hc_chunk d' = hq_first_ram_quantum hq + word_of_nat (1024 * min i ix)"
      using d' e(3) tc tx by (auto simp: min_def)
    moreover have "dy = d'" using y True dx(3) by auto
    ultimately show ?thesis
      using True e d' hq' tc(1,2) tx(1,2) j by (auto simp: tile_def min_def)
  next
    case False
    with y have "y \<noteq> x" "tile Q (ext y) y dy" using layout_tile [OF L] by (auto split: if_splits)
    then have "tile (Q(hc_quire d \<mapsto> hq')) (ext y) y dy"
      by (intro tile_paint_other [where hq = hq and hq' = hq' and c = c and a = ix and b = "ix + nx"])
        (use False tx(4) hq hq' in auto)
    with False show ?thesis by simp
  qed
next
  have tx: "ix + nx \<le> length (hq_map hq)"
    "\<And>j. j < length (hq_map hq) \<Longrightarrow> hq_map hq ! j = x \<longleftrightarrow> ix \<le> j \<and> j < ix + nx"
    using layout_tile [OF L dx(1,2)] hq e q by (auto simp: tile_def)
  fix q1 hq1 assume q1: "?Q q1 = Some hq1"
  show "owned ?K h q1 hq1"
  proof (cases "q1 = hc_quire d")
    case True
    have "y = c \<or> y \<in> set (hq_map hq) \<and> y \<noteq> x" if y: "y \<in> set (paint (hq_map hq) ix (ix + nx) c)" for y
    proof -
      from y obtain j where "j < length (hq_map hq)" "y = (if ix \<le> j \<and> j < ix + nx then c else hq_map hq ! j)"
        by (auto simp: paint_def)
      then show ?thesis using tx(2) by (auto split: if_splits)
    qed
    with True q1 hq' layout_owned [OF L hq] d d' dx show ?thesis
      by (auto simp: owned_def)
  next
    case False
    with q1 have o: "owned K h q1 hq1" using layout_owned [OF L] by auto
    then have "x \<notin> set (hq_map hq1)" using False dx q by (auto simp: owned_def)
    with o show ?thesis using d' d by (auto simp: owned_def)
  qed
qed

end
