(* ===== verification/Hugechunk_Tiles.thy ===== *)
theory Hugechunk_Tiles
  imports Hugechunk_Layout
begin

text \<open>
  The bookkeeping of the hugechunk allocator on top of the layout: sizes, free-page counts,
  coalescing and ages, stated with one descriptor \<open>c\<close> left out of account, the one an
  operation has in its hands, and \<open>n\<close> pages of it not yet counted as free. With the list
  header for \<open>c\<close> and no pages nothing is left out. One lemma per change.
\<close>

definition is_free :: "chunk_store \<Rightarrow> nat \<Rightarrow> bool" where
  "is_free K c \<longleftrightarrow> (\<exists>d. K c = Some d \<and> HUGECHUNK_IS_FREE d)"

definition free_pages_of :: "chunk_store \<Rightarrow> nat \<Rightarrow> hugechunk_quire \<Rightarrow> nat set" where
  "free_pages_of K c hq = {j. j < length (hq_map hq) \<and> (hq_map hq ! j = c \<or> is_free K (hq_map hq ! j))}"

definition sized_tiles :: "chunk_store \<Rightarrow> nat \<Rightarrow> (nat \<Rightarrow> nat \<times> nat) \<Rightarrow> nat \<Rightarrow> bool" where
  "sized_tiles K h ext c \<longleftrightarrow> (\<forall>x d. K x = Some d \<longrightarrow> x \<noteq> h \<longrightarrow> x \<noteq> c \<longrightarrow>
     pages_of_bytesize (hc_bytesize d) = snd (ext x) \<and>
     (HUGECHUNK_IS_FREE d \<longrightarrow> hc_bytesize d = 1024 * snd (ext x)))"

definition counted :: "chunk_store \<Rightarrow> quire_store \<Rightarrow> nat \<Rightarrow> nat \<Rightarrow> bool" where
  "counted K Q c n \<longleftrightarrow> (\<forall>q hq. Q q = Some hq \<longrightarrow>
     hq_free_pages hq + (if c \<in> set (hq_map hq) then int n else 0) = int (card (free_pages_of K c hq)))"

lemma counted_zero: "counted K Q c 0 \<longleftrightarrow>
    (\<forall>q hq. Q q = Some hq \<longrightarrow> hq_free_pages hq = int (card (free_pages_of K c hq)))"
  by (simp add: counted_def)

definition coalesced :: "chunk_store \<Rightarrow> quire_store \<Rightarrow> nat \<Rightarrow> bool" where
  "coalesced K Q c \<longleftrightarrow> (\<forall>q hq j. Q q = Some hq \<longrightarrow> Suc j < length (hq_map hq) \<longrightarrow>
     hq_map hq ! j \<noteq> c \<longrightarrow> hq_map hq ! Suc j \<noteq> c \<longrightarrow>
     is_free K (hq_map hq ! j) \<longrightarrow> is_free K (hq_map hq ! Suc j) \<longrightarrow> hq_map hq ! j = hq_map hq ! Suc j)"

definition aged :: "chunk_store \<Rightarrow> quire_store \<Rightarrow> nat \<Rightarrow> nat \<Rightarrow> bool" where
  "aged K Q h c \<longleftrightarrow> (\<forall>x d. K x = Some d \<longrightarrow> x \<noteq> h \<longrightarrow> x \<noteq> c \<longrightarrow> \<not> HUGECHUNK_IS_FREE d \<longrightarrow>
     (\<exists>hq. Q (hc_quire d) = Some hq \<and> hq_youngest hq \<le> hc_age d \<and> hc_age d < MAX_AGEGROUPS))"

lemma aged_quire_upd:
  assumes "aged K Q h c" and "Q q = Some hq" and "hq_youngest hq' = hq_youngest hq"
  shows "aged K (Q(q \<mapsto> hq')) h c"
  using assms unfolding aged_def by (metis fun_upd_apply option.inject)

lemma aged_free_upd:
  "aged K Q h c \<Longrightarrow> HUGECHUNK_IS_FREE d' \<Longrightarrow> aged (K(x \<mapsto> d')) Q h c"
  by (auto simp: aged_def)

definition tiles_ok ::
  "chunk_store \<Rightarrow> quire_store \<Rightarrow> nat \<Rightarrow> (nat \<Rightarrow> nat \<times> nat) \<Rightarrow> nat \<Rightarrow> nat \<Rightarrow> bool" where
  "tiles_ok K Q h ext c n \<longleftrightarrow> layout K Q h ext \<and> sized_tiles K h ext c \<and> counted K Q c n \<and>
     coalesced K Q c \<and> aged K Q h c"

lemma tiles_okD:
  assumes "tiles_ok K Q h ext c n"
  shows "layout K Q h ext" "sized_tiles K h ext c" "counted K Q c n" "coalesced K Q c" "aged K Q h c"
  using assms by (simp_all add: tiles_ok_def)

lemma tile_size:
  assumes "tiles_ok K Q h ext c n" and "K x = Some d" and "x \<noteq> h" and "x \<noteq> c"
  shows "pages_of_bytesize (hc_bytesize d) = snd (ext x)"
    and "HUGECHUNK_IS_FREE d \<Longrightarrow> hc_bytesize d = 1024 * snd (ext x)"
  using tiles_okD(2) [OF assms(1)] assms(2-4) unfolding sized_tiles_def by blast+

lemma owned_entry:
  "layout K Q h ext \<Longrightarrow> Q q = Some hq \<Longrightarrow> j < length (hq_map hq) \<Longrightarrow>
    hq_map hq ! j \<noteq> h \<and> (\<exists>d. K (hq_map hq ! j) = Some d \<and> hc_quire d = q)"
  by (auto simp: layout_def owned_def)

lemma extent:
  assumes "layout K Q h ext" and "K c = Some d" and "c \<noteq> h"
  obtains hq where "Q (hc_quire d) = Some hq" "0 < snd (ext c)"
    "fst (ext c) + snd (ext c) \<le> length (hq_map hq)"
    "hc_chunk d = hq_first_ram_quantum hq + word_of_nat (1024 * fst (ext c))"
    "\<And>j. j < length (hq_map hq) \<Longrightarrow> hq_map hq ! j = c \<longleftrightarrow> fst (ext c) \<le> j \<and> j < fst (ext c) + snd (ext c)"
    "hq_page_count hq = length (hq_map hq)" "length (hq_map hq) < 2 ^ 21"
  using layout_tile [OF assms] layout_owned [OF assms(1)] by (auto simp: tile_def owned_def)

text \<open>The page a descriptor's address is on is the first of its extent.\<close>

lemma page_of_offset:
  assumes "hc_chunk d = hq_first_ram_quantum hq + word_of_nat (1024 * i)" and "i < 2 ^ 21"
  shows "GET_HUGECHUNK_FOR_POINTER_PAGE hq (hc_chunk d) = i"
proof -
  have "hc_chunk d - hq_first_ram_quantum hq = word_of_nat (1024 * i)" using assms(1) by simp
  moreover have "unat (word_of_nat (1024 * i) :: vunt) = 1024 * i"
    using assms(2) by (intro unat_word_of_nat) simp
  ultimately show ?thesis
    unfolding GET_HUGECHUNK_FOR_POINTER_PAGE_def LOG2_HUGECHUNK_RAM_QUANTUM_IN_BYTES_def
    by (simp only: unat_drop_bit) simp
qed

section \<open>Taking a descriptor out of account\<close>

lemma coalesced_take:
  assumes "layout K Q h ext" and "coalesced K Q h"
  shows "coalesced K Q c"
  unfolding coalesced_def
proof (intro allI impI)
  fix q hq j
  assume "Q q = Some hq" "Suc j < length (hq_map hq)" "is_free K (hq_map hq ! j)" "is_free K (hq_map hq ! Suc j)"
  then show "hq_map hq ! j = hq_map hq ! Suc j"
    using assms(2) owned_entry [OF assms(1)] Suc_lessD unfolding coalesced_def by metis
qed

lemma tiles_take_free:
  assumes T: "tiles_ok K Q h ext h 0" and "is_free K c"
  shows "tiles_ok K Q h ext c 0"
proof -
  have "free_pages_of K c hq = free_pages_of K h hq" if "Q q = Some hq" for q hq
    using assms(2) owned_entry [OF tiles_okD(1) [OF T] that] by (auto simp: free_pages_of_def)
  with T show ?thesis
    by (auto simp: tiles_ok_def sized_tiles_def counted_zero aged_def coalesced_take)
qed

lemma tiles_take_live:
  assumes T: "tiles_ok K Q h ext h 0" and d: "K c = Some d" "c \<noteq> h" "\<not> HUGECHUNK_IS_FREE d"
  shows "tiles_ok K Q h ext c (snd (ext c))"
proof -
  note L = tiles_okD(1) [OF T]
  have "counted K Q c (snd (ext c))"
    unfolding counted_def
  proof (intro allI impI)
    fix q hq assume q: "Q q = Some hq"
    have h: "h \<notin> set (hq_map hq)" using layout_owned [OF L q] by (auto simp: owned_def)
    have free: "hq_free_pages hq = int (card (free_pages_of K h hq))"
      using tiles_okD(3) [OF T] q by (simp add: counted_zero)
    show "hq_free_pages hq + (if c \<in> set (hq_map hq) then int (snd (ext c)) else 0) =
        int (card (free_pages_of K c hq))"
    proof (cases "c \<in> set (hq_map hq)")
      case True
      then have "hc_quire d = q" using layout_owned [OF L q] d by (auto simp: owned_def)
      then obtain e: "fst (ext c) + snd (ext c) \<le> length (hq_map hq)"
          "\<And>j. j < length (hq_map hq) \<Longrightarrow> hq_map hq ! j = c \<longleftrightarrow> fst (ext c) \<le> j \<and> j < fst (ext c) + snd (ext c)"
        using extent [OF L d(1,2)] q by auto
      let ?r = "{fst (ext c)..<fst (ext c) + snd (ext c)}"
      have "free_pages_of K c hq = free_pages_of K h hq \<union> ?r"
      proof (rule set_eqI)
        fix j show "j \<in> free_pages_of K c hq \<longleftrightarrow> j \<in> free_pages_of K h hq \<union> ?r"
          using e(1) e(2) [of j] owned_entry [OF L q, of j]
          by (cases "j < length (hq_map hq)") (simp_all add: free_pages_of_def, blast)
      qed
      moreover have "free_pages_of K h hq \<inter> ?r = {}"
      proof (rule equals0I)
        fix j assume "j \<in> free_pages_of K h hq \<inter> ?r"
        then show False
          using e(1) e(2) [of j] d owned_entry [OF L q, of j] by (simp add: free_pages_of_def is_free_def)
      qed
      moreover have "finite (free_pages_of K h hq)" by (simp add: free_pages_of_def)
      ultimately show ?thesis using free True by (simp add: card_Un_disjoint)
    next
      case False
      then have "free_pages_of K c hq = free_pages_of K h hq"
        using owned_entry [OF L q] by (auto simp: free_pages_of_def)
      with False free show ?thesis by simp
    qed
  qed
  with T show ?thesis
    by (auto simp: tiles_ok_def sized_tiles_def aged_def coalesced_take)
qed

section \<open>Giving it back\<close>

lemma tiles_close_live:
  assumes T: "tiles_ok K Q h ext c 0" and d: "K c = Some d" "c \<noteq> h" and hq: "Q (hc_quire d) = Some hq"
    and d': "hc_chunk d' = hc_chunk d" "hc_quire d' = hc_quire d" "\<not> HUGECHUNK_IS_FREE d'"
      "pages_of_bytesize (hc_bytesize d') = snd (ext c)"
    and age: "hc_age d' < MAX_AGEGROUPS" "hq_youngest hq' = min (hc_age d') (hq_youngest hq)"
    and hq': "hq_map hq' = hq_map hq" "hq_first_ram_quantum hq' = hq_first_ram_quantum hq"
      "hq_page_count hq' = hq_page_count hq" "hq_free_pages hq' = hq_free_pages hq - int (snd (ext c))"
  shows "tiles_ok (K(c \<mapsto> d')) (Q(hc_quire d \<mapsto> hq')) h ext h 0" (is "tiles_ok ?K ?Q h ext h 0")
proof -
  note L = tiles_okD(1) [OF T]
  have "layout ?K Q h ext" by (rule layout_chunk_fields [OF L d(1) d'(1,2)])
  then have L': "layout ?K ?Q h ext" by (rule layout_quire_fields) (use hq hq' in auto)
  have fr: "is_free ?K x \<longleftrightarrow> x \<noteq> c \<and> is_free K x" for x
    using d'(3) by (auto simp: is_free_def)
  have "sized_tiles ?K h ext h"
    using tiles_okD(2) [OF T] d' by (auto simp: sized_tiles_def)
  moreover have "counted ?K ?Q h 0"
    unfolding counted_zero
  proof (intro allI impI)
    fix q hq1 assume q: "?Q q = Some hq1"
    obtain hq0 where q0: "Q q = Some hq0" "hq_map hq1 = hq_map hq0"
        "hq_free_pages hq1 = hq_free_pages hq0 - (if q = hc_quire d then int (snd (ext c)) else 0)"
      using q hq hq' by (cases "q = hc_quire d") auto
    have free: "hq_free_pages hq0 = int (card (free_pages_of K c hq0))"
      using tiles_okD(3) [OF T] q0(1) by (simp add: counted_zero)
    have entry: "hq_map hq0 ! j \<noteq> h" if "j < length (hq_map hq0)" for j
      using owned_entry [OF L q0(1) that] by simp
    show "hq_free_pages hq1 = int (card (free_pages_of ?K h hq1))"
    proof (cases "q = hc_quire d")
      case True
      then obtain e: "fst (ext c) + snd (ext c) \<le> length (hq_map hq0)"
          "\<And>j. j < length (hq_map hq0) \<Longrightarrow> hq_map hq0 ! j = c \<longleftrightarrow> fst (ext c) \<le> j \<and> j < fst (ext c) + snd (ext c)"
        using extent [OF L d] q0(1) by auto
      let ?r = "{fst (ext c)..<fst (ext c) + snd (ext c)}"
      have eq: "free_pages_of ?K h hq1 = free_pages_of K c hq0 - ?r"
      proof (rule set_eqI)
        fix j show "j \<in> free_pages_of ?K h hq1 \<longleftrightarrow> j \<in> free_pages_of K c hq0 - ?r"
          using e(1) e(2) [of j] entry [of j] q0(2)
          by (cases "j < length (hq_map hq0)") (simp_all add: free_pages_of_def fr, blast)
      qed
      have sub: "?r \<subseteq> free_pages_of K c hq0" using e by (auto simp: free_pages_of_def)
      have fin: "finite (free_pages_of K c hq0)" by (simp add: free_pages_of_def)
      have "card ?r \<le> card (free_pages_of K c hq0)" using sub fin by (rule card_mono [rotated])
      then show ?thesis
        using eq sub fin free q0(3) True by (simp add: card_Diff_subset finite_subset)
    next
      case False
      then have "hq_map hq0 ! j \<noteq> c" if "j < length (hq_map hq0)" for j
        using owned_entry [OF L q0(1) that] d by auto
      then have "free_pages_of ?K h hq1 = free_pages_of K c hq0"
        using q0(2) entry by (auto simp: free_pages_of_def fr)
      with False free q0(3) show ?thesis by simp
    qed
  qed
  moreover have "coalesced ?K ?Q h"
    using tiles_okD(4) [OF T] hq hq' d'
    by (auto simp: coalesced_def is_free_def split: if_splits)
  moreover have "aged ?K ?Q h h"
    using tiles_okD(5) [OF T] age hq d'(2)
    by (auto simp: aged_def min.coboundedI1 min.coboundedI2 split: if_splits)
      (metis min.coboundedI2 option.inject)+
  ultimately show ?thesis using L' by (simp add: tiles_ok_def)
qed

lemma pages_of_pages: "m < 2 ^ 21 \<Longrightarrow> pages_of_bytesize (1024 * m) = m"
proof -
  assume "m < 2 ^ 21"
  then have "round_up_to_power_of_two (1024 * m) (2 ^ 10) = (1024 * m + (2 ^ 10 - 1)) div 2 ^ 10 * 2 ^ 10"
    by (intro round_up_eq) simp_all
  moreover have "(1024 * m + 1023) div 1024 = m" by simp
  ultimately show ?thesis
    by (simp add: pages_of_bytesize_def quantum_defs drop_bit_eq_div)
qed

definition closed_left :: "chunk_store \<Rightarrow> hugechunk_quire \<Rightarrow> nat \<Rightarrow> bool" where
  "closed_left K hq c \<longleftrightarrow> (\<forall>j. Suc j < length (hq_map hq) \<longrightarrow> hq_map hq ! Suc j = c \<longrightarrow>
     hq_map hq ! j \<noteq> c \<longrightarrow> \<not> is_free K (hq_map hq ! j))"

definition closed_right :: "chunk_store \<Rightarrow> hugechunk_quire \<Rightarrow> nat \<Rightarrow> bool" where
  "closed_right K hq c \<longleftrightarrow> (\<forall>j. Suc j < length (hq_map hq) \<longrightarrow> hq_map hq ! j = c \<longrightarrow>
     hq_map hq ! Suc j \<noteq> c \<longrightarrow> \<not> is_free K (hq_map hq ! Suc j))"

lemma owner_quire:
  assumes "layout K Q h ext" and "K c = Some d" and "c \<noteq> h" and "Q q = Some hq"
  shows "c \<in> set (hq_map hq) \<longleftrightarrow> q = hc_quire d"
proof
  assume "c \<in> set (hq_map hq)"
  then show "q = hc_quire d"
    using layout_owned [OF assms(1,4)] assms(2) by (auto simp: owned_def)
next
  assume q: "q = hc_quire d"
  obtain hq' where "Q (hc_quire d) = Some hq'" "0 < snd (ext c)" "fst (ext c) + snd (ext c) \<le> length (hq_map hq')"
    "\<And>j. j < length (hq_map hq') \<Longrightarrow> hq_map hq' ! j = c \<longleftrightarrow> fst (ext c) \<le> j \<and> j < fst (ext c) + snd (ext c)"
    using extent [OF assms(1-3)] by metis
  then show "c \<in> set (hq_map hq)"
    using q assms(4) by (auto simp: in_set_conv_nth intro!: exI [of _ "fst (ext c)"])
qed

lemma tiles_close_free:
  assumes T: "tiles_ok K Q h ext c n" and d: "K c = Some d" "c \<noteq> h" and hq: "Q (hc_quire d) = Some hq"
    and d': "hc_chunk d' = hc_chunk d" "hc_quire d' = hc_quire d" "HUGECHUNK_IS_FREE d'"
      "hc_bytesize d' = 1024 * snd (ext c)"
    and hq': "hq_map hq' = hq_map hq" "hq_first_ram_quantum hq' = hq_first_ram_quantum hq"
      "hq_page_count hq' = hq_page_count hq" "hq_youngest hq' = hq_youngest hq"
      "hq_free_pages hq' = hq_free_pages hq + int n"
    and closed: "closed_left K hq c" "closed_right K hq c"
  shows "tiles_ok (K(c \<mapsto> d')) (Q(hc_quire d \<mapsto> hq')) h ext h 0" (is "tiles_ok ?K ?Q h ext h 0")
proof -
  note L = tiles_okD(1) [OF T]
  have "layout ?K Q h ext" by (rule layout_chunk_fields [OF L d(1) d'(1,2)])
  then have L': "layout ?K ?Q h ext" by (rule layout_quire_fields) (use hq hq' in auto)
  have fr: "is_free ?K x \<longleftrightarrow> x = c \<or> is_free K x" for x
    using d'(3) by (auto simp: is_free_def)
  have "snd (ext c) < 2 ^ 21" by (rule extent [OF L d]) simp
  then have "sized_tiles ?K h ext h"
    using tiles_okD(2) [OF T] d' by (auto simp: sized_tiles_def pages_of_pages)
  moreover have "counted ?K ?Q h 0"
    unfolding counted_zero
  proof (intro allI impI)
    fix q hq1 assume q: "?Q q = Some hq1"
    obtain hq0 where q0: "Q q = Some hq0" "hq_map hq1 = hq_map hq0"
        "hq_free_pages hq1 = hq_free_pages hq0 + (if q = hc_quire d then int n else 0)"
      using q hq hq' by (cases "q = hc_quire d") auto
    have free: "hq_free_pages hq0 + (if q = hc_quire d then int n else 0) = int (card (free_pages_of K c hq0))"
      using tiles_okD(3) [OF T] q0(1) unfolding counted_def owner_quire [OF L d q0(1), symmetric] by blast
    have "free_pages_of ?K h hq1 = free_pages_of K c hq0"
      using q0(2) owned_entry [OF L q0(1)] by (auto simp: free_pages_of_def fr)
    with free q0(3) show "hq_free_pages hq1 = int (card (free_pages_of ?K h hq1))" by simp
  qed
  moreover have "coalesced ?K ?Q h"
    unfolding coalesced_def
  proof (intro allI impI)
    fix q hq1 j
    assume q: "?Q q = Some hq1" and j: "Suc j < length (hq_map hq1)"
      and f: "is_free ?K (hq_map hq1 ! j)" "is_free ?K (hq_map hq1 ! Suc j)"
    obtain hq0 where q0: "Q q = Some hq0" "hq_map hq1 = hq_map hq0" "q = hc_quire d \<longrightarrow> hq0 = hq"
      using q hq hq' by (cases "q = hc_quire d") auto
    show "hq_map hq1 ! j = hq_map hq1 ! Suc j"
    proof (cases "hq_map hq1 ! j = c \<or> hq_map hq1 ! Suc j = c")
      case True
      then have "c \<in> set (hq_map hq0)" using j q0(2) by auto
      then have "hq0 = hq" using owner_quire [OF L d q0(1)] q0(3) by simp
      with True closed f j q0(2) show ?thesis by (auto simp: closed_left_def closed_right_def fr)
    next
      case False
      then show ?thesis
        using tiles_okD(4) [OF T] q0 j f unfolding coalesced_def fr by metis
    qed
  qed
  moreover have "aged ?K Q h h"
    using tiles_okD(5) [OF T] d'(3) by (auto simp: aged_def)
  then have "aged ?K ?Q h h" by (rule aged_quire_upd) (use hq hq'(4) in auto)
  ultimately show ?thesis using L' by (simp add: tiles_ok_def)
qed

section \<open>Adding a quire\<close>

lemma tiles_new_quire:
  assumes T: "tiles_ok K Q h ext h 0" and q: "Q q = None" and c: "K c = None" "c \<noteq> h"
    and d: "hc_chunk d = hq_first_ram_quantum hq" "hc_quire d = q"
    and hq: "hq_map hq = replicate n c" "hq_page_count hq = n" "hq_free_pages hq = int n" "0 < n" "n < 2 ^ 21"
  shows "tiles_ok (K(c \<mapsto> d)) (Q(q \<mapsto> hq)) h (ext(c := (0, n))) c 0" (is "tiles_ok ?K ?Q h ?ext c 0")
proof -
  note L = tiles_okD(1) [OF T]
  have old: "q' \<noteq> q" if "K x = Some dx" "x \<noteq> h" "hc_quire dx = q'" for x dx q'
    using layout_tile [OF L that(1,2)] that(3) q by (auto simp: tile_def)
  have notc: "hq_map hq0 ! j \<noteq> c" if "Q q0 = Some hq0" "j < length (hq_map hq0)" for q0 hq0 j
    using owned_entry [OF L that] c by auto
  have "layout ?K ?Q h ?ext"
  proof (rule layoutI)
    fix x dx assume x: "?K x = Some dx" "x \<noteq> h"
    show "tile ?Q (?ext x) x dx"
    proof (cases "x = c")
      case True
      with x d hq show ?thesis by (auto simp: tile_def)
    next
      case False
      then show ?thesis using x layout_tile [OF L, of x dx] old [of x dx] by (auto simp: tile_def)
    qed
  next
    fix q0 hq0 assume q0: "?Q q0 = Some hq0"
    show "owned ?K h q0 hq0"
    proof (cases "q0 = q")
      case True
      with q0 hq d c show ?thesis by (auto simp: owned_def)
    next
      case False
      with q0 have "owned K h q0 hq0" using layout_owned [OF L] by auto
      then show ?thesis by (rule owned_fields [rotated]) (use c in auto)
    qed
  qed
  moreover have "sized_tiles ?K h ?ext c"
    using tiles_okD(2) [OF T] by (auto simp: sized_tiles_def)
  moreover have "counted ?K ?Q c 0"
    unfolding counted_zero
  proof (intro allI impI)
    fix q0 hq0 assume q0: "?Q q0 = Some hq0"
    show "hq_free_pages hq0 = int (card (free_pages_of ?K c hq0))"
    proof (cases "q0 = q")
      case True
      then have "free_pages_of ?K c hq0 = {..<n}" using q0 hq by (auto simp: free_pages_of_def)
      with True q0 hq show ?thesis by simp
    next
      case False
      with q0 have q1: "Q q0 = Some hq0" by simp
      have "free_pages_of ?K c hq0 = free_pages_of K h hq0"
        using notc [OF q1] owned_entry [OF L q1] by (auto simp: free_pages_of_def is_free_def)
      with tiles_okD(3) [OF T] q1 show ?thesis by (simp add: counted_zero)
    qed
  qed
  moreover have "coalesced ?K ?Q c"
    unfolding coalesced_def
  proof (intro allI impI)
    fix q0 hq0 j
    assume q0: "?Q q0 = Some hq0" and j: "Suc j < length (hq_map hq0)"
      and n: "hq_map hq0 ! j \<noteq> c" "hq_map hq0 ! Suc j \<noteq> c"
      and f: "is_free ?K (hq_map hq0 ! j)" "is_free ?K (hq_map hq0 ! Suc j)"
    have "q0 \<noteq> q" using n(1) j q0 hq by auto
    with q0 have q1: "Q q0 = Some hq0" by simp
    have "is_free K (hq_map hq0 ! j)" "is_free K (hq_map hq0 ! Suc j)" using f n by (simp_all add: is_free_def)
    moreover have "hq_map hq0 ! j \<noteq> h" "hq_map hq0 ! Suc j \<noteq> h"
      using owned_entry [OF L q1] j by auto
    ultimately show "hq_map hq0 ! j = hq_map hq0 ! Suc j"
      using tiles_okD(4) [OF T] q1 j unfolding coalesced_def by blast
  qed
  moreover have "aged ?K ?Q h c"
    using tiles_okD(5) [OF T] old by (fastforce simp: aged_def)
  ultimately show ?thesis by (simp add: tiles_ok_def)
qed

section \<open>Splitting and absorbing\<close>

lemma tiles_split:
  assumes T: "tiles_ok K Q h ext dp 0" and d: "K dp = Some d" "dp \<noteq> h" and hq: "Q (hc_quire d) = Some hq"
    and e: "ext dp = (i, n)" "0 < k" "k < n" and new: "K new = None" "new \<noteq> h"
    and dn: "hc_chunk dn = hc_chunk d" "hc_quire dn = hc_quire d"
    and dd: "hc_chunk dd = hc_chunk d + word_of_nat (1024 * k)" "hc_quire dd = hc_quire d"
      "HUGECHUNK_IS_FREE dd" "hc_bytesize dd = 1024 * (n - k)"
    and hq': "hq_map hq' = paint (hq_map hq) i (i + k) new"
      "hq_first_ram_quantum hq' = hq_first_ram_quantum hq" "hq_page_count hq' = hq_page_count hq"
      "hq_free_pages hq' = hq_free_pages hq" "hq_youngest hq' = hq_youngest hq"
    and closed: "closed_right K hq dp"
  shows "tiles_ok (K(new \<mapsto> dn, dp \<mapsto> dd)) (Q(hc_quire d \<mapsto> hq')) h
    (ext(new := (i, k), dp := (i + k, n - k))) new 0" (is "tiles_ok ?K ?Q h ?ext new 0")
proof -
  note L = tiles_okD(1) [OF T]
  have "new \<noteq> dp" using d new by auto
  have tdp: "i + n \<le> length (hq_map hq)"
    "\<And>j. j < length (hq_map hq) \<Longrightarrow> hq_map hq ! j = dp \<longleftrightarrow> i \<le> j \<and> j < i + n"
    using layout_tile [OF L d] hq e by (auto simp: tile_def)
  have notnew: "hq_map hq0 ! j \<noteq> new" if "Q q0 = Some hq0" "j < length (hq_map hq0)" for q0 hq0 j
    using owned_entry [OF L that] new by auto
  have fr: "is_free ?K x \<longleftrightarrow> x = dp \<or> is_free K x" if "x \<noteq> new" for x
    using that dd(3) by (auto simp: is_free_def)
  have "layout ?K ?Q h ?ext"
    by (rule layout_split [OF L d hq e new dn dd(1,2) hq'(1-3)])
  moreover have "length (hq_map hq) < 2 ^ 21" using layout_owned [OF L hq] by (simp add: owned_def)
  then have "n - k < 2 ^ 21" using tdp(1) by linarith
  then have "sized_tiles ?K h ?ext new"
    using tiles_okD(2) [OF T] dd(4) \<open>new \<noteq> dp\<close> by (auto simp: sized_tiles_def pages_of_pages)
  moreover have "counted ?K ?Q new 0"
    unfolding counted_zero
  proof (intro allI impI)
    fix q0 hq0 assume q0: "?Q q0 = Some hq0"
    obtain hq1 where q1: "Q q0 = Some hq1" "hq_free_pages hq0 = hq_free_pages hq1"
        "hq_map hq0 = (if q0 = hc_quire d then paint (hq_map hq) i (i + k) new else hq_map hq1)"
        "q0 = hc_quire d \<longrightarrow> hq1 = hq"
      using q0 hq hq' by (cases "q0 = hc_quire d") auto
    have "free_pages_of ?K new hq0 = free_pages_of K dp hq1"
    proof (rule set_eqI)
      fix j
      show "j \<in> free_pages_of ?K new hq0 \<longleftrightarrow> j \<in> free_pages_of K dp hq1"
        using q1 tdp(2) [of j] e notnew [OF q1(1), of j]
        by (cases "q0 = hc_quire d"; cases "j < length (hq_map hq1)") (auto simp: free_pages_of_def fr)
    qed
    with tiles_okD(3) [OF T] q1 show "hq_free_pages hq0 = int (card (free_pages_of ?K new hq0))"
      by (simp add: counted_zero)
  qed
  moreover have "coalesced ?K ?Q new"
    unfolding coalesced_def
  proof (intro allI impI)
    fix q0 hq0 j
    assume q0: "?Q q0 = Some hq0" and j: "Suc j < length (hq_map hq0)"
      and n: "hq_map hq0 ! j \<noteq> new" "hq_map hq0 ! Suc j \<noteq> new"
      and f: "is_free ?K (hq_map hq0 ! j)" "is_free ?K (hq_map hq0 ! Suc j)"
    obtain hq1 where q1: "Q q0 = Some hq1" "length (hq_map hq0) = length (hq_map hq1)"
        "hq_map hq0 ! j = hq_map hq1 ! j" "hq_map hq0 ! Suc j = hq_map hq1 ! Suc j"
        "q0 = hc_quire d \<longrightarrow> hq1 = hq \<and> \<not> (i \<le> j \<and> j < i + k) \<and> \<not> (i \<le> Suc j \<and> Suc j < i + k)"
      using q0 hq hq' n j by (cases "q0 = hc_quire d") (auto split: if_splits)
    show "hq_map hq0 ! j = hq_map hq0 ! Suc j"
    proof (cases "hq_map hq1 ! j = dp \<or> hq_map hq1 ! Suc j = dp")
      case True
      then have "dp \<in> set (hq_map hq1)" using j q1(2) by auto
      then have hq1: "hq1 = hq" "\<not> (i \<le> Suc j \<and> Suc j < i + k)"
        using owner_quire [OF L d q1(1)] q1(5) by auto
      show ?thesis
      proof (rule ccontr)
        assume ne: "hq_map hq0 ! j \<noteq> hq_map hq0 ! Suc j"
        show False
        proof (cases "hq_map hq1 ! j = dp")
          case True
          then show False
            using ne q1 j f(2) n(2) closed hq1(1) fr by (auto simp: closed_right_def)
        next
          case False
          then have "hq_map hq ! Suc j = dp" using \<open>hq_map hq1 ! j = dp \<or> hq_map hq1 ! Suc j = dp\<close> hq1 by simp
          then have "i \<le> Suc j" "Suc j < i + n" "\<not> i \<le> j"
            using tdp(2) [of "Suc j"] tdp(2) [of j] False j q1(2) hq1(1) by auto
          then show False using hq1(2) e(2) by simp
        qed
      qed
    next
      case False
      then show ?thesis using tiles_okD(4) [OF T] q1 j n f fr unfolding coalesced_def by metis
    qed
  qed
  moreover have "aged ?K Q h new"
    using tiles_okD(5) [OF T] dd(3) by (auto simp: aged_def)
  then have "aged ?K ?Q h new" by (rule aged_quire_upd) (use hq hq'(5) in auto)
  ultimately show ?thesis by (simp add: tiles_ok_def)
qed

lemma tiles_absorb:
  assumes T: "tiles_ok K Q h ext c m" and d: "K c = Some d" "c \<noteq> h" and dx: "K x = Some dx" "x \<noteq> h" "x \<noteq> c"
    and free: "HUGECHUNK_IS_FREE dx"
    and q: "hc_quire dx = hc_quire d" and hq: "Q (hc_quire d) = Some hq"
    and e: "ext c = (i, n)" "ext x = (ix, nx)" "ix + nx = i \<or> i + n = ix"
    and d': "hc_chunk d' = (if ix < i then hc_chunk dx else hc_chunk d)" "hc_quire d' = hc_quire d"
    and hq': "hq_map hq' = paint (hq_map hq) ix (ix + nx) c"
      "hq_first_ram_quantum hq' = hq_first_ram_quantum hq" "hq_page_count hq' = hq_page_count hq"
      "hq_free_pages hq' = hq_free_pages hq" "hq_youngest hq' = hq_youngest hq"
  shows "tiles_ok (K(c \<mapsto> d', x := None)) (Q(hc_quire d \<mapsto> hq')) h (ext(c := (min i ix, n + nx))) c m"
    (is "tiles_ok ?K ?Q h ?ext c m")
proof -
  note L = tiles_okD(1) [OF T]
  have L': "layout ?K ?Q h ?ext"
    by (rule layout_absorb [OF L d dx q hq e d' hq'(1-3)])
  have tx: "ix + nx \<le> length (hq_map hq)"
    "\<And>j. j < length (hq_map hq) \<Longrightarrow> hq_map hq ! j = x \<longleftrightarrow> ix \<le> j \<and> j < ix + nx"
    using layout_tile [OF L dx(1,2)] hq e q by (auto simp: tile_def)
  have fr: "is_free ?K y \<longleftrightarrow> y \<noteq> x \<and> is_free K y" if "y \<noteq> c" for y
    using that by (auto simp: is_free_def)
  have dc: "?K c = Some d'" using dx(3) by simp
  have "sized_tiles ?K h ?ext c"
    using tiles_okD(2) [OF T] by (auto simp: sized_tiles_def split: if_splits)
  moreover have "counted ?K ?Q c m"
    unfolding counted_def
  proof (intro allI impI)
    fix q0 hq0 assume q0: "?Q q0 = Some hq0"
    obtain hq1 where q1: "Q q0 = Some hq1" "hq_free_pages hq0 = hq_free_pages hq1"
        "hq_map hq0 = (if q0 = hc_quire d then paint (hq_map hq) ix (ix + nx) c else hq_map hq1)"
        "q0 = hc_quire d \<longrightarrow> hq1 = hq"
      using q0 hq hq' by (cases "q0 = hc_quire d") auto
    have "free_pages_of ?K c hq0 = free_pages_of K c hq1"
    proof (rule set_eqI)
      fix j
      have "hq_map hq1 ! j \<noteq> x" if "q0 \<noteq> hc_quire d" "j < length (hq_map hq1)"
        using owner_quire [OF L dx(1,2) q1(1)] q that nth_mem [OF that(2)] by auto
      moreover have "is_free K x" using free dx by (simp add: is_free_def)
      ultimately show "j \<in> free_pages_of ?K c hq0 \<longleftrightarrow> j \<in> free_pages_of K c hq1"
        using q1 tx(2) [of j] dx(3)
        by (cases "q0 = hc_quire d"; cases "j < length (hq_map hq1)"; cases "hq_map hq1 ! j = c")
          (auto simp: free_pages_of_def fr)
    qed
    moreover have "c \<in> set (hq_map hq0) \<longleftrightarrow> c \<in> set (hq_map hq1)"
      unfolding owner_quire [OF L' dc d(2) q0] owner_quire [OF L d q1(1)] d'(2) ..
    moreover have "hq_free_pages hq1 + (if c \<in> set (hq_map hq1) then int m else 0) = int (card (free_pages_of K c hq1))"
      using tiles_okD(3) [OF T] q1(1) unfolding counted_def by blast
    ultimately show "hq_free_pages hq0 + (if c \<in> set (hq_map hq0) then int m else 0) =
        int (card (free_pages_of ?K c hq0))"
      unfolding q1(2) by (simp only:)
  qed
  moreover have "coalesced ?K ?Q c"
    unfolding coalesced_def
  proof (intro allI impI)
    fix q0 hq0 j
    assume q0: "?Q q0 = Some hq0" and j: "Suc j < length (hq_map hq0)"
      and n: "hq_map hq0 ! j \<noteq> c" "hq_map hq0 ! Suc j \<noteq> c"
      and f: "is_free ?K (hq_map hq0 ! j)" "is_free ?K (hq_map hq0 ! Suc j)"
    obtain hq1 where q1: "Q q0 = Some hq1" "length (hq_map hq0) = length (hq_map hq1)"
        "hq_map hq0 ! j = hq_map hq1 ! j" "hq_map hq0 ! Suc j = hq_map hq1 ! Suc j"
      using q0 hq hq' n j by (cases "q0 = hc_quire d") (auto split: if_splits)
    then show "hq_map hq0 ! j = hq_map hq0 ! Suc j"
      using tiles_okD(4) [OF T] j n f fr unfolding coalesced_def by metis
  qed
  moreover have "aged ?K Q h c"
    using tiles_okD(5) [OF T] by (auto simp: aged_def split: if_splits)
  then have "aged ?K ?Q h c" by (rule aged_quire_upd) (use hq hq'(5) in auto)
  ultimately show ?thesis using L' by (simp add: tiles_ok_def)
qed

text \<open>The side on which a free neighbour was absorbed is closed, and a closed side stays closed.\<close>

lemma closed_after_absorb:
  assumes T: "tiles_ok K Q h ext c m" and d: "K c = Some d" "c \<noteq> h" and dx: "K x = Some dx" "x \<noteq> h" "x \<noteq> c"
    and free: "HUGECHUNK_IS_FREE dx"
    and q: "hc_quire dx = hc_quire d" and hq: "Q (hc_quire d) = Some hq"
    and e: "ext c = (i, n)" "ext x = (ix, nx)"
    and hq': "hq_map hq' = paint (hq_map hq) ix (ix + nx) c"
  shows "ix + nx = i \<Longrightarrow> closed_left (K(c \<mapsto> d', x := None)) hq' c"
    and "i + n = ix \<Longrightarrow> closed_right (K(c \<mapsto> d', x := None)) hq' c"
    and "i + n = ix \<Longrightarrow> closed_left K hq c \<Longrightarrow> closed_left (K(c \<mapsto> d', x := None)) hq' c"
proof -
  note L = tiles_okD(1) [OF T]
  have tc: "0 < n" "\<And>j. j < length (hq_map hq) \<Longrightarrow> hq_map hq ! j = c \<longleftrightarrow> i \<le> j \<and> j < i + n"
    using layout_tile [OF L d] hq e by (auto simp: tile_def)
  have tx: "0 < nx" "\<And>j. j < length (hq_map hq) \<Longrightarrow> hq_map hq ! j = x \<longleftrightarrow> ix \<le> j \<and> j < ix + nx"
    using layout_tile [OF L dx(1,2)] hq e q by (auto simp: tile_def)
  have fr: "is_free (K(c \<mapsto> d', x := None)) y \<longleftrightarrow> y \<noteq> x \<and> is_free K y" if "y \<noteq> c" for y
    using that by (auto simp: is_free_def)
  have fx: "is_free K x" using free dx by (simp add: is_free_def)
  have co: "y = z" if "Suc j < length (hq_map hq)" "hq_map hq ! j = y" "hq_map hq ! Suc j = z"
    "y \<noteq> c" "z \<noteq> c" "is_free K y" "is_free K z" for j y z
    using tiles_okD(4) [OF T] hq that unfolding coalesced_def by metis
  show "closed_left (K(c \<mapsto> d', x := None)) hq' c" if ix: "ix + nx = i"
    unfolding closed_left_def
  proof (intro allI impI)
    fix j assume j: "Suc j < length (hq_map hq')" "hq_map hq' ! Suc j = c" "hq_map hq' ! j \<noteq> c"
    then have jl: "Suc j < length (hq_map hq)" "\<not> (ix \<le> j \<and> j < ix + nx)"
        "hq_map hq' ! j = hq_map hq ! j" "hq_map hq ! j \<noteq> c"
      using hq' by (auto split: if_splits)
    have "ix \<le> Suc j \<and> Suc j < ix + nx \<or> hq_map hq ! Suc j = c"
      using j(2) hq' jl(1) by (auto split: if_splits)
    then have "ix = Suc j"
      using jl tc(2) [of "Suc j"] tc(2) [of j] ix tx(1) by auto
    then have "hq_map hq ! Suc j = x" using tx jl(1) by auto
    then show "\<not> is_free (K(c \<mapsto> d', x := None)) (hq_map hq' ! j)"
      using co [OF jl(1) refl _ jl(4), of x] dx(3) fx fr jl(3,4) by auto
  qed
  show "closed_right (K(c \<mapsto> d', x := None)) hq' c" if ix: "i + n = ix"
    unfolding closed_right_def
  proof (intro allI impI)
    fix j assume j: "Suc j < length (hq_map hq')" "hq_map hq' ! j = c" "hq_map hq' ! Suc j \<noteq> c"
    then have jl: "Suc j < length (hq_map hq)" "\<not> (ix \<le> Suc j \<and> Suc j < ix + nx)"
        "hq_map hq' ! Suc j = hq_map hq ! Suc j" "hq_map hq ! Suc j \<noteq> c"
      using hq' by (auto split: if_splits)
    have "ix \<le> j \<and> j < ix + nx \<or> hq_map hq ! j = c"
      using j(2) hq' jl(1) by (auto split: if_splits)
    then have "ix \<le> j" "j < ix + nx"
      using jl tc(2) [of "Suc j"] tc(2) [of j] ix tx(1) by auto
    then have "hq_map hq ! j = x" using tx jl(1) by auto
    then show "\<not> is_free (K(c \<mapsto> d', x := None)) (hq_map hq' ! Suc j)"
      using co [OF jl(1) _ refl _ jl(4), of x] dx(3) fx fr jl(3,4) by auto
  qed
  show "closed_left (K(c \<mapsto> d', x := None)) hq' c" if ix: "i + n = ix" and cl: "closed_left K hq c"
    unfolding closed_left_def
  proof (intro allI impI)
    fix j assume j: "Suc j < length (hq_map hq')" "hq_map hq' ! Suc j = c" "hq_map hq' ! j \<noteq> c"
    then have jl: "Suc j < length (hq_map hq)" "\<not> (ix \<le> j \<and> j < ix + nx)"
        "hq_map hq' ! j = hq_map hq ! j" "hq_map hq ! j \<noteq> c"
      using hq' by (auto split: if_splits)
    have "ix \<le> Suc j \<and> Suc j < ix + nx \<or> hq_map hq ! Suc j = c"
      using j(2) hq' jl(1) by (auto split: if_splits)
    then have "hq_map hq ! Suc j = c"
      using jl tc(2) [of j] ix tc(1) by auto
    then show "\<not> is_free (K(c \<mapsto> d', x := None)) (hq_map hq' ! j)"
      using cl jl fr unfolding closed_left_def by metis
  qed
qed

end
