(* ===== verification/Hugechunk_Heap.thy ===== *)
theory Hugechunk_Heap
  imports Hugechunk_Tiles
begin

text \<open>
  The invariant of the hugechunk heap and its preservation by \<open>allocate_hugechunk\<close> and
  \<open>free_hugechunk\<close>: layout and bookkeeping, a free list that holds exactly the free chunks,
  quires at disjoint book-aligned addresses, and a book map that leads from every address of
  a quire in use to the quire's record.
\<close>

section \<open>Where quires lie\<close>

definition located :: "vunt \<Rightarrow> hugechunk_quire \<Rightarrow> bool" where
  "located q hq \<longleftrightarrow> unat q mod 65536 = 0 \<and> hq_quire_bytesize hq mod 65536 = 0 \<and>
     unat q + hq_quire_bytesize hq < 2 ^ 32 \<and> 1024 * length (hq_map hq) < hq_quire_bytesize hq \<and>
     hq_first_ram_quantum hq = q + word_of_nat (hq_quire_bytesize hq - 1024 * length (hq_map hq))"

definition marked :: "book2sibid \<Rightarrow> vunt \<Rightarrow> hugechunk_quire \<Rightarrow> bool" where
  "marked b q hq \<longleftrightarrow> (hq_youngest hq < MAX_AGEGROUPS \<longrightarrow>
     (\<forall>a. unat q \<le> unat a \<longrightarrow> unat a < unat q + hq_quire_bytesize hq \<longrightarrow>
        SIBID_FOR_POINTER b a = (if unat a div 65536 = unat q div 65536
          then HUGECHUNK_RECORD_SIBID (hq_youngest hq) else HUGECHUNK_DATA_SIBID (hq_youngest hq))))"

definition apart :: "vunt \<Rightarrow> nat \<Rightarrow> vunt \<Rightarrow> nat \<Rightarrow> bool" where
  "apart q n q' n' \<longleftrightarrow> unat q + n \<le> unat q' \<or> unat q' + n' \<le> unat q"

definition placed :: "quire_store \<Rightarrow> book2sibid \<Rightarrow> bool" where
  "placed Q b \<longleftrightarrow> (\<forall>q hq. Q q = Some hq \<longrightarrow> located q hq \<and> marked b q hq) \<and>
     (\<forall>q hq q' hq'. Q q = Some hq \<longrightarrow> Q q' = Some hq' \<longrightarrow> q \<noteq> q' \<longrightarrow>
        apart q (hq_quire_bytesize hq) q' (hq_quire_bytesize hq'))"

lemma placed_upd:
  assumes "placed Q b" and "Q q = Some hq" and "hq_first_ram_quantum hq' = hq_first_ram_quantum hq"
    and "hq_quire_bytesize hq' = hq_quire_bytesize hq" and "length (hq_map hq') = length (hq_map hq)"
    and "hq_youngest hq' = hq_youngest hq"
  shows "placed (Q(q \<mapsto> hq')) b"
proof -
  have same: "\<exists>hq0. Q q1 = Some hq0 \<and> located q1 hq1 = located q1 hq0 \<and> marked b q1 hq1 = marked b q1 hq0 \<and>
      hq_quire_bytesize hq1 = hq_quire_bytesize hq0"
    if "(Q(q \<mapsto> hq')) q1 = Some hq1" for q1 hq1
    using that assms(2-6) by (cases "q1 = q") (auto simp: located_def marked_def)
  show ?thesis
    unfolding placed_def
  proof (intro conjI allI impI)
    fix q1 hq1 assume "(Q(q \<mapsto> hq')) q1 = Some hq1"
    from same [OF this] assms(1) show "located q1 hq1" "marked b q1 hq1" by (auto simp: placed_def)
  next
    fix q1 hq1 q2 hq2
    assume "(Q(q \<mapsto> hq')) q1 = Some hq1" "(Q(q \<mapsto> hq')) q2 = Some hq2" "q1 \<noteq> q2"
    with same [of q1 hq1] same [of q2 hq2] assms(1)
    show "apart q1 (hq_quire_bytesize hq1) q2 (hq_quire_bytesize hq2)"
      unfolding placed_def by metis
  qed
qed

lemma marked_range:
  assumes "located q hq"
  shows "SIBID_FOR_POINTER ((set_book2sibid_entries_for_range b q (word_of_nat (hq_quire_bytesize hq)) s)
      (GET_BOOK_CONTAINING_POINTEE q := r)) a =
    (if unat a div 65536 = unat q div 65536 then r
     else if unat q \<le> unat a \<and> unat a < unat q + hq_quire_bytesize hq then s else SIBID_FOR_POINTER b a)"
proof -
  obtain i j where ij: "unat q = i * 65536" "hq_quire_bytesize hq = j * 65536"
    using assms by (auto simp: located_def mod_eq_0_iff_dvd dvd_def mult.commute)
  have un: "unat (word_of_nat (hq_quire_bytesize hq) :: vunt) = hq_quire_bytesize hq"
    using assms by (intro unat_word_of_nat) (simp add: located_def)
  have "unat q + unat (word_of_nat (hq_quire_bytesize hq) :: vunt) < 2 ^ 32"
    using assms un by (simp add: located_def)
  note range = set_range_apply [OF this, of b s a]
  have "i * 65536 \<le> unat a \<longleftrightarrow> i \<le> unat a div 65536"
    and "unat a < (i + j) * 65536 \<longleftrightarrow> unat a div 65536 < i + j"
    by (simp_all add: less_eq_div_iff_mult_less_eq div_less_iff_less_mult)
  moreover have "(i * 65536 + j * 65536) div 65536 = i + j" "i * 65536 div 65536 = i" by simp_all
  ultimately have "unat q div 65536 \<le> unat a div 65536 \<longleftrightarrow> unat q \<le> unat a"
    and "unat a div 65536 < (unat q + hq_quire_bytesize hq) div 65536 \<longleftrightarrow> unat a < unat q + hq_quire_bytesize hq"
    unfolding ij add_mult_distrib by simp_all
  with range un show ?thesis
    by (simp add: SIBID_FOR_POINTER_def GET_BOOK_eq)
qed

lemma placed_mark:
  assumes P: "placed Q b" and hq: "Q q = Some hq" and "hq_first_ram_quantum hq' = hq_first_ram_quantum hq"
    and bytes: "hq_quire_bytesize hq' = hq_quire_bytesize hq" and "length (hq_map hq') = length (hq_map hq)"
    and y: "hq_youngest hq' = age"
  shows "placed (Q(q \<mapsto> hq')) ((set_book2sibid_entries_for_range b q (word_of_nat (hq_quire_bytesize hq))
    (HUGECHUNK_DATA_SIBID age)) (GET_BOOK_CONTAINING_POINTEE q := HUGECHUNK_RECORD_SIBID age))"
    (is "placed ?Q ?b")
proof -
  have loc: "located q hq" using P hq by (simp add: placed_def)
  have "marked ?b q' hq1" if q': "?Q q' = Some hq1" for q' hq1
  proof (cases "q' = q")
    case True
    with q' bytes y show ?thesis by (auto simp: marked_def marked_range [OF loc])
  next
    case False
    with q' have old: "Q q' = Some hq1" by simp
    then have m: "marked b q' hq1" and l1: "located q' hq1"
      and ap: "apart q (hq_quire_bytesize hq) q' (hq_quire_bytesize hq1)"
      using P hq False by (auto simp: placed_def)
    have "SIBID_FOR_POINTER ?b a = SIBID_FOR_POINTER b a"
      if "unat q' \<le> unat a" "unat a < unat q' + hq_quire_bytesize hq1" for a
    proof -
      obtain i where i: "unat q = 65536 * i" using loc by (auto simp: located_def)
      obtain k where k: "unat q' = 65536 * k" using l1 by (auto simp: located_def)
      obtain m where m: "hq_quire_bytesize hq1 = 65536 * m" using l1 by (auto simp: located_def)
      have "0 < hq_quire_bytesize hq" using loc by (simp add: located_def)
      moreover obtain n where n: "hq_quire_bytesize hq = 65536 * n" using loc by (auto simp: located_def)
      ultimately have "0 < n" by simp
      have "k \<le> unat a div 65536" "unat a div 65536 < k + m"
        using that unfolding k m by linarith+
      moreover have "i + n \<le> k \<or> k + m \<le> i"
        using ap unfolding i k m n apart_def by linarith
      ultimately have "unat a div 65536 \<noteq> unat q div 65536"
        using \<open>0 < n\<close> unfolding i by auto
      moreover have "\<not> (unat q \<le> unat a \<and> unat a < unat q + hq_quire_bytesize hq)"
        using that ap by (auto simp: apart_def)
      ultimately show ?thesis by (simp only: marked_range [OF loc] if_False)
    qed
    with m show ?thesis by (simp add: marked_def)
  qed
  then show ?thesis
    using assms unfolding placed_def located_def apart_def by (auto split: if_splits)
qed

section \<open>The heap invariant\<close>

definition heap_mid :: "hugeheap \<Rightarrow> (nat \<Rightarrow> nat \<times> nat) \<Rightarrow> nat list \<Rightarrow> nat \<Rightarrow> nat \<Rightarrow> bool" where
  "heap_mid st ext fl c n \<longleftrightarrow>
     tiles_ok (core (hh_chunks st)) (hh_quires st) (hh_freelist st) ext c n \<and>
     freelist (hh_chunks st) (hh_freelist st) fl \<and>
     set fl = {x. x \<noteq> hh_freelist st \<and> x \<noteq> c \<and> is_free (core (hh_chunks st)) x} \<and>
     (\<forall>x \<ge> hh_fresh st. hh_chunks st x = None) \<and> placed (hh_quires st) (hh_books st)"

definition hugeheap_ok :: "hugeheap \<Rightarrow> bool" where
  "hugeheap_ok st \<longleftrightarrow> (\<exists>ext fl. heap_mid st ext fl (hh_freelist st) 0)"

lemma hugeheap_okI: "heap_mid st ext fl c 0 \<Longrightarrow> c = hh_freelist st \<Longrightarrow> hugeheap_ok st"
  by (auto simp: hugeheap_ok_def)

definition live :: "hugeheap \<Rightarrow> nat \<Rightarrow> bool" where
  "live st c \<longleftrightarrow> (\<exists>d. hh_chunks st c = Some d \<and> c \<noteq> hh_freelist st \<and> \<not> HUGECHUNK_IS_FREE d)"

lemma IS_FREE_links [simp]:
  "HUGECHUNK_IS_FREE (d\<lparr>hc_prev := p, hc_next := n\<rparr>) = HUGECHUNK_IS_FREE d"
  by (simp add: HUGECHUNK_IS_FREE_def)

lemma header_present: "freelist cs h fl \<Longrightarrow> \<exists>d. cs h = Some d"
  unfolding freelist_def using links_dom [of cs h fl h h] by auto

lemma freelist_same_links:
  assumes "freelist cs h fl"
    and "\<And>x. x \<in> set (h # fl) \<Longrightarrow> nexts cs' x = nexts cs x \<and> prevs cs' x = prevs cs x"
  shows "freelist cs' h fl"
proof -
  have "links (nexts cs') (prevs cs') a xs b" if "links (nexts cs) (prevs cs) a xs b"
    "set (a # xs @ [b]) \<subseteq> set (h # fl)" for a xs b
    using that assms(2) by (induction xs arbitrary: a) auto
  from this [of h fl h] assms(1) show ?thesis by (auto simp: freelist_def)
qed

section \<open>The end of an allocation\<close>

lemma finish_allocation_ok:
  assumes M: "heap_mid st ext fl c 0" and d: "hh_chunks st c = Some d" "c \<noteq> hh_freelist st"
    and age: "age < MAX_AGEGROUPS" and np: "pages_of_bytesize nb = np" "snd (ext c) = np"
  shows "\<exists>st'. finish_allocation st c age nb np = Inr (st', c) \<and> hugeheap_ok st' \<and>
    hh_chunks st' = (hh_chunks st)(c \<mapsto> d\<lparr>hc_bytesize := nb, hc_state := JUNIOR_HUGECHUNK, hc_age := age\<rparr>) \<and>
    hh_freelist st' = hh_freelist st"
proof -
  let ?h = "hh_freelist st" and ?q = "hc_quire d" and ?K = "core (hh_chunks st)"
  let ?d = "d\<lparr>hc_bytesize := nb, hc_state := JUNIOR_HUGECHUNK, hc_age := age\<rparr>"
  have T: "tiles_ok ?K (hh_quires st) ?h ext c 0" and P: "placed (hh_quires st) (hh_books st)"
    using M by (simp_all add: heap_mid_def)
  have K: "?K c = Some (d\<lparr>hc_prev := 0, hc_next := 0\<rparr>)" using d(1) by (simp add: core_def)
  obtain hq where hq: "hh_quires st ?q = Some hq"
    using extent [OF tiles_okD(1) [OF T] K d(2)] by auto
  let ?hq = "hq\<lparr>hq_free_pages := hq_free_pages hq - int np, hq_youngest := min age (hq_youngest hq)\<rparr>"
  let ?b = "if hq_youngest hq > age then (set_book2sibid_entries_for_range (hh_books st) ?q
      (word_of_nat (hq_quire_bytesize hq)) (HUGECHUNK_DATA_SIBID age))
      (GET_BOOK_CONTAINING_POINTEE ?q := HUGECHUNK_RECORD_SIBID age) else hh_books st"
  let ?st = "st\<lparr>hh_chunks := (hh_chunks st)(c \<mapsto> ?d), hh_quires := (hh_quires st)(?q \<mapsto> ?hq), hh_books := ?b\<rparr>"
  have age256: "age mod 256 = age" using age by (simp add: MAX_AGEGROUPS_def)
  have run: "finish_allocation st c age nb np = Inr (?st, c)"
    using d hq age256
    by (simp add: finish_allocation_def update_chunk_def get_chunk_def update_quire_def get_quire_def Let_def min_def)
  have J: "\<not> HUGECHUNK_IS_FREE ?d" by (simp add: HUGECHUNK_IS_FREE_def JUNIOR_HUGECHUNK_def FREE_HUGECHUNK_def)
  have "tiles_ok (?K(c \<mapsto> ?d\<lparr>hc_prev := 0, hc_next := 0\<rparr>))
      ((hh_quires st)(hc_quire (d\<lparr>hc_prev := 0, hc_next := 0\<rparr>) \<mapsto> ?hq)) ?h ext ?h 0"
    by (rule tiles_close_live [OF T K d(2)]) (use hq np age J in simp_all)
  then have T': "tiles_ok (core (hh_chunks ?st)) (hh_quires ?st) ?h ext ?h 0" by simp
  have fr: "is_free (core (hh_chunks ?st)) x \<longleftrightarrow> x \<noteq> c \<and> is_free ?K x" for x
    using J by (auto simp: is_free_def)
  have "c \<notin> set fl" using M by (simp add: heap_mid_def)
  then have "freelist (hh_chunks ?st) ?h fl"
    using M d by (auto simp: heap_mid_def nexts_def prevs_def elim!: freelist_same_links)
  moreover have "set fl = {x. x \<noteq> ?h \<and> x \<noteq> ?h \<and> is_free (core (hh_chunks ?st)) x}"
    using M unfolding fr by (auto simp: heap_mid_def)
  moreover have "\<forall>x \<ge> hh_fresh st. hh_chunks ?st x = None"
    using M d by (auto simp: heap_mid_def)
  moreover have "placed (hh_quires ?st) (hh_books ?st)"
  proof (cases "hq_youngest hq > age")
    case True
    then show ?thesis using placed_mark [OF P hq, of ?hq age] by (simp add: min_def)
  next
    case False
    then show ?thesis using placed_upd [OF P hq, of ?hq] by (simp add: min_def)
  qed
  ultimately have "heap_mid ?st ext fl ?h 0" using T' by (simp add: heap_mid_def)
  then have "hugeheap_ok ?st" by (rule hugeheap_okI) simp
  with run show ?thesis by (intro exI [of _ ?st]) simp
qed

end
