(* ===== verification/Hugechunk_Allocation.thy ===== *)
theory Hugechunk_Allocation
  imports Hugechunk_Heap
begin

text \<open>
  \<open>allocate_hugechunk\<close> on a heap that satisfies the invariant: the three branches (exact fit,
  split, new quire) each end in \<open>finish_allocation\<close> with the chosen descriptor out of account.
\<close>

definition allocated :: "hugeheap \<Rightarrow> hugeheap \<Rightarrow> nat \<Rightarrow> nat \<Rightarrow> nat \<Rightarrow> bool" where
  "allocated st st' c age nb \<longleftrightarrow> hugeheap_ok st' \<and> \<not> live st c \<and>
     (\<exists>d. hh_chunks st' c = Some d \<and> c \<noteq> hh_freelist st' \<and> hc_bytesize d = nb \<and>
          hc_state d = JUNIOR_HUGECHUNK \<and> hc_age d = age) \<and>
     (\<forall>x. live st x \<longrightarrow> live st' x \<and> core (hh_chunks st') x = core (hh_chunks st) x)"

lemma live_core: "live st x \<longleftrightarrow> x \<noteq> hh_freelist st \<and> (\<exists>k. core (hh_chunks st) x = Some k \<and> \<not> HUGECHUNK_IS_FREE k)"
  by (auto simp: live_def core_eq_Some)

text \<open>From the state in which \<open>c\<close> is out of account to the end.\<close>

lemma finish_allocated:
  assumes M: "heap_mid st1 ext fl c 0" and d: "hh_chunks st1 c = Some d" "c \<noteq> hh_freelist st1"
    and age: "age < MAX_AGEGROUPS" and np: "pages_of_bytesize nb = np" "snd (ext c) = np"
    and h: "hh_freelist st1 = hh_freelist st" and new: "\<not> live st c"
    and frame: "\<And>x. live st x \<Longrightarrow> core (hh_chunks st1) x = core (hh_chunks st) x"
  shows "\<exists>st'. finish_allocation st1 c age nb np = Inr (st', c) \<and> allocated st st' c age nb"
proof -
  from finish_allocation_ok [OF M d age np] obtain st' where st':
    "finish_allocation st1 c age nb np = Inr (st', c)" "hugeheap_ok st'"
    "hh_chunks st' = (hh_chunks st1)(c \<mapsto> d\<lparr>hc_bytesize := nb, hc_state := JUNIOR_HUGECHUNK, hc_age := age\<rparr>)"
    "hh_freelist st' = hh_freelist st1" by blast
  have "core (hh_chunks st') x = core (hh_chunks st) x" if "live st x" for x
  proof -
    have "x \<noteq> c" using that new by auto
    then show ?thesis using frame [OF that] st'(3) by simp
  qed
  then have "\<forall>x. live st x \<longrightarrow> live st' x \<and> core (hh_chunks st') x = core (hh_chunks st) x"
    using st'(4) h by (auto simp: live_core)
  with st' d new show ?thesis by (auto simp: allocated_def)
qed

lemma is_free_dom: "cs x = None \<Longrightarrow> \<not> is_free (core cs) x"
  by (auto simp: is_free_def core_def)

lemma free_not_live: "is_free (core (hh_chunks st)) c \<Longrightarrow> \<not> live st c"
  by (auto simp: live_core is_free_def)

section \<open>Exact fit\<close>

lemma alloc_exact:
  assumes M: "heap_mid st ext fl (hh_freelist st) 0" and c: "c \<in> set fl" and d: "hh_chunks st c = Some d"
    and np: "hc_bytesize d = 1024 * np" "pages_of_bytesize nb = np" and age: "age < MAX_AGEGROUPS"
  shows "\<exists>st'. seq_result (remove_hugechunk_from_doubly_linked_list st c) (\<lambda>st.
      finish_allocation st c age nb np) = Inr (st', c) \<and> allocated st st' c age nb"
proof -
  let ?h = "hh_freelist st" and ?K = "core (hh_chunks st)"
  have fl: "freelist (hh_chunks st) ?h fl" "set fl = {x. x \<noteq> ?h \<and> is_free ?K x}"
    and T: "tiles_ok ?K (hh_quires st) ?h ext ?h 0" using M by (simp_all add: heap_mid_def)
  then have cf: "is_free ?K c" "c \<noteq> ?h" using c by auto
  obtain xs ys where sp: "fl = xs @ c # ys" using c by (meson split_list)
  obtain cs where cs: "remove_hugechunk_from_doubly_linked_list st c = Inr (st\<lparr>hh_chunks := cs\<rparr>)"
    "core cs = ?K" "freelist cs ?h (xs @ ys)"
    using remove_ok [of st xs c ys] fl(1) sp by auto
  let ?st1 = "st\<lparr>hh_chunks := cs\<rparr>"
  have cs_dom: "cs x = None \<longleftrightarrow> hh_chunks st x = None" for x
    using cs(2) by (metis core_None)
  have "distinct fl" using fl(1) by (simp add: freelist_def)
  then have "set (xs @ ys) = {x. x \<noteq> ?h \<and> x \<noteq> c \<and> is_free ?K x}"
    using fl(2) sp by auto
  then have M1: "heap_mid ?st1 ext (xs @ ys) c 0"
    using M tiles_take_free [OF T cf(1)] cs cs_dom by (simp add: heap_mid_def)
  obtain d1 where d1: "cs c = Some d1" using cs_dom [of c] d by (cases "cs c") auto
  have K: "?K c = Some (d\<lparr>hc_prev := 0, hc_next := 0\<rparr>)" using d by (simp add: core_def)
  then have "snd (ext c) = np"
    using tile_size(2) [OF T K cf(2) cf(2)] cf np(1) by (simp add: is_free_def)
  then have "\<exists>st'. finish_allocation ?st1 c age nb np = Inr (st', c) \<and> allocated st st' c age nb"
    by (intro finish_allocated [OF M1 _ _ age np(2)]) (use d1 cf cs(2) free_not_live in simp_all)
  with cs(1) show ?thesis by simp
qed

section \<open>Splitting\<close>

lemma claim_new_chunk_ok:
  assumes "hh_chunks st c = Some d" and "hh_quires st (hc_quire d) = Some hq"
    and "hc_chunk d = hq_first_ram_quantum hq + word_of_nat (1024 * i)"
    and "i + k \<le> length (hq_map hq)" and "length (hq_map hq) < 2 ^ 21"
  shows "claim_new_chunk st c k =
    Inr (st\<lparr>hh_quires := (hh_quires st)(hc_quire d \<mapsto> hq\<lparr>hq_map := paint (hq_map hq) i (i + k) c\<rparr>)\<rparr>)"
proof -
  have "GET_HUGECHUNK_FOR_POINTER_PAGE hq (hc_chunk d) = i"
    by (rule page_of_offset [OF assms(3)]) (use assms(4,5) in linarith)
  then show ?thesis
    using assms(1,2) set_pages_ok [OF assms(4), where c = c]
    by (simp add: claim_new_chunk_def claim_pages_def get_chunk_def get_quire_def)
qed

definition split_store :: "hugeheap \<Rightarrow> nat \<Rightarrow> hugechunk \<Rightarrow> nat \<Rightarrow> chunk_store" where
  "split_store st dp d tot = (hh_chunks st)
     (hh_fresh st \<mapsto> malloced_chunk\<lparr>hc_chunk := hc_chunk d, hc_quire := hc_quire d\<rparr>,
      dp \<mapsto> d\<lparr>hc_chunk := hc_chunk d + word_of_nat tot, hc_bytesize := hc_bytesize d - tot\<rparr>)"

lemma split_hugechunk_ok:
  assumes "hh_chunks st dp = Some d" and "hh_chunks st (hh_fresh st) = None"
    and "tot \<le> hc_bytesize d" and "hc_bytesize d < 2 ^ 32"
  shows "split_hugechunk st dp tot =
    Inr (st\<lparr>hh_chunks := split_store st dp d tot, hh_fresh := hh_fresh st + 1\<rparr>, hh_fresh st)"
proof -
  have "hh_fresh st \<noteq> dp" using assms by auto
  then show ?thesis
    using assms sub32_eq [OF assms(4,3)]
    by (simp add: split_hugechunk_def split_store_def get_chunk_def update_chunk_def MALLOC_hugechunk_def)
qed

lemma split_tiles:
  assumes T: "tiles_ok (core (hh_chunks st)) (hh_quires st) h ext dp 0"
    and d: "hh_chunks st dp = Some d" "dp \<noteq> h" "HUGECHUNK_IS_FREE d" and hq: "hh_quires st (hc_quire d) = Some hq"
    and e: "hc_bytesize d = 1024 * snd (ext dp)" "0 < k" "k < snd (ext dp)"
    and new: "hh_chunks st (hh_fresh st) = None" "hh_fresh st \<noteq> h"
    and closed: "closed_right (core (hh_chunks st)) hq dp"
    and i: "i = fst (ext dp)"
  shows "tiles_ok (core (split_store st dp d (1024 * k)))
    ((hh_quires st)(hc_quire d \<mapsto> hq\<lparr>hq_map := paint (hq_map hq) i (i + k) (hh_fresh st)\<rparr>)) h
    (ext(hh_fresh st := (i, k), dp := (i + k, snd (ext dp) - k))) (hh_fresh st) 0"
proof -
  have K: "core (hh_chunks st) dp = Some (d\<lparr>hc_prev := 0, hc_next := 0\<rparr>)" using d by (simp add: core_def)
  have ne: "hh_fresh st \<noteq> dp" using d new by auto
  let ?dn = "malloced_chunk\<lparr>hc_chunk := hc_chunk d, hc_quire := hc_quire d\<rparr>"
  let ?dd = "d\<lparr>hc_chunk := hc_chunk d + word_of_nat (1024 * k), hc_bytesize := hc_bytesize d - 1024 * k\<rparr>"
  have "tiles_ok ((core (hh_chunks st))(hh_fresh st \<mapsto> ?dn\<lparr>hc_prev := 0, hc_next := 0\<rparr>,
        dp \<mapsto> ?dd\<lparr>hc_prev := 0, hc_next := 0\<rparr>))
      ((hh_quires st)(hc_quire (d\<lparr>hc_prev := 0, hc_next := 0\<rparr>) \<mapsto> hq\<lparr>hq_map := paint (hq_map hq) i (i + k) (hh_fresh st)\<rparr>)) h
      (ext(hh_fresh st := (i, k), dp := (i + k, snd (ext dp) - k))) (hh_fresh st) 0"
    by (rule tiles_split [OF T K d(2), where hq = hq])
      (use hq e new closed i d(3) in \<open>simp_all add: HUGECHUNK_IS_FREE_def prod_eq_iff diff_mult_distrib2\<close>)
  then show ?thesis by (simp add: split_store_def)
qed

lemma core_split_other:
  "x \<noteq> hh_fresh st \<Longrightarrow> x \<noteq> dp \<Longrightarrow> core (split_store st dp d t) x = core (hh_chunks st) x"
  by (simp add: split_store_def core_def)

lemma split_is_free:
  assumes "hh_chunks st dp = Some d" "HUGECHUNK_IS_FREE d" "hh_chunks st (hh_fresh st) = None"
  shows "x \<noteq> hh_fresh st \<Longrightarrow> is_free (core (split_store st dp d t)) x = is_free (core (hh_chunks st)) x"
  using assms by (cases "x = dp") (auto simp: is_free_def core_def split_store_def HUGECHUNK_IS_FREE_def)

lemma closed_right_free:
  assumes T: "tiles_ok K Q h ext h 0" and "K c = Some d" "HUGECHUNK_IS_FREE d" and hq: "Q q = Some hq"
  shows "closed_right K hq c"
  unfolding closed_right_def
proof (intro allI impI)
  fix j assume j: "Suc j < length (hq_map hq)" "hq_map hq ! j = c" "hq_map hq ! Suc j \<noteq> c"
  then have "hq_map hq ! j \<noteq> h" "hq_map hq ! Suc j \<noteq> h"
    using owned_entry [OF tiles_okD(1) [OF T] hq, of j] owned_entry [OF tiles_okD(1) [OF T] hq, of "Suc j"]
    by simp_all
  then show "\<not> is_free K (hq_map hq ! Suc j)"
    using j assms tiles_okD(4) [OF T] unfolding coalesced_def is_free_def by metis
qed

lemma claim_and_finish:
  fixes st st1 st0 :: hugeheap
  defines "h \<equiv> hh_freelist st" and "new \<equiv> hh_fresh st"
  assumes T: "tiles_ok (core (hh_chunks st)) (hh_quires st) h ext dp 0"
    and P: "placed (hh_quires st) (hh_books st)" and fresh: "\<forall>x \<ge> hh_fresh st. hh_chunks st x = None"
    and d: "hh_chunks st dp = Some d" "dp \<noteq> h" "HUGECHUNK_IS_FREE d"
    and e: "hc_bytesize d = 1024 * snd (ext dp)" "0 < k" "k < snd (ext dp)" and h: "hh_chunks st h \<noteq> None"
    and closed: "\<And>hq. hh_quires st (hc_quire d) = Some hq \<Longrightarrow> closed_right (core (hh_chunks st)) hq dp"
    and st1: "core (hh_chunks st1) = core (split_store st dp d (1024 * k))" "hh_quires st1 = hh_quires st"
      "hh_freelist st1 = h" "hh_books st1 = hh_books st" "hh_fresh st1 = Suc (hh_fresh st)"
    and fl: "freelist (hh_chunks st1) h fl"
      "set fl = {x. x \<noteq> h \<and> x \<noteq> new \<and> is_free (core (hh_chunks st1)) x}"
    and age: "age < MAX_AGEGROUPS" and nb: "pages_of_bytesize nb = k"
    and st0: "hh_freelist st0 = h" "\<not> live st0 new"
      "\<And>x. live st0 x \<Longrightarrow> x \<noteq> dp \<and> core (hh_chunks st) x = core (hh_chunks st0) x"
  shows "\<exists>st'. seq_result (claim_new_chunk st1 new k) (\<lambda>st. finish_allocation st new age nb k) = Inr (st', new) \<and>
    allocated st0 st' new age nb"
proof -
  let ?K = "core (hh_chunks st)"
  have K: "?K dp = Some (d\<lparr>hc_prev := 0, hc_next := 0\<rparr>)" using d by (simp add: core_def)
  obtain hq where hq: "hh_quires st (hc_quire d) = Some hq" "fst (ext dp) + snd (ext dp) \<le> length (hq_map hq)"
      "hc_chunk d = hq_first_ram_quantum hq + word_of_nat (1024 * fst (ext dp))" "length (hq_map hq) < 2 ^ 21"
    using extent [OF tiles_okD(1) [OF T] K d(2)] by auto
  have new: "hh_chunks st new = None" "new \<noteq> h" "new \<noteq> dp" using fresh h d by (auto simp: new_def)
  let ?Q = "(hh_quires st)(hc_quire d \<mapsto> hq\<lparr>hq_map := paint (hq_map hq) (fst (ext dp)) (fst (ext dp) + k) new\<rparr>)"
  let ?ext = "ext(new := (fst (ext dp), k), dp := (fst (ext dp) + k, snd (ext dp) - k))"
  have T1: "tiles_ok (core (hh_chunks st1)) ?Q h ?ext new 0"
    unfolding st1(1) new_def
    by (rule split_tiles [OF T d hq(1) e]) (use new closed hq(1) in \<open>auto simp: new_def\<close>)
  have "core (hh_chunks st1) new = Some (malloced_chunk\<lparr>hc_chunk := hc_chunk d, hc_quire := hc_quire d, hc_prev := 0, hc_next := 0\<rparr>)"
    using new(3) by (simp add: st1(1) split_store_def new_def core_def)
  then obtain dn where dn: "hh_chunks st1 new = Some dn" "hc_chunk dn = hc_chunk d" "hc_quire dn = hc_quire d"
    unfolding core_eq_Some
    by (metis (no_types, lifting) hugechunk.select_convs(1) hugechunk.select_convs(6) hugechunk.surjective hugechunk.update_convs)
  let ?st2 = "st1\<lparr>hh_quires := ?Q\<rparr>"
  have "claim_new_chunk st1 new k = Inr ?st2"
    using claim_new_chunk_ok [OF dn(1), of hq "fst (ext dp)" k] dn hq e st1(2) by simp
  moreover have "heap_mid ?st2 ?ext fl new 0"
  proof -
    have "core (hh_chunks st1) x = None" if "x \<ge> Suc (hh_fresh st)" for x
      unfolding st1(1) using that d fresh by (auto simp: split_store_def core_def)
    then have "\<forall>x \<ge> Suc (hh_fresh st). hh_chunks st1 x = None" by (metis core_None)
    moreover have "placed ?Q (hh_books st)" by (rule placed_upd [OF P hq(1)]) simp_all
    ultimately show ?thesis
      using T1 fl st1 by (auto simp: heap_mid_def)
  qed
  then have "\<exists>st'. finish_allocation ?st2 new age nb k = Inr (st', new) \<and> allocated st0 st' new age nb"
  proof (rule finish_allocated [OF _ _ _ age nb])
    show "core (hh_chunks ?st2) x = core (hh_chunks st0) x" if "live st0 x" for x
    proof -
      have "x \<noteq> new" using that st0(2) by auto
      then show ?thesis using st0(3) [OF that] st1(1) core_split_other [of x st dp d] by (simp add: new_def)
    qed
  qed (use dn new st1 st0 in simp_all)
  ultimately show ?thesis by simp
qed

lemma alloc_split:
  assumes M: "heap_mid st ext fl (hh_freelist st) 0" and dp: "dp \<in> set fl" and d: "hh_chunks st dp = Some d"
    and k: "0 < k" "1024 * k < hc_bytesize d" and nb: "pages_of_bytesize nb = k" and age: "age < MAX_AGEGROUPS"
  shows "\<exists>st' c. seq_result (split_hugechunk st dp (1024 * k)) (\<lambda>(st, new).
      seq_result (claim_new_chunk st new k) (\<lambda>st. finish_allocation st new age nb k)) = Inr (st', c) \<and>
    allocated st st' c age nb"
proof -
  let ?h = "hh_freelist st" and ?K = "core (hh_chunks st)" and ?new = "hh_fresh st"
  have fl: "freelist (hh_chunks st) ?h fl" "set fl = {x. x \<noteq> ?h \<and> is_free ?K x}"
    and T: "tiles_ok ?K (hh_quires st) ?h ext ?h 0" and P: "placed (hh_quires st) (hh_books st)"
    and fresh: "\<forall>x \<ge> hh_fresh st. hh_chunks st x = None"
    using M by (simp_all add: heap_mid_def)
  have K: "?K dp = Some (d\<lparr>hc_prev := 0, hc_next := 0\<rparr>)" using d by (simp add: core_def)
  have df: "dp \<noteq> ?h" "is_free ?K dp" "HUGECHUNK_IS_FREE d" using dp fl K by (auto simp: is_free_def)
  have bytes: "hc_bytesize d = 1024 * snd (ext dp)" using tile_size(2) [OF T K df(1) df(1)] df(3) by simp
  have "snd (ext dp) < 2 ^ 21" by (rule extent [OF tiles_okD(1) [OF T] K df(1)]) simp
  then have "hc_bytesize d < 2 ^ 32" using bytes by simp
  then have run: "split_hugechunk st dp (1024 * k) =
      Inr (st\<lparr>hh_chunks := split_store st dp d (1024 * k), hh_fresh := ?new + 1\<rparr>, ?new)"
    using fresh k d by (intro split_hugechunk_ok) auto
  let ?st1 = "st\<lparr>hh_chunks := split_store st dp d (1024 * k), hh_fresh := ?new + 1\<rparr>"
  obtain hd where hd: "hh_chunks st ?h = Some hd" using header_present [OF fl(1)] by auto
  have none: "hh_chunks st ?new = None" using fresh by simp
  have "?new \<notin> set fl" using none fl(2) is_free_dom by auto
  then have nfl: "?new \<notin> set (?h # fl)" using none hd by auto
  have "freelist (split_store st dp d (1024 * k)) ?h fl"
    using fl(1)
  proof (rule freelist_same_links)
    fix x assume "x \<in> set (?h # fl)"
    then have "x \<noteq> ?new" using nfl by metis
    then show "nexts (split_store st dp d (1024 * k)) x = nexts (hh_chunks st) x \<and>
        prevs (split_store st dp d (1024 * k)) x = prevs (hh_chunks st) x"
      using d by (simp add: nexts_def prevs_def split_store_def)
  qed
  moreover have "set fl = {x. x \<noteq> ?h \<and> x \<noteq> ?new \<and> is_free (core (split_store st dp d (1024 * k))) x}"
  proof (rule set_eqI)
    fix x show "x \<in> set fl \<longleftrightarrow> x \<in> {x. x \<noteq> ?h \<and> x \<noteq> ?new \<and> is_free (core (split_store st dp d (1024 * k))) x}"
      using fl(2) nfl split_is_free [OF d df(3) none, of x] by (cases "x = ?new") auto
  qed
  ultimately have f: "freelist (split_store st dp d (1024 * k)) ?h fl"
      "set fl = {x. x \<noteq> ?h \<and> x \<noteq> ?new \<and> is_free (core (split_store st dp d (1024 * k))) x}" by blast+
  have "\<exists>st'. seq_result (claim_new_chunk ?st1 ?new k) (\<lambda>st. finish_allocation st ?new age nb k) =
      Inr (st', ?new) \<and> allocated st st' ?new age nb"
  proof (rule claim_and_finish [where st = st and ext = ext and dp = dp and d = d and fl = fl])
    show "\<forall>x \<ge> hh_fresh st. hh_chunks st x = None" by (rule fresh)
    show "k < snd (ext dp)" using k bytes by simp
    show "closed_right ?K hq dp" if "hh_quires st (hc_quire d) = Some hq" for hq
      by (rule closed_right_free [OF T K _ that]) (simp add: df(3))
    show "\<not> live st ?new" using none by (simp add: live_def)
    show "x \<noteq> dp \<and> ?K x = ?K x" if "live st x" for x using that free_not_live [OF df(2)] by auto
    show "tiles_ok ?K (hh_quires st) ?h ext dp 0" by (rule tiles_take_free [OF T df(2)])
    show "placed (hh_quires st) (hh_books st)" by (rule P)
    show "hh_chunks st ?h \<noteq> None" using hd by simp
  qed (use d df f bytes k(1) age nb in simp_all)
  with run show ?thesis by simp blast
qed

section \<open>A new quire\<close>

text \<open>What the operating system may answer: nothing, or an unused book-aligned region.\<close>

definition quire_answers_ok :: "hugeheap \<Rightarrow> (nat \<Rightarrow> vunt option) \<Rightarrow> bool" where
  "quire_answers_ok st obtain_quire_from_os \<longleftrightarrow> (\<forall>n base. obtain_quire_from_os n = Some base \<longrightarrow>
     unat base mod 65536 = 0 \<and> unat base + n < 2 ^ 32 \<and>
     (\<forall>q hq. hh_quires st q = Some hq \<longrightarrow> q \<noteq> base \<and> apart q (hq_quire_bytesize hq) base n))"

lemma new_quire_ok:
  assumes M: "heap_mid st ext fl (hh_freelist st) 0" and k: "0 < k" "k \<le> 2 ^ 20"
    and ans: "quire_answers_ok st obtain_quire_from_os"
  shows "(\<exists>n. 1024 * k \<le> n \<and> n \<le> 2048 * k + 200000 \<and> obtain_quire_from_os n = None \<and>
      allocate_hugechunk_quire obtain_quire_from_os st (1024 * k) =
        Some (Inl (Died ''Unable to allocate hugechunk quire.''))) \<or>
    (\<exists>st1 d m hq. allocate_hugechunk_quire obtain_quire_from_os st (1024 * k) = Some (Inr (st1, hh_fresh st)) \<and>
      heap_mid st1 (ext(hh_fresh st := (0, m))) fl (hh_fresh st) 0 \<and>
      hh_chunks st1 = (hh_chunks st)(hh_fresh st \<mapsto> d) \<and> hh_freelist st1 = hh_freelist st \<and>
      HUGECHUNK_IS_FREE d \<and> hc_bytesize d = 1024 * m \<and> k \<le> m \<and> m < 2 ^ 21 \<and>
      hh_quires st1 (hc_quire d) = Some hq \<and> hq_map hq = replicate m (hh_fresh st))"
proof -
  let ?c = "hh_fresh st" and ?h = "hh_freelist st"
  obtain m where m: "sized k m" using size_loop_ends [OF k(2)] by auto
  have pk: "pages_of_bytesize (1024 * k) = k" using k(2) by (intro pages_of_pages) simp
  have loop: "size_loop k = Some (m, 1024 * record_kb m, 1024 * m, 1024 * quire_kb m)"
    and mk: "k \<le> m" "m \<le> k + 190" and exact: "m + record_kb m = quire_kb m"
    using m by (auto simp: sized_def)
  have m21: "m < 2 ^ 21" using mk k(2) by simp
  show ?thesis
  proof (cases "obtain_quire_from_os (1024 * quire_kb m)")
    case None
    have "1024 * k \<le> 1024 * quire_kb m" "1024 * quire_kb m \<le> 2048 * k + 200000"
    proof -
      have "256 * record_kb m \<le> m + 261" unfolding record_kb_def by simp
      then show "1024 * k \<le> 1024 * quire_kb m" "1024 * quire_kb m \<le> 2048 * k + 200000"
        using mk exact by simp_all
    qed
    moreover have "allocate_hugechunk_quire obtain_quire_from_os st (1024 * k) =
        Some (Inl (Died ''Unable to allocate hugechunk quire.''))"
      using None by (simp add: allocate_hugechunk_quire_def pk loop)
    ultimately show ?thesis using None by blast
  next
    case (Some q)
    have fl: "freelist (hh_chunks st) ?h fl" "set fl = {x. x \<noteq> ?h \<and> is_free (core (hh_chunks st)) x}"
      and T: "tiles_ok (core (hh_chunks st)) (hh_quires st) ?h ext ?h 0" and P: "placed (hh_quires st) (hh_books st)"
      and fresh: "\<forall>x \<ge> ?c. hh_chunks st x = None"
      using M by (simp_all add: heap_mid_def)
    have q: "unat q mod 65536 = 0" "unat q + 1024 * quire_kb m < 2 ^ 32" "hh_quires st q = None"
      "\<And>q0 hq0. hh_quires st q0 = Some hq0 \<Longrightarrow> apart q0 (hq_quire_bytesize hq0) q (1024 * quire_kb m)"
      using ans Some unfolding quire_answers_ok_def by (blast, blast, metis not_None_eq, blast)
    let ?first = "q + word_of_nat (1024 * record_kb m)"
    let ?d = "malloced_chunk\<lparr>hc_chunk := ?first, hc_bytesize := 1024 * m, hc_state := FREE_HUGECHUNK, hc_quire := q\<rparr>"
    let ?hq = "\<lparr>hq_first_ram_quantum = ?first, hq_page_count = m, hq_free_pages = int m,
       hq_youngest = MAX_AGEGROUPS, hq_quire_bytesize = 1024 * quire_kb m,
       hq_next = hh_first_quire st, hq_map = replicate m ?c\<rparr>"
    let ?st1 = "st\<lparr>hh_chunks := (hh_chunks st)(?c \<mapsto> ?d), hh_fresh := ?c + 1,
       hh_quires := (hh_quires st)(q \<mapsto> ?hq), hh_first_quire := q, hh_quire_count := hh_quire_count st + 1\<rparr>"
    have run: "allocate_hugechunk_quire obtain_quire_from_os st (1024 * k) = Some (Inr (?st1, ?c))"
      using Some by (simp add: allocate_hugechunk_quire_def pk loop MALLOC_hugechunk_def Let_def)
    obtain hd where hd: "hh_chunks st ?h = Some hd" using header_present [OF fl(1)] by auto
    have ch: "?c \<noteq> ?h" "?c \<notin> set fl" "hh_chunks st ?c = None"
      using hd fresh fl(2) by (auto simp: is_free_def core_eq_Some)
    have free: "is_free ((core (hh_chunks st))(?c \<mapsto> d')) x \<longleftrightarrow> is_free (core (hh_chunks st)) x" if "x \<noteq> ?c" for x d'
      using that by (simp add: is_free_def)
    have "tiles_ok ((core (hh_chunks st))(?c \<mapsto> ?d\<lparr>hc_prev := 0, hc_next := 0\<rparr>)) ((hh_quires st)(q \<mapsto> ?hq)) ?h
        (ext(?c := (0, m))) ?c 0"
      by (rule tiles_new_quire [OF T q(3)]) (use ch k mk m21 in simp_all)
    moreover have "freelist ((hh_chunks st)(?c \<mapsto> ?d)) ?h fl"
      using fl(1) by (rule freelist_same_links) (use ch in \<open>auto simp: nexts_def prevs_def\<close>)
    moreover have "set fl = {x. x \<noteq> ?h \<and> x \<noteq> ?c \<and> is_free ((core (hh_chunks st))(?c \<mapsto> ?d\<lparr>hc_prev := 0, hc_next := 0\<rparr>)) x}"
    proof (rule set_eqI)
      fix x show "x \<in> set fl \<longleftrightarrow> x \<in> {x. x \<noteq> ?h \<and> x \<noteq> ?c \<and>
          is_free ((core (hh_chunks st))(?c \<mapsto> ?d\<lparr>hc_prev := 0, hc_next := 0\<rparr>)) x}"
        using fl(2) ch(2) free [of x "?d\<lparr>hc_prev := 0, hc_next := 0\<rparr>"] by (cases "x = ?c") auto
    qed
    moreover have "placed ((hh_quires st)(q \<mapsto> ?hq)) (hh_books st)"
    proof -
      obtain t where t: "quire_kb m = 64 * t" using quire_kb_props(2) [of m] by (auto elim: dvdE)
      have "1024 * quire_kb m - 1024 * m = 1024 * record_kb m" "0 < record_kb m"
        using exact by (simp_all flip: exact, simp add: record_kb_def)
      then have "located q ?hq"
        using q(1,2) exact by (simp add: located_def t)
      moreover have "marked (hh_books st) q ?hq" by (simp add: marked_def)
      ultimately show ?thesis
        using P q(4) unfolding placed_def by (auto simp: apart_def split: if_splits)
    qed
    ultimately have "heap_mid ?st1 (ext(?c := (0, m))) fl ?c 0"
      using fresh by (simp add: heap_mid_def)
    then show ?thesis using run mk m21 by (intro disjI2) (fastforce simp: HUGECHUNK_IS_FREE_def)
  qed
qed

lemma alloc_new_split:
  assumes M: "heap_mid st1 ext fl c 0" and d: "hh_chunks st1 c = Some d" "HUGECHUNK_IS_FREE d" "c \<noteq> hh_freelist st1"
    and hq: "hh_quires st1 (hc_quire d) = Some hq" "hq_map hq = replicate m c"
    and e: "hc_bytesize d = 1024 * m" "snd (ext c) = m" "m < 2 ^ 21" "0 < k" "k < m"
    and nb: "pages_of_bytesize nb = k" and age: "age < MAX_AGEGROUPS"
    and st0: "hh_freelist st0 = hh_freelist st1" "\<not> live st0 (hh_fresh st1)"
      "\<And>x. live st0 x \<Longrightarrow> x \<noteq> c \<and> core (hh_chunks st1) x = core (hh_chunks st0) x"
  shows "\<exists>st' new. seq_result (split_hugechunk st1 c (1024 * k)) (\<lambda>(st, new).
      seq_result (insert_hugechunk_in_doubly_linked_list st (hh_freelist st) c) (\<lambda>st.
      seq_result (claim_new_chunk st new k) (\<lambda>st. finish_allocation st new age nb k))) = Inr (st', new) \<and>
    allocated st0 st' new age nb"
proof -
  let ?h = "hh_freelist st1" and ?K = "core (hh_chunks st1)" and ?new = "hh_fresh st1"
  let ?s = "split_store st1 c d (1024 * k)"
  have fl: "freelist (hh_chunks st1) ?h fl" "set fl = {x. x \<noteq> ?h \<and> x \<noteq> c \<and> is_free ?K x}"
    and T: "tiles_ok ?K (hh_quires st1) ?h ext c 0" and P: "placed (hh_quires st1) (hh_books st1)"
    and fresh: "\<forall>x \<ge> hh_fresh st1. hh_chunks st1 x = None"
    using M by (simp_all add: heap_mid_def)
  obtain hd where hd: "hh_chunks st1 ?h = Some hd" using header_present [OF fl(1)] by auto
  have none: "hh_chunks st1 ?new = None" using fresh by simp
  have "?new \<notin> set fl" using none fl(2) is_free_dom by auto
  then have nfl: "?new \<notin> set (?h # fl)" "?new \<noteq> c" using none hd d by auto
  have run: "split_hugechunk st1 c (1024 * k) = Inr (st1\<lparr>hh_chunks := ?s, hh_fresh := ?new + 1\<rparr>, ?new)"
    using none e d by (intro split_hugechunk_ok) simp_all
  have "freelist ?s ?h fl"
    using fl(1)
  proof (rule freelist_same_links)
    fix x assume x: "x \<in> set (?h # fl)"
    then have "x \<noteq> ?new" using nfl by metis
    then show "nexts ?s x = nexts (hh_chunks st1) x \<and> prevs ?s x = prevs (hh_chunks st1) x"
      using d by (simp add: nexts_def prevs_def split_store_def)
  qed
  moreover obtain dc where "?s c = Some dc" using nfl(2) by (simp add: split_store_def)
  moreover have "c \<notin> set (?h # fl)" using fl(2) d by auto
  ultimately obtain cs where cs:
    "insert_hugechunk_in_doubly_linked_list (st1\<lparr>hh_chunks := ?s, hh_fresh := ?new + 1\<rparr>) ?h c =
       Inr (st1\<lparr>hh_fresh := ?new + 1, hh_chunks := cs\<rparr>)" "core cs = core ?s" "freelist cs ?h (c # fl)"
    using insert_ok [of "st1\<lparr>hh_chunks := ?s, hh_fresh := ?new + 1\<rparr>" ?h fl c dc] by auto
  let ?st2 = "st1\<lparr>hh_fresh := ?new + 1, hh_chunks := cs\<rparr>"
  have cfree: "is_free ?K c" using d by (simp add: is_free_def core_def)
  have "set (c # fl) = {x. x \<noteq> ?h \<and> x \<noteq> ?new \<and> is_free (core cs) x}"
  proof (rule set_eqI)
    fix x show "x \<in> set (c # fl) \<longleftrightarrow> x \<in> {x. x \<noteq> ?h \<and> x \<noteq> ?new \<and> is_free (core cs) x}"
      using fl(2) nfl cfree split_is_free [OF d(1,2) none, of x] d(3) unfolding cs(2)
      by (cases "x = ?new"; cases "x = c") auto
  qed
  note f = this
  have "\<exists>st'. seq_result (claim_new_chunk ?st2 ?new k) (\<lambda>st. finish_allocation st ?new age nb k) =
      Inr (st', ?new) \<and> allocated st0 st' ?new age nb"
  proof (rule claim_and_finish [where st = st1 and ext = ext and dp = c and d = d and fl = "c # fl"])
    show "tiles_ok ?K (hh_quires st1) ?h ext c 0" by (rule T)
    show "placed (hh_quires st1) (hh_books st1)" by (rule P)
    show "\<forall>x \<ge> hh_fresh st1. hh_chunks st1 x = None" by (rule fresh)
    show "x \<noteq> c \<and> ?K x = core (hh_chunks st0) x" if "live st0 x" for x using st0(3) [OF that] .
    show "closed_right ?K hq' c" if "hh_quires st1 (hc_quire d) = Some hq'" for hq'
      using that hq by (simp add: closed_right_def)
  qed (use d e hd cs f st0(1,2) age nb in simp_all)
  with run cs(1) show ?thesis by simp blast
qed

section \<open>Allocation as a whole\<close>

lemma allocate_hugechunk_ok:
  assumes ok: "hugeheap_ok st" and ans: "quire_answers_ok st obtain_quire_from_os"
    and age: "age < MAX_AGEGROUPS" and nb: "0 < nb" "nb \<le> 2 ^ 30"
  shows "(\<exists>n. nb \<le> n \<and> n \<le> 2 * nb + 2 ^ 18 \<and> obtain_quire_from_os n = None) \<and> allocate_hugechunk obtain_quire_from_os st age nb =
      Some (Inl (Died ''Unable to allocate hugechunk quire.'')) \<or>
    (\<exists>st' c. allocate_hugechunk obtain_quire_from_os st age nb = Some (Inr (st', c)) \<and> allocated st st' c age nb)"
proof -
  obtain ext fl where M: "heap_mid st ext fl (hh_freelist st) 0" using ok by (auto simp: hugeheap_ok_def)
  let ?h = "hh_freelist st" and ?k = "pages_of_bytesize nb"
  have fl: "freelist (hh_chunks st) ?h fl" "set fl = {x. x \<noteq> ?h \<and> is_free (core (hh_chunks st)) x}"
    and T: "tiles_ok (core (hh_chunks st)) (hh_quires st) ?h ext ?h 0"
    using M by (simp_all add: heap_mid_def)
  have rnd: "round_up_to_power_of_two nb HUGECHUNK_RAM_QUANTUM_IN_BYTES = 1024 * ((nb + 1023) div 1024)"
    using nb round_up_eq [of 10 nb] by (simp add: quantum_defs)
  then have kd: "?k = (nb + 1023) div 1024"
    by (simp add: pages_of_bytesize_def LOG2_HUGECHUNK_RAM_QUANTUM_IN_BYTES_def drop_bit_eq_div)
  moreover have "(nb + 1023) div 1024 \<le> 1048576" using nb(2) by simp
  ultimately have k: "0 < ?k" "?k \<le> 2 ^ 20" using nb(1) by simp_all
  have total: "round_up_to_power_of_two nb HUGECHUNK_RAM_QUANTUM_IN_BYTES = 1024 * ?k"
    and np: "drop_bit LOG2_HUGECHUNK_RAM_QUANTUM_IN_BYTES (1024 * ?k) = ?k"
    using rnd kd by (simp_all add: LOG2_HUGECHUNK_RAM_QUANTUM_IN_BYTES_def drop_bit_eq_div)
  obtain dh where dh: "hh_chunks st ?h = Some dh" using header_present [OF fl(1)] by auto
  note run = allocate_hugechunk_def [of obtain_quire_from_os st age nb, unfolded Let_def total np dh option.case]
  from first_fit_ok [OF fl(1) dh, of "1024 * ?k"] consider
      (quire) "first_fit (hh_chunks st) ?h (hc_next dh) (1024 * ?k) = Some (Inr ?h)"
    | (fits) dp d where "first_fit (hh_chunks st) ?h (hc_next dh) (1024 * ?k) = Some (Inr dp)"
        "dp \<in> set fl" "hh_chunks st dp = Some d" "1024 * ?k \<le> hc_bytesize d" by blast
  then show ?thesis
  proof cases
    case (fits dp d)
    then have "dp \<noteq> ?h" using fl(2) by auto
    show ?thesis
    proof (cases "hc_bytesize d = 1024 * ?k")
      case True
      from alloc_exact [OF M fits(2,3) True refl age] show ?thesis
        using run fits \<open>dp \<noteq> ?h\<close> True by (auto simp: get_chunk_def)
    next
      case False
      with fits(4) have "1024 * ?k < hc_bytesize d" by simp
      from alloc_split [OF M fits(2,3) k(1) this refl age] show ?thesis
        using run fits \<open>dp \<noteq> ?h\<close> False by (auto simp: get_chunk_def)
    qed
  next
    case quire
    from new_quire_ok [OF M k ans] show ?thesis
    proof (elim disjE exE conjE)
      fix n assume n: "1024 * ?k \<le> n" "n \<le> 2048 * ?k + 200000" "obtain_quire_from_os n = None" "allocate_hugechunk_quire obtain_quire_from_os st (1024 * ?k) =
        Some (Inl (Died ''Unable to allocate hugechunk quire.''))"
      have "nb \<le> n" "n \<le> 2 * nb + 2 ^ 18" using n(1,2) unfolding kd by simp_all
      then show ?thesis using n(3,4) run quire by auto
    next
      fix st1 d m hq
      let ?c = "hh_fresh st"
      assume st1: "allocate_hugechunk_quire obtain_quire_from_os st (1024 * ?k) = Some (Inr (st1, ?c))"
        "heap_mid st1 (ext(?c := (0, m))) fl ?c 0" "hh_chunks st1 = (hh_chunks st)(?c \<mapsto> d)"
        "hh_freelist st1 = ?h" "HUGECHUNK_IS_FREE d" "hc_bytesize d = 1024 * m" "?k \<le> m" "m < 2 ^ 21"
        "hh_quires st1 (hc_quire d) = Some hq" "hq_map hq = replicate m ?c"
      have none: "hh_chunks st ?c = None" using M by (simp add: heap_mid_def)
      then have nl: "\<not> live st ?c" "?c \<noteq> ?h" using dh by (auto simp: live_def)
      have dc: "hh_chunks st1 ?c = Some d" "?c \<noteq> hh_freelist st1" using st1(3,4) nl by simp_all
      have frame: "core (hh_chunks st1) x = core (hh_chunks st) x" if "live st x" for x
        using that nl st1(3) by (cases "x = ?c") auto
      show ?thesis
      proof (cases "?k = m")
        case True
        have "\<exists>st'. finish_allocation st1 ?c age nb ?k = Inr (st', ?c) \<and> allocated st st' ?c age nb"
          by (rule finish_allocated [OF st1(2) dc age refl _ st1(4) nl(1) frame]) (simp add: True)
        then show ?thesis using run quire st1(1,6) dc True by (auto simp: get_chunk_def)
      next
        case False
        have "\<not> live st (hh_fresh st1)"
        proof -
          have "hh_chunks st1 (hh_fresh st1) = None" using st1(2) by (simp add: heap_mid_def)
          then show ?thesis using st1(3) by (auto simp: live_def split: if_splits)
        qed
        then have "\<exists>st' new. seq_result (split_hugechunk st1 ?c (1024 * ?k)) (\<lambda>(st, new).
            seq_result (insert_hugechunk_in_doubly_linked_list st (hh_freelist st) ?c) (\<lambda>st.
            seq_result (claim_new_chunk st new ?k) (\<lambda>st. finish_allocation st new age nb ?k))) = Inr (st', new) \<and>
            allocated st st' new age nb"
          using False st1 dc k(1) nl(1) frame
          by (intro alloc_new_split [OF st1(2) dc(1) st1(5) dc(2) st1(9,10,6) _ st1(8) k(1) _ refl age]) auto
        then show ?thesis using run quire st1(1,6) dc False by (auto simp: get_chunk_def)
      qed
    qed
  qed
qed

section \<open>Properties\<close>

lemma links_nil_initial: "freelist (hh_chunks (initial_hugeheap b)) 0 []"
  by (simp add: freelist_def initial_hugeheap_def nexts_def prevs_def)

lemma initial_hugeheap_ok: "hugeheap_ok (initial_hugeheap b)"
proof (rule hugeheap_okI)
  let ?st = "initial_hugeheap b"
  have K: "core (hh_chunks ?st) x = Some d \<Longrightarrow> x = 0" for x d
    by (auto simp: initial_hugeheap_def core_def split: if_splits)
  then have "tiles_ok (core (hh_chunks ?st)) (hh_quires ?st) 0 (\<lambda>_. (0, 0)) 0 0"
    by (auto simp: tiles_ok_def layout_def sized_tiles_def counted_def coalesced_def aged_def)
      (simp_all add: initial_hugeheap_def)
  then show "heap_mid ?st (\<lambda>_. (0, 0)) [] 0 0"
    using links_nil_initial [of b] K
    by (auto simp: heap_mid_def is_free_def placed_def) (simp_all add: initial_hugeheap_def)
qed (simp add: initial_hugeheap_def)

lemma initial_answers_ok: "quire_answers_ok (initial_hugeheap b) (\<lambda>n. if n \<le> 0x200000 then Some 0x100000 else None)"
  by (auto simp: quire_answers_ok_def initial_hugeheap_def split: if_splits)

lemma allocated_live: "allocated st st' c age nb \<Longrightarrow> hugeheap_ok st' \<and> live st' c \<and>
    (\<exists>d. hh_chunks st' c = Some d \<and> hc_bytesize d = nb \<and> hc_state d = JUNIOR_HUGECHUNK \<and> hc_age d = age)"
  by (auto simp: allocated_def live_def HUGECHUNK_IS_FREE_def JUNIOR_HUGECHUNK_def FREE_HUGECHUNK_def)

text \<open>
  C6. Allocating a hugechunk of up to a gigabyte from a well-formed heap always returns: either
  the operating system has refused memory and the runtime dies with its message, or the result
  is a well-formed heap and a descriptor that was not in use, of exactly the requested size and
  age, while every chunk in use keeps its address, size, age and pages.
\<close>

theorem allocate_hugechunk_correct:
  assumes "hugeheap_ok st" and "quire_answers_ok st obtain_quire_from_os"
    and "age < MAX_AGEGROUPS" and "0 < nb" and "nb \<le> 2 ^ 30"
  shows "(\<exists>n. nb \<le> n \<and> n \<le> 2 * nb + 2 ^ 18 \<and> obtain_quire_from_os n = None) \<and> allocate_hugechunk obtain_quire_from_os st age nb =
      Some (Inl (Died ''Unable to allocate hugechunk quire.'')) \<or>
    (\<exists>st' c. allocate_hugechunk obtain_quire_from_os st age nb = Some (Inr (st', c)) \<and>
      hugeheap_ok st' \<and> \<not> live st c \<and> live st' c \<and>
      (\<exists>d. hh_chunks st' c = Some d \<and> hc_bytesize d = nb \<and> hc_state d = JUNIOR_HUGECHUNK \<and> hc_age d = age) \<and>
      (\<forall>x. live st x \<longrightarrow> live st' x \<and> core (hh_chunks st') x = core (hh_chunks st) x))"
proof -
  from allocate_hugechunk_ok [OF assms] show ?thesis
  proof (elim disjE exE conjE)
    fix st' c
    assume run: "allocate_hugechunk obtain_quire_from_os st age nb = Some (Inr (st', c))" and al: "allocated st st' c age nb"
    have "\<not> live st c \<and> (\<forall>x. live st x \<longrightarrow> live st' x \<and> core (hh_chunks st') x = core (hh_chunks st) x)"
      using al unfolding allocated_def by (elim conjE) (intro conjI)
    with run allocated_live [OF al] show ?thesis by (intro disjI2 exI [of _ st'] exI [of _ c]) simp
  qed blast
qed

theorem allocate_hugechunk_correct_witness:
  "\<exists>st c d. allocate_hugechunk (\<lambda>n. if n \<le> 0x200000 then Some 0x100000 else None)
      (initial_hugeheap (\<lambda>_. UNMAPPED_BOOK_SIBID)) 1 5000 = Some (Inr (st, c)) \<and>
    hugeheap_ok st \<and> hh_chunks st c = Some d \<and> hc_bytesize d = 5000"
proof -
  have "(1 :: nat) < MAX_AGEGROUPS" by (simp add: MAX_AGEGROUPS_def)
  from allocate_hugechunk_correct [OF initial_hugeheap_ok [of "\<lambda>_. UNMAPPED_BOOK_SIBID"] initial_answers_ok this, of 5000]
  show ?thesis by fastforce
qed

end
