(* ===== verification/Hugechunk_Freeing.thy ===== *)
theory Hugechunk_Freeing
  imports Hugechunk_Allocation
begin

text \<open>
  \<open>free_hugechunk\<close> on a heap that satisfies the invariant, and the way from an address back
  to its chunk. Both coalescing steps are one lemma about absorbing a free neighbour.
\<close>

section \<open>Coalescing\<close>

lemma claim_pages_ok:
  assumes "hh_quires st q = Some hq" and "j \<le> length (hq_map hq)"
  shows "claim_pages st q i j c = Inr (st\<lparr>hh_quires := (hh_quires st)(q \<mapsto> hq\<lparr>hq_map := paint (hq_map hq) i j c\<rparr>)\<rparr>)"
  using assms set_pages_ok [OF assms(2), where i = i and c = c] by (simp add: claim_pages_def get_quire_def)

lemma absorb_mid:
  assumes M: "heap_mid st ext fl c m" and d: "hh_chunks st c = Some d" "c \<noteq> hh_freelist st" "\<not> HUGECHUNK_IS_FREE d"
    and dx: "hh_chunks st x = Some dx" "x \<noteq> hh_freelist st" "HUGECHUNK_IS_FREE dx" "hc_quire dx = hc_quire d"
    and hq: "hh_quires st (hc_quire d) = Some hq"
    and e: "ext c = (i, n)" "ext x = (ix, nx)" "ix + nx = i \<or> i + n = ix"
  obtains cs1 d1 fl1 where "remove_hugechunk_from_doubly_linked_list st x = Inr (st\<lparr>hh_chunks := cs1\<rparr>)"
    "core cs1 = core (hh_chunks st)" "cs1 c = Some d1" "d1\<lparr>hc_prev := 0, hc_next := 0\<rparr> = d\<lparr>hc_prev := 0, hc_next := 0\<rparr>"
    "\<And>d'. \<lbrakk>hc_chunk d' = (if ix < i then hc_chunk dx else hc_chunk d); hc_quire d' = hc_quire d; \<not> HUGECHUNK_IS_FREE d'\<rbrakk> \<Longrightarrow>
      heap_mid (st\<lparr>hh_chunks := cs1(c \<mapsto> d', x := None),
        hh_quires := (hh_quires st)(hc_quire d \<mapsto> hq\<lparr>hq_map := paint (hq_map hq) ix (ix + nx) c\<rparr>)\<rparr>)
        (ext(c := (min i ix, n + nx))) fl1 c m"
proof -
  let ?h = "hh_freelist st" and ?K = "core (hh_chunks st)"
  have fl: "freelist (hh_chunks st) ?h fl" "set fl = {x. x \<noteq> ?h \<and> x \<noteq> c \<and> is_free ?K x}"
    and T: "tiles_ok ?K (hh_quires st) ?h ext c m" and P: "placed (hh_quires st) (hh_books st)"
    and fresh: "\<forall>x \<ge> hh_fresh st. hh_chunks st x = None"
    using M by (simp_all add: heap_mid_def)
  have xc: "x \<noteq> c" using d dx by auto
  have Kx: "?K x = Some (dx\<lparr>hc_prev := 0, hc_next := 0\<rparr>)" and Kc: "?K c = Some (d\<lparr>hc_prev := 0, hc_next := 0\<rparr>)"
    using dx d by (simp_all add: core_def)
  have xfree: "is_free ?K x" using Kx dx(3) by (simp add: is_free_def)
  then have "x \<in> set fl" using fl(2) dx(2) xc by simp
  then obtain xs ys where sp: "fl = xs @ x # ys" by (meson split_list)
  obtain cs1 where cs1: "remove_hugechunk_from_doubly_linked_list st x = Inr (st\<lparr>hh_chunks := cs1\<rparr>)"
    "core cs1 = ?K" "freelist cs1 ?h (xs @ ys)"
    using remove_ok [of st xs x ys] fl(1) sp by auto
  have dist: "x \<notin> set (?h # xs @ ys)" using fl(1) sp by (simp add: freelist_def)
  have cfl: "c \<notin> set (?h # xs @ ys)" using fl(2) sp d(2) by auto
  have dom: "cs1 y = None \<longleftrightarrow> hh_chunks st y = None" for y using cs1(2) by (metis core_None)
  obtain d1 where d1: "cs1 c = Some d1" "d1\<lparr>hc_prev := 0, hc_next := 0\<rparr> = d\<lparr>hc_prev := 0, hc_next := 0\<rparr>"
    using Kc unfolding cs1(2) [symmetric] core_eq_Some by auto
  have set1: "set (xs @ ys) = {y. y \<noteq> ?h \<and> y \<noteq> c \<and> is_free ?K y \<and> y \<noteq> x}"
    using fl(2) sp dist by auto
  show thesis
  proof (rule that [OF cs1(1,2) d1])
    fix d' assume d': "hc_chunk d' = (if ix < i then hc_chunk dx else hc_chunk d)" "hc_quire d' = hc_quire d" "\<not> HUGECHUNK_IS_FREE d'"
    let ?hq = "hq\<lparr>hq_map := paint (hq_map hq) ix (ix + nx) c\<rparr>"
    let ?cs = "cs1(c \<mapsto> d', x := None)" and ?Q = "(hh_quires st)(hc_quire d \<mapsto> ?hq)"
    have "tiles_ok (?K(c \<mapsto> d'\<lparr>hc_prev := 0, hc_next := 0\<rparr>, x := None)) ((hh_quires st)(hc_quire (d\<lparr>hc_prev := 0, hc_next := 0\<rparr>) \<mapsto> ?hq))
        ?h (ext(c := (min i ix, n + nx))) c m"
      by (rule tiles_absorb [OF T Kc d(2) Kx dx(2) xc]) (use dx d d' hq e in simp_all)
    moreover have "freelist ?cs ?h (xs @ ys)"
      using cs1(3)
    proof (rule freelist_same_links)
      fix y assume "y \<in> set (?h # xs @ ys)"
      then have "y \<noteq> x" "y \<noteq> c" using dist cfl by metis+
      then show "nexts ?cs y = nexts cs1 y \<and> prevs ?cs y = prevs cs1 y" by (simp add: nexts_def prevs_def)
    qed
    moreover have "set (xs @ ys) = {y. y \<noteq> ?h \<and> y \<noteq> c \<and> is_free (?K(c \<mapsto> d'\<lparr>hc_prev := 0, hc_next := 0\<rparr>, x := None)) y}"
      unfolding set1 by (rule set_eqI) (auto simp: is_free_def)
    moreover have "placed ?Q (hh_books st)" by (rule placed_upd [OF P hq]) simp_all
    moreover have "\<forall>y \<ge> hh_fresh st. ?cs y = None" using fresh dom d(1) by (metis fun_upd_apply option.distinct(1))
    ultimately show "heap_mid (st\<lparr>hh_chunks := ?cs, hh_quires := ?Q\<rparr>) (ext(c := (min i ix, n + nx))) (xs @ ys) c m"
      using cs1(2) by (simp add: heap_mid_def)
  qed
qed

text \<open>What a coalescing step leaves: the chunk in hand now has the extent \<open>(i', n')\<close>.\<close>

definition in_hand :: "hugeheap \<Rightarrow> hugeheap \<Rightarrow> (nat \<Rightarrow> nat \<times> nat) \<Rightarrow> nat \<Rightarrow> nat \<Rightarrow> vunt \<Rightarrow> nat \<Rightarrow> nat \<Rightarrow> hugechunk_quire \<Rightarrow> bool" where
  "in_hand st0 st ext c m q i n hq \<longleftrightarrow> (\<exists>fl d. heap_mid st ext fl c m \<and> hh_chunks st c = Some d \<and>
     c \<noteq> hh_freelist st \<and> \<not> HUGECHUNK_IS_FREE d \<and> hc_quire d = q \<and> hh_quires st q = Some hq \<and> ext c = (i, n) \<and>
     hh_freelist st = hh_freelist st0 \<and> (\<forall>x. live st0 x \<longrightarrow> x \<noteq> c \<longrightarrow> core (hh_chunks st) x = core (hh_chunks st0) x))"

definition tile_at :: "hugeheap \<Rightarrow> (nat \<Rightarrow> nat \<times> nat) \<Rightarrow> vunt \<Rightarrow> hugechunk_quire \<Rightarrow> nat \<Rightarrow> nat \<Rightarrow> hugechunk \<Rightarrow> bool" where
  "tile_at st ext q hq c x dx \<longleftrightarrow> hh_chunks st x = Some dx \<and> x \<noteq> hh_freelist st \<and> hc_quire dx = q \<and>
     fst (ext x) + snd (ext x) \<le> length (hq_map hq) \<and>
     GET_HUGECHUNK_FOR_POINTER_PAGE hq (hc_chunk dx) = fst (ext x) \<and>
     (\<forall>k < length (hq_map hq). hq_map hq ! k = x \<longleftrightarrow> fst (ext x) \<le> k \<and> k < fst (ext x) + snd (ext x)) \<and>
     (HUGECHUNK_IS_FREE dx \<longrightarrow> x \<noteq> c \<longrightarrow> hc_bytesize dx = 1024 * snd (ext x)) \<and>
     length (hq_map hq) < 2 ^ 21 \<and> hq_page_count hq = length (hq_map hq)"

lemma neighbour:
  assumes M: "heap_mid st ext fl c m" and hq: "hh_quires st q = Some hq" and j: "j < length (hq_map hq)"
  shows "\<exists>dx. tile_at st ext q hq c (hq_map hq ! j) dx"
proof -
  let ?x = "hq_map hq ! j" and ?K = "core (hh_chunks st)" and ?h = "hh_freelist st"
  have T: "tiles_ok ?K (hh_quires st) ?h ext c m" using M by (simp add: heap_mid_def)
  note L = tiles_okD(1) [OF T]
  obtain k where k: "?K ?x = Some k" "hc_quire k = q" "?x \<noteq> ?h" using owned_entry [OF L hq j] by auto
  then obtain dx where dx: "hh_chunks st ?x = Some dx" "k = dx\<lparr>hc_prev := 0, hc_next := 0\<rparr>"
    by (auto simp: core_eq_Some)
  have kx: "hc_quire dx = q" "hc_chunk k = hc_chunk dx" using k dx by simp_all
  have e: "fst (ext ?x) + snd (ext ?x) \<le> length (hq_map hq)"
    "hc_chunk k = hq_first_ram_quantum hq + word_of_nat (1024 * fst (ext ?x))"
    "\<And>k. k < length (hq_map hq) \<Longrightarrow> hq_map hq ! k = ?x \<longleftrightarrow> fst (ext ?x) \<le> k \<and> k < fst (ext ?x) + snd (ext ?x)"
    "length (hq_map hq) < 2 ^ 21" "hq_page_count hq = length (hq_map hq)"
    using extent [OF L k(1,3)] k(2) hq by auto
  have "fst (ext ?x) < 2 ^ 21" using e(1,4) by linarith
  with e(2) have page: "GET_HUGECHUNK_FOR_POINTER_PAGE hq (hc_chunk dx) = fst (ext ?x)"
    unfolding kx(2) by (rule page_of_offset)
  have "hc_bytesize dx = 1024 * snd (ext ?x)" if "HUGECHUNK_IS_FREE dx" "?x \<noteq> c"
    using tile_size(2) [OF T k(1,3) that(2)] that(1) dx(2) by simp
  with dx(1) k(3) kx(1) page e show ?thesis by (auto simp: tile_at_def)
qed

lemma coalesce_left_ok:
  assumes H: "in_hand st0 st ext c m q i n hq"
  shows "\<exists>st' ext' i' n' hq'. coalesce_left st c q i (1024 * n) = Inr (st', 1024 * n') \<and>
    in_hand st0 st' ext' c m q i' n' hq' \<and> i' + n' = i + n \<and> closed_left (core (hh_chunks st')) hq' c"
proof -
  obtain fl d where M: "heap_mid st ext fl c m" and d: "hh_chunks st c = Some d" "c \<noteq> hh_freelist st" "\<not> HUGECHUNK_IS_FREE d"
    and q: "hc_quire d = q" and hq: "hh_quires st q = Some hq" and e: "ext c = (i, n)"
    and f: "hh_freelist st = hh_freelist st0" "\<And>x. live st0 x \<Longrightarrow> x \<noteq> c \<Longrightarrow> core (hh_chunks st) x = core (hh_chunks st0) x"
    using H by (auto simp: in_hand_def)
  have T: "tiles_ok (core (hh_chunks st)) (hh_quires st) (hh_freelist st) ext c m" using M by (simp add: heap_mid_def)
  have Kc: "core (hh_chunks st) c = Some (d\<lparr>hc_prev := 0, hc_next := 0\<rparr>)" using d by (simp add: core_def)
  have tc: "0 < n" "i + n \<le> length (hq_map hq)"
    "\<And>j. j < length (hq_map hq) \<Longrightarrow> hq_map hq ! j = c \<longleftrightarrow> i \<le> j \<and> j < i + n"
    using extent [OF tiles_okD(1) [OF T] Kc d(2)] q hq e by auto
  show ?thesis
  proof (cases "0 < i \<and> is_free (core (hh_chunks st)) (hq_map hq ! (i - 1))")
    case False
    have "closed_left (core (hh_chunks st)) hq c"
      unfolding closed_left_def
    proof (intro allI impI)
      fix j assume "Suc j < length (hq_map hq)" "hq_map hq ! Suc j = c" "hq_map hq ! j \<noteq> c"
      then have "i = Suc j" using tc(3) [of j] tc(3) [of "Suc j"] by auto
      with False show "\<not> is_free (core (hh_chunks st)) (hq_map hq ! j)" by simp
    qed
    moreover have "coalesce_left st c q i (1024 * n) = Inr (st, 1024 * n)"
    proof (cases "0 < i")
      case True
      then have "i - 1 < length (hq_map hq)" using tc by linarith
      then obtain dx where "hh_chunks st (hq_map hq ! (i - 1)) = Some dx"
        using neighbour [OF M hq] unfolding tile_at_def by blast
      with False True show ?thesis
        using hq \<open>i - 1 < length (hq_map hq)\<close>
        by (auto simp: coalesce_left_def get_quire_def get_chunk_def is_free_def core_def)
    qed (use hq in \<open>simp add: coalesce_left_def get_quire_def\<close>)
    ultimately show ?thesis using H by blast
  next
    case True
    define x where "x = hq_map hq ! (i - 1)"
    have j: "i - 1 < length (hq_map hq)" using tc True by linarith
    obtain ix nx where exx: "ext x = (ix, nx)" by (cases "ext x")
    obtain dx where "tile_at st ext q hq c x dx" using neighbour [OF M hq j] unfolding x_def by blast
    then have dx: "hh_chunks st x = Some dx" "x \<noteq> hh_freelist st" "hc_quire dx = q"
      and ex: "ix + nx \<le> length (hq_map hq)" "GET_HUGECHUNK_FOR_POINTER_PAGE hq (hc_chunk dx) = ix"
        "\<And>k. k < length (hq_map hq) \<Longrightarrow> hq_map hq ! k = x \<longleftrightarrow> ix \<le> k \<and> k < ix + nx"
        "HUGECHUNK_IS_FREE dx \<Longrightarrow> x \<noteq> c \<Longrightarrow> hc_bytesize dx = 1024 * nx" "length (hq_map hq) < 2 ^ 21"
      by (auto simp: tile_at_def exx)
    have free: "HUGECHUNK_IS_FREE dx" using True dx(1) by (auto simp: is_free_def core_def x_def)
    have xc: "x \<noteq> c" using free d dx(1) by auto
    have "ix \<le> i - 1" "i - 1 < ix + nx" using ex(3) [OF j] by (simp_all add: x_def)
    moreover have "\<not> i < ix + nx" using ex(3) [of i] tc(3) [of i] tc(1,2) xc calculation by auto
    ultimately have adj: "ix + nx = i" and "ix < i" using True by linarith+
    obtain cs1 d1 fl1 where cs1: "remove_hugechunk_from_doubly_linked_list st x = Inr (st\<lparr>hh_chunks := cs1\<rparr>)"
      "core cs1 = core (hh_chunks st)" "cs1 c = Some d1" "d1\<lparr>hc_prev := 0, hc_next := 0\<rparr> = d\<lparr>hc_prev := 0, hc_next := 0\<rparr>"
      and mid: "\<And>d'. \<lbrakk>hc_chunk d' = (if ix < i then hc_chunk dx else hc_chunk d); hc_quire d' = hc_quire d; \<not> HUGECHUNK_IS_FREE d'\<rbrakk> \<Longrightarrow>
        heap_mid (st\<lparr>hh_chunks := cs1(c \<mapsto> d', x := None),
          hh_quires := (hh_quires st)(hc_quire d \<mapsto> hq\<lparr>hq_map := paint (hq_map hq) ix (ix + nx) c\<rparr>)\<rparr>)
          (ext(c := (min i ix, n + nx))) fl1 c m"
      using absorb_mid [OF M d dx(1,2) free _ _ e exx disjI1 [OF adj]] dx(3) q hq by metis
    have same: "hc_quire d1 = q" "\<not> HUGECHUNK_IS_FREE d1"
      using cs1(4) q d(3) by (metis hugechunk.select_convs hugechunk.surjective hugechunk.update_convs IS_FREE_links)+
    let ?d' = "d1\<lparr>hc_chunk := hc_chunk dx\<rparr>"
    let ?hq = "hq\<lparr>hq_map := paint (hq_map hq) ix i c\<rparr>"
    let ?st = "st\<lparr>hh_chunks := cs1(c \<mapsto> ?d', x := None), hh_quires := (hh_quires st)(q \<mapsto> ?hq)\<rparr>"
    have mid': "heap_mid ?st (ext(c := (ix, n + nx))) fl1 c m"
      using mid [of ?d'] same q adj \<open>ix < i\<close> by (simp add: HUGECHUNK_IS_FREE_def min_def)
    have sum: "(1024 * n + hc_bytesize dx) mod 2 ^ 32 = 1024 * (n + nx)"
      using ex(4) [OF free xc] tc(2) adj ex(5) by simp
    have x0: "hq_map hq ! (i - Suc 0) = x" by (simp add: x_def)
    have run: "coalesce_left st c q i (1024 * n) = Inr (?st, 1024 * (n + nx))"
      using hq True j dx(1) free cs1(1,3) xc tc claim_pages_ok [of "st\<lparr>hh_chunks := cs1\<rparr>" q hq i ix c] sum ex(2)
      by (simp add: coalesce_left_def get_quire_def get_chunk_def update_chunk_def FREE_chunk_def Let_def x0)
    have "closed_left (core (hh_chunks ?st)) ?hq c"
      using closed_after_absorb(1) [OF T Kc d(2), of x "dx\<lparr>hc_prev := 0, hc_next := 0\<rparr>" hq i n ix nx ?hq]
        dx free xc q hq e exx adj cs1(2) by (simp add: core_def [of _ x] core_eq_Some)
    moreover have "in_hand st0 ?st (ext(c := (ix, n + nx))) c m q ix (n + nx) ?hq"
    proof -
      have "core (cs1(c \<mapsto> ?d', x := None)) y = core (hh_chunks st0) y" if "live st0 y" "y \<noteq> c" for y
      proof -
        have "y \<noteq> x"
        proof
          assume "y = x"
          have "core (hh_chunks st) x = Some (dx\<lparr>hc_prev := 0, hc_next := 0\<rparr>)"
            using dx(1) by (simp add: core_def)
          then have "core (hh_chunks st0) x = Some (dx\<lparr>hc_prev := 0, hc_next := 0\<rparr>)"
            using f(2) [OF that] \<open>y = x\<close> by simp
          with that(1) \<open>y = x\<close> free show False by (auto simp: live_core)
        qed
        then show ?thesis using that f(2) cs1(2) by simp
      qed
      then show ?thesis using mid' d(2) same f(1) xc by (auto simp: in_hand_def HUGECHUNK_IS_FREE_def)
    qed
    moreover have "ix + (n + nx) = i + n" using adj by simp
    ultimately show ?thesis using run by blast
  qed
qed

lemma coalesce_right_ok:
  assumes H: "in_hand st0 st ext c m q i n hq" and cl: "closed_left (core (hh_chunks st)) hq c"
  shows "\<exists>st' ext' n' hq'. coalesce_right st c q (i + n) (1024 * n) = Inr (st', 1024 * n') \<and>
    in_hand st0 st' ext' c m q i n' hq' \<and> closed_left (core (hh_chunks st')) hq' c \<and>
    closed_right (core (hh_chunks st')) hq' c"
proof -
  obtain fl d where M: "heap_mid st ext fl c m" and d: "hh_chunks st c = Some d" "c \<noteq> hh_freelist st" "\<not> HUGECHUNK_IS_FREE d"
    and q: "hc_quire d = q" and hq: "hh_quires st q = Some hq" and e: "ext c = (i, n)"
    and f: "hh_freelist st = hh_freelist st0" "\<And>x. live st0 x \<Longrightarrow> x \<noteq> c \<Longrightarrow> core (hh_chunks st) x = core (hh_chunks st0) x"
    using H by (auto simp: in_hand_def)
  have T: "tiles_ok (core (hh_chunks st)) (hh_quires st) (hh_freelist st) ext c m" using M by (simp add: heap_mid_def)
  have Kc: "core (hh_chunks st) c = Some (d\<lparr>hc_prev := 0, hc_next := 0\<rparr>)" using d by (simp add: core_def)
  have tc: "0 < n" "i + n \<le> length (hq_map hq)" "hq_page_count hq = length (hq_map hq)"
    "\<And>j. j < length (hq_map hq) \<Longrightarrow> hq_map hq ! j = c \<longleftrightarrow> i \<le> j \<and> j < i + n"
    using extent [OF tiles_okD(1) [OF T] Kc d(2)] q hq e by auto
  show ?thesis
  proof (cases "i + n < length (hq_map hq) \<and> is_free (core (hh_chunks st)) (hq_map hq ! (i + n))")
    case False
    have "closed_right (core (hh_chunks st)) hq c"
      unfolding closed_right_def
    proof (intro allI impI)
      fix j assume j: "Suc j < length (hq_map hq)" "hq_map hq ! j = c" "hq_map hq ! Suc j \<noteq> c"
      then have "Suc j = i + n" using tc(4) [of j] tc(4) [of "Suc j"] by auto
      with False j show "\<not> is_free (core (hh_chunks st)) (hq_map hq ! Suc j)" by simp
    qed
    moreover have "coalesce_right st c q (i + n) (1024 * n) = Inr (st, 1024 * n)"
    proof (cases "i + n < length (hq_map hq)")
      case True
      then obtain dx where "hh_chunks st (hq_map hq ! (i + n)) = Some dx"
        using neighbour [OF M hq] unfolding tile_at_def by blast
      with False True show ?thesis
        using hq tc(3) by (auto simp: coalesce_right_def get_quire_def get_chunk_def is_free_def core_def)
    qed (use hq tc in \<open>simp add: coalesce_right_def get_quire_def\<close>)
    ultimately show ?thesis using H cl by blast
  next
    case True
    define x where "x = hq_map hq ! (i + n)"
    have j: "i + n < length (hq_map hq)" using True by simp
    obtain ix nx where exx: "ext x = (ix, nx)" by (cases "ext x")
    obtain dx where "tile_at st ext q hq c x dx" using neighbour [OF M hq j] unfolding x_def by blast
    then have dx: "hh_chunks st x = Some dx" "x \<noteq> hh_freelist st" "hc_quire dx = q"
      and ex: "ix + nx \<le> length (hq_map hq)"
        "\<And>k. k < length (hq_map hq) \<Longrightarrow> hq_map hq ! k = x \<longleftrightarrow> ix \<le> k \<and> k < ix + nx"
        "HUGECHUNK_IS_FREE dx \<Longrightarrow> x \<noteq> c \<Longrightarrow> hc_bytesize dx = 1024 * nx" "length (hq_map hq) < 2 ^ 21"
      by (auto simp: tile_at_def exx)
    have free: "HUGECHUNK_IS_FREE dx" using True dx(1) by (auto simp: is_free_def core_def x_def)
    have xc: "x \<noteq> c" using free d dx(1) by auto
    have "ix \<le> i + n" "i + n < ix + nx" using ex(2) [OF j] by (simp_all add: x_def)
    moreover have before: "i \<le> i + n - 1" "i + n - 1 < i + n" "i + n - 1 < length (hq_map hq)"
      using tc(1,2) by linarith+
    then have "hq_map hq ! (i + n - 1) = c" using tc(4) by blast
    then have "\<not> (ix \<le> i + n - 1 \<and> i + n - 1 < ix + nx)" using ex(2) [OF before(3)] xc by auto
    then have "\<not> ix < i + n" using calculation before by linarith
    ultimately have adj: "i + n = ix" and "\<not> ix < i" by linarith+
    obtain cs1 d1 fl1 where cs1: "remove_hugechunk_from_doubly_linked_list st x = Inr (st\<lparr>hh_chunks := cs1\<rparr>)"
      "core cs1 = core (hh_chunks st)" "cs1 c = Some d1" "d1\<lparr>hc_prev := 0, hc_next := 0\<rparr> = d\<lparr>hc_prev := 0, hc_next := 0\<rparr>"
      and mid: "\<And>d'. \<lbrakk>hc_chunk d' = (if ix < i then hc_chunk dx else hc_chunk d); hc_quire d' = hc_quire d; \<not> HUGECHUNK_IS_FREE d'\<rbrakk> \<Longrightarrow>
        heap_mid (st\<lparr>hh_chunks := cs1(c \<mapsto> d', x := None),
          hh_quires := (hh_quires st)(hc_quire d \<mapsto> hq\<lparr>hq_map := paint (hq_map hq) ix (ix + nx) c\<rparr>)\<rparr>)
          (ext(c := (min i ix, n + nx))) fl1 c m"
      using absorb_mid [OF M d dx(1,2) free _ _ e exx disjI2 [OF adj]] dx(3) q hq by metis
    have same: "hc_quire d1 = q" "hc_chunk d1 = hc_chunk d" "\<not> HUGECHUNK_IS_FREE d1"
      using cs1(4) q d(3) by (metis hugechunk.select_convs hugechunk.surjective hugechunk.update_convs IS_FREE_links)+
    let ?hq = "hq\<lparr>hq_map := paint (hq_map hq) ix (ix + nx) c\<rparr>"
    let ?st = "st\<lparr>hh_chunks := cs1(x := None), hh_quires := (hh_quires st)(q \<mapsto> ?hq)\<rparr>"
    have cs1c: "cs1(c \<mapsto> d1, x := None) = cs1(x := None)" using cs1(3) by (auto simp: fun_eq_iff)
    then have mid': "heap_mid ?st (ext(c := (i, n + nx))) fl1 c m"
      using mid [of d1] same q adj \<open>\<not> ix < i\<close> by (simp add: min_def)
    have sum: "(1024 * n + hc_bytesize dx) mod 2 ^ 32 = 1024 * (n + nx)"
      and pg: "drop_bit LOG2_HUGECHUNK_RAM_QUANTUM_IN_BYTES (hc_bytesize dx) = nx"
      using ex(3) [OF free xc] ex(1,4) adj
      by (simp_all add: LOG2_HUGECHUNK_RAM_QUANTUM_IN_BYTES_def drop_bit_eq_div)
    have x0: "hq_map hq ! ix = x" using adj by (simp add: x_def)
    have run: "coalesce_right st c q (i + n) (1024 * n) = Inr (?st, 1024 * (n + nx))"
      unfolding adj
      using hq j dx(1) free cs1(1) tc(3) claim_pages_ok [of "st\<lparr>hh_chunks := cs1\<rparr>" q hq "ix + nx" ix c] sum pg ex(1) adj
      by (simp add: coalesce_right_def get_quire_def get_chunk_def FREE_chunk_def Let_def x0)
    note closed = closed_after_absorb [OF T Kc d(2), of x "dx\<lparr>hc_prev := 0, hc_next := 0\<rparr>" hq i n ix nx ?hq
        "d1\<lparr>hc_prev := 0, hc_next := 0\<rparr>"]
    have core_st: "core (hh_chunks ?st) = (core (hh_chunks st))(c \<mapsto> d1\<lparr>hc_prev := 0, hc_next := 0\<rparr>, x := None)"
      unfolding cs1(2) [symmetric] using cs1(3) xc by (simp add: fun_eq_iff core_def)
    have "closed_left (core (hh_chunks ?st)) ?hq c" "closed_right (core (hh_chunks ?st)) ?hq c"
      unfolding core_st
      using closed(2,3) dx free xc q hq e exx adj cl by (simp_all add: core_def [of _ x])
    moreover have "in_hand st0 ?st (ext(c := (i, n + nx))) c m q i (n + nx) ?hq"
    proof -
      have "core (cs1(x := None)) y = core (hh_chunks st0) y" if "live st0 y" "y \<noteq> c" for y
      proof -
        have "y \<noteq> x"
        proof
          assume "y = x"
          have "core (hh_chunks st) x = Some (dx\<lparr>hc_prev := 0, hc_next := 0\<rparr>)"
            using dx(1) by (simp add: core_def)
          then have "core (hh_chunks st0) x = Some (dx\<lparr>hc_prev := 0, hc_next := 0\<rparr>)"
            using f(2) [OF that] \<open>y = x\<close> by simp
          with that(1) \<open>y = x\<close> free show False by (auto simp: live_core)
        qed
        then show ?thesis using that f(2) cs1(2) by simp
      qed
      then show ?thesis using mid' d(2) same f(1) xc cs1(3) by (auto simp: in_hand_def)
    qed
    ultimately show ?thesis using run by blast
  qed
qed

section \<open>Freeing\<close>

lemma free_hugechunk_ok:
  assumes ok: "hugeheap_ok st" and live: "live st c"
  shows "\<exists>st'. free_hugechunk st c = Inr st' \<and> hugeheap_ok st' \<and> \<not> live st' c \<and>
    (\<forall>x. live st x \<longrightarrow> x \<noteq> c \<longrightarrow> live st' x \<and> core (hh_chunks st') x = core (hh_chunks st) x)"
proof -
  let ?h = "hh_freelist st" and ?K = "core (hh_chunks st)"
  obtain ext fl where M: "heap_mid st ext fl ?h 0" using ok by (auto simp: hugeheap_ok_def)
  obtain d where d: "hh_chunks st c = Some d" "c \<noteq> ?h" "\<not> HUGECHUNK_IS_FREE d" using live by (auto simp: live_def)
  have T: "tiles_ok ?K (hh_quires st) ?h ext ?h 0" using M by (simp add: heap_mid_def)
  have Kc: "?K c = Some (d\<lparr>hc_prev := 0, hc_next := 0\<rparr>)" using d by (simp add: core_def)
  obtain i n where e: "ext c = (i, n)" by (cases "ext c")
  obtain hq where hq: "hh_quires st (hc_quire d) = Some hq" "i + n \<le> length (hq_map hq)" "0 < n" "length (hq_map hq) < 2 ^ 21"
      "hc_chunk d = hq_first_ram_quantum hq + word_of_nat (1024 * i)"
    using extent [OF tiles_okD(1) [OF T] Kc d(2)] e by auto
  have page: "GET_HUGECHUNK_FOR_POINTER_PAGE hq (hc_chunk d) = i"
    using hq by (intro page_of_offset) simp_all
  have np: "pages_of_bytesize (hc_bytesize d) = n" using tile_size(1) [OF T Kc d(2) d(2)] e by simp
  have round: "round_up_to_power_of_two (hc_bytesize d) HUGECHUNK_RAM_QUANTUM_IN_BYTES = 1024 * n"
  proof -
    let ?r = "round_up_to_power_of_two (hc_bytesize d) (2 ^ 10)"
    have "?r mod 1024 = 0"
      unfolding round_up_to_power_of_two_def
      by (subst word_of_nat_power_minus_one) (simp_all only: and_not_mask_nat, simp)
    moreover have "?r div 1024 = n"
      using np by (simp add: pages_of_bytesize_def quantum_defs drop_bit_eq_div)
    ultimately have "?r = 1024 * n" using div_mult_mod_eq [of ?r 1024] by linarith
    then show ?thesis by (simp only: quantum_defs)
  qed
  have "\<not> is_free ?K c" using Kc d(3) by (simp add: is_free_def)
  then have "set fl = {x. x \<noteq> ?h \<and> x \<noteq> c \<and> is_free ?K x}"
    using M unfolding heap_mid_def by blast
  then have "heap_mid st ext fl c n"
    using M tiles_take_live [OF T Kc d(2)] d(3) e by (simp add: heap_mid_def)
  then have "in_hand st st ext c n (hc_quire d) i n hq"
    using d hq(1) e by (auto simp: in_hand_def)
  from coalesce_left_ok [OF this] obtain st1 ext1 i1 n1 hq1 where left:
    "coalesce_left st c (hc_quire d) i (1024 * n) = Inr (st1, 1024 * n1)"
    "in_hand st st1 ext1 c n (hc_quire d) i1 n1 hq1" "i1 + n1 = i + n" "closed_left (core (hh_chunks st1)) hq1 c" by blast
  from coalesce_right_ok [OF left(2,4)] obtain st2 ext2 n2 hq2 where right:
    "coalesce_right st1 c (hc_quire d) (i + n) (1024 * n1) = Inr (st2, 1024 * n2)"
    "in_hand st st2 ext2 c n (hc_quire d) i1 n2 hq2"
    "closed_left (core (hh_chunks st2)) hq2 c" "closed_right (core (hh_chunks st2)) hq2 c"
    unfolding left(3) by blast
  from right(2) obtain fl2 d2 where M2: "heap_mid st2 ext2 fl2 c n"
    and d2: "hh_chunks st2 c = Some d2" "c \<noteq> hh_freelist st2" "hc_quire d2 = hc_quire d"
    and hq2: "hh_quires st2 (hc_quire d) = Some hq2" and e2: "ext2 c = (i1, n2)" and h2: "hh_freelist st2 = ?h"
    and frame: "\<And>x. live st x \<Longrightarrow> x \<noteq> c \<Longrightarrow> core (hh_chunks st2) x = ?K x"
    by (auto simp: in_hand_def)
  have T2: "tiles_ok (core (hh_chunks st2)) (hh_quires st2) ?h ext2 c n" and P2: "placed (hh_quires st2) (hh_books st2)"
    and fl2: "freelist (hh_chunks st2) ?h fl2" "set fl2 = {x. x \<noteq> ?h \<and> x \<noteq> c \<and> is_free (core (hh_chunks st2)) x}"
    and fresh2: "\<forall>x \<ge> hh_fresh st2. hh_chunks st2 x = None"
    using M2 h2 by (simp_all add: heap_mid_def)
  have Kc2: "core (hh_chunks st2) c = Some (d2\<lparr>hc_prev := 0, hc_next := 0\<rparr>)" using d2 by (simp add: core_def)
  let ?d = "d2\<lparr>hc_bytesize := 1024 * n2, hc_state := FREE_HUGECHUNK\<rparr>"
  let ?hq = "hq2\<lparr>hq_free_pages := hq_free_pages hq2 + int n\<rparr>"
  let ?st = "st2\<lparr>hh_chunks := (hh_chunks st2)(c \<mapsto> ?d), hh_quires := (hh_quires st2)(hc_quire d \<mapsto> ?hq)\<rparr>"
  have free: "HUGECHUNK_IS_FREE ?d" by (simp add: HUGECHUNK_IS_FREE_def)
  have "tiles_ok ((core (hh_chunks st2))(c \<mapsto> ?d\<lparr>hc_prev := 0, hc_next := 0\<rparr>))
      ((hh_quires st2)(hc_quire (d2\<lparr>hc_prev := 0, hc_next := 0\<rparr>) \<mapsto> ?hq)) ?h ext2 ?h 0"
    by (rule tiles_close_free [OF T2 Kc2 d2(2) [unfolded h2]])
      (use hq2 d2 e2 right(3,4) free in \<open>simp_all\<close>)
  then have T3: "tiles_ok (core (hh_chunks ?st)) (hh_quires ?st) ?h ext2 ?h 0" using d2(3) by simp
  have cfl: "c \<notin> set (?h # fl2)" using fl2(2) d2(2) h2 by auto
  have "freelist (hh_chunks ?st) ?h fl2"
    using fl2(1) by (rule freelist_same_links) (use cfl in \<open>auto simp: nexts_def prevs_def\<close>)
  then obtain cs where cs: "insert_hugechunk_in_doubly_linked_list ?st ?h c = Inr (?st\<lparr>hh_chunks := cs\<rparr>)"
      "core cs = core (hh_chunks ?st)" "freelist cs ?h (c # fl2)"
    using insert_ok [of ?st ?h fl2 c ?d] cfl by auto
  let ?st' = "?st\<lparr>hh_chunks := cs\<rparr>"
  have run: "free_hugechunk st c = Inr ?st'"
  proof -
    have "drop_bit LOG2_HUGECHUNK_RAM_QUANTUM_IN_BYTES (1024 * n) = n"
      by (simp add: LOG2_HUGECHUNK_RAM_QUANTUM_IN_BYTES_def drop_bit_eq_div)
    then show ?thesis
      using d(1) hq(1) page round left(1) right(1) d2(1) hq2 cs(1) h2
      by (simp add: free_hugechunk_def get_chunk_def get_quire_def Let_def update_chunk_def update_quire_def)
  qed
  have "set (c # fl2) = {x. x \<noteq> ?h \<and> x \<noteq> ?h \<and> is_free (core cs) x}"
  proof (rule set_eqI)
    fix x show "x \<in> set (c # fl2) \<longleftrightarrow> x \<in> {x. x \<noteq> ?h \<and> x \<noteq> ?h \<and> is_free (core cs) x}"
      using fl2(2) cfl free unfolding cs(2) by (cases "x = c") (auto simp: is_free_def)
  qed
  moreover have "cs x = None" if "x \<ge> hh_fresh st2" for x
  proof -
    have "hh_chunks ?st x = None" using fresh2 d2(1) that by auto
    then show ?thesis using cs(2) by (metis core_None)
  qed
  moreover have "placed (hh_quires ?st) (hh_books st2)"
    using placed_upd [OF P2 hq2, of ?hq] by simp
  ultimately have "heap_mid ?st' ext2 (c # fl2) ?h 0"
    using T3 cs(2,3) h2 by (simp add: heap_mid_def)
  then have "hugeheap_ok ?st'" by (rule hugeheap_okI) (simp add: h2)
  moreover have "\<not> live ?st' c" using cs(2) free by (simp add: live_core)
  moreover have "live ?st' x \<and> core cs x = ?K x" if "live st x" "x \<noteq> c" for x
  proof -
    have "core cs x = ?K x" using frame [OF that] that(2) cs(2) by simp
    then show ?thesis using that(1) h2 by (simp add: live_core)
  qed
  ultimately show ?thesis using run by (intro exI [of _ ?st']) auto
qed

text \<open>
  C7. Freeing a chunk in use always succeeds, without touching a freed descriptor or leaving
  the page vector, and gives back a well-formed heap: the chunk is no longer in use, free
  neighbours are coalesced, the free-page counts are right, and all other chunks in use are
  as they were.
\<close>

theorem free_hugechunk_correct:
  assumes "hugeheap_ok st" and "live st c"
  shows "\<exists>st'. free_hugechunk st c = Inr st' \<and> hugeheap_ok st' \<and> \<not> live st' c \<and>
    (\<forall>q hq j. hh_quires st' q = Some hq \<longrightarrow> Suc j < length (hq_map hq) \<longrightarrow>
       is_free (core (hh_chunks st')) (hq_map hq ! j) \<longrightarrow> is_free (core (hh_chunks st')) (hq_map hq ! Suc j) \<longrightarrow>
       hq_map hq ! j = hq_map hq ! Suc j) \<and>
    (\<forall>q hq. hh_quires st' q = Some hq \<longrightarrow> hq_free_pages hq =
       int (card {j. j < length (hq_map hq) \<and> is_free (core (hh_chunks st')) (hq_map hq ! j)})) \<and>
    (\<forall>x. live st x \<longrightarrow> x \<noteq> c \<longrightarrow> live st' x \<and> core (hh_chunks st') x = core (hh_chunks st) x)"
proof -
  obtain st' where st': "free_hugechunk st c = Inr st'" "hugeheap_ok st'" "\<not> live st' c"
    "\<forall>x. live st x \<longrightarrow> x \<noteq> c \<longrightarrow> live st' x \<and> core (hh_chunks st') x = core (hh_chunks st) x"
    using free_hugechunk_ok [OF assms] by blast
  obtain ext fl where T: "tiles_ok (core (hh_chunks st')) (hh_quires st') (hh_freelist st') ext (hh_freelist st') 0"
    using st'(2) by (auto simp: hugeheap_ok_def heap_mid_def)
  have entry: "hq_map hq ! j \<noteq> hh_freelist st'" if "hh_quires st' q = Some hq" "j < length (hq_map hq)" for q hq j
    using owned_entry [OF tiles_okD(1) [OF T] that] by simp
  have "hq_map hq ! j = hq_map hq ! Suc j"
    if "hh_quires st' q = Some hq" "Suc j < length (hq_map hq)" "is_free (core (hh_chunks st')) (hq_map hq ! j)"
      "is_free (core (hh_chunks st')) (hq_map hq ! Suc j)" for q hq j
    using tiles_okD(4) [OF T] entry [OF that(1), of j] entry [OF that(1,2)] that unfolding coalesced_def by simp
  moreover have "hq_free_pages hq =
       int (card {j. j < length (hq_map hq) \<and> is_free (core (hh_chunks st')) (hq_map hq ! j)})"
    if "hh_quires st' q = Some hq" for q hq
  proof -
    have "{j. j < length (hq_map hq) \<and> is_free (core (hh_chunks st')) (hq_map hq ! j)} =
        free_pages_of (core (hh_chunks st')) (hh_freelist st') hq"
      using entry [OF that] by (auto simp: free_pages_of_def)
    then show ?thesis using tiles_okD(3) [OF T] that by (simp add: counted_zero)
  qed
  ultimately show ?thesis using st' by (intro exI [of _ st']) blast
qed

lemma a_heap_with_a_chunk: "\<exists>st c. hugeheap_ok st \<and> live st c"
proof -
  have "(1 :: nat) < MAX_AGEGROUPS" by (simp add: MAX_AGEGROUPS_def)
  from allocate_hugechunk_ok [OF initial_hugeheap_ok [of "\<lambda>_. UNMAPPED_BOOK_SIBID"] initial_answers_ok this, of 5000]
  obtain st c where "allocated (initial_hugeheap (\<lambda>_. UNMAPPED_BOOK_SIBID)) st c 1 5000" by fastforce
  then show ?thesis using allocated_live by blast
qed

theorem free_hugechunk_correct_witness:
  "\<exists>st c st'. live st c \<and> free_hugechunk st c = Inr st' \<and> hugeheap_ok st' \<and> \<not> live st' c"
  using a_heap_with_a_chunk free_hugechunk_correct by metis

section \<open>From addresses back to chunks\<close>

lemma find_record_book_walk:
  "r \<le> k \<Longrightarrow> SIBID_ID_IS_BIGCHUNK_RECORD (b r) \<Longrightarrow> (\<And>j. r < j \<Longrightarrow> j \<le> k \<Longrightarrow> \<not> SIBID_ID_IS_BIGCHUNK_RECORD (b j)) \<Longrightarrow>
    find_record_book b k = Inr r"
proof (induction k)
  case (Suc k)
  show ?case
  proof (cases "r = Suc k")
    case False
    with Suc.prems(1) have "r \<le> k" by simp
    with Suc.IH Suc.prems(2,3) show ?thesis by (simp add: Suc_le_eq le_Suc_eq)
  qed (use Suc.prems in simp)
qed simp

lemma quire_sibids:
  assumes "y < MAX_AGEGROUPS"
  shows "SIBID_ID_IS_BIGCHUNK_RECORD (HUGECHUNK_RECORD_SIBID y)" "\<not> SIBID_ID_IS_BIGCHUNK_RECORD (HUGECHUNK_DATA_SIBID y)"
    "SIBID_KIND_IS_CODE (HUGECHUNK_RECORD_SIBID y)" "SIBID_KIND_IS_CODE (HUGECHUNK_DATA_SIBID y)"
proof -
  have y: "y < 16" using assms by (simp add: MAX_AGEGROUPS_def)
  have c: "CODE_KIND = 8" by (simp add: kind_defs)
  show "SIBID_ID_IS_BIGCHUNK_RECORD (HUGECHUNK_RECORD_SIBID y)" "\<not> SIBID_ID_IS_BIGCHUNK_RECORD (HUGECHUNK_DATA_SIBID y)"
    "SIBID_KIND_IS_CODE (HUGECHUNK_RECORD_SIBID y)" "SIBID_KIND_IS_CODE (HUGECHUNK_DATA_SIBID y)"
    using y by (simp_all add: SIBID_ID_IS_BIGCHUNK_RECORD_def SIBID_KIND_IS_CODE_def HUGECHUNK_RECORD_SIBID_def
        HUGECHUNK_DATA_SIBID_def sibid_round_trip c HUGECHUNK_RECORD_def HUGECHUNK_DATA_def)
qed

lemma unat_first_ram_quantum:
  "located q hq \<Longrightarrow> unat (hq_first_ram_quantum hq) = unat q + hq_quire_bytesize hq - 1024 * length (hq_map hq)"
proof -
  assume l: "located q hq"
  then have "hq_quire_bytesize hq - 1024 * length (hq_map hq) < 2 ^ LENGTH(32)"
    by (simp add: located_def less_imp_diff_less)
  then have "unat (word_of_nat (hq_quire_bytesize hq - 1024 * length (hq_map hq)) :: vunt) =
      hq_quire_bytesize hq - 1024 * length (hq_map hq)" by (rule unat_word_of_nat)
  moreover have "unat q + hq_quire_bytesize hq - 1024 * length (hq_map hq) < 2 ^ 32"
    using l by (simp add: located_def less_imp_diff_less)
  ultimately show ?thesis using l by (simp add: located_def unat_word_ariths)
qed

text \<open>An address inside a chunk in use is inside its quire, on a page of the chunk's extent.\<close>

lemma inside_chunk:
  assumes ok: "hugeheap_ok st" and d: "hh_chunks st c = Some d" "live st c"
    and a: "unat (hc_chunk d) \<le> unat a" "unat a < unat (hc_chunk d) + hc_bytesize d" "hc_bytesize d \<le> 2 ^ 30"
  obtains hq where "hh_quires st (hc_quire d) = Some hq" "located (hc_quire d) hq" "marked (hh_books st) (hc_quire d) hq"
    "hq_youngest hq < MAX_AGEGROUPS" "unat (hc_quire d) \<le> unat a" "unat a < unat (hc_quire d) + hq_quire_bytesize hq"
    "GET_HUGECHUNK_FOR_POINTER_PAGE hq a < length (hq_map hq)" "hq_map hq ! GET_HUGECHUNK_FOR_POINTER_PAGE hq a = c"
proof -
  let ?q = "hc_quire d" and ?h = "hh_freelist st"
  obtain ext fl where M: "heap_mid st ext fl ?h 0" using ok by (auto simp: hugeheap_ok_def)
  have T: "tiles_ok (core (hh_chunks st)) (hh_quires st) ?h ext ?h 0" using M by (simp add: heap_mid_def)
  have nf: "c \<noteq> ?h" "\<not> HUGECHUNK_IS_FREE d" using d by (auto simp: live_def)
  have Kc: "core (hh_chunks st) c = Some (d\<lparr>hc_prev := 0, hc_next := 0\<rparr>)" using d by (simp add: core_def)
  obtain i n where e: "ext c = (i, n)" by (cases "ext c")
  obtain hq where hq: "hh_quires st ?q = Some hq" "i + n \<le> length (hq_map hq)" "length (hq_map hq) < 2 ^ 21"
      "hc_chunk d = hq_first_ram_quantum hq + word_of_nat (1024 * i)"
      "\<And>j. j < length (hq_map hq) \<Longrightarrow> hq_map hq ! j = c \<longleftrightarrow> i \<le> j \<and> j < i + n"
    using extent [OF tiles_okD(1) [OF T] Kc nf(1)] e by auto
  have loc: "located ?q hq" and m: "marked (hh_books st) ?q hq"
    using M hq(1) by (simp_all add: heap_mid_def placed_def)
  have y: "hq_youngest hq < MAX_AGEGROUPS"
    using tiles_okD(5) [OF T] Kc nf hq(1) unfolding aged_def by fastforce
  have np: "pages_of_bytesize (hc_bytesize d) = n" using tile_size(1) [OF T Kc nf(1) nf(1)] e by simp
  have "n = (hc_bytesize d + 1023) div 1024"
    using np a(3) round_up_eq [of 10 "hc_bytesize d"]
    by (simp add: pages_of_bytesize_def quantum_defs drop_bit_eq_div)
  then have bn: "hc_bytesize d \<le> 1024 * n" by linarith
  let ?f = "unat (hq_first_ram_quantum hq)"
  have f: "?f = unat ?q + hq_quire_bytesize hq - 1024 * length (hq_map hq)" by (rule unat_first_ram_quantum [OF loc])
  have room: "1024 * length (hq_map hq) < hq_quire_bytesize hq" "unat ?q + hq_quire_bytesize hq < 2 ^ 32"
    using loc by (simp_all add: located_def)
  have "unat (word_of_nat (1024 * i) :: vunt) = 1024 * i" using hq(2,3) by (intro unat_word_of_nat) simp
  then have cu: "unat (hc_chunk d) = ?f + 1024 * i"
    using hq(2,4) f room by (simp add: unat_word_ariths)
  have inq: "?f + 1024 * i \<le> unat a" "unat a < ?f + 1024 * (i + n)" using a bn cu by simp_all
  then have sub: "unat (a - hq_first_ram_quantum hq) = unat a - ?f"
    by (simp add: unat_sub word_le_nat_alt)
  have pg: "GET_HUGECHUNK_FOR_POINTER_PAGE hq a = (unat a - ?f) div 1024"
    unfolding GET_HUGECHUNK_FOR_POINTER_PAGE_def LOG2_HUGECHUNK_RAM_QUANTUM_IN_BYTES_def unat_drop_bit sub by simp
  have "1024 * i \<le> unat a - ?f" "unat a - ?f < 1024 * (i + n)" using inq by linarith+
  then have "i \<le> (unat a - ?f) div 1024" "(unat a - ?f) div 1024 < i + n"
    by (simp_all add: less_eq_div_iff_mult_less_eq div_less_iff_less_mult mult.commute)
  then have page: "GET_HUGECHUNK_FOR_POINTER_PAGE hq a < length (hq_map hq)"
    "hq_map hq ! GET_HUGECHUNK_FOR_POINTER_PAGE hq a = c"
    using hq(2,5) pg by simp_all
  have "?f + 1024 * length (hq_map hq) = unat ?q + hq_quire_bytesize hq" "unat ?q \<le> ?f"
    unfolding f using room(1) by simp_all
  moreover have "1024 * (i + n) \<le> 1024 * length (hq_map hq)" using hq(2) by simp
  ultimately have "unat ?q \<le> unat a" "unat a < unat ?q + hq_quire_bytesize hq"
    using inq by linarith+
  with hq(1) loc m y page show thesis by (intro that) auto
qed

lemma address_to_hugechunk_ok:
  assumes "hugeheap_ok st" and "hh_chunks st c = Some d" and "live st c"
    and "unat (hc_chunk d) \<le> unat a" and "unat a < unat (hc_chunk d) + hc_bytesize d" and "hc_bytesize d \<le> 2 ^ 30"
  shows "address_to_hugechunk st a = Inr c" "SIBID_KIND_IS_CODE (SIBID_FOR_POINTER (hh_books st) a)"
proof -
  obtain hq where hq: "hh_quires st (hc_quire d) = Some hq" "located (hc_quire d) hq" "marked (hh_books st) (hc_quire d) hq"
    "hq_youngest hq < MAX_AGEGROUPS" "unat (hc_quire d) \<le> unat a" "unat a < unat (hc_quire d) + hq_quire_bytesize hq"
    "GET_HUGECHUNK_FOR_POINTER_PAGE hq a < length (hq_map hq)" "hq_map hq ! GET_HUGECHUNK_FOR_POINTER_PAGE hq a = c"
    using inside_chunk [OF assms] by blast
  let ?q = "hc_quire d" and ?y = "hq_youngest hq"
  have sib: "SIBID_FOR_POINTER (hh_books st) x = (if unat x div 65536 = unat ?q div 65536
      then HUGECHUNK_RECORD_SIBID ?y else HUGECHUNK_DATA_SIBID ?y)"
    if "unat ?q \<le> unat x" "unat x < unat ?q + hq_quire_bytesize hq" for x
    using hq(3,4) that unfolding marked_def by blast
  show "SIBID_KIND_IS_CODE (SIBID_FOR_POINTER (hh_books st) a)"
    using sib [OF hq(5,6)] quire_sibids [OF hq(4)] by simp
  obtain i where i: "unat ?q = 65536 * i" using hq(2) by (auto simp: located_def)
  have "unat ?q < 2 ^ LENGTH(32)" "unat a < 2 ^ LENGTH(32)" by (rule unsigned_less)+
  then have "i < 65536" and a32: "unat a < 2 ^ 32" using i by simp_all
  have book: "hh_books st j = (if j = i then HUGECHUNK_RECORD_SIBID ?y else HUGECHUNK_DATA_SIBID ?y)"
    if "i \<le> j" "j \<le> unat a div 65536" for j
  proof -
    let ?x = "word_of_nat (65536 * j) :: vunt"
    have "65536 * j \<le> unat a" using that(2) by linarith
    then have "unat ?x = 65536 * j" using a32 by (intro unat_word_of_nat) simp
    then show ?thesis
      using sib [of ?x] that(1) i hq(6) \<open>65536 * j \<le> unat a\<close> by (simp add: SIBID_FOR_POINTER_def GET_BOOK_eq)
  qed
  have ia: "i \<le> unat a div 65536" using hq(5) i by linarith
  have "find_record_book (hh_books st) (unat a div 65536) = Inr i"
    using ia book quire_sibids [OF hq(4)] by (intro find_record_book_walk) simp_all
  moreover have "ADDRESS_OF_BOOK i = ?q"
  proof -
    have "unat (word_of_nat i :: vunt) = i" using \<open>i < 65536\<close> by (intro unat_word_of_nat) simp
    then have "unat (ADDRESS_OF_BOOK i) = i * 2 ^ 16"
      unfolding ADDRESS_OF_BOOK_def LOG2_BOOK_BYTESIZE_def using \<open>i < 65536\<close> by (subst unat_push_bit) simp_all
    then show ?thesis using i by (intro word_unat_eq_iff [THEN iffD2]) simp
  qed
  ultimately show "address_to_hugechunk st a = Inr c"
    using hq(1,7,8) by (simp add: address_to_hugechunk_def GET_BOOK_eq get_hugechunk_holding_pointee_def get_quire_def)
qed

text \<open>
  C8. Every address inside a chunk in use leads back to the chunk: the walk down the book map
  finds the record of its quire, the page vector finds the chunk, and the age found for a
  pointer into it is the chunk's age.
\<close>

theorem addresses_lead_back_to_chunks:
  assumes "hugeheap_ok st" and "hh_chunks st c = Some d" and "live st c"
    and "unat (hc_chunk d) \<le> unat a" and "unat a < unat (hc_chunk d) + hc_bytesize d" and "hc_bytesize d \<le> 2 ^ 30"
  shows "address_to_hugechunk st a = Inr c \<and> (IS_POINTER a \<longrightarrow> get_chunk_age st a = Inr (int (hc_age d)))"
  using address_to_hugechunk_ok [OF assms] assms(2)
  by (simp add: get_chunk_age_def Let_def get_chunk_def)

theorem addresses_lead_back_to_chunks_witness:
  "\<exists>st c d. live st c \<and> hh_chunks st c = Some d \<and> address_to_hugechunk st (hc_chunk d) = Inr c"
proof -
  have "(1 :: nat) < MAX_AGEGROUPS" by (simp add: MAX_AGEGROUPS_def)
  from allocate_hugechunk_ok [OF initial_hugeheap_ok [of "\<lambda>_. UNMAPPED_BOOK_SIBID"] initial_answers_ok this, of 5000]
  obtain st c where "allocated (initial_hugeheap (\<lambda>_. UNMAPPED_BOOK_SIBID)) st c 1 5000" by fastforce
  then obtain d where d: "hugeheap_ok st" "hh_chunks st c = Some d" "live st c" "hc_bytesize d = 5000"
    using allocated_live by blast
  then show ?thesis using addresses_lead_back_to_chunks [OF d(1-3), of "hc_chunk d"] by auto
qed

end
