(* ===== verification/Chained_Buckets.thy ===== *)
theory Chained_Buckets
  imports Keyed_Tables
begin

text \<open>
  Bucket vectors over shared entries. The function table keeps every entry on three chains at
  once and the export table points into it, so chains hold names of entries in a store; a name
  whose entry was freed is \<open>Wild\<close> to read. The operations are the loops the tables share: the
  search along one chain and the move of all entries to a longer vector. The locale is the
  contract of an indexing function (a key of an entry, a slot of a key); its lemmas say that
  searching the slot of a key is searching the whole vector, and that growing loses nothing.
\<close>

fun chain_find :: "('i \<rightharpoonup> 'e) \<Rightarrow> ('e \<Rightarrow> bool) \<Rightarrow> 'i list \<Rightarrow> 'i option result" where
  "chain_find items P [] = Inr None"
| "chain_find items P (i # is) =
     (case items i of
        None \<Rightarrow> Inl Wild
      | Some e \<Rightarrow> if P e then Inr (Some i) else chain_find items P is)"

definition bucket_find :: "('i \<rightharpoonup> 'e) \<Rightarrow> ('e \<Rightarrow> bool) \<Rightarrow> 'i list list \<Rightarrow> nat \<Rightarrow> 'i option result" where
  "bucket_find items P vec n = (if n < length vec then chain_find items P (vec ! n) else Inl Wild)"

definition bucket_push :: "'i list list \<Rightarrow> nat \<Rightarrow> 'i \<Rightarrow> 'i list list" where
  "bucket_push vec n i = vec[n := i # vec ! n]"

fun rehash_chain :: "('i \<rightharpoonup> 'e) \<Rightarrow> ('e \<Rightarrow> nat) \<Rightarrow> 'i list list \<Rightarrow> 'i list \<Rightarrow> 'i list list result" where
  "rehash_chain items slot new [] = Inr new"
| "rehash_chain items slot new (i # is) =
     (case items i of
        None \<Rightarrow> Inl Wild
      | Some e \<Rightarrow> if slot e < length new then rehash_chain items slot (bucket_push new (slot e) i) is
                  else Inl Wild)"

text \<open>The loop over the old vector's buckets, each chain in turn, is one loop over them all.\<close>

definition rehash :: "('i \<rightharpoonup> 'e) \<Rightarrow> ('e \<Rightarrow> nat) \<Rightarrow> 'i list list \<Rightarrow> nat \<Rightarrow> 'i list list result" where
  "rehash items slot old new_size = rehash_chain items slot (replicate new_size []) (concat old)"

section \<open>Well-formed vectors\<close>

definition buckets_ok :: "('i \<rightharpoonup> 'e) \<Rightarrow> ('e \<Rightarrow> 'k) \<Rightarrow> ('k \<Rightarrow> nat \<Rightarrow> nat) \<Rightarrow> 'i list list \<Rightarrow> bool" where
  "buckets_ok items key slot vec \<longleftrightarrow>
     (\<forall>h < length vec. \<forall>i \<in> set (vec ! h). \<exists>e. items i = Some e \<and> slot (key e) (length vec) = h) \<and>
     (\<forall>i \<in> set (concat vec). \<forall>j \<in> set (concat vec). \<forall>e. items i = Some e \<longrightarrow>
        (\<forall>f. items j = Some f \<longrightarrow> key e = key f \<longrightarrow> i = j))"

definition holds :: "('i \<rightharpoonup> 'e) \<Rightarrow> ('e \<Rightarrow> 'k) \<Rightarrow> 'i list list \<Rightarrow> 'k \<Rightarrow> 'i \<Rightarrow> bool" where
  "holds items key vec k i \<longleftrightarrow> i \<in> set (concat vec) \<and> (\<exists>e. items i = Some e \<and> key e = k)"

lemma chain_find_result:
  assumes "\<And>i. i \<in> set is \<Longrightarrow> \<exists>e. items i = Some e"
  shows "\<exists>r. chain_find items P is = Inr r \<and>
    (case r of None \<Rightarrow> \<forall>i \<in> set is. \<forall>e. items i = Some e \<longrightarrow> \<not> P e
             | Some i \<Rightarrow> i \<in> set is \<and> (\<exists>e. items i = Some e \<and> P e))"
  using assms
proof (induction "is")
  case Nil
  then show ?case by simp
next
  case (Cons i "is")
  obtain e where e: "items i = Some e" using Cons.prems [of i] by auto
  show ?case
  proof (cases "P e")
    case True
    with e show ?thesis by simp
  next
    case False
    obtain r where r: "chain_find items P is = Inr r"
      "case r of None \<Rightarrow> \<forall>i \<in> set is. \<forall>e. items i = Some e \<longrightarrow> \<not> P e
             | Some i \<Rightarrow> i \<in> set is \<and> (\<exists>e. items i = Some e \<and> P e)"
      using Cons.IH Cons.prems by auto
    with e False show ?thesis by (cases r) auto
  qed
qed

lemma buckets_ok_empty: "buckets_ok items key slot (replicate n [])"
  by (simp add: buckets_ok_def)

text \<open>A change of the store that keeps the entries on the vector keeps the vector.\<close>

lemma buckets_ok_items:
  assumes "buckets_ok items key slot vec"
    and "\<And>i e. i \<in> set (concat vec) \<Longrightarrow> items i = Some e \<Longrightarrow> items' i = Some e"
  shows "buckets_ok items' key slot vec"
proof -
  have mem: "i \<in> set (concat vec)" if "h < length vec" "i \<in> set (vec ! h)" for h i
    using that unfolding in_set_concat_nth by blast
  have dom: "\<exists>e. items i = Some e" if "i \<in> set (concat vec)" for i
    using that assms(1) unfolding in_set_concat_nth buckets_ok_def by metis
  show ?thesis
    using assms(1) mem dom assms(2) unfolding buckets_ok_def by (metis option.inject)
qed

lemma holds_items:
  assumes "\<And>i. i \<in> set (concat vec) \<Longrightarrow> items' i = items i"
  shows "holds items' key vec k i = holds items key vec k i"
  unfolding holds_def using assms by metis

lemma bucket_find_items:
  assumes "\<And>i. i \<in> set (concat vec) \<Longrightarrow> items' i = items i"
  shows "bucket_find items' P vec h = bucket_find items P vec h"
proof (cases "h < length vec")
  case True
  have chain: "chain_find items' P is = chain_find items P is" if "\<And>i. i \<in> set is \<Longrightarrow> items' i = items i" for "is"
    using that by (induction "is") (simp_all split: option.splits)
  have "i \<in> set (concat vec)" if "i \<in> set (vec ! h)" for i using that True unfolding in_set_concat_nth by blast
  with True show ?thesis unfolding bucket_find_def by (simp only: if_True) (rule chain, rule assms)
qed (simp add: bucket_find_def)

locale chained_buckets =
  fixes key :: "'e \<Rightarrow> 'k" and slot :: "'k \<Rightarrow> nat \<Rightarrow> nat"
  assumes slot_bound: "m \<le> 31 \<Longrightarrow> slot k (2 ^ m) < 2 ^ m"
begin

lemma find_key:
  assumes ok: "buckets_ok items key slot vec" and len: "length vec = 2 ^ m" "m \<le> 31"
    and P: "\<And>i e. i \<in> set (concat vec) \<Longrightarrow> items i = Some e \<Longrightarrow> P e \<longleftrightarrow> key e = k"
  shows "\<exists>r. bucket_find items P vec (slot k (length vec)) = Inr r \<and> (\<forall>i. r = Some i \<longleftrightarrow> holds items key vec k i)"
proof -
  let ?h = "slot k (length vec)"
  have h: "?h < length vec" using slot_bound len by simp
  have mem: "i \<in> set (concat vec)" if "i \<in> set (vec ! ?h)" for i
    using that h unfolding in_set_concat_nth by blast
  have dom: "\<exists>e. items i = Some e" if "i \<in> set (vec ! ?h)" for i
    using that ok h unfolding buckets_ok_def by blast
  obtain r where r: "chain_find items P (vec ! ?h) = Inr r"
    "case r of None \<Rightarrow> \<forall>i \<in> set (vec ! ?h). \<forall>e. items i = Some e \<longrightarrow> \<not> P e
             | Some i \<Rightarrow> i \<in> set (vec ! ?h) \<and> (\<exists>e. items i = Some e \<and> P e)"
    using chain_find_result [of "vec ! ?h" items P, OF dom] by blast
  have there: "i \<in> set (vec ! ?h)" if hi: "holds items key vec k i" for i
  proof -
    obtain h' where "h' < length vec" "i \<in> set (vec ! h')"
      using hi unfolding holds_def in_set_concat_nth by metis
    moreover then have "h' = ?h" using ok hi unfolding buckets_ok_def holds_def by (metis option.inject)
    ultimately show ?thesis by simp
  qed
  have "r = Some i \<longleftrightarrow> holds items key vec k i" for i
  proof
    assume "r = Some i"
    then show "holds items key vec k i" using r(2) P mem by (fastforce simp: holds_def)
  next
    assume hi: "holds items key vec k i"
    then obtain e where e: "items i = Some e" "key e = k" "i \<in> set (concat vec)" by (auto simp: holds_def)
    with P have "P e" by blast
    with r(2) e(1) there [OF hi] obtain j f where j: "r = Some j" "j \<in> set (vec ! ?h)" "items j = Some f" "P f"
      by (cases r) auto
    then have "key f = k" using P mem by blast
    then have "i = j" using ok e j mem unfolding buckets_ok_def by metis
    with j(1) show "r = Some i" by simp
  qed
  with r(1) h show ?thesis by (auto simp: bucket_find_def)
qed

lemma push_ok:
  assumes ok: "buckets_ok items key slot vec" and i: "items i = Some e" and n: "n = slot (key e) (length vec)" "n < length vec"
    and new: "\<And>j. \<not> holds items key vec (key e) j"
  shows "buckets_ok items key slot (bucket_push vec n i)"
    and "holds items key (bucket_push vec n i) k j \<longleftrightarrow> holds items key vec k j \<or> k = key e \<and> j = i"
proof -
  have set: "set (concat (bucket_push vec n i)) = insert i (set (concat vec))"
    unfolding bucket_push_def by (rule set_concat_push [OF n(2)])
  show "buckets_ok items key slot (bucket_push vec n i)"
    unfolding buckets_ok_def set
  proof (intro conjI)
    show "\<forall>h < length (bucket_push vec n i). \<forall>j \<in> set (bucket_push vec n i ! h).
        \<exists>e. items j = Some e \<and> slot (key e) (length (bucket_push vec n i)) = h"
      using ok i n by (auto simp: bucket_push_def buckets_ok_def nth_list_update)
    show "\<forall>x \<in> insert i (set (concat vec)). \<forall>y \<in> insert i (set (concat vec)). \<forall>e. items x = Some e \<longrightarrow>
        (\<forall>f. items y = Some f \<longrightarrow> key e = key f \<longrightarrow> x = y)"
      using ok i new unfolding buckets_ok_def holds_def by (metis insertE option.inject)
  qed
  show "holds items key (bucket_push vec n i) k j \<longleftrightarrow> holds items key vec k j \<or> k = key e \<and> j = i"
    unfolding holds_def set using i by auto
qed

lemma rehash_chain_ok:
  assumes "buckets_ok items key slot new" and "length new = 2 ^ m" and "m \<le> 31"
    and "\<And>i. i \<in> set is \<Longrightarrow> \<exists>e. items i = Some e"
    and "\<And>i j e f. i \<in> set is \<Longrightarrow> j \<in> set is \<union> set (concat new) \<Longrightarrow> items i = Some e \<Longrightarrow> items j = Some f \<Longrightarrow>
      key e = key f \<Longrightarrow> i = j"
    and "set is \<inter> set (concat new) = {}" and "distinct is"
  shows "\<exists>vec. rehash_chain items (\<lambda>e. slot (key e) (2 ^ m)) new is = Inr vec \<and> buckets_ok items key slot vec \<and>
    length vec = 2 ^ m \<and> set (concat vec) = set is \<union> set (concat new) \<and> (distinct (concat new) \<longrightarrow> distinct (concat vec))"
  using assms
proof (induction "is" arbitrary: new)
  case Nil
  then show ?case by simp
next
  case (Cons i "is")
  obtain e where e: "items i = Some e" using Cons.prems(4) [of i] by auto
  let ?n = "slot (key e) (2 ^ m)" and ?new = "bucket_push new (slot (key e) (2 ^ m)) i"
  have n: "?n < length new" using slot_bound Cons.prems(2,3) by simp
  have set: "set (concat ?new) = insert i (set (concat new))"
    unfolding bucket_push_def by (rule set_concat_push [OF n])
  have "\<not> holds items key new (key e) j" for j
  proof
    assume "holds items key new (key e) j"
    then obtain f where "j \<in> set (concat new)" "items j = Some f" "key e = key f" by (auto simp: holds_def)
    then have "i = j" using Cons.prems(5) [of i j e f] e by simp
    then show False using \<open>j \<in> set (concat new)\<close> Cons.prems(6) by auto
  qed
  then have ok: "buckets_ok items key slot ?new"
    using Cons.prems(2) n by (intro push_ok(1) [OF Cons.prems(1) e]) simp_all
  have "\<exists>vec. rehash_chain items (\<lambda>e. slot (key e) (2 ^ m)) ?new is = Inr vec \<and> buckets_ok items key slot vec \<and>
    length vec = 2 ^ m \<and> set (concat vec) = set is \<union> set (concat ?new) \<and> (distinct (concat ?new) \<longrightarrow> distinct (concat vec))"
  proof (rule Cons.IH [OF ok])
    show "length ?new = 2 ^ m" using Cons.prems(2) by (simp add: bucket_push_def)
    show "x = y" if "x \<in> set is" "y \<in> set is \<union> set (concat ?new)" "items x = Some f" "items y = Some g" "key f = key g"
      for x y f g
      using Cons.prems(5) [of x y f g] that unfolding set by auto
    show "set is \<inter> set (concat ?new) = {}" using Cons.prems(6,7) unfolding set by auto
  qed (use Cons.prems in auto)
  moreover have "distinct (concat new) \<Longrightarrow> distinct (concat ?new)"
  proof -
    assume d: "distinct (concat new)"
    have "length (concat ?new) = Suc (length (concat new))"
      unfolding bucket_push_def by (rule length_concat_push [OF n])
    moreover have "card (set (concat ?new)) = Suc (card (set (concat new)))"
      unfolding set using Cons.prems(6) by (subst card_insert_disjoint) auto
    moreover have "card (set (concat new)) = length (concat new)" using d by (rule distinct_card)
    ultimately show ?thesis by (intro card_distinct) (simp only:)
  qed
  ultimately show ?case using e n set by auto
qed

lemma rehash_ok:
  assumes ok: "buckets_ok items key slot old" and m: "m \<le> 31" and d: "distinct (concat old)"
  shows "\<exists>vec. rehash items (\<lambda>e. slot (key e) (2 ^ m)) old (2 ^ m) = Inr vec \<and> buckets_ok items key slot vec \<and>
    length vec = 2 ^ m \<and> set (concat vec) = set (concat old) \<and> distinct (concat vec)"
proof -
  have dom: "\<exists>e. items i = Some e" if "i \<in> set (concat old)" for i
    using that ok unfolding in_set_concat_nth buckets_ok_def by metis
  have "\<exists>vec. rehash_chain items (\<lambda>e. slot (key e) (2 ^ m)) (replicate (2 ^ m) []) (concat old) = Inr vec \<and>
    buckets_ok items key slot vec \<and> length vec = 2 ^ m \<and>
    set (concat vec) = set (concat old) \<union> set (concat (replicate (2 ^ m) [])) \<and>
    (distinct (concat (replicate (2 ^ m) [] :: 'a list list)) \<longrightarrow> distinct (concat vec))"
  proof (rule rehash_chain_ok [OF buckets_ok_empty _ m dom])
    show "i = j" if "i \<in> set (concat old)" "j \<in> set (concat old) \<union> set (concat (replicate (2 ^ m) []))"
      "items i = Some e" "items j = Some f" "key e = key f" for i j e f
      using ok that unfolding buckets_ok_def by auto
  qed (use d in simp_all)
  then show ?thesis by (simp add: rehash_def)
qed

end

end
