(* ===== verification/Cfun_Tables.thy ===== *)
theory Cfun_Tables
  imports Chained_Buckets Heap_Tags
begin

text \<open>
  The table of C functions Mythryl code may call, and the tables of the ones a heap image refers
  to (\<open>src/c/heapcleaner/mythryl-callable-cfun-hashtable.c\<close>). An entry sits on up to three
  chains (by name, by nickname, by address); entries are kept in a store, so that an entry
  freed while it is still on a chain can be told from one that was never there.
\<close>

unbundle bit_operations_syntax

section \<open>Hashing\<close>

text \<open>\<open>char\<close> is signed on the machines the runtime is built for.\<close>

definition char_value :: "char \<Rightarrow> int" where
  "char_value c = (let n = of_char c in if n < 128 then n else n - 256)"

fun hash_string_from :: "int \<Rightarrow> string \<Rightarrow> int" where
  "hash_string_from h [] = h"
| "hash_string_from h (c # cs) =
     (let n = wrap_int (128 * h + char_value c)
      in hash_string_from (n - 8388593 * c_div n 8388593) cs)"

definition HASH_STRING :: "string \<Rightarrow> int" where
  "HASH_STRING name = hash_string_from 0 name"

definition COMPUTE_BUCKETVECTOR_INDEX_FROM_NAME_HASH :: "int \<Rightarrow> nat \<Rightarrow> nat" where
  "COMPUTE_BUCKETVECTOR_INDEX_FROM_NAME_HASH h n = nat (h AND (int n - 1))"

definition COMPUTE_BUCKETVECTOR_INDEX_FROM_ADDRESS :: "val \<Rightarrow> nat \<Rightarrow> nat" where
  "COMPUTE_BUCKETVECTOR_INDEX_FROM_ADDRESS a n = unat (drop_bit 3 a AND word_of_int (int n - 1))"

section \<open>The function table\<close>

record hashtable_entry =
  ce_addr :: val
  ce_name :: string
  ce_nickname :: "string option"
  ce_hash_of_name :: int
  ce_hash_of_nickname :: int

record cfun_table =
  ct_items :: "nat \<rightharpoonup> hashtable_entry"
  ct_fresh :: nat
  ct_by_name :: "nat list list"
  ct_by_nickname :: "nat list list"
  ct_by_address :: "nat list list"
  ct_slots :: nat
  ct_count :: nat

definition empty_cfun_table :: cfun_table where
  "empty_cfun_table = \<lparr>ct_items = Map.empty, ct_fresh = 0, ct_by_name = [], ct_by_nickname = [],
     ct_by_address = [], ct_slots = 0, ct_count = 0\<rparr>"

definition grow_cfun_table :: "cfun_table \<Rightarrow> string option \<Rightarrow> cfun_table result" where
  "grow_cfun_table t nickname =
     (let n = (if ct_slots t \<noteq> 0 then 2 * ct_slots t else 64);
          name_slot = (\<lambda>e. COMPUTE_BUCKETVECTOR_INDEX_FROM_NAME_HASH (ce_hash_of_name e) n);
          nickname_slot = (\<lambda>e. COMPUTE_BUCKETVECTOR_INDEX_FROM_NAME_HASH (ce_hash_of_nickname e) n);
          address_slot = (\<lambda>e. COMPUTE_BUCKETVECTOR_INDEX_FROM_ADDRESS (ce_addr e) n)
      in seq_result (rehash (ct_items t) name_slot (ct_by_name t) n) (\<lambda>by_name.
         seq_result (if nickname \<noteq> None then rehash (ct_items t) nickname_slot (ct_by_nickname t) n
                     else Inr (replicate n [])) (\<lambda>by_nickname.
         seq_result (rehash (ct_items t) address_slot (ct_by_address t) n) (\<lambda>by_address.
           Inr (t\<lparr>ct_by_name := by_name, ct_by_nickname := by_nickname, ct_by_address := by_address,
                  ct_slots := n\<rparr>)))))"

text \<open>The three insertions of \<open>publish_cfun2\<close>; \<open>item\<close> is the entry made for the call.\<close>

definition FREE_entry :: "cfun_table \<Rightarrow> nat \<Rightarrow> cfun_table" where
  "FREE_entry t item = t\<lparr>ct_items := (ct_items t)(item := None)\<rparr>"

definition publish_address :: "cfun_table \<Rightarrow> nat \<Rightarrow> hashtable_entry \<Rightarrow> cfun_table result" where
  "publish_address t item e =
     (let n = COMPUTE_BUCKETVECTOR_INDEX_FROM_ADDRESS (ce_addr e) (ct_slots t)
      in seq_result (bucket_find (ct_items t) (\<lambda>p. ce_addr p = ce_addr e) (ct_by_address t) n) (\<lambda>found.
           case found of
             Some p \<Rightarrow>
               (case ct_items t p of
                  None \<Rightarrow> Inl Wild
                | Some p \<Rightarrow>
                    if ce_hash_of_name p \<noteq> ce_hash_of_name e \<or> ce_name e \<noteq> ce_name p
                    then Inl (Died ''address defined twice'')
                    else Inr (FREE_entry t item))
           | None \<Rightarrow> Inr (t\<lparr>ct_by_address := bucket_push (ct_by_address t) n item,
                            ct_count := ct_count t + 1\<rparr>)))"

definition publish_nickname :: "cfun_table \<Rightarrow> nat \<Rightarrow> hashtable_entry \<Rightarrow> cfun_table result" where
  "publish_nickname t item e =
     (if ce_nickname e = None then publish_address t item e
      else let n = COMPUTE_BUCKETVECTOR_INDEX_FROM_NAME_HASH (ce_hash_of_nickname e) (ct_slots t)
      in seq_result (bucket_find (ct_items t)
           (\<lambda>p. ce_hash_of_nickname p = ce_hash_of_nickname e \<and> ce_nickname e = ce_nickname p)
           (ct_by_nickname t) n) (\<lambda>found.
           case found of
             Some p \<Rightarrow>
               (case ct_items t p of
                  None \<Rightarrow> Inl Wild
                | Some p \<Rightarrow> if ce_addr p \<noteq> ce_addr e
                            then Inl (Died ''global C symbol nickname defined twice'')
                            else Inr (FREE_entry t item))
           | None \<Rightarrow> publish_address (t\<lparr>ct_by_nickname := bucket_push (ct_by_nickname t) n item\<rparr>) item e))"

definition publish_name :: "cfun_table \<Rightarrow> nat \<Rightarrow> hashtable_entry \<Rightarrow> cfun_table result" where
  "publish_name t item e =
     (let n = COMPUTE_BUCKETVECTOR_INDEX_FROM_NAME_HASH (ce_hash_of_name e) (ct_slots t)
      in seq_result (bucket_find (ct_items t)
           (\<lambda>p. ce_hash_of_name p = ce_hash_of_name e \<and> ce_name e = ce_name p) (ct_by_name t) n) (\<lambda>found.
           case found of
             Some p \<Rightarrow>
               (case ct_items t p of
                  None \<Rightarrow> Inl Wild
                | Some p \<Rightarrow> if ce_addr p \<noteq> ce_addr e
                            then Inl (Died ''global C symbol defined twice'')
                            else Inr (FREE_entry t item))
           | None \<Rightarrow> publish_nickname (t\<lparr>ct_by_name := bucket_push (ct_by_name t) n item\<rparr>) item e))"

definition publish_cfun2 :: "cfun_table \<Rightarrow> string \<Rightarrow> string option \<Rightarrow> val \<Rightarrow> cfun_table result" where
  "publish_cfun2 t name nickname addr =
     seq_result (if ct_count t = ct_slots t then grow_cfun_table t nickname else Inr t) (\<lambda>t.
       let item = ct_fresh t;
           e = \<lparr>ce_addr = addr, ce_name = name, ce_nickname = nickname,
                ce_hash_of_name = HASH_STRING name,
                ce_hash_of_nickname = (case nickname of None \<Rightarrow> 0 | Some s \<Rightarrow> HASH_STRING s)\<rparr>
       in publish_name (t\<lparr>ct_items := (ct_items t)(item \<mapsto> e), ct_fresh := item + 1\<rparr>) item e)"

definition publish_cfun :: "cfun_table \<Rightarrow> string \<Rightarrow> val \<Rightarrow> cfun_table result" where
  "publish_cfun t name addr = publish_cfun2 t name None addr"

definition name_of_cfun :: "cfun_table \<Rightarrow> val \<Rightarrow> string option result" where
  "name_of_cfun t address =
     seq_result (bucket_find (ct_items t) (\<lambda>q. ce_addr q = address) (ct_by_address t)
       (COMPUTE_BUCKETVECTOR_INDEX_FROM_ADDRESS address (ct_slots t))) (\<lambda>found.
       case found of
         None \<Rightarrow> Inr None
       | Some q \<Rightarrow> (case ct_items t q of None \<Rightarrow> Inl Wild | Some e \<Rightarrow> Inr (Some (ce_name e))))"

definition find_cfun :: "cfun_table \<Rightarrow> string \<Rightarrow> val result" where
  "find_cfun t name =
     (let hash = HASH_STRING name;
          index = COMPUTE_BUCKETVECTOR_INDEX_FROM_NAME_HASH hash (ct_slots t)
      in seq_result (bucket_find (ct_items t) (\<lambda>p. ce_hash_of_name p = hash \<and> ce_name p = name)
           (ct_by_name t) index) (\<lambda>found.
         case found of
           Some p \<Rightarrow> (case ct_items t p of None \<Rightarrow> Inl Wild | Some p \<Rightarrow> Inr (ce_addr p))
         | None \<Rightarrow>
             seq_result (bucket_find (ct_items t) (\<lambda>p. ce_hash_of_nickname p = hash \<and> ce_nickname p = Some name)
               (ct_by_nickname t) index) (\<lambda>found.
             case found of
               Some p \<Rightarrow> (case ct_items t p of None \<Rightarrow> Inl Wild | Some p \<Rightarrow> Inr (ce_addr p))
             | None \<Rightarrow> Inr HEAP_VOID)))"

section \<open>Export tables\<close>

definition MAKE_EXTERN :: "nat \<Rightarrow> val" where
  "MAKE_EXTERN index = MAKE_TAGWORD index EXTERNAL_REFERENCE_IN_EXPORTED_HEAP_IMAGE_BTAG"

text \<open>A chain link of an export table: the entry it refers to and its export index.\<close>

record heapfile_cfun_table =
  ht_links :: "nat \<rightharpoonup> nat \<times> nat"
  ht_fresh :: nat
  ht_bucket_vector :: "nat list list"
  ht_size_in_buckets :: nat
  ht_entries_count :: nat
  ht_all_entries :: "nat list"
  ht_all_entries_size :: nat

definition make_heapfile_cfun_table :: heapfile_cfun_table where
  "make_heapfile_cfun_table = \<lparr>ht_links = Map.empty, ht_fresh = 0, ht_bucket_vector = [], ht_size_in_buckets = 0,
     ht_entries_count = 0, ht_all_entries = [], ht_all_entries_size = 0\<rparr>"

text \<open>
  The loops over links read the address of a link through the entry it refers to in the function
  table. A link together with its entry; a link whose entry was freed cannot be read.
\<close>

definition links_with_entries :: "cfun_table \<Rightarrow> heapfile_cfun_table \<Rightarrow> nat \<rightharpoonup> (nat \<times> nat) \<times> hashtable_entry" where
  "links_with_entries t table p =
     (case ht_links table p of None \<Rightarrow> None | Some l \<Rightarrow> map_option (Pair l) (ct_items t (fst l)))"

definition link_address :: "(nat \<times> nat) \<times> hashtable_entry \<Rightarrow> val" where
  "link_address l = ce_addr (snd l)"

definition double_size_of_heapfile_cfun_table :: "cfun_table \<Rightarrow> heapfile_cfun_table \<Rightarrow> heapfile_cfun_table result" where
  "double_size_of_heapfile_cfun_table t table =
     (let n = (if ht_size_in_buckets table \<noteq> 0 then 2 * ht_size_in_buckets table else 32)
      in seq_result (rehash (links_with_entries t table)
           (\<lambda>l. COMPUTE_BUCKETVECTOR_INDEX_FROM_ADDRESS (link_address l) n) (ht_bucket_vector table) n) (\<lambda>vec.
           Inr (table\<lparr>ht_bucket_vector := vec, ht_size_in_buckets := n\<rparr>)))"

definition append_entry :: "heapfile_cfun_table \<Rightarrow> nat \<Rightarrow> heapfile_cfun_table" where
  "append_entry table q =
     (let index = ht_entries_count table;
          table = table\<lparr>ht_entries_count := index + 1\<rparr>;
          table = (if ht_all_entries_size table \<le> index
                   then let new_size = (if ht_all_entries_size table = 0 then 64 else 2 * ht_all_entries_size table)
                        in table\<lparr>ht_all_entries := take (ht_all_entries_size table) (ht_all_entries table)
                                   @ replicate (new_size - ht_all_entries_size table) 0,
                                 ht_all_entries_size := new_size\<rparr>
                   else table)
      in table\<lparr>ht_all_entries := (ht_all_entries table)[index := q]\<rparr>)"

definition add_cfun_to_heapfile_cfun_table ::
  "cfun_table \<Rightarrow> heapfile_cfun_table \<Rightarrow> val \<Rightarrow> (heapfile_cfun_table \<times> val) result" where
  "add_cfun_to_heapfile_cfun_table t table addr =
     seq_result (if ht_entries_count table \<ge> ht_size_in_buckets table
                 then double_size_of_heapfile_cfun_table t table else Inr table) (\<lambda>table.
       let hash = COMPUTE_BUCKETVECTOR_INDEX_FROM_ADDRESS addr (ht_size_in_buckets table)
       in seq_result (bucket_find (links_with_entries t table) (\<lambda>l. link_address l = addr) (ht_bucket_vector table) hash) (\<lambda>found.
         case found of
           Some p \<Rightarrow> (case ht_links table p of None \<Rightarrow> Inl Wild | Some l \<Rightarrow> Inr (table, MAKE_EXTERN (snd l)))
         | None \<Rightarrow>
             seq_result (bucket_find (ct_items t) (\<lambda>q. ce_addr q = addr) (ct_by_address t)
               (COMPUTE_BUCKETVECTOR_INDEX_FROM_ADDRESS addr (ct_slots t))) (\<lambda>found.
             case found of
               None \<Rightarrow> Inr (table, HEAP_VOID)
             | Some q \<Rightarrow>
                 (let index = ht_entries_count table;
                      table = append_entry table q;
                      p = ht_fresh table
                  in Inr (table\<lparr>ht_links := (ht_links table)(p \<mapsto> (q, index)), ht_fresh := p + 1,
                                ht_bucket_vector := bucket_push (ht_bucket_vector table) hash p\<rparr>,
                          MAKE_EXTERN index)))))"

definition get_cfun_address_from_heapfile_cfun_table :: "cfun_table \<Rightarrow> heapfile_cfun_table \<Rightarrow> val \<Rightarrow> val result" where
  "get_cfun_address_from_heapfile_cfun_table t table xref =
     (let index = GET_LENGTH_IN_WORDS_FROM_TAGWORD xref
      in if index \<ge> ht_entries_count table then Inl (Died ''export-table index out of range'')
         else if length (ht_all_entries table) \<le> index then Inl Wild
         else case ct_items t (ht_all_entries table ! index) of None \<Rightarrow> Inl Wild | Some e \<Rightarrow> Inr (ce_addr e))"

fun names_of_entries :: "(nat \<rightharpoonup> hashtable_entry) \<Rightarrow> nat list \<Rightarrow> string list result" where
  "names_of_entries items [] = Inr []"
| "names_of_entries items (i # is) =
     (case items i of
        None \<Rightarrow> Inl Wild
      | Some e \<Rightarrow> seq_result (names_of_entries items is) (\<lambda>names. Inr (ce_name e # names)))"

definition get_names_of_all_cfuns_in_heapfile_cfun_table :: "cfun_table \<Rightarrow> heapfile_cfun_table \<Rightarrow> string list result" where
  "get_names_of_all_cfuns_in_heapfile_cfun_table t table =
     names_of_entries (ct_items t) (take (ht_entries_count table) (ht_all_entries table))"

definition heapfile_cfun_table_bytesize :: "cfun_table \<Rightarrow> heapfile_cfun_table \<Rightarrow> nat result" where
  "heapfile_cfun_table_bytesize t table =
     seq_result (get_names_of_all_cfuns_in_heapfile_cfun_table t table) (\<lambda>names.
       Inr (round_up_to_power_of_two (sum_list (map (\<lambda>s. 1 + length s) names)) 4))"

end
