(* ===== verification/Cfun_Facts.thy ===== *)
theory Cfun_Facts
  imports Cfun_Tables
begin

text \<open>
  Correctness of the function table and of export tables. The three chains of the function
  table and the chain of an export table are interpretations of the same contract. What a
  table says is the set of its (name, address) bindings; publishing adds one, finding reads
  them, growing keeps them, except that the nickname chains are kept only when the entry
  being published has a nickname itself.
\<close>

unbundle bit_operations_syntax

section \<open>The contract of bucket vectors, four times\<close>

lemma name_index_bound: "m \<le> 31 \<Longrightarrow> COMPUTE_BUCKETVECTOR_INDEX_FROM_NAME_HASH h (2 ^ m) < 2 ^ m"
proof -
  have "h AND (int (2 ^ m) - 1) = take_bit m h"
    by (simp add: take_bit_eq_mask mask_eq_exp_minus_1)
  moreover have "0 \<le> take_bit m h" "take_bit m h < 2 ^ m" by simp_all
  ultimately show ?thesis
    by (simp add: COMPUTE_BUCKETVECTOR_INDEX_FROM_NAME_HASH_def nat_less_iff)
qed

lemma address_index_bound: "m \<le> 31 \<Longrightarrow> COMPUTE_BUCKETVECTOR_INDEX_FROM_ADDRESS a (2 ^ m) < 2 ^ m"
proof -
  have "(word_of_int (int (2 ^ m) - 1) :: val) = mask m" by (simp add: mask_eq_decr_exp)
  then show ?thesis by (simp add: COMPUTE_BUCKETVECTOR_INDEX_FROM_ADDRESS_def unat_and_mask)
qed

definition name_slot :: "string \<Rightarrow> nat \<Rightarrow> nat" where
  "name_slot s n = COMPUTE_BUCKETVECTOR_INDEX_FROM_NAME_HASH (HASH_STRING s) n"

definition nickname_hash :: "string option \<Rightarrow> int" where
  "nickname_hash k = (case k of None \<Rightarrow> 0 | Some s \<Rightarrow> HASH_STRING s)"

definition nickname_slot :: "string option \<Rightarrow> nat \<Rightarrow> nat" where
  "nickname_slot k n = COMPUTE_BUCKETVECTOR_INDEX_FROM_NAME_HASH (nickname_hash k) n"

interpretation names: chained_buckets ce_name name_slot
  by unfold_locales (simp add: name_slot_def name_index_bound)

interpretation nicknames: chained_buckets ce_nickname nickname_slot
  by unfold_locales (simp add: nickname_slot_def name_index_bound)

interpretation addresses: chained_buckets ce_addr COMPUTE_BUCKETVECTOR_INDEX_FROM_ADDRESS
  by unfold_locales (rule address_index_bound)

interpretation exports: chained_buckets link_address COMPUTE_BUCKETVECTOR_INDEX_FROM_ADDRESS
  by unfold_locales (rule address_index_bound)

lemma rehash_cong:
  assumes "\<And>i e. items i = Some e \<Longrightarrow> s e = s' e"
  shows "rehash items s old n = rehash items s' old n"
proof -
  have "rehash_chain items s new is = rehash_chain items s' new is" for new "is"
    using assms by (induction items s new "is" rule: rehash_chain.induct) (auto split: option.splits)
  then show ?thesis by (simp add: rehash_def)
qed

section \<open>The invariant of the function table\<close>

definition hashed :: "hashtable_entry \<Rightarrow> bool" where
  "hashed e \<longleftrightarrow> ce_hash_of_name e = HASH_STRING (ce_name e) \<and> ce_hash_of_nickname e = nickname_hash (ce_nickname e)"

definition cfun_table_ok :: "cfun_table \<Rightarrow> bool" where
  "cfun_table_ok t \<longleftrightarrow>
     (ct_slots t = 0 \<or> (\<exists>m \<le> 30. ct_slots t = 2 ^ m)) \<and> ct_count t \<le> ct_slots t \<and>
     length (ct_by_name t) = ct_slots t \<and> length (ct_by_nickname t) = ct_slots t \<and> length (ct_by_address t) = ct_slots t \<and>
     buckets_ok (ct_items t) ce_name name_slot (ct_by_name t) \<and>
     buckets_ok (ct_items t) ce_nickname nickname_slot (ct_by_nickname t) \<and>
     buckets_ok (ct_items t) ce_addr COMPUTE_BUCKETVECTOR_INDEX_FROM_ADDRESS (ct_by_address t) \<and>
     distinct (concat (ct_by_name t)) \<and> distinct (concat (ct_by_nickname t)) \<and> distinct (concat (ct_by_address t)) \<and>
     (\<forall>i e. ct_items t i = Some e \<longrightarrow> hashed e) \<and> (\<forall>i \<ge> ct_fresh t. ct_items t i = None) \<and>
     set (concat (ct_by_address t)) = set (concat (ct_by_name t)) \<and>
     (\<forall>i e. i \<in> set (concat (ct_by_nickname t)) \<longrightarrow> ct_items t i = Some e \<longrightarrow> ce_nickname e \<noteq> None)"

definition bindings :: "cfun_table \<Rightarrow> (string \<times> val) set" where
  "bindings t = {(ce_name e, ce_addr e) | i e. i \<in> set (concat (ct_by_name t)) \<and> ct_items t i = Some e}"

definition nick_bindings :: "cfun_table \<Rightarrow> (string \<times> val) set" where
  "nick_bindings t = {(s, ce_addr e) | i e s. i \<in> set (concat (ct_by_nickname t)) \<and> ct_items t i = Some e \<and> ce_nickname e = Some s}"

lemma in_bindings:
  "(n, a) \<in> bindings t \<longleftrightarrow>
    (\<exists>i \<in> set (concat (ct_by_name t)). \<exists>e. ct_items t i = Some e \<and> ce_name e = n \<and> ce_addr e = a)"
  unfolding bindings_def by blast

lemma in_nick_bindings:
  "(s, a) \<in> nick_bindings t \<longleftrightarrow>
    (\<exists>i \<in> set (concat (ct_by_nickname t)). \<exists>e. ct_items t i = Some e \<and> ce_nickname e = Some s \<and> ce_addr e = a)"
  unfolding nick_bindings_def by blast

lemma bindings_items:
  assumes "ct_by_name t' = ct_by_name t" and "\<And>i. i \<in> set (concat (ct_by_name t)) \<Longrightarrow> ct_items t' i = ct_items t i"
  shows "bindings t' = bindings t"
proof (intro set_eqI, clarify)
  fix n a
  show "(n, a) \<in> bindings t' \<longleftrightarrow> (n, a) \<in> bindings t"
    unfolding in_bindings assms(1) by (rule bex_cong [OF refl]) (simp only: assms(2))
qed

lemma nick_bindings_items:
  assumes "ct_by_nickname t' = ct_by_nickname t" and "\<And>i. i \<in> set (concat (ct_by_nickname t)) \<Longrightarrow> ct_items t' i = ct_items t i"
  shows "nick_bindings t' = nick_bindings t"
proof (intro set_eqI, clarify)
  fix n a
  show "(n, a) \<in> nick_bindings t' \<longleftrightarrow> (n, a) \<in> nick_bindings t"
    unfolding in_nick_bindings assms(1) by (rule bex_cong [OF refl]) (simp only: assms(2))
qed

lemma bindings_push:
  assumes "set (concat (ct_by_name t')) = insert i (set (concat (ct_by_name t)))" and "ct_items t' = ct_items t"
    and "ct_items t i = Some e"
  shows "bindings t' = insert (ce_name e, ce_addr e) (bindings t)"
proof (intro set_eqI, clarify)
  fix n a
  show "(n, a) \<in> bindings t' \<longleftrightarrow> (n, a) \<in> insert (ce_name e, ce_addr e) (bindings t)"
    unfolding insert_iff in_bindings assms(1,2) bex_simps using assms(3) by auto
qed

lemma nick_bindings_push:
  assumes "set (concat (ct_by_nickname t')) = insert i (set (concat (ct_by_nickname t)))" and "ct_items t' = ct_items t"
    and "ct_items t i = Some e" and "ce_nickname e = Some s"
  shows "nick_bindings t' = insert (s, ce_addr e) (nick_bindings t)"
proof (intro set_eqI, clarify)
  fix n a
  show "(n, a) \<in> nick_bindings t' \<longleftrightarrow> (n, a) \<in> insert (s, ce_addr e) (nick_bindings t)"
    unfolding insert_iff in_nick_bindings assms(1,2) bex_simps using assms(3,4) by auto
qed

lemma empty_cfun_table_ok: "cfun_table_ok empty_cfun_table" "bindings empty_cfun_table = {}" "nick_bindings empty_cfun_table = {}"
  by (simp_all add: cfun_table_ok_def empty_cfun_table_def buckets_ok_def bindings_def nick_bindings_def)

lemma grow_ok:
  assumes ok: "cfun_table_ok t" and full: "ct_count t = ct_slots t" "ct_count t < 2 ^ 30"
  shows "\<exists>t'. grow_cfun_table t k = Inr t' \<and> cfun_table_ok t' \<and> ct_count t' < ct_slots t' \<and> ct_count t' = ct_count t \<and>
    ct_items t' = ct_items t \<and> ct_fresh t' = ct_fresh t \<and> bindings t' = bindings t \<and>
    ct_slots t' = (if ct_slots t \<noteq> 0 then 2 * ct_slots t else 64) \<and>
    nick_bindings t' = (if k = None then {} else nick_bindings t) \<and> (k = None \<longrightarrow> concat (ct_by_nickname t') = [])"
proof -
  let ?n = "if ct_slots t \<noteq> 0 then 2 * ct_slots t else 64"
  obtain m where m: "?n = 2 ^ m" "m \<le> 30"
  proof (cases "ct_slots t = 0")
    case True
    then show thesis using that [of 6] by simp
  next
    case False
    then obtain j where j: "ct_slots t = 2 ^ j" "j \<le> 30" using ok by (auto simp: cfun_table_ok_def)
    then have "(2 :: nat) ^ j < 2 ^ 30" using full by simp
    then have "j < 30" by (simp only: power_strict_increasing_iff)
    then show thesis using that [of "Suc j"] j by simp
  qed
  have m31: "m \<le> 31" using m by simp
  have h: "ce_hash_of_name e = HASH_STRING (ce_name e)" "ce_hash_of_nickname e = nickname_hash (ce_nickname e)"
    if "ct_items t i = Some e" for i e using ok that by (simp_all add: cfun_table_ok_def hashed_def)
  obtain bn where bn: "rehash (ct_items t) (\<lambda>e. COMPUTE_BUCKETVECTOR_INDEX_FROM_NAME_HASH (ce_hash_of_name e) (2 ^ m)) (ct_by_name t) (2 ^ m) = Inr bn"
    "buckets_ok (ct_items t) ce_name name_slot bn" "length bn = 2 ^ m" "set (concat bn) = set (concat (ct_by_name t))" "distinct (concat bn)"
  proof -
    have "rehash (ct_items t) (\<lambda>e. COMPUTE_BUCKETVECTOR_INDEX_FROM_NAME_HASH (ce_hash_of_name e) (2 ^ m)) (ct_by_name t) (2 ^ m) =
        rehash (ct_items t) (\<lambda>e. name_slot (ce_name e) (2 ^ m)) (ct_by_name t) (2 ^ m)"
      by (rule rehash_cong) (simp add: name_slot_def h)
    then show thesis using names.rehash_ok [of "ct_items t" "ct_by_name t", OF _ m31] ok that by (auto simp: cfun_table_ok_def)
  qed
  obtain bk where bk: "(if k \<noteq> None then rehash (ct_items t) (\<lambda>e. COMPUTE_BUCKETVECTOR_INDEX_FROM_NAME_HASH (ce_hash_of_nickname e) (2 ^ m)) (ct_by_nickname t) (2 ^ m)
        else Inr (replicate (2 ^ m) [])) = Inr bk"
    "buckets_ok (ct_items t) ce_nickname nickname_slot bk" "length bk = 2 ^ m"
    "set (concat bk) = (if k = None then {} else set (concat (ct_by_nickname t)))" "distinct (concat bk)"
  proof (cases "k = None")
    case True
    then show thesis using that [of "replicate (2 ^ m) []"] by (simp add: buckets_ok_empty)
  next
    case False
    have "rehash (ct_items t) (\<lambda>e. COMPUTE_BUCKETVECTOR_INDEX_FROM_NAME_HASH (ce_hash_of_nickname e) (2 ^ m)) (ct_by_nickname t) (2 ^ m) =
        rehash (ct_items t) (\<lambda>e. nickname_slot (ce_nickname e) (2 ^ m)) (ct_by_nickname t) (2 ^ m)"
      by (rule rehash_cong) (simp add: nickname_slot_def h)
    then show thesis using nicknames.rehash_ok [of "ct_items t" "ct_by_nickname t", OF _ m31] ok that False by (auto simp: cfun_table_ok_def)
  qed
  obtain ba where ba: "rehash (ct_items t) (\<lambda>e. COMPUTE_BUCKETVECTOR_INDEX_FROM_ADDRESS (ce_addr e) (2 ^ m)) (ct_by_address t) (2 ^ m) = Inr ba"
    "buckets_ok (ct_items t) ce_addr COMPUTE_BUCKETVECTOR_INDEX_FROM_ADDRESS ba" "length ba = 2 ^ m"
    "set (concat ba) = set (concat (ct_by_address t))" "distinct (concat ba)"
    using addresses.rehash_ok [of "ct_items t" "ct_by_address t", OF _ m31] ok by (auto simp: cfun_table_ok_def)
  let ?t = "t\<lparr>ct_by_name := bn, ct_by_nickname := bk, ct_by_address := ba, ct_slots := 2 ^ m\<rparr>"
  have "grow_cfun_table t k = Inr ?t"
    unfolding grow_cfun_table_def Let_def m(1) using bn(1) bk(1) ba(1) by (simp only: seq_result_simps)
  moreover have lt: "ct_count t < 2 ^ m" using full(1) m(1) by (cases "ct_slots t = 0") auto
  moreover have "cfun_table_ok ?t"
    using ok bn bk ba m lt unfolding cfun_table_ok_def by (simp add: less_imp_le)
  moreover have "bindings ?t = bindings t" unfolding bindings_def using bn(4) by simp
  moreover have "nick_bindings ?t = (if k = None then {} else nick_bindings t)" unfolding nick_bindings_def using bk(4) by simp
  moreover have "k = None \<longrightarrow> concat bk = []" using bk(4) by (metis set_empty)
  ultimately show ?thesis by (intro exI [of _ ?t]) (simp only: cfun_table.simps m(1), simp)
qed

section \<open>Searching\<close>

lemma slots_pos:
  assumes "cfun_table_ok t" and "0 < ct_slots t"
  shows "\<exists>m \<le> 31. ct_slots t = 2 ^ m"
proof -
  obtain m where "m \<le> 30" "ct_slots t = 2 ^ m" using assms by (auto simp: cfun_table_ok_def)
  then show ?thesis by (intro exI [of _ m]) simp
qed

lemma hashed_nickname:
  "hashed e \<Longrightarrow> ce_hash_of_nickname e = HASH_STRING n \<and> ce_nickname e = Some n \<longleftrightarrow> ce_nickname e = Some n"
  by (auto simp: hashed_def nickname_hash_def)

lemma search_name:
  assumes ok: "cfun_table_ok t" and "0 < ct_slots t"
    and P: "\<And>e. hashed e \<Longrightarrow> P e \<longleftrightarrow> ce_name e = n"
  shows "\<exists>r. bucket_find (ct_items t) P (ct_by_name t)
      (COMPUTE_BUCKETVECTOR_INDEX_FROM_NAME_HASH (HASH_STRING n) (ct_slots t)) = Inr r \<and>
    (\<forall>i. r = Some i \<longleftrightarrow> holds (ct_items t) ce_name (ct_by_name t) n i)"
proof -
  obtain m where "m \<le> 31" "ct_slots t = 2 ^ m" using slots_pos assms(1,2) by blast
  moreover have "P e \<longleftrightarrow> ce_name e = n" if "ct_items t i = Some e" for i e
    using ok that P unfolding cfun_table_ok_def by blast
  ultimately show ?thesis
    using names.find_key [of "ct_items t" "ct_by_name t" m P n] ok by (simp add: cfun_table_ok_def name_slot_def)
qed

lemma search_nickname:
  assumes ok: "cfun_table_ok t" and "0 < ct_slots t"
    and P: "\<And>e. hashed e \<Longrightarrow> ce_nickname e \<noteq> None \<Longrightarrow> P e \<longleftrightarrow> ce_nickname e = Some s"
  shows "\<exists>r. bucket_find (ct_items t) P (ct_by_nickname t)
      (COMPUTE_BUCKETVECTOR_INDEX_FROM_NAME_HASH (HASH_STRING s) (ct_slots t)) = Inr r \<and>
    (\<forall>i. r = Some i \<longleftrightarrow> holds (ct_items t) ce_nickname (ct_by_nickname t) (Some s) i)"
proof -
  obtain m where "m \<le> 31" "ct_slots t = 2 ^ m" using slots_pos assms(1,2) by blast
  moreover have "P e \<longleftrightarrow> ce_nickname e = Some s" if "i \<in> set (concat (ct_by_nickname t))" "ct_items t i = Some e" for i e
    using ok that P unfolding cfun_table_ok_def by blast
  ultimately show ?thesis
    using nicknames.find_key [of "ct_items t" "ct_by_nickname t" m P "Some s"] ok
    by (simp add: cfun_table_ok_def nickname_slot_def nickname_hash_def)
qed

lemma search_address:
  assumes ok: "cfun_table_ok t" and "0 < ct_slots t"
  shows "\<exists>r. bucket_find (ct_items t) (\<lambda>e. ce_addr e = a) (ct_by_address t)
      (COMPUTE_BUCKETVECTOR_INDEX_FROM_ADDRESS a (ct_slots t)) = Inr r \<and>
    (\<forall>i. r = Some i \<longleftrightarrow> holds (ct_items t) ce_addr (ct_by_address t) a i)"
proof -
  obtain m where "m \<le> 31" "ct_slots t = 2 ^ m" using slots_pos assms by blast
  then show ?thesis
    using addresses.find_key [of "ct_items t" "ct_by_address t" m "\<lambda>e. ce_addr e = a" a] ok by (simp add: cfun_table_ok_def)
qed

lemma search_misses:
  assumes "\<exists>r. x = Inr r \<and> (\<forall>i. r = Some i \<longleftrightarrow> H i)" and "\<And>i. \<not> H i"
  shows "x = Inr None"
proof -
  obtain r where r: "x = Inr r" "\<forall>i. r = Some i \<longleftrightarrow> H i" using assms(1) by blast
  with assms(2) have "r = None" by (cases r) simp_all
  with r(1) show ?thesis by simp
qed

lemma bound_name: "(\<exists>i. holds (ct_items t) ce_name (ct_by_name t) n i) \<longleftrightarrow> (\<exists>a. (n, a) \<in> bindings t)"
  by (auto simp: holds_def bindings_def)

lemma bound_nickname:
  "(\<exists>i. holds (ct_items t) ce_nickname (ct_by_nickname t) (Some s) i) \<longleftrightarrow> (\<exists>a. (s, a) \<in> nick_bindings t)"
  by (auto simp: holds_def nick_bindings_def)

lemma bound_address:
  assumes "cfun_table_ok t"
  shows "(\<exists>i. holds (ct_items t) ce_addr (ct_by_address t) a i) \<longleftrightarrow> (\<exists>n. (n, a) \<in> bindings t)"
proof -
  have "set (concat (ct_by_address t)) = set (concat (ct_by_name t))" using assms unfolding cfun_table_ok_def by blast
  then show ?thesis unfolding holds_def bindings_def by auto
qed

lemma find_cfun_ok:
  assumes ok: "cfun_table_ok t" and pos: "0 < ct_slots t"
  shows "(n, a) \<in> bindings t \<Longrightarrow> find_cfun t n = Inr a"
    and "\<nexists>b. (n, b) \<in> bindings t \<Longrightarrow> (n, a) \<in> nick_bindings t \<Longrightarrow> find_cfun t n = Inr a"
    and "\<nexists>b. (n, b) \<in> bindings t \<Longrightarrow> \<nexists>b. (n, b) \<in> nick_bindings t \<Longrightarrow> find_cfun t n = Inr HEAP_VOID"
proof -
  obtain r where r: "bucket_find (ct_items t) (\<lambda>p. ce_hash_of_name p = HASH_STRING n \<and> ce_name p = n) (ct_by_name t)
      (COMPUTE_BUCKETVECTOR_INDEX_FROM_NAME_HASH (HASH_STRING n) (ct_slots t)) = Inr r"
    "\<And>i. r = Some i \<longleftrightarrow> holds (ct_items t) ce_name (ct_by_name t) n i"
    using search_name [OF ok pos, of "\<lambda>p. ce_hash_of_name p = HASH_STRING n \<and> ce_name p = n" n] by (auto simp: hashed_def)
  obtain k where k: "bucket_find (ct_items t) (\<lambda>p. ce_hash_of_nickname p = HASH_STRING n \<and> ce_nickname p = Some n) (ct_by_nickname t)
      (COMPUTE_BUCKETVECTOR_INDEX_FROM_NAME_HASH (HASH_STRING n) (ct_slots t)) = Inr k"
    "\<And>i. k = Some i \<longleftrightarrow> holds (ct_items t) ce_nickname (ct_by_nickname t) (Some n) i"
    using search_nickname [OF ok pos, of "\<lambda>p. ce_hash_of_nickname p = HASH_STRING n \<and> ce_nickname p = Some n" n]
      hashed_nickname by blast
  have none: "r = None" if "\<nexists>b. (n, b) \<in> bindings t"
    using that r(2) bound_name [of t n] by (cases r) auto
  show "find_cfun t n = Inr a" if b: "(n, a) \<in> bindings t"
  proof -
    obtain i e where i: "i \<in> set (concat (ct_by_name t))" "ct_items t i = Some e" "ce_name e = n" "ce_addr e = a"
      using b by (auto simp: bindings_def)
    then have "r = Some i" unfolding r(2) holds_def by blast
    with r(1) i show ?thesis by (simp add: find_cfun_def Let_def)
  qed
  show "find_cfun t n = Inr a" if nb: "\<nexists>b. (n, b) \<in> bindings t" and b: "(n, a) \<in> nick_bindings t"
  proof -
    obtain i e where i: "i \<in> set (concat (ct_by_nickname t))" "ct_items t i = Some e" "ce_nickname e = Some n" "ce_addr e = a"
      using b by (auto simp: nick_bindings_def)
    then have "k = Some i" unfolding k(2) holds_def by blast
    with r(1) none [OF nb] k(1) i show ?thesis by (simp add: find_cfun_def Let_def)
  qed
  show "find_cfun t n = Inr HEAP_VOID" if "\<nexists>b. (n, b) \<in> bindings t" "\<nexists>b. (n, b) \<in> nick_bindings t"
  proof -
    have "k = None" using that(2) k(2) bound_nickname [of t n] by (cases k) auto
    with r(1) none [OF that(1)] k(1) show ?thesis by (simp add: find_cfun_def Let_def)
  qed
qed

lemma name_of_cfun_ok:
  assumes ok: "cfun_table_ok t" and pos: "0 < ct_slots t"
  shows "(n, a) \<in> bindings t \<Longrightarrow> name_of_cfun t a = Inr (Some n)"
    and "\<nexists>n. (n, a) \<in> bindings t \<Longrightarrow> name_of_cfun t a = Inr None"
proof -
  obtain r where r: "bucket_find (ct_items t) (\<lambda>e. ce_addr e = a) (ct_by_address t)
      (COMPUTE_BUCKETVECTOR_INDEX_FROM_ADDRESS a (ct_slots t)) = Inr r"
    "\<And>i. r = Some i \<longleftrightarrow> holds (ct_items t) ce_addr (ct_by_address t) a i"
    using search_address [OF ok pos] by blast
  have same: "set (concat (ct_by_address t)) = set (concat (ct_by_name t))" using ok unfolding cfun_table_ok_def by blast
  show "name_of_cfun t a = Inr (Some n)" if b: "(n, a) \<in> bindings t"
  proof -
    obtain i e where i: "i \<in> set (concat (ct_by_name t))" "ct_items t i = Some e" "ce_name e = n" "ce_addr e = a"
      using b by (auto simp: bindings_def)
    then have "r = Some i" unfolding r(2) holds_def same by blast
    with r(1) i show ?thesis by (simp add: name_of_cfun_def)
  qed
  show "name_of_cfun t a = Inr None" if "\<nexists>n. (n, a) \<in> bindings t"
  proof -
    have "r = None" using that r(2) bound_address [OF ok, of a] by (cases r) auto
    with r(1) show ?thesis by (simp add: name_of_cfun_def)
  qed
qed

section \<open>Publishing\<close>

text \<open>Putting a fresh entry with unbound keys on its chains, once there is room.\<close>

lemma pushed_table_ok:
  assumes ok: "cfun_table_ok t" and room: "ct_count t < ct_slots t" and e: "ct_items t i = Some e"
    and len: "length bn = ct_slots t" "length bk = ct_slots t" "length ba = ct_slots t"
    and bo: "buckets_ok (ct_items t) ce_name name_slot bn" "buckets_ok (ct_items t) ce_nickname nickname_slot bk"
      "buckets_ok (ct_items t) ce_addr COMPUTE_BUCKETVECTOR_INDEX_FROM_ADDRESS ba"
    and d: "distinct (concat bn)" "distinct (concat bk)" "distinct (concat ba)"
    and s: "set (concat bn) = insert i (set (concat (ct_by_name t)))" "set (concat ba) = insert i (set (concat (ct_by_address t)))"
      "set (concat bk) = (if ce_nickname e = None then set (concat (ct_by_nickname t)) else insert i (set (concat (ct_by_nickname t))))"
  shows "cfun_table_ok (t\<lparr>ct_by_name := bn, ct_by_nickname := bk, ct_by_address := ba, ct_count := ct_count t + 1\<rparr>)"
proof -
  have same: "set (concat ba) = set (concat bn)" using ok s(1,2) unfolding cfun_table_ok_def by metis
  have nick: "ce_nickname f \<noteq> None" if "j \<in> set (concat bk)" "ct_items t j = Some f" for j f
    using ok that e unfolding cfun_table_ok_def s(3) by (metis insertE option.inject)
  show ?thesis
    using ok room len bo d same nick unfolding cfun_table_ok_def by (simp del: set_concat)
qed

lemma publish_name_ok:
  assumes ok: "cfun_table_ok t" and room: "ct_count t < ct_slots t" and e: "hashed e"
    and fresh: "\<nexists>b. (ce_name e, b) \<in> bindings t" "\<nexists>n. (n, ce_addr e) \<in> bindings t"
      "\<And>s. ce_nickname e = Some s \<Longrightarrow> \<nexists>b. (s, b) \<in> nick_bindings t"
  shows "\<exists>t'. publish_name (t\<lparr>ct_items := (ct_items t)(ct_fresh t \<mapsto> e), ct_fresh := ct_fresh t + 1\<rparr>) (ct_fresh t) e = Inr t' \<and>
    cfun_table_ok t' \<and> ct_count t' = ct_count t + 1 \<and> ct_slots t' = ct_slots t \<and>
    bindings t' = insert (ce_name e, ce_addr e) (bindings t) \<and>
    nick_bindings t' = (case ce_nickname e of None \<Rightarrow> nick_bindings t | Some s \<Rightarrow> insert (s, ce_addr e) (nick_bindings t))"
proof -
  let ?i = "ct_fresh t" and ?items = "(ct_items t)(ct_fresh t \<mapsto> e)"
  let ?t0 = "t\<lparr>ct_items := ?items, ct_fresh := ?i + 1\<rparr>"
  have pos: "0 < ct_slots t" using room by simp
  obtain m where m: "m \<le> 31" "ct_slots t = 2 ^ m" using slots_pos [OF ok pos] by blast
  have len: "length (ct_by_name t) = 2 ^ m" "length (ct_by_nickname t) = 2 ^ m" "length (ct_by_address t) = 2 ^ m"
    using ok m(2) by (simp_all add: cfun_table_ok_def)
  have dom: "\<exists>e. ct_items t i = Some e"
    if "i \<in> set (concat (ct_by_name t)) \<or> i \<in> set (concat (ct_by_nickname t)) \<or> i \<in> set (concat (ct_by_address t))" for i
    using that ok unfolding in_set_concat_nth cfun_table_ok_def buckets_ok_def by metis
  have none: "ct_items t ?i = None" using ok by (simp add: cfun_table_ok_def)
  have notin: "?i \<notin> set (concat (ct_by_name t))" "?i \<notin> set (concat (ct_by_nickname t))" "?i \<notin> set (concat (ct_by_address t))"
    using dom none by (metis option.distinct(1))+
  have ok0: "cfun_table_ok ?t0"
  proof -
    have "buckets_ok ?items ce_name name_slot (ct_by_name t)" "buckets_ok ?items ce_nickname nickname_slot (ct_by_nickname t)"
      "buckets_ok ?items ce_addr COMPUTE_BUCKETVECTOR_INDEX_FROM_ADDRESS (ct_by_address t)"
      using ok none by (auto simp: cfun_table_ok_def elim!: buckets_ok_items split: if_splits)
    then show ?thesis using ok e notin(2) unfolding cfun_table_ok_def by (auto split: if_splits)
  qed
  have b0: "bindings ?t0 = bindings t"
    using notin(1) by (intro bindings_items) (auto simp del: set_concat)
  have nb0: "nick_bindings ?t0 = nick_bindings t"
    using notin(2) by (intro nick_bindings_items) (auto simp del: set_concat)
  have pos0: "0 < ct_slots ?t0" using pos by simp
  let ?bn = "bucket_push (ct_by_name t) (name_slot (ce_name e) (2 ^ m)) ?i"
    and ?bk = "bucket_push (ct_by_nickname t) (nickname_slot (ce_nickname e) (2 ^ m)) ?i"
    and ?ba = "bucket_push (ct_by_address t) (COMPUTE_BUCKETVECTOR_INDEX_FROM_ADDRESS (ce_addr e) (2 ^ m)) ?i"
  let ?k = "if ce_nickname e = None then ct_by_nickname t else ?bk"
  let ?t' = "?t0\<lparr>ct_by_name := ?bn, ct_by_nickname := ?k, ct_by_address := ?ba, ct_count := ct_count t + 1\<rparr>"
  have he: "ce_hash_of_name e = HASH_STRING (ce_name e)" "ce_hash_of_nickname e = nickname_hash (ce_nickname e)"
    using e by (simp_all add: hashed_def)
  have no_name: "\<not> holds ?items ce_name (ct_by_name t) (ce_name e) j" for j
    using bound_name [of ?t0 "ce_name e"] b0 fresh(1) by simp
  have no_addr: "\<not> holds ?items ce_addr (ct_by_address t) (ce_addr e) j" for j
    using bound_address [OF ok0, of "ce_addr e"] b0 fresh(2) by simp
  have no_nick: "\<not> holds ?items ce_nickname (ct_by_nickname t) (Some s) j" if "ce_nickname e = Some s" for s j
    using bound_nickname [of ?t0 s] nb0 fresh(3) [OF that] by simp
  have f1: "bucket_find ?items (\<lambda>p. ce_hash_of_name p = HASH_STRING (ce_name e) \<and> ce_name e = ce_name p) (ct_by_name t)
      (COMPUTE_BUCKETVECTOR_INDEX_FROM_NAME_HASH (HASH_STRING (ce_name e)) (2 ^ m)) = Inr None"
  proof -
    have eq: "ce_hash_of_name p = HASH_STRING (ce_name e) \<and> ce_name e = ce_name p \<longleftrightarrow> ce_name p = ce_name e" if "hashed p" for p
      using that unfolding hashed_def by metis
    show ?thesis using search_misses [OF search_name [OF ok0 pos0 eq]] no_name m(2) by simp
  qed
  have f2: "bucket_find ?items (\<lambda>p. ce_hash_of_nickname p = nickname_hash (Some s) \<and> Some s = ce_nickname p) (ct_by_nickname t)
      (COMPUTE_BUCKETVECTOR_INDEX_FROM_NAME_HASH (nickname_hash (Some s)) (2 ^ m)) = Inr None" if s: "ce_nickname e = Some s" for s
  proof -
    have eq: "ce_hash_of_nickname p = nickname_hash (Some s) \<and> Some s = ce_nickname p \<longleftrightarrow> ce_nickname p = Some s"
      if "hashed p" "ce_nickname p \<noteq> None" for p
      using that unfolding hashed_def by metis
    show ?thesis using search_misses [OF search_nickname [OF ok0 pos0 eq]] no_nick [OF s] m(2)
      by (simp add: nickname_hash_def)
  qed
  have f3: "bucket_find ?items (\<lambda>p. ce_addr p = ce_addr e) (ct_by_address t)
      (COMPUTE_BUCKETVECTOR_INDEX_FROM_ADDRESS (ce_addr e) (2 ^ m)) = Inr None"
    using search_misses [OF search_address [OF ok0 pos0, of "ce_addr e"]] no_addr m(2) by simp
  have pub: "publish_name ?t0 ?i e = Inr ?t'"
  proof (cases "ce_nickname e")
    case None
    then show ?thesis
      using f1 f3 m(2) he by (simp add: publish_name_def publish_nickname_def publish_address_def name_slot_def Let_def)
  next
    case (Some s)
    then show ?thesis
      using f1 f2 [OF Some] f3 m(2) he
      by (simp add: publish_name_def publish_nickname_def publish_address_def name_slot_def nickname_slot_def Let_def)
  qed
  have sl: "name_slot (ce_name e) (2 ^ m) < length (ct_by_name t)" "nickname_slot (ce_nickname e) (2 ^ m) < length (ct_by_nickname t)"
    "COMPUTE_BUCKETVECTOR_INDEX_FROM_ADDRESS (ce_addr e) (2 ^ m) < length (ct_by_address t)"
    using names.slot_bound nicknames.slot_bound addresses.slot_bound m(1) len by simp_all
  note pushed = set_concat_push [OF sl(1), of ?i] set_concat_push [OF sl(2), of ?i] set_concat_push [OF sl(3), of ?i]
  note pushed' = pushed [folded bucket_push_def]
  have d: "distinct (concat ?bn)" "distinct (concat ?bk)" "distinct (concat ?ba)"
    using ok notin sl by (auto simp: cfun_table_ok_def bucket_push_def intro!: distinct_concat_push)
  have bo: "buckets_ok ?items ce_name name_slot ?bn" "buckets_ok ?items ce_addr COMPUTE_BUCKETVECTOR_INDEX_FROM_ADDRESS ?ba"
    using names.push_ok(1) [of ?items "ct_by_name t" ?i e] addresses.push_ok(1) [of ?items "ct_by_address t" ?i e]
      ok0 no_name no_addr sl len by (auto simp: cfun_table_ok_def)
  have bk: "buckets_ok ?items ce_nickname nickname_slot ?k"
    using nicknames.push_ok(1) [of ?items "ct_by_nickname t" ?i e] ok0 no_nick sl len by (auto simp: cfun_table_ok_def)
  have sk: "set (concat ?k) = (if ce_nickname e = None then set (concat (ct_by_nickname t)) else insert ?i (set (concat (ct_by_nickname t))))"
    using pushed'(2) by simp
  have "cfun_table_ok (?t0\<lparr>ct_by_name := ?bn, ct_by_nickname := ?k, ct_by_address := ?ba, ct_count := ct_count ?t0 + 1\<rparr>)"
  proof (rule pushed_table_ok [OF ok0])
    show "length ?bn = ct_slots ?t0" "length ?k = ct_slots ?t0" "length ?ba = ct_slots ?t0"
      using len m(2) by (simp_all add: bucket_push_def)
    show "buckets_ok (ct_items ?t0) ce_name name_slot ?bn"
      "buckets_ok (ct_items ?t0) ce_nickname nickname_slot ?k"
      "buckets_ok (ct_items ?t0) ce_addr COMPUTE_BUCKETVECTOR_INDEX_FROM_ADDRESS ?ba"
      using bo bk by simp_all
    show "distinct (concat ?bn)" "distinct (concat ?k)" "distinct (concat ?ba)"
      using d ok by (simp_all add: cfun_table_ok_def)
    show "set (concat ?bn) = insert ?i (set (concat (ct_by_name ?t0)))" "set (concat ?ba) = insert ?i (set (concat (ct_by_address ?t0)))"
      using pushed' by (simp_all del: set_concat)
    show "set (concat ?k) = (if ce_nickname e = None then set (concat (ct_by_nickname ?t0))
        else insert ?i (set (concat (ct_by_nickname ?t0))))"
      using sk by (simp del: set_concat)
  qed (use room in simp_all)
  then have "cfun_table_ok ?t'" by simp
  moreover have "bindings ?t' = insert (ce_name e, ce_addr e) (bindings t)"
    using bindings_push [of ?t' ?i ?t0 e] pushed'(1) b0 by simp
  moreover have "nick_bindings ?t' = (case ce_nickname e of None \<Rightarrow> nick_bindings t | Some s \<Rightarrow> insert (s, ce_addr e) (nick_bindings t))"
  proof (cases "ce_nickname e")
    case None
    then show ?thesis using nick_bindings_items [of ?t' ?t0] nb0 by simp
  next
    case (Some s)
    then show ?thesis using nick_bindings_push [of ?t' ?i ?t0 e s] sk nb0 by simp
  qed
  ultimately show ?thesis using pub by (intro exI [of _ ?t']) simp
qed

definition slots_for_one_more :: "cfun_table \<Rightarrow> nat" where
  "slots_for_one_more t =
     (if ct_count t \<noteq> ct_slots t then ct_slots t else if ct_slots t \<noteq> 0 then 2 * ct_slots t else 64)"

lemma make_room_ok:
  assumes ok: "cfun_table_ok t" and small: "ct_count t < 2 ^ 30"
  shows "\<exists>t'. (if ct_count t = ct_slots t then grow_cfun_table t k else Inr t) = Inr t' \<and> cfun_table_ok t' \<and>
    ct_count t' < ct_slots t' \<and> ct_count t' = ct_count t \<and> ct_slots t' = slots_for_one_more t \<and> bindings t' = bindings t \<and>
    nick_bindings t' = (if ct_count t = ct_slots t \<and> k = None then {} else nick_bindings t)"
proof (cases "ct_count t = ct_slots t")
  case True
  then show ?thesis using grow_ok [OF ok True small, of k] by (auto simp: slots_for_one_more_def)
next
  case False
  then have "ct_count t < ct_slots t" using ok by (simp add: cfun_table_ok_def)
  with False show ?thesis using ok by (simp add: slots_for_one_more_def)
qed

lemma publish_fresh:
  assumes ok: "cfun_table_ok t" and small: "ct_count t < 2 ^ 30"
    and fresh: "\<nexists>b. (n, b) \<in> bindings t" "\<nexists>n. (n, a) \<in> bindings t"
      "\<And>s. k = Some s \<Longrightarrow> \<nexists>b. (s, b) \<in> nick_bindings t"
  shows "\<exists>t'. publish_cfun2 t n k a = Inr t' \<and> cfun_table_ok t' \<and> ct_count t' = ct_count t + 1 \<and>
    ct_slots t' = slots_for_one_more t \<and> bindings t' = insert (n, a) (bindings t) \<and>
    nick_bindings t' = (case k of None \<Rightarrow> if ct_count t = ct_slots t then {} else nick_bindings t
                                | Some s \<Rightarrow> insert (s, a) (nick_bindings t))"
proof -
  let ?e = "\<lparr>ce_addr = a, ce_name = n, ce_nickname = k, ce_hash_of_name = HASH_STRING n,
    ce_hash_of_nickname = (case k of None \<Rightarrow> 0 | Some s \<Rightarrow> HASH_STRING s)\<rparr>"
  obtain r where r: "(if ct_count t = ct_slots t then grow_cfun_table t k else Inr t) = Inr r" "cfun_table_ok r"
    "ct_count r < ct_slots r" "ct_count r = ct_count t" "ct_slots r = slots_for_one_more t" "bindings r = bindings t"
    "nick_bindings r = (if ct_count t = ct_slots t \<and> k = None then {} else nick_bindings t)"
    using make_room_ok [OF ok small, of k] by blast
  have e: "hashed ?e" by (simp add: hashed_def nickname_hash_def)
  have "\<exists>t'. publish_name (r\<lparr>ct_items := (ct_items r)(ct_fresh r \<mapsto> ?e), ct_fresh := ct_fresh r + 1\<rparr>) (ct_fresh r) ?e = Inr t' \<and>
    cfun_table_ok t' \<and> ct_count t' = ct_count r + 1 \<and> ct_slots t' = ct_slots r \<and>
    bindings t' = insert (ce_name ?e, ce_addr ?e) (bindings r) \<and>
    nick_bindings t' = (case ce_nickname ?e of None \<Rightarrow> nick_bindings r | Some s \<Rightarrow> insert (s, ce_addr ?e) (nick_bindings r))"
    by (rule publish_name_ok [OF r(2,3) e]) (use fresh r(6,7) in auto)
  then show ?thesis
    unfolding publish_cfun2_def r(1) seq_result_simps Let_def using r(4-7) by (auto split: option.splits)
qed

end
