(* ===== verification/Cfun_Libraries.thy ===== *)
theory Cfun_Libraries
  imports Cfun_Facts
begin

text \<open>
  What the table of functions is filled with at startup: the contents of the runtime package
  (\<open>src/c/main/construct-runtime-package.c\<close>) and the C libraries Mythryl code may call
  (\<open>src/c/lib/mythryl-callable-c-libraries.c\<close>). The property that joins them: the table built at
  startup and the direct search of the library list give the same address for every published
  function.
\<close>

unbundle bit_operations_syntax

section \<open>The libraries\<close>

record Mythryl_Name_With_C_Function =
  cf_name :: string
  cf_nickname :: string
  cf_cfunc :: val

record Mythryl_Callable_C_Library =
  library_name :: string
  vector_of_mythryl_names_and_c_functions :: "Mythryl_Name_With_C_Function list"

text \<open>\<open>sprintf (name, "%s::%s", library, function)\<close>.\<close>

definition qualified_name :: "string \<Rightarrow> string \<Rightarrow> string" where
  "qualified_name lib f = lib @ ''::'' @ f"

fun publish_cfuns :: "cfun_table \<Rightarrow> string \<Rightarrow> Mythryl_Name_With_C_Function list \<Rightarrow> cfun_table result" where
  "publish_cfuns t lib [] = Inr t"
| "publish_cfuns t lib (f # fs) =
     seq_result (publish_cfun2 t (qualified_name lib (cf_name f)) (Some (qualified_name lib (cf_nickname f))) (cf_cfunc f))
       (\<lambda>t. publish_cfuns t lib fs)"

fun set_up_list_of_c_functions_callable_from_mythryl ::
  "cfun_table \<Rightarrow> Mythryl_Callable_C_Library list \<Rightarrow> cfun_table result" where
  "set_up_list_of_c_functions_callable_from_mythryl t [] = Inr t"
| "set_up_list_of_c_functions_callable_from_mythryl t (l # ls) =
     seq_result (publish_cfuns t (library_name l) (vector_of_mythryl_names_and_c_functions l))
       (\<lambda>t. set_up_list_of_c_functions_callable_from_mythryl t ls)"

fun find_in_cfuns :: "Mythryl_Name_With_C_Function list \<Rightarrow> string \<Rightarrow> val" where
  "find_in_cfuns [] function_name = HEAP_VOID"
| "find_in_cfuns (f # fs) function_name =
     (if cf_name f = function_name then cf_cfunc f
      else if cf_nickname f = function_name then cf_cfunc f
      else find_in_cfuns fs function_name)"

fun find_mythryl_callable_c_function :: "Mythryl_Callable_C_Library list \<Rightarrow> string \<Rightarrow> string \<Rightarrow> val" where
  "find_mythryl_callable_c_function [] lib function_name = HEAP_VOID"
| "find_mythryl_callable_c_function (l # ls) lib function_name =
     (if library_name l = lib then find_in_cfuns (vector_of_mythryl_names_and_c_functions l) function_name
      else find_mythryl_callable_c_function ls lib function_name)"

section \<open>The runtime package\<close>

text \<open>
  What \<open>publish_runtime_package_contents\<close> publishes on intel32, in order: the name, the C symbol
  it stands for and the words behind it. A closure starts one word behind the symbol of its two
  words; a global that is a macro stands for the address it expands to.
\<close>

definition runtime_package_contents :: "(string \<times> string \<times> nat) list" where
  "runtime_package_contents =
     [(''handle_uncaught_exception_closure'', ''handle_uncaught_exception_closure_v'', 1),
      (''return_to_c_level'', ''return_to_c_level_c'', 0),
      (''runtime::asm::make_polymorphic_rw_vector'', ''make_typeagnostic_rw_vector_v'', 1),
      (''runtime::asm::find_cfun'', ''find_cfun_v'', 1),
      (''runtime::asm::call_cfun'', ''call_cfun_v'', 1),
      (''runtime::asm::make_unt8_rw_vector'', ''make_unt8_rw_vector_v'', 1),
      (''runtime::asm::make_float64_rw_vector'', ''make_float64_rw_vector_v'', 1),
      (''runtime::asm::make_string'', ''make_string_v'', 1),
      (''runtime::asm::make_vector'', ''make_vector_v'', 1),
      (''runtime::asm::floor'', ''floor_v'', 1),
      (''runtime::asm::logb'', ''logb_v'', 1),
      (''runtime::asm::scalb'', ''scalb_v'', 1),
      (''runtime::asm::try_lock'', ''try_lock_v'', 1),
      (''runtime::asm::unlock'', ''unlock_v'', 1),
      (''runtime::divide_exception'', ''DIVIDE_EXCEPTION__GLOBAL'', 0),
      (''runtime::overflow_exception'', ''OVERFLOW_EXCEPTION__GLOBAL'', 0),
      (''runtime::runtime_exception'', ''RUNTIME_EXCEPTION__GLOBAL'', 0),
      (''runtime::machine_id'', ''machine_id.s'', 0),
      (''runtime::pervasive_package_pickle_list_refcell'', ''PERVASIVE_PACKAGE_PICKLE_LIST_REFCELL__GLOBAL'', 0),
      (''runtime::posix_interprocess_signal_handler_refcell'', ''POSIX_INTERPROCESS_SIGNAL_HANDLER_REFCELL__GLOBAL'', 0),
      (''runtime::zero_length_vector'', ''ZERO_LENGTH_VECTOR__GLOBAL'', 0),
      (''runtime::profiling_hook_refcell'', ''THIS_FN_PROFILING_HOOK_REFCELL__GLOBAL'', 0),
      (''runtime::software_generated_periodic_events_handler_refcell'', ''SOFTWARE_GENERATED_PERIODIC_EVENTS_HANDLER_REFCELL__GLOBAL'', 0),
      (''runtime::software_generated_periodic_events_switch_refcell'', ''SOFTWARE_GENERATED_PERIODIC_EVENTS_SWITCH_REFCELL__GLOBAL'', 0),
      (''runtime::software_generated_periodic_event_interval_refcell'', ''SOFTWARE_GENERATED_PERIODIC_EVENT_INTERVAL_REFCELL__GLOBAL'', 0),
      (''runtime::active_pthreads_count_refcell'', ''UNUSED_INT_REFCELL__GLOBAL'', 0),
      (''string0'', ''ZERO_LENGTH_STRING__GLOBAL'', 0)]"

text \<open>\<open>address_of\<close> is where the host's linker has put the symbols.\<close>

fun publish_contents :: "(string \<Rightarrow> val) \<Rightarrow> cfun_table \<Rightarrow> (string \<times> string \<times> nat) list \<Rightarrow> cfun_table result" where
  "publish_contents address_of t [] = Inr t"
| "publish_contents address_of t ((name, symbol, k) # cs) =
     seq_result (publish_cfun t name (address_of symbol + word_of_nat (4 * k))) (\<lambda>t. publish_contents address_of t cs)"

definition publish_runtime_package_contents :: "(string \<Rightarrow> val) \<Rightarrow> cfun_table \<Rightarrow> cfun_table result" where
  "publish_runtime_package_contents address_of t = publish_contents address_of t runtime_package_contents"

text \<open>The two calls of \<open>do_start_of_world_stuff\<close> that fill the table, which is empty before.\<close>

definition start_up_cfun_table :: "(string \<Rightarrow> val) \<Rightarrow> Mythryl_Callable_C_Library list \<Rightarrow> cfun_table result" where
  "start_up_cfun_table address_of ls =
     seq_result (publish_runtime_package_contents address_of empty_cfun_table) (\<lambda>t.
       set_up_list_of_c_functions_callable_from_mythryl t ls)"

section \<open>What registration publishes\<close>

text \<open>The calls of \<open>publish_cfun2\<close> in order.\<close>

fun publish_all :: "cfun_table \<Rightarrow> (string \<times> string option \<times> val) list \<Rightarrow> cfun_table result" where
  "publish_all t [] = Inr t"
| "publish_all t ((n, k, a) # ps) = seq_result (publish_cfun2 t n k a) (\<lambda>t. publish_all t ps)"

definition calls_of :: "Mythryl_Callable_C_Library \<Rightarrow> (string \<times> string option \<times> val) list" where
  "calls_of l = map (\<lambda>f. (qualified_name (library_name l) (cf_name f), Some (qualified_name (library_name l) (cf_nickname f)), cf_cfunc f))
     (vector_of_mythryl_names_and_c_functions l)"

definition all_calls :: "Mythryl_Callable_C_Library list \<Rightarrow> (string \<times> string option \<times> val) list" where
  "all_calls ls = concat (map calls_of ls)"

definition call_names :: "(string \<times> string option \<times> val) list \<Rightarrow> string list" where
  "call_names ps = map fst ps"

definition call_nicknames :: "(string \<times> string option \<times> val) list \<Rightarrow> string list" where
  "call_nicknames ps = List.map_filter (\<lambda>(n, k, a). k) ps"

definition call_addresses :: "(string \<times> string option \<times> val) list \<Rightarrow> val list" where
  "call_addresses ps = map (snd \<circ> snd) ps"

lemma publish_all_append:
  "publish_all t (ps @ qs) = seq_result (publish_all t ps) (\<lambda>t. publish_all t qs)"
  by (induction t ps rule: publish_all.induct) (auto simp: seq_result_def split: sum.splits)

lemma publish_cfuns_calls:
  "publish_cfuns t lib fs = publish_all t (map (\<lambda>f. (qualified_name lib (cf_name f), Some (qualified_name lib (cf_nickname f)), cf_cfunc f)) fs)"
  by (induction t lib fs rule: publish_cfuns.induct) (auto simp: seq_result_def split: sum.splits)

lemma registration_calls: "set_up_list_of_c_functions_callable_from_mythryl t ls = publish_all t (all_calls ls)"
proof (induction t ls rule: set_up_list_of_c_functions_callable_from_mythryl.induct)
  case (1 t)
  then show ?case by (simp add: all_calls_def)
next
  case (2 t l ls)
  have "publish_all t (all_calls (l # ls)) = seq_result (publish_all t (calls_of l)) (\<lambda>t. publish_all t (all_calls ls))"
    by (simp add: all_calls_def publish_all_append)
  moreover have "publish_cfuns t (library_name l) (vector_of_mythryl_names_and_c_functions l) = publish_all t (calls_of l)"
    by (simp add: publish_cfuns_calls calls_of_def)
  ultimately show ?case using 2 by (simp cong: seq_result_cong)
qed

definition runtime_calls :: "(string \<Rightarrow> val) \<Rightarrow> (string \<times> string option \<times> val) list" where
  "runtime_calls address_of =
     map (\<lambda>(name, symbol, k). (name, None, address_of symbol + word_of_nat (4 * k))) runtime_package_contents"

lemma publish_contents_calls:
  "publish_contents address_of t cs =
    publish_all t (map (\<lambda>(name, symbol, k). (name, None, address_of symbol + word_of_nat (4 * k))) cs)"
  by (induction address_of t cs rule: publish_contents.induct)
    (auto simp: publish_cfun_def seq_result_def split: sum.splits)

definition start_up_calls :: "(string \<Rightarrow> val) \<Rightarrow> Mythryl_Callable_C_Library list \<Rightarrow> (string \<times> string option \<times> val) list" where
  "start_up_calls address_of ls = runtime_calls address_of @ all_calls ls"

lemma start_up_calls_published: "start_up_cfun_table address_of ls = publish_all empty_cfun_table (start_up_calls address_of ls)"
  by (simp add: start_up_cfun_table_def publish_runtime_package_contents_def publish_contents_calls runtime_calls_def
      registration_calls start_up_calls_def publish_all_append)

text \<open>Plain names not bound so far are all published; without nicknames there are none to forget.\<close>

lemma publish_plain_ok:
  assumes "cfun_table_ok t" and "ct_count t + length ps \<le> 2 ^ 30" and "nick_bindings t = {}"
    and "distinct (call_names ps)" and "distinct (call_addresses ps)"
    and "\<And>n b. (n, b) \<in> bindings t \<Longrightarrow> n \<notin> set (call_names ps) \<and> b \<notin> set (call_addresses ps)"
    and "\<And>n k a. (n, k, a) \<in> set ps \<Longrightarrow> k = None"
  shows "\<exists>t'. publish_all t ps = Inr t' \<and> cfun_table_ok t' \<and> ct_count t' = ct_count t + length ps \<and>
    bindings t' = bindings t \<union> {(n, a) | n k a. (n, k, a) \<in> set ps} \<and> nick_bindings t' = {}"
  using assms
proof (induction ps arbitrary: t)
  case Nil
  then show ?case by simp
next
  case (Cons p ps)
  obtain n a where p: "p = (n, None, a)" using Cons.prems(7) [of "fst p" "fst (snd p)" "snd (snd p)"] by (cases p) auto
  have "\<exists>t'. publish_cfun2 t n None a = Inr t' \<and> cfun_table_ok t' \<and> ct_count t' = ct_count t + 1 \<and>
    ct_slots t' = slots_for_one_more t \<and> bindings t' = insert (n, a) (bindings t) \<and>
    nick_bindings t' = (case None of None \<Rightarrow> if ct_count t = ct_slots t then {} else nick_bindings t
                                | Some s \<Rightarrow> insert (s, a) (nick_bindings t))"
    using Cons.prems(2,6) unfolding p call_names_def call_addresses_def
    by (intro publish_fresh [OF Cons.prems(1)]) fastforce+
  then obtain t1 where t1: "publish_cfun2 t n None a = Inr t1" "cfun_table_ok t1" "ct_count t1 = ct_count t + 1"
    "bindings t1 = insert (n, a) (bindings t)" "nick_bindings t1 = {}" using Cons.prems(3) by auto
  have "\<exists>t'. publish_all t1 ps = Inr t' \<and> cfun_table_ok t' \<and> ct_count t' = ct_count t1 + length ps \<and>
    bindings t' = bindings t1 \<union> {(n, a) | n k a. (n, k, a) \<in> set ps} \<and> nick_bindings t' = {}"
  proof (rule Cons.IH [OF t1(2) _ t1(5)])
    show "ct_count t1 + length ps \<le> 2 ^ 30" using Cons.prems(2) t1(3) by simp
    show "distinct (call_names ps)" "distinct (call_addresses ps)"
      using Cons.prems(4,5) unfolding p by (simp_all add: call_names_def call_addresses_def)
    show "x \<notin> set (call_names ps) \<and> b \<notin> set (call_addresses ps)" if "(x, b) \<in> bindings t1" for x b
      using Cons.prems(4,5) Cons.prems(6) [of x b] that t1(4) unfolding p
      by (auto simp: call_names_def call_addresses_def)
  qed (use Cons.prems(7) in auto)
  then obtain t2 where "publish_all t1 ps = Inr t2" "cfun_table_ok t2" "ct_count t2 = ct_count t1 + length ps"
    "bindings t2 = bindings t1 \<union> {(n, a) | n k a. (n, k, a) \<in> set ps}" "nick_bindings t2 = {}" by blast
  then show ?case using t1(1,3,4) unfolding p by auto
qed

text \<open>Names, nicknames and addresses not bound so far, and pairwise different, are all published.\<close>

lemma publish_all_ok:
  assumes "cfun_table_ok t" and "ct_count t + length ps \<le> 2 ^ 30"
    and "distinct (call_names ps)" and "distinct (call_nicknames ps)" and "distinct (call_addresses ps)"
    and "\<And>n b. (n, b) \<in> bindings t \<Longrightarrow> n \<notin> set (call_names ps) \<and> b \<notin> set (call_addresses ps)"
    and "\<And>s b. (s, b) \<in> nick_bindings t \<Longrightarrow> s \<notin> set (call_nicknames ps)"
    and "\<And>n k a. (n, k, a) \<in> set ps \<Longrightarrow> k \<noteq> None"
  shows "\<exists>t'. publish_all t ps = Inr t' \<and> cfun_table_ok t' \<and> ct_count t' = ct_count t + length ps \<and>
    (ct_slots t \<in> {0, 64} \<and> ct_count t + length ps \<le> 64 \<longrightarrow> ct_slots t' \<in> {0, 64}) \<and>
    bindings t' = bindings t \<union> {(n, a) | n k a. (n, k, a) \<in> set ps} \<and>
    nick_bindings t' = nick_bindings t \<union> {(s, a) | n s a. (n, Some s, a) \<in> set ps}"
  using assms
proof (induction ps arbitrary: t)
  case Nil
  then show ?case by simp
next
  case (Cons p ps)
  obtain n s a where p: "p = (n, Some s, a)" using Cons.prems(8) [of "fst p" "fst (snd p)" "snd (snd p)"] by (cases p) auto
  have "\<exists>t'. publish_cfun2 t n (Some s) a = Inr t' \<and> cfun_table_ok t' \<and> ct_count t' = ct_count t + 1 \<and>
    ct_slots t' = slots_for_one_more t \<and> bindings t' = insert (n, a) (bindings t) \<and>
    nick_bindings t' = (case Some s of None \<Rightarrow> if ct_count t = ct_slots t then {} else nick_bindings t
                                | Some s \<Rightarrow> insert (s, a) (nick_bindings t))"
    using Cons.prems(2,6,7) unfolding p call_names_def call_nicknames_def call_addresses_def
    by (intro publish_fresh [OF Cons.prems(1)]) (fastforce simp: map_filter_simps)+
  then obtain t1 where t1: "publish_cfun2 t n (Some s) a = Inr t1" "cfun_table_ok t1" "ct_count t1 = ct_count t + 1"
    "ct_slots t1 = slots_for_one_more t" "bindings t1 = insert (n, a) (bindings t)" "nick_bindings t1 = insert (s, a) (nick_bindings t)" by auto
  have "\<exists>t'. publish_all t1 ps = Inr t' \<and> cfun_table_ok t' \<and> ct_count t' = ct_count t1 + length ps \<and>
    (ct_slots t1 \<in> {0, 64} \<and> ct_count t1 + length ps \<le> 64 \<longrightarrow> ct_slots t' \<in> {0, 64}) \<and>
    bindings t' = bindings t1 \<union> {(n, a) | n k a. (n, k, a) \<in> set ps} \<and>
    nick_bindings t' = nick_bindings t1 \<union> {(s, a) | n s a. (n, Some s, a) \<in> set ps}"
  proof (rule Cons.IH [OF t1(2)])
    show "ct_count t1 + length ps \<le> 2 ^ 30" using Cons.prems(2) t1(3) by simp
    show "distinct (call_names ps)" "distinct (call_nicknames ps)" "distinct (call_addresses ps)"
      using Cons.prems(3-5) unfolding p by (simp_all add: call_names_def call_nicknames_def call_addresses_def map_filter_simps)
    show "x \<notin> set (call_names ps) \<and> b \<notin> set (call_addresses ps)" if "(x, b) \<in> bindings t1" for x b
      using Cons.prems(3,5) Cons.prems(6) [of x b] that t1(5) unfolding p
      by (auto simp: call_names_def call_addresses_def)
    show "x \<notin> set (call_nicknames ps)" if "(x, b) \<in> nick_bindings t1" for x b
      using Cons.prems(4) Cons.prems(7) [of x b] that t1(6) unfolding p
      by (auto simp: call_nicknames_def map_filter_simps)
  qed (use Cons.prems(8) in auto)
  then obtain t2 where "publish_all t1 ps = Inr t2" "cfun_table_ok t2" "ct_count t2 = ct_count t1 + length ps"
    "ct_slots t1 \<in> {0, 64} \<and> ct_count t1 + length ps \<le> 64 \<longrightarrow> ct_slots t2 \<in> {0, 64}"
    "bindings t2 = bindings t1 \<union> {(n, a) | n k a. (n, k, a) \<in> set ps}"
    "nick_bindings t2 = nick_bindings t1 \<union> {(s, a) | n s a. (n, Some s, a) \<in> set ps}" by blast
  moreover have "ct_slots t \<in> {0, 64} \<and> ct_count t + length ((n, Some s, a) # ps) \<le> 64 \<longrightarrow>
      ct_slots t1 \<in> {0, 64} \<and> ct_count t1 + length ps \<le> 64"
    using t1(3,4) by (auto simp: slots_for_one_more_def)
  ultimately show ?case using t1 unfolding p by auto
qed

text \<open>
  The calls of one registration agree with each other: no name, nickname or address comes
  twice, and a nickname that is another function's name belongs to the same address.
\<close>

definition consistent :: "(string \<times> string option \<times> val) list \<Rightarrow> bool" where
  "consistent ps \<longleftrightarrow> distinct (call_names ps) \<and> distinct (call_nicknames ps) \<and> distinct (call_addresses ps) \<and>
     (\<forall>(n, k, a) \<in> set ps. \<forall>(n', k', a') \<in> set ps. k' = Some n \<longrightarrow> a = a')"

definition call_of :: "Mythryl_Callable_C_Library \<Rightarrow> Mythryl_Name_With_C_Function \<Rightarrow> string \<times> string option \<times> val" where
  "call_of l f = (qualified_name (library_name l) (cf_name f), Some (qualified_name (library_name l) (cf_nickname f)), cf_cfunc f)"

lemma qualified_name_inject [simp]: "qualified_name lib f = qualified_name lib g \<longleftrightarrow> f = g"
  by (simp add: qualified_name_def)

lemma call_in_all_calls:
  "l \<in> set ls \<Longrightarrow> f \<in> set (vector_of_mythryl_names_and_c_functions l) \<Longrightarrow> call_of l f \<in> set (all_calls ls)"
  by (auto simp: all_calls_def calls_of_def call_of_def)

lemma all_calls_nicknamed: "(n, k, a) \<in> set (all_calls ls) \<Longrightarrow> k \<noteq> None"
  by (auto simp: all_calls_def calls_of_def)

lemma consistent_names:
  assumes "consistent ps" and "(n, k, a) \<in> set ps" and "(n, k', a') \<in> set ps"
  shows "a = a'"
proof -
  have "inj_on fst (set ps)" using assms(1) by (simp add: consistent_def call_names_def distinct_map)
  then have "(n, k, a) = (n, k', a')" by (rule inj_onD) (use assms(2,3) in simp_all)
  then show ?thesis by simp
qed

lemma in_call_nicknames: "s \<in> set (call_nicknames ps) \<longleftrightarrow> (\<exists>n a. (n, Some s, a) \<in> set ps)"
  by (force simp: call_nicknames_def map_filter_def)

lemma consistent_nicknames:
  assumes "distinct (call_nicknames ps)" and "(n, Some s, a) \<in> set ps" and "(n', Some s, a') \<in> set ps"
  shows "a = a'"
  using assms
proof (induction ps)
  case Nil
  then show ?case by simp
next
  case (Cons p ps)
  obtain m k b where p: "p = (m, k, b)" by (cases p) auto
  have d: "distinct (call_nicknames ps)" "k = Some s \<Longrightarrow> s \<notin> set (call_nicknames ps)"
    using Cons.prems(1) unfolding p by (auto simp: call_nicknames_def map_filter_simps split: option.splits)
  show ?case
  proof (cases "k = Some s")
    case True
    then show ?thesis using Cons.prems(2,3) d(2) unfolding p in_call_nicknames by auto
  next
    case False
    then show ?thesis using Cons.IH [OF d(1)] Cons.prems(2,3) unfolding p by auto
  qed
qed

lemma consistent_crossed:
  assumes "consistent ps" and "(n, k, a) \<in> set ps" and "(n', Some n, a') \<in> set ps"
  shows "a = a'"
proof -
  have "\<forall>(n, k, a) \<in> set ps. \<forall>(n', k', a') \<in> set ps. k' = Some n \<longrightarrow> a = a'"
    using assms(1) unfolding consistent_def by (elim conjE)
  from bspec [OF bspec [OF this assms(2), unfolded case_prod_conv] assms(3)] show ?thesis by simp
qed

lemma find_in_cfuns_unique:
  assumes "f \<in> set fs" and "cf_name f = n \<or> cf_nickname f = n"
    and "\<And>g. g \<in> set fs \<Longrightarrow> cf_name g = n \<or> cf_nickname g = n \<Longrightarrow> cf_cfunc g = cf_cfunc f"
  shows "find_in_cfuns fs n = cf_cfunc f"
  using assms
proof (induction fs)
  case Nil
  then show ?case by simp
next
  case (Cons g fs)
  show ?case
  proof (cases "cf_name g = n \<or> cf_nickname g = n")
    case True
    then have "find_in_cfuns (g # fs) n = cf_cfunc g" by auto
    also have "\<dots> = cf_cfunc f" by (rule Cons.prems(3) [OF _ True]) simp
    finally show ?thesis .
  next
    case False
    then have "f \<in> set fs" using Cons.prems(1,2) by auto
    moreover have "cf_cfunc h = cf_cfunc f" if "h \<in> set fs" "cf_name h = n \<or> cf_nickname h = n" for h
      by (rule Cons.prems(3)) (use that in simp_all)
    ultimately have "find_in_cfuns fs n = cf_cfunc f" using Cons.prems(2) by (intro Cons.IH)
    with False show ?thesis by simp
  qed
qed

lemma find_library:
  assumes "distinct (map library_name ls)" and "l \<in> set ls"
  shows "find_mythryl_callable_c_function ls (library_name l) n = find_in_cfuns (vector_of_mythryl_names_and_c_functions l) n"
  using assms by (induction ls) auto

lemma call_nicknames_append: "call_nicknames (ps @ qs) = call_nicknames ps @ call_nicknames qs"
  by (simp add: call_nicknames_def map_filter_def)

lemma start_up_ok:
  fixes address_of :: "string \<Rightarrow> val" and ls :: "Mythryl_Callable_C_Library list"
  defines "ps \<equiv> start_up_calls address_of ls"
  assumes c: "consistent ps" and small: "length ps \<le> 2 ^ 30"
  shows "\<exists>t. start_up_cfun_table address_of ls = Inr t \<and> cfun_table_ok t \<and>
    ct_count t = length ps \<and> bindings t = {(n, a) | n k a. (n, k, a) \<in> set ps} \<and>
    nick_bindings t = {(s, a) | n s a. (n, Some s, a) \<in> set ps}"
proof -
  let ?r = "runtime_calls address_of" and ?l = "all_calls ls"
  have ps: "ps = ?r @ ?l" by (simp add: ps_def start_up_calls_def)
  have plain: "k = None" if "(n, k, a) \<in> set ?r" for n k a using that by (auto simp: runtime_calls_def)
  have d: "distinct (call_names ?r)" "distinct (call_addresses ?r)" "distinct (call_names ?l)" "distinct (call_addresses ?l)"
    "set (call_names ?r) \<inter> set (call_names ?l) = {}" "set (call_addresses ?r) \<inter> set (call_addresses ?l) = {}"
    using c unfolding consistent_def ps call_names_def call_addresses_def by simp_all
  have nick: "distinct (call_nicknames ?l)"
    using c unfolding consistent_def ps by (simp add: call_nicknames_append)
  obtain u where u: "publish_all empty_cfun_table ?r = Inr u" "cfun_table_ok u" "ct_count u = length ?r"
    "bindings u = {(n, a) | n k a. (n, k, a) \<in> set ?r}" "nick_bindings u = {}"
  proof -
    have "ct_count empty_cfun_table + length ?r \<le> 2 ^ 30" using small by (simp add: empty_cfun_table_def ps)
    then have "\<exists>u. publish_all empty_cfun_table ?r = Inr u \<and> cfun_table_ok u \<and> ct_count u = ct_count empty_cfun_table + length ?r \<and>
      bindings u = bindings empty_cfun_table \<union> {(n, a) | n k a. (n, k, a) \<in> set ?r} \<and> nick_bindings u = {}"
      by (rule publish_plain_ok [OF empty_cfun_table_ok(1) _ empty_cfun_table_ok(3) d(1,2)])
        (use plain in \<open>auto simp: empty_cfun_table_ok(2)\<close>)
    moreover have "ct_count empty_cfun_table = 0" by (simp add: empty_cfun_table_def)
    ultimately show thesis using that by (auto simp: empty_cfun_table_ok(2))
  qed
  have "\<exists>t. publish_all u ?l = Inr t \<and> cfun_table_ok t \<and> ct_count t = ct_count u + length ?l \<and>
    (ct_slots u \<in> {0, 64} \<and> ct_count u + length ?l \<le> 64 \<longrightarrow> ct_slots t \<in> {0, 64}) \<and>
    bindings t = bindings u \<union> {(n, a) | n k a. (n, k, a) \<in> set ?l} \<and>
    nick_bindings t = nick_bindings u \<union> {(s, a) | n s a. (n, Some s, a) \<in> set ?l}"
  proof (rule publish_all_ok [OF u(2) _ d(3) nick d(4)])
    show "ct_count u + length ?l \<le> 2 ^ 30" using small by (simp add: u(3) ps)
    show "n \<notin> set (call_names ?l) \<and> b \<notin> set (call_addresses ?l)" if "(n, b) \<in> bindings u" for n b
    proof -
      have "\<exists>k. (n, k, b) \<in> set ?r" using that unfolding u(4) by simp
      then obtain k where "(n, k, b) \<in> set ?r" by (rule exE)
      then have "n \<in> set (call_names ?r)" "b \<in> set (call_addresses ?r)" by (force simp: call_names_def call_addresses_def)+
      then show ?thesis using d(5,6) by blast
    qed
    show "k \<noteq> None" if "(n, k, a) \<in> set ?l" for n k a using that by (rule all_calls_nicknamed)
  qed (simp add: u(5))
  then obtain t where t: "publish_all u ?l = Inr t" "cfun_table_ok t" "ct_count t = ct_count u + length ?l"
    "bindings t = bindings u \<union> {(n, a) | n k a. (n, k, a) \<in> set ?l}"
    "nick_bindings t = nick_bindings u \<union> {(s, a) | n s a. (n, Some s, a) \<in> set ?l}" by blast
  have "start_up_cfun_table address_of ls = Inr t"
    unfolding start_up_calls_published start_up_calls_def publish_all_append u(1) using t(1) by simp
  moreover have "bindings t = {(n, a) | n k a. (n, k, a) \<in> set ps}" unfolding t(4) u(4) ps set_append by blast
  moreover have "nick_bindings t = {(s, a) | n s a. (n, Some s, a) \<in> set ps}"
    unfolding t(5) u(5) ps set_append using plain by blast
  moreover have "ct_count t = length ps" using t(3) u(3) by (simp add: ps)
  ultimately show ?thesis using t(2) by blast
qed

section \<open>Properties of registration\<close>

text \<open>
  C9. The table of functions as startup builds it, from the empty table: the contents of the
  runtime package are published first and the C libraries after them. If none of these calls
  clashes with another (no name, nickname or address twice, and a nickname that is another's name
  has the same address) startup succeeds, and the table by which heap images are patched agrees
  with the direct search of the library list: for every function of every library, its qualified
  name and its qualified nickname are found in the table with the function's address, the search
  of the libraries by library and function name gives the same address, and the table gives the
  name back for the address. Everything of the runtime package is found by its name as well, and
  its name by its address. The libraries have different names, and
  there are at most \<open>2 ^ 30\<close> calls.
\<close>

theorem registered_functions_are_found:
  assumes c: "consistent (start_up_calls address_of ls)" and small: "length (start_up_calls address_of ls) \<le> 2 ^ 30"
    and d: "distinct (map library_name ls)"
  shows "\<exists>t. start_up_cfun_table address_of ls = Inr t \<and>
    (\<forall>l \<in> set ls. \<forall>f \<in> set (vector_of_mythryl_names_and_c_functions l).
      find_cfun t (qualified_name (library_name l) (cf_name f)) = Inr (cf_cfunc f) \<and>
      find_cfun t (qualified_name (library_name l) (cf_nickname f)) = Inr (cf_cfunc f) \<and>
      name_of_cfun t (cf_cfunc f) = Inr (Some (qualified_name (library_name l) (cf_name f))) \<and>
      find_mythryl_callable_c_function ls (library_name l) (cf_name f) = cf_cfunc f \<and>
      find_mythryl_callable_c_function ls (library_name l) (cf_nickname f) = cf_cfunc f) \<and>
    (\<forall>(n, symbol, k) \<in> set runtime_package_contents.
      find_cfun t n = Inr (address_of symbol + word_of_nat (4 * k)) \<and>
      name_of_cfun t (address_of symbol + word_of_nat (4 * k)) = Inr (Some n))"
proof -
  let ?ps = "start_up_calls address_of ls"
  obtain t where t: "start_up_cfun_table address_of ls = Inr t" "cfun_table_ok t"
    "ct_count t = length ?ps" "bindings t = {(n, a) | n k a. (n, k, a) \<in> set ?ps}"
    "nick_bindings t = {(s, a) | n s a. (n, Some s, a) \<in> set ?ps}"
    using start_up_ok [OF c small] by blast
  have "0 < ct_count t" unfolding t(3) by (simp add: start_up_calls_def runtime_calls_def runtime_package_contents_def)
  then have pos: "0 < ct_slots t" using t(2) by (simp add: cfun_table_ok_def)
  have cross: "a = a'" if "(n, k, a) \<in> set ?ps" "(n', Some n, a') \<in> set ?ps" for n k a n' a'
    using consistent_crossed [OF c that] .
  have nick: "a = a'" if "(n, Some s, a) \<in> set ?ps" "(n', Some s, a') \<in> set ?ps" for n s a n' a'
    by (rule consistent_nicknames [OF _ that]) (use c in \<open>simp add: consistent_def\<close>)
  have lib: "find_cfun t (qualified_name (library_name l) (cf_name f)) = Inr (cf_cfunc f) \<and>
      find_cfun t (qualified_name (library_name l) (cf_nickname f)) = Inr (cf_cfunc f) \<and>
      name_of_cfun t (cf_cfunc f) = Inr (Some (qualified_name (library_name l) (cf_name f))) \<and>
      find_mythryl_callable_c_function ls (library_name l) (cf_name f) = cf_cfunc f \<and>
      find_mythryl_callable_c_function ls (library_name l) (cf_nickname f) = cf_cfunc f"
    if l: "l \<in> set ls" and f: "f \<in> set (vector_of_mythryl_names_and_c_functions l)" for l f
  proof -
    let ?q = "qualified_name (library_name l)"
    have call: "(?q (cf_name g), Some (?q (cf_nickname g)), cf_cfunc g) \<in> set ?ps"
      if "g \<in> set (vector_of_mythryl_names_and_c_functions l)" for g
      using call_in_all_calls [OF l that] by (simp add: call_of_def start_up_calls_def)
    note mem = call [OF f]
    have same: "cf_cfunc g = cf_cfunc f"
      if g: "g \<in> set (vector_of_mythryl_names_and_c_functions l)"
        and m: "cf_name g = x \<or> cf_nickname g = x" and x: "x = cf_name f \<or> x = cf_nickname f" for g x
      using m x call [OF g] mem consistent_names [OF c] cross nick by metis
    have b: "(?q (cf_name f), cf_cfunc f) \<in> bindings t" using mem unfolding t(4) by blast
    have nb: "(?q (cf_nickname f), cf_cfunc f) \<in> nick_bindings t" using mem unfolding t(5) by blast
    have "find_cfun t (?q (cf_nickname f)) = Inr (cf_cfunc f)"
    proof (cases "\<exists>b. (?q (cf_nickname f), b) \<in> bindings t")
      case True
      then obtain k b where k: "(?q (cf_nickname f), k, b) \<in> set ?ps" "(?q (cf_nickname f), b) \<in> bindings t" unfolding t(4) by blast
      then have "b = cf_cfunc f" using cross mem by blast
      then show ?thesis using find_cfun_ok(1) [OF t(2) pos k(2)] by simp
    next
      case False
      then show ?thesis by (intro find_cfun_ok(2) [OF t(2) pos _ nb])
    qed
    moreover have "find_in_cfuns (vector_of_mythryl_names_and_c_functions l) x = cf_cfunc f"
      if "x = cf_name f \<or> x = cf_nickname f" for x
      using find_in_cfuns_unique [OF f, of x] same that by blast
    ultimately show ?thesis
      using find_cfun_ok(1) [OF t(2) pos b] name_of_cfun_ok(1) [OF t(2) pos b] find_library [OF d l] by simp
  qed
  have "find_cfun t n = Inr (address_of symbol + word_of_nat (4 * k)) \<and>
      name_of_cfun t (address_of symbol + word_of_nat (4 * k)) = Inr (Some n)"
    if "(n, symbol, k) \<in> set runtime_package_contents" for n symbol k
  proof -
    have "(n, None, address_of symbol + word_of_nat (4 * k)) \<in> set ?ps"
      using that by (force simp: start_up_calls_def runtime_calls_def)
    then have "(n, address_of symbol + word_of_nat (4 * k)) \<in> bindings t" unfolding t(4) by blast
    then show ?thesis using find_cfun_ok(1) [OF t(2) pos] name_of_cfun_ok(1) [OF t(2) pos] by blast
  qed
  then show ?thesis using t(1) lib by (intro exI [of _ t]) auto
qed

definition example_libraries :: "Mythryl_Callable_C_Library list" where
  "example_libraries =
     [\<lparr>library_name = ''math'', vector_of_mythryl_names_and_c_functions =
        [\<lparr>cf_name = ''cos'', cf_nickname = ''cosine'', cf_cfunc = 0x8000\<rparr>,
         \<lparr>cf_name = ''sin'', cf_nickname = ''sin'', cf_cfunc = 0x8010\<rparr>]\<rparr>,
      \<lparr>library_name = ''time'', vector_of_mythryl_names_and_c_functions =
        [\<lparr>cf_name = ''sin'', cf_nickname = ''since'', cf_cfunc = 0x8020\<rparr>]\<rparr>]"

text \<open>Symbols laid out one after the other.\<close>

definition example_address_of :: "string \<Rightarrow> val" where
  "example_address_of s =
     (case map_of (zip (map (fst \<circ> snd) runtime_package_contents) [0 ..< length runtime_package_contents]) s of
        None \<Rightarrow> 0 | Some i \<Rightarrow> 0x4000 + 8 * word_of_nat i)"

theorem registered_functions_are_found_witness:
  "\<exists>t. start_up_cfun_table example_address_of example_libraries = Inr t \<and>
    find_cfun t ''time::since'' = Inr 0x8020 \<and>
    find_mythryl_callable_c_function example_libraries ''time'' ''since'' = 0x8020 \<and>
    find_cfun t ''string0'' = Inr (example_address_of ''ZERO_LENGTH_STRING__GLOBAL'')"
proof -
  let ?f = "\<lparr>cf_name = ''sin'', cf_nickname = ''since'', cf_cfunc = 0x8020\<rparr>"
  let ?l = "\<lparr>library_name = ''time'', vector_of_mythryl_names_and_c_functions = [?f]\<rparr>"
  have c: "consistent (start_up_calls example_address_of example_libraries)" by code_simp
  have len: "length (start_up_calls example_address_of example_libraries) \<le> 2 ^ 30"
    by (simp add: start_up_calls_def runtime_calls_def runtime_package_contents_def example_libraries_def all_calls_def calls_of_def)
  have d: "distinct (map library_name example_libraries)" by (simp add: example_libraries_def)
  obtain t where t: "start_up_cfun_table example_address_of example_libraries = Inr t"
    "\<forall>l \<in> set example_libraries. \<forall>f \<in> set (vector_of_mythryl_names_and_c_functions l).
      find_cfun t (qualified_name (library_name l) (cf_nickname f)) = Inr (cf_cfunc f) \<and>
      find_mythryl_callable_c_function example_libraries (library_name l) (cf_nickname f) = cf_cfunc f"
    "\<forall>(n, symbol, k) \<in> set runtime_package_contents. find_cfun t n = Inr (example_address_of symbol + word_of_nat (4 * k))"
    using registered_functions_are_found [OF c len d] by fast
  have "?l \<in> set example_libraries" "?f \<in> set (vector_of_mythryl_names_and_c_functions ?l)"
    by (simp_all add: example_libraries_def)
  from bspec [OF bspec [OF t(2) this(1)] this(2)] have "find_cfun t ''time::since'' = Inr 0x8020"
    "find_mythryl_callable_c_function example_libraries ''time'' ''since'' = 0x8020"
    by (simp_all add: qualified_name_def)
  moreover have "(''string0'', ''ZERO_LENGTH_STRING__GLOBAL'', 0) \<in> set runtime_package_contents"
    by (simp add: runtime_package_contents_def)
  from bspec [OF t(3) this] have "find_cfun t ''string0'' = Inr (example_address_of ''ZERO_LENGTH_STRING__GLOBAL'')" by simp
  ultimately show ?thesis using t(1) by blast
qed

end
