(* ===== verification/Cfun_Properties.thy ===== *)
theory Cfun_Properties
  imports Cfun_Libraries
begin

text \<open>
  What publishing does when a name, an address or a nickname is taken already, what growing the
  table loses, and the round trip of addresses through an export table.
\<close>

unbundle bit_operations_syntax

section \<open>Publishing a bound name\<close>

lemma cfun_table_items:
  assumes "cfun_table_ok t" and "i \<in> set (concat (ct_by_name t)) \<union> set (concat (ct_by_nickname t)) \<union> set (concat (ct_by_address t))"
  shows "\<exists>e. ct_items t i = Some e"
  using assms unfolding Un_iff in_set_concat_nth cfun_table_ok_def buckets_ok_def by metis

text \<open>An entry that was made and freed again without reaching a chain leaves the table as it was.\<close>

lemma discard_fresh_ok:
  assumes ok: "cfun_table_ok t"
  shows "cfun_table_ok (t\<lparr>ct_items := (ct_items t)(ct_fresh t := None), ct_fresh := ct_fresh t + 1\<rparr>)"
proof -
  have "ct_items t (ct_fresh t) = None" using ok by (simp add: cfun_table_ok_def)
  then have "(ct_items t)(ct_fresh t := None) = ct_items t" by auto
  then show ?thesis using ok unfolding cfun_table_ok_def by simp
qed

lemma publish_bound:
  assumes ok: "cfun_table_ok t" and small: "ct_count t < 2 ^ 30" and b: "(n, b) \<in> bindings t"
  shows "a \<noteq> b \<Longrightarrow> publish_cfun2 t n k a = Inl (Died ''global C symbol defined twice'')"
    and "a = b \<Longrightarrow> \<exists>t'. publish_cfun2 t n k a = Inr t' \<and> cfun_table_ok t' \<and> bindings t' = bindings t \<and>
      nick_bindings t' = (if ct_count t = ct_slots t \<and> k = None then {} else nick_bindings t)"
proof -
  let ?e = "\<lparr>ce_addr = a, ce_name = n, ce_nickname = k, ce_hash_of_name = HASH_STRING n,
    ce_hash_of_nickname = (case k of None \<Rightarrow> 0 | Some s \<Rightarrow> HASH_STRING s)\<rparr>"
  obtain r where r: "(if ct_count t = ct_slots t then grow_cfun_table t k else Inr t) = Inr r" "cfun_table_ok r"
    "ct_count r < ct_slots r" "bindings r = bindings t"
    "nick_bindings r = (if ct_count t = ct_slots t \<and> k = None then {} else nick_bindings t)"
    using make_room_ok [OF ok small, of k] by blast
  let ?i = "ct_fresh r"
  let ?r = "r\<lparr>ct_items := (ct_items r)(?i \<mapsto> ?e), ct_fresh := ?i + 1\<rparr>"
  have pos: "0 < ct_slots r" using r(3) by simp
  obtain j f where j: "j \<in> set (concat (ct_by_name r))" "ct_items r j = Some f" "ce_name f = n" "ce_addr f = b"
    using b unfolding r(4) [symmetric] in_bindings by blast
  have none: "ct_items r ?i = None" using r(2) by (simp add: cfun_table_ok_def)
  have away: "m \<noteq> ?i" if "m \<in> set (concat (ct_by_name r))" for m
    using cfun_table_items [OF r(2), of m] that none by auto
  have eq: "ce_hash_of_name p = HASH_STRING n \<and> n = ce_name p \<longleftrightarrow> ce_name p = n" if "hashed p" for p
    using that unfolding hashed_def by metis
  obtain x where x: "bucket_find (ct_items r) (\<lambda>p. ce_hash_of_name p = HASH_STRING n \<and> n = ce_name p) (ct_by_name r)
      (COMPUTE_BUCKETVECTOR_INDEX_FROM_NAME_HASH (HASH_STRING n) (ct_slots r)) = Inr x"
    "\<And>i. x = Some i \<longleftrightarrow> holds (ct_items r) ce_name (ct_by_name r) n i"
    using search_name [OF r(2) pos eq] by blast
  have "x = Some j" unfolding x(2) holds_def using j by blast
  moreover have "bucket_find (ct_items ?r) P (ct_by_name r) h = bucket_find (ct_items r) P (ct_by_name r) h" for P h
    by (rule bucket_find_items) (use away in auto)
  ultimately have found: "bucket_find ((ct_items r)(?i \<mapsto> ?e)) (\<lambda>p. ce_hash_of_name p = HASH_STRING n \<and> n = ce_name p)
      (ct_by_name r) (COMPUTE_BUCKETVECTOR_INDEX_FROM_NAME_HASH (HASH_STRING n) (ct_slots r)) = Inr (Some j)"
    using x(1) by simp
  have pub: "publish_cfun2 t n k a = (if b \<noteq> a then Inl (Died ''global C symbol defined twice'')
      else Inr (r\<lparr>ct_items := (ct_items r)(?i := None), ct_fresh := ?i + 1\<rparr>))"
    unfolding publish_cfun2_def r(1) seq_result_simps Let_def publish_name_def
    using found j away [OF j(1)] by (simp add: FREE_entry_def)
  show "publish_cfun2 t n k a = Inl (Died ''global C symbol defined twice'')" if "a \<noteq> b"
    using pub that by simp
  have same: "bindings (r\<lparr>ct_items := (ct_items r)(?i := None), ct_fresh := ?i + 1\<rparr>) = bindings t"
    unfolding r(4) [symmetric] by (rule bindings_items) (use away in auto)
  have nick: "nick_bindings (r\<lparr>ct_items := (ct_items r)(?i := None), ct_fresh := ?i + 1\<rparr>) = nick_bindings r"
    by (rule nick_bindings_items) (use cfun_table_items [OF r(2)] none in \<open>auto simp del: set_concat\<close>)
  show "\<exists>t'. publish_cfun2 t n k a = Inr t' \<and> cfun_table_ok t' \<and> bindings t' = bindings t \<and>
      nick_bindings t' = (if ct_count t = ct_slots t \<and> k = None then {} else nick_bindings t)" if "a = b"
    using pub that same nick r(5) discard_fresh_ok [OF r(2)] by simp
qed

text \<open>
  C27. Publishing a name that is bound already, in a well-formed table of fewer than \<open>2 ^ 30\<close> entries: with another address the runtime dies; with the
  same address the call returns, the table stays well formed, and the names stay bound as they
  were and no other way. So do the nicknames, except in the one case that the table is full
  and the call brings no nickname: room is made before the name is found to be bound, and all
  nicknames are forgotten then.
\<close>

theorem publishing_twice:
  assumes "cfun_table_ok t" and "ct_count t < 2 ^ 30" and "(n, b) \<in> bindings t"
  shows "case publish_cfun2 t n k a of
    Inl e \<Rightarrow> a \<noteq> b \<and> e = Died ''global C symbol defined twice''
  | Inr t' \<Rightarrow> a = b \<and> cfun_table_ok t' \<and> bindings t' = bindings t \<and>
      nick_bindings t' = (if ct_count t = ct_slots t \<and> k = None then {} else nick_bindings t)"
  using publish_bound [OF assms, of a k] by (cases "a = b") auto

definition one_function :: cfun_table where
  "one_function = (case publish_cfun empty_cfun_table ''cos'' 0x8000 of Inr t \<Rightarrow> t | Inl _ \<Rightarrow> empty_cfun_table)"

lemma one_function_ok: "cfun_table_ok one_function" "ct_count one_function = 1" "bindings one_function = {(''cos'', 0x8000)}"
proof -
  obtain t where "publish_cfun2 empty_cfun_table ''cos'' None 0x8000 = Inr t" "cfun_table_ok t" "ct_count t = 1"
    "bindings t = {(''cos'', 0x8000)}"
    using publish_fresh [OF empty_cfun_table_ok(1), of "''cos''" "0x8000" None]
    by (auto simp: empty_cfun_table_ok) (auto simp: empty_cfun_table_def)
  then show "cfun_table_ok one_function" "ct_count one_function = 1" "bindings one_function = {(''cos'', 0x8000)}"
    by (simp_all add: one_function_def publish_cfun_def)
qed

theorem publishing_twice_witness:
  "(case publish_cfun2 one_function ''cos'' None 0x8010 of
    Inl e \<Rightarrow> e = Died ''global C symbol defined twice''
  | Inr _ \<Rightarrow> False) \<and>
  (case publish_cfun2 one_function ''cos'' None 0x8000 of
    Inl _ \<Rightarrow> False
  | Inr t' \<Rightarrow> bindings t' = {(''cos'', 0x8000)})"
proof -
  have ok: "cfun_table_ok one_function" "ct_count one_function < 2 ^ 30" "(''cos'', 0x8000) \<in> bindings one_function"
    by (simp_all add: one_function_ok)
  show ?thesis
    using publishing_twice [OF ok, of "0x8010" None] publishing_twice [OF ok, of "0x8000" None]
    by (auto simp: one_function_ok(3) split: sum.splits)
qed

section \<open>What growing loses\<close>

text \<open>
  C38. A full table forgets every nickname when the next function is published without one: the
  loop that moves the chains to the longer vectors skips the nickname chains then, and the old
  vector is freed. A nickname that was found before is not found afterwards.
\<close>

theorem growing_for_a_plain_name_forgets_nicknames:
  assumes ok: "cfun_table_ok t" and full: "ct_count t = ct_slots t" "0 < ct_slots t" "ct_count t < 2 ^ 30"
    and s: "(s, b) \<in> nick_bindings t" "\<nexists>c. (s, c) \<in> bindings t"
    and new: "n \<noteq> s" "\<nexists>c. (n, c) \<in> bindings t" "\<nexists>m. (m, a) \<in> bindings t"
  shows "find_cfun t s = Inr b \<and> (\<exists>t'. publish_cfun t n a = Inr t' \<and> find_cfun t' s = Inr HEAP_VOID)"
proof
  show "find_cfun t s = Inr b" by (rule find_cfun_ok(2) [OF ok full(2) s(2,1)])
  obtain t' where t': "publish_cfun2 t n None a = Inr t'" "cfun_table_ok t'" "ct_count t' = ct_count t + 1"
    "bindings t' = insert (n, a) (bindings t)" "nick_bindings t' = {}"
    using publish_fresh [OF ok full(3) new(2,3), of None] full(1) by auto
  have "0 < ct_slots t'" using t'(2,3) by (auto simp: cfun_table_ok_def)
  moreover have "\<nexists>c. (s, c) \<in> bindings t'" using s(2) new(1) unfolding t'(4) by auto
  moreover have "\<nexists>c. (s, c) \<in> nick_bindings t'" unfolding t'(5) by simp
  ultimately have "find_cfun t' s = Inr HEAP_VOID" by (intro find_cfun_ok(3) [OF t'(2)])
  with t'(1) show "\<exists>t'. publish_cfun t n a = Inr t' \<and> find_cfun t' s = Inr HEAP_VOID" by (simp add: publish_cfun_def)
qed

definition sixty_four_calls :: "(string \<times> string option \<times> val) list" where
  "sixty_four_calls = map (\<lambda>i. (replicate i CHR ''x'', Some (replicate (i + 1) CHR ''y''), word_of_nat i)) [0 ..< 64]"

lemma sixty_four_calls_published:
  "\<exists>t. publish_all empty_cfun_table sixty_four_calls = Inr t \<and> cfun_table_ok t \<and> ct_count t = 64 \<and> ct_slots t = 64 \<and>
    bindings t = {(n, a) | n k a. (n, k, a) \<in> set sixty_four_calls} \<and>
    nick_bindings t = {(s, a) | n s a. (n, Some s, a) \<in> set sixty_four_calls}"
proof -
  have inj: "inj_on (\<lambda>i. word_of_nat i :: val) {0 ..< 64}" by (auto intro!: inj_onI simp: word_of_nat_eq_iff take_bit_nat_eq_self)
  have "\<exists>t. publish_all empty_cfun_table sixty_four_calls = Inr t \<and> cfun_table_ok t \<and>
    ct_count t = ct_count empty_cfun_table + length sixty_four_calls \<and>
    (ct_slots empty_cfun_table \<in> {0, 64} \<and> ct_count empty_cfun_table + length sixty_four_calls \<le> 64 \<longrightarrow> ct_slots t \<in> {0, 64}) \<and>
    bindings t = bindings empty_cfun_table \<union> {(n, a) | n k a. (n, k, a) \<in> set sixty_four_calls} \<and>
    nick_bindings t = nick_bindings empty_cfun_table \<union> {(s, a) | n s a. (n, Some s, a) \<in> set sixty_four_calls}"
  proof (rule publish_all_ok [OF empty_cfun_table_ok(1)])
    show "distinct (call_names sixty_four_calls)"
      by (simp add: call_names_def sixty_four_calls_def distinct_map inj_on_def)
    show "distinct (call_nicknames sixty_four_calls)"
      by (simp add: call_nicknames_def sixty_four_calls_def map_filter_def comp_def distinct_map inj_on_def)
    show "distinct (call_addresses sixty_four_calls)"
      using inj by (simp add: call_addresses_def sixty_four_calls_def comp_def distinct_map)
    show "ct_count empty_cfun_table + length sixty_four_calls \<le> 2 ^ 30"
      by (simp add: empty_cfun_table_def sixty_four_calls_def)
    show "k \<noteq> None" if "(n, k, a) \<in> set sixty_four_calls" for n k a using that by (auto simp: sixty_four_calls_def)
  qed (simp_all add: empty_cfun_table_ok)
  then obtain t where t: "publish_all empty_cfun_table sixty_four_calls = Inr t" "cfun_table_ok t" "ct_count t = 64"
    "ct_slots t \<in> {0, 64}" "bindings t = {(n, a) | n k a. (n, k, a) \<in> set sixty_four_calls}"
    "nick_bindings t = {(s, a) | n s a. (n, Some s, a) \<in> set sixty_four_calls}"
    by (auto simp: empty_cfun_table_ok) (auto simp: empty_cfun_table_def sixty_four_calls_def)
  moreover have "ct_count t \<le> ct_slots t" using t(2) by (simp add: cfun_table_ok_def)
  ultimately show ?thesis by auto
qed

theorem growing_for_a_plain_name_forgets_nicknames_witness:
  "\<exists>t. publish_all empty_cfun_table sixty_four_calls = Inr t \<and> find_cfun t ''y'' = Inr 0 \<and>
    (\<exists>t'. publish_cfun t ''z'' 0x8000 = Inr t' \<and> find_cfun t' ''y'' = Inr HEAP_VOID)"
proof -
  obtain t where t: "publish_all empty_cfun_table sixty_four_calls = Inr t" "cfun_table_ok t" "ct_count t = 64" "ct_slots t = 64"
    "bindings t = {(n, a) | n k a. (n, k, a) \<in> set sixty_four_calls}"
    "nick_bindings t = {(s, a) | n s a. (n, Some s, a) \<in> set sixty_four_calls}"
    using sixty_four_calls_published by blast
  have names: "set c = {CHR ''x''} \<or> c = []" if "(c, b) \<in> bindings t" for c b
    using that unfolding t(5) by (auto simp: sixty_four_calls_def)
  have "find_cfun t ''y'' = Inr 0 \<and> (\<exists>t'. publish_cfun t ''z'' 0x8000 = Inr t' \<and> find_cfun t' ''y'' = Inr HEAP_VOID)"
  proof (rule growing_for_a_plain_name_forgets_nicknames [OF t(2)])
    have "([], Some ''y'', 0) \<in> set sixty_four_calls" by (force simp: sixty_four_calls_def)
    then show "(''y'', 0) \<in> nick_bindings t" unfolding t(6) by blast
    show "\<nexists>c. (''y'', c) \<in> bindings t" "\<nexists>c. (''z'', c) \<in> bindings t" using names [of "''y''"] names [of "''z''"] by auto
    have "(0x8000 :: val) \<noteq> word_of_nat i" if "i < 64" for i
      using that unat_word_of_nat [of i, where ?'a = 32] by (auto dest!: arg_cong [of _ _ unat])
    then show "\<nexists>m. (m, 0x8000) \<in> bindings t" unfolding t(5) by (auto simp: sixty_four_calls_def)
  qed (simp_all add: t)
  with t(1) show ?thesis by blast
qed

section \<open>A freed entry on the name chain\<close>

text \<open>
  C40. When a new name is published with a nickname that is bound already to the same address,
  the call returns, but the new entry has been put on the name chain before the nickname was
  found, and is freed there: searching for the name just published reads freed memory, whatever
  well-formed table of fewer than \<open>2 ^ 30\<close> entries the call started from.
\<close>

theorem nickname_clash_leaves_freed_entry:
  assumes ok: "cfun_table_ok t" and small: "ct_count t < 2 ^ 30"
    and s: "(s, a) \<in> nick_bindings t" and new: "\<nexists>c. (n, c) \<in> bindings t"
  shows "\<exists>t'. publish_cfun2 t n (Some s) a = Inr t' \<and> find_cfun t' n = Inl Wild"
proof -
  let ?e = "\<lparr>ce_addr = a, ce_name = n, ce_nickname = Some s, ce_hash_of_name = HASH_STRING n,
    ce_hash_of_nickname = HASH_STRING s\<rparr>"
  obtain r where r: "(if ct_count t = ct_slots t then grow_cfun_table t (Some s) else Inr t) = Inr r" "cfun_table_ok r"
    "ct_count r < ct_slots r" "bindings r = bindings t" "nick_bindings r = nick_bindings t"
    using make_room_ok [OF ok small, of "Some s"] by auto
  let ?i = "ct_fresh r" and ?items = "(ct_items r)(ct_fresh r \<mapsto> ?e)"
  let ?h = "COMPUTE_BUCKETVECTOR_INDEX_FROM_NAME_HASH (HASH_STRING n) (ct_slots r)"
  let ?bn = "bucket_push (ct_by_name r) ?h ?i"
  have pos: "0 < ct_slots r" using r(3) by simp
  have none: "ct_items r ?i = None" using r(2) by (simp add: cfun_table_ok_def)
  have away: "m \<noteq> ?i" if "m \<in> set (concat (ct_by_name r)) \<union> set (concat (ct_by_nickname r))" for m
    using cfun_table_items [OF r(2), of m] that none by (auto simp del: set_concat)
  have same: "bucket_find ?items P (ct_by_name r) h = bucket_find (ct_items r) P (ct_by_name r) h"
    "bucket_find ?items P (ct_by_nickname r) h = bucket_find (ct_items r) P (ct_by_nickname r) h" for P h
    by (rule bucket_find_items; use away in \<open>auto simp del: set_concat\<close>)+
  have f1: "bucket_find ?items (\<lambda>p. ce_hash_of_name p = HASH_STRING n \<and> n = ce_name p) (ct_by_name r) ?h = Inr None"
  proof -
    have eq: "ce_hash_of_name p = HASH_STRING n \<and> n = ce_name p \<longleftrightarrow> ce_name p = n" if "hashed p" for p
      using that unfolding hashed_def by metis
    have "\<not> holds (ct_items r) ce_name (ct_by_name r) n j" for j using bound_name [of r n] new r(4) by simp
    then show ?thesis unfolding same using search_misses [OF search_name [OF r(2) pos eq]] by simp
  qed
  obtain j f where j: "j \<in> set (concat (ct_by_nickname r))" "ct_items r j = Some f" "ce_nickname f = Some s" "ce_addr f = a"
    using s unfolding r(5) [symmetric] in_nick_bindings by blast
  have f2: "bucket_find ?items (\<lambda>p. ce_hash_of_nickname p = HASH_STRING s \<and> Some s = ce_nickname p) (ct_by_nickname r)
      (COMPUTE_BUCKETVECTOR_INDEX_FROM_NAME_HASH (HASH_STRING s) (ct_slots r)) = Inr (Some j)"
  proof -
    have eq: "ce_hash_of_nickname p = HASH_STRING s \<and> Some s = ce_nickname p \<longleftrightarrow> ce_nickname p = Some s"
      if "hashed p" "ce_nickname p \<noteq> None" for p
      using that hashed_nickname [of p s] by metis
    obtain x where x: "bucket_find (ct_items r) (\<lambda>p. ce_hash_of_nickname p = HASH_STRING s \<and> Some s = ce_nickname p) (ct_by_nickname r)
        (COMPUTE_BUCKETVECTOR_INDEX_FROM_NAME_HASH (HASH_STRING s) (ct_slots r)) = Inr x"
      "\<And>i. x = Some i \<longleftrightarrow> holds (ct_items r) ce_nickname (ct_by_nickname r) (Some s) i"
      using search_nickname [OF r(2) pos eq] by blast
    have "x = Some j" unfolding x(2) holds_def using j by blast
    with x(1) show ?thesis unfolding same by simp
  qed
  have ij: "j \<noteq> ?i" using away j(1) by blast
  let ?t' = "r\<lparr>ct_items := (ct_items r)(?i := None), ct_fresh := ?i + 1, ct_by_name := ?bn\<rparr>"
  have "publish_cfun2 t n (Some s) a = Inr ?t'"
    unfolding publish_cfun2_def r(1) seq_result_simps Let_def publish_name_def
    using f1 f2 j(2,4) ij by (simp add: publish_nickname_def Let_def FREE_entry_def)
  moreover have "?h < length (ct_by_name r)"
  proof -
    obtain m where m: "m \<le> 31" "ct_slots r = 2 ^ m" using slots_pos [OF r(2) pos] by blast
    have "length (ct_by_name r) = ct_slots r" using r(2) by (simp add: cfun_table_ok_def)
    then show ?thesis using name_index_bound [OF m(1)] m(2) by simp
  qed
  then have "find_cfun ?t' n = Inl Wild"
    by (simp add: find_cfun_def Let_def bucket_find_def bucket_push_def)
  ultimately show ?thesis by blast
qed

theorem nickname_clash_leaves_freed_entry_witness:
  "\<exists>t t'. publish_cfun2 empty_cfun_table ''cos'' (Some ''c'') 0x8000 = Inr t \<and>
    publish_cfun2 t ''cosine'' (Some ''c'') 0x8000 = Inr t' \<and> find_cfun t' ''cosine'' = Inl Wild"
proof -
  obtain t where t: "publish_cfun2 empty_cfun_table ''cos'' (Some ''c'') 0x8000 = Inr t" "cfun_table_ok t" "ct_count t = 1"
    "bindings t = {(''cos'', 0x8000)}" "nick_bindings t = {(''c'', 0x8000)}"
    using publish_fresh [OF empty_cfun_table_ok(1), of "''cos''" "0x8000" "Some ''c''"]
    by (auto simp: empty_cfun_table_ok) (auto simp: empty_cfun_table_def)
  have "ct_count t < 2 ^ 30" "(''c'', 0x8000) \<in> nick_bindings t" "\<nexists>c. (''cosine'', c) \<in> bindings t"
    using t(3-5) by simp_all
  from nickname_clash_leaves_freed_entry [OF t(2) this] t(1) show ?thesis by blast
qed

section \<open>The hash of a name\<close>

text \<open>The remainder of C's division, with the sign of the dividend.\<close>

definition c_rem :: "int \<Rightarrow> int \<Rightarrow> int" where
  "c_rem a b = sgn a * (\<bar>a\<bar> mod \<bar>b\<bar>)"

lemma c_rem_bound: "b \<noteq> 0 \<Longrightarrow> \<bar>c_rem a b\<bar> < \<bar>b\<bar>"
  by (simp add: c_rem_def abs_mult abs_sgn_eq)

lemma minus_c_div: "0 < b \<Longrightarrow> a - b * c_div a b = c_rem a b"
proof -
  assume b: "0 < b"
  have "a - b * c_div a b = sgn a * \<bar>a\<bar> - sgn a * (b * (\<bar>a\<bar> div b))"
    using b by (simp add: c_div_def sgn_mult_abs)
  also have "\<dots> = sgn a * (\<bar>a\<bar> - b * (\<bar>a\<bar> div b))" by (simp only: right_diff_distrib)
  also have "\<dots> = c_rem a b" using b by (simp only: minus_mult_div_eq_mod c_rem_def abs_of_pos)
  finally show ?thesis .
qed

lemma char_value_bounds: "- 128 \<le> char_value c" "char_value c < 128"
proof -
  have "(of_char c :: int) < 256" "0 \<le> (of_char c :: int)" by (cases c; simp add: of_char_def horner_sum_simps)+
  then show "- 128 \<le> char_value c" "char_value c < 128" by (simp_all add: char_value_def Let_def)
qed

lemma hash_step:
  assumes "\<bar>h\<bar> < 8388593"
  shows "wrap_int (128 * h + char_value c) - 8388593 * c_div (wrap_int (128 * h + char_value c)) 8388593 =
      c_rem (128 * h + char_value c) 8388593"
    and "\<bar>c_rem (128 * h + char_value c) 8388593\<bar> < 8388593"
proof -
  have "wrap_int (128 * h + char_value c) = 128 * h + char_value c"
    using assms char_value_bounds [of c] by (intro wrap_int_id) simp_all
  then show "wrap_int (128 * h + char_value c) - 8388593 * c_div (wrap_int (128 * h + char_value c)) 8388593 =
      c_rem (128 * h + char_value c) 8388593" by (simp add: minus_c_div)
  show "\<bar>c_rem (128 * h + char_value c) 8388593\<bar> < 8388593"
    using c_rem_bound [of 8388593 "128 * h + char_value c"] by simp
qed

lemma hash_string_from_ref:
  "\<bar>h\<bar> < 8388593 \<Longrightarrow> hash_string_from h s = foldl (\<lambda>h c. c_rem (128 * h + char_value c) 8388593) h s \<and>
    \<bar>hash_string_from h s\<bar> < 8388593"
proof (induction s arbitrary: h)
  case Nil
  then show ?case by simp
next
  case (Cons c s)
  show ?case
    unfolding hash_string_from.simps Let_def foldl_Cons hash_step(1) [OF Cons.prems]
    by (rule Cons.IH [OF hash_step(2) [OF Cons.prems]])
qed

text \<open>
  The hash of a name never overflows an \<open>int\<close>: it is the value the same fold has over
  unbounded integers, and its absolute value stays below the prime 8388593, whatever bytes the
  name has.
\<close>

theorem hash_string_does_not_overflow:
  "HASH_STRING s = foldl (\<lambda>h c. c_rem (128 * h + char_value c) 8388593) 0 s \<and> \<bar>HASH_STRING s\<bar> < 8388593"
  unfolding HASH_STRING_def by (rule hash_string_from_ref) simp

end
