(* ===== verification/Cfun_Exports.thy ===== *)
theory Cfun_Exports
  imports Cfun_Properties
begin

text \<open>
  Export tables: the references of a heap image to C functions, numbered in the order they were
  met. Adding an address gives its number, new or old, and the numbers given out before keep
  their meaning.
\<close>

unbundle bit_operations_syntax

definition exports_ok :: "cfun_table \<Rightarrow> heapfile_cfun_table \<Rightarrow> bool" where
  "exports_ok t x \<longleftrightarrow>
     (ht_size_in_buckets x = 0 \<or> (\<exists>m \<le> 30. ht_size_in_buckets x = 2 ^ m)) \<and>
     ht_entries_count x \<le> ht_size_in_buckets x \<and> length (ht_bucket_vector x) = ht_size_in_buckets x \<and>
     buckets_ok (links_with_entries t x) link_address COMPUTE_BUCKETVECTOR_INDEX_FROM_ADDRESS (ht_bucket_vector x) \<and>
     distinct (concat (ht_bucket_vector x)) \<and> (\<forall>i \<ge> ht_fresh x. ht_links x i = None) \<and>
     length (ht_all_entries x) = ht_all_entries_size x \<and> ht_entries_count x \<le> ht_all_entries_size x \<and>
     (\<forall>j < ht_entries_count x. \<exists>e. ct_items t (ht_all_entries x ! j) = Some e) \<and>
     (\<forall>p \<in> set (concat (ht_bucket_vector x)). \<forall>l. ht_links x p = Some l \<longrightarrow>
        snd l < ht_entries_count x \<and> ht_all_entries x ! snd l = fst l)"

lemma make_heapfile_cfun_table_ok: "exports_ok t make_heapfile_cfun_table"
  by (simp add: exports_ok_def make_heapfile_cfun_table_def buckets_ok_def)

text \<open>The address an index stands for.\<close>

definition exported :: "cfun_table \<Rightarrow> heapfile_cfun_table \<Rightarrow> nat \<Rightarrow> val option" where
  "exported t x j = (if j < ht_entries_count x then map_option ce_addr (ct_items t (ht_all_entries x ! j)) else None)"

lemma get_cfun_address_ok:
  assumes ok: "exports_ok t x" and small: "ht_entries_count x \<le> 2 ^ 25" and j: "exported t x j = Some a"
  shows "get_cfun_address_from_heapfile_cfun_table t x (MAKE_EXTERN j) = Inr a"
proof -
  have lt: "j < ht_entries_count x" using j by (simp add: exported_def split: if_splits)
  then have "GET_LENGTH_IN_WORDS_FROM_TAGWORD (MAKE_EXTERN j) = j"
    using small by (simp add: MAKE_EXTERN_def EXTERNAL_REFERENCE_IN_EXPORTED_HEAP_IMAGE_BTAG_def)
  moreover have "j < length (ht_all_entries x)" using lt ok by (simp add: exports_ok_def)
  ultimately show ?thesis
    using lt j by (auto simp: get_cfun_address_from_heapfile_cfun_table_def exported_def)
qed

lemma double_export_table_ok:
  assumes ok: "exports_ok t x" and full: "ht_size_in_buckets x \<le> ht_entries_count x" and small: "ht_entries_count x < 2 ^ 25"
  shows "\<exists>vec n. double_size_of_heapfile_cfun_table t x = Inr (x\<lparr>ht_bucket_vector := vec, ht_size_in_buckets := n\<rparr>) \<and>
    exports_ok t (x\<lparr>ht_bucket_vector := vec, ht_size_in_buckets := n\<rparr>) \<and> ht_entries_count x < n"
proof -
  let ?n = "if ht_size_in_buckets x \<noteq> 0 then 2 * ht_size_in_buckets x else 32"
  have eq: "ht_size_in_buckets x = ht_entries_count x" using full ok by (simp add: exports_ok_def)
  obtain m where m: "?n = 2 ^ m" "m \<le> 30"
  proof (cases "ht_size_in_buckets x = 0")
    case True
    then show thesis using that [of 5] by simp
  next
    case False
    then obtain j where j: "ht_size_in_buckets x = 2 ^ j" "j \<le> 30" using ok by (auto simp: exports_ok_def)
    then have "(2 :: nat) ^ j < 2 ^ 25" using small eq by simp
    then have "j < 25" by (simp only: power_strict_increasing_iff)
    then show thesis using that [of "Suc j"] j by simp
  qed
  have m31: "m \<le> 31" using m(2) by simp
  have "buckets_ok (links_with_entries t x) link_address COMPUTE_BUCKETVECTOR_INDEX_FROM_ADDRESS (ht_bucket_vector x)"
    "distinct (concat (ht_bucket_vector x))" using ok by (simp_all add: exports_ok_def)
  from exports.rehash_ok [OF this(1) m31 this(2)] obtain vec where vec:
    "rehash (links_with_entries t x) (\<lambda>l. COMPUTE_BUCKETVECTOR_INDEX_FROM_ADDRESS (link_address l) (2 ^ m)) (ht_bucket_vector x) (2 ^ m) = Inr vec"
    "buckets_ok (links_with_entries t x) link_address COMPUTE_BUCKETVECTOR_INDEX_FROM_ADDRESS vec" "length vec = 2 ^ m"
    "set (concat vec) = set (concat (ht_bucket_vector x))" "distinct (concat vec)" by blast
  have lt: "ht_entries_count x < 2 ^ m" using m(1) eq by (cases "ht_size_in_buckets x = 0") auto
  have "double_size_of_heapfile_cfun_table t x = Inr (x\<lparr>ht_bucket_vector := vec, ht_size_in_buckets := 2 ^ m\<rparr>)"
    unfolding double_size_of_heapfile_cfun_table_def Let_def m(1) using vec(1) by simp
  moreover have "exports_ok t (x\<lparr>ht_bucket_vector := vec, ht_size_in_buckets := 2 ^ m\<rparr>)"
    using ok vec m(2) lt unfolding exports_ok_def by (simp add: links_with_entries_def [abs_def] del: set_concat)
  ultimately show ?thesis using lt by blast
qed

lemma append_entry_simps:
  assumes len: "length (ht_all_entries x) = ht_all_entries_size x" and le: "ht_entries_count x \<le> ht_all_entries_size x"
  shows "ht_entries_count (append_entry x q) = ht_entries_count x + 1"
    and "ht_links (append_entry x q) = ht_links x" and "ht_fresh (append_entry x q) = ht_fresh x"
    and "ht_bucket_vector (append_entry x q) = ht_bucket_vector x" and "ht_size_in_buckets (append_entry x q) = ht_size_in_buckets x"
    and "length (ht_all_entries (append_entry x q)) = ht_all_entries_size (append_entry x q)"
    and "ht_entries_count x < ht_all_entries_size (append_entry x q)"
    and "ht_all_entries (append_entry x q) ! ht_entries_count x = q"
    and "j < ht_entries_count x \<Longrightarrow> ht_all_entries (append_entry x q) ! j = ht_all_entries x ! j"
  using assms by (auto simp: append_entry_def Let_def nth_list_update nth_append)

lemma add_cfun_found:
  assumes ok: "exports_ok t x" and room: "ht_entries_count x < ht_size_in_buckets x" and small: "ht_entries_count x \<le> 2 ^ 25"
  shows "\<exists>r. bucket_find (links_with_entries t x) (\<lambda>l. link_address l = a) (ht_bucket_vector x)
      (COMPUTE_BUCKETVECTOR_INDEX_FROM_ADDRESS a (ht_size_in_buckets x)) = Inr r \<and>
    (\<forall>p. r = Some p \<longleftrightarrow> holds (links_with_entries t x) link_address (ht_bucket_vector x) a p)"
proof -
  have pos: "0 < ht_size_in_buckets x" using room by simp
  then obtain m where "m \<le> 30" "ht_size_in_buckets x = 2 ^ m" using ok by (auto simp: exports_ok_def)
  then show ?thesis
    using exports.find_key [of "links_with_entries t x" "ht_bucket_vector x" m "\<lambda>l. link_address l = a" a] ok
    by (simp add: exports_ok_def)
qed

text \<open>A link of an address not yet exported.\<close>

lemma add_link_ok:
  assumes ok: "exports_ok t x" and room: "ht_entries_count x < ht_size_in_buckets x"
    and q: "ct_items t q = Some e" "ce_addr e = a"
    and new: "\<And>p. \<not> holds (links_with_entries t x) link_address (ht_bucket_vector x) a p"
  defines "y \<equiv> append_entry x q" and "h \<equiv> COMPUTE_BUCKETVECTOR_INDEX_FROM_ADDRESS a (ht_size_in_buckets x)"
  shows "exports_ok t (y\<lparr>ht_links := (ht_links y)(ht_fresh y \<mapsto> (q, ht_entries_count x)), ht_fresh := ht_fresh y + 1,
      ht_bucket_vector := bucket_push (ht_bucket_vector y) h (ht_fresh y)\<rparr>)"
proof -
  have len: "length (ht_all_entries x) = ht_all_entries_size x" and le: "ht_entries_count x \<le> ht_all_entries_size x"
    using ok by (simp_all add: exports_ok_def)
  note y = append_entry_simps [OF len le, where q = q, folded y_def]
  let ?p = "ht_fresh x" and ?links = "(ht_links x)(ht_fresh x \<mapsto> (q, ht_entries_count x))"
  let ?live = "(links_with_entries t x)(ht_fresh x \<mapsto> ((q, ht_entries_count x), e))"
  have pos: "0 < ht_size_in_buckets x" using room by simp
  then obtain m where m: "m \<le> 30" "ht_size_in_buckets x = 2 ^ m" using ok by (auto simp: exports_ok_def)
  have vlen: "length (ht_bucket_vector x) = ht_size_in_buckets x" using ok by (simp add: exports_ok_def)
  have h: "h < length (ht_bucket_vector x)" unfolding h_def vlen m(2) using m(1) by (intro address_index_bound) simp
  have bok: "buckets_ok (links_with_entries t x) link_address COMPUTE_BUCKETVECTOR_INDEX_FROM_ADDRESS (ht_bucket_vector x)"
    using ok by (simp add: exports_ok_def)
  have none: "links_with_entries t x ?p = None" using ok by (simp add: exports_ok_def links_with_entries_def)
  have notin: "?p \<notin> set (concat (ht_bucket_vector x))"
    using bok none unfolding in_set_concat_nth buckets_ok_def by (metis option.distinct(1))
  have bok': "buckets_ok ?live link_address COMPUTE_BUCKETVECTOR_INDEX_FROM_ADDRESS (ht_bucket_vector x)"
    by (rule buckets_ok_items [OF bok]) (use notin in auto)
  have new': "\<not> holds ?live link_address (ht_bucket_vector x) (link_address ((q, ht_entries_count x), e)) p" for p
  proof -
    have "holds ?live link_address (ht_bucket_vector x) a p = holds (links_with_entries t x) link_address (ht_bucket_vector x) a p"
      by (rule holds_items) (use notin in auto)
    moreover have "link_address ((q, ht_entries_count x), e) = a" using q by (simp add: link_address_def)
    ultimately show ?thesis using new [of p] by simp
  qed
  have "buckets_ok ?live link_address COMPUTE_BUCKETVECTOR_INDEX_FROM_ADDRESS (bucket_push (ht_bucket_vector x) h ?p)"
    by (rule exports.push_ok(1) [OF bok' _ _ h new']) (use q h_def vlen in \<open>simp_all add: link_address_def\<close>)
  moreover have live: "links_with_entries t (z\<lparr>ht_links := ?links\<rparr>) = ?live" for z
    using q(1) by (auto simp: links_with_entries_def fun_eq_iff)
  moreover have "set (concat (bucket_push (ht_bucket_vector x) h ?p)) = insert ?p (set (concat (ht_bucket_vector x)))"
    unfolding bucket_push_def by (rule set_concat_push [OF h])
  moreover have "distinct (concat (bucket_push (ht_bucket_vector x) h ?p))"
    unfolding bucket_push_def by (rule distinct_concat_push [OF h _ notin]) (use ok in \<open>simp add: exports_ok_def\<close>)
  moreover have "snd l < ht_entries_count x + 1 \<and> ht_all_entries y ! snd l = fst l"
    if "p \<in> insert ?p (set (concat (ht_bucket_vector x)))" "?links p = Some l" for p l
  proof (cases "p = ?p")
    case True
    then show ?thesis using that(2) y(8) by auto
  next
    case False
    then have "p \<in> set (concat (ht_bucket_vector x))" "ht_links x p = Some l" using that by auto
    then have "snd l < ht_entries_count x \<and> ht_all_entries x ! snd l = fst l" using ok unfolding exports_ok_def by blast
    then show ?thesis using y(9) by simp
  qed
  moreover have "\<exists>e. ct_items t (ht_all_entries y ! j) = Some e" if "j < ht_entries_count x + 1" for j
    using that ok q(1) y(8,9) unfolding exports_ok_def by (cases "j = ht_entries_count x") auto
  ultimately show ?thesis
    using ok room m y unfolding exports_ok_def live [of y, symmetric]
    by (simp add: bucket_push_def links_with_entries_def [abs_def] del: set_concat)
qed

lemma add_link_exported:
  assumes ok: "exports_ok t x" and q: "ct_items t q = Some e" "ce_addr e = a"
  defines "y \<equiv> append_entry x q"
  shows "exported t (y\<lparr>ht_links := l, ht_fresh := f, ht_bucket_vector := v\<rparr>) j =
    (if j = ht_entries_count x then Some a else exported t x j)"
proof -
  have len: "length (ht_all_entries x) = ht_all_entries_size x" "ht_entries_count x \<le> ht_all_entries_size x"
    using ok by (simp_all add: exports_ok_def)
  note y = append_entry_simps [OF len, where q = q, folded y_def]
  show ?thesis using y(1,8) y(9) [of j] q by (simp add: exported_def)
qed

lemma make_room_for_export:
  assumes ok: "exports_ok t x" and small: "ht_entries_count x < 2 ^ 25"
  shows "\<exists>y. (if ht_entries_count x \<ge> ht_size_in_buckets x then double_size_of_heapfile_cfun_table t x else Inr x) = Inr y \<and>
    exports_ok t y \<and> ht_entries_count y < ht_size_in_buckets y \<and> ht_entries_count y = ht_entries_count x \<and>
    (\<forall>j. exported t y j = exported t x j)"
proof (cases "ht_entries_count x \<ge> ht_size_in_buckets x")
  case True
  obtain vec n where "double_size_of_heapfile_cfun_table t x = Inr (x\<lparr>ht_bucket_vector := vec, ht_size_in_buckets := n\<rparr>)"
    "exports_ok t (x\<lparr>ht_bucket_vector := vec, ht_size_in_buckets := n\<rparr>)" "ht_entries_count x < n"
    using double_export_table_ok [OF ok True small] by blast
  with True show ?thesis by (simp add: exported_def)
next
  case False
  with ok show ?thesis by simp
qed

text \<open>
  C22. Adding the address of a published function to an export table gives a coded index from
  which the address is read back, whether the address was exported before or not, and every
  index given out before still stands for the same address. The table stays well formed. An
  address that was never published is answered by \<open>HEAP_VOID\<close>, and no index changes.
\<close>

theorem exported_addresses_come_back:
  assumes t: "cfun_table_ok t" "0 < ct_slots t" and ok: "exports_ok t x" and small: "ht_entries_count x < 2 ^ 25"
    and old: "\<And>j c. exported t x j = Some c \<Longrightarrow> \<exists>n. (n, c) \<in> bindings t"
  shows "\<exists>x' r. add_cfun_to_heapfile_cfun_table t x a = Inr (x', r) \<and> exports_ok t x' \<and>
    (\<forall>j c. exported t x j = Some c \<longrightarrow> exported t x' j = Some c) \<and>
    (if \<exists>n. (n, a) \<in> bindings t then get_cfun_address_from_heapfile_cfun_table t x' r = Inr a
     else r = HEAP_VOID \<and> (\<forall>j. exported t x' j = exported t x j))"
proof -
  obtain y where y: "(if ht_entries_count x \<ge> ht_size_in_buckets x then double_size_of_heapfile_cfun_table t x else Inr x) = Inr y"
    "exports_ok t y" "ht_entries_count y < ht_size_in_buckets y" "ht_entries_count y = ht_entries_count x"
    "\<forall>j. exported t y j = exported t x j"
    using make_room_for_export [OF ok small] by blast
  have small': "ht_entries_count y \<le> 2 ^ 25" using y(4) small by simp
  let ?h = "COMPUTE_BUCKETVECTOR_INDEX_FROM_ADDRESS a (ht_size_in_buckets y)"
  obtain r where r: "bucket_find (links_with_entries t y) (\<lambda>l. link_address l = a) (ht_bucket_vector y) ?h = Inr r"
    "\<And>p. r = Some p \<longleftrightarrow> holds (links_with_entries t y) link_address (ht_bucket_vector y) a p"
    using add_cfun_found [OF y(2,3) small'] by blast
  obtain s where s: "bucket_find (ct_items t) (\<lambda>q. ce_addr q = a) (ct_by_address t)
      (COMPUTE_BUCKETVECTOR_INDEX_FROM_ADDRESS a (ct_slots t)) = Inr s"
    "\<And>i. s = Some i \<longleftrightarrow> holds (ct_items t) ce_addr (ct_by_address t) a i"
    using search_address [OF t] by blast
  have bound: "(\<exists>i. s = Some i) \<longleftrightarrow> (\<exists>n. (n, a) \<in> bindings t)"
    unfolding s(2) by (rule bound_address [OF t(1)])
  note add = add_cfun_to_heapfile_cfun_table_def [of t x a, unfolded y(1) seq_result_simps Let_def r(1)]
  show ?thesis
  proof (cases r)
    case (Some p)
    then have "holds (links_with_entries t y) link_address (ht_bucket_vector y) a p" using r(2) by blast
    then obtain l f where l: "ht_links y p = Some l" "ct_items t (fst l) = Some f" "ce_addr f = a" "p \<in> set (concat (ht_bucket_vector y))"
      unfolding holds_def links_with_entries_def link_address_def by (auto split: option.splits)
    then have "snd l < ht_entries_count y \<and> ht_all_entries y ! snd l = fst l" using y(2) unfolding exports_ok_def by blast
    then have e: "exported t y (snd l) = Some a" using l(2,3) by (simp add: exported_def)
    have "add_cfun_to_heapfile_cfun_table t x a = Inr (y, MAKE_EXTERN (snd l))" using add Some l(1) by simp
    moreover have "get_cfun_address_from_heapfile_cfun_table t y (MAKE_EXTERN (snd l)) = Inr a"
      by (rule get_cfun_address_ok [OF y(2) small' e])
    moreover have "\<exists>n. (n, a) \<in> bindings t" using old e y(5) by auto
    ultimately show ?thesis using y(2,5) by simp
  next
    case None
    then have new: "\<not> holds (links_with_entries t y) link_address (ht_bucket_vector y) a p" for p using r(2) [of p] by simp
    show ?thesis
    proof (cases s)
      case None
      then have "\<nexists>n. (n, a) \<in> bindings t" using bound by simp
      moreover have "add_cfun_to_heapfile_cfun_table t x a = Inr (y, HEAP_VOID)" using add \<open>r = None\<close> None s(1) by simp
      ultimately show ?thesis using y(2,5) by simp
    next
      case (Some q)
      then obtain e where e: "ct_items t q = Some e" "ce_addr e = a" using s(2) by (auto simp: holds_def)
      let ?y = "append_entry y q"
      let ?x' = "?y\<lparr>ht_links := (ht_links ?y)(ht_fresh ?y \<mapsto> (q, ht_entries_count y)), ht_fresh := ht_fresh ?y + 1,
        ht_bucket_vector := bucket_push (ht_bucket_vector ?y) ?h (ht_fresh ?y)\<rparr>"
      have "add_cfun_to_heapfile_cfun_table t x a = Inr (?x', MAKE_EXTERN (ht_entries_count y))"
        using add \<open>r = None\<close> Some s(1) by simp
      moreover have x': "exports_ok t ?x'" by (rule add_link_ok [OF y(2,3) e new])
      have ex: "exported t ?x' j = (if j = ht_entries_count y then Some a else exported t y j)" for j
        by (rule add_link_exported [OF y(2) e])
      have "ht_entries_count ?x' \<le> 2 ^ 25"
        using y(2,4) small by (simp add: append_entry_simps exports_ok_def)
      from get_cfun_address_ok [OF x' this, of "ht_entries_count y" a]
      have "get_cfun_address_from_heapfile_cfun_table t ?x' (MAKE_EXTERN (ht_entries_count y)) = Inr a" using ex by simp
      moreover have "exported t ?x' j = Some c" if "exported t x j = Some c" for j c
      proof -
        have "j < ht_entries_count y" using that y(4) by (simp add: exported_def split: if_splits)
        then show ?thesis using ex that y(5) by simp
      qed
      moreover have "\<exists>n. (n, a) \<in> bindings t" using bound Some by simp
      ultimately show ?thesis using x' by (intro exI conjI) (assumption | simp)+
    qed
  qed
qed

theorem exported_addresses_come_back_witness:
  "\<exists>x r. add_cfun_to_heapfile_cfun_table one_function make_heapfile_cfun_table 0x8000 = Inr (x, r) \<and>
    get_cfun_address_from_heapfile_cfun_table one_function x r = Inr 0x8000"
proof -
  have "0 < ct_slots one_function" using one_function_ok(1,2) by (auto simp: cfun_table_ok_def)
  then show ?thesis
    using exported_addresses_come_back [of one_function make_heapfile_cfun_table "0x8000"] one_function_ok
      make_heapfile_cfun_table_ok [of one_function]
    by (auto simp: exported_def make_heapfile_cfun_table_def)
qed

end
