(* ===== verification/Slot_Vectors.thy ===== *)
theory Slot_Vectors
  imports Prelude
begin

text \<open>
  The vectors that stand behind the small integers Mythryl code uses for mutexes, condition
  variables and barriers (\<open>src/c/hostthread/hostthread-on-posix-threads.c\<close>). The C file has the
  same code three times, for three types of record; here the operations are written once over
  the way a record is made, and \<open>Hostthread_Objects\<close> instantiates them. A slot holds NULL
  (\<open>None\<close>) or the name of a record in a store of live records; reading a record that was freed
  is \<open>Wild\<close>.
\<close>

section \<open>What the host answers\<close>

datatype errno = NO_ERROR | EAGAIN | EBUSY | EDEADLK | EINVAL | ENOMEM | EPERM | ESRCH
  | PTHREAD_BARRIER_SERIAL_THREAD | OTHER_ERROR

text \<open>
  The answers of the host a vector operation depends on: whether \<open>malloc\<close> of a record and
  \<open>realloc\<close> to a number of bytes succeed, and what initializing a record returns.
\<close>

record host =
  malloc_ok :: bool
  realloc_ok :: "nat \<Rightarrow> bool"
  init_result :: errno

section \<open>State and operations\<close>

record 'a slot_vector =
  sv_slots :: "nat option list"
  sv_last :: nat
  sv_cursor :: nat
  sv_records :: "nat \<rightharpoonup> 'a"
  sv_fresh :: nat

type_synonym 'a record_maker = "'a slot_vector \<Rightarrow> ('a slot_vector \<times> nat) result"

definition make_slot_vector :: "'a slot_vector" where
  "make_slot_vector = \<lparr>sv_slots = replicate 4096 None, sv_last = 4095, sv_cursor = 0, sv_records = Map.empty, sv_fresh = 0\<rparr>"

text \<open>A new record with the given contents; the name was never used before.\<close>

definition new_record :: "'a \<Rightarrow> 'a slot_vector \<Rightarrow> 'a slot_vector \<times> nat" where
  "new_record x v = (v\<lparr>sv_records := (sv_records v)(sv_fresh v \<mapsto> x), sv_fresh := sv_fresh v + 1\<rparr>, sv_fresh v)"

definition free_record :: "nat \<Rightarrow> 'a slot_vector \<Rightarrow> 'a slot_vector" where
  "free_record r v = v\<lparr>sv_records := (sv_records v)(r := None)\<rparr>"

text \<open>
  Slots are 4-byte pointers; the product in the call of \<open>realloc\<close> wraps, and the loop that
  clears the new half writes through the block it got.
\<close>

definition double_size_of_slot_vector :: "host \<Rightarrow> 'a slot_vector \<Rightarrow> 'a slot_vector result" where
  "double_size_of_slot_vector os v =
     (let new_size = 2 * (sv_last v + 1) mod 2 ^ 32;
          bytes = new_size * 4 mod 2 ^ 32
      in if \<not> realloc_ok os bytes then Inl (Died ''Unable to expand vector'')
         else if bytes div 4 < new_size then Inl Wild
         else Inr (v\<lparr>sv_slots := take new_size (sv_slots v) @ replicate (new_size - (sv_last v + 1)) None,
                      sv_last := (if new_size = 0 then 2 ^ 32 - 1 else new_size - 1)\<rparr>))"

text \<open>\<open>while (id > last) double ();\<close> The value \<open>None\<close> stands for a loop that does not end.\<close>

partial_function (option) grow_to :: "host \<Rightarrow> nat \<Rightarrow> 'a slot_vector \<Rightarrow> 'a slot_vector result option" where
  "grow_to os i v =
     (if i > sv_last v
      then (case double_size_of_slot_vector os v of
              Inl e \<Rightarrow> Some (Inl e)
            | Inr v \<Rightarrow> grow_to os i v)
      else Some (Inr v))"

definition find_by_id :: "host \<Rightarrow> 'a record_maker \<Rightarrow> nat \<Rightarrow> 'a slot_vector \<Rightarrow> ('a slot_vector \<times> nat) result option" where
  "find_by_id os mk i v =
     map_option (\<lambda>r. seq_result r (\<lambda>v.
       if length (sv_slots v) \<le> i then Inl Wild
       else case sv_slots v ! i of
         Some r \<Rightarrow> Inr (v, r)
       | None \<Rightarrow> seq_result (mk v) (\<lambda>(v, r). Inr (v\<lparr>sv_slots := (sv_slots v)[i := Some r]\<rparr>, r)))) (grow_to os i v)"

text \<open>One round of the clock hand; the first argument counts the steps left.\<close>

fun search_slots :: "nat \<Rightarrow> 'a record_maker \<Rightarrow> 'a slot_vector \<Rightarrow> ('a slot_vector \<times> nat option) result" where
  "search_slots 0 mk v = Inr (v, None)"
| "search_slots (Suc n) mk v =
     (let c = (sv_cursor v + 1) AND sv_last v;
          v = v\<lparr>sv_cursor := c\<rparr>
      in if length (sv_slots v) \<le> c then Inl Wild
         else case sv_slots v ! c of
           None \<Rightarrow> seq_result (mk v) (\<lambda>(v, r). Inr (v\<lparr>sv_slots := (sv_slots v)[c := Some r]\<rparr>, Some c))
         | Some _ \<Rightarrow> search_slots n mk v)"

partial_function (option) make_slot :: "host \<Rightarrow> 'a record_maker \<Rightarrow> 'a slot_vector \<Rightarrow> ('a slot_vector \<times> nat) result option" where
  "make_slot os mk v =
     (case search_slots (sv_last v + 1) mk v of
        Inl e \<Rightarrow> Some (Inl e)
      | Inr (v, Some c) \<Rightarrow> Some (Inr (v, c))
      | Inr (v, None) \<Rightarrow>
          (case double_size_of_slot_vector os v of
             Inl e \<Rightarrow> Some (Inl e)
           | Inr v \<Rightarrow> make_slot os mk v))"

definition clear_slot :: "nat \<Rightarrow> 'a slot_vector \<Rightarrow> 'a slot_vector" where
  "clear_slot i v = v\<lparr>sv_slots := (sv_slots v)[i := None]\<rparr>"

section \<open>What a vector stands for\<close>

text \<open>The abstract table: the record behind each small integer that has one.\<close>

definition slot_table :: "'a slot_vector \<Rightarrow> nat \<rightharpoonup> nat" where
  "slot_table v i = (if i < length (sv_slots v) then sv_slots v ! i else None)"

text \<open>
  Well-formed vectors: a power of two of slots (the cursor's mask), every occupied slot leads to
  a live record, and no two slots share one.
\<close>

definition slots_ok :: "'a slot_vector \<Rightarrow> bool" where
  "slots_ok v \<longleftrightarrow> (\<exists>m. 12 \<le> m \<and> m \<le> 30 \<and> sv_last v + 1 = 2 ^ m) \<and> length (sv_slots v) = sv_last v + 1 \<and>
     (\<forall>i r. slot_table v i = Some r \<longrightarrow> r < sv_fresh v \<and> sv_records v r \<noteq> None) \<and>
     (\<forall>i j r. slot_table v i = Some r \<longrightarrow> slot_table v j = Some r \<longrightarrow> i = j)"

lemma make_slot_vector_ok: "slots_ok make_slot_vector" "slot_table make_slot_vector = Map.empty"
proof -
  have t: "slot_table make_slot_vector i = None" for i by (simp add: slot_table_def make_slot_vector_def)
  then show "slot_table make_slot_vector = Map.empty" by auto
  have "\<exists>m. 12 \<le> m \<and> m \<le> 30 \<and> 4095 + 1 = (2 :: nat) ^ m" by (rule exI [of _ 12]) simp
  then show "slots_ok make_slot_vector" by (simp add: slots_ok_def t) (simp add: make_slot_vector_def)
qed

lemma double_size_records:
  "double_size_of_slot_vector os v = Inr w \<Longrightarrow> sv_records w = sv_records v \<and> sv_fresh w = sv_fresh v"
  by (auto simp: double_size_of_slot_vector_def Let_def split: if_splits)

lemma double_size_ok:
  assumes ok: "slots_ok v" and ram: "\<And>n. n \<noteq> 0 \<Longrightarrow> realloc_ok os n" and small: "sv_last v < 2 ^ 29 - 1"
  shows "\<exists>v'. double_size_of_slot_vector os v = Inr v' \<and> slots_ok v' \<and> slot_table v' = slot_table v \<and>
    sv_last v' = 2 * sv_last v + 1 \<and> sv_cursor v' = sv_cursor v \<and> sv_slots v' = sv_slots v @ replicate (sv_last v + 1) None"
proof -
  obtain m where m: "12 \<le> m" "m \<le> 30" "sv_last v + 1 = 2 ^ m" using ok by (auto simp: slots_ok_def)
  have len: "length (sv_slots v) = sv_last v + 1" using ok by (simp add: slots_ok_def)
  have "(2 :: nat) ^ m < 2 ^ 29" using small m(3) by linarith
  then have m29: "m < 29" by (simp only: power_strict_increasing_iff)
  let ?v = "v\<lparr>sv_slots := sv_slots v @ replicate (sv_last v + 1) None, sv_last := 2 * sv_last v + 1\<rparr>"
  have dbl: "double_size_of_slot_vector os v = Inr ?v"
    using ram small len by (simp add: double_size_of_slot_vector_def Let_def)
  have t: "slot_table ?v i = slot_table v i" for i
    using len by (auto simp: slot_table_def nth_append simp del: replicate_Suc)
  have "\<exists>k. 12 \<le> k \<and> k \<le> 30 \<and> sv_last ?v + 1 = 2 ^ k"
    using m m29 by (intro exI [of _ "Suc m"]) simp
  then have "slots_ok ?v" using ok unfolding slots_ok_def t by simp
  with dbl t show ?thesis by auto
qed

text \<open>Doubling reaches any index below \<open>2 ^ 29\<close> in at most that many rounds.\<close>

lemma grow_to_ok:
  assumes "slots_ok v" and ram: "\<And>n. n \<noteq> 0 \<Longrightarrow> realloc_ok os n" and i: "i < 2 ^ 29"
  shows "\<exists>v'. grow_to os i v = Some (Inr v') \<and> slots_ok v' \<and> slot_table v' = slot_table v \<and> i \<le> sv_last v' \<and>
    sv_last v \<le> sv_last v' \<and> sv_records v' = sv_records v \<and> sv_fresh v' = sv_fresh v"
  using assms(1)
proof (induction "i - sv_last v" arbitrary: v rule: less_induct)
  case less
  show ?case
  proof (cases "i > sv_last v")
    case False
    then have "grow_to os i v = Some (Inr v)" by (simp add: grow_to.simps)
    then show ?thesis using less.prems False by simp
  next
    case True
    then have small: "sv_last v < 2 ^ 29 - 1" using i by linarith
    obtain v' where v': "double_size_of_slot_vector os v = Inr v'" "slots_ok v'" "slot_table v' = slot_table v"
      "sv_last v' = 2 * sv_last v + 1"
      using double_size_ok [OF less.prems ram small] by blast
    have "i - sv_last v' < i - sv_last v" using True v'(4) by linarith
    from less.hyps [OF this v'(2)]
    obtain w where w: "grow_to os i v' = Some (Inr w)" "slots_ok w" "slot_table w = slot_table v'" "i \<le> sv_last w" "sv_last v' \<le> sv_last w"
      "sv_records w = sv_records v'" "sv_fresh w = sv_fresh v'" by blast
    have "grow_to os i v = Some (Inr w)" using True v'(1) w(1) by (simp add: grow_to.simps [of os i v])
    moreover have "sv_last v \<le> sv_last w" using w(5) v'(4) by linarith
    ultimately show ?thesis using w v'(3) double_size_records [OF v'(1)] by auto
  qed
qed

end
