(* ===== verification/Slot_Vector_Facts.thy ===== *)
theory Slot_Vector_Facts
  imports Slot_Vectors
begin

text \<open>
  The contract of a slot vector: making a slot hands out an integer that stood for nothing,
  finding one always answers and never changes what another integer stands for, freeing forgets
  one integer. The locale's parameter is the routine that makes a record; its law says what the
  routine does when the host has memory and initializes the record.
\<close>

unbundle bit_operations_syntax

definition willing :: "host \<Rightarrow> bool" where
  "willing os \<longleftrightarrow> malloc_ok os \<and> init_result os = NO_ERROR \<and> (\<forall>n. n \<noteq> 0 \<longrightarrow> realloc_ok os n)"

definition records_kept :: "'a slot_vector \<Rightarrow> 'a slot_vector \<Rightarrow> bool" where
  "records_kept v w \<longleftrightarrow> (\<forall>r < sv_fresh v. sv_records w r = sv_records v r) \<and> sv_fresh v \<le> sv_fresh w"

lemma records_kept_refl [simp]: "records_kept v v"
  by (simp add: records_kept_def)

lemma records_kept_trans: "records_kept u v \<Longrightarrow> records_kept v w \<Longrightarrow> records_kept u w"
  by (simp add: records_kept_def)

definition fill_slot :: "nat \<Rightarrow> 'a \<Rightarrow> 'a slot_vector \<Rightarrow> 'a slot_vector" where
  "fill_slot i x v = (fst (new_record x v))\<lparr>sv_slots := (sv_slots v)[i := Some (sv_fresh v)]\<rparr>"

lemma fill_slot_ok:
  assumes ok: "slots_ok v" and i: "i \<le> sv_last v" "slot_table v i = None"
  shows "slots_ok (fill_slot i x v)" and "slot_table (fill_slot i x v) = (slot_table v)(i \<mapsto> sv_fresh v)"
    and "sv_records (fill_slot i x v) (sv_fresh v) = Some x" and "records_kept v (fill_slot i x v)"
proof -
  have len: "length (sv_slots v) = sv_last v + 1" using ok by (simp add: slots_ok_def)
  show t: "slot_table (fill_slot i x v) = (slot_table v)(i \<mapsto> sv_fresh v)"
    using i(1) len by (auto simp: fill_slot_def new_record_def slot_table_def nth_list_update fun_eq_iff)
  have old: "r < sv_fresh v" "sv_records v r \<noteq> None" if "slot_table v j = Some r" for j r
    using ok that unfolding slots_ok_def by blast+
  show "slots_ok (fill_slot i x v)"
    unfolding slots_ok_def t
  proof (intro conjI allI impI)
    show "\<exists>m. 12 \<le> m \<and> m \<le> 30 \<and> sv_last (fill_slot i x v) + 1 = 2 ^ m"
      using ok by (simp add: slots_ok_def fill_slot_def new_record_def)
    show "length (sv_slots (fill_slot i x v)) = sv_last (fill_slot i x v) + 1"
      using len by (simp add: fill_slot_def new_record_def)
    fix j r
    assume j: "((slot_table v)(i \<mapsto> sv_fresh v)) j = Some r"
    then show "r < sv_fresh (fill_slot i x v)" "sv_records (fill_slot i x v) r \<noteq> None"
      using old [of j r] by (auto simp: fill_slot_def new_record_def split: if_splits)
    fix k
    assume "((slot_table v)(i \<mapsto> sv_fresh v)) k = Some r"
    with j show "j = k"
      using old [of j r] old [of k r] ok unfolding slots_ok_def by (auto split: if_splits)
  qed
  show "sv_records (fill_slot i x v) (sv_fresh v) = Some x" "records_kept v (fill_slot i x v)"
    by (simp_all add: fill_slot_def new_record_def records_kept_def)
qed

lemma next_cursor:
  assumes "slots_ok v"
  shows "(sv_cursor v + 1) AND sv_last v = (sv_cursor v + 1) mod (sv_last v + 1)"
proof -
  obtain m where "sv_last v + 1 = 2 ^ m" using assms by (auto simp: slots_ok_def)
  moreover then have "sv_last v = mask m" by (simp add: mask_eq_exp_minus_1)
  ultimately show ?thesis by (simp add: nat_and_mask)
qed

lemma slots_ok_cursor [simp]:
  "slots_ok (v\<lparr>sv_cursor := c\<rparr>) = slots_ok v" "slot_table (v\<lparr>sv_cursor := c\<rparr>) = slot_table v"
  "records_kept v (v\<lparr>sv_cursor := c\<rparr>)"
  by (simp_all add: slots_ok_def slot_table_def fun_eq_iff records_kept_def)

lemma clear_slot_ok:
  assumes "slots_ok v" and "i < length (sv_slots v)"
  shows "slots_ok (clear_slot i v)" and "slot_table (clear_slot i v) = (slot_table v)(i := None)"
proof -
  show t: "slot_table (clear_slot i v) = (slot_table v)(i := None)"
    using assms(2) by (auto simp: clear_slot_def slot_table_def nth_list_update fun_eq_iff)
  show "slots_ok (clear_slot i v)"
    using assms unfolding slots_ok_def t by (auto simp: clear_slot_def split: if_splits)
qed

lemma free_record_ok:
  assumes "slots_ok v" and "\<And>j. slot_table v j \<noteq> Some r"
  shows "slots_ok (free_record r v)" and "slot_table (free_record r v) = slot_table v"
proof -
  show t: "slot_table (free_record r v) = slot_table v"
    by (simp add: free_record_def slot_table_def fun_eq_iff)
  have "sv_records v r' \<noteq> None \<and> r' \<noteq> r" if "slot_table v j = Some r'" for j r'
    using assms that unfolding slots_ok_def by metis
  then show "slots_ok (free_record r v)"
    using assms(1) unfolding slots_ok_def t by (auto simp: free_record_def)
qed

locale record_maker =
  fixes mk :: "host \<Rightarrow> 'a record_maker" and init :: 'a
  assumes mk: "willing os \<Longrightarrow> mk os v = Inr (new_record init v)"
begin

lemma fill:
  "willing os \<Longrightarrow> seq_result (mk os v) (\<lambda>(v, r). Inr (v\<lparr>sv_slots := (sv_slots v)[i := Some r]\<rparr>, f r)) =
    Inr (fill_slot i init v, f (sv_fresh v))"
  by (simp add: mk new_record_def fill_slot_def)

lemma find_ok:
  assumes ok: "slots_ok v" and os: "willing os" and i: "i < 2 ^ 29"
  shows "\<exists>v' r. find_by_id os (mk os) i v = Some (Inr (v', r)) \<and> slots_ok v' \<and> slot_table v' = (slot_table v)(i \<mapsto> r) \<and>
    slot_table v i \<in> {None, Some r} \<and> (slot_table v i = None \<longrightarrow> r \<ge> sv_fresh v \<and> sv_records v' r = Some init)"
proof -
  have ram: "\<And>n. n \<noteq> 0 \<Longrightarrow> realloc_ok os n" using os by (simp add: willing_def)
  obtain w where w: "grow_to os i v = Some (Inr w)" "slots_ok w" "slot_table w = slot_table v" "i \<le> sv_last w" "sv_fresh w = sv_fresh v"
    using grow_to_ok [OF ok ram i] by blast
  have len: "i < length (sv_slots w)" using w(2,4) by (simp add: slots_ok_def)
  show ?thesis
  proof (cases "sv_slots w ! i")
    case (Some r)
    then have "slot_table v i = Some r" unfolding w(3) [symmetric] using len by (simp add: slot_table_def)
    moreover have "find_by_id os (mk os) i v = Some (Inr (w, r))"
      using w(1) len Some by (simp add: find_by_id_def)
    ultimately show ?thesis using w(2,3) by auto
  next
    case None
    then have none: "slot_table w i = None" by (simp add: slot_table_def)
    have "find_by_id os (mk os) i v = Some (Inr (fill_slot i init w, sv_fresh w))"
      using w(1) len None fill [OF os, of w i "\<lambda>r. r"] by (simp add: find_by_id_def)
    then show ?thesis
      using fill_slot_ok [OF w(2,4) none, of init] none w(3,5) by auto
  qed
qed

lemma search_ok:
  assumes ok: "slots_ok v" and os: "willing os"
  shows "(\<exists>v' c. search_slots n (mk os) v = Inr (v', Some c) \<and> slots_ok v' \<and> slot_table v c = None \<and>
      slot_table v' = (slot_table v)(c \<mapsto> sv_fresh v) \<and> sv_records v' (sv_fresh v) = Some init \<and> sv_cursor v' = c \<and>
      c \<le> sv_last v) \<or>
    (search_slots n (mk os) v = Inr (v\<lparr>sv_cursor := (if n = 0 then sv_cursor v else (sv_cursor v + n) mod (sv_last v + 1))\<rparr>, None) \<and>
      (\<forall>k. 1 \<le> k \<and> k \<le> n \<longrightarrow> slot_table v ((sv_cursor v + k) mod (sv_last v + 1)) \<noteq> None))"
  using ok
proof (induction n arbitrary: v)
  case 0
  then show ?case by simp
next
  case (Suc n)
  let ?c = "(sv_cursor v + 1) mod (sv_last v + 1)" and ?v = "v\<lparr>sv_cursor := (sv_cursor v + 1) mod (sv_last v + 1)\<rparr>"
  have len: "length (sv_slots v) = sv_last v + 1" using Suc.prems by (simp add: slots_ok_def)
  have c: "?c < length (sv_slots v)" unfolding len by simp
  have le: "?c \<le> sv_last v" using c len by linarith
  have ok: "slots_ok ?v" using Suc.prems by simp
  show ?case
  proof (cases "sv_slots v ! ?c")
    case None
    then have none: "slot_table ?v ?c = None" by (simp add: slot_table_def)
    have "search_slots (Suc n) (mk os) v = Inr (fill_slot ?c init ?v, Some ?c)"
      using None c next_cursor [OF Suc.prems] fill [OF os, of ?v ?c "\<lambda>_. Some ?c"] by (simp add: Let_def)
    moreover have "sv_cursor (fill_slot ?c init ?v) = ?c" by (simp add: fill_slot_def new_record_def)
    moreover have "?c \<le> sv_last ?v" using le by simp
    note filled = fill_slot_ok [OF ok this none, of init]
    have fr: "sv_fresh ?v = sv_fresh v" by simp
    moreover have "slot_table (fill_slot ?c init ?v) = (slot_table v)(?c \<mapsto> sv_fresh v)"
      using filled(2) unfolding fr slots_ok_cursor .
    moreover have "sv_records (fill_slot ?c init ?v) (sv_fresh v) = Some init"
      using filled(3) unfolding fr .
    moreover have "slot_table v ?c = None" using none by (simp only: slots_ok_cursor)
    ultimately show ?thesis using le filled(1) by blast
  next
    case (Some r)
    then have full: "slot_table v ?c \<noteq> None" using c by (simp add: slot_table_def)
    have step: "search_slots (Suc n) (mk os) v = search_slots n (mk os) ?v"
      using Some c next_cursor [OF Suc.prems] by (simp add: Let_def)
    have wrap: "(?c + k) mod (sv_last v + 1) = (sv_cursor v + Suc k) mod (sv_last v + 1)" for k
      by (simp add: mod_simps)
    have all: "slot_table v ((sv_cursor v + k) mod (sv_last v + 1)) \<noteq> None"
      if "\<forall>k. 1 \<le> k \<and> k \<le> n \<longrightarrow> slot_table v ((?c + k) mod (sv_last v + 1)) \<noteq> None" "1 \<le> k" "k \<le> Suc n" for k
    proof (cases k)
      case (Suc j)
      show ?thesis
      proof (cases "j = 0")
        case True
        with Suc full show ?thesis by simp
      next
        case False
        then have "slot_table v ((?c + j) mod (sv_last v + 1)) \<noteq> None" using that(1,3) Suc by simp
        then show ?thesis unfolding wrap Suc .
      qed
    qed (use that in simp)
    have cur: "(if n = 0 then sv_cursor ?v else (sv_cursor ?v + n) mod (sv_last ?v + 1)) = (sv_cursor v + Suc n) mod (sv_last v + 1)"
      using wrap [of n] by (cases "n = 0") simp_all
    show ?thesis
      using Suc.IH [OF ok, unfolded cur]
    proof (elim disjE)
      assume "\<exists>v' c. search_slots n (mk os) ?v = Inr (v', Some c) \<and> slots_ok v' \<and> slot_table ?v c = None \<and>
        slot_table v' = (slot_table ?v)(c \<mapsto> sv_fresh ?v) \<and> sv_records v' (sv_fresh ?v) = Some init \<and> sv_cursor v' = c \<and>
        c \<le> sv_last ?v"
      moreover have "sv_fresh ?v = sv_fresh v" "sv_last ?v = sv_last v" by simp_all
      ultimately show ?thesis unfolding step slots_ok_cursor by (intro disjI1) (simp only:)
    next
      assume "search_slots n (mk os) ?v = Inr (?v\<lparr>sv_cursor := (sv_cursor v + Suc n) mod (sv_last v + 1)\<rparr>, None) \<and>
        (\<forall>k. 1 \<le> k \<and> k \<le> n \<longrightarrow> slot_table ?v ((sv_cursor ?v + k) mod (sv_last ?v + 1)) \<noteq> None)"
      then show ?thesis unfolding step using all by (intro disjI2) simp
    qed
  qed
qed

text \<open>A full round misses only when every slot is taken.\<close>

lemma full_round:
  assumes "slots_ok v" and "\<forall>k. 1 \<le> k \<and> k \<le> sv_last v + 1 \<longrightarrow> slot_table v ((sv_cursor v + k) mod (sv_last v + 1)) \<noteq> None"
    and "i \<le> sv_last v"
  shows "slot_table v i \<noteq> None"
proof -
  let ?n = "sv_last v + 1"
  let ?k = "(i + ?n - sv_cursor v mod ?n - 1) mod ?n + 1"
  have c: "sv_cursor v mod ?n < ?n" by simp
  have "(x + (y mod n + 1)) mod n = (x mod n + (y + 1)) mod n" for x y n :: nat
    by (metis mod_add_eq mod_add_left_eq mod_add_right_eq)
  then have "(sv_cursor v + ?k) mod ?n = (sv_cursor v mod ?n + ((i + ?n - sv_cursor v mod ?n - 1) + 1)) mod ?n" .
  also have "sv_cursor v mod ?n + ((i + ?n - sv_cursor v mod ?n - 1) + 1) = i + ?n" using c by linarith
  also have "(i + ?n) mod ?n = i mod ?n" by (rule mod_add_self2)
  also have "\<dots> = i" using assms(3) by simp
  finally have "(sv_cursor v + ?k) mod ?n = i" .
  moreover have "?k \<le> ?n" by (simp add: Suc_leI)
  ultimately show ?thesis using assms(2) by (metis add.commute le_add1)
qed

lemma make_ok:
  assumes ok: "slots_ok v" and os: "willing os" and small: "sv_last v < 2 ^ 29 - 1"
  shows "\<exists>v' c. make_slot os (mk os) v = Some (Inr (v', c)) \<and> slots_ok v' \<and> slot_table v c = None \<and>
    slot_table v' = (slot_table v)(c \<mapsto> sv_fresh v) \<and> sv_records v' (sv_fresh v) = Some init \<and> sv_cursor v' = c \<and>
    c \<le> 2 * sv_last v + 1"
proof -
  have ram: "\<And>n. n \<noteq> 0 \<Longrightarrow> realloc_ok os n" using os by (simp add: willing_def)
  show ?thesis
    using search_ok [OF ok os, of "sv_last v + 1"]
  proof (elim disjE exE conjE)
    fix v' c
    assume "search_slots (sv_last v + 1) (mk os) v = Inr (v', Some c)" "slots_ok v'" "slot_table v c = None"
      "slot_table v' = (slot_table v)(c \<mapsto> sv_fresh v)" "sv_records v' (sv_fresh v) = Some init" "sv_cursor v' = c" "c \<le> sv_last v"
    then show ?thesis by (simp add: make_slot.simps)
  next
    let ?u = "v\<lparr>sv_cursor := (if sv_last v + 1 = 0 then sv_cursor v else (sv_cursor v + (sv_last v + 1)) mod (sv_last v + 1))\<rparr>"
    assume s: "search_slots (sv_last v + 1) (mk os) v = Inr (?u, None)"
      and full: "\<forall>k. 1 \<le> k \<and> k \<le> sv_last v + 1 \<longrightarrow> slot_table v ((sv_cursor v + k) mod (sv_last v + 1)) \<noteq> None"
    have "slots_ok ?u" "sv_last ?u < 2 ^ 29 - 1" using ok small by simp_all
    from double_size_ok [OF this(1) ram this(2)]
    obtain w where w: "double_size_of_slot_vector os ?u = Inr w" "slots_ok w" "slot_table w = slot_table ?u" "sv_last w = 2 * sv_last ?u + 1"
      "sv_fresh w = sv_fresh ?u"
      using double_size_records by metis
    have step: "make_slot os (mk os) v = make_slot os (mk os) w"
      using s w(1) by (simp add: make_slot.simps [of os "mk os" v])
    show ?thesis
      using search_ok [OF w(2) os, of "sv_last w + 1"]
    proof (elim disjE exE conjE)
      fix v' c
      assume "search_slots (sv_last w + 1) (mk os) w = Inr (v', Some c)" "slots_ok v'" "slot_table w c = None"
        "slot_table v' = (slot_table w)(c \<mapsto> sv_fresh w)" "sv_records v' (sv_fresh w) = Some init" "sv_cursor v' = c" "c \<le> sv_last w"
      then show ?thesis unfolding step using w(3,4,5) by (simp add: make_slot.simps)
    next
      assume "\<forall>k. 1 \<le> k \<and> k \<le> sv_last w + 1 \<longrightarrow> slot_table w ((sv_cursor w + k) mod (sv_last w + 1)) \<noteq> None"
      from full_round [OF w(2) this, of "sv_last w"] have "slot_table w (sv_last w) \<noteq> None" by simp
      moreover have "slot_table v (2 * sv_last v + 1) = None" using ok by (simp add: slot_table_def slots_ok_def)
      ultimately show ?thesis using w(3,4) by simp
    qed
  qed
qed

end

end
