(* ===== verification/Hostthreads.thy ===== *)
theory Hostthreads
  imports Slot_Vectors
begin

text \<open>
  How host threads share the Mythryl heap
  (\<open>src/c/hostthread/hostthread-on-posix-threads.c\<close>,
  \<open>src/c/heapcleaner/hostthread-heapcleaner-stuff.c\<close>). Every change of the shared state is made
  while \<open>pth__mutex\<close> is held, so a stretch of code between taking the mutex and giving it up (at
  its end or in a wait for \<open>pth__condvar\<close>) is one step. A thread inside \<open>pthread_cond_wait\<close> is
  asleep and takes no step before a \<open>pthread_cond_broadcast\<close> (or the host, which may wake it for
  no reason) has woken it; it then runs its wait loop once more, from the test on.
\<close>

section \<open>State\<close>

datatype Heapcleaner_State = HEAPCLEANER_IS_OFF | HEAPCLEANER_IS_STARTING | HEAPCLEANER_IS_RUNNING

datatype Hostthread_Mode = HOSTTHREAD_IS_RUNNING | HOSTTHREAD_IS_BLOCKED | HOSTTHREAD_IS_PRIMARY_HEAPCLEANER
  | HOSTTHREAD_IS_SECONDARY_HEAPCLEANER | HOSTTHREAD_IS_VOID

definition MAX_HOSTTHREADS :: nat where
  "MAX_HOSTTHREADS = 32"

definition MAX_EXTRA_HEAPCLEANER_ROOTS_PER_HOSTTHREAD :: nat where
  "MAX_EXTRA_HEAPCLEANER_ROOTS_PER_HOSTTHREAD = 16"

definition MAX_EXTRA_HEAPCLEANER_ROOTS :: nat where
  "MAX_EXTRA_HEAPCLEANER_ROOTS = MAX_EXTRA_HEAPCLEANER_ROOTS_PER_HOSTTHREAD * MAX_HOSTTHREADS"

text \<open>
  \<open>extra_roots\<close> is the root buffer up to its NULL. \<open>protected_c_arg\<close> is the value a blocked
  thread keeps alive, and \<open>call_roots\<close> the extra roots of the call of the heapcleaner a thread is
  in (the local variable \<open>extra_roots\<close> of that call). \<open>sleepers\<close> are the threads asleep in a wait
  for \<open>pth__condvar\<close>.
\<close>

record pth_state =
  mode :: "nat \<Rightarrow> Hostthread_Mode"
  heapcleaner_state :: Heapcleaner_State
  running_hostthreads_count :: int
  extra_roots :: "val list"
  protected_c_arg :: "nat \<Rightarrow> val option"
  call_roots :: "nat \<Rightarrow> val list"
  sleepers :: "nat set"

text \<open>\<open>make_task\<close> gives thread 0 to the caller and leaves the other table slots void.\<close>

definition start_of_world :: pth_state where
  "start_of_world = \<lparr>mode = (\<lambda>i. if i = 0 then HOSTTHREAD_IS_RUNNING else HOSTTHREAD_IS_VOID),
     heapcleaner_state = HEAPCLEANER_IS_OFF, running_hostthreads_count = 1, extra_roots = [],
     protected_c_arg = (\<lambda>_. None), call_roots = (\<lambda>_. []), sleepers = {}\<rparr>"

section \<open>Operations\<close>

text \<open>
  A wait gives the mutex up and puts the thread to sleep; a broadcast wakes every sleeper. Both
  are called with \<open>pth__mutex\<close> held.
\<close>

definition pthread_cond_wait :: "nat \<Rightarrow> pth_state \<Rightarrow> pth_state" where
  "pthread_cond_wait i s = s\<lparr>sleepers := insert i (sleepers s)\<rparr>"

definition pthread_cond_broadcast :: "pth_state \<Rightarrow> pth_state" where
  "pthread_cond_broadcast s = s\<lparr>sleepers := {}\<rparr>"

definition enter_mode :: "nat \<Rightarrow> Hostthread_Mode \<Rightarrow> int \<Rightarrow> pth_state \<Rightarrow> pth_state" where
  "enter_mode i m d s = s\<lparr>mode := (mode s)(i := m), running_hostthreads_count := running_hostthreads_count s + d\<rparr>"

definition release_mythryl_heap :: "nat \<Rightarrow> val option \<Rightarrow> pth_state \<Rightarrow> pth_state" where
  "release_mythryl_heap i arg s =
     (let s = enter_mode i HOSTTHREAD_IS_BLOCKED (- 1) s;
          s = (case arg of None \<Rightarrow> s | Some a \<Rightarrow> s\<lparr>protected_c_arg := (protected_c_arg s)(i := Some a)\<rparr>)
      in pthread_cond_broadcast s)"

text \<open>The flag says whether the call returns or the thread sleeps in its wait loop.\<close>

definition recover_mythryl_heap :: "nat \<Rightarrow> pth_state \<Rightarrow> bool \<times> pth_state" where
  "recover_mythryl_heap i s =
     (if heapcleaner_state s \<noteq> HEAPCLEANER_IS_OFF then (False, pthread_cond_wait i s)
      else (True, pthread_cond_broadcast
                    ((enter_mode i HOSTTHREAD_IS_RUNNING 1 s)\<lparr>protected_c_arg := (protected_c_arg s)(i := None)\<rparr>)))"

definition validate_running_hostthreads_count :: "pth_state \<Rightarrow> unit result" where
  "validate_running_hostthreads_count s =
     (if int (length (filter (\<lambda>i. mode s i = HOSTTHREAD_IS_RUNNING) [0 ..< MAX_HOSTTHREADS])) \<noteq> running_hostthreads_count s
      then Inl (Died ''validate_running_hostthreads_count'') else Inr ())"

text \<open>
  Appending roots and the terminating NULL; the buffer has room for
  \<open>MAX_EXTRA_HEAPCLEANER_ROOTS\<close> entries, and its end is checked after the writes.
\<close>

definition append_extra_roots :: "val list \<Rightarrow> pth_state \<Rightarrow> pth_state result" where
  "append_extra_roots rs s =
     (if MAX_EXTRA_HEAPCLEANER_ROOTS \<le> length (extra_roots s @ rs) then Inl Wild
      else Inr (s\<lparr>extra_roots := extra_roots s @ rs\<rparr>))"

text \<open>
  The two wait loops inside the routines that start a cleaning, and what follows them. The first
  test of a loop is made in the same stretch of code as what comes before the loop.
\<close>

definition primary_proceeds :: "nat \<Rightarrow> pth_state \<Rightarrow> pth_state" where
  "primary_proceeds i s =
     (if running_hostthreads_count s > 0 then pthread_cond_wait i s
      else pthread_cond_broadcast (s\<lparr>heapcleaner_state := HEAPCLEANER_IS_RUNNING\<rparr>))"

definition secondary_resumes :: "nat \<Rightarrow> pth_state \<Rightarrow> pth_state" where
  "secondary_resumes i s =
     (if heapcleaner_state s \<noteq> HEAPCLEANER_IS_OFF then pthread_cond_wait i s
      else pthread_cond_broadcast
             (enter_mode i HOSTTHREAD_IS_RUNNING 1 (s\<lparr>call_roots := (call_roots s)(i := [])\<rparr>)))"

definition pth__start_heapcleaning :: "nat \<Rightarrow> pth_state \<Rightarrow> pth_state result" where
  "pth__start_heapcleaning i s =
     (let s = s\<lparr>call_roots := (call_roots s)(i := [])\<rparr>
      in if heapcleaner_state s \<noteq> HEAPCLEANER_IS_OFF
         then Inr (secondary_resumes i
           (pthread_cond_broadcast (enter_mode i HOSTTHREAD_IS_SECONDARY_HEAPCLEANER (- 1) s)))
         else seq_result (validate_running_hostthreads_count s) (\<lambda>_.
           Inr (primary_proceeds i
             ((pthread_cond_broadcast ((enter_mode i HOSTTHREAD_IS_PRIMARY_HEAPCLEANER (- 1) s)
                \<lparr>heapcleaner_state := HEAPCLEANER_IS_STARTING\<rparr>))\<lparr>extra_roots := []\<rparr>))))"

definition pth__start_heapcleaning_with_extra_roots :: "nat \<Rightarrow> val list \<Rightarrow> pth_state \<Rightarrow> pth_state result" where
  "pth__start_heapcleaning_with_extra_roots i rs s =
     (let s = s\<lparr>call_roots := (call_roots s)(i := rs)\<rparr>
      in if heapcleaner_state s \<noteq> HEAPCLEANER_IS_OFF
         then seq_result (append_extra_roots rs s) (\<lambda>s.
           Inr (secondary_resumes i
             (pthread_cond_broadcast (enter_mode i HOSTTHREAD_IS_SECONDARY_HEAPCLEANER (- 1) s))))
         else seq_result (validate_running_hostthreads_count s) (\<lambda>_.
           seq_result (append_extra_roots rs
             ((pthread_cond_broadcast ((enter_mode i HOSTTHREAD_IS_PRIMARY_HEAPCLEANER (- 1) s)
                \<lparr>heapcleaner_state := HEAPCLEANER_IS_STARTING\<rparr>))\<lparr>extra_roots := []\<rparr>)) (\<lambda>s.
           Inr (primary_proceeds i s))))"

definition pth__finish_heapcleaning :: "nat \<Rightarrow> pth_state \<Rightarrow> pth_state" where
  "pth__finish_heapcleaning i s =
     pthread_cond_broadcast
       (enter_mode i HOSTTHREAD_IS_RUNNING 1 (s\<lparr>heapcleaner_state := HEAPCLEANER_IS_OFF, call_roots := (call_roots s)(i := [])\<rparr>))"

text \<open>
  Starting a thread: the first void slot of the table becomes running before the host creates the
  thread, and void again when the host cannot. The result is the slot or a message.
\<close>

fun first_void :: "pth_state \<Rightarrow> nat list \<Rightarrow> nat option" where
  "first_void s [] = None"
| "first_void s (i # is) = (if mode s i \<noteq> HOSTTHREAD_IS_VOID then first_void s is else Some i)"

definition pthread_create_message :: "errno \<Rightarrow> string" where
  "pthread_create_message err =
     (case err of
        EAGAIN \<Rightarrow> ''pth__pthread_create: Insufficient resources to create posix thread: May have reached PTHREAD_THREADS_MAX.''
      | EPERM \<Rightarrow> ''pth__pthread_create: You lack permissions to set requested scheduling.''
      | EINVAL \<Rightarrow> ''pth__pthread_create: Invalid attributes.''
      | _ \<Rightarrow> ''pth__pthread_create: Undocumented error returned by pthread_create().'')"

definition pth__pthread_create :: "errno \<Rightarrow> pth_state \<Rightarrow> pth_state \<times> (string + nat)" where
  "pth__pthread_create err s =
     (case first_void s [0 ..< MAX_HOSTTHREADS] of
        None \<Rightarrow> (s, Inl ''hostthread_table__global full -- increase MAX_HOSTTHREADS?'')
      | Some i \<Rightarrow>
          (let s = pthread_cond_broadcast (enter_mode i HOSTTHREAD_IS_RUNNING 1 s)
           in if err = NO_ERROR then (s, Inr i)
              else (enter_mode i HOSTTHREAD_IS_VOID (- 1) s, Inl (pthread_create_message err))))"

text \<open>What a thread does after the heapcleaning it ends with.\<close>

definition pth__pthread_exit :: "nat \<Rightarrow> pth_state \<Rightarrow> pth_state" where
  "pth__pthread_exit i s = pthread_cond_broadcast (enter_mode i HOSTTHREAD_IS_VOID (- 1) s)"

section \<open>The protocol\<close>

text \<open>
  One step of the program: a thread that is awake runs one stretch of code. A thread whose mode is
  blocked, primary or secondary runs the wait loop it is in.
\<close>

inductive pth_step :: "pth_state \<Rightarrow> pth_state \<Rightarrow> bool" where
  release: "mode s i = HOSTTHREAD_IS_RUNNING \<Longrightarrow> pth_step s (release_mythryl_heap i arg s)"
| recover: "mode s i = HOSTTHREAD_IS_BLOCKED \<Longrightarrow> i \<notin> sleepers s \<Longrightarrow> pth_step s (snd (recover_mythryl_heap i s))"
| start: "mode s i = HOSTTHREAD_IS_RUNNING \<Longrightarrow> pth__start_heapcleaning i s = Inr s' \<Longrightarrow> pth_step s s'"
| start_with_roots: "mode s i = HOSTTHREAD_IS_RUNNING \<Longrightarrow>
    pth__start_heapcleaning_with_extra_roots i rs s = Inr s' \<Longrightarrow> pth_step s s'"
| proceed: "mode s i = HOSTTHREAD_IS_PRIMARY_HEAPCLEANER \<Longrightarrow> heapcleaner_state s = HEAPCLEANER_IS_STARTING \<Longrightarrow>
    i \<notin> sleepers s \<Longrightarrow> pth_step s (primary_proceeds i s)"
| finish: "mode s i = HOSTTHREAD_IS_PRIMARY_HEAPCLEANER \<Longrightarrow> heapcleaner_state s = HEAPCLEANER_IS_RUNNING \<Longrightarrow>
    pth_step s (pth__finish_heapcleaning i s)"
| resume: "mode s i = HOSTTHREAD_IS_SECONDARY_HEAPCLEANER \<Longrightarrow> i \<notin> sleepers s \<Longrightarrow> pth_step s (secondary_resumes i s)"
| create: "mode s i = HOSTTHREAD_IS_RUNNING \<Longrightarrow> pth_step s (fst (pth__pthread_create err s))"
| exit: "mode s i = HOSTTHREAD_IS_RUNNING \<Longrightarrow> pth_step s (pth__pthread_exit i s)"

text \<open>The host may also wake a sleeper without a broadcast.\<close>

inductive spurious_wakeup :: "pth_state \<Rightarrow> pth_state \<Rightarrow> bool" where
  wake: "i \<in> sleepers s \<Longrightarrow> spurious_wakeup s (s\<lparr>sleepers := sleepers s - {i}\<rparr>)"

definition reachable :: "pth_state \<Rightarrow> bool" where
  "reachable s \<longleftrightarrow> (\<lambda>s t. pth_step s t \<or> spurious_wakeup s t)\<^sup>*\<^sup>* start_of_world s"

section \<open>The invariant\<close>

definition running_threads :: "pth_state \<Rightarrow> nat set" where
  "running_threads s = {i. i < MAX_HOSTTHREADS \<and> mode s i = HOSTTHREAD_IS_RUNNING}"

definition count_right :: "pth_state \<Rightarrow> bool" where
  "count_right s \<longleftrightarrow> running_hostthreads_count s = int (card (running_threads s)) \<and>
     (\<forall>i \<ge> MAX_HOSTTHREADS. mode s i = HOSTTHREAD_IS_VOID)"

definition one_primary :: "pth_state \<Rightarrow> bool" where
  "one_primary s \<longleftrightarrow>
     (heapcleaner_state s = HEAPCLEANER_IS_OFF \<longrightarrow> (\<forall>i. mode s i \<noteq> HOSTTHREAD_IS_PRIMARY_HEAPCLEANER)) \<and>
     (heapcleaner_state s \<noteq> HEAPCLEANER_IS_OFF \<longrightarrow> (\<exists>!i. mode s i = HOSTTHREAD_IS_PRIMARY_HEAPCLEANER))"

definition heap_to_itself :: "pth_state \<Rightarrow> bool" where
  "heap_to_itself s \<longleftrightarrow> (heapcleaner_state s = HEAPCLEANER_IS_RUNNING \<longrightarrow> running_threads s = {})"

definition pth_ok :: "pth_state \<Rightarrow> bool" where
  "pth_ok s \<longleftrightarrow> count_right s \<and> one_primary s \<and> heap_to_itself s"

lemmas pth_ok_defs = pth_ok_def count_right_def one_primary_def heap_to_itself_def

lemma enter_mode_simps [simp]:
  "mode (enter_mode i m d s) = (mode s)(i := m)"
  "heapcleaner_state (enter_mode i m d s) = heapcleaner_state s"
  "running_hostthreads_count (enter_mode i m d s) = running_hostthreads_count s + d"
  "extra_roots (enter_mode i m d s) = extra_roots s"
  "protected_c_arg (enter_mode i m d s) = protected_c_arg s"
  "call_roots (enter_mode i m d s) = call_roots s"
  "sleepers (enter_mode i m d s) = sleepers s"
  by (simp_all add: enter_mode_def)

lemma cond_simps [simp]:
  "mode (pthread_cond_wait i s) = mode s" "mode (pthread_cond_broadcast s) = mode s"
  "heapcleaner_state (pthread_cond_wait i s) = heapcleaner_state s"
  "heapcleaner_state (pthread_cond_broadcast s) = heapcleaner_state s"
  "running_hostthreads_count (pthread_cond_wait i s) = running_hostthreads_count s"
  "running_hostthreads_count (pthread_cond_broadcast s) = running_hostthreads_count s"
  "extra_roots (pthread_cond_wait i s) = extra_roots s" "extra_roots (pthread_cond_broadcast s) = extra_roots s"
  "protected_c_arg (pthread_cond_wait i s) = protected_c_arg s"
  "protected_c_arg (pthread_cond_broadcast s) = protected_c_arg s"
  "call_roots (pthread_cond_wait i s) = call_roots s" "call_roots (pthread_cond_broadcast s) = call_roots s"
  "sleepers (pthread_cond_wait i s) = insert i (sleepers s)" "sleepers (pthread_cond_broadcast s) = {}"
  by (simp_all add: pthread_cond_wait_def pthread_cond_broadcast_def)

lemma finite_running [simp]: "finite (running_threads s)"
  by (simp add: running_threads_def)

lemma running_inside: "count_right s \<Longrightarrow> mode s i \<noteq> HOSTTHREAD_IS_VOID \<Longrightarrow> i < MAX_HOSTTHREADS"
  by (meson count_right_def not_less)

lemma running_stops:
  assumes "count_right s" and "mode s i = HOSTTHREAD_IS_RUNNING" and "m \<noteq> HOSTTHREAD_IS_RUNNING"
    and "mode t = (mode s)(i := m)" and "running_hostthreads_count t = running_hostthreads_count s - 1"
  shows "count_right t" and "running_threads t = running_threads s - {i}"
proof -
  have i: "i < MAX_HOSTTHREADS" using running_inside assms(1,2) by fastforce
  show r: "running_threads t = running_threads s - {i}"
    using assms(3,4) by (auto simp: running_threads_def)
  have mem: "i \<in> running_threads s" using i assms(2) by (simp add: running_threads_def)
  then have "card (running_threads s) = Suc (card (running_threads s - {i}))"
    by (intro card.remove) simp_all
  then show "count_right t" using assms(1,4,5) i unfolding count_right_def r by auto
qed

lemma running_starts:
  assumes "count_right s" and "i < MAX_HOSTTHREADS" and "mode s i \<noteq> HOSTTHREAD_IS_RUNNING"
    and "mode t = (mode s)(i := HOSTTHREAD_IS_RUNNING)" and "running_hostthreads_count t = running_hostthreads_count s + 1"
  shows "count_right t" and "running_threads t = insert i (running_threads s)"
proof -
  show r: "running_threads t = insert i (running_threads s)"
    using assms(2,4) by (auto simp: running_threads_def)
  have "i \<notin> running_threads s" using assms(3) by (simp add: running_threads_def)
  then have "card (insert i (running_threads s)) = Suc (card (running_threads s))" by simp
  then show "count_right t" using assms(1,2,4,5) unfolding count_right_def r by auto
qed

lemma validate_ok:
  assumes "count_right s"
  shows "validate_running_hostthreads_count s = Inr ()"
proof -
  have "set (filter (\<lambda>i. mode s i = HOSTTHREAD_IS_RUNNING) [0 ..< MAX_HOSTTHREADS]) = running_threads s"
    by (auto simp: running_threads_def)
  then have "length (filter (\<lambda>i. mode s i = HOSTTHREAD_IS_RUNNING) [0 ..< MAX_HOSTTHREADS]) = card (running_threads s)"
    by (metis distinct_card distinct_filter distinct_upt)
  then show ?thesis using assms by (simp add: validate_running_hostthreads_count_def count_right_def)
qed

lemma start_of_world_ok: "pth_ok start_of_world"
proof -
  have "running_threads start_of_world = {0}"
    by (auto simp: running_threads_def start_of_world_def MAX_HOSTTHREADS_def)
  then show ?thesis by (simp add: pth_ok_defs) (simp add: start_of_world_def MAX_HOSTTHREADS_def)
qed

end
