(* ===== verification/Hostthread_Protocol.thy ===== *)
theory Hostthread_Protocol
  imports Hostthreads
begin

text \<open>
  What the protocol of host threads guarantees: the invariant is kept by every step, so a cleaner
  at work has the heap to itself; nobody stays asleep when what it waits for has come, and a
  cleaning that was asked for can always be brought to its end without help from the host.
\<close>

section \<open>Every step keeps the invariant\<close>

lemma running_threads_cond [simp]:
  "running_threads (pthread_cond_wait i s) = running_threads s"
  "running_threads (pthread_cond_broadcast s) = running_threads s"
  by (simp_all add: running_threads_def)

lemma pth_ok_cond [simp]:
  "pth_ok (pthread_cond_wait i s) = pth_ok s" "pth_ok (pthread_cond_broadcast s) = pth_ok s"
  by (simp_all add: pth_ok_defs)

lemma leaves_running_ok:
  assumes ok: "pth_ok s" and i: "mode s i = HOSTTHREAD_IS_RUNNING"
    and m: "m \<noteq> HOSTTHREAD_IS_RUNNING" "m \<noteq> HOSTTHREAD_IS_PRIMARY_HEAPCLEANER"
    and t: "mode t = (mode s)(i := m)" "running_hostthreads_count t = running_hostthreads_count s - 1"
      "heapcleaner_state t = heapcleaner_state s"
  shows "pth_ok t"
proof -
  have c: "count_right s" using ok by (simp add: pth_ok_def)
  note stops = running_stops [OF c i m(1) t(1,2)]
  have same: "mode t j = HOSTTHREAD_IS_PRIMARY_HEAPCLEANER \<longleftrightarrow> mode s j = HOSTTHREAD_IS_PRIMARY_HEAPCLEANER" for j
    using i m(2) t(1) by simp
  show ?thesis
    using ok stops t(3) unfolding pth_ok_def one_primary_def heap_to_itself_def same by auto
qed

lemma release_ok:
  "pth_ok s \<Longrightarrow> mode s i = HOSTTHREAD_IS_RUNNING \<Longrightarrow> pth_ok (release_mythryl_heap i arg s)"
  by (rule leaves_running_ok [of s i HOSTTHREAD_IS_BLOCKED])
    (simp_all add: release_mythryl_heap_def Let_def split: option.split)

lemma enters_running_ok:
  assumes ok: "pth_ok s" and i: "i < MAX_HOSTTHREADS" "mode s i \<noteq> HOSTTHREAD_IS_RUNNING"
      "mode s i \<noteq> HOSTTHREAD_IS_PRIMARY_HEAPCLEANER"
    and h: "heapcleaner_state s \<noteq> HEAPCLEANER_IS_RUNNING"
    and t: "mode t = (mode s)(i := HOSTTHREAD_IS_RUNNING)" "running_hostthreads_count t = running_hostthreads_count s + 1"
      "heapcleaner_state t = heapcleaner_state s"
  shows "pth_ok t"
proof -
  have c: "count_right s" using ok by (simp add: pth_ok_def)
  note starts = running_starts [OF c i(1,2) t(1,2)]
  have same: "mode t j = HOSTTHREAD_IS_PRIMARY_HEAPCLEANER \<longleftrightarrow> mode s j = HOSTTHREAD_IS_PRIMARY_HEAPCLEANER" for j
    using i(3) t(1) by simp
  show ?thesis
    using ok starts t(3) h unfolding pth_ok_def one_primary_def heap_to_itself_def same by auto
qed

lemma becomes_primary_ok:
  assumes ok: "pth_ok s" and i: "mode s i = HOSTTHREAD_IS_RUNNING" and off: "heapcleaner_state s = HEAPCLEANER_IS_OFF"
    and t: "mode t = (mode s)(i := HOSTTHREAD_IS_PRIMARY_HEAPCLEANER)"
      "running_hostthreads_count t = running_hostthreads_count s - 1" "heapcleaner_state t = HEAPCLEANER_IS_STARTING"
  shows "pth_ok t"
proof -
  have c: "count_right s" using ok by (simp add: pth_ok_def)
  have "count_right t" by (rule running_stops(1) [OF c i _ t(1,2)]) simp
  moreover have "one_primary t"
    using ok off t(1,3) unfolding pth_ok_def one_primary_def by auto
  ultimately show ?thesis using t(3) by (simp add: pth_ok_def heap_to_itself_def)
qed

lemma running_not_cleaning:
  assumes "pth_ok s" and "mode s i = HOSTTHREAD_IS_RUNNING"
  shows "heapcleaner_state s \<noteq> HEAPCLEANER_IS_RUNNING"
proof -
  have "i < MAX_HOSTTHREADS" by (rule running_inside [of s i]) (use assms in \<open>simp_all add: pth_ok_def\<close>)
  then have "i \<in> running_threads s" using assms(2) by (simp add: running_threads_def)
  then show ?thesis using assms(1) by (auto simp: pth_ok_def heap_to_itself_def)
qed

lemma proceed_ok:
  assumes ok: "pth_ok s" and h: "heapcleaner_state s = HEAPCLEANER_IS_STARTING"
  shows "pth_ok (primary_proceeds i s)"
proof (cases "running_hostthreads_count s > 0")
  case True
  then show ?thesis using ok by (simp add: primary_proceeds_def)
next
  case False
  then have "running_threads s = {}" using ok by (simp add: pth_ok_def count_right_def)
  then show ?thesis using False ok h by (simp add: primary_proceeds_def pth_ok_defs) (simp add: running_threads_def)
qed

lemma running_threads_proceed [simp]: "running_threads (primary_proceeds i s) = running_threads s"
  by (simp add: running_threads_def primary_proceeds_def)

lemma state_proceed: "heapcleaner_state s \<noteq> HEAPCLEANER_IS_OFF \<Longrightarrow> heapcleaner_state (primary_proceeds i s) \<noteq> HEAPCLEANER_IS_OFF"
  by (simp add: primary_proceeds_def)

lemma start_heapcleaning_result:
  assumes ok: "pth_ok s" and i: "mode s i = HOSTTHREAD_IS_RUNNING"
  shows "\<exists>t. pth__start_heapcleaning i s = Inr t \<and> pth_ok t \<and> heapcleaner_state t \<noteq> HEAPCLEANER_IS_OFF \<and>
    running_threads t = running_threads s - {i}"
proof -
  have c: "count_right s" using ok by (simp add: pth_ok_def)
  have v: "validate_running_hostthreads_count (s\<lparr>call_roots := r\<rparr>) = Inr ()" for r
    using validate_ok [OF c] by (simp add: validate_running_hostthreads_count_def)
  show ?thesis
  proof (cases "heapcleaner_state s = HEAPCLEANER_IS_OFF")
    case True
    let ?t = "(pthread_cond_broadcast ((enter_mode i HOSTTHREAD_IS_PRIMARY_HEAPCLEANER (- 1) (s\<lparr>call_roots := (call_roots s)(i := [])\<rparr>))
                  \<lparr>heapcleaner_state := HEAPCLEANER_IS_STARTING\<rparr>))\<lparr>extra_roots := []\<rparr>"
    have "pth__start_heapcleaning i s = Inr (primary_proceeds i ?t)"
      using True v by (simp add: pth__start_heapcleaning_def Let_def)
    moreover have "pth_ok ?t" by (rule becomes_primary_ok [OF ok i True]) simp_all
    then have "pth_ok (primary_proceeds i ?t)" by (rule proceed_ok) simp
    moreover have "running_threads ?t = running_threads s - {i}"
      by (rule running_stops(2) [OF c i, of HOSTTHREAD_IS_PRIMARY_HEAPCLEANER]) simp_all
    moreover have "heapcleaner_state (primary_proceeds i ?t) \<noteq> HEAPCLEANER_IS_OFF" by (rule state_proceed) simp
    ultimately show ?thesis by simp
  next
    case False
    let ?t = "pthread_cond_wait i (pthread_cond_broadcast
      (enter_mode i HOSTTHREAD_IS_SECONDARY_HEAPCLEANER (- 1) (s\<lparr>call_roots := (call_roots s)(i := [])\<rparr>)))"
    have "pth__start_heapcleaning i s = Inr ?t"
      using False by (simp add: pth__start_heapcleaning_def Let_def secondary_resumes_def)
    moreover have "pth_ok ?t"
      by (rule leaves_running_ok [OF ok i, of HOSTTHREAD_IS_SECONDARY_HEAPCLEANER]) simp_all
    moreover have "running_threads ?t = running_threads s - {i}"
      by (rule running_stops(2) [OF c i, of HOSTTHREAD_IS_SECONDARY_HEAPCLEANER]) simp_all
    ultimately show ?thesis using False by simp
  qed
qed

lemma start_with_roots_ok:
  assumes ok: "pth_ok s" and i: "mode s i = HOSTTHREAD_IS_RUNNING"
    and t: "pth__start_heapcleaning_with_extra_roots i rs s = Inr t"
  shows "pth_ok t"
proof (cases "heapcleaner_state s = HEAPCLEANER_IS_OFF")
  case True
  obtain u where u: "t = primary_proceeds i u" "mode u = (mode s)(i := HOSTTHREAD_IS_PRIMARY_HEAPCLEANER)"
    "running_hostthreads_count u = running_hostthreads_count s - 1" "heapcleaner_state u = HEAPCLEANER_IS_STARTING"
    using t True by (auto simp: pth__start_heapcleaning_with_extra_roots_def append_extra_roots_def Let_def
         seq_result_eq_Inr split: if_splits)
  show ?thesis unfolding u(1) by (rule proceed_ok [OF becomes_primary_ok [OF ok i True u(2-4)] u(4)])
next
  case False
  show ?thesis
    by (rule leaves_running_ok [OF ok i, of HOSTTHREAD_IS_SECONDARY_HEAPCLEANER])
      (use t False in \<open>auto simp: pth__start_heapcleaning_with_extra_roots_def append_extra_roots_def Let_def
         secondary_resumes_def seq_result_eq_Inr split: if_splits\<close>)
qed

lemma first_void_some: "first_void s is = Some i \<Longrightarrow> i \<in> set is \<and> mode s i = HOSTTHREAD_IS_VOID"
  by (induction s "is" rule: first_void.induct) (auto split: if_splits)

lemma create_ok:
  assumes ok: "pth_ok s" and i: "mode s i = HOSTTHREAD_IS_RUNNING"
  shows "pth_ok (fst (pth__pthread_create err s))"
proof (cases "first_void s [0 ..< MAX_HOSTTHREADS]")
  case None
  then show ?thesis using ok by (simp add: pth__pthread_create_def)
next
  case (Some j)
  then have j: "j < MAX_HOSTTHREADS" "mode s j = HOSTTHREAD_IS_VOID" using first_void_some by fastforce+
  have "pth_ok (pthread_cond_broadcast (enter_mode j HOSTTHREAD_IS_RUNNING 1 s))"
    by (rule enters_running_ok [OF ok j(1) _ _ running_not_cleaning [OF ok i]]) (use j(2) in simp_all)
  moreover have "pth_ok (enter_mode j HOSTTHREAD_IS_VOID (- 1) (pthread_cond_broadcast (enter_mode j HOSTTHREAD_IS_RUNNING 1 s)))"
    by (rule leaves_running_ok [OF calculation, of j HOSTTHREAD_IS_VOID]) simp_all
  ultimately show ?thesis using Some by (simp add: pth__pthread_create_def Let_def)
qed

lemma finish_ok:
  assumes ok: "pth_ok s" and i: "mode s i = HOSTTHREAD_IS_PRIMARY_HEAPCLEANER"
  shows "pth_ok (pth__finish_heapcleaning i s)"
proof -
  let ?t = "pth__finish_heapcleaning i s"
  have t: "mode ?t = (mode s)(i := HOSTTHREAD_IS_RUNNING)" "running_hostthreads_count ?t = running_hostthreads_count s + 1"
    "heapcleaner_state ?t = HEAPCLEANER_IS_OFF" by (simp_all add: pth__finish_heapcleaning_def)
  have c: "count_right s" using ok by (simp add: pth_ok_def)
  have "i < MAX_HOSTTHREADS" using running_inside [OF c, of i] i by simp
  from running_starts(1) [OF c this _ t(1,2)] have "count_right ?t" using i by simp
  moreover have "mode ?t j \<noteq> HOSTTHREAD_IS_PRIMARY_HEAPCLEANER" for j
    using ok i t(1) unfolding pth_ok_def one_primary_def by (metis Hostthread_Mode.distinct(3) fun_upd_apply)
  then have "one_primary ?t" using t(3) by (simp add: one_primary_def)
  ultimately show ?thesis using t(3) by (simp add: pth_ok_def heap_to_itself_def)
qed

lemma back_to_running_ok:
  assumes ok: "pth_ok s" and i: "mode s i = HOSTTHREAD_IS_BLOCKED \<or> mode s i = HOSTTHREAD_IS_SECONDARY_HEAPCLEANER"
    and off: "heapcleaner_state s = HEAPCLEANER_IS_OFF"
    and t: "mode t = (mode s)(i := HOSTTHREAD_IS_RUNNING)" "running_hostthreads_count t = running_hostthreads_count s + 1"
      "heapcleaner_state t = heapcleaner_state s"
  shows "pth_ok t"
proof -
  have "i < MAX_HOSTTHREADS" by (rule running_inside [of s i]) (use ok i in \<open>auto simp: pth_ok_def\<close>)
  then show ?thesis by (rule enters_running_ok [OF ok _ _ _ _ t]) (use i off in auto)
qed

lemma recover_ok:
  assumes ok: "pth_ok s" and i: "mode s i = HOSTTHREAD_IS_BLOCKED"
  shows "pth_ok (snd (recover_mythryl_heap i s))"
proof (cases "heapcleaner_state s = HEAPCLEANER_IS_OFF")
  case True
  then show ?thesis
    by (intro back_to_running_ok [OF ok disjI1 [OF i] True]) (simp_all add: recover_mythryl_heap_def)
next
  case False
  then show ?thesis using ok by (simp add: recover_mythryl_heap_def)
qed

lemma resume_ok:
  assumes ok: "pth_ok s" and i: "mode s i = HOSTTHREAD_IS_SECONDARY_HEAPCLEANER"
  shows "pth_ok (secondary_resumes i s)"
proof (cases "heapcleaner_state s = HEAPCLEANER_IS_OFF")
  case True
  then show ?thesis
    by (intro back_to_running_ok [OF ok disjI2 [OF i] True]) (simp_all add: secondary_resumes_def)
next
  case False
  then show ?thesis using ok by (simp add: secondary_resumes_def)
qed

lemma step_ok: "pth_step s t \<Longrightarrow> pth_ok s \<Longrightarrow> pth_ok t"
proof (induction rule: pth_step.induct)
  case (release s i arg)
  show ?case by (rule release_ok [OF release(2,1)])
next
  case (recover s i)
  show ?case by (rule recover_ok [OF recover(3,1)])
next
  case (start s i t)
  from start_heapcleaning_result [OF start(3,1)] start(2) show ?case by auto
next
  case (start_with_roots s i rs t)
  show ?case by (rule start_with_roots_ok [OF start_with_roots(3,1,2)])
next
  case (proceed s i)
  show ?case by (rule proceed_ok [OF proceed(4,2)])
next
  case (finish s i)
  show ?case by (rule finish_ok [OF finish(3,1)])
next
  case (resume s i)
  show ?case by (rule resume_ok [OF resume(3,1)])
next
  case (create s i err)
  show ?case by (rule create_ok [OF create(2,1)])
next
  case (exit s i)
  show ?case by (rule leaves_running_ok [OF exit(2,1), of HOSTTHREAD_IS_VOID]) (simp_all add: pth__pthread_exit_def)
qed

lemma wakeup_ok: "spurious_wakeup s t \<Longrightarrow> pth_ok s \<Longrightarrow> pth_ok t"
  by (induction rule: spurious_wakeup.induct) (simp add: pth_ok_defs running_threads_def)

text \<open>Invariants of the reachable states are proved with \<open>pth_ok\<close> at hand.\<close>

lemma reachable_induct [consumes 1, case_names start step wakeup]:
  assumes "reachable s" and "P start_of_world"
    and "\<And>s t. pth_ok s \<Longrightarrow> P s \<Longrightarrow> pth_step s t \<Longrightarrow> P t"
    and "\<And>s t. pth_ok s \<Longrightarrow> P s \<Longrightarrow> spurious_wakeup s t \<Longrightarrow> P t"
  shows "P s"
proof -
  have "(\<lambda>s t. pth_step s t \<or> spurious_wakeup s t)\<^sup>*\<^sup>* start_of_world s" using assms(1) by (simp add: reachable_def)
  then have "pth_ok s \<and> P s"
  proof (induction rule: rtranclp_induct)
    case base
    show ?case using start_of_world_ok assms(2) by simp
  next
    case (step s t)
    then show ?case using step_ok wakeup_ok assms(3,4) by metis
  qed
  then show ?thesis by simp
qed

lemma reachable_ok: "reachable s \<Longrightarrow> pth_ok s"
  by (induction rule: reachable_induct) (auto intro: step_ok wakeup_ok start_of_world_ok)

lemma reachable_step: "reachable s \<Longrightarrow> pth_step s t \<Longrightarrow> reachable t"
  unfolding reachable_def by (erule rtranclp.rtrancl_into_rtrancl) (rule disjI1)

lemma reachable_start: "reachable start_of_world"
  by (simp add: reachable_def)

section \<open>A cleaner at work has the heap to itself\<close>

text \<open>
  C2. In every reachable state the count of running threads is right, so the runtime never dies
  in its check of the count; while a cleaning is on, exactly one thread is the primary
  heapcleaner, and once the cleaner runs no thread at all runs Mythryl code.
\<close>

theorem cleaner_has_the_heap_to_itself:
  assumes "reachable s"
  shows "validate_running_hostthreads_count s = Inr () \<and>
    running_hostthreads_count s = int (card {i. i < MAX_HOSTTHREADS \<and> mode s i = HOSTTHREAD_IS_RUNNING}) \<and>
    (heapcleaner_state s \<noteq> HEAPCLEANER_IS_OFF \<longrightarrow> (\<exists>!i. mode s i = HOSTTHREAD_IS_PRIMARY_HEAPCLEANER)) \<and>
    (heapcleaner_state s = HEAPCLEANER_IS_RUNNING \<longrightarrow> (\<forall>i. mode s i \<noteq> HOSTTHREAD_IS_RUNNING))"
proof -
  have ok: "pth_ok s" by (rule reachable_ok [OF assms])
  then have "validate_running_hostthreads_count s = Inr ()" by (intro validate_ok) (simp add: pth_ok_def)
  moreover have "mode s i \<noteq> HOSTTHREAD_IS_RUNNING" if "heapcleaner_state s = HEAPCLEANER_IS_RUNNING" for i
    using running_not_cleaning [OF ok, of i] that by blast
  ultimately show ?thesis using ok by (simp add: pth_ok_def count_right_def one_primary_def running_threads_def)
qed

definition alone_cleaning :: pth_state where
  "alone_cleaning = start_of_world\<lparr>mode := (mode start_of_world)(0 := HOSTTHREAD_IS_PRIMARY_HEAPCLEANER),
     running_hostthreads_count := 0, heapcleaner_state := HEAPCLEANER_IS_RUNNING\<rparr>"

lemma alone_cleaning_reachable: "reachable alone_cleaning"
proof -
  have "validate_running_hostthreads_count start_of_world = Inr ()"
    by (rule validate_ok) (use start_of_world_ok in \<open>simp add: pth_ok_def\<close>)
  then have "pth__start_heapcleaning 0 start_of_world = Inr alone_cleaning"
    by (simp add: pth__start_heapcleaning_def alone_cleaning_def start_of_world_def enter_mode_def
        validate_running_hostthreads_count_def fun_eq_iff primary_proceeds_def pthread_cond_broadcast_def)
  then have "pth_step start_of_world alone_cleaning" by (intro pth_step.start [of _ 0]) (simp_all add: start_of_world_def)
  then show ?thesis using reachable_start reachable_step by blast
qed

theorem cleaner_has_the_heap_to_itself_witness:
  "heapcleaner_state alone_cleaning = HEAPCLEANER_IS_RUNNING \<and> (\<forall>i. mode alone_cleaning i \<noteq> HOSTTHREAD_IS_RUNNING)"
proof -
  have "heapcleaner_state alone_cleaning = HEAPCLEANER_IS_RUNNING" by (simp add: alone_cleaning_def)
  then show ?thesis using cleaner_has_the_heap_to_itself [OF alone_cleaning_reachable] by blast
qed

section \<open>Nobody oversleeps\<close>

text \<open>A thread is asleep for a reason when the condition of the wait loop it is in still holds.\<close>

definition has_to_wait :: "pth_state \<Rightarrow> nat \<Rightarrow> bool" where
  "has_to_wait s i \<longleftrightarrow>
     (mode s i = HOSTTHREAD_IS_BLOCKED \<or> mode s i = HOSTTHREAD_IS_SECONDARY_HEAPCLEANER) \<and> heapcleaner_state s \<noteq> HEAPCLEANER_IS_OFF \<or>
     mode s i = HOSTTHREAD_IS_PRIMARY_HEAPCLEANER \<and> heapcleaner_state s = HEAPCLEANER_IS_STARTING \<and> running_hostthreads_count s > 0"

definition nobody_oversleeps :: "pth_state \<Rightarrow> bool" where
  "nobody_oversleeps s \<longleftrightarrow> (\<forall>i \<in> sleepers s. has_to_wait s i)"

lemma all_awake: "sleepers s = {} \<Longrightarrow> nobody_oversleeps s"
  by (simp add: nobody_oversleeps_def)

lemma goes_to_sleep:
  "nobody_oversleeps s \<Longrightarrow> has_to_wait s i \<Longrightarrow> nobody_oversleeps (pthread_cond_wait i s)"
  by (simp add: nobody_oversleeps_def has_to_wait_def)

lemma primary_sleeps_well:
  assumes "nobody_oversleeps s" and "mode s i = HOSTTHREAD_IS_PRIMARY_HEAPCLEANER" and "heapcleaner_state s = HEAPCLEANER_IS_STARTING"
  shows "nobody_oversleeps (primary_proceeds i s)"
  using assms by (auto simp: primary_proceeds_def has_to_wait_def intro: goes_to_sleep all_awake)

lemma secondary_sleeps_well:
  assumes "nobody_oversleeps s" and "mode s i = HOSTTHREAD_IS_SECONDARY_HEAPCLEANER"
  shows "nobody_oversleeps (secondary_resumes i s)"
  using assms by (auto simp: secondary_resumes_def has_to_wait_def intro: goes_to_sleep all_awake)

lemma start_sleeps_well:
  assumes "pth__start_heapcleaning i s = Inr t"
  shows "nobody_oversleeps t"
  using assms
  by (auto simp: pth__start_heapcleaning_def Let_def seq_result_eq_Inr split: if_splits
      intro!: primary_sleeps_well secondary_sleeps_well intro: all_awake)

lemma start_with_roots_sleeps_well:
  assumes "pth__start_heapcleaning_with_extra_roots i rs s = Inr t"
  shows "nobody_oversleeps t"
  using assms
  by (auto simp: pth__start_heapcleaning_with_extra_roots_def append_extra_roots_def Let_def seq_result_eq_Inr split: if_splits
      intro!: primary_sleeps_well secondary_sleeps_well intro: all_awake)

lemma step_nobody_oversleeps: "pth_step s t \<Longrightarrow> nobody_oversleeps s \<Longrightarrow> nobody_oversleeps t"
proof (induction rule: pth_step.induct)
  case (release s i arg)
  show ?case by (rule all_awake) (simp add: release_mythryl_heap_def Let_def)
next
  case (recover s i)
  then show ?case
    by (auto simp: recover_mythryl_heap_def has_to_wait_def intro: goes_to_sleep all_awake)
next
  case (create s i err)
  then show ?case by (cases "first_void s [0 ..< MAX_HOSTTHREADS]") (auto simp: pth__pthread_create_def Let_def intro: all_awake)
next
  case (finish s i)
  show ?case by (rule all_awake) (simp add: pth__finish_heapcleaning_def)
next
  case (exit s i)
  show ?case by (rule all_awake) (simp add: pth__pthread_exit_def)
qed (simp_all add: start_sleeps_well start_with_roots_sleeps_well primary_sleeps_well secondary_sleeps_well)

lemma wakeup_nobody_oversleeps: "spurious_wakeup s t \<Longrightarrow> nobody_oversleeps s \<Longrightarrow> nobody_oversleeps t"
  by (induction rule: spurious_wakeup.induct) (simp add: nobody_oversleeps_def has_to_wait_def)

lemma reachable_nobody_oversleeps: "reachable s \<Longrightarrow> nobody_oversleeps s"
proof (induction rule: reachable_induct)
  case start
  show ?case by (rule all_awake) (simp add: start_of_world_def)
qed (simp_all add: step_nobody_oversleeps wakeup_nobody_oversleeps)

section \<open>A cleaning can always be brought to its end\<close>

text \<open>
  The steps that bring it there: running threads notice the request and become secondary
  cleaners, which wakes the primary cleaner if it sleeps; it proceeds, and finishes. The host
  is not asked to wake anybody for no reason.
\<close>

lemma secondary_step:
  assumes ok: "pth_ok s" and on: "heapcleaner_state s = HEAPCLEANER_IS_STARTING" and i: "i \<in> running_threads s"
  shows "\<exists>t. pth_step s t \<and> pth_ok t \<and> heapcleaner_state t = HEAPCLEANER_IS_STARTING \<and>
    running_threads t = running_threads s - {i} \<and> (\<forall>j. mode s j \<noteq> HOSTTHREAD_IS_RUNNING \<longrightarrow> mode t j = mode s j)"
proof -
  have m: "mode s i = HOSTTHREAD_IS_RUNNING" using i by (simp add: running_threads_def)
  let ?t = "pthread_cond_wait i (pthread_cond_broadcast
    (enter_mode i HOSTTHREAD_IS_SECONDARY_HEAPCLEANER (- 1) (s\<lparr>call_roots := (call_roots s)(i := [])\<rparr>)))"
  have r: "pth__start_heapcleaning i s = Inr ?t"
    using on by (simp add: pth__start_heapcleaning_def Let_def secondary_resumes_def)
  obtain t where "pth__start_heapcleaning i s = Inr t" "pth_ok t" "running_threads t = running_threads s - {i}"
    using start_heapcleaning_result [OF ok m] by blast
  with r on show ?thesis using pth_step.start [OF m r] m by (intro exI [of _ ?t]) auto
qed

lemma all_running_stop:
  assumes "pth_ok s" and "nobody_oversleeps s" and "heapcleaner_state s = HEAPCLEANER_IS_STARTING"
  shows "\<exists>t. pth_step\<^sup>*\<^sup>* s t \<and> pth_ok t \<and> nobody_oversleeps t \<and> heapcleaner_state t = HEAPCLEANER_IS_STARTING \<and>
    running_threads t = {} \<and> (\<forall>j. mode s j \<noteq> HOSTTHREAD_IS_RUNNING \<longrightarrow> mode t j = mode s j)"
  using assms
proof (induction "card (running_threads s)" arbitrary: s rule: less_induct)
  case less
  show ?case
  proof (cases "running_threads s = {}")
    case True
    with less.prems show ?thesis by blast
  next
    case False
    then obtain i where i: "i \<in> running_threads s" by blast
    obtain u where u: "pth_step s u" "pth_ok u" "heapcleaner_state u = HEAPCLEANER_IS_STARTING"
      "running_threads u = running_threads s - {i}" "\<forall>j. mode s j \<noteq> HOSTTHREAD_IS_RUNNING \<longrightarrow> mode u j = mode s j"
      using secondary_step [OF less.prems(1,3) i] by blast
    have "card (running_threads u) < card (running_threads s)" unfolding u(4) using i by (intro card_Diff1_less) simp_all
    from less.hyps [OF this u(2) step_nobody_oversleeps [OF u(1) less.prems(2)] u(3)] obtain t where t: "pth_step\<^sup>*\<^sup>* u t" "pth_ok t"
      "nobody_oversleeps t" "heapcleaner_state t = HEAPCLEANER_IS_STARTING"
      "running_threads t = {}" "\<forall>j. mode u j \<noteq> HOSTTHREAD_IS_RUNNING \<longrightarrow> mode t j = mode u j" by blast
    have "\<forall>j. mode s j \<noteq> HOSTTHREAD_IS_RUNNING \<longrightarrow> mode t j = mode s j" using u(5) t(6) by metis
    with t u(1) show ?thesis by (meson converse_rtranclp_into_rtranclp)
  qed
qed

lemma running_cleaner_finishes:
  assumes ok: "pth_ok s" and on: "heapcleaner_state s = HEAPCLEANER_IS_RUNNING"
  shows "\<exists>t. pth_step s t \<and> heapcleaner_state t = HEAPCLEANER_IS_OFF \<and> sleepers t = {} \<and>
    (\<forall>j. mode s j \<noteq> HOSTTHREAD_IS_PRIMARY_HEAPCLEANER \<longrightarrow> mode t j = mode s j)"
proof -
  obtain i where i: "mode s i = HOSTTHREAD_IS_PRIMARY_HEAPCLEANER" using ok on by (auto simp: pth_ok_def one_primary_def)
  show ?thesis
    using pth_step.finish [OF i on] i
    by (intro exI [of _ "pth__finish_heapcleaning i s"]) (auto simp: pth__finish_heapcleaning_def)
qed

lemma off_all_awake:
  assumes "pth_ok s" and "nobody_oversleeps s" and "heapcleaner_state s = HEAPCLEANER_IS_OFF"
  shows "sleepers s = {}"
  using assms by (auto simp: nobody_oversleeps_def has_to_wait_def)

lemma cleaning_ends:
  assumes ok: "pth_ok s" and well: "nobody_oversleeps s"
  shows "\<exists>t. pth_step\<^sup>*\<^sup>* s t \<and> heapcleaner_state t = HEAPCLEANER_IS_OFF \<and> sleepers t = {} \<and>
    (\<forall>j. mode s j \<in> {HOSTTHREAD_IS_BLOCKED, HOSTTHREAD_IS_SECONDARY_HEAPCLEANER} \<longrightarrow> mode t j = mode s j)"
proof (cases "heapcleaner_state s")
  case HEAPCLEANER_IS_OFF
  with off_all_awake [OF ok well] show ?thesis by blast
next
  case HEAPCLEANER_IS_RUNNING
  from running_cleaner_finishes [OF ok this] obtain t where "pth_step s t" "heapcleaner_state t = HEAPCLEANER_IS_OFF" "sleepers t = {}"
    "\<forall>j. mode s j \<noteq> HOSTTHREAD_IS_PRIMARY_HEAPCLEANER \<longrightarrow> mode t j = mode s j" by blast
  then show ?thesis by (intro exI [of _ t]) auto
next
  case HEAPCLEANER_IS_STARTING
  from all_running_stop [OF ok well this] obtain u where u: "pth_step\<^sup>*\<^sup>* s u" "pth_ok u" "nobody_oversleeps u"
    "heapcleaner_state u = HEAPCLEANER_IS_STARTING" "running_threads u = {}"
    "\<forall>j. mode s j \<noteq> HOSTTHREAD_IS_RUNNING \<longrightarrow> mode u j = mode s j" by blast
  obtain i where i: "mode u i = HOSTTHREAD_IS_PRIMARY_HEAPCLEANER" using u(2,4) by (auto simp: pth_ok_def one_primary_def)
  have c: "running_hostthreads_count u = 0" using u(2,5) by (simp add: pth_ok_def count_right_def)
  have awake: "i \<notin> sleepers u" using u(3) i c by (auto simp: nobody_oversleeps_def has_to_wait_def)
  let ?v = "primary_proceeds i u"
  have v: "pth_step u ?v" by (rule pth_step.proceed [OF i u(4) awake])
  have "pth_ok ?v" "heapcleaner_state ?v = HEAPCLEANER_IS_RUNNING" "mode ?v = mode u"
    using proceed_ok [OF u(2,4)] c by (simp_all add: primary_proceeds_def)
  with running_cleaner_finishes [of ?v] obtain t where t: "pth_step ?v t" "heapcleaner_state t = HEAPCLEANER_IS_OFF" "sleepers t = {}"
    "\<forall>j. mode u j \<noteq> HOSTTHREAD_IS_PRIMARY_HEAPCLEANER \<longrightarrow> mode t j = mode u j" by auto
  have "pth_step\<^sup>*\<^sup>* s t" using u(1) v t(1) by (meson rtranclp.rtrancl_into_rtrancl)
  moreover have "mode t j = mode s j" if "mode s j \<in> {HOSTTHREAD_IS_BLOCKED, HOSTTHREAD_IS_SECONDARY_HEAPCLEANER}" for j
    using that u(6) t(4) by auto
  ultimately show ?thesis using t(2,3) by blast
qed

text \<open>
  C19. No wake-up is lost and the protocol does not deadlock. In every reachable state a thread
  asleep in a wait for the condition variable has to wait: the cleaner is not off, or it is the
  primary cleaner and threads still run. And from every reachable state the cleaning that is on
  can be brought to its end by steps of the program alone, without the host waking anybody for
  no reason; in the state reached nobody is asleep, and every thread that was waiting (blocked
  in a host call it has to come back from, or a secondary cleaner) runs Mythryl code after its
  next step.
\<close>

theorem waiting_threads_can_go_on:
  assumes "reachable s"
  shows "(\<forall>i \<in> sleepers s.
      (mode s i = HOSTTHREAD_IS_BLOCKED \<or> mode s i = HOSTTHREAD_IS_SECONDARY_HEAPCLEANER) \<and> heapcleaner_state s \<noteq> HEAPCLEANER_IS_OFF \<or>
      mode s i = HOSTTHREAD_IS_PRIMARY_HEAPCLEANER \<and> heapcleaner_state s = HEAPCLEANER_IS_STARTING \<and> running_hostthreads_count s > 0) \<and>
    (\<exists>t. pth_step\<^sup>*\<^sup>* s t \<and> heapcleaner_state t = HEAPCLEANER_IS_OFF \<and> sleepers t = {} \<and>
    (\<forall>i. mode s i = HOSTTHREAD_IS_BLOCKED \<longrightarrow>
      (\<exists>u. recover_mythryl_heap i t = (True, u) \<and> pth_step t u \<and> mode u i = HOSTTHREAD_IS_RUNNING)) \<and>
    (\<forall>i. mode s i = HOSTTHREAD_IS_SECONDARY_HEAPCLEANER \<longrightarrow>
      (pth_step t (secondary_resumes i t) \<and> mode (secondary_resumes i t) i = HOSTTHREAD_IS_RUNNING)))"
proof -
  have well: "nobody_oversleeps s" by (rule reachable_nobody_oversleeps [OF assms])
  obtain t where t: "pth_step\<^sup>*\<^sup>* s t" "heapcleaner_state t = HEAPCLEANER_IS_OFF" "sleepers t = {}"
    "\<And>j. mode s j \<in> {HOSTTHREAD_IS_BLOCKED, HOSTTHREAD_IS_SECONDARY_HEAPCLEANER} \<Longrightarrow> mode t j = mode s j"
    using cleaning_ends [OF reachable_ok [OF assms] well] by blast
  have "\<exists>u. recover_mythryl_heap i t = (True, u) \<and> pth_step t u \<and> mode u i = HOSTTHREAD_IS_RUNNING"
    if "mode s i = HOSTTHREAD_IS_BLOCKED" for i
    using t(2,3) t(4) [of i] that pth_step.recover [of t i] by (simp add: recover_mythryl_heap_def)
  moreover have "pth_step t (secondary_resumes i t) \<and> mode (secondary_resumes i t) i = HOSTTHREAD_IS_RUNNING"
    if "mode s i = HOSTTHREAD_IS_SECONDARY_HEAPCLEANER" for i
    using t(2,3) t(4) [of i] that pth_step.resume [of t i] by (simp add: secondary_resumes_def)
  moreover have "\<forall>i \<in> sleepers s.
      (mode s i = HOSTTHREAD_IS_BLOCKED \<or> mode s i = HOSTTHREAD_IS_SECONDARY_HEAPCLEANER) \<and> heapcleaner_state s \<noteq> HEAPCLEANER_IS_OFF \<or>
      mode s i = HOSTTHREAD_IS_PRIMARY_HEAPCLEANER \<and> heapcleaner_state s = HEAPCLEANER_IS_STARTING \<and> running_hostthreads_count s > 0"
    using well unfolding nobody_oversleeps_def has_to_wait_def .
  ultimately show ?thesis using t(1,2,3) by (intro conjI exI [of _ t]) blast+
qed

theorem waiting_threads_can_go_on_witness:
  "\<exists>t. pth_step\<^sup>*\<^sup>* alone_cleaning t \<and> heapcleaner_state t = HEAPCLEANER_IS_OFF \<and> sleepers t = {}"
  using waiting_threads_can_go_on [OF alone_cleaning_reachable] by blast

end
