(* ===== verification/Hostthread_Roots.thy ===== *)
theory Hostthread_Roots
  imports Hostthread_Protocol
begin

text \<open>
  The roots a cleaning starts from (\<open>src/c/heapcleaner/call-heapcleaner.c\<close>): the extra roots of
  the threads that came along, the C roots, and the registers of every thread in use. The
  buffer of extra roots does not overflow while no call brings more than 15, and it does not
  always hold the roots of every thread that waits.
\<close>

section \<open>The buffer of extra roots\<close>

definition cleaning_mode :: "Hostthread_Mode \<Rightarrow> bool" where
  "cleaning_mode m \<longleftrightarrow> m = HOSTTHREAD_IS_PRIMARY_HEAPCLEANER \<or> m = HOSTTHREAD_IS_SECONDARY_HEAPCLEANER"

definition brought :: "pth_state \<Rightarrow> nat" where
  "brought s = (\<Sum>i < MAX_HOSTTHREADS. length (call_roots s i))"

definition roots_ok :: "pth_state \<Rightarrow> bool" where
  "roots_ok s \<longleftrightarrow> (\<forall>i. \<not> cleaning_mode (mode s i) \<longrightarrow> call_roots s i = []) \<and>
     (heapcleaner_state s \<noteq> HEAPCLEANER_IS_OFF \<longrightarrow> length (extra_roots s) \<le> brought s \<and>
       (\<forall>i. mode s i = HOSTTHREAD_IS_PRIMARY_HEAPCLEANER \<longrightarrow> set (call_roots s i) \<subseteq> set (extra_roots s)))"

lemma brought_update:
  assumes "i < MAX_HOSTTHREADS" and "call_roots s i = []" and "call_roots t = (call_roots s)(i := rs)"
  shows "brought t = brought s + length rs"
proof -
  have "brought t = length (call_roots t i) + (\<Sum>j \<in> {..< MAX_HOSTTHREADS} - {i}. length (call_roots t j))"
    unfolding brought_def using assms(1) by (intro sum.remove) simp_all
  also have "(\<Sum>j \<in> {..< MAX_HOSTTHREADS} - {i}. length (call_roots t j)) =
      (\<Sum>j \<in> {..< MAX_HOSTTHREADS} - {i}. length (call_roots s j))"
    unfolding assms(3) by (rule sum.cong) simp_all
  also have "brought s = length (call_roots s i) + (\<Sum>j \<in> {..< MAX_HOSTTHREADS} - {i}. length (call_roots s j))"
    unfolding brought_def using assms(1) by (intro sum.remove) simp_all
  ultimately show ?thesis using assms(2,3) by simp
qed

lemma brought_same: "call_roots t = call_roots s \<Longrightarrow> brought t = brought s"
  by (simp add: brought_def)

lemma roots_ok_cond [simp]:
  "roots_ok (pthread_cond_wait i s) = roots_ok s" "roots_ok (pthread_cond_broadcast s) = roots_ok s"
  by (simp_all add: roots_ok_def brought_def)

lemma roots_ok_mode_change:
  assumes "roots_ok s" and "call_roots t = call_roots s" and "extra_roots t = extra_roots s"
    and "heapcleaner_state t = heapcleaner_state s" and "\<And>j. mode t j = mode s j \<or> \<not> cleaning_mode (mode s j)"
  shows "roots_ok t"
proof -
  have "call_roots t j = []" if "\<not> cleaning_mode (mode t j)" for j
    using assms(1,2,5) that unfolding roots_ok_def by metis
  moreover have "set (call_roots t j) \<subseteq> set (extra_roots t)"
    if "heapcleaner_state t \<noteq> HEAPCLEANER_IS_OFF" "mode t j = HOSTTHREAD_IS_PRIMARY_HEAPCLEANER" for j
  proof (cases "mode t j = mode s j")
    case True
    then show ?thesis using assms(1-4) that unfolding roots_ok_def by simp
  next
    case False
    then have "call_roots s j = []" using assms(1,5) unfolding roots_ok_def by metis
    then show ?thesis using assms(2) by simp
  qed
  ultimately show ?thesis using assms(1,3,4) brought_same [OF assms(2)] unfolding roots_ok_def by simp
qed

lemma roots_ok_off:
  assumes "roots_ok s" and "call_roots t = (call_roots s)(i := [])" and "heapcleaner_state t = HEAPCLEANER_IS_OFF"
    and "\<And>j. j \<noteq> i \<Longrightarrow> mode t j = mode s j"
  shows "roots_ok t"
  using assms unfolding roots_ok_def by (metis fun_upd_apply)

lemma start_call_roots:
  assumes ok: "pth_ok s" and roots: "roots_ok s" and i: "mode s i = HOSTTHREAD_IS_RUNNING"
    and t: "call_roots t = (call_roots s)(i := rs)" "cleaning_mode (mode t i)" "\<And>j. j \<noteq> i \<Longrightarrow> mode t j = mode s j"
      "extra_roots t = (if heapcleaner_state s = HEAPCLEANER_IS_OFF then rs else extra_roots s @ rs)"
  shows "roots_ok t"
proof -
  have c: "i < MAX_HOSTTHREADS" by (rule running_inside [of s i]) (use ok i in \<open>simp_all add: pth_ok_def\<close>)
  have e: "call_roots s i = []" using roots i unfolding roots_ok_def cleaning_mode_def by auto
  have b: "brought t = brought s + length rs" by (rule brought_update [OF c e t(1)])
  have "set (call_roots t j) \<subseteq> set (extra_roots t)" if "mode t j = HOSTTHREAD_IS_PRIMARY_HEAPCLEANER" for j
  proof (cases "j = i")
    case True
    then show ?thesis using t(1,4) by simp
  next
    case False
    then have j: "mode s j = HOSTTHREAD_IS_PRIMARY_HEAPCLEANER" using t(3) that by simp
    then have "heapcleaner_state s \<noteq> HEAPCLEANER_IS_OFF" using ok by (auto simp: pth_ok_def one_primary_def)
    then show ?thesis using roots j False t(1,4) unfolding roots_ok_def by auto
  qed
  then show ?thesis
    using roots b t unfolding roots_ok_def by (auto split: if_splits)
qed

lemma first_void_mode: "first_void s is = Some j \<Longrightarrow> \<not> cleaning_mode (mode s j)"
  using first_void_some by (fastforce simp: cleaning_mode_def)

lemma step_roots_ok: "pth_step s t \<Longrightarrow> pth_ok s \<Longrightarrow> roots_ok s \<Longrightarrow> roots_ok t"
proof (induction rule: pth_step.induct)
  case (release s i arg)
  show ?case
    by (rule roots_ok_mode_change [OF release(3)])
      (use release(1) in \<open>auto simp: release_mythryl_heap_def Let_def cleaning_mode_def split: option.split\<close>)
next
  case (recover s i)
  show ?case
    by (rule roots_ok_mode_change [OF recover(4)]) (use recover(1) in \<open>auto simp: recover_mythryl_heap_def cleaning_mode_def\<close>)
next
  case (start s i t)
  show ?case
    by (rule start_call_roots [OF start(3,4,1), of t "[]"])
      (use start(2) in \<open>auto simp: pth__start_heapcleaning_def Let_def seq_result_eq_Inr cleaning_mode_def
        primary_proceeds_def secondary_resumes_def split: if_splits\<close>)
next
  case (start_with_roots s i rs t)
  show ?case
    by (rule start_call_roots [OF start_with_roots(3,4,1), of t rs])
      (use start_with_roots(2) in \<open>auto simp: pth__start_heapcleaning_with_extra_roots_def append_extra_roots_def Let_def
        seq_result_eq_Inr cleaning_mode_def primary_proceeds_def secondary_resumes_def split: if_splits\<close>)
next
  case (proceed s i)
  show ?case using proceed(2,5) by (simp add: primary_proceeds_def roots_ok_def brought_def)
next
  case (finish s i)
  show ?case by (rule roots_ok_off [OF finish(4), of _ i]) (simp_all add: pth__finish_heapcleaning_def)
next
  case (resume s i)
  show ?case
  proof (cases "heapcleaner_state s = HEAPCLEANER_IS_OFF")
    case True
    show ?thesis by (rule roots_ok_off [OF resume(4), of _ i]) (simp_all add: secondary_resumes_def True)
  next
    case False
    then show ?thesis using resume(4) by (simp add: secondary_resumes_def)
  qed
next
  case (create s i err)
  show ?case
    by (rule roots_ok_mode_change [OF create(3)])
      (auto simp: pth__pthread_create_def Let_def dest: first_void_mode split: option.split)
next
  case (exit s i)
  show ?case
    by (rule roots_ok_mode_change [OF exit(3)]) (use exit(1) in \<open>auto simp: pth__pthread_exit_def cleaning_mode_def\<close>)
qed

lemma wakeup_roots_ok: "spurious_wakeup s t \<Longrightarrow> roots_ok s \<Longrightarrow> roots_ok t"
  by (induction rule: spurious_wakeup.induct) (simp add: roots_ok_def brought_def)

lemma reachable_roots_ok: "reachable s \<Longrightarrow> roots_ok s"
proof (induction rule: reachable_induct)
  case start
  show ?case by (simp add: roots_ok_def) (simp add: start_of_world_def)
qed (auto intro: step_roots_ok wakeup_roots_ok)

text \<open>
  C29. The buffer of extra roots does not overflow, and joining a cleaning with extra roots
  never fails, as long as no call brings more than 15 roots. (The limit the configuration
  names is 16; with 32 threads bringing 16 each the terminating NULL does not fit.)
\<close>

theorem extra_roots_fit:
  assumes "reachable s" and "mode s i = HOSTTHREAD_IS_RUNNING"
    and "length rs < MAX_EXTRA_HEAPCLEANER_ROOTS_PER_HOSTTHREAD"
    and "\<And>j. length (call_roots s j) < MAX_EXTRA_HEAPCLEANER_ROOTS_PER_HOSTTHREAD"
  shows "\<exists>t. pth__start_heapcleaning_with_extra_roots i rs s = Inr t \<and> length (extra_roots t) < MAX_EXTRA_HEAPCLEANER_ROOTS"
proof -
  have ok: "pth_ok s" and roots: "roots_ok s" using assms(1) by (simp_all add: reachable_ok reachable_roots_ok)
  have i: "i < MAX_HOSTTHREADS" by (rule running_inside [of s i]) (use ok assms(2) in \<open>simp_all add: pth_ok_def\<close>)
  have e: "call_roots s i = []" using roots assms(2) unfolding roots_ok_def cleaning_mode_def by auto
  let ?s = "s\<lparr>call_roots := (call_roots s)(i := rs)\<rparr>"
  have "brought ?s = brought s + length rs" by (rule brought_update [OF i e]) simp
  moreover have "brought ?s \<le> (\<Sum>j < MAX_HOSTTHREADS. 15)"
    unfolding brought_def using assms(3,4)
    by (intro sum_mono) (auto simp: MAX_EXTRA_HEAPCLEANER_ROOTS_PER_HOSTTHREAD_def less_Suc_eq_le numeral_eq_Suc)
  ultimately have sum: "brought s + length rs \<le> 480" by (simp add: MAX_HOSTTHREADS_def)
  have fits: "length (extra_roots s @ rs) < MAX_EXTRA_HEAPCLEANER_ROOTS" if "heapcleaner_state s \<noteq> HEAPCLEANER_IS_OFF"
    using that roots sum by (simp add: roots_ok_def MAX_EXTRA_HEAPCLEANER_ROOTS_def MAX_HOSTTHREADS_def
        MAX_EXTRA_HEAPCLEANER_ROOTS_PER_HOSTTHREAD_def)
  have few: "length rs < MAX_EXTRA_HEAPCLEANER_ROOTS"
    using assms(3) by (simp add: MAX_EXTRA_HEAPCLEANER_ROOTS_def MAX_HOSTTHREADS_def MAX_EXTRA_HEAPCLEANER_ROOTS_PER_HOSTTHREAD_def)
  have v: "validate_running_hostthreads_count ?s = Inr ()"
    using validate_ok ok by (simp add: validate_running_hostthreads_count_def pth_ok_def)
  show ?thesis
  proof (cases "heapcleaner_state s = HEAPCLEANER_IS_OFF")
    case True
    then show ?thesis using few v by (simp add: pth__start_heapcleaning_with_extra_roots_def Let_def append_extra_roots_def
        primary_proceeds_def not_le)
  next
    case False
    then show ?thesis
      using fits by (simp add: pth__start_heapcleaning_with_extra_roots_def Let_def append_extra_roots_def
        secondary_resumes_def not_le)
  qed
qed

theorem extra_roots_fit_witness:
  "\<exists>t. pth__start_heapcleaning_with_extra_roots 0 (replicate 15 8) start_of_world = Inr t \<and>
    length (extra_roots t) < MAX_EXTRA_HEAPCLEANER_ROOTS"
  by (rule extra_roots_fit [OF reachable_start])
    (simp_all add: start_of_world_def MAX_EXTRA_HEAPCLEANER_ROOTS_PER_HOSTTHREAD_def)

section \<open>Roots that are forgotten\<close>

text \<open>Two threads and nobody else; thread 1 is in a call that brought the given roots.\<close>

definition two_threads ::
  "Hostthread_Mode \<Rightarrow> Hostthread_Mode \<Rightarrow> Heapcleaner_State \<Rightarrow> int \<Rightarrow> val list \<Rightarrow> val list \<Rightarrow> nat set \<Rightarrow> pth_state" where
  "two_threads m0 m1 h n x c z =
     \<lparr>mode = (\<lambda>i. if i = 0 then m0 else if i = 1 then m1 else HOSTTHREAD_IS_VOID), heapcleaner_state = h,
      running_hostthreads_count = n, extra_roots = x, protected_c_arg = (\<lambda>_. None),
      call_roots = (\<lambda>i. if i = 1 then c else []), sleepers = z\<rparr>"

lemma hostthread_slots: "[0 ..< MAX_HOSTTHREADS] = 0 # 1 # [2 ..< MAX_HOSTTHREADS]"
  by (simp add: MAX_HOSTTHREADS_def upt_conv_Cons numeral_2_eq_2)

lemma two_threads_validate:
  assumes "n = (if m0 = HOSTTHREAD_IS_RUNNING then 1 else 0) + (if m1 = HOSTTHREAD_IS_RUNNING then 1 else 0)"
  shows "validate_running_hostthreads_count (two_threads m0 m1 h n x c z) = Inr ()"
proof -
  have "filter (\<lambda>i. mode (two_threads m0 m1 h n x c z) i = HOSTTHREAD_IS_RUNNING) [2 ..< MAX_HOSTTHREADS] = []"
    by (simp add: filter_empty_conv two_threads_def)
  then show ?thesis
    using assms unfolding validate_running_hostthreads_count_def hostthread_slots by (simp add: two_threads_def)
qed

lemma two_threads_updates:
  "two_threads m0 m1 h n x c z\<lparr>call_roots := (call_roots (two_threads m0 m1 h n x c z))(0 := [])\<rparr> = two_threads m0 m1 h n x c z"
  "two_threads m0 m1 h n x c z\<lparr>call_roots := (call_roots (two_threads m0 m1 h n x c z))(1 := d)\<rparr> = two_threads m0 m1 h n x d z"
  "enter_mode 0 m d' (two_threads m0 m1 h n x c z) = two_threads m m1 h (n + d') x c z"
  "enter_mode 1 m d' (two_threads m0 m1 h n x c z) = two_threads m0 m h (n + d') x c z"
  "pthread_cond_broadcast (two_threads m0 m1 h n x c z) = two_threads m0 m1 h n x c {}"
  "pthread_cond_wait j (two_threads m0 m1 h n x c z) = two_threads m0 m1 h n x c (insert j z)"
  "two_threads m0 m1 h n x c z\<lparr>heapcleaner_state := h'\<rparr> = two_threads m0 m1 h' n x c z"
  "two_threads m0 m1 h n x c z\<lparr>extra_roots := x'\<rparr> = two_threads m0 m1 h n x' c z"
  by (simp_all add: two_threads_def enter_mode_def pthread_cond_broadcast_def pthread_cond_wait_def fun_eq_iff)

lemma two_threads_fields [simp]:
  "mode (two_threads m0 m1 h n x c z) 0 = m0" "mode (two_threads m0 m1 h n x c z) (Suc 0) = m1"
  "heapcleaner_state (two_threads m0 m1 h n x c z) = h" "running_hostthreads_count (two_threads m0 m1 h n x c z) = n"
  "extra_roots (two_threads m0 m1 h n x c z) = x" "call_roots (two_threads m0 m1 h n x c z) (Suc 0) = c"
  "sleepers (two_threads m0 m1 h n x c z) = z"
  by (simp_all add: two_threads_def)

lemma two_threads_start:
  assumes "n = 1 + (if m1 = HOSTTHREAD_IS_RUNNING then 1 else 0)"
  shows "pth__start_heapcleaning 0 (two_threads HOSTTHREAD_IS_RUNNING m1 HEAPCLEANER_IS_OFF n x c z) =
    Inr (if n = 1 then two_threads HOSTTHREAD_IS_PRIMARY_HEAPCLEANER m1 HEAPCLEANER_IS_RUNNING 0 [] c {}
         else two_threads HOSTTHREAD_IS_PRIMARY_HEAPCLEANER m1 HEAPCLEANER_IS_STARTING (n - 1) [] c {0})"
proof -
  have "validate_running_hostthreads_count (two_threads HOSTTHREAD_IS_RUNNING m1 HEAPCLEANER_IS_OFF n x c z) = Inr ()"
    by (rule two_threads_validate) (simp add: assms)
  then show ?thesis
    using assms unfolding pth__start_heapcleaning_def Let_def two_threads_updates
    by (auto simp: primary_proceeds_def two_threads_updates)
qed

lemma two_threads_created:
  "fst (pth__pthread_create NO_ERROR start_of_world) =
    two_threads HOSTTHREAD_IS_RUNNING HOSTTHREAD_IS_RUNNING HEAPCLEANER_IS_OFF 2 [] [] {}"
proof -
  have "first_void start_of_world [0 ..< MAX_HOSTTHREADS] = Some 1"
    unfolding hostthread_slots by (simp add: start_of_world_def)
  then show ?thesis
    by (simp add: pth__pthread_create_def Let_def)
      (simp add: start_of_world_def enter_mode_def pthread_cond_broadcast_def two_threads_def fun_eq_iff)
qed

text \<open>Thread 1 joins the cleaning thread 0 has started; that wakes thread 0.\<close>

lemma two_threads_join:
  "pth__start_heapcleaning_with_extra_roots 1 [r]
      (two_threads HOSTTHREAD_IS_PRIMARY_HEAPCLEANER HOSTTHREAD_IS_RUNNING HEAPCLEANER_IS_STARTING 1 [] [] {0}) =
    Inr (two_threads HOSTTHREAD_IS_PRIMARY_HEAPCLEANER HOSTTHREAD_IS_SECONDARY_HEAPCLEANER HEAPCLEANER_IS_STARTING 0 [r] [r] {1})"
  unfolding pth__start_heapcleaning_with_extra_roots_def Let_def two_threads_updates append_extra_roots_def
  by (simp add: MAX_EXTRA_HEAPCLEANER_ROOTS_def MAX_HOSTTHREADS_def MAX_EXTRA_HEAPCLEANER_ROOTS_PER_HOSTTHREAD_def
      secondary_resumes_def flip: One_nat_def) (simp add: two_threads_updates secondary_resumes_def flip: One_nat_def)

text \<open>
  C20. The extra roots of a thread that waits for one cleaning can be missing in the next: thread 1
  joins a cleaning with a root, the cleaning ends, and before thread 1 has noticed, thread 0 starts
  another one. In the state reached the cleaner runs, thread 1 is still in the call that brought
  the root, and the root is not in the buffer the cleaner starts from.
\<close>

theorem extra_roots_can_be_forgotten:
  "\<exists>s. reachable s \<and> heapcleaner_state s = HEAPCLEANER_IS_RUNNING \<and> mode s 1 = HOSTTHREAD_IS_SECONDARY_HEAPCLEANER \<and>
    call_roots s 1 = [r] \<and> extra_roots s = []"
proof -
  let ?two = "two_threads" and ?p = "HOSTTHREAD_IS_PRIMARY_HEAPCLEANER" and ?s = "HOSTTHREAD_IS_SECONDARY_HEAPCLEANER"
  have 1: "reachable (?two HOSTTHREAD_IS_RUNNING HOSTTHREAD_IS_RUNNING HEAPCLEANER_IS_OFF 2 [] [] {})"
    unfolding two_threads_created [symmetric]
    by (rule reachable_step [OF reachable_start pth_step.create [of _ 0]]) (simp add: start_of_world_def)
  have 2: "reachable (?two ?p HOSTTHREAD_IS_RUNNING HEAPCLEANER_IS_STARTING 1 [] [] {0})"
    using two_threads_start [of 2 HOSTTHREAD_IS_RUNNING "[]" "[]" "{}"]
    by (intro reachable_step [OF 1 pth_step.start [of _ 0]]) simp_all
  have 3: "reachable (?two ?p ?s HEAPCLEANER_IS_STARTING 0 [r] [r] {1})"
    by (rule reachable_step [OF 2 pth_step.start_with_roots [OF _ two_threads_join]]) simp
  have "reachable (primary_proceeds 0 (?two ?p ?s HEAPCLEANER_IS_STARTING 0 [r] [r] {1}))"
    by (rule reachable_step [OF 3 pth_step.proceed]) simp_all
  then have 4: "reachable (?two ?p ?s HEAPCLEANER_IS_RUNNING 0 [r] [r] {})"
    by (simp add: primary_proceeds_def two_threads_updates)
  have "reachable (pth__finish_heapcleaning 0 (?two ?p ?s HEAPCLEANER_IS_RUNNING 0 [r] [r] {}))"
    by (rule reachable_step [OF 4 pth_step.finish]) simp_all
  moreover have "pth__finish_heapcleaning 0 (?two ?p ?s HEAPCLEANER_IS_RUNNING 0 [r] [r] {}) =
      ?two HOSTTHREAD_IS_RUNNING ?s HEAPCLEANER_IS_OFF 1 [r] [r] {}"
    by (simp add: pth__finish_heapcleaning_def two_threads_def enter_mode_def pthread_cond_broadcast_def fun_eq_iff)
  ultimately have 5: "reachable (?two HOSTTHREAD_IS_RUNNING ?s HEAPCLEANER_IS_OFF 1 [r] [r] {})" by simp
  have "reachable (?two ?p ?s HEAPCLEANER_IS_RUNNING 0 [] [r] {})"
    using two_threads_start [of 1 ?s "[r]" "[r]" "{}"]
    by (intro reachable_step [OF 5 pth_step.start [of _ 0]]) simp_all
  then show ?thesis
    by (intro exI [of _ "?two ?p ?s HEAPCLEANER_IS_RUNNING 0 [] [r] {}"]) simp
qed

section \<open>The list of roots\<close>

text \<open>The root registers of a task, and where the roots of a cleaning come from.\<close>

datatype root = Extra_Root val | C_Root nat | Link_Register nat | Argument nat | Fate nat | Current_Closure nat
  | Exception_Fate nat | Current_Thread nat | Callee_Saved_Register nat nat | Protected_C_Arg nat

definition task_roots :: "nat \<Rightarrow> root list" where
  "task_roots j = [Link_Register j, Argument j, Fate j, Current_Closure j, Exception_Fate j, Current_Thread j,
     Callee_Saved_Register j 0, Callee_Saved_Register j 1, Callee_Saved_Register j 2, Protected_C_Arg j]"

text \<open>The configuration for intel32: 26 root registers and 2 pseudo registers.\<close>

definition MAX_C_HEAPCLEANER_ROOTS :: nat where
  "MAX_C_HEAPCLEANER_ROOTS = 16"

definition NROOTS :: nat where
  "NROOTS = 26"

definition N_PSEUDO_ROOTS :: nat where
  "N_PSEUDO_ROOTS = 2"

definition MAX_TOTAL_CLEANING_ROOTS :: nat where
  "MAX_TOTAL_CLEANING_ROOTS = round_up_to_power_of_two
     (MAX_HOSTTHREADS * (MAX_C_HEAPCLEANER_ROOTS + NROOTS + N_PSEUDO_ROOTS)
      + (MAX_HOSTTHREADS - 1) * MAX_EXTRA_HEAPCLEANER_ROOTS_PER_HOSTTHREAD + 1) 8"

text \<open>The list has a NULL at its end; the check for its end comes after the writes.\<close>

definition cleaning_roots :: "nat \<Rightarrow> pth_state \<Rightarrow> root list result" where
  "cleaning_roots c_roots_count s =
     (let roots = map Extra_Root (extra_roots s) @ map C_Root [0 ..< c_roots_count]
        @ concat (map task_roots (filter (\<lambda>j. mode s j \<noteq> HOSTTHREAD_IS_VOID) [0 ..< MAX_HOSTTHREADS]))
      in if MAX_TOTAL_CLEANING_ROOTS \<le> length roots then Inl Wild else Inr roots)"

lemma length_task_roots: "length (concat (map task_roots is)) = 10 * length is"
  by (induction "is") (simp_all add: task_roots_def)

lemma few_extra_roots:
  assumes "reachable s" and "heapcleaner_state s \<noteq> HEAPCLEANER_IS_OFF"
    and "\<And>j. length (call_roots s j) \<le> MAX_EXTRA_HEAPCLEANER_ROOTS_PER_HOSTTHREAD"
  shows "length (extra_roots s) \<le> 512"
proof -
  have "length (extra_roots s) \<le> brought s"
    using reachable_roots_ok [OF assms(1)] assms(2) by (simp add: roots_ok_def)
  also have "brought s \<le> (\<Sum>j < MAX_HOSTTHREADS. 16)"
    unfolding brought_def using assms(3) by (intro sum_mono) (simp add: MAX_EXTRA_HEAPCLEANER_ROOTS_PER_HOSTTHREAD_def)
  finally show ?thesis by (simp add: MAX_HOSTTHREADS_def)
qed

text \<open>
  C34. The roots a running cleaning starts from, in every reachable state in which no call has
  brought more than 16 extra roots and there are at most 16 C roots: building the list does not
  overrun it, and it holds the extra roots in the buffer (those of the call of the primary
  cleaner among them), the C roots, and of every thread whose table slot is not void (a blocked
  thread as well) the link register, argument, fate, current closure, exception fate and current
  thread, the three callee-saved registers and the protected C argument, and nothing else.
\<close>

theorem every_thread_in_use_is_a_root:
  assumes "reachable s" and "heapcleaner_state s = HEAPCLEANER_IS_RUNNING" and "n \<le> MAX_C_HEAPCLEANER_ROOTS"
    and "\<And>j. length (call_roots s j) \<le> MAX_EXTRA_HEAPCLEANER_ROOTS_PER_HOSTTHREAD"
  shows "\<exists>roots. cleaning_roots n s = Inr roots \<and>
    set roots = Extra_Root ` set (extra_roots s) \<union> C_Root ` {..< n} \<union>
      (\<Union>j \<in> {j. mode s j \<noteq> HOSTTHREAD_IS_VOID}.
        {Link_Register j, Argument j, Fate j, Current_Closure j, Exception_Fate j, Current_Thread j,
         Callee_Saved_Register j 0, Callee_Saved_Register j 1, Callee_Saved_Register j 2, Protected_C_Arg j}) \<and>
    (\<forall>j. mode s j = HOSTTHREAD_IS_PRIMARY_HEAPCLEANER \<longrightarrow> Extra_Root ` set (call_roots s j) \<subseteq> set roots)"
proof -
  let ?used = "filter (\<lambda>j. mode s j \<noteq> HOSTTHREAD_IS_VOID) [0 ..< MAX_HOSTTHREADS]"
  have "length ?used \<le> length [0 ..< MAX_HOSTTHREADS]" by (rule length_filter_le)
  then have used: "length ?used \<le> 32" by (simp add: MAX_HOSTTHREADS_def)
  have "round_up_to_power_of_two 1905 (2 ^ 3) = 1912" by (subst round_up_eq) simp_all
  then have total: "MAX_TOTAL_CLEANING_ROOTS = 1912"
    by (simp add: MAX_TOTAL_CLEANING_ROOTS_def MAX_HOSTTHREADS_def MAX_C_HEAPCLEANER_ROOTS_def NROOTS_def N_PSEUDO_ROOTS_def
        MAX_EXTRA_HEAPCLEANER_ROOTS_PER_HOSTTHREAD_def)
  have "length (extra_roots s) \<le> 512" using few_extra_roots [OF assms(1) _ assms(4)] assms(2) by simp
  then have "length (extra_roots s) + n + 10 * length ?used < MAX_TOTAL_CLEANING_ROOTS"
    using assms(3) used unfolding total by (simp add: MAX_C_HEAPCLEANER_ROOTS_def)
  then have built: "cleaning_roots n s = Inr (map Extra_Root (extra_roots s) @ map C_Root [0 ..< n] @ concat (map task_roots ?used))"
    by (simp add: cleaning_roots_def Let_def length_task_roots)
  let ?roots = "map Extra_Root (extra_roots s) @ map C_Root [0 ..< n] @ concat (map task_roots ?used)"
  have used_set: "set ?used = {j. mode s j \<noteq> HOSTTHREAD_IS_VOID}"
    using reachable_ok [OF assms(1)] running_inside by (auto simp: pth_ok_def)
  have regs: "set (task_roots j) = {Link_Register j, Argument j, Fate j, Current_Closure j, Exception_Fate j, Current_Thread j,
      Callee_Saved_Register j 0, Callee_Saved_Register j 1, Callee_Saved_Register j 2, Protected_C_Arg j}" for j
    by (simp only: task_roots_def list.simps)
  have roots: "set ?roots = Extra_Root ` set (extra_roots s) \<union> C_Root ` {..< n} \<union>
      (\<Union>j \<in> {j. mode s j \<noteq> HOSTTHREAD_IS_VOID}. set (task_roots j))"
    unfolding set_append set_concat set_map image_image used_set by (simp only: set_upt lessThan_atLeast0 Un_assoc)
  have "Extra_Root ` set (call_roots s j) \<subseteq> set ?roots" if "mode s j = HOSTTHREAD_IS_PRIMARY_HEAPCLEANER" for j
  proof -
    have "set (call_roots s j) \<subseteq> set (extra_roots s)"
      using reachable_roots_ok [OF assms(1)] assms(2) that by (simp add: roots_ok_def)
    then show ?thesis unfolding roots by blast
  qed
  then show ?thesis
    by (intro exI [of _ ?roots] conjI built roots [unfolded regs] allI impI)
qed

theorem every_thread_in_use_is_a_root_witness:
  "\<exists>roots. cleaning_roots 4 alone_cleaning = Inr roots \<and> Link_Register 0 \<in> set roots \<and> Link_Register 1 \<notin> set roots"
proof -
  have few: "\<And>j. length (call_roots alone_cleaning j) \<le> MAX_EXTRA_HEAPCLEANER_ROOTS_PER_HOSTTHREAD"
    "heapcleaner_state alone_cleaning = HEAPCLEANER_IS_RUNNING" "4 \<le> MAX_C_HEAPCLEANER_ROOTS"
    by (simp_all add: alone_cleaning_def start_of_world_def MAX_C_HEAPCLEANER_ROOTS_def)
  have m: "mode alone_cleaning 0 \<noteq> HOSTTHREAD_IS_VOID" "mode alone_cleaning 1 = HOSTTHREAD_IS_VOID"
    by (simp_all add: alone_cleaning_def start_of_world_def)
  show ?thesis
    using every_thread_in_use_is_a_root [OF alone_cleaning_reachable few(2,3,1)]
  proof (elim exE conjE)
    fix roots
    assume r: "cleaning_roots 4 alone_cleaning = Inr roots"
      and set_roots: "set roots = Extra_Root ` set (extra_roots alone_cleaning) \<union> C_Root ` {..< 4} \<union>
      (\<Union>j \<in> {j. mode alone_cleaning j \<noteq> HOSTTHREAD_IS_VOID}.
        {Link_Register j, Argument j, Fate j, Current_Closure j, Exception_Fate j, Current_Thread j,
         Callee_Saved_Register j 0, Callee_Saved_Register j 1, Callee_Saved_Register j 2, Protected_C_Arg j})"
    have "Link_Register 0 \<in> set roots" "Link_Register 1 \<notin> set roots" unfolding set_roots using m by blast+
    with r show ?thesis by blast
  qed
qed

end
