(* ===== verification/Hostthread_Objects.thy ===== *)
theory Hostthread_Objects
  imports Slot_Vector_Facts Hostthreads
begin

text \<open>
  Mutexes, condition variables and barriers as Mythryl code sees them
  (\<open>src/c/hostthread/hostthread-on-posix-threads.c\<close>): three slot vectors, and the calls that look
  a record up by its integer and hand it to the host. What the host's call does to the record is
  the host's; its result is an argument. A call during which the thread may block is in two
  parts, because the state changes in between: the part up to the host's call, and the part
  after it, which waits while a cleaning is on (\<open>None\<close>).
\<close>

section \<open>Making records\<close>

record host_objects =
  mutexes :: "unit slot_vector"
  condvars :: "unit slot_vector"
  barriers :: "bool slot_vector"

definition initialize_mutex :: "errno \<Rightarrow> string option" where
  "initialize_mutex err =
     (case err of
        NO_ERROR \<Rightarrow> None
      | ENOMEM \<Rightarrow> Some ''Insufficient ram to initialize mutex''
      | EAGAIN \<Rightarrow> Some ''Insufficient (non-ram) resources to initialize mutex''
      | EPERM \<Rightarrow> Some ''Caller lacks privilege to initialize mutex''
      | EBUSY \<Rightarrow> Some ''Attempt to reinitialize the object referenced by mutex, a previously initialized, but not yet destroyed, mutex.''
      | EINVAL \<Rightarrow> Some ''Invalid attribute''
      | _ \<Rightarrow> Some ''Undocumented error return from pthread_mutex_init()'')"

definition make_mutex_record :: "host \<Rightarrow> unit record_maker" where
  "make_mutex_record os v =
     (if \<not> malloc_ok os then Inl (Died ''allocate_mutex_record: Unable to allocate mutex record'')
      else case initialize_mutex (init_result os) of
        Some err \<Rightarrow> Inl (Died err)
      | None \<Rightarrow> Inr (new_record () v))"

definition initialize_condvar :: "errno \<Rightarrow> string option" where
  "initialize_condvar err =
     (case err of
        NO_ERROR \<Rightarrow> None
      | ENOMEM \<Rightarrow> Some ''Insufficient ram to initialize condvar''
      | EAGAIN \<Rightarrow> Some ''Insufficient (non-ram) resources to initialize condvar''
      | EPERM \<Rightarrow> Some ''Caller lacks privilege to initialize condvar''
      | EBUSY \<Rightarrow> Some ''Attempt to reinitialize the object referenced by condvar, a previously initialized, but not yet destroyed, condvar.''
      | EINVAL \<Rightarrow> Some ''Invalid attribute''
      | _ \<Rightarrow> Some ''Undocumented error return from pthread_cond_init()'')"

definition make_condvar_record :: "host \<Rightarrow> unit record_maker" where
  "make_condvar_record os v =
     (if \<not> malloc_ok os then Inl (Died ''allocate_condvar_record: Unable to allocate condvar record'')
      else case initialize_condvar (init_result os) of
        Some err \<Rightarrow> Inl (Died err)
      | None \<Rightarrow> Inr (new_record () v))"

text \<open>A barrier's record says whether the barrier is set; it is not initialized when it is made.\<close>

definition make_barrier_record :: "host \<Rightarrow> bool record_maker" where
  "make_barrier_record os v =
     (if \<not> malloc_ok os then Inl (Died ''allocate_barrier_record: Unable to allocate barrier record'')
      else Inr (new_record False v))"

definition start_up_objects :: host_objects where
  "start_up_objects = \<lparr>mutexes = make_slot_vector, condvars = make_slot_vector, barriers = make_slot_vector\<rparr>"

definition find_mutex_by_id :: "host \<Rightarrow> nat \<Rightarrow> host_objects \<Rightarrow> (host_objects \<times> nat) result option" where
  "find_mutex_by_id os i ob =
     map_option (\<lambda>r. seq_result r (\<lambda>(v, m). Inr (ob\<lparr>mutexes := v\<rparr>, m))) (find_by_id os (make_mutex_record os) i (mutexes ob))"

definition find_condvar_by_id :: "host \<Rightarrow> nat \<Rightarrow> host_objects \<Rightarrow> (host_objects \<times> nat) result option" where
  "find_condvar_by_id os i ob =
     map_option (\<lambda>r. seq_result r (\<lambda>(v, m). Inr (ob\<lparr>condvars := v\<rparr>, m))) (find_by_id os (make_condvar_record os) i (condvars ob))"

definition find_barrier_by_id :: "host \<Rightarrow> nat \<Rightarrow> host_objects \<Rightarrow> (host_objects \<times> nat) result option" where
  "find_barrier_by_id os i ob =
     map_option (\<lambda>r. seq_result r (\<lambda>(v, m). Inr (ob\<lparr>barriers := v\<rparr>, m))) (find_by_id os (make_barrier_record os) i (barriers ob))"

definition pth__mutex_make :: "host \<Rightarrow> host_objects \<Rightarrow> (host_objects \<times> nat) result option" where
  "pth__mutex_make os ob =
     map_option (\<lambda>r. seq_result r (\<lambda>(v, i). Inr (ob\<lparr>mutexes := v\<rparr>, i))) (make_slot os (make_mutex_record os) (mutexes ob))"

definition pth__condvar_make :: "host \<Rightarrow> host_objects \<Rightarrow> (host_objects \<times> nat) result option" where
  "pth__condvar_make os ob =
     map_option (\<lambda>r. seq_result r (\<lambda>(v, i). Inr (ob\<lparr>condvars := v\<rparr>, i))) (make_slot os (make_condvar_record os) (condvars ob))"

definition pth__barrier_make :: "host \<Rightarrow> host_objects \<Rightarrow> (host_objects \<times> nat) result option" where
  "pth__barrier_make os ob =
     map_option (\<lambda>r. seq_result r (\<lambda>(v, i). Inr (ob\<lparr>barriers := v\<rparr>, i))) (make_slot os (make_barrier_record os) (barriers ob))"

section \<open>Calls on mutexes\<close>

text \<open>The record is freed whatever the host says about destroying it.\<close>

definition mutex_destroy_message :: "errno \<Rightarrow> string option" where
  "mutex_destroy_message err =
     (case err of
        NO_ERROR \<Rightarrow> None
      | EBUSY \<Rightarrow> Some ''pth__mutex_destroy: attempt to destroy the object referenced by mutex while it is locked or referenced''
      | EINVAL \<Rightarrow> Some ''pth__mutex_destroy: invalid mutex.''
      | _ \<Rightarrow> Some ''pth__mutex_destroy: Undocumented error return from pthread_mutex_destroy()'')"

definition pth__mutex_destroy :: "host \<Rightarrow> errno \<Rightarrow> nat \<Rightarrow> host_objects \<Rightarrow> (host_objects \<times> string option) result option" where
  "pth__mutex_destroy os err i ob =
     map_option (\<lambda>r. seq_result r (\<lambda>(ob, m).
         Inr (ob\<lparr>mutexes := clear_slot i (free_record m (mutexes ob))\<rparr>, mutex_destroy_message err)))
       (find_mutex_by_id os i ob)"

text \<open>
  The last part of a call that gave up the heap: the thread takes it back and gives its answer.
  \<open>None\<close> says that it has gone to sleep in \<open>recover_mythryl_heap\<close> and has not answered yet.
\<close>

definition once_recovered :: "nat \<Rightarrow> 'a \<Rightarrow> pth_state \<Rightarrow> pth_state \<times> 'a option" where
  "once_recovered thread answer s =
     (let (back, s) = recover_mythryl_heap thread s in (s, if back then Some answer else None))"

text \<open>The first part of a call: the record, and the thread no longer running.\<close>

definition pth__mutex_lock :: "host \<Rightarrow> nat \<Rightarrow> nat \<Rightarrow> pth_state \<Rightarrow> host_objects \<Rightarrow> (pth_state \<times> host_objects \<times> nat) result option" where
  "pth__mutex_lock os thread i s ob =
     map_option (\<lambda>r. seq_result r (\<lambda>(ob, m). Inr (release_mythryl_heap thread None s, ob, m))) (find_mutex_by_id os i ob)"

definition mutex_lock_message :: "errno \<Rightarrow> string option" where
  "mutex_lock_message err =
     (case err of
        NO_ERROR \<Rightarrow> None
      | EINVAL \<Rightarrow> Some ''pth__mutex_lock: Invalid mutex or mutex has HOSTTHREAD_PRIO_PROTECT set''
      | EBUSY \<Rightarrow> Some ''pth__mutex_lock: Mutex was already locked.''
      | EAGAIN \<Rightarrow> Some ''pth__mutex_lock: Recursive lock limit exceeded.''
      | EDEADLK \<Rightarrow> Some ''pth__mutex_lock: Deadlock, or mutex already owned by thread.''
      | _ \<Rightarrow> Some ''pth__mutex_lock: Undocumented error return from pthread_mutex_lock()'')"

definition pth__mutex_lock_done :: "nat \<Rightarrow> errno \<Rightarrow> pth_state \<Rightarrow> pth_state \<times> string option option" where
  "pth__mutex_lock_done thread err s = once_recovered thread (mutex_lock_message err) s"

text \<open>The flag of \<open>trylock\<close> says whether the mutex was taken already.\<close>

definition pth__mutex_trylock :: "host \<Rightarrow> errno \<Rightarrow> nat \<Rightarrow> host_objects \<Rightarrow> (host_objects \<times> (string + bool)) result option" where
  "pth__mutex_trylock os err i ob =
     map_option (\<lambda>r. seq_result r (\<lambda>(ob, m). Inr (ob,
         case err of
           NO_ERROR \<Rightarrow> Inr False
         | EBUSY \<Rightarrow> Inr True
         | _ \<Rightarrow> Inl ''pth__mutex_trylock: Error while attempting to test mutex.'')))
       (find_mutex_by_id os i ob)"

definition pth__mutex_unlock :: "host \<Rightarrow> nat \<Rightarrow> nat \<Rightarrow> pth_state \<Rightarrow> host_objects \<Rightarrow> (pth_state \<times> host_objects \<times> nat) result option" where
  "pth__mutex_unlock os thread i s ob =
     map_option (\<lambda>r. seq_result r (\<lambda>(ob, m). Inr (release_mythryl_heap thread None s, ob, m))) (find_mutex_by_id os i ob)"

definition mutex_unlock_message :: "errno \<Rightarrow> string option" where
  "mutex_unlock_message err =
     (case err of
        NO_ERROR \<Rightarrow> None
      | EINVAL \<Rightarrow> Some ''pth__mutex_unlock: Mutex has HOSTTHREAD_PRIO_PROTECT set''
      | EBUSY \<Rightarrow> Some ''pth__mutex_unlock: The mutex already locked.''
      | _ \<Rightarrow> Some ''pth__mutex_unlock: Undocumented error returned by pthread_mutex_unlock().'')"

definition pth__mutex_unlock_done :: "nat \<Rightarrow> errno \<Rightarrow> pth_state \<Rightarrow> pth_state \<times> string option option" where
  "pth__mutex_unlock_done thread err s = once_recovered thread (mutex_unlock_message err) s"

section \<open>Calls on condition variables\<close>

definition unless_ok :: "errno \<Rightarrow> string \<Rightarrow> string option" where
  "unless_ok err msg = (if err = NO_ERROR then None else Some msg)"

definition pth__condvar_init_done :: "nat \<Rightarrow> errno \<Rightarrow> pth_state \<Rightarrow> pth_state \<times> string option option" where
  "pth__condvar_init_done thread err s =
     once_recovered thread (unless_ok err ''pth__condvar_init: Unable to initialize condition variable.'') s"

definition pth__condvar_destroy :: "host \<Rightarrow> errno \<Rightarrow> nat \<Rightarrow> host_objects \<Rightarrow> (host_objects \<times> string option) result option" where
  "pth__condvar_destroy os err i ob =
     map_option (\<lambda>r. seq_result r (\<lambda>(ob, m).
         Inr (ob\<lparr>condvars := clear_slot i (free_record m (condvars ob))\<rparr>,
              unless_ok err ''pth__condvar_destroy: Unable to destroy condition variable.'')))
       (find_condvar_by_id os i ob)"

definition pth__condvar_wait ::
  "host \<Rightarrow> nat \<Rightarrow> nat \<Rightarrow> nat \<Rightarrow> pth_state \<Rightarrow> host_objects \<Rightarrow> (pth_state \<times> host_objects \<times> nat \<times> nat) result option" where
  "pth__condvar_wait os thread ci mi s ob =
     (case find_condvar_by_id os ci ob of
        None \<Rightarrow> None
      | Some (Inl e) \<Rightarrow> Some (Inl e)
      | Some (Inr (ob, c)) \<Rightarrow>
          map_option (\<lambda>r. seq_result r (\<lambda>(ob, m). Inr (release_mythryl_heap thread None s, ob, c, m))) (find_mutex_by_id os mi ob))"

definition pth__condvar_wait_done :: "nat \<Rightarrow> errno \<Rightarrow> pth_state \<Rightarrow> pth_state \<times> string option option" where
  "pth__condvar_wait_done thread err s =
     once_recovered thread (unless_ok err ''pth__condvar_wait: Unable to wait on condition variable.'') s"

definition pth__condvar_signal :: "host \<Rightarrow> errno \<Rightarrow> nat \<Rightarrow> host_objects \<Rightarrow> (host_objects \<times> string option) result option" where
  "pth__condvar_signal os err i ob =
     map_option (\<lambda>r. seq_result r (\<lambda>(ob, c). Inr (ob, unless_ok err ''pth__condvar_signal: Unable to signal on condition variable.'')))
       (find_condvar_by_id os i ob)"

definition pth__condvar_broadcast :: "host \<Rightarrow> errno \<Rightarrow> nat \<Rightarrow> host_objects \<Rightarrow> (host_objects \<times> string option) result option" where
  "pth__condvar_broadcast os err i ob =
     map_option (\<lambda>r. seq_result r (\<lambda>(ob, c). Inr (ob, unless_ok err ''pth__condvar_broadcast: Unable to broadcast on condition variable.'')))
       (find_condvar_by_id os i ob)"

section \<open>Calls on barriers\<close>

definition set_is_set :: "nat \<Rightarrow> bool \<Rightarrow> host_objects \<Rightarrow> host_objects result" where
  "set_is_set b x ob =
     (case sv_records (barriers ob) b of
        None \<Rightarrow> Inl Wild
      | Some _ \<Rightarrow> Inr (ob\<lparr>barriers := (barriers ob)\<lparr>sv_records := (sv_records (barriers ob))(b \<mapsto> x)\<rparr>\<rparr>))"

definition pth__barrier_init :: "host \<Rightarrow> errno \<Rightarrow> nat \<Rightarrow> host_objects \<Rightarrow> (host_objects \<times> string option) result option" where
  "pth__barrier_init os err i ob =
     map_option (\<lambda>r. seq_result r (\<lambda>(ob, b).
         if err \<noteq> NO_ERROR then Inr (ob, Some ''pth__barrier_init: Unable to set barrier.'')
         else seq_result (set_is_set b True ob) (\<lambda>ob. Inr (ob, None))))
       (find_barrier_by_id os i ob)"

definition barrier_destroy :: "errno \<Rightarrow> nat \<Rightarrow> host_objects \<Rightarrow> (host_objects \<times> string option) result" where
  "barrier_destroy err b ob =
     (if err \<noteq> NO_ERROR then Inr (ob, Some ''pth__barrier_destroy: Unable to clear barrier.'')
      else seq_result (set_is_set b False ob) (\<lambda>ob. Inr (ob, None)))"

definition pth__barrier_free :: "host \<Rightarrow> nat \<Rightarrow> host_objects \<Rightarrow> (host_objects \<times> string option) result option" where
  "pth__barrier_free os i ob =
     map_option (\<lambda>r. seq_result r (\<lambda>(ob, b).
         case sv_records (barriers ob) b of
           None \<Rightarrow> Inl Wild
         | Some True \<Rightarrow> Inr (ob, Some ''pth__barrier_wait:  Cannot free barrier while it is set.'')
         | Some False \<Rightarrow> Inr (ob\<lparr>barriers := clear_slot i (free_record b (barriers ob))\<rparr>, None)))
       (find_barrier_by_id os i ob)"

text \<open>A wait on a barrier that is not set ends at once; otherwise the thread goes to wait.\<close>

definition pth__barrier_wait ::
  "host \<Rightarrow> nat \<Rightarrow> nat \<Rightarrow> pth_state \<Rightarrow> host_objects \<Rightarrow> (pth_state \<times> host_objects \<times> (string + nat)) result option" where
  "pth__barrier_wait os thread i s ob =
     map_option (\<lambda>r. seq_result r (\<lambda>(ob, b).
         case sv_records (barriers ob) b of
           None \<Rightarrow> Inl Wild
         | Some False \<Rightarrow> Inr (s, ob, Inl ''pth__barrier_wait:  Must set barrier before waiting on it.'')
         | Some True \<Rightarrow> Inr (release_mythryl_heap thread None s, ob, Inr b)))
       (find_barrier_by_id os i ob)"

text \<open>The thread the host singles out clears the barrier; \<open>destroy_err\<close> is what the host says to that.\<close>

definition pth__barrier_wait_done ::
  "nat \<Rightarrow> errno \<Rightarrow> errno \<Rightarrow> nat \<Rightarrow> pth_state \<Rightarrow> host_objects \<Rightarrow> pth_state \<times> (host_objects \<times> bool \<times> string option) result option" where
  "pth__barrier_wait_done thread err destroy_err b s ob =
     once_recovered thread
       (case err of
           PTHREAD_BARRIER_SERIAL_THREAD \<Rightarrow> seq_result (barrier_destroy destroy_err b ob) (\<lambda>(ob, msg). Inr (ob, True, msg))
         | NO_ERROR \<Rightarrow> Inr (ob, False, None)
         | _ \<Rightarrow> Inr (ob, False, Some ''pth__barrier_wait: Fatal error while blocked at barrier.'')) s"

section \<open>Joining a thread\<close>

definition pth__pthread_join :: "nat \<Rightarrow> int \<Rightarrow> pth_state \<Rightarrow> string + pth_state" where
  "pth__pthread_join thread i s =
     (if i < 0 \<or> i \<ge> int MAX_HOSTTHREADS then Inl ''pth__pthread_join: Bogus value for hostthread_to_join_id.''
      else Inr (release_mythryl_heap thread None s))"

definition pth__pthread_join_done :: "nat \<Rightarrow> errno \<Rightarrow> pth_state \<Rightarrow> pth_state \<times> string option option" where
  "pth__pthread_join_done thread err s =
     once_recovered thread (
         case err of
           NO_ERROR \<Rightarrow> None
         | ESRCH \<Rightarrow> Some ''pth__pthread_join: No such thread.''
         | EDEADLK \<Rightarrow> Some ''pth__pthread_join: Attempt to join self (or other deadlock).''
         | EINVAL \<Rightarrow> Some ''pth__pthread_join: Not a joinable thread.''
         | _ \<Rightarrow> Some ''pth__pthread_join: Undocumented error.'') s"

end
