(* ===== verification/Hostthread_Object_Facts.thy ===== *)
theory Hostthread_Object_Facts
  imports Hostthread_Objects Hostthread_Protocol
begin

text \<open>
  The slot vectors of mutexes, condition variables and barriers are interpretations of one
  contract; the properties are about the calls Mythryl code makes.
\<close>

interpretation mutex_slots: record_maker make_mutex_record "()"
  by unfold_locales (simp add: make_mutex_record_def initialize_mutex_def willing_def)

interpretation condvar_slots: record_maker make_condvar_record "()"
  by unfold_locales (simp add: make_condvar_record_def initialize_condvar_def willing_def)

interpretation barrier_slots: record_maker make_barrier_record False
  by unfold_locales (simp add: make_barrier_record_def willing_def)

definition objects_ok :: "host_objects \<Rightarrow> bool" where
  "objects_ok ob \<longleftrightarrow> slots_ok (mutexes ob) \<and> slots_ok (condvars ob) \<and> slots_ok (barriers ob)"

lemma start_up_objects_ok: "objects_ok start_up_objects"
  by (simp add: objects_ok_def start_up_objects_def make_slot_vector_ok(1))

definition generous_host :: host where
  "generous_host = \<lparr>malloc_ok = True, realloc_ok = (\<lambda>_. True), init_result = NO_ERROR\<rparr>"

lemma generous_host_willing [simp]: "willing generous_host"
  by (simp add: willing_def generous_host_def)

section \<open>Looking records up\<close>

lemma find_mutex_ok:
  assumes "objects_ok ob" and "willing os" and "i < 2 ^ 29"
  shows "\<exists>v m. find_mutex_by_id os i ob = Some (Inr (ob\<lparr>mutexes := v\<rparr>, m)) \<and> objects_ok (ob\<lparr>mutexes := v\<rparr>) \<and>
    slot_table v = (slot_table (mutexes ob))(i \<mapsto> m) \<and> slot_table (mutexes ob) i \<in> {None, Some m}"
  using mutex_slots.find_ok [of "mutexes ob" os i] assms by (auto simp: find_mutex_by_id_def objects_ok_def)

lemma find_condvar_ok:
  assumes "objects_ok ob" and "willing os" and "i < 2 ^ 29"
  shows "\<exists>v m. find_condvar_by_id os i ob = Some (Inr (ob\<lparr>condvars := v\<rparr>, m)) \<and> objects_ok (ob\<lparr>condvars := v\<rparr>) \<and>
    slot_table v = (slot_table (condvars ob))(i \<mapsto> m) \<and> slot_table (condvars ob) i \<in> {None, Some m}"
  using condvar_slots.find_ok [of "condvars ob" os i] assms by (auto simp: find_condvar_by_id_def objects_ok_def)

text \<open>A record that is there is found and nothing changes.\<close>

lemma find_there:
  assumes "slots_ok v" and "slot_table v i = Some r"
  shows "find_by_id os mk i v = Some (Inr (v, r))"
proof -
  have i: "i < length (sv_slots v)" "sv_slots v ! i = Some r" using assms(2) by (simp_all add: slot_table_def split: if_splits)
  then have "i \<le> sv_last v" using assms(1) by (simp add: slots_ok_def)
  then show ?thesis using i by (simp add: find_by_id_def grow_to.simps [of os i v])
qed

text \<open>
  C28. While the table of mutexes has fewer than \<open>2 ^ 29\<close> slots (then its doubled size in bytes
  still fits a machine word), making a mutex succeeds on a host that gives it memory: it gives an
  integer that stood for no mutex, inside the table or inside the table doubled once, leaves every
  other integer's mutex alone, and from then on the integer leads to the new mutex without any
  further change.
\<close>

theorem new_mutex_has_a_fresh_id:
  assumes "objects_ok ob" and "willing os" and "sv_last (mutexes ob) < 2 ^ 29 - 1"
  shows "\<exists>ob' i m. pth__mutex_make os ob = Some (Inr (ob', i)) \<and> objects_ok ob' \<and>
    i \<le> 2 * sv_last (mutexes ob) + 1 \<and>
    slot_table (mutexes ob) i = None \<and> slot_table (mutexes ob') = (slot_table (mutexes ob))(i \<mapsto> m) \<and>
    (\<forall>j. slot_table (mutexes ob) j \<noteq> Some m) \<and>
    condvars ob' = condvars ob \<and> barriers ob' = barriers ob \<and> find_mutex_by_id os i ob' = Some (Inr (ob', m))"
proof -
  have v: "slots_ok (mutexes ob)" using assms(1) by (simp add: objects_ok_def)
  obtain w c where w: "make_slot os (make_mutex_record os) (mutexes ob) = Some (Inr (w, c))" "slots_ok w"
    "slot_table (mutexes ob) c = None" "slot_table w = (slot_table (mutexes ob))(c \<mapsto> sv_fresh (mutexes ob))"
    "c \<le> 2 * sv_last (mutexes ob) + 1"
    using mutex_slots.make_ok [OF v assms(2,3)] by blast
  have "slot_table w c = Some (sv_fresh (mutexes ob))" using w(4) by simp
  from find_there [OF w(2) this] have "find_mutex_by_id os c (ob\<lparr>mutexes := w\<rparr>) = Some (Inr (ob\<lparr>mutexes := w\<rparr>, sv_fresh (mutexes ob)))"
    by (simp add: find_mutex_by_id_def)
  moreover have "slot_table (mutexes ob) j \<noteq> Some (sv_fresh (mutexes ob))" for j
    using v unfolding slots_ok_def by (metis less_irrefl)
  moreover have "pth__mutex_make os ob = Some (Inr (ob\<lparr>mutexes := w\<rparr>, c))" using w(1) by (simp add: pth__mutex_make_def)
  moreover have "objects_ok (ob\<lparr>mutexes := w\<rparr>)" using assms(1) w(2) by (simp add: objects_ok_def)
  ultimately show ?thesis
    using w(3-5) by (intro exI [of _ "ob\<lparr>mutexes := w\<rparr>"] exI [of _ c] exI [of _ "sv_fresh (mutexes ob)"]) simp
qed

theorem new_mutex_has_a_fresh_id_witness:
  "\<exists>ob' i m. pth__mutex_make generous_host start_up_objects = Some (Inr (ob', i)) \<and>
    find_mutex_by_id generous_host i ob' = Some (Inr (ob', m))"
proof -
  have "sv_last (mutexes start_up_objects) < 2 ^ 29 - 1" by (simp add: start_up_objects_def make_slot_vector_def)
  from new_mutex_has_a_fresh_id [OF start_up_objects_ok generous_host_willing this] show ?thesis by blast
qed

text \<open>
  C30. Locking and later unlocking an integer are about the same mutex, whether the integer stood
  for one before or is left over from a saved heap image, and neither call changes which mutex
  another integer stands for. The thread is not running Mythryl code while it may block. When
  the call is over it runs it again if no cleaning is on, and goes to sleep until a broadcast if one is.
\<close>

theorem lock_and_unlock_agree:
  assumes "objects_ok ob" and "willing os" and "i < 2 ^ 29"
  shows "\<exists>s1 ob1 m. pth__mutex_lock os thread i s ob = Some (Inr (s1, ob1, m)) \<and> objects_ok ob1 \<and>
    slot_table (mutexes ob1) = (slot_table (mutexes ob))(i \<mapsto> m) \<and> slot_table (mutexes ob) i \<in> {None, Some m} \<and>
    mode s1 thread = HOSTTHREAD_IS_BLOCKED \<and>
    (\<forall>s2. \<exists>s3. pth__mutex_unlock os thread i s2 ob1 = Some (Inr (s3, ob1, m))) \<and>
    (\<forall>s2. if heapcleaner_state s2 = HEAPCLEANER_IS_OFF
           then \<exists>s3. pth__mutex_lock_done thread NO_ERROR s2 = (s3, Some None) \<and> mode s3 thread = HOSTTHREAD_IS_RUNNING
           else pth__mutex_lock_done thread NO_ERROR s2 = (pthread_cond_wait thread s2, None))"
proof -
  obtain v m where v: "find_mutex_by_id os i ob = Some (Inr (ob\<lparr>mutexes := v\<rparr>, m))" "objects_ok (ob\<lparr>mutexes := v\<rparr>)"
    "slot_table v = (slot_table (mutexes ob))(i \<mapsto> m)" "slot_table (mutexes ob) i \<in> {None, Some m}"
    using find_mutex_ok [OF assms] by blast
  let ?ob = "ob\<lparr>mutexes := v\<rparr>"
  have "pth__mutex_lock os thread i s ob = Some (Inr (release_mythryl_heap thread None s, ?ob, m))"
    using v(1) by (simp add: pth__mutex_lock_def)
  moreover have "mode (release_mythryl_heap thread None s) thread = HOSTTHREAD_IS_BLOCKED"
    by (simp add: release_mythryl_heap_def Let_def)
  moreover have "find_mutex_by_id os i ?ob = Some (Inr (?ob, m))"
  proof -
    have "slots_ok v" "slot_table v i = Some m" using v(2,3) by (simp_all add: objects_ok_def)
    from find_there [OF this] show ?thesis by (simp add: find_mutex_by_id_def)
  qed
  then have "pth__mutex_unlock os thread i s2 ?ob = Some (Inr (release_mythryl_heap thread None s2, ?ob, m))" for s2
    by (simp add: pth__mutex_unlock_def)
  ultimately show ?thesis
    using v(2-4) by (auto simp: pth__mutex_lock_done_def once_recovered_def recover_mythryl_heap_def mutex_lock_message_def)
qed

theorem lock_and_unlock_agree_witness:
  "\<exists>s1 ob1 m. pth__mutex_lock generous_host 0 5000 start_of_world start_up_objects = Some (Inr (s1, ob1, m)) \<and>
    mode s1 0 = HOSTTHREAD_IS_BLOCKED"
  using lock_and_unlock_agree [OF start_up_objects_ok generous_host_willing, of 5000 0 start_of_world] by auto

text \<open>
  C32. Destroying a mutex the host reports as busy gives the error message, and frees the mutex and
  clears its slot all the same: the record another thread holds is gone, and the next use of the
  integer makes a different mutex.
\<close>

theorem busy_mutex_is_freed:
  assumes ok: "objects_ok ob" and os: "willing os" and i: "i < 2 ^ 29" and m: "slot_table (mutexes ob) i = Some m"
  shows "\<exists>ob' msg. pth__mutex_destroy os EBUSY i ob = Some (Inr (ob', Some msg)) \<and> objects_ok ob' \<and>
    sv_records (mutexes ob') m = None \<and> slot_table (mutexes ob') = (slot_table (mutexes ob))(i := None) \<and>
    (\<exists>ob'' m'. find_mutex_by_id os i ob' = Some (Inr (ob'', m')) \<and> m' \<noteq> m)"
proof -
  have v: "slots_ok (mutexes ob)" using ok by (simp add: objects_ok_def)
  have len: "i < length (sv_slots (mutexes ob))" using m by (simp add: slot_table_def split: if_splits)
  let ?c = "clear_slot i (mutexes ob)" and ?w = "clear_slot i (free_record m (mutexes ob))"
  have c: "slots_ok ?c" "slot_table ?c = (slot_table (mutexes ob))(i := None)"
    using clear_slot_ok [OF v len] by auto
  have "slot_table ?c j \<noteq> Some m" for j using v m unfolding c(2) slots_ok_def by auto
  note free = free_record_ok [OF c(1) this]
  have w: "?w = free_record m ?c" by (simp add: clear_slot_def free_record_def)
  let ?ob = "ob\<lparr>mutexes := ?w\<rparr>"
  have d: "pth__mutex_destroy os EBUSY i ob = Some (Inr (?ob, mutex_destroy_message EBUSY))"
    using find_there [OF v m] by (simp add: pth__mutex_destroy_def find_mutex_by_id_def)
  have ok': "objects_ok ?ob" using ok free(1) w by (simp add: objects_ok_def)
  have t: "slot_table ?w = (slot_table (mutexes ob))(i := None)" using free(2) w c(2) by simp
  obtain w' m' where f: "find_by_id os (make_mutex_record os) i ?w = Some (Inr (w', m'))" "slot_table ?w i = None \<longrightarrow> m' \<ge> sv_fresh ?w"
    using mutex_slots.find_ok [of ?w os i] ok' os i by (auto simp: objects_ok_def)
  have "m < sv_fresh (mutexes ob)" using v m unfolding slots_ok_def by blast
  then have "m' \<noteq> m" using f(2) t by (auto simp: clear_slot_def free_record_def)
  moreover have "find_mutex_by_id os i ?ob = Some (Inr (?ob\<lparr>mutexes := w'\<rparr>, m'))" using f(1) by (simp add: find_mutex_by_id_def)
  moreover have "sv_records ?w m = None" by (simp add: clear_slot_def free_record_def)
  ultimately show ?thesis using d ok' t by (auto simp: mutex_destroy_message_def)
qed

definition one_mutex :: host_objects where
  "one_mutex = start_up_objects\<lparr>mutexes := fill_slot 1 () make_slot_vector\<rparr>"

lemma one_mutex_ok: "objects_ok one_mutex" "slot_table (mutexes one_mutex) 1 = Some 0"
proof -
  have "slot_table make_slot_vector 1 = None" "1 \<le> sv_last make_slot_vector"
    by (simp add: make_slot_vector_ok(2)) (simp add: make_slot_vector_def)
  note f = fill_slot_ok [OF make_slot_vector_ok(1) this(2,1), of "()"]
  show "objects_ok one_mutex" using f(1) start_up_objects_ok by (simp add: objects_ok_def one_mutex_def)
  show "slot_table (mutexes one_mutex) 1 = Some 0" using f(2) by (simp add: one_mutex_def) (simp add: make_slot_vector_def)
qed

theorem busy_mutex_is_freed_witness:
  "\<exists>ob' msg. pth__mutex_destroy generous_host EBUSY 1 one_mutex = Some (Inr (ob', Some msg)) \<and> sv_records (mutexes ob') 0 = None"
  using busy_mutex_is_freed [OF one_mutex_ok(1) generous_host_willing _ one_mutex_ok(2)] by auto

section \<open>The life of a barrier\<close>

definition barrier_is_set :: "host_objects \<Rightarrow> nat \<Rightarrow> bool option" where
  "barrier_is_set ob i = (case slot_table (barriers ob) i of None \<Rightarrow> None | Some b \<Rightarrow> sv_records (barriers ob) b)"

lemma find_barrier_there:
  assumes "objects_ok ob" and "barrier_is_set ob i = Some x"
  shows "\<exists>b. find_barrier_by_id os i ob = Some (Inr (ob, b)) \<and> sv_records (barriers ob) b = Some x \<and> slot_table (barriers ob) i = Some b"
proof -
  obtain b where b: "slot_table (barriers ob) i = Some b" "sv_records (barriers ob) b = Some x"
    using assms(2) by (auto simp: barrier_is_set_def split: option.splits)
  have "slots_ok (barriers ob)" using assms(1) by (simp add: objects_ok_def)
  from find_there [OF this b(1)] b show ?thesis by (simp add: find_barrier_by_id_def)
qed

lemma set_is_set_ok:
  assumes "objects_ok ob" and "slot_table (barriers ob) i = Some b" and "sv_records (barriers ob) b = Some x"
  shows "\<exists>ob'. set_is_set b y ob = Inr ob' \<and> objects_ok ob' \<and> barrier_is_set ob' i = Some y \<and> slot_table (barriers ob') = slot_table (barriers ob)"
proof -
  let ?ob = "ob\<lparr>barriers := (barriers ob)\<lparr>sv_records := (sv_records (barriers ob))(b \<mapsto> y)\<rparr>\<rparr>"
  have t: "slot_table (barriers ?ob) = slot_table (barriers ob)" by (simp add: slot_table_def fun_eq_iff)
  have "slots_ok (barriers ?ob)"
    using assms(1) unfolding objects_ok_def slots_ok_def t by auto
  then have "objects_ok ?ob" using assms(1) by (simp add: objects_ok_def)
  moreover have "barrier_is_set ?ob i = Some y" using assms(2) t by (simp add: barrier_is_set_def)
  ultimately show ?thesis using assms(3) t by (simp add: set_is_set_def)
qed

text \<open>
  C31. A barrier goes round between being clear and being set: while it is clear, waiting on it is
  refused at once and it can be freed; initializing sets it; while it is set it cannot be freed,
  and a thread that waits on it gives up the heap; the one thread the host singles out finds
  it clear again when it comes back.
\<close>

theorem barrier_life:
  assumes ok: "objects_ok ob" and x: "barrier_is_set ob i = Some x"
  shows "if x
    then (\<exists>msg. pth__barrier_free os i ob = Some (Inr (ob, Some msg))) \<and>
      (\<exists>b. pth__barrier_wait os thread i s ob = Some (Inr (release_mythryl_heap thread None s, ob, Inr b)) \<and>
        (\<forall>s2. heapcleaner_state s2 = HEAPCLEANER_IS_OFF \<longrightarrow>
          (\<exists>s3 ob'. pth__barrier_wait_done thread PTHREAD_BARRIER_SERIAL_THREAD NO_ERROR b s2 ob = (s3, Some (Inr (ob', True, None))) \<and>
            objects_ok ob' \<and> barrier_is_set ob' i = Some False \<and> mode s3 thread = HOSTTHREAD_IS_RUNNING)))
    else (\<exists>msg. pth__barrier_wait os thread i s ob = Some (Inr (s, ob, Inl msg))) \<and>
      (\<exists>ob'. pth__barrier_init os NO_ERROR i ob = Some (Inr (ob', None)) \<and> objects_ok ob' \<and> barrier_is_set ob' i = Some True) \<and>
      (\<exists>ob'. pth__barrier_free os i ob = Some (Inr (ob', None)) \<and> barrier_is_set ob' i = None)"
proof -
  obtain b where b: "find_barrier_by_id os i ob = Some (Inr (ob, b))" "sv_records (barriers ob) b = Some x" "slot_table (barriers ob) i = Some b"
    using find_barrier_there [OF ok x] by blast
  show ?thesis
  proof (cases x)
    case True
    obtain ob' where ob': "set_is_set b False ob = Inr ob'" "objects_ok ob'" "barrier_is_set ob' i = Some False"
      using set_is_set_ok [OF ok b(3,2)] by blast
    then show ?thesis
      using True b(1,2) by (simp add: pth__barrier_free_def pth__barrier_wait_def pth__barrier_wait_done_def barrier_destroy_def
          once_recovered_def recover_mythryl_heap_def)
  next
    case False
    obtain ob' where ob': "set_is_set b True ob = Inr ob'" "objects_ok ob'" "barrier_is_set ob' i = Some True"
      using set_is_set_ok [OF ok b(3,2)] by blast
    have "i < length (sv_slots (barriers ob))" using b(3) by (simp add: slot_table_def split: if_splits)
    then have "slot_table (clear_slot i (free_record b (barriers ob))) i = None"
      by (simp add: slot_table_def clear_slot_def free_record_def)
    then have "barrier_is_set (ob\<lparr>barriers := clear_slot i (free_record b (barriers ob))\<rparr>) i = None"
      by (simp add: barrier_is_set_def)
    then show ?thesis
      using False b(1,2) ob' by (simp add: pth__barrier_free_def pth__barrier_wait_def pth__barrier_init_def)
  qed
qed

definition one_barrier :: host_objects where
  "one_barrier = start_up_objects\<lparr>barriers := fill_slot 1 False make_slot_vector\<rparr>"

theorem barrier_life_witness:
  "\<exists>ob'. pth__barrier_init generous_host NO_ERROR 1 one_barrier = Some (Inr (ob', None)) \<and> barrier_is_set ob' 1 = Some True"
proof -
  have "slot_table make_slot_vector 1 = None" "1 \<le> sv_last make_slot_vector"
    by (simp add: make_slot_vector_ok(2)) (simp add: make_slot_vector_def)
  note f = fill_slot_ok [OF make_slot_vector_ok(1) this(2,1), of False]
  have "objects_ok one_barrier" using f(1) start_up_objects_ok by (simp add: objects_ok_def one_barrier_def)
  moreover have "barrier_is_set one_barrier 1 = Some False" using f(2,3) by (simp add: barrier_is_set_def one_barrier_def)
  ultimately show ?thesis using barrier_life [of one_barrier 1 False, where os = generous_host and thread = 0 and s = start_of_world] by auto
qed

end
