(* ===== verification/Agegroup0_Buffers.thy ===== *)
theory Agegroup0_Buffers
  imports Hostthreads
begin

text \<open>
  The allocation buffers of agegroup 0: how the master buffer is divided between the host
  threads (\<open>src/c/heapcleaner/hostthread-heapcleaner-stuff.c\<close>), the tripwire at the end of each
  (\<open>heap-debug-stuff.c\<close>), when the heapcleaner has to be called and how much it has to clean
  (\<open>call-heapcleaner.c\<close>), and the size functions of \<open>h/heap.h\<close>. Addresses and sizes are 32-bit
  words, and pointer arithmetic wraps.
\<close>

definition MIN_FREE_BYTES_IN_AGEGROUP0_BUFFER :: val where
  "MIN_FREE_BYTES_IN_AGEGROUP0_BUFFER = (1024 + 128) * 4"

definition AGEGROUP0_OVERRUN_TRIPWIRE_BUFFER_VALUE :: val where
  "AGEGROUP0_OVERRUN_TRIPWIRE_BUFFER_VALUE = 0xDEADBEEF"

definition AGEGROUP0_OVERRUN_TRIPWIRE_BUFFER_SIZE_IN_WORDS :: nat where
  "AGEGROUP0_OVERRUN_TRIPWIRE_BUFFER_SIZE_IN_WORDS = 16"

definition AGEGROUP0_OVERRUN_TRIPWIRE_BUFFER_SIZE_IN_BYTES :: val where
  "AGEGROUP0_OVERRUN_TRIPWIRE_BUFFER_SIZE_IN_BYTES = 4 * word_of_nat AGEGROUP0_OVERRUN_TRIPWIRE_BUFFER_SIZE_IN_WORDS"

definition PERIODIC_EVENT_TIME_GRANULARITY_IN_NEXTCODE_INSTRUCTIONS :: int where
  "PERIODIC_EVENT_TIME_GRANULARITY_IN_NEXTCODE_INSTRUCTIONS = 2 ^ 10"

lemmas buffer_sizes = MIN_FREE_BYTES_IN_AGEGROUP0_BUFFER_def AGEGROUP0_OVERRUN_TRIPWIRE_BUFFER_SIZE_IN_BYTES_def
  AGEGROUP0_OVERRUN_TRIPWIRE_BUFFER_SIZE_IN_WORDS_def

section \<open>Buffers and their limits\<close>

record task_buffer =
  heap_allocation_buffer :: val
  heap_allocation_buffer_bytesize :: val
  heap_allocation_pointer :: val
  heap_allocation_limit :: val
  real_heap_allocation_limit :: val

definition HEAP_ALLOCATION_LIMIT_SIZE :: "val \<Rightarrow> val \<Rightarrow> val" where
  "HEAP_ALLOCATION_LIMIT_SIZE base bytesize =
     base + bytesize - (MIN_FREE_BYTES_IN_AGEGROUP0_BUFFER + AGEGROUP0_OVERRUN_TRIPWIRE_BUFFER_SIZE_IN_BYTES)"

definition HEAP_ALLOCATION_LIMIT :: "task_buffer \<Rightarrow> val" where
  "HEAP_ALLOCATION_LIMIT t = HEAP_ALLOCATION_LIMIT_SIZE (heap_allocation_buffer t) (heap_allocation_buffer_bytesize t)"

section \<open>The tripwire\<close>

definition tripwire_addresses :: "task_buffer \<Rightarrow> val list" where
  "tripwire_addresses t =
     map (\<lambda>i. real_heap_allocation_limit t + MIN_FREE_BYTES_IN_AGEGROUP0_BUFFER + 4 * word_of_nat i)
       [0 ..< AGEGROUP0_OVERRUN_TRIPWIRE_BUFFER_SIZE_IN_WORDS]"

definition initialize_agegroup0_overrun_tripwire_buffer :: "task_buffer \<Rightarrow> (val \<Rightarrow> val) \<Rightarrow> val \<Rightarrow> val" where
  "initialize_agegroup0_overrun_tripwire_buffer t mem =
     foldl (\<lambda>mem a. mem(a := AGEGROUP0_OVERRUN_TRIPWIRE_BUFFER_VALUE)) mem (tripwire_addresses t)"

fun check_tripwires :: "(val \<Rightarrow> val) \<Rightarrow> val list \<Rightarrow> unit result" where
  "check_tripwires mem [] = Inr ()"
| "check_tripwires mem (a # as) =
     (if mem a \<noteq> AGEGROUP0_OVERRUN_TRIPWIRE_BUFFER_VALUE then Inl (Died ''Overran agegroup0 buffer'')
      else check_tripwires mem as)"

definition check_agegroup0_overrun_tripwire_buffer :: "task_buffer \<Rightarrow> (val \<Rightarrow> val) \<Rightarrow> unit result" where
  "check_agegroup0_overrun_tripwire_buffer t mem = check_tripwires mem (rev (tripwire_addresses t))"

section \<open>Dividing the master buffer\<close>

text \<open>The limit for periodic events; adding an \<open>int\<close> to a pointer counts words.\<close>

definition polled_limit :: "int \<Rightarrow> val \<Rightarrow> val \<Rightarrow> val" where
  "polled_limit poll_interval start real_limit =
     (if poll_interval \<le> 0 then real_limit
      else min (start + 4 * word_of_int (poll_interval * PERIODIC_EVENT_TIME_GRANULARITY_IN_NEXTCODE_INSTRUCTIONS)) real_limit)"

definition hostthread_buffer :: "int \<Rightarrow> val \<Rightarrow> val \<Rightarrow> task_buffer" where
  "hostthread_buffer poll_interval start bytesize =
     (let real_limit = HEAP_ALLOCATION_LIMIT_SIZE start bytesize
      in \<lparr>heap_allocation_buffer = start, heap_allocation_buffer_bytesize = bytesize, heap_allocation_pointer = start,
          heap_allocation_limit = polled_limit poll_interval start real_limit, real_heap_allocation_limit = real_limit\<rparr>)"

text \<open>The threads' buffers, and the memory with the tripwire of each initialized.\<close>

fun partition_from :: "int \<Rightarrow> val \<Rightarrow> val \<Rightarrow> nat \<Rightarrow> (val \<Rightarrow> val) \<Rightarrow> task_buffer list \<times> (val \<Rightarrow> val)" where
  "partition_from poll_interval bytesize start 0 mem = ([], mem)"
| "partition_from poll_interval bytesize start (Suc n) mem =
     (let t = hostthread_buffer poll_interval start bytesize;
          (ts, mem) = partition_from poll_interval bytesize (start + bytesize) n (initialize_agegroup0_overrun_tripwire_buffer t mem)
      in (t # ts, mem))"

definition partition_agegroup0_buffer_between_hostthreads :: "int \<Rightarrow> val \<Rightarrow> val \<Rightarrow> (val \<Rightarrow> val) \<Rightarrow> task_buffer list \<times> (val \<Rightarrow> val)" where
  "partition_agegroup0_buffer_between_hostthreads poll_interval master_buffer master_bytesize mem =
     partition_from poll_interval (master_bytesize div word_of_nat MAX_HOSTTHREADS) master_buffer MAX_HOSTTHREADS mem"

definition reset_heap_allocation_limit_for_software_generated_periodic_events ::
    "int \<Rightarrow> task_buffer \<Rightarrow> (val \<Rightarrow> val) \<Rightarrow> task_buffer \<times> (val \<Rightarrow> val)" where
  "reset_heap_allocation_limit_for_software_generated_periodic_events poll_frequency t mem =
     (let real_limit = HEAP_ALLOCATION_LIMIT t;
          t = t\<lparr>real_heap_allocation_limit := real_limit\<rparr>;
          mem = initialize_agegroup0_overrun_tripwire_buffer t mem
      in (t\<lparr>heap_allocation_limit := polled_limit poll_frequency (heap_allocation_buffer t) real_limit\<rparr>, mem))"

section \<open>When to clean, and how much\<close>

definition need_to_call_heapcleaner :: "Heapcleaner_State \<Rightarrow> bool \<Rightarrow> task_buffer \<Rightarrow> val \<Rightarrow> bool" where
  "need_to_call_heapcleaner cleaner periodic_events_switch t bytes_needed =
     (if cleaner \<noteq> HEAPCLEANER_IS_OFF then True
      else heap_allocation_pointer t + bytes_needed \<ge> HEAP_ALLOCATION_LIMIT t \<or> periodic_events_switch)"

record tospace =
  first_free :: val
  tospace_start :: val
  tospace_bytesize :: val
  tospace_limit :: val

definition sib_is_active :: "tospace \<Rightarrow> bool" where
  "sib_is_active s \<longleftrightarrow> tospace_bytesize s > 0"

definition sib_freespace_in_bytes :: "tospace \<Rightarrow> val" where
  "sib_freespace_in_bytes s = tospace_limit s - first_free s"

definition sib_space_used_in_bytes :: "tospace \<Rightarrow> val" where
  "sib_space_used_in_bytes s = first_free s - tospace_start s"

definition agegroup0_freespace_in_bytes :: "task_buffer \<Rightarrow> val" where
  "agegroup0_freespace_in_bytes t = real_heap_allocation_limit t - heap_allocation_pointer t"

definition agegroup0_usedspace_in_bytes :: "task_buffer \<Rightarrow> val" where
  "agegroup0_usedspace_in_bytes t = heap_allocation_pointer t - heap_allocation_buffer t"

definition agegroup0_buffer_size_in_bytes :: "task_buffer \<Rightarrow> val" where
  "agegroup0_buffer_size_in_bytes t = real_heap_allocation_limit t - heap_allocation_buffer t"

definition heapcleaning_level :: "int \<Rightarrow> task_buffer \<Rightarrow> tospace list \<Rightarrow> int" where
  "heapcleaning_level level t age1_sibs =
     (if level = 0 \<and> list_ex (\<lambda>s. sib_is_active s \<and> sib_freespace_in_bytes s < agegroup0_buffer_size_in_bytes t) age1_sibs
      then 1 else level)"

section \<open>Where the buffers lie\<close>

lemma length_partition_from [simp]: "length (fst (partition_from p bytesize start n mem)) = n"
  by (induction n arbitrary: start mem) (simp_all add: split_beta Let_def)

lemma nth_partition_from:
  "h < n \<Longrightarrow> fst (partition_from p bytesize start n mem) ! h = hostthread_buffer p (start + word_of_nat h * bytesize) bytesize"
proof (induction n arbitrary: start h mem)
  case 0
  then show ?case by simp
next
  case (Suc n)
  then show ?case by (cases h) (simp_all add: algebra_simps split_beta Let_def)
qed

lemma unat_add_mult:
  fixes a b :: val
  assumes "unat a + h * unat b < 2 ^ 32"
  shows "unat (a + word_of_nat h * b) = unat a + h * unat b"
proof -
  have "a + word_of_nat h * b = word_of_nat (unat a + h * unat b)" by simp
  then show ?thesis using assms unat_word_of_nat [of "unat a + h * unat b", where ?'a = 32] by simp
qed

lemma unat_limit_size:
  assumes "4672 \<le> unat sz" and "unat base + unat sz < 2 ^ 32"
  shows "unat (HEAP_ALLOCATION_LIMIT_SIZE base sz) + 4672 = unat base + unat sz"
proof -
  have "unat (base + sz) = unat base + unat sz" using unat_add_mult [of base 1 sz] assms(2) by simp
  moreover have "HEAP_ALLOCATION_LIMIT_SIZE base sz = (base + sz) - 4672"
    by (simp add: HEAP_ALLOCATION_LIMIT_SIZE_def buffer_sizes)
  moreover have "(4672 :: val) \<le> base + sz" using assms(1) calculation(1) by (simp add: word_le_nat_alt)
  ultimately show ?thesis using assms(1) by (simp add: unat_sub)
qed

section \<open>Allocation up to the limit leaves the tripwire alone\<close>

lemma foldl_upd_in: "a \<in> set as \<Longrightarrow> foldl (\<lambda>mem a. mem(a := v)) mem as a = v"
  by (induction as arbitrary: mem rule: rev_induct) auto

lemma check_tripwires_result:
  "check_tripwires mem as = (if \<forall>a \<in> set as. mem a = AGEGROUP0_OVERRUN_TRIPWIRE_BUFFER_VALUE then Inr ()
     else Inl (Died ''Overran agegroup0 buffer''))"
  by (induction as) auto

definition tripwire_start :: "task_buffer \<Rightarrow> nat" where
  "tripwire_start t = unat (real_heap_allocation_limit t) + 4608"

lemma tripwire_address_range:
  assumes "unat (real_heap_allocation_limit t) + 4672 < 2 ^ 32"
  shows "set (tripwire_addresses t) = {a. \<exists>i < 16. unat a = tripwire_start t + 4 * i}"
proof -
  have a: "unat (real_heap_allocation_limit t + MIN_FREE_BYTES_IN_AGEGROUP0_BUFFER + 4 * word_of_nat i) = tripwire_start t + 4 * i"
    if "i < 16" for i
  proof -
    have "real_heap_allocation_limit t + MIN_FREE_BYTES_IN_AGEGROUP0_BUFFER + 4 * word_of_nat i =
        word_of_nat (unat (real_heap_allocation_limit t) + 4608 + 4 * i)"
      by (simp add: buffer_sizes)
    moreover have "unat (real_heap_allocation_limit t) + 4608 + 4 * i < 2 ^ 32" using assms that by linarith
    ultimately show ?thesis
      using unat_word_of_nat [of "unat (real_heap_allocation_limit t) + 4608 + 4 * i", where ?'a = 32]
      by (simp add: tripwire_start_def)
  qed
  then have "x = real_heap_allocation_limit t + MIN_FREE_BYTES_IN_AGEGROUP0_BUFFER + 4 * word_of_nat i"
    if "i < 16" "unat x = tripwire_start t + 4 * i" for i x
    using that by (metis word_unat_eq_iff)
  with a show ?thesis
    by (auto simp: tripwire_addresses_def AGEGROUP0_OVERRUN_TRIPWIRE_BUFFER_SIZE_IN_WORDS_def) (metis atLeastLessThan_iff imageI le0)
qed

lemma tripwire_initialized:
  "check_agegroup0_overrun_tripwire_buffer t mem = Inr () \<longleftrightarrow> (\<forall>a \<in> set (tripwire_addresses t). mem a = AGEGROUP0_OVERRUN_TRIPWIRE_BUFFER_VALUE)"
  by (simp add: check_agegroup0_overrun_tripwire_buffer_def check_tripwires_result)

lemma foldl_upd_out: "a \<notin> set as \<Longrightarrow> foldl (\<lambda>mem a. mem(a := v)) mem as a = mem a"
  by (induction as arbitrary: mem) auto

lemma hostthread_tripwire_range:
  assumes "4672 \<le> unat bytesize" and "unat start + unat bytesize < 2 ^ 32" and "a \<in> set (tripwire_addresses (hostthread_buffer p start bytesize))"
  shows "unat start \<le> unat a \<and> unat a < unat start + unat bytesize"
proof -
  let ?t = "hostthread_buffer p start bytesize"
  have lim: "unat (real_heap_allocation_limit ?t) + 4672 = unat start + unat bytesize"
    using unat_limit_size [OF assms(1,2)] by (simp add: hostthread_buffer_def Let_def)
  then have "unat (real_heap_allocation_limit ?t) + 4672 < 2 ^ 32" using assms(2) by simp
  from tripwire_address_range [OF this] assms(3) obtain i where "i < 16" "unat a = tripwire_start ?t + 4 * i" by auto
  then show ?thesis using lim assms(1) by (simp add: tripwire_start_def)
qed

lemma partition_keeps_memory_below:
  assumes "4672 \<le> unat bytesize" and "unat start + n * unat bytesize < 2 ^ 32" and "unat a < unat start"
  shows "snd (partition_from p bytesize start n mem) a = mem a"
  using assms(2,3)
proof (induction n arbitrary: start mem)
  case 0
  then show ?case by simp
next
  case (Suc n)
  have fits: "unat start + unat bytesize < 2 ^ 32" using Suc.prems(1) by simp
  have s: "unat (start + bytesize) = unat start + unat bytesize" using unat_add_mult [of start 1 bytesize] fits by simp
  have "a \<notin> set (tripwire_addresses (hostthread_buffer p start bytesize))"
    using hostthread_tripwire_range [OF assms(1) fits] Suc.prems(2) by fastforce
  then have "initialize_agegroup0_overrun_tripwire_buffer (hostthread_buffer p start bytesize) mem a = mem a"
    unfolding initialize_agegroup0_overrun_tripwire_buffer_def by (rule foldl_upd_out)
  moreover have "unat (start + bytesize) + n * unat bytesize < 2 ^ 32" using Suc.prems(1) s by simp
  ultimately show ?case using Suc.IH [of "start + bytesize"] Suc.prems(2) s by (simp add: split_beta Let_def)
qed

lemma tripwires_in_place:
  assumes "h < n" and "4672 \<le> unat bytesize" and "unat start + n * unat bytesize < 2 ^ 32"
  shows "check_agegroup0_overrun_tripwire_buffer (hostthread_buffer p (start + word_of_nat h * bytesize) bytesize)
    (snd (partition_from p bytesize start n mem)) = Inr ()"
  using assms(1,3)
proof (induction n arbitrary: start mem h)
  case 0
  then show ?case by simp
next
  case (Suc n)
  have fits: "unat start + unat bytesize < 2 ^ 32" using Suc.prems(2) by simp
  have s: "unat (start + bytesize) = unat start + unat bytesize" using unat_add_mult [of start 1 bytesize] fits by simp
  have rest: "unat (start + bytesize) + n * unat bytesize < 2 ^ 32" using Suc.prems(2) s by simp
  have Suc_IH: "k < n \<Longrightarrow> check_agegroup0_overrun_tripwire_buffer (hostthread_buffer p (start + bytesize + word_of_nat k * bytesize) bytesize)
      (snd (partition_from p bytesize (start + bytesize) n m)) = Inr ()" for k m
    using Suc.IH rest by blast
  note Suc_prems = Suc.prems(1)
  let ?t = "hostthread_buffer p start bytesize"
  show ?case
  proof (cases h)
    case 0
    have "snd (partition_from p bytesize start (Suc n) mem) a = AGEGROUP0_OVERRUN_TRIPWIRE_BUFFER_VALUE"
      if a: "a \<in> set (tripwire_addresses ?t)" for a
    proof -
      have "unat a < unat (start + bytesize)" using hostthread_tripwire_range [OF assms(2) fits a] s by simp
      then have "snd (partition_from p bytesize start (Suc n) mem) a = initialize_agegroup0_overrun_tripwire_buffer ?t mem a"
        using partition_keeps_memory_below [OF assms(2) rest] by (simp add: split_beta Let_def)
      then show ?thesis using a by (simp add: initialize_agegroup0_overrun_tripwire_buffer_def foldl_upd_in)
    qed
    then show ?thesis using 0 by (simp add: tripwire_initialized del: partition_from.simps)
  next
    case (Suc k)
    then have "start + word_of_nat h * bytesize = start + bytesize + word_of_nat k * bytesize" by (simp add: algebra_simps)
    then show ?thesis using Suc_IH [of k] Suc Suc_prems by (simp add: split_beta Let_def add.assoc)
  qed
qed

text \<open>
  C18. The master buffer is divided into 32 buffers that lie one after the other inside it, do not
  overlap, and are empty. In each, the real allocation limit leaves room for 4608 bytes and the
  64 bytes of the tripwire before the buffer's end, which is where the next buffer starts; the
  limit in force is never beyond the real one; and every thread's tripwire is in place.
\<close>

theorem hostthread_buffers_are_disjoint:
  assumes "unat master + unat bytesize < 2 ^ 32" and "4672 * MAX_HOSTTHREADS \<le> unat bytesize" and "h < MAX_HOSTTHREADS"
  shows "let divided = partition_agegroup0_buffer_between_hostthreads poll master bytesize mem; t = fst divided ! h;
             end_of_buffer = unat (heap_allocation_buffer t) + unat (heap_allocation_buffer_bytesize t)
         in unat (heap_allocation_buffer t) = unat master + h * (unat bytesize div MAX_HOSTTHREADS) \<and>
            end_of_buffer = unat master + (h + 1) * (unat bytesize div MAX_HOSTTHREADS) \<and>
            end_of_buffer \<le> unat master + unat bytesize \<and>
            heap_allocation_pointer t = heap_allocation_buffer t \<and>
            unat (real_heap_allocation_limit t) + 4608 + 64 = end_of_buffer \<and>
            heap_allocation_limit t \<le> real_heap_allocation_limit t \<and>
            check_agegroup0_overrun_tripwire_buffer t (snd divided) = Inr ()"
proof -
  let ?per = "bytesize div word_of_nat MAX_HOSTTHREADS"
  have per: "unat ?per = unat bytesize div 32"
    by (simp add: unat_div MAX_HOSTTHREADS_def)
  have le: "(h + 1) * (unat bytesize div 32) \<le> unat bytesize"
  proof -
    have "(h + 1) * (unat bytesize div 32) \<le> 32 * (unat bytesize div 32)"
      using assms(3) by (intro mult_le_mono1) (simp add: MAX_HOSTTHREADS_def)
    also have "\<dots> \<le> unat bytesize" by simp
    finally show ?thesis .
  qed
  then have sum: "unat master + (h + 1) * (unat bytesize div 32) < 2 ^ 32" using assms(1) by linarith
  let ?start = "master + word_of_nat h * ?per"
  have start: "unat ?start = unat master + h * (unat bytesize div 32)"
    unfolding per [symmetric] by (rule unat_add_mult) (use sum per in simp)
  have big: "4672 \<le> unat ?per" using assms(2) per by (simp add: MAX_HOSTTHREADS_def)
  have "unat ?start + unat ?per < 2 ^ 32" using start per sum by simp
  with big have lim: "unat (HEAP_ALLOCATION_LIMIT_SIZE ?start ?per) + 4672 = unat ?start + unat ?per"
    by (rule unat_limit_size)
  have "fst (partition_agegroup0_buffer_between_hostthreads poll master bytesize mem) ! h = hostthread_buffer poll ?start ?per"
    unfolding partition_agegroup0_buffer_between_hostthreads_def by (rule nth_partition_from [OF assms(3)])
  moreover have "check_agegroup0_overrun_tripwire_buffer (hostthread_buffer poll ?start ?per)
      (snd (partition_agegroup0_buffer_between_hostthreads poll master bytesize mem)) = Inr ()"
    unfolding partition_agegroup0_buffer_between_hostthreads_def
    by (rule tripwires_in_place [OF assms(3) big])
      (use assms(1) per in \<open>simp add: MAX_HOSTTHREADS_def\<close>)
  ultimately show ?thesis
    using start per lim le by (simp add: Let_def hostthread_buffer_def polled_limit_def MAX_HOSTTHREADS_def)
qed

theorem hostthread_buffers_are_disjoint_witness:
  "unat (heap_allocation_buffer (fst (partition_agegroup0_buffer_between_hostthreads 0 0x10000000 0x800000 (\<lambda>_. 0)) ! 31)) = 0x107C0000"
  using hostthread_buffers_are_disjoint [where master = "0x10000000" and bytesize = "0x800000" and h = 31 and poll = 0 and mem = "\<lambda>_. 0"] by (simp add: Let_def MAX_HOSTTHREADS_def)

text \<open>
  C36. The tripwire is right, where the end of the buffer does not wrap: after it is initialized
  the check passes; it goes on passing whatever is written below the tripwire (4608 bytes beyond
  the allocation limit); and for every state of the memory, however many words have been
  overwritten, the check dies exactly when one of the tripwire's 16 words holds anything but the
  tripwire's value.
\<close>

theorem tripwire_detects_overruns:
  assumes lim: "unat (real_heap_allocation_limit t) + 4672 < 2 ^ 32"
  shows "check_agegroup0_overrun_tripwire_buffer t (initialize_agegroup0_overrun_tripwire_buffer t mem) = Inr () \<and>
    (\<forall>mem'. (\<forall>a. unat a \<ge> unat (real_heap_allocation_limit t) + 4608 \<longrightarrow>
        mem' a = initialize_agegroup0_overrun_tripwire_buffer t mem a) \<longrightarrow>
      check_agegroup0_overrun_tripwire_buffer t mem' = Inr ()) \<and>
    (\<forall>mem'. check_agegroup0_overrun_tripwire_buffer t mem' =
      (if \<exists>i < 16. mem' (real_heap_allocation_limit t + 4608 + 4 * word_of_nat i) \<noteq> AGEGROUP0_OVERRUN_TRIPWIRE_BUFFER_VALUE
       then Inl (Died ''Overran agegroup0 buffer'') else Inr ()))"
proof (intro conjI allI impI)
  have init: "initialize_agegroup0_overrun_tripwire_buffer t mem a = AGEGROUP0_OVERRUN_TRIPWIRE_BUFFER_VALUE"
    if "a \<in> set (tripwire_addresses t)" for a
    using that by (simp add: initialize_agegroup0_overrun_tripwire_buffer_def foldl_upd_in)
  then show "check_agegroup0_overrun_tripwire_buffer t (initialize_agegroup0_overrun_tripwire_buffer t mem) = Inr ()"
    by (simp add: check_agegroup0_overrun_tripwire_buffer_def check_tripwires_result)
  show "check_agegroup0_overrun_tripwire_buffer t mem' = Inr ()"
    if "\<forall>a. unat a \<ge> unat (real_heap_allocation_limit t) + 4608 \<longrightarrow> mem' a = initialize_agegroup0_overrun_tripwire_buffer t mem a" for mem'
  proof -
    have "mem' a = AGEGROUP0_OVERRUN_TRIPWIRE_BUFFER_VALUE" if a: "a \<in> set (tripwire_addresses t)" for a
    proof -
      have "tripwire_start t \<le> unat a" using a unfolding tripwire_address_range [OF lim] by auto
      then show ?thesis using \<open>\<forall>a. _ a\<close> init [OF a] by (simp add: tripwire_start_def)
    qed
    then show ?thesis by (simp add: check_agegroup0_overrun_tripwire_buffer_def check_tripwires_result)
  qed
  have "set (tripwire_addresses t) = (\<lambda>i. real_heap_allocation_limit t + 4608 + 4 * word_of_nat i) ` {..< 16}"
    by (auto simp: tripwire_addresses_def AGEGROUP0_OVERRUN_TRIPWIRE_BUFFER_SIZE_IN_WORDS_def lessThan_atLeast0 buffer_sizes)
  then show "check_agegroup0_overrun_tripwire_buffer t mem' =
      (if \<exists>i < 16. mem' (real_heap_allocation_limit t + 4608 + 4 * word_of_nat i) \<noteq> AGEGROUP0_OVERRUN_TRIPWIRE_BUFFER_VALUE
       then Inl (Died ''Overran agegroup0 buffer'') else Inr ())" for mem'
    by (auto simp: check_agegroup0_overrun_tripwire_buffer_def check_tripwires_result)
qed

definition example_buffer :: task_buffer where
  "example_buffer = hostthread_buffer 0 0x10000000 0x40000"

theorem tripwire_detects_overruns_witness:
  "check_agegroup0_overrun_tripwire_buffer example_buffer
     ((initialize_agegroup0_overrun_tripwire_buffer example_buffer (\<lambda>_. 0))(0x1003FFC4 := 0, 0x1003FFC8 := 1)) =
   Inl (Died ''Overran agegroup0 buffer'')"
proof -
  have r: "real_heap_allocation_limit example_buffer = 0x1003EDC0"
    by (simp add: example_buffer_def hostthread_buffer_def Let_def HEAP_ALLOCATION_LIMIT_SIZE_def buffer_sizes)
  have "unat (real_heap_allocation_limit example_buffer) + 4672 < 2 ^ 32" by (simp add: r)
  note check = tripwire_detects_overruns [OF this, of "\<lambda>_. 0", THEN conjunct2, THEN conjunct2, rule_format,
    of "(initialize_agegroup0_overrun_tripwire_buffer example_buffer (\<lambda>_. 0))(0x1003FFC4 := 0, 0x1003FFC8 := 1)"]
  have "\<exists>i < 16. ((initialize_agegroup0_overrun_tripwire_buffer example_buffer (\<lambda>_. 0))(0x1003FFC4 := 0, 0x1003FFC8 := 1))
      (real_heap_allocation_limit example_buffer + 4608 + 4 * word_of_nat i) \<noteq> AGEGROUP0_OVERRUN_TRIPWIRE_BUFFER_VALUE"
    by (rule exI [of _ 1]) (simp add: r AGEGROUP0_OVERRUN_TRIPWIRE_BUFFER_VALUE_def)
  with check show ?thesis by simp
qed

text \<open>
  C37. When \<open>need_to_call_heapcleaner\<close> says no, the bytes asked for, and 4608 more, can be
  allocated in the task's buffer without reaching its tripwire. (The sum of the allocation pointer
  and the request does not wrap.)
\<close>

theorem no_heapcleaning_means_room:
  assumes "4672 \<le> unat (heap_allocation_buffer_bytesize t)"
    and "unat (heap_allocation_buffer t) + unat (heap_allocation_buffer_bytesize t) < 2 ^ 32"
    and "unat (heap_allocation_pointer t) + unat bytes_needed < 2 ^ 32"
    and "\<not> need_to_call_heapcleaner cleaner switch t bytes_needed"
  shows "unat (heap_allocation_pointer t) + unat bytes_needed + 4608 + 64 <
    unat (heap_allocation_buffer t) + unat (heap_allocation_buffer_bytesize t)"
proof -
  have lim: "unat (HEAP_ALLOCATION_LIMIT t) + 4672 = unat (heap_allocation_buffer t) + unat (heap_allocation_buffer_bytesize t)"
    unfolding HEAP_ALLOCATION_LIMIT_def by (rule unat_limit_size [OF assms(1,2)])
  have "heap_allocation_pointer t + bytes_needed < HEAP_ALLOCATION_LIMIT t"
    using assms(4) by (simp add: need_to_call_heapcleaner_def not_le split: if_splits)
  then have "unat (heap_allocation_pointer t + bytes_needed) < unat (HEAP_ALLOCATION_LIMIT t)" by (simp add: word_less_nat_alt)
  moreover have "unat (heap_allocation_pointer t + bytes_needed) = unat (heap_allocation_pointer t) + unat bytes_needed"
    using unat_add_mult [of "heap_allocation_pointer t" 1 bytes_needed] assms(3) by simp
  ultimately show ?thesis using lim by linarith
qed

theorem no_heapcleaning_means_room_witness:
  "unat (heap_allocation_pointer example_buffer) + unat (0x1000 :: val) + 4608 + 64 <
    unat (heap_allocation_buffer example_buffer) + unat (heap_allocation_buffer_bytesize example_buffer)"
  by (rule no_heapcleaning_means_room [where cleaner = HEAPCLEANER_IS_OFF and switch = False])
    (simp_all add: example_buffer_def hostthread_buffer_def Let_def need_to_call_heapcleaner_def HEAP_ALLOCATION_LIMIT_def
      HEAP_ALLOCATION_LIMIT_SIZE_def buffer_sizes)

end
