(* ===== verification/Heap_Allocation.thy ===== *)
theory Heap_Allocation
  imports Heap_Tags Sibids Bigcounters Agegroup0_Buffers
begin

text \<open>
  How C code makes Mythryl values (\<open>src/c/h/make-strings-and-vectors-etc.h\<close>,
  \<open>src/c/heapcleaner/make-strings-and-vectors-etc.c\<close>). Small chunks are laid down at the
  allocation pointer of the task's agegroup 0 buffer, large ones in a sib of agegroup 1, where
  there may have to be a heapcleaning first. Memory maps the address of a word to its contents;
  bytes are numbered from the low end of a word, as on intel32.

  The heapcleaner is a parameter of these routines: it is given a level and the values of the
  roots, and returns the values it has put into them. A loop that may clean again and again
  without ever finding enough space has the value \<open>None\<close>.
\<close>

section \<open>State\<close>

record sib_state =
  sib_tospace :: tospace
  swept_end :: val
  requested_extra_free_bytes :: val

record alloc_state =
  buffer :: task_buffer
  words :: "val \<Rightarrow> val"
  sibs :: "ilk \<Rightarrow> sib_state"
  total_bytes_allocated :: bigcounter

type_synonym cleaner = "int \<Rightarrow> val list \<Rightarrow> alloc_state \<Rightarrow> (val list \<times> alloc_state) result"

definition MAX_AGEGROUP0_ALLOCATION_SIZE_IN_WORDS :: int where
  "MAX_AGEGROUP0_ALLOCATION_SIZE_IN_WORDS = 512"

definition REFCELL_TAGWORD :: val where "REFCELL_TAGWORD = MAKE_TAGWORD 1 RW_VECTOR_DATA_BTAG"
definition FLOAT64_TAGWORD :: val where "FLOAT64_TAGWORD = MAKE_TAGWORD 2 EIGHT_BYTE_ALIGNED_NONPOINTER_DATA_BTAG"
definition FLOAT64_RW_VECTOR_TAGWORD :: val where
  "FLOAT64_RW_VECTOR_TAGWORD = MAKE_TAGWORD VECTOR_OF_EIGHT_BYTE_FLOATS_CTAG RW_VECTOR_HEADER_BTAG"
definition UNT8_RW_VECTOR_TAGWORD :: val where
  "UNT8_RW_VECTOR_TAGWORD = MAKE_TAGWORD VECTOR_OF_ONE_BYTE_UNTS_CTAG RW_VECTOR_HEADER_BTAG"

definition BYTES_TO_WORDS :: "int \<Rightarrow> int" where
  "BYTES_TO_WORDS n = drop_bit 2 (n + 3)"

definition DOUBLES_TO_WORDS :: "int \<Rightarrow> int" where
  "DOUBLES_TO_WORDS n = n * 2"

text \<open>\<open>MAKE_TAGWORD\<close> of a C integer, and the address of the word \<open>i\<close> words after \<open>p\<close>.\<close>

definition int_tagword :: "int \<Rightarrow> nat \<Rightarrow> val" where
  "int_tagword n b = MAKE_TAGWORD (unat (word_of_int n :: val)) b"

definition slot :: "val \<Rightarrow> int \<Rightarrow> val" where
  "slot p i = p + 4 * word_of_int i"

section \<open>Words and bytes\<close>

fun write_words :: "val \<Rightarrow> val list \<Rightarrow> (val \<Rightarrow> val) \<Rightarrow> val \<Rightarrow> val" where
  "write_words p [] m = m"
| "write_words p (w # ws) m = write_words (p + 4) ws (m(p := w))"

definition get_byte :: "(val \<Rightarrow> val) \<Rightarrow> val \<Rightarrow> unt8" where
  "get_byte m a = ucast (drop_bit (8 * unat (a AND 3)) (m (a AND NOT 3)))"

definition set_byte :: "val \<Rightarrow> unt8 \<Rightarrow> (val \<Rightarrow> val) \<Rightarrow> val \<Rightarrow> val" where
  "set_byte a b m =
     (let k = 8 * unat (a AND 3); w = a AND NOT 3
      in m(w := m w AND NOT (push_bit k 0xFF) OR push_bit k (ucast b)))"

fun copy_bytes :: "val \<Rightarrow> unt8 list \<Rightarrow> (val \<Rightarrow> val) \<Rightarrow> val \<Rightarrow> val" where
  "copy_bytes a [] m = m"
| "copy_bytes a (b # bs) m = copy_bytes (a + 1) bs (set_byte a b m)"

text \<open>A read through a word that is not a pointer is a wild read.\<close>

definition GET_TUPLE_SLOT_AS_VAL :: "alloc_state \<Rightarrow> val \<Rightarrow> int \<Rightarrow> val result" where
  "GET_TUPLE_SLOT_AS_VAL s p i = (if IS_POINTER p then Inr (words s (slot p i)) else Inl Wild)"

definition LIST_HEAD :: "alloc_state \<Rightarrow> val \<Rightarrow> val result" where
  "LIST_HEAD s p = GET_TUPLE_SLOT_AS_VAL s p 0"

definition LIST_TAIL :: "alloc_state \<Rightarrow> val \<Rightarrow> val result" where
  "LIST_TAIL s p = GET_TUPLE_SLOT_AS_VAL s p 1"

definition CHUNK_LENGTH :: "alloc_state \<Rightarrow> val \<Rightarrow> nat" where
  "CHUNK_LENGTH s p = GET_LENGTH_IN_WORDS_FROM_TAGWORD (words s (slot p (- 1)))"

section \<open>Small chunks\<close>

definition set_heap_allocation_pointer :: "val \<Rightarrow> alloc_state \<Rightarrow> alloc_state" where
  "set_heap_allocation_pointer p s = s\<lparr>buffer := (buffer s)\<lparr>heap_allocation_pointer := p\<rparr>\<rparr>"

definition set_slot_in_nascent_heapchunk :: "int \<Rightarrow> val \<Rightarrow> alloc_state \<Rightarrow> alloc_state" where
  "set_slot_in_nascent_heapchunk i v s = s\<lparr>words := (words s)(slot (heap_allocation_pointer (buffer s)) i := v)\<rparr>"

definition commit_nascent_heapchunk :: "int \<Rightarrow> alloc_state \<Rightarrow> alloc_state \<times> val" where
  "commit_nascent_heapchunk n s =
     (let p = slot (heap_allocation_pointer (buffer s)) (n + 1)
      in (set_heap_allocation_pointer p s, slot p (- n)))"

definition make_chunk :: "val \<Rightarrow> val list \<Rightarrow> alloc_state \<Rightarrow> alloc_state \<times> val" where
  "make_chunk tagword ws s =
     (let p = heap_allocation_pointer (buffer s)
      in (set_heap_allocation_pointer (slot p (int (length ws) + 1)) (s\<lparr>words := write_words p (tagword # ws) (words s)\<rparr>), p + 4))"

definition make_refcell :: "val \<Rightarrow> alloc_state \<Rightarrow> alloc_state \<times> val" where
  "make_refcell v = make_chunk REFCELL_TAGWORD [v]"

definition make_one_slot_record :: "val \<Rightarrow> alloc_state \<Rightarrow> alloc_state \<times> val" where
  "make_one_slot_record a = make_chunk (MAKE_TAGWORD 1 PAIRS_AND_RECORDS_BTAG) [a]"

definition make_two_slot_record :: "val \<Rightarrow> val \<Rightarrow> alloc_state \<Rightarrow> alloc_state \<times> val" where
  "make_two_slot_record a b = make_chunk PAIR_TAGWORD [a, b]"

definition make_three_slot_record :: "val \<Rightarrow> val \<Rightarrow> val \<Rightarrow> alloc_state \<Rightarrow> alloc_state \<times> val" where
  "make_three_slot_record a b c = make_chunk (MAKE_TAGWORD 3 PAIRS_AND_RECORDS_BTAG) [a, b, c]"

definition make_four_slot_record :: "val \<Rightarrow> val \<Rightarrow> val \<Rightarrow> val \<Rightarrow> alloc_state \<Rightarrow> alloc_state \<times> val" where
  "make_four_slot_record a b c d = make_chunk (MAKE_TAGWORD 4 PAIRS_AND_RECORDS_BTAG) [a, b, c, d]"

definition make_five_slot_record :: "val \<Rightarrow> val \<Rightarrow> val \<Rightarrow> val \<Rightarrow> val \<Rightarrow> alloc_state \<Rightarrow> alloc_state \<times> val" where
  "make_five_slot_record a b c d e = make_chunk (MAKE_TAGWORD 5 PAIRS_AND_RECORDS_BTAG) [a, b, c, d, e]"

definition make_six_slot_record :: "val \<Rightarrow> val \<Rightarrow> val \<Rightarrow> val \<Rightarrow> val \<Rightarrow> val \<Rightarrow> alloc_state \<Rightarrow> alloc_state \<times> val" where
  "make_six_slot_record a b c d e f = make_chunk (MAKE_TAGWORD 6 PAIRS_AND_RECORDS_BTAG) [a, b, c, d, e, f]"

definition make_seven_slot_record ::
    "val \<Rightarrow> val \<Rightarrow> val \<Rightarrow> val \<Rightarrow> val \<Rightarrow> val \<Rightarrow> val \<Rightarrow> alloc_state \<Rightarrow> alloc_state \<times> val" where
  "make_seven_slot_record a b c d e f g = make_chunk (MAKE_TAGWORD 7 PAIRS_AND_RECORDS_BTAG) [a, b, c, d, e, f, g]"

definition make_eight_slot_record ::
    "val \<Rightarrow> val \<Rightarrow> val \<Rightarrow> val \<Rightarrow> val \<Rightarrow> val \<Rightarrow> val \<Rightarrow> val \<Rightarrow> alloc_state \<Rightarrow> alloc_state \<times> val" where
  "make_eight_slot_record a b c d e f g h = make_chunk (MAKE_TAGWORD 8 PAIRS_AND_RECORDS_BTAG) [a, b, c, d, e, f, g, h]"

definition make_vector_header :: "val \<Rightarrow> val \<Rightarrow> int \<Rightarrow> alloc_state \<Rightarrow> alloc_state \<times> val" where
  "make_vector_header tagword vectordata vectorlen = make_chunk tagword [vectordata, TAGGED_INT_FROM_C_INT vectorlen]"

definition make_one_word_unt :: "val \<Rightarrow> alloc_state \<Rightarrow> alloc_state \<times> val" where
  "make_one_word_unt u = make_chunk (MAKE_TAGWORD 1 FOUR_BYTE_ALIGNED_NONPOINTER_DATA_BTAG) [u]"

definition make_one_word_int :: "val \<Rightarrow> alloc_state \<Rightarrow> alloc_state \<times> val" where
  "make_one_word_int i = make_chunk (MAKE_TAGWORD 1 FOUR_BYTE_ALIGNED_NONPOINTER_DATA_BTAG) [i]"

text \<open>A double is its 64 bits, stored low word first.\<close>

definition double_words :: "64 word \<Rightarrow> val list" where
  "double_words d = [ucast d, ucast (drop_bit 32 d)]"

definition align_for_float64 :: "alloc_state \<Rightarrow> alloc_state" where
  "align_for_float64 s = set_heap_allocation_pointer (heap_allocation_pointer (buffer s) OR 4) s"

definition make_float64 :: "64 word \<Rightarrow> alloc_state \<Rightarrow> alloc_state \<times> val" where
  "make_float64 d s = make_chunk FLOAT64_TAGWORD (double_words d) (align_for_float64 s)"

section \<open>Room in agegroup 1\<close>

definition update_sib :: "ilk \<Rightarrow> (sib_state \<Rightarrow> sib_state) \<Rightarrow> alloc_state \<Rightarrow> alloc_state" where
  "update_sib i f s = s\<lparr>sibs := (sibs s)(i := f (sibs s i))\<rparr>"

definition request_bytes :: "ilk \<Rightarrow> val \<Rightarrow> alloc_state \<Rightarrow> alloc_state" where
  "request_bytes i bytesize =
     update_sib i (\<lambda>ap. ap\<lparr>requested_extra_free_bytes := requested_extra_free_bytes ap + bytesize\<rparr>)"

definition clear_request :: "ilk \<Rightarrow> alloc_state \<Rightarrow> alloc_state" where
  "clear_request i = update_sib i (\<lambda>ap. ap\<lparr>requested_extra_free_bytes := 0\<rparr>)"

definition insufficient_freespace_in_sib :: "ilk \<Rightarrow> val \<Rightarrow> alloc_state \<Rightarrow> bool" where
  "insufficient_freespace_in_sib i bytes s \<longleftrightarrow>
     \<not> sib_is_active (sib_tospace (sibs s i)) \<or> sib_freespace_in_bytes (sib_tospace (sibs s i)) \<le> bytes"

text \<open>One heapcleaning for the sake of a large chunk.\<close>

definition clean_for :: "cleaner \<Rightarrow> int \<Rightarrow> ilk \<Rightarrow> val \<Rightarrow> val list \<Rightarrow> alloc_state \<Rightarrow> (val list \<times> alloc_state) result" where
  "clean_for clean level i bytesize roots s =
     seq_result (clean level roots (request_bytes i bytesize s)) (\<lambda>(roots, s). Inr (roots, clear_request i s))"

partial_function (option) while_insufficient_freespace_in_sib ::
    "cleaner \<Rightarrow> ilk \<Rightarrow> val \<Rightarrow> val list \<Rightarrow> alloc_state \<Rightarrow> (val list \<times> alloc_state) result option" where
  "while_insufficient_freespace_in_sib clean i bytesize roots s =
     (if insufficient_freespace_in_sib i (bytesize + heap_allocation_buffer_bytesize (buffer s)) s
      then (case clean_for clean 1 i bytesize roots s of
              Inl e \<Rightarrow> Some (Inl e)
            | Inr (roots, s) \<Rightarrow> while_insufficient_freespace_in_sib clean i bytesize roots s)
      else Some (Inr (roots, s)))"

text \<open>For chunks of pointers agegroup 0 is emptied first (\<open>level = 0\<close>), or not at all (\<open>- 1\<close>).\<close>

partial_function (option) rw_clean_check ::
    "cleaner \<Rightarrow> int \<Rightarrow> val \<Rightarrow> val list \<Rightarrow> alloc_state \<Rightarrow> (val list \<times> alloc_state) result option" where
  "rw_clean_check clean level bytesize roots s =
     (let level = (if insufficient_freespace_in_sib RW_POINTERS_SIB (bytesize + heap_allocation_buffer_bytesize (buffer s)) s
                   then 1 else level)
      in if level \<ge> 0
         then (case clean_for clean level RW_POINTERS_SIB bytesize roots s of
                 Inl e \<Rightarrow> Some (Inl e)
               | Inr (roots, s) \<Rightarrow> rw_clean_check clean (- 1) bytesize roots s)
         else Some (Inr (roots, s)))"

partial_function (option) ro_clean_check ::
    "cleaner \<Rightarrow> int \<Rightarrow> val \<Rightarrow> val list \<Rightarrow> alloc_state \<Rightarrow> (val list \<times> alloc_state) result option" where
  "ro_clean_check clean level bytesize roots s =
     (case clean_for clean level RO_POINTERS_SIB bytesize roots s of
        Inl e \<Rightarrow> Some (Inl e)
      | Inr (roots, s) \<Rightarrow>
          (if sib_freespace_in_bytes (sib_tospace (sibs s RO_POINTERS_SIB)) \<le> bytesize + heap_allocation_buffer_bytesize (buffer s)
           then ro_clean_check clean level bytesize roots s
           else Some (Inr (roots, s))))"

definition set_first_free :: "ilk \<Rightarrow> val \<Rightarrow> alloc_state \<Rightarrow> alloc_state" where
  "set_first_free i p = update_sib i (\<lambda>ap. ap\<lparr>sib_tospace := (sib_tospace ap)\<lparr>first_free := p\<rparr>\<rparr>)"

definition place_in_sib :: "ilk \<Rightarrow> val \<Rightarrow> int \<Rightarrow> alloc_state \<Rightarrow> alloc_state \<times> val" where
  "place_in_sib i tagword n s =
     (let p = first_free (sib_tospace (sibs s i))
      in (set_first_free i (slot p (n + 1)) (s\<lparr>words := (words s)(p := tagword)\<rparr>), p + 4))"

definition note_swept :: "ilk \<Rightarrow> alloc_state \<Rightarrow> alloc_state" where
  "note_swept i = update_sib i (\<lambda>ap. ap\<lparr>swept_end := first_free (sib_tospace ap)\<rparr>)"

definition COUNT_ALLOC :: "val \<Rightarrow> alloc_state \<Rightarrow> alloc_state" where
  "COUNT_ALLOC nbytes s = s\<lparr>total_bytes_allocated := INCREASE_BIGCOUNTER (total_bytes_allocated s) nbytes\<rparr>"

definition bytes_for :: "int \<Rightarrow> val" where
  "bytes_for nwords = 4 * word_of_int nwords"

section \<open>Chunks of any size\<close>

type_synonym allocation = "(val list \<times> alloc_state \<times> val) result option"

definition and_then :: "'a result option \<Rightarrow> ('a \<Rightarrow> 'b result option) \<Rightarrow> 'b result option" where
  "and_then m f = (case m of None \<Rightarrow> None | Some (Inl e) \<Rightarrow> Some (Inl e) | Some (Inr x) \<Rightarrow> f x)"

lemma and_then_simps [simp, fault_simps]:
  "and_then None f = None"
  "and_then (Some (Inl e)) f = Some (Inl e)"
  "and_then (Some (Inr x)) f = f x"
  by (simp_all add: and_then_def)

definition returning :: "val list \<Rightarrow> alloc_state \<times> val \<Rightarrow> allocation" where
  "returning roots sv = Some (Inr (roots, sv))"

definition allocate_small :: "val \<Rightarrow> int \<Rightarrow> alloc_state \<Rightarrow> alloc_state \<times> val" where
  "allocate_small tagword n s = commit_nascent_heapchunk n (set_slot_in_nascent_heapchunk 0 tagword s)"

definition allocate_nonempty_wordslots_vector__may_heapclean :: "cleaner \<Rightarrow> int \<Rightarrow> val list \<Rightarrow> alloc_state \<Rightarrow> allocation" where
  "allocate_nonempty_wordslots_vector__may_heapclean clean nwords roots s =
     (let tagword = int_tagword nwords FOUR_BYTE_ALIGNED_NONPOINTER_DATA_BTAG
      in if nwords \<le> MAX_AGEGROUP0_ALLOCATION_SIZE_IN_WORDS then returning roots (allocate_small tagword nwords s)
         else let bytesize = bytes_for (nwords + 1)
              in and_then (while_insufficient_freespace_in_sib clean NONPTR_DATA_SIB bytesize roots s) (\<lambda>(roots, s).
                   let (s, result) = place_in_sib NONPTR_DATA_SIB tagword nwords s
                   in returning roots (COUNT_ALLOC bytesize s, result)))"

definition shrink_fresh_wordslots_vector :: "val \<Rightarrow> int \<Rightarrow> alloc_state \<Rightarrow> alloc_state" where
  "shrink_fresh_wordslots_vector v new_length s =
     (let old_length = int (CHUNK_LENGTH s v)
      in if new_length = old_length then s
         else let s = (if old_length > MAX_AGEGROUP0_ALLOCATION_SIZE_IN_WORDS
                       then set_first_free NONPTR_DATA_SIB (slot (first_free (sib_tospace (sibs s NONPTR_DATA_SIB))) (new_length - old_length)) s
                       else set_heap_allocation_pointer (slot (heap_allocation_pointer (buffer s)) (new_length - old_length)) s)
              in s\<lparr>words := (words s)(slot v (- 1) := int_tagword new_length FOUR_BYTE_ALIGNED_NONPOINTER_DATA_BTAG)\<rparr>)"

definition allocate_biwordslots_vector__may_heapclean :: "cleaner \<Rightarrow> int \<Rightarrow> val list \<Rightarrow> alloc_state \<Rightarrow> allocation" where
  "allocate_biwordslots_vector__may_heapclean clean nelems roots s =
     (let nwords = DOUBLES_TO_WORDS nelems; tagword = int_tagword nwords EIGHT_BYTE_ALIGNED_NONPOINTER_DATA_BTAG
      in if nwords \<le> MAX_AGEGROUP0_ALLOCATION_SIZE_IN_WORDS then returning roots (allocate_small tagword nwords (align_for_float64 s))
         else let bytesize = bytes_for (nwords + 2)
              in and_then (while_insufficient_freespace_in_sib clean NONPTR_DATA_SIB bytesize roots s) (\<lambda>(roots, s).
                   let s = set_first_free NONPTR_DATA_SIB (first_free (sib_tospace (sibs s NONPTR_DATA_SIB)) OR 4) s;
                       (s, result) = place_in_sib NONPTR_DATA_SIB tagword nwords s
                   in returning roots (COUNT_ALLOC (bytesize - 4) s, result)))"

definition allocate_headerless_rw_vector__may_heapclean :: "cleaner \<Rightarrow> int \<Rightarrow> bool \<Rightarrow> val list \<Rightarrow> alloc_state \<Rightarrow> allocation" where
  "allocate_headerless_rw_vector__may_heapclean clean len has_pointers roots s =
     (let tagword = int_tagword len RW_VECTOR_DATA_BTAG
      in if len \<le> MAX_AGEGROUP0_ALLOCATION_SIZE_IN_WORDS then returning roots (allocate_small tagword len s)
         else let bytesize = bytes_for (len + 1)
              in and_then (rw_clean_check clean (if has_pointers then 0 else - 1) bytesize roots s) (\<lambda>(roots, s).
                   let (s, result) = place_in_sib RW_POINTERS_SIB tagword len s
                   in returning roots (COUNT_ALLOC bytesize (note_swept RW_POINTERS_SIB s), result)))"

definition allocate_headerless_ro_pointers_chunk__may_heapclean :: "cleaner \<Rightarrow> int \<Rightarrow> nat \<Rightarrow> val list \<Rightarrow> alloc_state \<Rightarrow> allocation" where
  "allocate_headerless_ro_pointers_chunk__may_heapclean clean len btag roots s =
     (let tagword = int_tagword len btag
      in if len \<le> MAX_AGEGROUP0_ALLOCATION_SIZE_IN_WORDS then returning roots (allocate_small tagword len s)
         else let bytesize = bytes_for (len + 1);
                  level = (if insufficient_freespace_in_sib RO_POINTERS_SIB (bytesize + heap_allocation_buffer_bytesize (buffer s)) s
                           then 1 else 0)
              in and_then (ro_clean_check clean level bytesize roots s) (\<lambda>(roots, s).
                   let (s, result) = place_in_sib RO_POINTERS_SIB tagword len s
                   in returning roots (COUNT_ALLOC bytesize (note_swept RO_POINTERS_SIB s), result)))"

end
