(* ===== verification/Heap_Values.thy ===== *)
theory Heap_Values
  imports Heap_Allocation
begin

text \<open>
  The routines of \<open>src/c/heapcleaner/make-strings-and-vectors-etc.c\<close> that make whole Mythryl
  values: strings, vectors, lists of strings and tables of system constants. \<open>empty_string\<close> is
  the address of the one zero-length string, a static variable of the runtime. C strings are
  lists of bytes without a zero byte; \<open>None\<close> is the NULL pointer.
\<close>

section \<open>Strings\<close>

definition zero_last_word :: "val \<Rightarrow> int \<Rightarrow> alloc_state \<Rightarrow> alloc_state" where
  "zero_last_word v nwords s = s\<lparr>words := (words s)(slot v (nwords - 1) := 0)\<rparr>"

definition put_bytes :: "val \<Rightarrow> unt8 list \<Rightarrow> alloc_state \<Rightarrow> alloc_state" where
  "put_bytes p bs s = s\<lparr>words := copy_bytes p bs (words s)\<rparr>"

definition make_ascii_string_from_c_string__may_heapclean ::
    "cleaner \<Rightarrow> val \<Rightarrow> unt8 list option \<Rightarrow> val list \<Rightarrow> alloc_state \<Rightarrow> allocation" where
  "make_ascii_string_from_c_string__may_heapclean clean empty_string v roots s =
     (let len = (case v of None \<Rightarrow> 0 | Some bs \<Rightarrow> int (length bs))
      in if len = 0 then returning roots (s, empty_string)
         else let n = BYTES_TO_WORDS (len + 1)
              in and_then (allocate_nonempty_wordslots_vector__may_heapclean clean n roots s) (\<lambda>(roots, s, result).
                   let s = put_bytes result (the v @ [0]) (zero_last_word result n s)
                   in returning roots (make_vector_header STRING_TAGWORD result len s)))"

fun make_strings_from_last :: "cleaner \<Rightarrow> val \<Rightarrow> unt8 list list \<Rightarrow> val list \<Rightarrow> alloc_state \<Rightarrow> val \<Rightarrow> allocation" where
  "make_strings_from_last clean empty_string [] roots s p = returning roots (s, p)"
| "make_strings_from_last clean empty_string (str # strs) roots s p =
     and_then (make_ascii_string_from_c_string__may_heapclean clean empty_string (Some str) (p # roots) s) (\<lambda>(roots, s, v).
       let (s, q) = make_two_slot_record v (hd roots) s
       in make_strings_from_last clean empty_string strs (tl roots) s q)"

definition make_ascii_strings_from_vector_of_c_strings__may_heapclean ::
    "cleaner \<Rightarrow> val \<Rightarrow> unt8 list list \<Rightarrow> val list \<Rightarrow> alloc_state \<Rightarrow> allocation" where
  "make_ascii_strings_from_vector_of_c_strings__may_heapclean clean empty_string strs roots s =
     make_strings_from_last clean empty_string (rev strs) roots s HEAP_NIL"

definition allocate_headerless_ascii_string__may_heapclean :: "cleaner \<Rightarrow> int \<Rightarrow> val list \<Rightarrow> alloc_state \<Rightarrow> allocation" where
  "allocate_headerless_ascii_string__may_heapclean clean len roots s =
     (let nwords = BYTES_TO_WORDS (len + 1)
      in and_then (allocate_nonempty_wordslots_vector__may_heapclean clean nwords roots s) (\<lambda>(roots, s, result).
           returning roots (zero_last_word result nwords s, result)))"

definition allocate_nonempty_ascii_string__may_heapclean :: "cleaner \<Rightarrow> int \<Rightarrow> val list \<Rightarrow> alloc_state \<Rightarrow> allocation" where
  "allocate_nonempty_ascii_string__may_heapclean clean len roots s =
     and_then (allocate_headerless_ascii_string__may_heapclean clean len roots s) (\<lambda>(roots, s, result).
       returning roots (make_vector_header STRING_TAGWORD result len s))"

definition allocate_nonempty_vector_of_one_byte_unts__may_heapclean :: "cleaner \<Rightarrow> int \<Rightarrow> val list \<Rightarrow> alloc_state \<Rightarrow> allocation" where
  "allocate_nonempty_vector_of_one_byte_unts__may_heapclean clean len roots s =
     (let nwords = BYTES_TO_WORDS len
      in and_then (allocate_nonempty_wordslots_vector__may_heapclean clean nwords roots s) (\<lambda>(roots, s, result).
           returning roots (make_vector_header UNT8_RW_VECTOR_TAGWORD result len (zero_last_word result nwords s))))"

text \<open>What C code sees of a string: its length field, and the bytes up to the first zero byte.\<close>

definition GET_VECTOR_DATACHUNK :: "alloc_state \<Rightarrow> val \<Rightarrow> val result" where
  "GET_VECTOR_DATACHUNK s v = GET_TUPLE_SLOT_AS_VAL s v 0"

definition GET_VECTOR_LENGTH :: "alloc_state \<Rightarrow> val \<Rightarrow> int result" where
  "GET_VECTOR_LENGTH s v = seq_result (GET_TUPLE_SLOT_AS_VAL s v 1) (\<lambda>w. Inr (TAGGED_INT_TO_C_INT w))"

definition HEAP_STRING_AS_C_STRING :: "alloc_state \<Rightarrow> val \<Rightarrow> val result" where
  "HEAP_STRING_AS_C_STRING s v = GET_VECTOR_DATACHUNK s v"

definition c_string_at :: "alloc_state \<Rightarrow> val \<Rightarrow> unt8 list \<Rightarrow> bool" where
  "c_string_at s p bs \<longleftrightarrow>
     (\<forall>i < length bs. get_byte (words s) (p + word_of_nat i) = bs ! i) \<and> get_byte (words s) (p + word_of_nat (length bs)) = 0"

section \<open>Vectors\<close>

definition allocate_nonempty_vector_of_eight_byte_floats__may_heapclean :: "cleaner \<Rightarrow> int \<Rightarrow> val list \<Rightarrow> alloc_state \<Rightarrow> allocation" where
  "allocate_nonempty_vector_of_eight_byte_floats__may_heapclean clean len roots s =
     and_then (allocate_biwordslots_vector__may_heapclean clean len roots s) (\<lambda>(roots, s, result).
       returning roots (make_vector_header FLOAT64_RW_VECTOR_TAGWORD result len s))"

definition make_nonempty_rw_vector__may_heapclean :: "cleaner \<Rightarrow> int \<Rightarrow> val \<Rightarrow> val list \<Rightarrow> alloc_state \<Rightarrow> allocation" where
  "make_nonempty_rw_vector__may_heapclean clean len init_val roots s =
     and_then (allocate_headerless_rw_vector__may_heapclean clean len (IS_POINTER init_val) (init_val # roots) s) (\<lambda>(roots, s, result).
       let s = s\<lparr>words := write_words result (replicate (nat len) (hd roots)) (words s)\<rparr>
       in returning (tl roots) (make_vector_header TYPEAGNOSTIC_RW_VECTOR_TAGWORD result len s))"

text \<open>The initializers of a vector are copied until the list ends, whatever the length is.\<close>

partial_function (option) copy_list :: "val \<Rightarrow> val \<Rightarrow> alloc_state \<Rightarrow> alloc_state result option" where
  "copy_list p xs s =
     (if xs = HEAP_NIL then Some (Inr s)
      else case LIST_HEAD s xs of Inl e \<Rightarrow> Some (Inl e) | Inr x \<Rightarrow>
        (let s = s\<lparr>words := (words s)(p := x)\<rparr>
         in case LIST_TAIL s xs of Inl e \<Rightarrow> Some (Inl e) | Inr xs \<Rightarrow> copy_list (p + 4) xs s))"

definition make_nonempty_ro_vector__may_heapclean :: "cleaner \<Rightarrow> int \<Rightarrow> val \<Rightarrow> val list \<Rightarrow> alloc_state \<Rightarrow> allocation" where
  "make_nonempty_ro_vector__may_heapclean clean len initializers roots s =
     and_then (allocate_headerless_ro_pointers_chunk__may_heapclean clean len PAIRS_AND_RECORDS_BTAG (initializers # roots) s)
       (\<lambda>(roots, s, result). and_then (copy_list result (hd roots) s) (\<lambda>s.
          returning (tl roots) (make_vector_header TYPEAGNOSTIC_RO_VECTOR_TAGWORD result len s)))"

definition allocate_biwordslots_vector_sized_in_bytes__may_heapclean :: "cleaner \<Rightarrow> int \<Rightarrow> val list \<Rightarrow> alloc_state \<Rightarrow> allocation" where
  "allocate_biwordslots_vector_sized_in_bytes__may_heapclean clean nbytes roots s =
     allocate_biwordslots_vector__may_heapclean clean (drop_bit 2 (nbytes + 7)) roots s"

text \<open>The extra roots are not passed on: what the heapcleaner is given is the empty list.\<close>

definition make_biwordslots_vector_sized_in_bytes__may_heapclean ::
    "cleaner \<Rightarrow> unt8 list \<Rightarrow> val list \<Rightarrow> alloc_state \<Rightarrow> allocation" where
  "make_biwordslots_vector_sized_in_bytes__may_heapclean clean data roots s =
     (if data = [] then returning roots (s, HEAP_VOID)
      else and_then (allocate_biwordslots_vector__may_heapclean clean (drop_bit 2 (int (length data) + 7)) [] s) (\<lambda>(_, s, result).
        returning roots (put_bytes result data s, result)))"

section \<open>System constants\<close>

record system_constant =
  const_id :: int
  const_name :: "unt8 list"

definition UNKNOWN_name :: "unt8 list" where
  "UNKNOWN_name = map (\<lambda>c. of_char c) ''<UNKNOWN>''"

fun make_system_constant__may_heapclean ::
    "cleaner \<Rightarrow> val \<Rightarrow> system_constant list \<Rightarrow> int \<Rightarrow> val list \<Rightarrow> alloc_state \<Rightarrow> allocation" where
  "make_system_constant__may_heapclean clean empty_string (c # table) i roots s =
     (if const_id c = i
      then and_then (make_ascii_string_from_c_string__may_heapclean clean empty_string (Some (const_name c)) roots s) (\<lambda>(roots, s, name).
             returning roots (make_two_slot_record (TAGGED_INT_FROM_C_INT i) name s))
      else make_system_constant__may_heapclean clean empty_string table i roots s)"
| "make_system_constant__may_heapclean clean empty_string [] i roots s =
     and_then (make_ascii_string_from_c_string__may_heapclean clean empty_string (Some UNKNOWN_name) roots s) (\<lambda>(roots, s, name).
       returning roots (make_two_slot_record (TAGGED_INT_FROM_C_INT (- 1)) name s))"

text \<open>The buffer is emptied whenever more than half of it is used.\<close>

definition clean_if_half_full :: "cleaner \<Rightarrow> val list \<Rightarrow> alloc_state \<Rightarrow> (val list \<times> alloc_state) result" where
  "clean_if_half_full clean roots s =
     (if agegroup0_freespace_in_bytes (buffer s) < agegroup0_usedspace_in_bytes (buffer s) then clean 0 roots s
      else Inr (roots, s))"

fun dump_constants_from_last :: "cleaner \<Rightarrow> val \<Rightarrow> system_constant list \<Rightarrow> val list \<Rightarrow> alloc_state \<Rightarrow> val \<Rightarrow> allocation" where
  "dump_constants_from_last clean empty_string [] roots s result_list = returning roots (s, result_list)"
| "dump_constants_from_last clean empty_string (c # table) roots s result_list =
     and_then (Some (clean_if_half_full clean (result_list # roots) s)) (\<lambda>(roots, s).
     and_then (make_ascii_string_from_c_string__may_heapclean clean empty_string (Some (const_name c)) roots s) (\<lambda>(roots, s, name).
       let (s, system_constant) = make_two_slot_record (TAGGED_INT_FROM_C_INT (const_id c)) name s;
           (s, result_list) = make_two_slot_record system_constant (hd roots) s
       in dump_constants_from_last clean empty_string table (tl roots) s result_list))"

definition dump_table_as_system_constants_list__may_heapclean ::
    "cleaner \<Rightarrow> val \<Rightarrow> system_constant list \<Rightarrow> val list \<Rightarrow> alloc_state \<Rightarrow> allocation" where
  "dump_table_as_system_constants_list__may_heapclean clean empty_string table roots s =
     dump_constants_from_last clean empty_string (rev table) roots s HEAP_NIL"

end
