(* ===== verification/Literals.thy ===== *)
theory Literals
  imports Heap_Values
begin

text \<open>
  The interpreter that rebuilds the literals of a package from their bytecode
  (\<open>src/c/heapcleaner/make-package-literals-via-bytecode-interpreter.c\<close>). The bytecode is a list
  of bytes; it lives in a Mythryl vector, which a heapcleaning may move but does not change. The
  values made so far are on a list in the Mythryl heap, the stack, which is a root of every
  heapcleaning. Reading past the end of the bytecode is a wild read.
\<close>

definition V1_MAGIC :: val where "V1_MAGIC = 0x19981022"
definition MAKE_TAGGED_VAL :: unt8 where "MAKE_TAGGED_VAL = 0x01"
definition MAKE_FOUR_BYTE_VAL :: unt8 where "MAKE_FOUR_BYTE_VAL = 0x02"
definition MAKE_FOUR_BYTE_VALS_VECTOR :: unt8 where "MAKE_FOUR_BYTE_VALS_VECTOR = 0x03"
definition MAKE_EIGHT_BYTE_VAL :: unt8 where "MAKE_EIGHT_BYTE_VAL = 0x04"
definition MAKE_EIGHT_BYTE_VALS_VECTOR :: unt8 where "MAKE_EIGHT_BYTE_VALS_VECTOR = 0x05"
definition MAKE_ASCII_STRING :: unt8 where "MAKE_ASCII_STRING = 0x06"
definition GET_ITH_LITERAL :: unt8 where "GET_ITH_LITERAL = 0x07"
definition MAKE_VECTOR :: unt8 where "MAKE_VECTOR = 0x08"
definition MAKE_RECORD :: unt8 where "MAKE_RECORD = 0x09"
definition RETURN_LAST_LITERAL :: unt8 where "RETURN_LAST_LITERAL = 0xff"

lemmas opcode_defs = MAKE_TAGGED_VAL_def MAKE_FOUR_BYTE_VAL_def MAKE_FOUR_BYTE_VALS_VECTOR_def
  MAKE_EIGHT_BYTE_VAL_def MAKE_EIGHT_BYTE_VALS_VECTOR_def MAKE_ASCII_STRING_def GET_ITH_LITERAL_def
  MAKE_VECTOR_def MAKE_RECORD_def RETURN_LAST_LITERAL_def

section \<open>Reading the bytecode\<close>

definition fetch :: "unt8 list \<Rightarrow> nat \<Rightarrow> nat \<Rightarrow> unt8 list result" where
  "fetch code pc n = (if pc + n \<le> length code then Inr (take n (drop pc code)) else Inl Wild)"

definition big_endian :: "unt8 list \<Rightarrow> 'a::len word" where
  "big_endian bs = foldl (\<lambda>w b. push_bit 8 w OR ucast b) 0 bs"

definition GET32 :: "unt8 list \<Rightarrow> nat \<Rightarrow> val result" where
  "GET32 code pc = seq_result (fetch code pc 4) (\<lambda>bs. Inr (big_endian bs))"

text \<open>The bytes of a double are stored high byte first.\<close>

definition get_double :: "unt8 list \<Rightarrow> nat \<Rightarrow> 64 word result" where
  "get_double code pc = seq_result (fetch code pc 8) (\<lambda>bs. Inr (big_endian bs))"

fun get_words :: "unt8 list \<Rightarrow> nat \<Rightarrow> nat \<Rightarrow> val list result" where
  "get_words code pc 0 = Inr []"
| "get_words code pc (Suc n) =
     seq_result (GET32 code pc) (\<lambda>w. seq_result (get_words code (pc + 4) n) (\<lambda>ws. Inr (w # ws)))"

fun get_doubles :: "unt8 list \<Rightarrow> nat \<Rightarrow> nat \<Rightarrow> 64 word list result" where
  "get_doubles code pc 0 = Inr []"
| "get_doubles code pc (Suc n) =
     seq_result (get_double code pc) (\<lambda>d. seq_result (get_doubles code (pc + 8) n) (\<lambda>ds. Inr (d # ds)))"

section \<open>The stack\<close>

definition LIST_CONS :: "val \<Rightarrow> val \<Rightarrow> alloc_state \<Rightarrow> alloc_state \<times> val" where
  "LIST_CONS a b = make_two_slot_record a b"

fun list_tails :: "alloc_state \<Rightarrow> nat \<Rightarrow> val \<Rightarrow> val result" where
  "list_tails s 0 p = Inr p"
| "list_tails s (Suc n) p = seq_result (LIST_TAIL s p) (list_tails s n)"

text \<open>\<open>for (int i = n;  i --> 0;  ) { vec[i] = LIST_HEAD( stack ); stack = LIST_TAIL( stack ); }\<close>\<close>

fun pop_into :: "val \<Rightarrow> nat \<Rightarrow> val \<Rightarrow> alloc_state \<Rightarrow> (val \<times> alloc_state) result" where
  "pop_into vec 0 stack s = Inr (stack, s)"
| "pop_into vec (Suc i) stack s =
     seq_result (LIST_HEAD s stack) (\<lambda>v.
       let s = s\<lparr>words := (words s)(slot vec (int i) := v)\<rparr>
       in seq_result (LIST_TAIL s stack) (\<lambda>stack. pop_into vec i stack s))"

section \<open>Instructions\<close>

text \<open>The static values the instructions refer to.\<close>

record static_values =
  ZERO_LENGTH_STRING__GLOBAL :: val
  ZERO_LENGTH_VECTOR__GLOBAL :: val

text \<open>Roots are the stack and the caller's extra roots, in that order. An instruction either
  goes on at a program counter or ends the program with a value.\<close>

datatype literal_outcome = Go_On nat "val list" alloc_state | Return_Literal val "val list" alloc_state

definition push_and_go_on :: "nat \<Rightarrow> val list \<Rightarrow> alloc_state \<times> val \<Rightarrow> literal_outcome result option" where
  "push_and_go_on pc roots sv =
     (let (s, v) = sv; (s, stack) = LIST_CONS v (hd roots) s in Some (Inr (Go_On pc (stack # tl roots) s)))"

definition make_tagged_val :: "unt8 list \<Rightarrow> nat \<Rightarrow> val list \<Rightarrow> alloc_state \<Rightarrow> literal_outcome result option" where
  "make_tagged_val code pc roots s =
     and_then (Some (GET32 code pc)) (\<lambda>i. push_and_go_on (pc + 4) roots (s, TAGGED_INT_FROM_C_INT (sint i)))"

definition make_four_byte_val :: "unt8 list \<Rightarrow> nat \<Rightarrow> val list \<Rightarrow> alloc_state \<Rightarrow> literal_outcome result option" where
  "make_four_byte_val code pc roots s =
     and_then (Some (GET32 code pc)) (\<lambda>i. push_and_go_on (pc + 4) roots (make_one_word_int i s))"

definition make_four_byte_vals_vector :: "cleaner \<Rightarrow> unt8 list \<Rightarrow> nat \<Rightarrow> val list \<Rightarrow> alloc_state \<Rightarrow> literal_outcome result option" where
  "make_four_byte_vals_vector clean code pc roots s =
     and_then (Some (GET32 code pc)) (\<lambda>w. let len = sint w in
     and_then (allocate_nonempty_wordslots_vector__may_heapclean clean len roots s) (\<lambda>(roots, s, result).
     and_then (Some (get_words code (pc + 4) (nat len))) (\<lambda>ws.
       push_and_go_on (pc + 4 + 4 * nat len) roots (s\<lparr>words := write_words result ws (words s)\<rparr>, result))))"

definition make_eight_byte_val :: "unt8 list \<Rightarrow> nat \<Rightarrow> val list \<Rightarrow> alloc_state \<Rightarrow> literal_outcome result option" where
  "make_eight_byte_val code pc roots s =
     and_then (Some (get_double code pc)) (\<lambda>d. push_and_go_on (pc + 8) roots (make_float64 d s))"

definition make_eight_byte_vals_vector :: "cleaner \<Rightarrow> unt8 list \<Rightarrow> nat \<Rightarrow> val list \<Rightarrow> alloc_state \<Rightarrow> literal_outcome result option" where
  "make_eight_byte_vals_vector clean code pc roots s =
     and_then (Some (GET32 code pc)) (\<lambda>w. let len = sint w in
     and_then (allocate_biwordslots_vector__may_heapclean clean len roots s) (\<lambda>(roots, s, result).
     and_then (Some (get_doubles code (pc + 4) (nat len))) (\<lambda>ds.
       push_and_go_on (pc + 4 + 8 * nat len) roots
         (s\<lparr>words := write_words result (concat (map double_words ds)) (words s)\<rparr>, result))))"

text \<open>A negative length reaches \<open>memcpy\<close> as a huge number.\<close>

definition make_ascii_string :: "cleaner \<Rightarrow> static_values \<Rightarrow> unt8 list \<Rightarrow> nat \<Rightarrow> val list \<Rightarrow> alloc_state \<Rightarrow> literal_outcome result option" where
  "make_ascii_string clean statics code pc roots s =
     and_then (Some (GET32 code pc)) (\<lambda>w. let len = sint w in
       if len = 0 then push_and_go_on (pc + 4) roots (s, ZERO_LENGTH_STRING__GLOBAL statics)
       else if len < 0 then Some (Inl Wild)
       else and_then (allocate_headerless_ascii_string__may_heapclean clean len roots s) (\<lambda>(roots, s, result).
            and_then (Some (fetch code (pc + 4) (nat len))) (\<lambda>bs.
              push_and_go_on (pc + 4 + nat len) roots (make_vector_header STRING_TAGWORD result len (put_bytes result bs s)))))"

definition get_ith_literal :: "unt8 list \<Rightarrow> nat \<Rightarrow> val list \<Rightarrow> alloc_state \<Rightarrow> literal_outcome result option" where
  "get_ith_literal code pc roots s =
     and_then (Some (GET32 code pc)) (\<lambda>w.
     and_then (Some (list_tails s (nat (sint w)) (hd roots))) (\<lambda>p.
     and_then (Some (LIST_HEAD s p)) (\<lambda>v. push_and_go_on (pc + 4) roots (s, v))))"

text \<open>The chunk of a vector or record, filled from the stack.\<close>

definition chunk_from_stack :: "cleaner \<Rightarrow> int \<Rightarrow> nat \<Rightarrow> val list \<Rightarrow> alloc_state \<Rightarrow> allocation" where
  "chunk_from_stack clean len btag roots s =
     and_then (allocate_headerless_ro_pointers_chunk__may_heapclean clean len btag roots s) (\<lambda>(roots, s, result).
     and_then (Some (pop_into result (nat len) (hd roots) s)) (\<lambda>(stack, s).
       returning (stack # tl roots) (s, result)))"

definition make_vector :: "cleaner \<Rightarrow> static_values \<Rightarrow> unt8 list \<Rightarrow> nat \<Rightarrow> val list \<Rightarrow> alloc_state \<Rightarrow> literal_outcome result option" where
  "make_vector clean statics code pc roots s =
     and_then (Some (GET32 code pc)) (\<lambda>w. let len = sint w in
       if len = 0 then push_and_go_on (pc + 4) roots (s, ZERO_LENGTH_VECTOR__GLOBAL statics)
       else and_then (chunk_from_stack clean len PAIRS_AND_RECORDS_BTAG roots s) (\<lambda>(roots, s, result).
              push_and_go_on (pc + 4) roots (make_vector_header TYPEAGNOSTIC_RO_VECTOR_TAGWORD result len s)))"

definition make_record :: "cleaner \<Rightarrow> unt8 list \<Rightarrow> nat \<Rightarrow> val list \<Rightarrow> alloc_state \<Rightarrow> literal_outcome result option" where
  "make_record clean code pc roots s =
     and_then (Some (GET32 code pc)) (\<lambda>w. let len = sint w in
       if len = 0 then push_and_go_on (pc + 4) roots (s, HEAP_VOID)
       else and_then (chunk_from_stack clean len PAIRS_AND_RECORDS_BTAG roots s) (\<lambda>(roots, s, result).
              push_and_go_on (pc + 4) roots (s, result)))"

definition return_last_literal :: "val list \<Rightarrow> alloc_state \<Rightarrow> literal_outcome result option" where
  "return_last_literal roots s =
     and_then (Some (check_agegroup0_overrun_tripwire_buffer (buffer s) (words s))) (\<lambda>_.
     and_then (Some (LIST_HEAD s (hd roots))) (\<lambda>v. Some (Inr (Return_Literal v (tl roots) s))))"

definition execute_instruction ::
    "cleaner \<Rightarrow> static_values \<Rightarrow> unt8 list \<Rightarrow> unt8 \<Rightarrow> nat \<Rightarrow> val list \<Rightarrow> alloc_state \<Rightarrow> literal_outcome result option" where
  "execute_instruction clean statics code opcode pc roots s =
     (if opcode = MAKE_TAGGED_VAL then make_tagged_val code pc roots s
      else if opcode = MAKE_FOUR_BYTE_VAL then make_four_byte_val code pc roots s
      else if opcode = MAKE_FOUR_BYTE_VALS_VECTOR then make_four_byte_vals_vector clean code pc roots s
      else if opcode = MAKE_EIGHT_BYTE_VAL then make_eight_byte_val code pc roots s
      else if opcode = MAKE_EIGHT_BYTE_VALS_VECTOR then make_eight_byte_vals_vector clean code pc roots s
      else if opcode = MAKE_ASCII_STRING then make_ascii_string clean statics code pc roots s
      else if opcode = GET_ITH_LITERAL then get_ith_literal code pc roots s
      else if opcode = MAKE_VECTOR then make_vector clean statics code pc roots s
      else if opcode = MAKE_RECORD then make_record clean code pc roots s
      else if opcode = RETURN_LAST_LITERAL then return_last_literal roots s
      else Some (Inl (Died ''bogus literal opcode'')))"

section \<open>The loop\<close>

text \<open>\<open>empty_agegroup0_buffer_if_more_than_half_full\<close> compares its byte counts as \<open>int\<close>s.\<close>

definition empty_agegroup0_buffer_if_more_than_half_full :: "cleaner \<Rightarrow> val list \<Rightarrow> alloc_state \<Rightarrow> (val list \<times> alloc_state) result" where
  "empty_agegroup0_buffer_if_more_than_half_full clean roots s =
     (if sint (agegroup0_freespace_in_bytes (buffer s)) < sint (agegroup0_usedspace_in_bytes (buffer s))
      then clean 0 roots s else Inr (roots, s))"

definition literal_step :: "cleaner \<Rightarrow> static_values \<Rightarrow> val \<Rightarrow> unt8 list \<Rightarrow> nat \<Rightarrow> val list \<Rightarrow> alloc_state \<Rightarrow> literal_outcome result option" where
  "literal_step clean statics tripwirebuf code pc roots s =
     and_then (Some (empty_agegroup0_buffer_if_more_than_half_full clean roots s)) (\<lambda>(roots, s).
       if words s tripwirebuf \<noteq> AGEGROUP0_OVERRUN_TRIPWIRE_BUFFER_VALUE then Some (Inl (Died ''TRIPWIRE BUFFER TRASHED''))
       else and_then (Some (fetch code pc 1)) (\<lambda>bs. execute_instruction clean statics code (hd bs) (pc + 1) roots s))"

partial_function (option) literal_loop ::
    "cleaner \<Rightarrow> static_values \<Rightarrow> val \<Rightarrow> unt8 list \<Rightarrow> nat \<Rightarrow> val list \<Rightarrow> alloc_state \<Rightarrow> allocation" where
  "literal_loop clean statics tripwirebuf code pc roots s =
     Option.bind (literal_step clean statics tripwirebuf code pc roots s) (\<lambda>r. case r of
        Inl e \<Rightarrow> Some (Inl e)
      | Inr (Return_Literal v roots s) \<Rightarrow> Some (Inr (roots, s, v))
      | Inr (Go_On pc roots s) \<Rightarrow> literal_loop clean statics tripwirebuf code pc roots s)"

definition make_package_literals_via_bytecode_interpreter__may_heapclean ::
    "cleaner \<Rightarrow> static_values \<Rightarrow> unt8 list \<Rightarrow> val list \<Rightarrow> alloc_state \<Rightarrow> allocation" where
  "make_package_literals_via_bytecode_interpreter__may_heapclean clean statics code roots s =
     and_then (Some (check_agegroup0_overrun_tripwire_buffer (buffer s) (words s))) (\<lambda>_.
       if length code \<le> 8 then returning roots (s, HEAP_NIL)
       else and_then (Some (GET32 code 0)) (\<lambda>magic.
            and_then (Some (GET32 code 4)) (\<lambda>max_depth.
              if magic \<noteq> V1_MAGIC then Some (Inl (Died ''bogus literal magic number''))
              else literal_loop clean statics (real_heap_allocation_limit (buffer s) + MIN_FREE_BYTES_IN_AGEGROUP0_BUFFER)
                     code 8 (HEAP_NIL # roots) s)))"

end
