(* ===== verification/Heap_Allocation_Facts.thy ===== *)
theory Heap_Allocation_Facts
  imports Heap_Values
begin

text \<open>
  What the allocation routines do to memory: reading back words and bytes, the growth of the
  allocated part of the agegroup 0 buffer, and the chunk each small allocation leaves behind.
\<close>

abbreviation hap :: "alloc_state \<Rightarrow> val" where
  "hap s \<equiv> heap_allocation_pointer (buffer s)"

section \<open>Reading back words\<close>

lemma unat_below:
  fixes w :: val
  shows "unat w < 2 ^ 32"
  by (rule order.strict_trans2 [OF unsigned_less]) simp

lemma unat_offset:
  fixes p :: val
  assumes "unat p + n < 2 ^ 32"
  shows "unat (p + word_of_nat n) = unat p + n"
proof -
  have "p + word_of_nat n = word_of_nat (unat p + n)" by simp
  then show ?thesis using assms unat_word_of_nat [of "unat p + n", where ?'a = 32] by simp
qed

lemma unat_slot_nat:
  fixes p :: val
  assumes "unat p + 4 * n < 2 ^ 32"
  shows "unat (p + 4 * word_of_nat n) = unat p + 4 * n"
  using unat_offset [of p "4 * n"] assms by simp

lemma slot_of_nat: "slot p (int n) = p + 4 * word_of_nat n"
  by (simp add: slot_def)

lemma unat_slot:
  "unat p + 4 * n < 2 ^ 32 \<Longrightarrow> unat (slot p (int n)) = unat p + 4 * n"
  unfolding slot_of_nat by (rule unat_slot_nat)

lemma write_words_out:
  assumes "unat a < unat p \<or> unat p + 4 * length ws \<le> unat a" and "unat p + 4 * length ws \<le> 2 ^ 32"
  shows "write_words p ws m a = m a"
  using assms
proof (induction ws arbitrary: p m)
  case Nil
  then show ?case by simp
next
  case (Cons w ws)
  have ne: "a \<noteq> p" using Cons.prems(1) by auto
  show ?case
  proof (cases "ws = []")
    case True
    then show ?thesis using ne by simp
  next
    case False
    then have "unat p + 4 * 1 < 2 ^ 32" using Cons.prems(2) by (cases ws) auto
    then have "unat (p + 4) = unat p + 4" using unat_slot_nat [of p 1] by simp
    then show ?thesis using Cons.IH [of "p + 4"] Cons.prems ne by auto
  qed
qed

lemma write_words_in:
  assumes "i < length ws" and "unat p + 4 * length ws \<le> 2 ^ 32"
  shows "write_words p ws m (p + 4 * word_of_nat i) = ws ! i"
  using assms
proof (induction ws arbitrary: p m i)
  case Nil
  then show ?case by simp
next
  case (Cons w ws)
  show ?case
  proof (cases "ws = []")
    case True
    then show ?thesis using Cons.prems(1) by simp
  next
    case False
    then have "unat p + 4 * 1 < 2 ^ 32" using Cons.prems(2) by (cases ws) auto
    then have p4: "unat (p + 4) = unat p + 4" using unat_slot_nat [of p 1] by simp
    show ?thesis
    proof (cases i)
      case 0
      have "write_words (p + 4) ws (m(p := w)) p = (m(p := w)) p"
        by (rule write_words_out) (use p4 Cons.prems(2) in auto)
      then show ?thesis using 0 by simp
    next
      case (Suc j)
      have "p + 4 * word_of_nat i = (p + 4) + 4 * word_of_nat j" using Suc by (simp add: algebra_simps)
      then show ?thesis using Cons.IH [of j "p + 4"] Cons.prems Suc p4 by (simp add: add.assoc)
    qed
  qed
qed

section \<open>Reading back bytes\<close>

lemma unat_and_3: "unat (a AND 3 :: val) = unat a mod 4"
  unfolding three_eq_mask unat_and_mask by simp

lemma unat_and_not_3: "unat (a AND NOT 3 :: val) = unat a - unat a mod 4"
  unfolding three_eq_mask and_not_mask_nat by (simp add: minus_mod_eq_div_mult)

lemma same_word_and_byte:
  fixes a c :: val
  assumes "a AND NOT 3 = c AND NOT 3" and "a AND 3 = c AND 3"
  shows "a = c"
proof -
  have "a = (a AND NOT 3) OR (a AND 3)" by (rule bit_word_eqI) (auto simp: bit_simps)
  also have "\<dots> = c" unfolding assms by (rule bit_word_eqI) (auto simp: bit_simps)
  finally show ?thesis .
qed

lemma mask_255: "(0xFF :: val) = mask 8"
  by (simp add: mask_eq_decr_exp)

lemma bit_255: "bit (0xFF :: val) n \<longleftrightarrow> n < 8"
  unfolding mask_255 by (auto simp: bit_mask_iff)

lemma byte_of_word:
  fixes w :: val and b :: unt8
  assumes "j < 4" and "k < 4"
  shows "(ucast (drop_bit (8 * j) (w AND NOT (push_bit (8 * k) 0xFF) OR push_bit (8 * k) (ucast b))) :: unt8) =
    (if j = k then b else ucast (drop_bit (8 * j) w))"
proof (rule bit_word_eqI)
  fix n
  assume n: "n < LENGTH(8)"
  then have n8: "n < 8" by simp
  have pos: "8 * j + n < 32" using assms n8 by simp
  have same: "8 * k \<le> 8 * j + n \<and> 8 * j + n - 8 * k < 8 \<longleftrightarrow> j = k" using n8 by (cases j k rule: linorder_cases) auto
  have field: "bit (push_bit (8 * k) (0xFF :: val)) (8 * j + n) \<longleftrightarrow> j = k"
    unfolding bit_push_bit_iff bit_255 using pos same by simp
  have new: "bit (push_bit (8 * k) (ucast b :: val)) (8 * j + n) \<longleftrightarrow> j = k \<and> bit b n"
    unfolding bit_push_bit_iff bit_ucast_iff using pos same n8 bit_imp_le_length [of b "8 * j + n - 8 * k"] by auto
  have "bit (ucast (drop_bit (8 * j) (w AND NOT (push_bit (8 * k) 0xFF) OR push_bit (8 * k) (ucast b))) :: unt8) n \<longleftrightarrow>
      bit w (8 * j + n) \<and> j \<noteq> k \<or> j = k \<and> bit b n"
    using n8 pos by (simp only: bit_ucast_iff bit_drop_bit_eq comp_def bit_or_iff bit_and_iff bit_not_iff field new) auto
  moreover have "bit (ucast (drop_bit (8 * j) w) :: unt8) n \<longleftrightarrow> bit w (8 * j + n)"
    using n8 by (simp add: bit_ucast_iff bit_drop_bit_eq)
  ultimately show "bit (ucast (drop_bit (8 * j) (w AND NOT (push_bit (8 * k) 0xFF) OR push_bit (8 * k) (ucast b))) :: unt8) n =
      bit (if j = k then b else ucast (drop_bit (8 * j) w)) n"
    by auto
qed

lemma get_byte_set_byte: "get_byte (set_byte a b m) c = (if c = a then b else get_byte m c)"
proof (cases "c AND NOT 3 = a AND NOT 3")
  case True
  have j: "unat (c AND 3) < 4" "unat (a AND 3) < 4" by (simp_all add: unat_and_3)
  have "c = a \<longleftrightarrow> c AND 3 = a AND 3" using True same_word_and_byte by blast
  then have "c = a \<longleftrightarrow> unat (c AND 3) = unat (a AND 3)" unfolding word_unat_eq_iff [of "c AND 3"] .
  then show ?thesis
    unfolding get_byte_def set_byte_def Let_def True fun_upd_same byte_of_word [OF j] by simp
next
  case False
  then show ?thesis by (auto simp: get_byte_def set_byte_def Let_def)
qed

lemma copy_bytes_byte_out:
  assumes "unat a < unat p \<or> unat p + length bs \<le> unat a" and "unat p + length bs \<le> 2 ^ 32"
  shows "get_byte (copy_bytes p bs m) a = get_byte m a"
  using assms
proof (induction bs arbitrary: p m)
  case Nil
  then show ?case by simp
next
  case (Cons b bs)
  have ne: "a \<noteq> p" using Cons.prems(1) by auto
  show ?case
  proof (cases "bs = []")
    case True
    then show ?thesis using ne by (simp add: get_byte_set_byte)
  next
    case False
    then have "1 \<le> length bs" by (cases bs) auto
    then have "unat p + 1 < 2 ^ 32" using Cons.prems(2) unfolding length_Cons by linarith
    then have "unat (p + 1) = unat p + 1" using unat_offset [of p 1] by simp
    then show ?thesis using Cons.IH [of "p + 1"] Cons.prems ne by (auto simp: get_byte_set_byte)
  qed
qed

lemma copy_bytes_byte_in:
  assumes "i < length bs" and "unat p + length bs \<le> 2 ^ 32"
  shows "get_byte (copy_bytes p bs m) (p + word_of_nat i) = bs ! i"
  using assms
proof (induction bs arbitrary: p m i)
  case Nil
  then show ?case by simp
next
  case (Cons b bs)
  show ?case
  proof (cases "bs = []")
    case True
    then show ?thesis using Cons.prems(1) by (simp add: get_byte_set_byte)
  next
    case False
    then have "1 \<le> length bs" by (cases bs) auto
    then have "unat p + 1 < 2 ^ 32" using Cons.prems(2) unfolding length_Cons by linarith
    then have p1: "unat (p + 1) = unat p + 1" using unat_offset [of p 1] by simp
    show ?thesis
    proof (cases i)
      case 0
      have "get_byte (copy_bytes (p + 1) bs (set_byte p b m)) p = get_byte (set_byte p b m) p"
        by (rule copy_bytes_byte_out) (use p1 Cons.prems(2) in auto)
      then show ?thesis using 0 by (simp add: get_byte_set_byte)
    next
      case (Suc j)
      have "p + word_of_nat i = (p + 1) + word_of_nat j" using Suc by (simp add: algebra_simps)
      then show ?thesis using Cons.IH [of j "p + 1"] Cons.prems Suc p1 by (simp add: add.assoc)
    qed
  qed
qed

lemma copy_bytes_word_out:
  assumes "unat a < unat p - unat p mod 4 \<or> unat p + length bs \<le> unat a" and "unat p + length bs \<le> 2 ^ 32"
  shows "copy_bytes p bs m a = m a"
  using assms
proof (induction bs arbitrary: p m)
  case Nil
  then show ?case by simp
next
  case (Cons b bs)
  have "unat (p AND NOT 3) = unat p - unat p mod 4" by (rule unat_and_not_3)
  then have "unat a \<noteq> unat (p AND NOT 3)" using Cons.prems(1) by auto
  then have ne: "a \<noteq> p AND NOT 3" by blast
  show ?case
  proof (cases "bs = []")
    case True
    then show ?thesis using ne by (simp add: set_byte_def Let_def)
  next
    case False
    then have "1 \<le> length bs" by (cases bs) auto
    then have "unat p + 1 < 2 ^ 32" using Cons.prems(2) unfolding length_Cons by linarith
    then have p1: "unat (p + 1) = unat p + 1" using unat_offset [of p 1] by simp
    have "k - k mod 4 \<le> k + 1 - (k + 1) mod 4" for k :: nat by presburger
    then have "unat p - unat p mod 4 \<le> unat p + 1 - (unat p + 1) mod 4" .
    then have "unat a < unat (p + 1) - unat (p + 1) mod 4 \<or> unat (p + 1) + length bs \<le> unat a"
      using Cons.prems(1) unfolding p1 length_Cons by linarith
    moreover have "unat (p + 1) + length bs \<le> 2 ^ 32" using Cons.prems(2) p1 by simp
    ultimately have "copy_bytes (p + 1) bs (set_byte p b m) a = set_byte p b m a" by (rule Cons.IH)
    then show ?thesis using ne by (simp add: set_byte_def Let_def)
  qed
qed

section \<open>Growth of the buffer\<close>

text \<open>
  \<open>grows s t\<close>: on the way from \<open>s\<close> to \<open>t\<close> the allocation pointer moved up, only words between
  its old and its new place were written, and nothing else changed.
\<close>

definition grows :: "alloc_state \<Rightarrow> alloc_state \<Rightarrow> bool" where
  "grows s t \<longleftrightarrow> unat (hap s) \<le> unat (hap t) \<and> buffer t = (buffer s)\<lparr>heap_allocation_pointer := hap t\<rparr> \<and>
     sibs t = sibs s \<and> total_bytes_allocated t = total_bytes_allocated s \<and>
     (\<forall>a. unat a < unat (hap s) \<or> unat (hap t) \<le> unat a \<longrightarrow> words t a = words s a)"

definition room :: "nat \<Rightarrow> alloc_state \<Rightarrow> bool" where
  "room n s \<longleftrightarrow> unat (hap s) mod 4 = 0 \<and> unat (hap s) + 4 * n < 2 ^ 32"

text \<open>\<open>chunk m lim v tagword n\<close>: there is a chunk of \<open>n\<close> words at \<open>v\<close>, below \<open>lim\<close>.\<close>

definition chunk :: "(val \<Rightarrow> val) \<Rightarrow> nat \<Rightarrow> val \<Rightarrow> val \<Rightarrow> nat \<Rightarrow> bool" where
  "chunk m lim v tagword n \<longleftrightarrow> IS_POINTER v \<and> 4 \<le> unat v \<and> unat v + 4 * n \<le> lim \<and> m (v - 4) = tagword"

text \<open>A chunk that was laid down last.\<close>

definition new_chunk :: "alloc_state \<Rightarrow> alloc_state \<Rightarrow> val \<Rightarrow> val \<Rightarrow> nat \<Rightarrow> bool" where
  "new_chunk s t v tagword n \<longleftrightarrow> grows s t \<and> unat (hap s) + 4 \<le> unat v \<and> unat (hap t) = unat v + 4 * n \<and>
     unat (hap t) mod 4 = 0 \<and> chunk (words t) (unat (hap t)) v tagword n"

lemma new_chunkD:
  assumes "new_chunk s t v tagword n"
  shows "grows s t" and "IS_POINTER v" and "unat (hap t) = unat v + 4 * n" and "unat (hap s) + 4 \<le> unat v"
    and "unat v + 4 * n < 2 ^ 32" and "chunk (words t) (unat (hap t)) v tagword n" and "unat (hap t) mod 4 = 0"
proof -
  show "grows s t" and "IS_POINTER v" and top: "unat (hap t) = unat v + 4 * n" and "unat (hap s) + 4 \<le> unat v"
    and "chunk (words t) (unat (hap t)) v tagword n" and "unat (hap t) mod 4 = 0"
    using assms unfolding new_chunk_def chunk_def by blast+
  show "unat v + 4 * n < 2 ^ 32" unfolding top [symmetric] by (rule unat_below)
qed

lemma grows_refl [simp]: "grows s s"
  by (simp add: grows_def)

lemma grows_trans:
  assumes "grows s t" and "grows t u"
  shows "grows s u"
  unfolding grows_def
proof (intro conjI allI impI)
  show "unat (hap s) \<le> unat (hap u)" using assms by (simp add: grows_def)
  have "buffer u = (buffer t)\<lparr>heap_allocation_pointer := hap u\<rparr>" using assms(2) unfolding grows_def by blast
  moreover have "buffer t = (buffer s)\<lparr>heap_allocation_pointer := hap t\<rparr>" using assms(1) unfolding grows_def by blast
  ultimately show "buffer u = (buffer s)\<lparr>heap_allocation_pointer := hap u\<rparr>" by (metis task_buffer.update_convs(3) task_buffer.surjective task_buffer.ext_inject)
  show "sibs u = sibs s" "total_bytes_allocated u = total_bytes_allocated s" using assms by (simp_all add: grows_def)
  fix a :: val
  assume a: "unat a < unat (hap s) \<or> unat (hap u) \<le> unat a"
  have le: "unat (hap s) \<le> unat (hap t)" "unat (hap t) \<le> unat (hap u)" using assms unfolding grows_def by blast+
  have "words u a = words t a" using assms(2) a le unfolding grows_def by auto
  also have "words t a = words s a" using assms(1) a le unfolding grows_def by auto
  finally show "words u a = words s a" .
qed

lemma grows_rewrite:
  assumes "grows s t" and "\<And>a. unat a < unat (hap s) \<or> unat (hap t) \<le> unat a \<Longrightarrow> m a = words t a"
  shows "grows s (t\<lparr>words := m\<rparr>)"
  using assms unfolding grows_def by auto

lemma pointer_above:
  fixes p :: val
  assumes "unat p mod 4 = 0" and "unat p + 4 < 2 ^ 32"
  shows "IS_POINTER (p + 4)" and "unat (p + 4) = unat p + 4"
proof -
  show "unat (p + 4) = unat p + 4" using unat_slot_nat [of p 1] assms(2) by simp
  then show "IS_POINTER (p + 4)" using assms(1) by (simp add: IS_POINTER_iff mod_add_right_eq)
qed

lemma make_chunk_ok:
  assumes "make_chunk tagword ws s = (t, v)" and "room (length ws + 1) s"
  shows "new_chunk s t v tagword (length ws)"
    and "\<And>i. i < length ws \<Longrightarrow> words t (v + 4 * word_of_nat i) = ws ! i"
    and "unat (hap t) = unat (hap s) + 4 * (length ws + 1)"
proof -
  let ?p = "hap s"
  have t: "t = set_heap_allocation_pointer (slot ?p (int (length ws + 1))) (s\<lparr>words := write_words ?p (tagword # ws) (words s)\<rparr>)"
    and v: "v = ?p + 4"
    using assms(1) unfolding make_chunk_def Let_def by (auto simp: add.commute)
  have al: "unat ?p mod 4 = 0" and lt: "unat ?p + 4 * (length ws + 1) < 2 ^ 32" using assms(2) by (simp_all add: room_def)
  have p: "unat ?p + 4 < 2 ^ 32" using lt by simp
  have uv: "unat v = unat ?p + 4" and ptr: "IS_POINTER v" unfolding v using pointer_above [OF al p] by simp_all
  have ht: "hap t = slot ?p (int (length ws + 1))" unfolding t by (simp add: set_heap_allocation_pointer_def)
  show ut: "unat (hap t) = unat (hap s) + 4 * (length ws + 1)" unfolding ht by (rule unat_slot) (rule lt)
  have wt: "words t = write_words ?p (tagword # ws) (words s)" unfolding t by (simp add: set_heap_allocation_pointer_def)
  have fits: "unat ?p + 4 * length (tagword # ws) \<le> 2 ^ 32" using lt by simp
  have out: "words t a = words s a" if "unat a < unat ?p \<or> unat (hap t) \<le> unat a" for a
    unfolding wt by (rule write_words_out) (use that ut fits in auto)
  have "grows s t"
    unfolding grows_def using out ut by (auto simp: t set_heap_allocation_pointer_def)
  moreover have "words t (v - 4) = tagword"
    using write_words_in [of 0 "tagword # ws" ?p "words s"] fits unfolding wt v by simp
  ultimately show "new_chunk s t v tagword (length ws)"
    using uv ut ptr al by (auto simp: new_chunk_def chunk_def mod_add_eq [symmetric] simp flip: distrib_left)
  show "words t (v + 4 * word_of_nat i) = ws ! i" if "i < length ws" for i
  proof -
    have "v + 4 * word_of_nat i = ?p + 4 * word_of_nat (Suc i)" unfolding v by (simp add: algebra_simps)
    then show ?thesis unfolding wt using write_words_in [of "Suc i" "tagword # ws" ?p "words s"] fits that by (simp add: add.assoc)
  qed
qed

lemma allocate_small_ok:
  assumes "allocate_small tagword (int n) s = (t, v)" and "room (n + 1) s"
  shows "new_chunk s t v tagword n" and "unat (hap t) = unat (hap s) + 4 * (n + 1)"
proof -
  let ?p = "hap s"
  have al: "unat ?p mod 4 = 0" and lt: "unat ?p + 4 * (n + 1) < 2 ^ 32" using assms(2) by (simp_all add: room_def)
  have p: "unat ?p + 4 < 2 ^ 32" using lt by simp
  have t: "t = set_heap_allocation_pointer (slot ?p (int (n + 1))) (s\<lparr>words := (words s)(?p := tagword)\<rparr>)" and v: "v = ?p + 4"
    using assms(1) by (auto simp: allocate_small_def commit_nascent_heapchunk_def set_slot_in_nascent_heapchunk_def
      set_heap_allocation_pointer_def slot_def Let_def algebra_simps)
  have uv: "unat v = unat ?p + 4" and ptr: "IS_POINTER v" unfolding v using pointer_above [OF al p] by simp_all
  have ht: "hap t = slot ?p (int (n + 1))" unfolding t by (simp add: set_heap_allocation_pointer_def)
  show ut: "unat (hap t) = unat (hap s) + 4 * (n + 1)" unfolding ht by (rule unat_slot) (rule lt)
  have wt: "words t = (words s)(?p := tagword)" unfolding t by (simp add: set_heap_allocation_pointer_def)
  have "grows s t"
    unfolding grows_def using ut by (auto simp: t set_heap_allocation_pointer_def)
  moreover have "words t (v - 4) = tagword" unfolding wt v by simp
  ultimately show "new_chunk s t v tagword n"
    using uv ut ptr al by (auto simp: new_chunk_def chunk_def mod_add_eq [symmetric] simp flip: distrib_left)
qed

lemma bit_four: "bit (4 :: val) n \<longleftrightarrow> n = 2"
proof -
  have four: "(4 :: val) = push_bit 2 1" by simp
  show ?thesis unfolding four bit_push_bit_iff bit_1_iff by auto
qed

lemma align_for_float64_ok:
  assumes "room (n + 1) s"
  shows "grows s (align_for_float64 s)" and "room n (align_for_float64 s)"
    and "unat (hap (align_for_float64 s)) \<le> unat (hap s) + 4"
proof -
  let ?p = "hap s"
  have al: "unat ?p mod 4 = 0" and lt: "unat ?p + 4 * (n + 1) < 2 ^ 32" using assms by (simp_all add: room_def)
  have p4: "unat (?p + 4) = unat ?p + 4" using unat_slot_nat [of ?p 1] lt by simp
  have "?p OR 4 = ?p \<or> ?p OR 4 = ?p + 4"
  proof (cases "?p AND 4 = 0")
    case True
    then show ?thesis by (simp add: disjunctive_add_eq_or)
  next
    case False
    have "?p AND 4 = 0" if b: "\<not> bit ?p 2"
    proof (rule bit_word_eqI)
      show "bit (?p AND 4) n \<longleftrightarrow> bit (0 :: val) n" for n unfolding bit_and_iff bit_four using b by auto
    qed
    with False have "bit ?p 2" by blast
    then have "bit (?p OR 4) n \<longleftrightarrow> bit ?p n" for n unfolding bit_or_iff bit_four by auto
    then have "?p OR 4 = ?p" by (simp add: bit_eq_iff)
    then show ?thesis ..
  qed
  then have cases: "unat (hap (align_for_float64 s)) = unat ?p \<or> unat (hap (align_for_float64 s)) = unat ?p + 4"
    using p4 by (auto simp: align_for_float64_def set_heap_allocation_pointer_def)
  then show "unat (hap (align_for_float64 s)) \<le> unat (hap s) + 4" by auto
  show "room n (align_for_float64 s)" using cases al lt by (auto simp: room_def mod_add_eq [symmetric])
  have "unat ?p \<le> unat (hap (align_for_float64 s))" using cases by auto
  then show "grows s (align_for_float64 s)"
    by (simp add: grows_def align_for_float64_def set_heap_allocation_pointer_def)
qed

lemma new_chunk_after_growth:
  assumes "grows s t" and "new_chunk t u v tagword n"
  shows "new_chunk s u v tagword n"
proof -
  have "grows s u" using assms grows_trans unfolding new_chunk_def by blast
  moreover have "unat (hap s) \<le> unat (hap t)" using assms(1) by (simp add: grows_def)
  ultimately show ?thesis using assms(2) unfolding new_chunk_def by (elim conjE, intro conjI) (assumption | linarith)+
qed

lemma new_chunk_rewrite:
  assumes "new_chunk s t v tagword n" and "\<And>a. unat a < unat v \<or> unat (hap t) \<le> unat a \<Longrightarrow> m a = words t a"
  shows "new_chunk s (t\<lparr>words := m\<rparr>) v tagword n"
proof -
  have le: "unat (hap s) + 4 \<le> unat v" using assms(1) by (simp add: new_chunk_def)
  then have "unat (v - 4) < unat v" by (simp add: unat_sub word_le_nat_alt)
  then have "m (v - 4) = words t (v - 4)" using assms(2) by blast
  moreover have "grows s (t\<lparr>words := m\<rparr>)"
    by (rule grows_rewrite) (use assms le in \<open>auto simp: new_chunk_def\<close>)
  ultimately show ?thesis using assms(1) by (simp add: new_chunk_def chunk_def IS_POINTER_iff)
qed

end
