(* ===== verification/Heap_Value_Facts.thy ===== *)
theory Heap_Value_Facts
  imports Heap_Allocation_Facts
begin

text \<open>
  Strings made from C strings read back as the C strings they were made from, and small chunks
  need no heapcleaning.
\<close>

lemma int_tagword_of_nat:
  assumes "n < 2 ^ 32"
  shows "int_tagword (int n) b = MAKE_TAGWORD n b"
  using unat_word_of_nat [of n, where ?'a = 32] assms by (simp add: int_tagword_def)

lemma BYTES_TO_WORDS_of_nat: "BYTES_TO_WORDS (int n) = int ((n + 3) div 4)"
  by (simp add: BYTES_TO_WORDS_def drop_bit_eq_div zdiv_int)

definition string_words :: "nat \<Rightarrow> nat" where
  "string_words len = (len + 4) div 4"

lemma BYTES_TO_WORDS_string: "BYTES_TO_WORDS (int len + 1) = int (string_words len)"
  using BYTES_TO_WORDS_of_nat [of "len + 1"] by (simp add: string_words_def add.commute)

lemma string_words_bounds: "len < 4 * string_words len" "4 * (string_words len - 1) \<le> len" "0 < string_words len"
  by (simp_all add: string_words_def)

lemma wordslots_vector_ok:
  assumes "int n \<le> MAX_AGEGROUP0_ALLOCATION_SIZE_IN_WORDS" and "room (n + 1) s"
  obtains t v where "allocate_nonempty_wordslots_vector__may_heapclean clean (int n) roots s = returning roots (t, v)"
    and "new_chunk s t v (MAKE_TAGWORD n FOUR_BYTE_ALIGNED_NONPOINTER_DATA_BTAG) n"
    and "unat (hap t) = unat (hap s) + 4 * (n + 1)"
proof -
  let ?tag = "MAKE_TAGWORD n FOUR_BYTE_ALIGNED_NONPOINTER_DATA_BTAG"
  obtain t v where tv: "allocate_small ?tag (int n) s = (t, v)" by (cases "allocate_small ?tag (int n) s")
  have "n < 2 ^ 32" using assms(1) by (simp add: MAX_AGEGROUP0_ALLOCATION_SIZE_IN_WORDS_def)
  then have "allocate_nonempty_wordslots_vector__may_heapclean clean (int n) roots s = returning roots (t, v)"
    using assms(1) tv by (simp add: allocate_nonempty_wordslots_vector__may_heapclean_def Let_def int_tagword_of_nat)
  then show thesis using that allocate_small_ok [OF tv assms(2)] by blast
qed

text \<open>Writing inside the chunk that was laid down last.\<close>

lemma put_bytes_ok:
  assumes "new_chunk s t v tagword n" and "length bs \<le> 4 * n"
  shows "new_chunk s (put_bytes v bs t) v tagword n" and "hap (put_bytes v bs t) = hap t"
    and "\<And>i. i < length bs \<Longrightarrow> get_byte (words (put_bytes v bs t)) (v + word_of_nat i) = bs ! i"
    and "\<And>i. length bs \<le> i \<Longrightarrow> i < 4 * n \<Longrightarrow>
      get_byte (words (put_bytes v bs t)) (v + word_of_nat i) = get_byte (words t) (v + word_of_nat i)"
proof -
  note top = new_chunkD(3) [OF assms(1)] and ptr = new_chunkD(2) [OF assms(1)] and lt = new_chunkD(5) [OF assms(1)]
  have fits: "unat v + length bs \<le> 2 ^ 32" using lt assms(2) by simp
  show "hap (put_bytes v bs t) = hap t" by (simp add: put_bytes_def)
  show "new_chunk s (put_bytes v bs t) v tagword n"
    unfolding put_bytes_def
  proof (rule new_chunk_rewrite [OF assms(1)])
    fix a :: val
    assume a: "unat a < unat v \<or> unat (hap t) \<le> unat a"
    show "copy_bytes v bs (words t) a = words t a"
      by (rule copy_bytes_word_out [OF _ fits]) (use a top assms(2) ptr in \<open>auto simp: IS_POINTER_iff\<close>)
  qed
  show "get_byte (words (put_bytes v bs t)) (v + word_of_nat i) = bs ! i" if "i < length bs" for i
    using copy_bytes_byte_in [OF that fits] by (simp add: put_bytes_def)
  show "get_byte (words (put_bytes v bs t)) (v + word_of_nat i) = get_byte (words t) (v + word_of_nat i)"
    if "length bs \<le> i" "i < 4 * n" for i
  proof -
    have "unat (v + word_of_nat i) = unat v + i" by (rule unat_offset) (use lt that in simp)
    then show ?thesis unfolding put_bytes_def using copy_bytes_byte_out [OF _ fits, of "v + word_of_nat i"] that by simp
  qed
qed

lemma get_byte_zero_word:
  assumes "m w = 0" and "a AND NOT 3 = w"
  shows "get_byte m a = 0"
  using assms by (simp add: get_byte_def)

lemma word_of_byte:
  assumes "IS_POINTER v" and "unat v + 4 * n < 2 ^ 32" and "i div 4 < n"
  shows "(v + word_of_nat i) AND NOT 3 = v + 4 * word_of_nat (i div 4)"
proof -
  have i: "i < 4 * n" using assms(3) by linarith
  have "unat (v + word_of_nat i) = unat v + i" by (rule unat_offset) (use assms(2) i in simp)
  then have "unat ((v + word_of_nat i) AND NOT 3) = unat v + i - (unat v + i) mod 4" by (simp only: unat_and_not_3)
  also have "(unat v + i) mod 4 = i mod 4" using assms(1) by (simp add: IS_POINTER_iff mod_add_eq [symmetric])
  also have "unat v + i - i mod 4 = unat v + 4 * (i div 4)" using mult_div_mod_eq [of 4 i] by linarith
  finally show ?thesis
    using unat_slot_nat [of v "i div 4"] assms(2) i by (simp add: word_unat_eq_iff)
qed

text \<open>A string's chunk: the last word is zero, so the bytes after the string are.\<close>

lemma headerless_string_ok:
  assumes "int (string_words len) \<le> MAX_AGEGROUP0_ALLOCATION_SIZE_IN_WORDS" and "room (string_words len + 1) s"
  obtains t v where "allocate_headerless_ascii_string__may_heapclean clean (int len) roots s = returning roots (t, v)"
    and "new_chunk s t v (MAKE_TAGWORD (string_words len) FOUR_BYTE_ALIGNED_NONPOINTER_DATA_BTAG) (string_words len)"
    and "unat (hap t) = unat (hap s) + 4 * (string_words len + 1)"
    and "\<And>i. len \<le> i \<Longrightarrow> i < 4 * string_words len \<Longrightarrow> get_byte (words t) (v + word_of_nat i) = 0"
proof -
  let ?n = "string_words len"
  let ?tag = "MAKE_TAGWORD ?n FOUR_BYTE_ALIGNED_NONPOINTER_DATA_BTAG"
  obtain u v where call: "allocate_nonempty_wordslots_vector__may_heapclean clean (int ?n) roots s = returning roots (u, v)"
    and u: "new_chunk s u v ?tag ?n" and hu: "unat (hap u) = unat (hap s) + 4 * (?n + 1)"
    by (rule wordslots_vector_ok [OF assms])
  let ?t = "zero_last_word v (int ?n) u"
  have last: "slot v (int ?n - 1) = v + 4 * word_of_nat (?n - 1)"
    using string_words_bounds(3) [of len] by (simp add: slot_def of_nat_diff)
  note top = new_chunkD(3) [OF u] and ptr = new_chunkD(2) [OF u] and lt = new_chunkD(5) [OF u]
  have ul: "unat (v + 4 * word_of_nat (?n - 1)) = unat v + 4 * (?n - 1)" by (rule unat_slot_nat) (use lt in simp)
  have "new_chunk s ?t v ?tag ?n"
    unfolding zero_last_word_def
    by (rule new_chunk_rewrite [OF u]) (use ul top string_words_bounds(3) [of len] in \<open>auto simp: last\<close>)
  moreover have "get_byte (words ?t) (v + word_of_nat i) = 0" if "len \<le> i" "i < 4 * ?n" for i
  proof (rule get_byte_zero_word)
    have "i div 4 = ?n - 1" using that string_words_bounds [of len] by linarith
    then show "(v + word_of_nat i) AND NOT 3 = v + 4 * word_of_nat (?n - 1)"
      using word_of_byte [OF ptr lt, of i] string_words_bounds(3) [of len] by simp
    show "words ?t (v + 4 * word_of_nat (?n - 1)) = 0" by (simp add: zero_last_word_def last)
  qed
  moreover have "allocate_headerless_ascii_string__may_heapclean clean (int len) roots s = returning roots (?t, v)"
    unfolding allocate_headerless_ascii_string__may_heapclean_def Let_def BYTES_TO_WORDS_string call by (simp add: returning_def)
  ultimately show thesis using that hu by (simp add: zero_last_word_def)
qed

section \<open>Strings in memory\<close>

text \<open>
  \<open>agree m m' lim\<close>: the two memories hold the same words below \<open>lim\<close>. What lies below the allocation
  pointer stays as it is while the buffer grows.
\<close>

definition agree :: "(val \<Rightarrow> val) \<Rightarrow> (val \<Rightarrow> val) \<Rightarrow> nat \<Rightarrow> bool" where
  "agree m m' lim \<longleftrightarrow> (\<forall>a. unat a < lim \<longrightarrow> m' a = m a)"

lemma agreeD: "agree m m' lim \<Longrightarrow> unat a < lim \<Longrightarrow> m' a = m a"
  by (simp add: agree_def)

lemma grows_agree: "grows s t \<Longrightarrow> agree (words s) (words t) (unat (hap s))"
  by (simp add: grows_def agree_def)

lemma unat_offset_le: "unat (p + word_of_nat n :: val) \<le> unat p + n"
proof -
  have "p + word_of_nat n = word_of_nat (unat p + n)" by simp
  then have "unat (p + word_of_nat n) = (unat p + n) mod 2 ^ 32"
    by (simp only: unsigned_of_nat take_bit_eq_mod) simp
  then show ?thesis by simp
qed

lemma chunk_agree:
  assumes "chunk m lim v tagword n" and "agree m m' lim" and "lim \<le> lim'"
  shows "chunk m' lim' v tagword n"
proof -
  have v: "4 \<le> unat v" "unat v + 4 * n \<le> lim" using assms(1) by (simp_all add: chunk_def)
  then have "unat (v - 4) < lim" by (simp add: unat_sub word_le_nat_alt)
  then show ?thesis using assms agreeD [OF assms(2), of "v - 4"] by (simp add: chunk_def)
qed

lemma chunk_word_agree:
  assumes "chunk m lim v tagword n" and "agree m m' lim" and "i < n"
  shows "m' (v + 4 * word_of_nat i) = m (v + 4 * word_of_nat i)"
proof (rule agreeD [OF assms(2)])
  have "unat (v + 4 * word_of_nat i) \<le> unat v + 4 * i" using unat_offset_le [of v "4 * i"] by simp
  then show "unat (v + 4 * word_of_nat i) < lim" using assms(1,3) by (simp add: chunk_def)
qed

lemma chunk_byte_agree:
  assumes "chunk m lim v tagword n" and "agree m m' lim" and "i < 4 * n"
  shows "get_byte m' (v + word_of_nat i) = get_byte m (v + word_of_nat i)"
proof -
  let ?a = "v + word_of_nat i :: val"
  have "unat (?a AND NOT 3) \<le> unat ?a" by (simp only: unat_and_not_3 diff_le_self)
  also have "\<dots> \<le> unat v + i" by (rule unat_offset_le)
  also have "\<dots> < lim" using assms(1,3) by (simp add: chunk_def)
  finally have "m' (?a AND NOT 3) = m (?a AND NOT 3)" by (rule agreeD [OF assms(2)])
  then show ?thesis unfolding get_byte_def by (simp only:)
qed

definition string_at :: "(val \<Rightarrow> val) \<Rightarrow> nat \<Rightarrow> val \<Rightarrow> unt8 list \<Rightarrow> bool" where
  "string_at m lim v bs \<longleftrightarrow>
     chunk m lim v STRING_TAGWORD 2 \<and> m (v + 4) = TAGGED_INT_FROM_C_INT (int (length bs)) \<and>
     (let n = string_words (length bs)
      in chunk m lim (m v) (MAKE_TAGWORD n FOUR_BYTE_ALIGNED_NONPOINTER_DATA_BTAG) n \<and>
         (\<forall>i < 4 * n. get_byte m (m v + word_of_nat i) = (if i < length bs then bs ! i else 0)))"

lemma string_at_agree:
  assumes "string_at m lim v bs" and "agree m m' lim" and "lim \<le> lim'"
  shows "string_at m' lim' v bs"
proof -
  let ?n = "string_words (length bs)" and ?tag = "MAKE_TAGWORD (string_words (length bs)) FOUR_BYTE_ALIGNED_NONPOINTER_DATA_BTAG"
  have h: "chunk m lim v STRING_TAGWORD 2" and len: "m (v + 4) = TAGGED_INT_FROM_C_INT (int (length bs))"
    and c: "chunk m lim (m v) ?tag ?n"
    and b: "\<forall>i < 4 * ?n. get_byte m (m v + word_of_nat i) = (if i < length bs then bs ! i else 0)"
    using assms(1) unfolding string_at_def Let_def by blast+
  have v0: "m' v = m v" and v4: "m' (v + 4) = m (v + 4)"
    using chunk_word_agree [OF h assms(2), of 0] chunk_word_agree [OF h assms(2), of 1] by simp_all
  show ?thesis
    unfolding string_at_def Let_def v0 v4
    using chunk_agree [OF h assms(2,3)] len chunk_agree [OF c assms(2,3)] b chunk_byte_agree [OF c assms(2)] by simp
qed

lemma string_header_ok:
  assumes t: "new_chunk s t p (MAKE_TAGWORD (string_words (length bs)) FOUR_BYTE_ALIGNED_NONPOINTER_DATA_BTAG) (string_words (length bs))"
    and bytes: "\<And>i. i < 4 * string_words (length bs) \<Longrightarrow>
      get_byte (words t) (p + word_of_nat i) = (if i < length bs then bs ! i else 0)"
    and room: "room 3 t" and h: "make_vector_header STRING_TAGWORD p (int (length bs)) t = (w, v)"
  shows "grows s w" and "string_at (words w) (unat (hap w)) v bs" and "unat (hap w) = unat (hap t) + 12" and "unat (hap w) mod 4 = 0"
proof -
  let ?n = "string_words (length bs)" and ?tag = "MAKE_TAGWORD (string_words (length bs)) FOUR_BYTE_ALIGNED_NONPOINTER_DATA_BTAG"
  have mk: "make_chunk STRING_TAGWORD [p, TAGGED_INT_FROM_C_INT (int (length bs))] t = (w, v)"
    using h by (simp add: make_vector_header_def)
  have room': "room (length [p, TAGGED_INT_FROM_C_INT (int (length bs))] + 1) t" using room by (simp add: numeral_3_eq_3)
  note ok = make_chunk_ok [OF mk room']
  have gt: "grows t w" by (rule new_chunkD(1) [OF ok(1)])
  show "grows s w" by (rule grows_trans [OF new_chunkD(1) [OF t] gt])
  show "unat (hap w) = unat (hap t) + 12" using ok(3) by simp
  then have le: "unat (hap t) \<le> unat (hap w)" by simp
  show "unat (hap w) mod 4 = 0" by (rule new_chunkD(7) [OF ok(1)])
  have c: "chunk (words t) (unat (hap t)) p ?tag ?n" by (rule new_chunkD(6) [OF t])
  have ag: "agree (words t) (words w) (unat (hap t))" by (rule grows_agree [OF gt])
  have w0: "words w v = p" using ok(2) [of 0] by simp
  have w4: "words w (v + 4) = TAGGED_INT_FROM_C_INT (int (length bs))" using ok(2) [of 1] by simp
  have "chunk (words w) (unat (hap w)) v STRING_TAGWORD 2" using new_chunkD(6) [OF ok(1)] by (simp add: numeral_2_eq_2)
  then show "string_at (words w) (unat (hap w)) v bs"
    unfolding string_at_def Let_def w0
    using w4 chunk_agree [OF c ag le] chunk_byte_agree [OF c ag] bytes by simp
qed

lemma make_ascii_string_via_headerless:
  "bs \<noteq> [] \<Longrightarrow> make_ascii_string_from_c_string__may_heapclean clean empty_string (Some bs) roots s =
     and_then (allocate_headerless_ascii_string__may_heapclean clean (int (length bs)) roots s) (\<lambda>(roots, s, result).
       returning roots (make_vector_header STRING_TAGWORD result (int (length bs)) (put_bytes result (bs @ [0]) s)))"
  by (simp add: make_ascii_string_from_c_string__may_heapclean_def allocate_headerless_ascii_string__may_heapclean_def
      and_then_def returning_def Let_def split: option.split sum.split prod.split)

lemma room_after:
  assumes "unat (hap t) = unat (hap s) + 4 * k" and "room (k + n) s"
  shows "room n t"
  using assms by (simp add: room_def algebra_simps)

lemma make_ascii_string_ok:
  assumes "bs \<noteq> []" and "length bs < 2048" and "room (string_words (length bs) + 4) s"
  obtains t v where "make_ascii_string_from_c_string__may_heapclean clean empty_string (Some bs) roots s = returning roots (t, v)"
    and "grows s t" and "string_at (words t) (unat (hap t)) v bs"
    and "unat (hap t) = unat (hap s) + 4 * (string_words (length bs) + 4)"
proof -
  let ?n = "string_words (length bs)"
  have small: "int ?n \<le> MAX_AGEGROUP0_ALLOCATION_SIZE_IN_WORDS"
    using assms(2) by (simp add: string_words_def MAX_AGEGROUP0_ALLOCATION_SIZE_IN_WORDS_def)
  have "room (?n + 1) s" using assms(3) by (simp add: room_def)
  from headerless_string_ok [OF small this] obtain u p
    where call: "allocate_headerless_ascii_string__may_heapclean clean (int (length bs)) roots s = returning roots (u, p)"
      and u: "new_chunk s u p (MAKE_TAGWORD ?n FOUR_BYTE_ALIGNED_NONPOINTER_DATA_BTAG) ?n"
      and hu: "unat (hap u) = unat (hap s) + 4 * (?n + 1)"
      and zero: "\<And>i. length bs \<le> i \<Longrightarrow> i < 4 * ?n \<Longrightarrow> get_byte (words u) (p + word_of_nat i) = 0"
    by blast
  let ?t = "put_bytes p (bs @ [0]) u"
  have len: "length (bs @ [0]) \<le> 4 * ?n" using string_words_bounds(1) [of "length bs"] by simp
  note put = put_bytes_ok [OF u len]
  have bytes: "get_byte (words ?t) (p + word_of_nat i) = (if i < length bs then bs ! i else 0)" if "i < 4 * ?n" for i
    using put(3) [of i] put(4) [of i] zero [of i] that by (cases "i < length (bs @ [0])") (auto simp: nth_append)
  obtain w v where h: "make_vector_header STRING_TAGWORD p (int (length bs)) ?t = (w, v)"
    by (cases "make_vector_header STRING_TAGWORD p (int (length bs)) ?t")
  have "room 3 ?t" by (rule room_after [where s = s and k = "?n + 1"]) (use hu put(2) assms(3) in \<open>simp_all add: room_def\<close>)
  note hdr = string_header_ok [OF put(1) bytes this h]
  have "make_ascii_string_from_c_string__may_heapclean clean empty_string (Some bs) roots s = returning roots (w, v)"
    using call h by (simp add: make_ascii_string_via_headerless [OF assms(1)] returning_def)
  moreover have "unat (hap w) = unat (hap s) + 4 * (?n + 4)" using hdr(3) hu put(2) by simp
  ultimately show thesis using that hdr(1,2) by blast
qed

text \<open>
  The static zero-length string of \<open>construct-runtime-package.c\<close>: a header of length 0 whose data
  start with a zero byte.
\<close>

definition zero_length_string_at :: "(val \<Rightarrow> val) \<Rightarrow> val \<Rightarrow> bool" where
  "zero_length_string_at m v \<longleftrightarrow>
     IS_POINTER v \<and> m (v - 4) = STRING_TAGWORD \<and> m (v + 4) = TAGGED_INT_FROM_C_INT 0 \<and> get_byte m (m v) = 0"

text \<open>
  C13. A Mythryl string made from a C string of at most 2047 characters, the empty one included,
  gives the C string back: its length field holds the length, and its data are the characters
  followed by a zero byte. The empty string (and the NULL pointer) gives the one static string of
  the runtime, and nothing is laid down for it; for any other the buffer must have room, which
  the code takes for granted. The heapcleaner is not called, and nothing that was on the heap
  before is changed.
\<close>

theorem c_string_comes_back:
  assumes "length bs < 2048" and "zero_length_string_at (words s) empty_string"
    and "bs \<noteq> [] \<Longrightarrow> room (string_words (length bs) + 4) s"
  shows "\<exists>t v p. make_ascii_string_from_c_string__may_heapclean clean empty_string (Some bs) roots s = Some (Inr (roots, t, v)) \<and>
    GET_VECTOR_LENGTH t v = Inr (int (length bs)) \<and> HEAP_STRING_AS_C_STRING t v = Inr p \<and> c_string_at t p bs \<and>
    (bs = [] \<longrightarrow> t = s \<and> v = empty_string \<and>
      make_ascii_string_from_c_string__may_heapclean clean empty_string None roots s = Some (Inr (roots, s, empty_string))) \<and>
    sibs t = sibs s \<and> (\<forall>a. unat a < unat (hap s) \<longrightarrow> words t a = words s a)"
proof (cases "bs = []")
  case True
  have "GET_VECTOR_LENGTH s empty_string = Inr 0"
    using assms(2) by (simp add: zero_length_string_at_def GET_VECTOR_LENGTH_def GET_TUPLE_SLOT_AS_VAL_def slot_def)
  moreover have "HEAP_STRING_AS_C_STRING s empty_string = Inr (words s empty_string)"
    using assms(2) by (simp add: zero_length_string_at_def HEAP_STRING_AS_C_STRING_def GET_VECTOR_DATACHUNK_def
        GET_TUPLE_SLOT_AS_VAL_def slot_def)
  moreover have "c_string_at s (words s empty_string) []"
    using assms(2) by (simp add: zero_length_string_at_def c_string_at_def)
  ultimately show ?thesis
    using True by (simp add: make_ascii_string_from_c_string__may_heapclean_def returning_def)
next
  case False
  obtain t v where call: "make_ascii_string_from_c_string__may_heapclean clean empty_string (Some bs) roots s = returning roots (t, v)"
    and g: "grows s t" and str: "string_at (words t) (unat (hap t)) v bs"
    using make_ascii_string_ok [OF False assms(1) assms(3) [OF False]] by metis
  have v: "IS_POINTER v" and l: "words t (v + 4) = TAGGED_INT_FROM_C_INT (int (length bs))"
    and b: "\<And>i. i < 4 * string_words (length bs) \<Longrightarrow> get_byte (words t) (words t v + word_of_nat i) = (if i < length bs then bs ! i else 0)"
    using str unfolding string_at_def chunk_def Let_def by blast+
  have "GET_VECTOR_LENGTH t v = Inr (int (length bs))"
    using v l assms(1) by (simp add: GET_VECTOR_LENGTH_def GET_TUPLE_SLOT_AS_VAL_def slot_def)
  moreover have "HEAP_STRING_AS_C_STRING t v = Inr (words t v)"
    using v by (simp add: HEAP_STRING_AS_C_STRING_def GET_VECTOR_DATACHUNK_def GET_TUPLE_SLOT_AS_VAL_def slot_def)
  moreover have "c_string_at t (words t v) bs"
    using b string_words_bounds(1) [of "length bs"] by (auto simp: c_string_at_def)
  ultimately show ?thesis using False call g unfolding grows_def returning_def by auto
qed

definition example_state :: alloc_state where
  "example_state = \<lparr>buffer = example_buffer, words = initialize_agegroup0_overrun_tripwire_buffer example_buffer (\<lambda>_. 0),
     sibs = (\<lambda>_. \<lparr>sib_tospace = \<lparr>first_free = 0, tospace_start = 0, tospace_bytesize = 0, tospace_limit = 0\<rparr>,
       swept_end = 0, requested_extra_free_bytes = 0\<rparr>),
     total_bytes_allocated = \<lparr>millions = 0, ones = 0\<rparr>\<rparr>"

lemma example_hap: "hap example_state = 0x10000000"
  by (simp add: example_state_def example_buffer_def hostthread_buffer_def Let_def)

text \<open>With the zero-length string at 0x1000.\<close>

definition string_state :: alloc_state where
  "string_state = example_state\<lparr>words := (words example_state)
     (0x0FFC := STRING_TAGWORD, 0x1000 := 0x1008, 0x1004 := TAGGED_INT_FROM_C_INT 0)\<rparr>"

lemma example_empty_string: "zero_length_string_at (words string_state) 0x1000"
proof -
  have "initialize_agegroup0_overrun_tripwire_buffer example_buffer (\<lambda>_. 0) 0x1008 = 0"
    unfolding initialize_agegroup0_overrun_tripwire_buffer_def
    by (subst foldl_upd_out) (auto simp: tripwire_addresses_def example_buffer_def hostthread_buffer_def Let_def
        HEAP_ALLOCATION_LIMIT_SIZE_def buffer_sizes upt_rec)
  then show ?thesis by (simp add: zero_length_string_at_def string_state_def example_state_def get_byte_def IS_POINTER_iff)
qed

theorem c_string_comes_back_witness:
  "(\<exists>t v p. make_ascii_string_from_c_string__may_heapclean (\<lambda>_ _ _. Inl Wild) 0x1000 (Some [104, 105]) [8] string_state =
      Some (Inr ([8], t, v)) \<and>
    GET_VECTOR_LENGTH t v = Inr 2 \<and> HEAP_STRING_AS_C_STRING t v = Inr p \<and> c_string_at t p [104, 105] \<and>
    sibs t = sibs string_state \<and> (\<forall>a. unat a < unat (hap string_state) \<longrightarrow> words t a = words string_state a)) \<and>
   make_ascii_string_from_c_string__may_heapclean (\<lambda>_ _ _. Inl Wild) 0x1000 (Some []) [8] string_state =
      Some (Inr ([8], string_state, 0x1000))"
proof
  have room: "room (string_words (length [104, 105 :: unt8]) + 4) string_state"
    by (simp add: room_def string_state_def example_hap string_words_def)
  show "\<exists>t v p. make_ascii_string_from_c_string__may_heapclean (\<lambda>_ _ _. Inl Wild) 0x1000 (Some [104, 105]) [8] string_state =
      Some (Inr ([8], t, v)) \<and>
    GET_VECTOR_LENGTH t v = Inr 2 \<and> HEAP_STRING_AS_C_STRING t v = Inr p \<and> c_string_at t p [104, 105] \<and>
    sibs t = sibs string_state \<and> (\<forall>a. unat a < unat (hap string_state) \<longrightarrow> words t a = words string_state a)"
    using c_string_comes_back [OF _ example_empty_string room, where clean = "\<lambda>_ _ _. Inl Wild" and roots = "[8]"] by simp
  show "make_ascii_string_from_c_string__may_heapclean (\<lambda>_ _ _. Inl Wild) 0x1000 (Some []) [8] string_state =
      Some (Inr ([8], string_state, 0x1000))"
    using c_string_comes_back [of "[]" string_state "0x1000" "\<lambda>_ _ _. Inl Wild" "[8]"] example_empty_string by auto
qed

section \<open>Byte vectors have no terminator\<close>

text \<open>
  C33. A byte vector of at most 2048 bytes whose length is a positive multiple of four, which is
  laid out in the agegroup 0 buffer, is not terminated: its data chunk has no byte to spare, and
  the byte after the last one is the low byte of the tagword of the vector's header. (The
  buffer has room; a longer vector's data go to agegroup 1, away from the header.)
\<close>

theorem byte_vector_is_not_terminated:
  assumes "0 < k" and "k \<le> 512" and "room (k + 4) s"
  shows "\<exists>t v p. allocate_nonempty_vector_of_one_byte_unts__may_heapclean clean (int (4 * k)) roots s = Some (Inr (roots, t, v)) \<and>
    GET_VECTOR_DATACHUNK t v = Inr p \<and> CHUNK_LENGTH t p = k \<and> get_byte (words t) (p + word_of_nat (4 * k)) = 0x8A"
proof -
  have "int k \<le> MAX_AGEGROUP0_ALLOCATION_SIZE_IN_WORDS" using assms(2) by (simp add: MAX_AGEGROUP0_ALLOCATION_SIZE_IN_WORDS_def)
  moreover have "room (k + 1) s" using assms(3) by (simp add: room_def)
  ultimately obtain u p where call: "allocate_nonempty_wordslots_vector__may_heapclean clean (int k) roots s = returning roots (u, p)"
    and u: "new_chunk s u p (MAKE_TAGWORD k FOUR_BYTE_ALIGNED_NONPOINTER_DATA_BTAG) k" and top: "unat (hap u) = unat (hap s) + 4 * (k + 1)"
    by (rule wordslots_vector_ok)
  let ?z = "zero_last_word p (int k) u"
  note pc = new_chunkD(3) [OF u] and lt = new_chunkD(5) [OF u] and ptr = new_chunkD(2) [OF u]
  have last: "slot p (int k - 1) = p + 4 * word_of_nat (k - 1)" using assms(1) by (simp add: slot_def of_nat_diff)
  have ul: "unat (p + 4 * word_of_nat (k - 1)) = unat p + 4 * (k - 1)" by (rule unat_slot_nat) (use lt in simp)
  have z: "new_chunk s ?z p (MAKE_TAGWORD k FOUR_BYTE_ALIGNED_NONPOINTER_DATA_BTAG) k"
    unfolding zero_last_word_def by (rule new_chunk_rewrite [OF u]) (use ul pc assms(1) in \<open>auto simp: last\<close>)
  have hz: "hap ?z = hap u" by (simp add: zero_last_word_def)
  let ?ws = "[p, TAGGED_INT_FROM_C_INT (int (4 * k))]"
  obtain t v where mk: "make_chunk UNT8_RW_VECTOR_TAGWORD ?ws ?z = (t, v)" by (cases "make_chunk UNT8_RW_VECTOR_TAGWORD ?ws ?z")
  have "room 3 ?z" by (rule room_after [where s = s and k = "k + 1"]) (use top hz assms(3) in \<open>simp_all add: room_def\<close>)
  then have "room (length ?ws + 1) ?z" by (simp add: numeral_3_eq_3)
  note ok = make_chunk_ok [OF mk this]
  have v: "v = hap ?z + 4" using mk by (simp add: make_chunk_def Let_def)
  have "words t (v - 4) = UNT8_RW_VECTOR_TAGWORD" using new_chunkD(6) [OF ok(1)] by (simp add: chunk_def)
  then have w: "words t (hap u) = 0x8A" using v hz
    by (simp add: UNT8_RW_VECTOR_TAGWORD_def MAKE_TAGWORD_def MAKE_BTAG_def shift_defs btag_defs ctag_defs TAGWORD_ATAG_def)
  have "unat (p + 4 * word_of_nat k) = unat p + 4 * k" by (rule unat_slot_nat) (rule lt)
  then have "p + 4 * word_of_nat k = hap u" unfolding word_unat_eq_iff pc .
  then have after: "p + word_of_nat (4 * k) = hap u" by simp
  have "hap u AND 3 = 0" using new_chunkD(7) [OF u] by (simp add: word_unat_eq_iff unat_and_3)
  moreover have "unat (hap u AND NOT 3) = unat (hap u)" using new_chunkD(7) [OF u] by (simp only: unat_and_not_3 diff_zero)
  then have "hap u AND NOT 3 = hap u" unfolding word_unat_eq_iff .
  ultimately have byte: "get_byte (words t) (p + word_of_nat (4 * k)) = 0x8A" unfolding after get_byte_def using w by simp
  have g: "grows ?z t" by (rule new_chunkD(1) [OF ok(1)])
  have c: "chunk (words t) (unat (hap t)) p (MAKE_TAGWORD k FOUR_BYTE_ALIGNED_NONPOINTER_DATA_BTAG) k"
    by (rule chunk_agree [OF new_chunkD(6) [OF z] grows_agree [OF g]]) (use g in \<open>simp add: grows_def\<close>)
  have "CHUNK_LENGTH t p = k"
    using c assms(2) by (simp add: CHUNK_LENGTH_def slot_def chunk_def btag_defs)
  moreover have "GET_VECTOR_DATACHUNK t v = Inr p"
    using ok(2) [of 0] new_chunkD(2) [OF ok(1)] by (simp add: GET_VECTOR_DATACHUNK_def GET_TUPLE_SLOT_AS_VAL_def slot_def)
  moreover have "BYTES_TO_WORDS (int (4 * k)) = int k" unfolding BYTES_TO_WORDS_of_nat by simp
  then have "allocate_nonempty_vector_of_one_byte_unts__may_heapclean clean (int (4 * k)) roots s = Some (Inr (roots, t, v))"
    using call mk unfolding allocate_nonempty_vector_of_one_byte_unts__may_heapclean_def Let_def
    by (simp add: returning_def make_vector_header_def)
  ultimately show ?thesis using byte by blast
qed

theorem byte_vector_is_not_terminated_witness:
  "\<exists>t v p. allocate_nonempty_vector_of_one_byte_unts__may_heapclean (\<lambda>_ _ _. Inl Wild) 8 [] example_state = Some (Inr ([], t, v)) \<and>
    GET_VECTOR_DATACHUNK t v = Inr p \<and> CHUNK_LENGTH t p = 2 \<and> get_byte (words t) (p + 8) = 0x8A"
  using byte_vector_is_not_terminated [where k = 2 and s = example_state and clean = "\<lambda>_ _ _. Inl Wild" and roots = "[]"]
  by (simp add: room_def example_hap)

end
