(* ===== verification/Literal_Machine.thy ===== *)
theory Literal_Machine
  imports Literals Heap_Value_Facts
begin

text \<open>
  What the literal interpreter promises: an abstract machine whose stack holds the literals
  themselves, the bytes of its instructions (as
  \<open>src/lib/compiler/back/top/main/make-nextcode-literals-bytecode-vector.pkg\<close> puts them), and
  when a word of the Mythryl heap stands for a literal.
\<close>

section \<open>The abstract machine\<close>

datatype literal = Lit_Int val | Lit_Four_Bytes val | Lit_Four_Byte_Vector "val list" | Lit_Eight_Bytes "64 word"
  | Lit_Eight_Byte_Vector "64 word list" | Lit_String "unt8 list" | Lit_Vector "literal list" | Lit_Record "literal list"

datatype instruction = Put_Int val | Put_Raw32 val | Put_Raw32s "val list" | Put_Raw64 "64 word" | Put_Raw64s "64 word list"
  | Put_String "unt8 list" | Put_Lit nat | Put_Vector nat | Put_Record nat

fun run_instruction :: "instruction \<Rightarrow> literal list \<Rightarrow> literal list option" where
  "run_instruction (Put_Int i) ls = Some (Lit_Int i # ls)"
| "run_instruction (Put_Raw32 w) ls = Some (Lit_Four_Bytes w # ls)"
| "run_instruction (Put_Raw32s ws) ls = Some (Lit_Four_Byte_Vector ws # ls)"
| "run_instruction (Put_Raw64 d) ls = Some (Lit_Eight_Bytes d # ls)"
| "run_instruction (Put_Raw64s ds) ls = Some (Lit_Eight_Byte_Vector ds # ls)"
| "run_instruction (Put_String bs) ls = Some (Lit_String bs # ls)"
| "run_instruction (Put_Lit n) ls = (if n < length ls then Some (ls ! n # ls) else None)"
| "run_instruction (Put_Vector n) ls = (if n \<le> length ls then Some (Lit_Vector (rev (take n ls)) # drop n ls) else None)"
| "run_instruction (Put_Record n) ls = (if n \<le> length ls then Some (Lit_Record (rev (take n ls)) # drop n ls) else None)"

fun run_instructions :: "instruction list \<Rightarrow> literal list \<Rightarrow> literal list option" where
  "run_instructions [] ls = Some ls"
| "run_instructions (i # is) ls = Option.bind (run_instruction i ls) (run_instructions is)"

section \<open>Bytes of instructions\<close>

definition be32 :: "val \<Rightarrow> unt8 list" where
  "be32 w = [ucast (drop_bit 24 w), ucast (drop_bit 16 w), ucast (drop_bit 8 w), ucast w]"

definition be64 :: "64 word \<Rightarrow> unt8 list" where
  "be64 w = [ucast (drop_bit 56 w), ucast (drop_bit 48 w), ucast (drop_bit 40 w), ucast (drop_bit 32 w),
     ucast (drop_bit 24 w), ucast (drop_bit 16 w), ucast (drop_bit 8 w), ucast w]"

fun instruction_bytes :: "instruction \<Rightarrow> unt8 list" where
  "instruction_bytes (Put_Int i) = MAKE_TAGGED_VAL # be32 i"
| "instruction_bytes (Put_Raw32 w) = MAKE_FOUR_BYTE_VAL # be32 w"
| "instruction_bytes (Put_Raw32s ws) = MAKE_FOUR_BYTE_VALS_VECTOR # be32 (word_of_nat (length ws)) @ concat (map be32 ws)"
| "instruction_bytes (Put_Raw64 d) = MAKE_EIGHT_BYTE_VAL # be64 d"
| "instruction_bytes (Put_Raw64s ds) = MAKE_EIGHT_BYTE_VALS_VECTOR # be32 (word_of_nat (length ds)) @ concat (map be64 ds)"
| "instruction_bytes (Put_String bs) = MAKE_ASCII_STRING # be32 (word_of_nat (length bs)) @ bs"
| "instruction_bytes (Put_Lit n) = GET_ITH_LITERAL # be32 (word_of_nat n)"
| "instruction_bytes (Put_Vector n) = MAKE_VECTOR # be32 (word_of_nat n)"
| "instruction_bytes (Put_Record n) = MAKE_RECORD # be32 (word_of_nat n)"

definition literal_bytecode :: "val \<Rightarrow> instruction list \<Rightarrow> unt8 list" where
  "literal_bytecode max_depth is =
     be32 V1_MAGIC @ be32 max_depth @ concat (map instruction_bytes is) @ [RETURN_LAST_LITERAL]"

text \<open>The words an instruction allocates, at most, and the instructions whose chunks are small.\<close>

fun instruction_words :: "instruction \<Rightarrow> nat" where
  "instruction_words (Put_Int i) = 3"
| "instruction_words (Put_Raw32 w) = 5"
| "instruction_words (Put_Raw32s ws) = length ws + 4"
| "instruction_words (Put_Raw64 d) = 7"
| "instruction_words (Put_Raw64s ds) = 2 * length ds + 5"
| "instruction_words (Put_String bs) = string_words (length bs) + 7"
| "instruction_words (Put_Lit n) = 3"
| "instruction_words (Put_Vector n) = n + 7"
| "instruction_words (Put_Record n) = n + 4"

fun small_instruction :: "instruction \<Rightarrow> bool" where
  "small_instruction (Put_Raw32s ws) = (length ws \<le> 512)"
| "small_instruction (Put_Raw64s ds) = (length ds \<le> 256)"
| "small_instruction (Put_String bs) = (length bs < 2048)"
| "small_instruction (Put_Lit n) = (n < 2 ^ 31)"
| "small_instruction (Put_Vector n) = (n \<le> 512)"
| "small_instruction (Put_Record n) = (n \<le> 512)"
| "small_instruction _ = True"

section \<open>What a word stands for\<close>

definition words_at :: "(val \<Rightarrow> val) \<Rightarrow> val \<Rightarrow> val list \<Rightarrow> bool" where
  "words_at m v ws \<longleftrightarrow> (\<forall>i < length ws. m (v + 4 * word_of_nat i) = ws ! i)"

text \<open>\<open>denotes st m lim v l\<close>: with everything below \<open>lim\<close>, the word \<open>v\<close> stands for \<open>l\<close>;
  \<open>slots_denote\<close> says it of the words from an address on.\<close>

fun denotes :: "static_values \<Rightarrow> (val \<Rightarrow> val) \<Rightarrow> nat \<Rightarrow> val \<Rightarrow> literal \<Rightarrow> bool"
  and slots_denote :: "static_values \<Rightarrow> (val \<Rightarrow> val) \<Rightarrow> nat \<Rightarrow> val \<Rightarrow> literal list \<Rightarrow> bool" where
  "denotes st m lim v (Lit_Int i) = (v = TAGGED_INT_FROM_C_INT (sint i))"
| "denotes st m lim v (Lit_Four_Bytes w) =
     (chunk m lim v (MAKE_TAGWORD 1 FOUR_BYTE_ALIGNED_NONPOINTER_DATA_BTAG) 1 \<and> words_at m v [w])"
| "denotes st m lim v (Lit_Four_Byte_Vector ws) =
     (chunk m lim v (MAKE_TAGWORD (length ws) FOUR_BYTE_ALIGNED_NONPOINTER_DATA_BTAG) (length ws) \<and> words_at m v ws)"
| "denotes st m lim v (Lit_Eight_Bytes d) = (chunk m lim v FLOAT64_TAGWORD 2 \<and> words_at m v (double_words d))"
| "denotes st m lim v (Lit_Eight_Byte_Vector ds) =
     (chunk m lim v (MAKE_TAGWORD (2 * length ds) EIGHT_BYTE_ALIGNED_NONPOINTER_DATA_BTAG) (2 * length ds) \<and>
      words_at m v (concat (map double_words ds)))"
| "denotes st m lim v (Lit_String bs) = (if bs = [] then v = ZERO_LENGTH_STRING__GLOBAL st else string_at m lim v bs)"
| "denotes st m lim v (Lit_Vector ls) =
     (if ls = [] then v = ZERO_LENGTH_VECTOR__GLOBAL st
      else chunk m lim v TYPEAGNOSTIC_RO_VECTOR_TAGWORD 2 \<and> m (v + 4) = TAGGED_INT_FROM_C_INT (int (length ls)) \<and>
           chunk m lim (m v) (MAKE_TAGWORD (length ls) PAIRS_AND_RECORDS_BTAG) (length ls) \<and> slots_denote st m lim (m v) ls)"
| "denotes st m lim v (Lit_Record ls) =
     (if ls = [] then v = HEAP_VOID
      else chunk m lim v (MAKE_TAGWORD (length ls) PAIRS_AND_RECORDS_BTAG) (length ls) \<and> slots_denote st m lim v ls)"
| "slots_denote st m lim p [] = True"
| "slots_denote st m lim p (l # ls) = (denotes st m lim (m p) l \<and> slots_denote st m lim (p + 4) ls)"

text \<open>The stack is a Mythryl list of values.\<close>

fun stack_denotes :: "static_values \<Rightarrow> (val \<Rightarrow> val) \<Rightarrow> nat \<Rightarrow> val \<Rightarrow> literal list \<Rightarrow> bool" where
  "stack_denotes st m lim v [] = (v = HEAP_NIL)"
| "stack_denotes st m lim v (l # ls) =
     (chunk m lim v PAIR_TAGWORD 2 \<and> denotes st m lim (m v) l \<and> stack_denotes st m lim (m (v + 4)) ls)"

section \<open>Values stay as they are\<close>

lemma words_at_agree:
  assumes "words_at m v ws" and "chunk m lim v tagword (length ws)" and "agree m m' lim"
  shows "words_at m' v ws"
  using assms chunk_word_agree [OF assms(2,3)] by (simp add: words_at_def)

lemma length_double_words_one [simp]: "length (double_words d) = 2"
  by (simp add: double_words_def)

lemma length_double_words: "length (concat (map double_words ds)) = 2 * length ds"
  by (induction ds) (simp_all add: double_words_def)

lemma denotes_agree:
  shows "denotes st m lim v l \<Longrightarrow> agree m m' lim \<Longrightarrow> lim \<le> lim' \<Longrightarrow> denotes st m' lim' v l"
    and "slots_denote st m lim p ls \<Longrightarrow> agree m m' lim \<Longrightarrow> lim \<le> lim' \<Longrightarrow> unat p + 4 * length ls \<le> lim \<Longrightarrow>
      slots_denote st m' lim' p ls"
proof (induction st m lim v l and st m lim p ls rule: denotes_slots_denote.induct)
  case (1 st m lim v i)
  then show ?case by simp
next
  case (2 st m lim v w)
  then show ?case
    using chunk_agree [of m lim v _ 1 m' lim'] words_at_agree [of m v "[w]" lim _ m'] by auto
next
  case (3 st m lim v ws)
  then show ?case
    using chunk_agree [of m lim v _ "length ws" m' lim'] words_at_agree [of m v ws lim _ m'] by auto
next
  case (4 st m lim v d)
  then show ?case
    using chunk_agree [of m lim v _ 2 m' lim'] words_at_agree [of m v "double_words d" lim _ m'] by auto
next
  case (5 st m lim v ds)
  then show ?case
    using chunk_agree [of m lim v _ "2 * length ds" m' lim'] words_at_agree [of m v "concat (map double_words ds)" lim _ m']
    by (auto simp: length_double_words)
next
  case (6 st m lim v bs)
  then show ?case using string_at_agree [of m lim v bs m' lim'] by auto
next
  case (7 st m lim v ls)
  show ?case
  proof (cases "ls = []")
    case True
    then show ?thesis using 7 by simp
  next
    case False
    let ?tag = "MAKE_TAGWORD (length ls) PAIRS_AND_RECORDS_BTAG"
    have h: "chunk m lim v TYPEAGNOSTIC_RO_VECTOR_TAGWORD 2" and n: "m (v + 4) = TAGGED_INT_FROM_C_INT (int (length ls))"
      and c: "chunk m lim (m v) ?tag (length ls)" and sl: "slots_denote st m lim (m v) ls"
      using 7(2) False by simp_all
    have v: "m' v = m v" "m' (v + 4) = m (v + 4)"
      using chunk_word_agree [OF h 7(3), of 0] chunk_word_agree [OF h 7(3), of 1] by simp_all
    have "slots_denote st m' lim' (m v) ls"
      using 7(1) [OF False sl 7(3,4)] c by (simp add: chunk_def)
    then show ?thesis
      using False v n chunk_agree [OF h 7(3,4)] chunk_agree [OF c 7(3,4)] by simp
  qed
next
  case (8 st m lim v ls)
  show ?case
  proof (cases "ls = []")
    case True
    then show ?thesis using 8 by simp
  next
    case False
    let ?tag = "MAKE_TAGWORD (length ls) PAIRS_AND_RECORDS_BTAG"
    have c: "chunk m lim v ?tag (length ls)" and sl: "slots_denote st m lim v ls" using 8(2) False by simp_all
    have "slots_denote st m' lim' v ls" using 8(1) [OF False sl 8(3,4)] c by (simp add: chunk_def)
    then show ?thesis using False chunk_agree [OF c 8(3,4)] by simp
  qed
next
  case (9 st m lim p)
  then show ?case by simp
next
  case (10 st m lim p l ls)
  have "m' p = m p" by (rule agreeD [OF 10(4)]) (use 10(6) in simp)
  moreover have "unat (p + 4) + 4 * length ls \<le> lim" using 10(6) unat_offset_le [of p 4] by simp
  ultimately show ?case using 10 by simp
qed

lemma stack_denotes_agree:
  "stack_denotes st m lim v ls \<Longrightarrow> agree m m' lim \<Longrightarrow> lim \<le> lim' \<Longrightarrow> stack_denotes st m' lim' v ls"
proof (induction ls arbitrary: v)
  case Nil
  then show ?case by simp
next
  case (Cons l ls)
  have c: "chunk m lim v PAIR_TAGWORD 2" using Cons.prems(1) by simp
  have "m' v = m v" "m' (v + 4) = m (v + 4)"
    using chunk_word_agree [OF c Cons.prems(2), of 0] chunk_word_agree [OF c Cons.prems(2), of 1] by simp_all
  then show ?case
    using Cons.IH Cons.prems chunk_agree [OF c Cons.prems(2,3)] denotes_agree(1) [of st m lim "m v" l m' lim'] by simp
qed

end
