(* ===== verification/Literal_Facts.thy ===== *)
theory Literal_Facts
  imports Literal_Machine
begin

text \<open>
  The literal interpreter simulates the abstract machine: one lemma per instruction, and the
  property that a bytecode program leaves the literal it describes on the Mythryl heap.
\<close>

section \<open>Reading the bytecode\<close>

definition code_at :: "unt8 list \<Rightarrow> nat \<Rightarrow> unt8 list \<Rightarrow> bool" where
  "code_at code pc bs \<longleftrightarrow> (\<exists>pre post. code = pre @ bs @ post \<and> pc = length pre)"

lemma code_at_append:
  assumes "code_at code pc (xs @ ys)"
  shows "code_at code pc xs" and "code_at code (pc + length xs) ys"
proof -
  obtain pre post where c: "code = pre @ (xs @ ys) @ post" and pc: "pc = length pre"
    using assms unfolding code_at_def by blast
  show "code_at code pc xs" unfolding code_at_def
    by (rule exI [of _ pre], rule exI [of _ "ys @ post"]) (simp add: c pc)
  show "code_at code (pc + length xs) ys" unfolding code_at_def
    by (rule exI [of _ "pre @ xs"], rule exI [of _ post]) (simp add: c pc)
qed

lemma code_at_Cons: "code_at code pc (x # ys) \<Longrightarrow> code_at code pc [x] \<and> code_at code (pc + 1) ys"
  using code_at_append [of code pc "[x]" ys] by simp

lemma fetch_code: "code_at code pc bs \<Longrightarrow> fetch code pc (length bs) = Inr bs"
  by (auto simp: code_at_def fetch_def)

lemma next_byte:
  fixes w :: "'a::len word"
  assumes "8 \<le> LENGTH('a)"
  shows "push_bit 8 (drop_bit (k + 8) w) OR ucast (ucast (drop_bit k w) :: unt8) = drop_bit k w"
proof (rule bit_word_eqI)
  fix n
  assume n: "n < LENGTH('a)"
  show "bit (push_bit 8 (drop_bit (k + 8) w) OR ucast (ucast (drop_bit k w) :: unt8)) n = bit (drop_bit k w) n"
  proof (cases "n < 8")
    case True
    then show ?thesis using n by (simp add: bit_simps)
  next
    case False
    then have "k + 8 + (n - 8) = k + n" by simp
    then show ?thesis using False n by (simp add: bit_simps)
  qed
qed

lemma big_endian_snoc: "big_endian (bs @ [b]) = push_bit 8 (big_endian bs) OR ucast b"
  by (simp add: big_endian_def)

lemma big_endian_byte:
  fixes w :: "'a::len word"
  assumes "8 \<le> LENGTH('a)" and "big_endian bs = drop_bit (k + 8) w"
  shows "big_endian (bs @ [ucast (drop_bit k w)]) = drop_bit k w"
  unfolding big_endian_snoc assms(2) by (rule next_byte [OF assms(1)])

lemma big_endian_be32: "big_endian (be32 w) = w"
proof -
  have "big_endian [] = drop_bit (24 + 8) w"
    by (simp add: big_endian_def)
  from big_endian_byte [OF _ this] have "big_endian [ucast (drop_bit 24 w)] = drop_bit (16 + 8) w" by simp
  from big_endian_byte [OF _ this] have "big_endian [ucast (drop_bit 24 w), ucast (drop_bit 16 w)] = drop_bit (8 + 8) w" by simp
  from big_endian_byte [OF _ this]
  have "big_endian [ucast (drop_bit 24 w), ucast (drop_bit 16 w), ucast (drop_bit 8 w)] = drop_bit (0 + 8) w" by simp
  from big_endian_byte [OF _ this] show ?thesis by (simp add: be32_def)
qed

lemma big_endian_be64: "big_endian (be64 w) = w"
proof -
  let ?b = "\<lambda>k. ucast (drop_bit k w) :: unt8"
  have "big_endian [] = drop_bit (56 + 8) w"
    by (simp add: big_endian_def)
  from big_endian_byte [OF _ this] have "big_endian [?b 56] = drop_bit (48 + 8) w" by simp
  from big_endian_byte [OF _ this] have "big_endian [?b 56, ?b 48] = drop_bit (40 + 8) w" by simp
  from big_endian_byte [OF _ this] have "big_endian [?b 56, ?b 48, ?b 40] = drop_bit (32 + 8) w" by simp
  from big_endian_byte [OF _ this] have "big_endian [?b 56, ?b 48, ?b 40, ?b 32] = drop_bit (24 + 8) w" by simp
  from big_endian_byte [OF _ this] have "big_endian [?b 56, ?b 48, ?b 40, ?b 32, ?b 24] = drop_bit (16 + 8) w" by simp
  from big_endian_byte [OF _ this] have "big_endian [?b 56, ?b 48, ?b 40, ?b 32, ?b 24, ?b 16] = drop_bit (8 + 8) w" by simp
  from big_endian_byte [OF _ this]
  have "big_endian [?b 56, ?b 48, ?b 40, ?b 32, ?b 24, ?b 16, ?b 8] = drop_bit (0 + 8) w" by simp
  from big_endian_byte [OF _ this] show ?thesis by (simp add: be64_def)
qed

lemma length_be [simp]: "length (be32 w) = 4" "length (be64 d) = 8"
  by (simp_all add: be32_def be64_def)

lemma length_concat_be32 [simp]: "length (concat (map be32 ws)) = 4 * length ws"
  by (induction ws) simp_all

lemma length_concat_be64 [simp]: "length (concat (map be64 ds)) = 8 * length ds"
  by (induction ds) simp_all

lemma GET32_code: "code_at code pc (be32 w) \<Longrightarrow> GET32 code pc = Inr w"
  using fetch_code [of code pc "be32 w"] by (simp add: GET32_def big_endian_be32)

lemma get_double_code: "code_at code pc (be64 d) \<Longrightarrow> get_double code pc = Inr d"
  using fetch_code [of code pc "be64 d"] by (simp add: get_double_def big_endian_be64)

lemma get_words_code: "code_at code pc (concat (map be32 ws)) \<Longrightarrow> get_words code pc (length ws) = Inr ws"
proof (induction ws arbitrary: pc)
  case Nil
  then show ?case by simp
next
  case (Cons w ws)
  have "code_at code pc (be32 w @ concat (map be32 ws))" using Cons.prems by simp
  note split = code_at_append [OF this]
  show ?case using GET32_code [OF split(1)] Cons.IH [of "pc + 4"] split(2) by simp
qed

lemma get_doubles_code: "code_at code pc (concat (map be64 ds)) \<Longrightarrow> get_doubles code pc (length ds) = Inr ds"
proof (induction ds arbitrary: pc)
  case Nil
  then show ?case by simp
next
  case (Cons d ds)
  have "code_at code pc (be64 d @ concat (map be64 ds))" using Cons.prems by simp
  note split = code_at_append [OF this]
  show ?case using get_double_code [OF split(1)] Cons.IH [of "pc + 8"] split(2) by simp
qed

lemma sint_of_nat:
  assumes "n < 2 ^ 31"
  shows "sint (word_of_nat n :: val) = int n"
proof -
  have u: "unat (word_of_nat n :: val) = n" by (rule unat_word_of_nat) (use assms in simp)
  have "sint (word_of_nat n :: val) = int (unat (word_of_nat n :: val))"
    by (rule sint_small) (simp only: u assms)
  then show ?thesis by (simp only: u)
qed

section \<open>Pushing a literal\<close>

text \<open>\<open>reaches st s k t stack ls\<close>: with at most \<open>k\<close> words allocated on the way from \<open>s\<close>, the stack in
  \<open>t\<close> holds the literals \<open>ls\<close>.\<close>

definition reaches :: "static_values \<Rightarrow> alloc_state \<Rightarrow> nat \<Rightarrow> alloc_state \<Rightarrow> val \<Rightarrow> literal list \<Rightarrow> bool" where
  "reaches st s k t stack ls \<longleftrightarrow> grows s t \<and> unat (hap t) mod 4 = 0 \<and> unat (hap t) \<le> unat (hap s) + 4 * k \<and>
     stack_denotes st (words t) (unat (hap t)) stack ls"

lemma reachesD:
  assumes "reaches st s k t stack ls"
  shows "grows s t" and "unat (hap t) mod 4 = 0" and "unat (hap t) \<le> unat (hap s) + 4 * k"
    and "stack_denotes st (words t) (unat (hap t)) stack ls"
  using assms unfolding reaches_def by blast+

lemma grows_le: "grows s t \<Longrightarrow> unat (hap s) \<le> unat (hap t)"
  by (simp add: grows_def)

lemma reaches_grow:
  assumes "reaches st s k t stack ls" and "grows t u" and "unat (hap u) mod 4 = 0" and "unat (hap u) \<le> unat (hap t) + 4 * j"
  shows "reaches st s (k + j) u stack ls"
proof -
  have "stack_denotes st (words u) (unat (hap u)) stack ls"
    using stack_denotes_agree [OF reachesD(4) [OF assms(1)] grows_agree [OF assms(2)] grows_le [OF assms(2)]] .
  moreover have "grows s u" by (rule grows_trans [OF reachesD(1) [OF assms(1)] assms(2)])
  ultimately show ?thesis using assms(3,4) reachesD(3) [OF assms(1)] by (simp add: reaches_def)
qed

lemma pushed_value_ok:
  assumes r: "reaches st s k u stack ls" and v: "denotes st (words u) (unat (hap u)) v l" and room: "room (k + 3) s"
  obtains t stack' where "push_and_go_on pc (stack # roots) (u, v) = Some (Inr (Go_On pc (stack' # roots) t))"
    and "reaches st s (k + 3) t stack' (l # ls)"
proof -
  obtain t stack' where mk: "make_two_slot_record v stack u = (t, stack')" by (cases "make_two_slot_record v stack u")
  then have mk': "make_chunk PAIR_TAGWORD [v, stack] u = (t, stack')" by (simp add: make_two_slot_record_def)
  have "room 3 u" using room reachesD(2,3) [OF r] by (simp add: room_def)
  then have room': "room (length [v, stack] + 1) u" by (simp add: numeral_3_eq_3)
  note ok = make_chunk_ok [OF mk' room']
  have g: "grows u t" by (rule new_chunkD(1) [OF ok(1)])
  have top: "unat (hap t) = unat (hap u) + 12" using ok(3) by simp
  have r': "reaches st s (k + 3) t stack ls"
    by (rule reaches_grow [OF r g new_chunkD(7) [OF ok(1)]]) (simp add: top)
  have "chunk (words t) (unat (hap t)) stack' PAIR_TAGWORD 2" using new_chunkD(6) [OF ok(1)] by (simp add: numeral_2_eq_2)
  moreover have "words t stack' = v" "words t (stack' + 4) = stack" using ok(2) [of 0] ok(2) [of 1] by simp_all
  moreover have "denotes st (words t) (unat (hap t)) v l" by (rule denotes_agree(1) [OF v grows_agree [OF g] grows_le [OF g]])
  ultimately have "reaches st s (k + 3) t stack' (l # ls)" using r' by (simp add: reaches_def)
  moreover have "push_and_go_on pc (stack # roots) (u, v) = Some (Inr (Go_On pc (stack' # roots) t))"
    by (simp add: push_and_go_on_def LIST_CONS_def mk)
  ultimately show thesis using that by blast
qed

text \<open>A chunk that was laid down last, and what it stands for, pushed.\<close>

lemma push_chunk_ok:
  assumes s: "unat (hap s) mod 4 = 0" "stack_denotes st (words s) (unat (hap s)) stack ls"
    and g: "grows s u" "unat (hap u) mod 4 = 0" "unat (hap u) \<le> unat (hap s) + 4 * k"
    and v: "denotes st (words u) (unat (hap u)) v l" and room: "room (k + 3) s"
  obtains t stack' where "push_and_go_on pc (stack # roots) (u, v) = Some (Inr (Go_On pc (stack' # roots) t))"
    and "reaches st s (k + 3) t stack' (l # ls)"
proof -
  have "reaches st s 0 s stack ls" using s by (simp add: reaches_def)
  then have "reaches st s (0 + k) u stack ls" by (rule reaches_grow [OF _ g])
  then have "reaches st s k u stack ls" by simp
  then show thesis by (rule pushed_value_ok [OF _ v room]) (rule that)
qed

lemma words_atI: "(\<And>i. i < length ws \<Longrightarrow> m (v + 4 * word_of_nat i) = ws ! i) \<Longrightarrow> words_at m v ws"
  by (simp add: words_at_def)

lemma write_words_ok:
  assumes "new_chunk s t v tagword (length ws)"
  shows "new_chunk s (t\<lparr>words := write_words v ws (words t)\<rparr>) v tagword (length ws)"
    and "words_at (write_words v ws (words t)) v ws"
proof -
  have fits: "unat v + 4 * length ws \<le> 2 ^ 32" using new_chunkD(5) [OF assms] by simp
  show "new_chunk s (t\<lparr>words := write_words v ws (words t)\<rparr>) v tagword (length ws)"
    by (rule new_chunk_rewrite [OF assms], rule write_words_out [OF _ fits]) (use new_chunkD(3) [OF assms] in auto)
  show "words_at (write_words v ws (words t)) v ws"
    by (rule words_atI, rule write_words_in [OF _ fits])
qed

section \<open>The instructions\<close>

text \<open>What every instruction starts from.\<close>

definition ready :: "static_values \<Rightarrow> alloc_state \<Rightarrow> val \<Rightarrow> literal list \<Rightarrow> bool" where
  "ready st s stack ls \<longleftrightarrow> unat (hap s) mod 4 = 0 \<and> stack_denotes st (words s) (unat (hap s)) stack ls"

definition steps_to :: "static_values \<Rightarrow> literal_outcome result option \<Rightarrow> nat \<Rightarrow> val list \<Rightarrow> alloc_state \<Rightarrow> nat \<Rightarrow> literal list \<Rightarrow> bool" where
  "steps_to st outcome pc roots s k ls \<longleftrightarrow>
     (\<exists>t stack. outcome = Some (Inr (Go_On pc (stack # roots) t)) \<and> reaches st s k t stack ls)"

lemma push_steps_to:
  assumes "ready st s stack ls" and "grows s u" and "unat (hap u) mod 4 = 0" and "unat (hap u) \<le> unat (hap s) + 4 * k"
    and "denotes st (words u) (unat (hap u)) v l" and "room (k + 3) s"
  shows "steps_to st (push_and_go_on pc (stack # roots) (u, v)) pc roots s (k + 3) (l # ls)"
proof -
  have "unat (hap s) mod 4 = 0" "stack_denotes st (words s) (unat (hap s)) stack ls" using assms(1) by (simp_all add: ready_def)
  from push_chunk_ok [OF this assms(2-6)] obtain t stack'
    where "push_and_go_on pc (stack # roots) (u, v) = Some (Inr (Go_On pc (stack' # roots) t))" "reaches st s (k + 3) t stack' (l # ls)"
    by metis
  then show ?thesis unfolding steps_to_def by blast
qed

lemma put_int_ok:
  assumes "ready st s stack ls" and "code_at code pc (be32 i)" and "room 3 s"
  shows "steps_to st (make_tagged_val code pc (stack # roots) s) (pc + 4) roots s 3 (Lit_Int i # ls)"
  using push_steps_to [OF assms(1) grows_refl, of 0 "TAGGED_INT_FROM_C_INT (sint i)" "Lit_Int i" "pc + 4" roots] assms
  by (simp add: make_tagged_val_def GET32_code ready_def)

lemma put_raw32_ok:
  assumes "ready st s stack ls" and "code_at code pc (be32 w)" and "room 5 s"
  shows "steps_to st (make_four_byte_val code pc (stack # roots) s) (pc + 4) roots s 5 (Lit_Four_Bytes w # ls)"
proof -
  obtain u v where mk: "make_chunk (MAKE_TAGWORD 1 FOUR_BYTE_ALIGNED_NONPOINTER_DATA_BTAG) [w] s = (u, v)"
    by (cases "make_chunk (MAKE_TAGWORD 1 FOUR_BYTE_ALIGNED_NONPOINTER_DATA_BTAG) [w] s")
  have "room (length [w] + 1) s" using assms(3) by (simp add: room_def)
  note ok = make_chunk_ok [OF mk this]
  have "words_at (words u) v [w]" by (rule words_atI) (use ok(2) in simp)
  then have "denotes st (words u) (unat (hap u)) v (Lit_Four_Bytes w)" using new_chunkD(6) [OF ok(1)] by simp
  from push_steps_to [OF assms(1) new_chunkD(1,7) [OF ok(1)] _ this, of 2] assms(3) ok(3)
  have "steps_to st (push_and_go_on (pc + 4) (stack # roots) (u, v)) (pc + 4) roots s 5 (Lit_Four_Bytes w # ls)" by simp
  then show ?thesis using assms(2) mk by (simp add: make_four_byte_val_def GET32_code make_one_word_int_def)
qed

lemma put_raw32s_ok:
  assumes "ready st s stack ls" and code: "code_at code pc (be32 (word_of_nat (length ws)) @ concat (map be32 ws))"
    and "room (length ws + 4) s" and small: "length ws \<le> 512"
  shows "steps_to st (make_four_byte_vals_vector clean code pc (stack # roots) s) (pc + 4 + 4 * length ws) roots s
    (length ws + 4) (Lit_Four_Byte_Vector ws # ls)"
proof -
  let ?n = "length ws"
  have "int ?n \<le> MAX_AGEGROUP0_ALLOCATION_SIZE_IN_WORDS" using small by (simp add: MAX_AGEGROUP0_ALLOCATION_SIZE_IN_WORDS_def)
  moreover have "room (?n + 1) s" using assms(3) by (simp add: room_def)
  ultimately obtain t v where call: "allocate_nonempty_wordslots_vector__may_heapclean clean (int ?n) (stack # roots) s = returning (stack # roots) (t, v)"
    and t: "new_chunk s t v (MAKE_TAGWORD ?n FOUR_BYTE_ALIGNED_NONPOINTER_DATA_BTAG) ?n"
    and top: "unat (hap t) = unat (hap s) + 4 * (?n + 1)"
    by (rule wordslots_vector_ok)
  let ?u = "t\<lparr>words := write_words v ws (words t)\<rparr>"
  note ok = write_words_ok [OF t]
  have "denotes st (words ?u) (unat (hap ?u)) v (Lit_Four_Byte_Vector ws)" using ok(2) new_chunkD(6) [OF ok(1)] by simp
  from push_steps_to [OF assms(1) new_chunkD(1,7) [OF ok(1)] _ this, of "?n + 1"] assms(3) top
  have step: "steps_to st (push_and_go_on (pc + 4 + 4 * ?n) (stack # roots) (?u, v)) (pc + 4 + 4 * ?n) roots s (?n + 4)
      (Lit_Four_Byte_Vector ws # ls)" by (simp add: add.commute)
  note split = code_at_append [OF code]
  have "GET32 code pc = Inr (word_of_nat ?n)" "get_words code (pc + 4) ?n = Inr ws"
    using GET32_code [OF split(1)] get_words_code [of code "pc + 4" ws] split(2) by simp_all
  then show ?thesis
    using step call sint_of_nat [of ?n] small by (simp add: make_four_byte_vals_vector_def Let_def returning_def)
qed

lemma put_raw64_ok:
  assumes "ready st s stack ls" and "code_at code pc (be64 d)" and "room 7 s"
  shows "steps_to st (make_eight_byte_val code pc (stack # roots) s) (pc + 8) roots s 7 (Lit_Eight_Bytes d # ls)"
proof -
  let ?a = "align_for_float64 s"
  have "room (3 + 1) s" using assms(3) by (simp add: room_def)
  note al = align_for_float64_ok [OF this]
  obtain u v where mk: "make_chunk FLOAT64_TAGWORD (double_words d) ?a = (u, v)" by (cases "make_chunk FLOAT64_TAGWORD (double_words d) ?a")
  have "room (length (double_words d) + 1) ?a" using al(2) by simp
  note ok = make_chunk_ok [OF mk this]
  note nc = new_chunk_after_growth [OF al(1) ok(1)]
  have "words_at (words u) v (double_words d)" by (rule words_atI) (rule ok(2))
  then have "denotes st (words u) (unat (hap u)) v (Lit_Eight_Bytes d)" using new_chunkD(6) [OF nc] by simp
  from push_steps_to [OF assms(1) new_chunkD(1,7) [OF nc] _ this, of 4] assms(3) ok(3) al(3)
  have "steps_to st (push_and_go_on (pc + 8) (stack # roots) (u, v)) (pc + 8) roots s 7 (Lit_Eight_Bytes d # ls)" by simp
  then show ?thesis using assms(2) mk by (simp add: make_eight_byte_val_def get_double_code make_float64_def)
qed

lemma put_raw64s_ok:
  assumes "ready st s stack ls" and code: "code_at code pc (be32 (word_of_nat (length ds)) @ concat (map be64 ds))"
    and "room (2 * length ds + 5) s" and small: "length ds \<le> 256"
  shows "steps_to st (make_eight_byte_vals_vector clean code pc (stack # roots) s) (pc + 4 + 8 * length ds) roots s
    (2 * length ds + 5) (Lit_Eight_Byte_Vector ds # ls)"
proof -
  let ?n = "2 * length ds" and ?a = "align_for_float64 s"
  let ?tag = "MAKE_TAGWORD (2 * length ds) EIGHT_BYTE_ALIGNED_NONPOINTER_DATA_BTAG"
  have "room ((?n + 1) + 1) s" using assms(3) by (simp add: room_def)
  note al = align_for_float64_ok [OF this]
  obtain t v where small_call: "allocate_small ?tag (int ?n) ?a = (t, v)" by (cases "allocate_small ?tag (int ?n) ?a")
  note sm = allocate_small_ok [OF small_call al(2)]
  have "length (concat (map double_words ds)) = ?n" by (rule length_double_words)
  then have t: "new_chunk s t v ?tag (length (concat (map double_words ds)))"
    using new_chunk_after_growth [OF al(1) sm(1)] by simp
  let ?u = "t\<lparr>words := write_words v (concat (map double_words ds)) (words t)\<rparr>"
  note ok = write_words_ok [OF t]
  have "denotes st (words ?u) (unat (hap ?u)) v (Lit_Eight_Byte_Vector ds)"
    using ok(2) new_chunkD(6) [OF ok(1)] by (simp add: length_double_words)
  from push_steps_to [OF assms(1) new_chunkD(1,7) [OF ok(1)] _ this, of "?n + 2"] assms(3) sm(2) al(3)
  have step: "steps_to st (push_and_go_on (pc + 4 + 8 * length ds) (stack # roots) (?u, v)) (pc + 4 + 8 * length ds) roots s (?n + 5)
      (Lit_Eight_Byte_Vector ds # ls)" by (simp add: add.commute)
  have tag: "int_tagword (int ?n) EIGHT_BYTE_ALIGNED_NONPOINTER_DATA_BTAG = ?tag" by (rule int_tagword_of_nat) (use small in simp)
  have "DOUBLES_TO_WORDS (int (length ds)) = int ?n" by (simp add: DOUBLES_TO_WORDS_def)
  then have call: "allocate_biwordslots_vector__may_heapclean clean (int (length ds)) (stack # roots) s = returning (stack # roots) (t, v)"
    using small small_call unfolding allocate_biwordslots_vector__may_heapclean_def Let_def
    by (simp add: tag MAX_AGEGROUP0_ALLOCATION_SIZE_IN_WORDS_def del: of_nat_mult)
  note split = code_at_append [OF code]
  have "GET32 code pc = Inr (word_of_nat (length ds))" "get_doubles code (pc + 4) (length ds) = Inr ds"
    using GET32_code [OF split(1)] get_doubles_code [of code "pc + 4" ds] split(2) by simp_all
  then show ?thesis
    using step call sint_of_nat [of "length ds"] small by (simp add: make_eight_byte_vals_vector_def Let_def returning_def)
qed

lemma put_string_ok:
  assumes "ready st s stack ls" and code: "code_at code pc (be32 (word_of_nat (length bs)) @ bs)"
    and "room (string_words (length bs) + 7) s" and small: "length bs < 2048"
  shows "steps_to st (make_ascii_string clean st code pc (stack # roots) s) (pc + 4 + length bs) roots s
    (string_words (length bs) + 7) (Lit_String bs # ls)"
proof -
  let ?n = "string_words (length bs)"
  note split = code_at_append [OF code]
  have len: "GET32 code pc = Inr (word_of_nat (length bs))" and bytes: "fetch code (pc + 4) (length bs) = Inr bs"
    using GET32_code [OF split(1)] fetch_code [OF split(2)] by simp_all
  have si: "sint (word_of_nat (length bs) :: val) = int (length bs)" by (rule sint_of_nat) (use small in simp)
  show ?thesis
  proof (cases "bs = []")
    case True
    have "room (?n + 4 + 3) s" using assms(3) by (simp add: add.assoc)
    from push_steps_to [OF assms(1) grows_refl _ _ _ this, of "ZERO_LENGTH_STRING__GLOBAL st" "Lit_String bs" "pc + 4" roots] assms(1)
    show ?thesis using True len si by (simp add: make_ascii_string_def Let_def ready_def add.assoc)
  next
    case False
    have "int ?n \<le> MAX_AGEGROUP0_ALLOCATION_SIZE_IN_WORDS" using small by (simp add: string_words_def MAX_AGEGROUP0_ALLOCATION_SIZE_IN_WORDS_def)
    moreover have "room (?n + 1) s" using assms(3) by (simp add: room_def)
    ultimately obtain u p where call: "allocate_headerless_ascii_string__may_heapclean clean (int (length bs)) (stack # roots) s = returning (stack # roots) (u, p)"
      and u: "new_chunk s u p (MAKE_TAGWORD ?n FOUR_BYTE_ALIGNED_NONPOINTER_DATA_BTAG) ?n"
      and hu: "unat (hap u) = unat (hap s) + 4 * (?n + 1)"
      and zero: "\<And>i. length bs \<le> i \<Longrightarrow> i < 4 * ?n \<Longrightarrow> get_byte (words u) (p + word_of_nat i) = 0"
      using headerless_string_ok by blast
    let ?t = "put_bytes p bs u"
    have "length bs \<le> 4 * ?n" using string_words_bounds(1) [of "length bs"] by simp
    note put = put_bytes_ok [OF u this]
    have byte: "get_byte (words ?t) (p + word_of_nat i) = (if i < length bs then bs ! i else 0)" if "i < 4 * ?n" for i
      using put(3) [of i] put(4) [of i] zero [of i] that by (cases "i < length bs") simp_all
    obtain w v where h: "make_vector_header STRING_TAGWORD p (int (length bs)) ?t = (w, v)"
      by (cases "make_vector_header STRING_TAGWORD p (int (length bs)) ?t")
    have "room 3 ?t" by (rule room_after [where s = s and k = "?n + 1"]) (use hu put(2) assms(3) in \<open>simp_all add: room_def\<close>)
    note hdr = string_header_ok [OF put(1) byte this h]
    have "denotes st (words w) (unat (hap w)) v (Lit_String bs)" using hdr(2) False by simp
    moreover have "unat (hap w) \<le> unat (hap s) + 4 * (?n + 4)" using hdr(3) hu put(2) by simp
    moreover have "room (?n + 4 + 3) s" using assms(3) by (simp add: add.assoc)
    ultimately have "steps_to st (push_and_go_on (pc + 4 + length bs) (stack # roots) (w, v)) (pc + 4 + length bs) roots s (?n + 4 + 3)
        (Lit_String bs # ls)" using push_steps_to [OF assms(1) hdr(1,4)] by blast
    then show ?thesis using False call len si bytes h by (simp add: make_ascii_string_def Let_def returning_def add.assoc)
  qed
qed

lemma list_tails_ok:
  assumes "stack_denotes st (words s) lim stack ls" and "n \<le> length ls"
  shows "\<exists>p. list_tails s n stack = Inr p \<and> stack_denotes st (words s) lim p (drop n ls)"
  using assms
proof (induction n arbitrary: stack ls)
  case 0
  then show ?case by simp
next
  case (Suc n)
  then obtain l ls' where ls: "ls = l # ls'" by (cases ls) auto
  have "IS_POINTER stack" using Suc.prems(1) by (simp add: ls chunk_def)
  then have "LIST_TAIL s stack = Inr (words s (stack + 4))" by (simp add: LIST_TAIL_def GET_TUPLE_SLOT_AS_VAL_def slot_def)
  then show ?case using Suc.IH [of "words s (stack + 4)" ls'] Suc.prems by (simp add: ls)
qed

lemma put_lit_ok:
  assumes "ready st s stack ls" and "code_at code pc (be32 (word_of_nat n))" and "room 3 s" and "n < length ls" and "n < 2 ^ 31"
  shows "steps_to st (get_ith_literal code pc (stack # roots) s) (pc + 4) roots s 3 (ls ! n # ls)"
proof -
  obtain p where p: "list_tails s n stack = Inr p" and d: "stack_denotes st (words s) (unat (hap s)) p (drop n ls)"
    using list_tails_ok [of st s "unat (hap s)" stack ls n] assms(1,4) by (auto simp: ready_def)
  have "drop n ls = ls ! n # drop (Suc n) ls" using assms(4) by (simp add: Cons_nth_drop_Suc)
  then have ptr: "IS_POINTER p" and v: "denotes st (words s) (unat (hap s)) (words s p) (ls ! n)" using d by (simp_all add: chunk_def)
  have "LIST_HEAD s p = Inr (words s p)" using ptr by (simp add: LIST_HEAD_def GET_TUPLE_SLOT_AS_VAL_def slot_def)
  moreover have "steps_to st (push_and_go_on (pc + 4) (stack # roots) (s, words s p)) (pc + 4) roots s (0 + 3) (ls ! n # ls)"
    by (rule push_steps_to [OF assms(1) grows_refl _ _ v]) (use assms(1,3) in \<open>simp_all add: ready_def\<close>)
  ultimately show ?thesis using p assms(2,5) by (simp add: get_ith_literal_def GET32_code sint_of_nat)
qed

section \<open>Vectors and records\<close>

lemma agree_refl [simp]: "agree m m lim"
  by (simp add: agree_def)

lemma agree_trans: "agree m m' lim \<Longrightarrow> agree m' m'' lim \<Longrightarrow> agree m m'' lim"
  by (simp add: agree_def)

lemma pop_into_ok:
  assumes "stack_denotes st (words s) lim stack ls" and "lim \<le> unat vec" and "unat vec + 4 * n < 2 ^ 32" and "n \<le> length ls"
  shows "\<exists>stack' m. pop_into vec n stack s = Inr (stack', s\<lparr>words := m\<rparr>) \<and>
    (\<forall>a. unat a < unat vec \<or> unat vec + 4 * n \<le> unat a \<longrightarrow> m a = words s a) \<and>
    stack_denotes st m lim stack' (drop n ls) \<and>
    (\<forall>i < n. denotes st m lim (m (vec + 4 * word_of_nat i)) (ls ! (n - 1 - i)))"
  using assms(1,3,4)
proof (induction n arbitrary: stack ls s)
  case 0
  have "s\<lparr>words := words s\<rparr> = s" by simp
  then show ?case using 0 by (intro exI [of _ stack] exI [of _ "words s"]) simp
next
  case (Suc n)
  obtain l ls' where ls: "ls = l # ls'" using Suc.prems(3) by (cases ls) auto
  have c: "chunk (words s) lim stack PAIR_TAGWORD 2" and dl: "denotes st (words s) lim (words s stack) l"
    and dls: "stack_denotes st (words s) lim (words s (stack + 4)) ls'" using Suc.prems(1) by (simp_all add: ls)
  have ptr: "IS_POINTER stack" using c by (simp add: chunk_def)
  let ?v = "words s stack" and ?a = "vec + 4 * word_of_nat n"
  let ?t = "s\<lparr>words := (words s)(?a := ?v)\<rparr>"
  have ua: "unat ?a = unat vec + 4 * n" by (rule unat_slot_nat) (use Suc.prems(2) in simp)
  have ag: "agree (words s) (words ?t) lim" using ua assms(2) by (auto simp: agree_def)
  have tail: "words ?t (stack + 4) = words s (stack + 4)" using chunk_word_agree [OF c ag, of 1] by simp
  have "stack_denotes st (words ?t) lim (words s (stack + 4)) ls'" by (rule stack_denotes_agree [OF dls ag order.refl])
  from Suc.IH [OF this] Suc.prems(2,3) obtain stack' m
    where pop: "pop_into vec n (words s (stack + 4)) ?t = Inr (stack', ?t\<lparr>words := m\<rparr>)"
      and out: "\<And>a. unat a < unat vec \<or> unat vec + 4 * n \<le> unat a \<Longrightarrow> m a = words ?t a"
      and rest: "stack_denotes st m lim stack' (drop n ls')"
      and elems: "\<And>i. i < n \<Longrightarrow> denotes st m lim (m (vec + 4 * word_of_nat i)) (ls' ! (n - 1 - i))"
    by (auto simp: ls)
  have "agree (words ?t) m lim" unfolding agree_def using out assms(2) by auto
  then have agm: "agree (words s) m lim" by (rule agree_trans [OF ag])
  have ma: "m ?a = ?v" using out [of ?a] ua by simp
  have "denotes st m lim (m (vec + 4 * word_of_nat i)) (ls ! (Suc n - 1 - i))" if "i < Suc n" for i
  proof (cases "i = n")
    case True
    then show ?thesis using ma denotes_agree(1) [OF dl agm order.refl] by (simp add: ls)
  next
    case False
    then have "Suc n - 1 - i = Suc (n - 1 - i)" using that by simp
    then show ?thesis using elems [of i] False that by (simp add: ls)
  qed
  moreover have "m a = words s a" if "unat a < unat vec \<or> unat vec + 4 * Suc n \<le> unat a" for a
    using out [of a] that ua by (auto simp: fun_upd_def)
  moreover have "pop_into vec (Suc n) stack s = Inr (stack', s\<lparr>words := m\<rparr>)"
    using pop ptr tail by (simp add: LIST_HEAD_def LIST_TAIL_def GET_TUPLE_SLOT_AS_VAL_def slot_def)
  ultimately show ?case using rest by (intro exI [of _ stack'] exI [of _ m]) (simp add: ls)
qed

lemma slots_denoteI:
  "(\<And>i. i < length ls \<Longrightarrow> denotes st m lim (m (p + 4 * word_of_nat i)) (ls ! i)) \<Longrightarrow> slots_denote st m lim p ls"
proof (induction ls arbitrary: p)
  case Nil
  then show ?case by simp
next
  case (Cons l ls)
  have "denotes st m lim (m (p + 4 + 4 * word_of_nat i)) (ls ! i)" if "i < length ls" for i
    using Cons.prems [of "Suc i"] that by (simp add: algebra_simps)
  then have "slots_denote st m lim (p + 4) ls" by (rule Cons.IH)
  then show ?case using Cons.prems [of 0] by simp
qed

lemma chunk_from_stack_ok:
  assumes "ready st s stack ls" and "0 < n" and "n \<le> 512" and "n \<le> length ls" and "room (n + 1) s"
  obtains stack' u v where "chunk_from_stack clean (int n) btag (stack # roots) s = returning (stack' # roots) (u, v)"
    and "new_chunk s u v (MAKE_TAGWORD n btag) n" and "unat (hap u) = unat (hap s) + 4 * (n + 1)"
    and "ready st u stack' (drop n ls)" and "slots_denote st (words u) (unat (hap u)) v (rev (take n ls))"
proof -
  let ?tag = "MAKE_TAGWORD n btag"
  obtain t v where al: "allocate_small ?tag (int n) s = (t, v)" by (cases "allocate_small ?tag (int n) s")
  note ok = allocate_small_ok [OF al assms(5)]
  note top = new_chunkD(3) [OF ok(1)]
  have g: "grows s t" by (rule new_chunkD(1) [OF ok(1)])
  let ?lim = "unat (hap s)"
  have sd: "stack_denotes st (words t) ?lim stack ls"
    using stack_denotes_agree [OF _ grows_agree [OF g] order.refl] assms(1) by (simp add: ready_def)
  have lim: "?lim \<le> unat v" using new_chunkD(4) [OF ok(1)] by simp
  from pop_into_ok [OF sd lim new_chunkD(5) [OF ok(1)] assms(4)] obtain stack' m
    where pop: "pop_into v n stack t = Inr (stack', t\<lparr>words := m\<rparr>)"
      and out: "\<And>a. unat a < unat v \<or> unat v + 4 * n \<le> unat a \<Longrightarrow> m a = words t a"
      and rest: "stack_denotes st m ?lim stack' (drop n ls)"
      and elems: "\<And>i. i < n \<Longrightarrow> denotes st m ?lim (m (v + 4 * word_of_nat i)) (ls ! (n - 1 - i))"
    by blast
  let ?u = "t\<lparr>words := m\<rparr>"
  have u: "new_chunk s ?u v ?tag n" by (rule new_chunk_rewrite [OF ok(1)]) (use out top in auto)
  have le: "?lim \<le> unat (hap ?u)" by (rule grows_le [OF new_chunkD(1) [OF u]])
  have "ready st ?u stack' (drop n ls)"
    using stack_denotes_agree [OF rest agree_refl le] new_chunkD(7) [OF u] by (simp add: ready_def)
  moreover have "slots_denote st (words ?u) (unat (hap ?u)) v (rev (take n ls))"
  proof (rule slots_denoteI)
    fix i
    assume "i < length (rev (take n ls))"
    then have i: "i < n" by simp
    have "rev (take n ls) ! i = ls ! (n - 1 - i)" using i assms(4) by (simp add: rev_nth)
    then show "denotes st (words ?u) (unat (hap ?u)) (words ?u (v + 4 * word_of_nat i)) (rev (take n ls) ! i)"
      using denotes_agree(1) [OF elems [OF i] agree_refl le] by simp
  qed
  moreover have "chunk_from_stack clean (int n) btag (stack # roots) s = returning (stack' # roots) (?u, v)"
    using al pop assms(3) by (simp add: chunk_from_stack_def allocate_headerless_ro_pointers_chunk__may_heapclean_def Let_def
        MAX_AGEGROUP0_ALLOCATION_SIZE_IN_WORDS_def int_tagword_of_nat returning_def)
  ultimately show thesis using that u ok(2) by simp
qed

lemma steps_to_later:
  assumes "steps_to st outcome pc roots u k ls" and "grows s u" and "unat (hap u) = unat (hap s) + 4 * j"
  shows "steps_to st outcome pc roots s (j + k) ls"
  using assms grows_trans [OF assms(2)] unfolding steps_to_def reaches_def by (auto simp: algebra_simps)

lemma put_record_ok:
  assumes "ready st s stack ls" and "code_at code pc (be32 (word_of_nat n))" and "room (n + 4) s" and "n \<le> length ls" and "n \<le> 512"
  shows "steps_to st (make_record clean code pc (stack # roots) s) (pc + 4) roots s (n + 4) (Lit_Record (rev (take n ls)) # drop n ls)"
proof -
  have len: "GET32 code pc = Inr (word_of_nat n)" by (rule GET32_code [OF assms(2)])
  have si: "sint (word_of_nat n :: val) = int n" by (rule sint_of_nat) (use assms(5) in simp)
  show ?thesis
  proof (cases "n = 0")
    case True
    have "room (1 + 3) s" using assms(3) True by simp
    from push_steps_to [OF assms(1) grows_refl _ _ _ this, of HEAP_VOID "Lit_Record []" "pc + 4" roots] assms(1)
    show ?thesis using True len by (simp add: make_record_def ready_def)
  next
    case False
    have "room (n + 1) s" using assms(3) by (simp add: room_def)
    from chunk_from_stack_ok [OF assms(1) _ assms(5,4) this] False obtain stack' u v
      where call: "chunk_from_stack clean (int n) PAIRS_AND_RECORDS_BTAG (stack # roots) s = returning (stack' # roots) (u, v)"
        and u: "new_chunk s u v (MAKE_TAGWORD n PAIRS_AND_RECORDS_BTAG) n" and top: "unat (hap u) = unat (hap s) + 4 * (n + 1)"
        and rdy: "ready st u stack' (drop n ls)" and sl: "slots_denote st (words u) (unat (hap u)) v (rev (take n ls))"
      by blast
    have den: "denotes st (words u) (unat (hap u)) v (Lit_Record (rev (take n ls)))"
      using False sl new_chunkD(6) [OF u] assms(4) by (auto simp: min_def)
    have room3: "room (0 + 3) u" by (rule room_after [OF top]) (use assms(3) in \<open>simp add: add.commute [of n]\<close>)
    have "steps_to st (push_and_go_on (pc + 4) (stack' # roots) (u, v)) (pc + 4) roots u (0 + 3) (Lit_Record (rev (take n ls)) # drop n ls)"
      by (rule push_steps_to [OF rdy grows_refl _ _ den room3]) (use rdy in \<open>simp_all add: ready_def\<close>)
    from steps_to_later [OF this new_chunkD(1) [OF u] top]
    have "steps_to st (push_and_go_on (pc + 4) (stack' # roots) (u, v)) (pc + 4) roots s (n + 4) (Lit_Record (rev (take n ls)) # drop n ls)"
      by (simp add: add.commute [of n])
    then show ?thesis using call len si False by (simp add: make_record_def Let_def returning_def)
  qed
qed

lemma put_vector_ok:
  assumes "ready st s stack ls" and "code_at code pc (be32 (word_of_nat n))" and "room (n + 7) s" and "n \<le> length ls" and "n \<le> 512"
  shows "steps_to st (make_vector clean st code pc (stack # roots) s) (pc + 4) roots s (n + 7) (Lit_Vector (rev (take n ls)) # drop n ls)"
proof -
  have len: "GET32 code pc = Inr (word_of_nat n)" by (rule GET32_code [OF assms(2)])
  have si: "sint (word_of_nat n :: val) = int n" by (rule sint_of_nat) (use assms(5) in simp)
  show ?thesis
  proof (cases "n = 0")
    case True
    have "room (4 + 3) s" using assms(3) True by simp
    from push_steps_to [OF assms(1) grows_refl _ _ _ this, of "ZERO_LENGTH_VECTOR__GLOBAL st" "Lit_Vector []" "pc + 4" roots] assms(1)
    show ?thesis using True len by (simp add: make_vector_def ready_def)
  next
    case False
    have "room (n + 1) s" using assms(3) by (simp add: room_def)
    from chunk_from_stack_ok [OF assms(1) _ assms(5,4) this] False obtain stack' u p
      where call: "chunk_from_stack clean (int n) PAIRS_AND_RECORDS_BTAG (stack # roots) s = returning (stack' # roots) (u, p)"
        and u: "new_chunk s u p (MAKE_TAGWORD n PAIRS_AND_RECORDS_BTAG) n" and top: "unat (hap u) = unat (hap s) + 4 * (n + 1)"
        and rdy: "ready st u stack' (drop n ls)" and sl: "slots_denote st (words u) (unat (hap u)) p (rev (take n ls))"
      by blast
    let ?ws = "[p, TAGGED_INT_FROM_C_INT (int n)]"
    obtain w v where mk: "make_chunk TYPEAGNOSTIC_RO_VECTOR_TAGWORD ?ws u = (w, v)" by (cases "make_chunk TYPEAGNOSTIC_RO_VECTOR_TAGWORD ?ws u")
    have room6: "room 6 u" by (rule room_after [OF top]) (use assms(3) in \<open>simp add: add.commute [of n]\<close>)
    then have "room (length ?ws + 1) u" by (simp add: room_def)
    note ok = make_chunk_ok [OF mk this]
    have g: "grows u w" by (rule new_chunkD(1) [OF ok(1)])
    note ag = grows_agree [OF g] and le = grows_le [OF g]
    have w0: "words w v = p" and w4: "words w (v + 4) = TAGGED_INT_FROM_C_INT (int n)" using ok(2) [of 0] ok(2) [of 1] by simp_all
    have header: "chunk (words w) (unat (hap w)) v TYPEAGNOSTIC_RO_VECTOR_TAGWORD 2" using new_chunkD(6) [OF ok(1)] by (simp add: numeral_2_eq_2)
    have c: "chunk (words u) (unat (hap u)) p (MAKE_TAGWORD n PAIRS_AND_RECORDS_BTAG) n" by (rule new_chunkD(6) [OF u])
    have "slots_denote st (words w) (unat (hap w)) p (rev (take n ls))"
      by (rule denotes_agree(2) [OF sl ag le]) (use c assms(4) in \<open>simp add: chunk_def min_def\<close>)
    then have den: "denotes st (words w) (unat (hap w)) v (Lit_Vector (rev (take n ls)))"
      using False assms(4) w0 w4 header chunk_agree [OF c ag le] by (auto simp: min_def)
    have le3: "unat (hap w) \<le> unat (hap u) + 4 * 3" using ok(3) by simp
    have "room (3 + 3) u" using room6 by simp
    then have "steps_to st (push_and_go_on (pc + 4) (stack' # roots) (w, v)) (pc + 4) roots u (3 + 3) (Lit_Vector (rev (take n ls)) # drop n ls)"
      by (rule push_steps_to [OF rdy g new_chunkD(7) [OF ok(1)] le3 den])
    from steps_to_later [OF this new_chunkD(1) [OF u] top]
    have "steps_to st (push_and_go_on (pc + 4) (stack' # roots) (w, v)) (pc + 4) roots s (n + 7) (Lit_Vector (rev (take n ls)) # drop n ls)"
      by (simp add: add.commute [of n])
    then show ?thesis using call len si False mk by (simp add: make_vector_def Let_def returning_def make_vector_header_def)
  qed
qed

section \<open>Programs\<close>

lemma execute_simps:
  "execute_instruction clean st code MAKE_TAGGED_VAL = make_tagged_val code"
  "execute_instruction clean st code MAKE_FOUR_BYTE_VAL = make_four_byte_val code"
  "execute_instruction clean st code MAKE_FOUR_BYTE_VALS_VECTOR = make_four_byte_vals_vector clean code"
  "execute_instruction clean st code MAKE_EIGHT_BYTE_VAL = make_eight_byte_val code"
  "execute_instruction clean st code MAKE_EIGHT_BYTE_VALS_VECTOR = make_eight_byte_vals_vector clean code"
  "execute_instruction clean st code MAKE_ASCII_STRING = make_ascii_string clean st code"
  "execute_instruction clean st code GET_ITH_LITERAL = get_ith_literal code"
  "execute_instruction clean st code MAKE_VECTOR = make_vector clean st code"
  "execute_instruction clean st code MAKE_RECORD = make_record clean code"
  "execute_instruction clean st code RETURN_LAST_LITERAL = (\<lambda>pc. return_last_literal)"
  by (simp_all add: execute_instruction_def opcode_defs fun_eq_iff)

lemma instruction_ok:
  assumes "ready st s stack ls" and "run_instruction i ls = Some ls'" and "small_instruction i" and "room (instruction_words i) s"
    and "code_at code pc (instruction_bytes i)"
  shows "steps_to st (execute_instruction clean st code (hd (instruction_bytes i)) (pc + 1) (stack # roots) s)
    (pc + length (instruction_bytes i)) roots s (instruction_words i) ls'"
proof -
  obtain op bs where b: "instruction_bytes i = op # bs" by (cases i) auto
  have "code_at code (pc + 1) bs" using code_at_Cons assms(5) unfolding b by blast
  then have code: "code_at code (pc + 1) (tl (instruction_bytes i))" by (simp add: b)
  show ?thesis
  proof (cases i)
    case (Put_Int w)
    then show ?thesis using put_int_ok [OF assms(1), of code "pc + 1" w roots] assms(2-4) code
      by (simp add: execute_simps add.commute [of pc])
  next
    case (Put_Raw32 w)
    then show ?thesis using put_raw32_ok [OF assms(1), of code "pc + 1" w roots] assms(2-4) code
      by (simp add: execute_simps add.commute [of pc])
  next
    case (Put_Raw32s ws)
    then show ?thesis using put_raw32s_ok [OF assms(1), of code "pc + 1" ws clean roots] assms(2-4) code
      by (simp add: execute_simps add.assoc add.commute add.left_commute)
  next
    case (Put_Raw64 d)
    then show ?thesis using put_raw64_ok [OF assms(1), of code "pc + 1" d roots] assms(2-4) code
      by (simp add: execute_simps add.commute [of pc])
  next
    case (Put_Raw64s ds)
    then show ?thesis using put_raw64s_ok [OF assms(1), of code "pc + 1" ds clean roots] assms(2-4) code
      by (simp add: execute_simps add.assoc add.commute add.left_commute)
  next
    case (Put_String bs)
    then show ?thesis using put_string_ok [OF assms(1), of code "pc + 1" bs clean roots] assms(2-4) code
      by (simp add: execute_simps add.assoc add.commute add.left_commute)
  next
    case (Put_Lit n)
    then show ?thesis using put_lit_ok [OF assms(1), of code "pc + 1" n roots] assms(2-4) code
      by (simp add: execute_simps add.commute [of pc] split: if_splits)
  next
    case (Put_Vector n)
    then show ?thesis using put_vector_ok [OF assms(1), of code "pc + 1" n clean roots] assms(2-4) code
      by (simp add: execute_simps add.commute [of pc] split: if_splits)
  next
    case (Put_Record n)
    then show ?thesis using put_record_ok [OF assms(1), of code "pc + 1" n clean roots] assms(2-4) code
      by (simp add: execute_simps add.commute [of pc] split: if_splits)
  qed
qed

text \<open>Less than half of the buffer is used: nothing is cleaned before an instruction.\<close>

definition half_free :: "nat \<Rightarrow> alloc_state \<Rightarrow> bool" where
  "half_free n s \<longleftrightarrow>
     unat (heap_allocation_buffer (buffer s)) \<le> unat (hap s) \<and> unat (hap s) + 4 * n \<le> unat (real_heap_allocation_limit (buffer s)) \<and>
     2 * (unat (hap s) + 4 * n) \<le> unat (heap_allocation_buffer (buffer s)) + unat (real_heap_allocation_limit (buffer s)) \<and>
     unat (real_heap_allocation_limit (buffer s)) - unat (heap_allocation_buffer (buffer s)) < 2 ^ 31 \<and>
     unat (real_heap_allocation_limit (buffer s)) + 4672 < 2 ^ 32"

definition tripwire_of :: "alloc_state \<Rightarrow> val" where
  "tripwire_of s = real_heap_allocation_limit (buffer s) + MIN_FREE_BYTES_IN_AGEGROUP0_BUFFER"

lemma half_free_no_clean:
  assumes "half_free n s"
  shows "empty_agegroup0_buffer_if_more_than_half_full clean roots s = Inr (roots, s)"
proof -
  let ?b = "buffer s"
  have le: "unat (heap_allocation_buffer ?b) \<le> unat (hap s)" "unat (hap s) \<le> unat (real_heap_allocation_limit ?b)"
    and half: "unat (hap s) - unat (heap_allocation_buffer ?b) \<le> unat (real_heap_allocation_limit ?b) - unat (hap s)"
    and small: "unat (real_heap_allocation_limit ?b) - unat (heap_allocation_buffer ?b) < 2 ^ 31"
    using assms by (auto simp: half_free_def)
  have f: "unat (agegroup0_freespace_in_bytes ?b) = unat (real_heap_allocation_limit ?b) - unat (hap s)"
    unfolding agegroup0_freespace_in_bytes_def using le by (simp add: unat_sub word_le_nat_alt)
  have u: "unat (agegroup0_usedspace_in_bytes ?b) = unat (hap s) - unat (heap_allocation_buffer ?b)"
    unfolding agegroup0_usedspace_in_bytes_def using le by (simp add: unat_sub word_le_nat_alt)
  have "sint (agegroup0_freespace_in_bytes ?b) = int (unat (agegroup0_freespace_in_bytes ?b))"
    by (rule sint_small) (use f le small in linarith)
  moreover have "sint (agegroup0_usedspace_in_bytes ?b) = int (unat (agegroup0_usedspace_in_bytes ?b))"
    by (rule sint_small) (use u le small in linarith)
  ultimately have "\<not> sint (agegroup0_freespace_in_bytes ?b) < sint (agegroup0_usedspace_in_bytes ?b)"
    unfolding f u using half by linarith
  then show ?thesis by (simp add: empty_agegroup0_buffer_if_more_than_half_full_def)
qed

lemma grows_buffer:
  assumes "grows s t"
  shows "heap_allocation_buffer (buffer t) = heap_allocation_buffer (buffer s)"
    and "real_heap_allocation_limit (buffer t) = real_heap_allocation_limit (buffer s)" and "tripwire_of t = tripwire_of s"
proof -
  have b: "buffer t = (buffer s)\<lparr>heap_allocation_pointer := hap t\<rparr>" using assms by (simp add: grows_def)
  show "heap_allocation_buffer (buffer t) = heap_allocation_buffer (buffer s)"
    and lim: "real_heap_allocation_limit (buffer t) = real_heap_allocation_limit (buffer s)"
    by (subst b, simp)+
  then show "tripwire_of t = tripwire_of s" by (simp add: tripwire_of_def)
qed

lemma tripwires_survive:
  assumes "grows s t" and "half_free n s" and "unat (hap t) \<le> unat (hap s) + 4 * n"
  shows "check_agegroup0_overrun_tripwire_buffer (buffer t) (words t) = check_agegroup0_overrun_tripwire_buffer (buffer s) (words s)"
proof -
  let ?r = "unat (real_heap_allocation_limit (buffer s))"
  have addrs: "tripwire_addresses (buffer t) = tripwire_addresses (buffer s)"
    by (simp add: tripwire_addresses_def grows_buffer [OF assms(1)])
  have lim: "?r + 4672 < 2 ^ 32" and le: "unat (hap t) \<le> ?r" using assms(2,3) by (auto simp: half_free_def)
  have "words t a = words s a" if "a \<in> set (tripwire_addresses (buffer s))" for a
  proof -
    have "?r \<le> unat a" using that unfolding tripwire_address_range [OF lim] tripwire_start_def by auto
    then have "unat (hap t) \<le> unat a" using le by simp
    then show ?thesis using assms(1) unfolding grows_def by blast
  qed
  then show ?thesis by (simp add: check_agegroup0_overrun_tripwire_buffer_def check_tripwires_result addrs)
qed

lemma first_tripwire:
  assumes "half_free n s" and "check_agegroup0_overrun_tripwire_buffer (buffer s) (words s) = Inr ()"
  shows "words s (tripwire_of s) = AGEGROUP0_OVERRUN_TRIPWIRE_BUFFER_VALUE"
proof -
  have "tripwire_of s \<in> set (tripwire_addresses (buffer s))"
    unfolding tripwire_addresses_def set_map
    by (rule image_eqI [of _ _ 0]) (simp_all add: tripwire_of_def AGEGROUP0_OVERRUN_TRIPWIRE_BUFFER_SIZE_IN_WORDS_def)
  then show ?thesis using assms(2) by (simp add: tripwire_initialized)
qed

lemma half_free_after:
  assumes "half_free (k + n) s" and "grows s t" and "unat (hap t) \<le> unat (hap s) + 4 * k"
  shows "half_free n t"
  using assms(1,3) grows_le [OF assms(2)] by (auto simp: half_free_def grows_buffer [OF assms(2)] algebra_simps)

lemma literal_step_ok:
  assumes "half_free n s" and "check_agegroup0_overrun_tripwire_buffer (buffer s) (words s) = Inr ()" and "code_at code pc [op]"
  shows "literal_step clean st (tripwire_of s) code pc roots s = execute_instruction clean st code op (pc + 1) roots s"
  using half_free_no_clean [OF assms(1)] first_tripwire [OF assms(1,2)] fetch_code [OF assms(3)]
  by (simp add: literal_step_def)

definition program_words :: "instruction list \<Rightarrow> nat" where
  "program_words is = sum_list (map instruction_words is)"

lemma program_ok:
  assumes "ready st s stack ls" and "run_instructions is ls = Some (l # rest)" and "\<forall>i \<in> set is. small_instruction i"
    and "half_free (program_words is) s" and "check_agegroup0_overrun_tripwire_buffer (buffer s) (words s) = Inr ()"
    and "code_at code pc (concat (map instruction_bytes is) @ [RETURN_LAST_LITERAL])"
  shows "\<exists>t v. literal_loop clean st (tripwire_of s) code pc (stack # roots) s = Some (Inr (roots, t, v)) \<and>
    grows s t \<and> denotes st (words t) (unat (hap t)) v l"
  using assms
proof (induction "is" arbitrary: s stack ls pc)
  case Nil
  then have ls: "ls = l # rest" by simp
  have "IS_POINTER stack" and v: "denotes st (words s) (unat (hap s)) (words s stack) l"
    using Nil.prems(1) by (simp_all add: ls ready_def chunk_def)
  then have head: "LIST_HEAD s stack = Inr (words s stack)" by (simp add: LIST_HEAD_def GET_TUPLE_SLOT_AS_VAL_def slot_def)
  have "code_at code pc [RETURN_LAST_LITERAL]" using Nil.prems(6) by simp
  from literal_step_ok [OF Nil.prems(4,5) this]
  have "literal_step clean st (tripwire_of s) code pc (stack # roots) s = Some (Inr (Return_Literal (words s stack) roots s))"
    using Nil.prems(5) head by (simp add: execute_simps return_last_literal_def)
  then have "literal_loop clean st (tripwire_of s) code pc (stack # roots) s = Some (Inr (roots, s, words s stack))"
    by (simp add: literal_loop.simps)
  then show ?case using v by auto
next
  case (Cons i "is")
  obtain ls' where run: "run_instruction i ls = Some ls'" and run': "run_instructions is ls' = Some (l # rest)"
    using Cons.prems(2) by (auto simp: bind_eq_Some_conv)
  have hf: "half_free (instruction_words i + program_words is) s" using Cons.prems(4) by (simp add: program_words_def)
  then have room: "room (instruction_words i) s" using Cons.prems(1) by (auto simp: half_free_def room_def ready_def)
  have "code_at code pc (instruction_bytes i @ (concat (map instruction_bytes is) @ [RETURN_LAST_LITERAL]))" using Cons.prems(6) by simp
  note code = code_at_append [OF this]
  have small: "small_instruction i" using Cons.prems(3) by simp
  from instruction_ok [OF Cons.prems(1) run small room code(1)] obtain t stack'
    where step: "execute_instruction clean st code (hd (instruction_bytes i)) (pc + 1) (stack # roots) s =
        Some (Inr (Go_On (pc + length (instruction_bytes i)) (stack' # roots) t))"
      and r: "reaches st s (instruction_words i) t stack' ls'"
    unfolding steps_to_def by blast
  note g = reachesD(1) [OF r]
  have op: "code_at code pc [hd (instruction_bytes i)]"
    using code_at_Cons [of code pc "hd (instruction_bytes i)" "tl (instruction_bytes i)"] code(1) by (cases i) auto
  have loop: "literal_loop clean st (tripwire_of s) code pc (stack # roots) s =
      literal_loop clean st (tripwire_of t) code (pc + length (instruction_bytes i)) (stack' # roots) t"
    using step by (subst literal_loop.simps) (simp add: literal_step_ok [OF Cons.prems(4,5) op] grows_buffer(3) [OF g])
  have "\<exists>u v. literal_loop clean st (tripwire_of t) code (pc + length (instruction_bytes i)) (stack' # roots) t =
      Some (Inr (roots, u, v)) \<and> grows t u \<and> denotes st (words u) (unat (hap u)) v l"
  proof (rule Cons.IH [OF _ run'])
    show "ready st t stack' ls'" using reachesD(2,4) [OF r] by (simp add: ready_def)
    show "half_free (program_words is) t" by (rule half_free_after [OF hf g reachesD(3) [OF r]])
    show "check_agegroup0_overrun_tripwire_buffer (buffer t) (words t) = Inr ()"
      using tripwires_survive [OF g hf] reachesD(3) [OF r] Cons.prems(5) by simp
  qed (use Cons.prems(3) code(2) in simp_all)
  then show ?case unfolding loop using grows_trans [OF g] by blast
qed

text \<open>
  C5. A literal bytecode program leaves the literal it describes on the Mythryl heap. When the
  abstract machine ends with a literal on its stack, the interpreter returns a word that stands
  for that literal; it has called no heapcleaner, has left everything that was on the heap before
  as it was, and has kept the tripwire. (Every chunk of the program is small, and all of them
  together fit in the half of the allocation buffer below which nothing is cleaned.)
\<close>

theorem literal_programs_build_their_literals:
  assumes "run_instructions is [] = Some (l # rest)" and "\<forall>i \<in> set is. small_instruction i"
    and "unat (hap s) mod 4 = 0" and "half_free (program_words is) s"
    and "check_agegroup0_overrun_tripwire_buffer (buffer s) (words s) = Inr ()"
  shows "\<exists>t v. make_package_literals_via_bytecode_interpreter__may_heapclean clean st (literal_bytecode max_depth is) roots s =
      Some (Inr (roots, t, v)) \<and> denotes st (words t) (unat (hap t)) v l \<and> grows s t"
proof -
  let ?code = "literal_bytecode max_depth is" and ?body = "concat (map instruction_bytes is) @ [RETURN_LAST_LITERAL]"
  have "code_at ?code 0 (be32 V1_MAGIC @ (be32 max_depth @ ?body))"
    unfolding code_at_def literal_bytecode_def by (rule exI [of _ "[]"], rule exI [of _ "[]"]) simp
  note c0 = code_at_append [OF this]
  have "code_at ?code 4 (be32 max_depth @ ?body)" using c0(2) by simp
  note c4 = code_at_append [OF this]
  have body: "code_at ?code 8 ?body" using c4(2) by simp
  have headers: "GET32 ?code 0 = Inr V1_MAGIC" "GET32 ?code 4 = Inr max_depth"
    using GET32_code [OF c0(1)] GET32_code [OF c4(1)] by simp_all
  have long: "\<not> length ?code \<le> 8" by (simp add: literal_bytecode_def)
  have "ready st s HEAP_NIL []" using assms(3) by (simp add: ready_def)
  from program_ok [OF this assms(1,2,4,5) body] obtain t v
    where "literal_loop clean st (tripwire_of s) ?code 8 (HEAP_NIL # roots) s = Some (Inr (roots, t, v))"
      and "grows s t" and "denotes st (words t) (unat (hap t)) v l"
    by blast
  then show ?thesis
    using headers long assms(5) unfolding make_package_literals_via_bytecode_interpreter__may_heapclean_def
    by (simp add: tripwire_of_def)
qed

definition example_program :: "instruction list" where
  "example_program = [Put_Int 7, Put_String [104, 105], Put_Lit 1, Put_Record 3]"

definition example_statics :: static_values where
  "example_statics = \<lparr>ZERO_LENGTH_STRING__GLOBAL = 0x1000, ZERO_LENGTH_VECTOR__GLOBAL = 0x2000\<rparr>"

theorem literal_programs_build_their_literals_witness:
  "\<exists>t v. make_package_literals_via_bytecode_interpreter__may_heapclean (\<lambda>_ _ _. Inl Wild) example_statics
      (literal_bytecode 3 example_program) [] example_state = Some (Inr ([], t, v)) \<and>
    denotes example_statics (words t) (unat (hap t)) v (Lit_Record [Lit_Int 7, Lit_String [104, 105], Lit_Int 7]) \<and>
    grows example_state t"
proof (rule literal_programs_build_their_literals)
  show "run_instructions example_program [] = Some [Lit_Record [Lit_Int 7, Lit_String [104, 105], Lit_Int 7]]"
    by (simp add: example_program_def)
  show "\<forall>i \<in> set example_program. small_instruction i" by (simp add: example_program_def)
  show "unat (hap example_state) mod 4 = 0" by (simp add: example_hap)
  show "half_free (program_words example_program) example_state"
    by (simp add: half_free_def program_words_def example_program_def string_words_def example_state_def example_buffer_def
        hostthread_buffer_def Let_def HEAP_ALLOCATION_LIMIT_SIZE_def buffer_sizes)
  show "check_agegroup0_overrun_tripwire_buffer (buffer example_state) (words example_state) = Inr ()"
    by (simp add: tripwire_initialized example_state_def initialize_agegroup0_overrun_tripwire_buffer_def foldl_upd_in)
qed

end
