(* ===== verification/Minor_Heapcleaner.thy ===== *)
theory Minor_Heapcleaner
  imports Heap_Allocation Cardmaps Hugechunks Hostthreads
begin

text \<open>
  The minor heapcleaning (\<open>src/c/heapcleaner/heapclean-agegroup0.c\<close>) with the copy loop of
  \<open>copy-loop.h\<close> and the handling of weak references in \<open>heapcleaner-stuff.c\<close>: everything the
  roots and the changelogs of the host threads lead to in agegroup 0 is copied into the four
  buffers of agegroup 1, which serve as the work queue of the copying.

  Memory is one function from word addresses to words: the two agegroups, the C variables the
  roots point to and the refcells of older agegroups are all parts of it. The book map and the
  hugechunk records do not change during a minor cleaning and are an argument, as are the modes
  of the host threads. The loops may run forever on a damaged heap, and have the value
  \<open>None\<close> then. Messages, the check of the whole heap, which the configuration leaves out,
  and the three global counters nothing reads are not modelled.
\<close>

section \<open>State\<close>

text \<open>\<open>weakrefs_forwarded\<close> is the heap's \<open>weakrefs_forwarded_during_heapcleaning\<close>, with 0 for NULL.\<close>

record gc_state =
  gc_words :: "val \<Rightarrow> val"
  gc_sibs :: "ilk \<Rightarrow> sib_state"
  weakrefs_forwarded :: val
  heap_changelog :: "nat \<Rightarrow> val"
  cardmaps :: "nat \<Rightarrow> cardmap option"
  agegroup0_heapcleanings_count :: int
  gc_bytes_allocated :: bigcounter
  bytes_copied_to_sib :: "ilk \<Rightarrow> bigcounter"

definition SPECIAL_CHUNK_SIZE_IN_WORDS :: nat where "SPECIAL_CHUNK_SIZE_IN_WORDS = 2"

definition store :: "val \<Rightarrow> val \<Rightarrow> gc_state \<Rightarrow> gc_state" where
  "store a w s = s\<lparr>gc_words := (gc_words s)(a := w)\<rparr>"

definition free_of :: "ilk \<Rightarrow> gc_state \<Rightarrow> val" where
  "free_of i s = first_free (sib_tospace (gc_sibs s i))"

definition set_free :: "ilk \<Rightarrow> val \<Rightarrow> gc_state \<Rightarrow> gc_state" where
  "set_free i p s = s\<lparr>gc_sibs := (gc_sibs s)(i := (gc_sibs s i)\<lparr>sib_tospace := (sib_tospace (gc_sibs s i))\<lparr>first_free := p\<rparr>\<rparr>)\<rparr>"

definition set_swept :: "ilk \<Rightarrow> val \<Rightarrow> gc_state \<Rightarrow> gc_state" where
  "set_swept i p s = s\<lparr>gc_sibs := (gc_sibs s)(i := (gc_sibs s i)\<lparr>swept_end := p\<rparr>)\<rparr>"

definition FOLLOW_FORWARDING_POINTER :: "gc_state \<Rightarrow> val \<Rightarrow> val" where
  "FOLLOW_FORWARDING_POINTER s chunk = gc_words s chunk"

section \<open>The copy loop\<close>

text \<open>One to three words first, then four at a time; every word is read when it is written.\<close>

fun copy_up :: "nat \<Rightarrow> val \<Rightarrow> val \<Rightarrow> (val \<Rightarrow> val) \<Rightarrow> val \<Rightarrow> val" where
  "copy_up 0 src dst m = m"
| "copy_up (Suc n) src dst m = copy_up n (src + 4) (dst + 4) (m(dst := m src))"

fun copy_fours :: "nat \<Rightarrow> val \<Rightarrow> val \<Rightarrow> (val \<Rightarrow> val) \<Rightarrow> val \<Rightarrow> val" where
  "copy_fours 0 src dst m = m"
| "copy_fours (Suc k) src dst m =
     (let m = m(dst := m src);
          m = m(dst + 4 := m (src + 4));
          m = m(dst + 8 := m (src + 8));
          m = m(dst + 12 := m (src + 12))
      in copy_fours k (src + 16) (dst + 16) m)"

definition COPYLOOP :: "val \<Rightarrow> val \<Rightarrow> nat \<Rightarrow> (val \<Rightarrow> val) \<Rightarrow> val \<Rightarrow> val" where
  "COPYLOOP src dst len m =
     (let n = len AND 3
      in copy_fours (drop_bit 2 len) (src + 4 * word_of_nat n) (dst + 4 * word_of_nat n) (copy_up n src dst m))"

section \<open>Forwarding one chunk\<close>

definition note_forwarding :: "val \<Rightarrow> val \<Rightarrow> gc_state \<Rightarrow> gc_state" where
  "note_forwarding chunk new_chunk s = store chunk new_chunk (store (chunk - 4) FORWARDED_CHUNK_TAGWORD s)"

definition forward_special_chunk :: "hugeheap \<Rightarrow> val \<Rightarrow> val \<Rightarrow> gc_state \<Rightarrow> (gc_state \<times> val) result" where
  "forward_special_chunk hh chunk tagword s =
     (let new_chunk = free_of RW_POINTERS_SIB s;
          s = set_free RW_POINTERS_SIB (new_chunk + 4 * word_of_nat SPECIAL_CHUNK_SIZE_IN_WORDS) s;
          done = (\<lambda>s. Inr (note_forwarding chunk (new_chunk + 4) s, new_chunk + 4));
          ctag = GET_LENGTH_IN_WORDS_FROM_TAGWORD tagword
      in if ctag = EVALUATED_LAZY_SUSPENSION_CTAG \<or> ctag = UNEVALUATED_LAZY_SUSPENSION_CTAG
         then let s = store new_chunk tagword s
              in done (store (new_chunk + 4) (gc_words s chunk) s)
         else if ctag = WEAK_POINTER_CTAG
         then let v = gc_words s chunk
              in if \<not> IS_POINTER v
                 then done (store (new_chunk + 4) v (store new_chunk WEAKREF_TAGWORD s))
                 else if SIBID_FOR_POINTER (hh_books hh) v \<noteq> AGEGROUP0_SIBID
                 then done (store (new_chunk + 4) v (store new_chunk WEAKREF_TAGWORD s))
                 else if gc_words s (v - 4) = FORWARDED_CHUNK_TAGWORD
                 then done (store (new_chunk + 4) v (store new_chunk WEAKREF_TAGWORD s))
                 else let s = store new_chunk (MARK_POINTER (weakrefs_forwarded s)) s;
                          s = store (new_chunk + 4) (MARK_POINTER v) s
                      in done (s\<lparr>weakrefs_forwarded := new_chunk\<rparr>)
         else Inl (Died ''strange/unexpected special chunk''))"

definition forward_pair :: "val \<Rightarrow> gc_state \<Rightarrow> gc_state \<times> val" where
  "forward_pair chunk s =
     (let new_chunk = free_of RO_CONSCELL_SIB s;
          s = set_free RO_CONSCELL_SIB (new_chunk + 8) s;
          s = store new_chunk (gc_words s chunk) s;
          s = store (new_chunk + 4) (gc_words s (chunk + 4)) s
      in (note_forwarding chunk new_chunk s, new_chunk))"

definition copy_chunk :: "ilk \<Rightarrow> nat \<Rightarrow> val \<Rightarrow> val \<Rightarrow> gc_state \<Rightarrow> gc_state \<times> val" where
  "copy_chunk i len_in_words chunk tagword s =
     (let new_chunk = free_of i s;
          s = set_free i (new_chunk + 4 * word_of_nat (len_in_words + 1)) s;
          s = store new_chunk tagword s;
          new_chunk = new_chunk + 4;
          s = s\<lparr>gc_words := COPYLOOP chunk new_chunk len_in_words (gc_words s)\<rparr>
      in (note_forwarding chunk new_chunk s, new_chunk))"

definition align_sib_for_float64 :: "gc_state \<Rightarrow> gc_state" where
  "align_sib_for_float64 s = set_free NONPTR_DATA_SIB (free_of NONPTR_DATA_SIB s OR word_of_nat WORD_BYTESIZE) s"

definition forward_agegroup0_chunk_to_agegroup1 :: "hugeheap \<Rightarrow> val \<Rightarrow> gc_state \<Rightarrow> (gc_state \<times> val) result" where
  "forward_agegroup0_chunk_to_agegroup1 hh v s =
     (let tagword = gc_words s (v - 4);
          btag = GET_BTAG_FROM_TAGWORD tagword;
          len_in_words = GET_LENGTH_IN_WORDS_FROM_TAGWORD tagword
      in if btag = PAIRS_AND_RECORDS_BTAG
         then Inr (if len_in_words \<noteq> 2 then copy_chunk RO_POINTERS_SIB len_in_words v tagword s else forward_pair v s)
         else if btag = RO_VECTOR_HEADER_BTAG \<or> btag = RW_VECTOR_HEADER_BTAG
         then Inr (copy_chunk RO_POINTERS_SIB 2 v tagword s)
         else if btag = RW_VECTOR_DATA_BTAG
         then Inr (copy_chunk RW_POINTERS_SIB len_in_words v tagword s)
         else if btag = FOUR_BYTE_ALIGNED_NONPOINTER_DATA_BTAG
         then Inr (copy_chunk NONPTR_DATA_SIB len_in_words v tagword s)
         else if btag = EIGHT_BYTE_ALIGNED_NONPOINTER_DATA_BTAG
         then Inr (copy_chunk NONPTR_DATA_SIB len_in_words v tagword (align_sib_for_float64 s))
         else if btag = WEAK_POINTER_OR_SUSPENSION_BTAG then forward_special_chunk hh v tagword s
         else if btag = FORWARDED_CHUNK_BTAG then Inr (s, FOLLOW_FORWARDING_POINTER s v)
         else Inl (Died ''bad chunk tag''))"

definition forward_to_agegroup1_if_in_agegroup0 :: "hugeheap \<Rightarrow> val \<Rightarrow> gc_state \<Rightarrow> gc_state result" where
  "forward_to_agegroup1_if_in_agegroup0 hh p s =
     (let w = gc_words s p
      in if IS_POINTER w \<and> SIBID_FOR_POINTER (hh_books hh) w = AGEGROUP0_SIBID
         then seq_result (forward_agegroup0_chunk_to_agegroup1 hh w s) (\<lambda>(s, v). Inr (store p v s))
         else Inr s)"

section \<open>The roots\<close>

fun forward_roots :: "hugeheap \<Rightarrow> val list \<Rightarrow> gc_state \<Rightarrow> gc_state result" where
  "forward_roots hh [] s = Inr s"
| "forward_roots hh (rp # roots) s =
     seq_result (forward_to_agegroup1_if_in_agegroup0 hh rp s) (forward_roots hh roots)"

section \<open>The changelogs\<close>

definition HEAP_CHANGELOG_NIL :: val where "HEAP_CHANGELOG_NIL = HEAP_VOID"

definition HEAP_CHANGELOG_HEAD :: "gc_state \<Rightarrow> val \<Rightarrow> val" where
  "HEAP_CHANGELOG_HEAD s p = gc_words s p"

definition HEAP_CHANGELOG_TAIL :: "gc_state \<Rightarrow> val \<Rightarrow> val" where
  "HEAP_CHANGELOG_TAIL s p = gc_words s (p + 4)"

definition get_age_of_codechunk :: "hugeheap \<Rightarrow> val \<Rightarrow> int result" where
  "get_age_of_codechunk hh codechunk =
     seq_result (find_record_book (hh_books hh) (GET_BOOK_CONTAINING_POINTEE codechunk)) (\<lambda>book.
     seq_result (get_hugechunk_holding_pointee hh (ADDRESS_OF_BOOK book) codechunk) (\<lambda>hc.
     seq_result (get_chunk hh hc) (\<lambda>d. Inr (int (hc_age d)))))"

definition update_cardmap :: "nat \<Rightarrow> val \<Rightarrow> int \<Rightarrow> gc_state \<Rightarrow> gc_state result" where
  "update_cardmap src_age pointer dst_age s =
     (if src_age = 0 then Inl Wild
      else case cardmaps s (src_age - 1) of
        None \<Rightarrow> Inl Wild
      | Some cm \<Rightarrow> seq_result (MAYBE_UPDATE_CARD_MIN_AGE_PER_POINTER cm pointer dst_age) (\<lambda>cm.
          Inr (s\<lparr>cardmaps := (cardmaps s)(src_age - 1 := Some cm)\<rparr>)))"

definition note_if_older :: "nat \<Rightarrow> val \<Rightarrow> int \<Rightarrow> gc_state \<Rightarrow> gc_state result" where
  "note_if_older src_age pointer dst_age s =
     (if int src_age > dst_age then update_cardmap src_age pointer dst_age s else Inr s)"

definition process_change :: "hugeheap \<Rightarrow> val \<Rightarrow> gc_state \<Rightarrow> gc_state result" where
  "process_change hh pointer s =
     (let pointee = gc_words s pointer;
          src_sibid = SIBID_FOR_POINTER (hh_books hh) pointer
      in if \<not> IS_POINTER pointee \<or> src_sibid = AGEGROUP0_SIBID \<or> BOOK_IS_UNMAPPED src_sibid then Inr s
         else let dst_sibid = SIBID_FOR_POINTER (hh_books hh) pointee;
                  src_age = GET_AGE_FROM_SIBID src_sibid;
                  dst_age = GET_AGE_FROM_SIBID dst_sibid
              in if \<not> SIBID_KIND_IS_CODE dst_sibid
                 then if dst_age = AGEGROUP0
                      then seq_result (forward_agegroup0_chunk_to_agegroup1 hh pointee s) (\<lambda>(s, v).
                             note_if_older src_age pointer 1 (store pointer v s))
                      else note_if_older src_age pointer (int dst_age) s
                 else if dst_age \<ge> src_age then Inr s
                 else seq_result (get_age_of_codechunk hh pointee) (\<lambda>dst_age.
                        note_if_older src_age pointer dst_age s))"

partial_function (option) process_changelog_from :: "hugeheap \<Rightarrow> val \<Rightarrow> gc_state \<Rightarrow> gc_state result option" where
  "process_changelog_from hh this_heap_changelog_cell s =
     (if this_heap_changelog_cell = HEAP_CHANGELOG_NIL then Some (Inr s)
      else let pointer = HEAP_CHANGELOG_HEAD s this_heap_changelog_cell;
               cell = HEAP_CHANGELOG_TAIL s this_heap_changelog_cell
           in case process_change hh pointer s of
                Inl e \<Rightarrow> Some (Inl e)
              | Inr s \<Rightarrow> process_changelog_from hh cell s)"

definition process_task_heap_changelog :: "hugeheap \<Rightarrow> nat \<Rightarrow> gc_state \<Rightarrow> gc_state result option" where
  "process_task_heap_changelog hh t s =
     (if heap_changelog s t = HEAP_CHANGELOG_NIL then Some (Inr s)
      else and_then (process_changelog_from hh (heap_changelog s t) s) (\<lambda>s.
             Some (Inr (s\<lparr>heap_changelog := (heap_changelog s)(t := HEAP_CHANGELOG_NIL)\<rparr>))))"

fun process_changelogs :: "hugeheap \<Rightarrow> (nat \<Rightarrow> Hostthread_Mode) \<Rightarrow> nat list \<Rightarrow> gc_state \<Rightarrow> gc_state result option" where
  "process_changelogs hh modes [] s = Some (Inr s)"
| "process_changelogs hh modes (i # is) s =
     (if modes i \<noteq> HOSTTHREAD_IS_VOID
      then and_then (process_task_heap_changelog hh i s) (process_changelogs hh modes is)
      else process_changelogs hh modes is s)"

section \<open>Sweeping the copies\<close>

partial_function (option) sweep_words :: "hugeheap \<Rightarrow> val \<Rightarrow> val \<Rightarrow> gc_state \<Rightarrow> (val \<times> gc_state) result option" where
  "sweep_words hh p q s =
     (if p < q
      then case forward_to_agegroup1_if_in_agegroup0 hh p s of
             Inl e \<Rightarrow> Some (Inl e)
           | Inr s \<Rightarrow> sweep_words hh (p + 4) q s
      else Some (Inr (p, s)))"

partial_function (option) sweep_queue :: "hugeheap \<Rightarrow> ilk \<Rightarrow> val \<Rightarrow> gc_state \<Rightarrow> (val \<times> gc_state) result option" where
  "sweep_queue hh i p s =
     (let q = free_of i s
      in case sweep_words hh p q s of
           None \<Rightarrow> None
         | Some (Inl e) \<Rightarrow> Some (Inl e)
         | Some (Inr (p, s)) \<Rightarrow> (if q \<noteq> free_of i s then sweep_queue hh i p s else Some (Inr (q, s))))"

definition sweep_agegroup1_sib_tospace :: "hugeheap \<Rightarrow> ilk \<Rightarrow> gc_state \<Rightarrow> (bool \<times> gc_state) result option" where
  "sweep_agegroup1_sib_tospace hh i s =
     (let p = swept_end (gc_sibs s i)
      in if p < free_of i s
         then and_then (sweep_queue hh i p s) (\<lambda>(q, s). Some (Inr (True, set_swept i q s)))
         else Some (Inr (False, s)))"

definition sweep_all_sibs_once :: "hugeheap \<Rightarrow> gc_state \<Rightarrow> (bool \<times> gc_state) result option" where
  "sweep_all_sibs_once hh s =
     and_then (sweep_agegroup1_sib_tospace hh RO_POINTERS_SIB s) (\<lambda>(b1, s).
     and_then (sweep_agegroup1_sib_tospace hh RO_CONSCELL_SIB s) (\<lambda>(b2, s).
     and_then (sweep_agegroup1_sib_tospace hh RW_POINTERS_SIB s) (\<lambda>(b3, s).
       Some (Inr (b1 \<or> b2 \<or> b3, s)))))"

partial_function (option) copy_all_remaining_reachable_values_in_agegroup0_to_agegroup1 ::
    "hugeheap \<Rightarrow> gc_state \<Rightarrow> gc_state result option" where
  "copy_all_remaining_reachable_values_in_agegroup0_to_agegroup1 hh s =
     (case sweep_all_sibs_once hh s of
        None \<Rightarrow> None
      | Some (Inl e) \<Rightarrow> Some (Inl e)
      | Some (Inr (making_progress, s)) \<Rightarrow>
          (if making_progress then copy_all_remaining_reachable_values_in_agegroup0_to_agegroup1 hh s else Some (Inr s)))"

section \<open>Weak references\<close>

definition FOLLOW_PAIRSPACE_FORWARDING_POINTER :: "val \<Rightarrow> val" where
  "FOLLOW_PAIRSPACE_FORWARDING_POINTER desc = desc AND NOT ATAG_MASK"

definition null_out_weakref :: "hugeheap \<Rightarrow> val \<Rightarrow> gc_state \<Rightarrow> gc_state result" where
  "null_out_weakref hh p s =
     (let chunk = UNMARK_POINTER (gc_words s (p + 4));
          kind = GET_KIND_FROM_SIBID (SIBID_FOR_POINTER (hh_books hh) chunk);
          alive = (\<lambda>v. Inr (store (p + 4) v (store p WEAKREF_TAGWORD s)));
          dead = Inr (store (p + 4) HEAP_VOID (store p NULLED_WEAKREF_TAGWORD s))
      in if kind \<in> {NEW_KIND, RO_POINTERS_KIND, NONPTR_DATA_KIND, RW_POINTERS_KIND}
         then if gc_words s (chunk - 4) = FORWARDED_CHUNK_TAGWORD
              then alive (FOLLOW_FORWARDING_POINTER (store p WEAKREF_TAGWORD s) chunk) else dead
         else if kind = RO_CONSCELL_KIND
         then let tagword = gc_words s chunk
              in if IS_TAGWORD tagword then alive (FOLLOW_PAIRSPACE_FORWARDING_POINTER tagword) else dead
         else if kind = CODE_KIND then Inl (Died ''weak big chunk'')
         else Inr s)"

partial_function (option) null_out_from :: "hugeheap \<Rightarrow> val \<Rightarrow> gc_state \<Rightarrow> gc_state result option" where
  "null_out_from hh p s =
     (if p = 0 then Some (Inr s)
      else let next_p = UNMARK_POINTER (gc_words s p)
           in case null_out_weakref hh p s of
                Inl e \<Rightarrow> Some (Inl e)
              | Inr s \<Rightarrow> null_out_from hh next_p s)"

definition null_out_newly_dead_weakrefs :: "hugeheap \<Rightarrow> gc_state \<Rightarrow> gc_state result option" where
  "null_out_newly_dead_weakrefs hh s =
     (if weakrefs_forwarded s = 0 then Some (Inr s)
      else and_then (null_out_from hh (weakrefs_forwarded s) s) (\<lambda>s. Some (Inr (s\<lparr>weakrefs_forwarded := 0\<rparr>))))"

section \<open>A minor heapcleaning\<close>

definition count_bytes_copied :: "(ilk \<Rightarrow> val) \<Rightarrow> gc_state \<Rightarrow> gc_state" where
  "count_bytes_copied age1_tospace_top s =
     s\<lparr>bytes_copied_to_sib := (\<lambda>i. INCREASE_BIGCOUNTER (bytes_copied_to_sib s i) (free_of i s - age1_tospace_top i))\<rparr>"

definition heapclean_agegroup0 ::
  "hugeheap \<Rightarrow> (nat \<Rightarrow> Hostthread_Mode) \<Rightarrow> task_buffer \<Rightarrow> val list \<Rightarrow> gc_state \<Rightarrow> gc_state result option" where
  "heapclean_agegroup0 hh modes task roots s =
     (let bytes_allocated = agegroup0_usedspace_in_bytes task;
          s = s\<lparr>gc_bytes_allocated := INCREASE_BIGCOUNTER (gc_bytes_allocated s) bytes_allocated\<rparr>;
          age1_tospace_top = (\<lambda>i. free_of i s)
      in and_then (Some (forward_roots hh roots s)) (\<lambda>s.
         and_then (process_changelogs hh modes [0..<MAX_HOSTTHREADS] s) (\<lambda>s.
         and_then (copy_all_remaining_reachable_values_in_agegroup0_to_agegroup1 hh s) (\<lambda>s.
         and_then (null_out_newly_dead_weakrefs hh (s\<lparr>agegroup0_heapcleanings_count := agegroup0_heapcleanings_count s + 1\<rparr>)) (\<lambda>s.
           Some (Inr (count_bytes_copied age1_tospace_top s)))))))"

end
