(* ===== verification/Minor_Copying.thy ===== *)
theory Minor_Copying
  imports Minor_Heapcleaner Heap_Allocation_Facts
begin

text \<open>
  How a chunk is copied: the unrolled copy loop is a plain one, a plain copy into another
  place is a write of the words read before it, and each way
  \<open>forward_agegroup0_chunk_to_agegroup1\<close> copies a chunk is such a write at the free end of a
  sib followed by the forwarding mark on the original.
\<close>

section \<open>The copy loop\<close>

lemma copy_up_add:
  "copy_up (n + k) src dst m = copy_up k (src + 4 * word_of_nat n) (dst + 4 * word_of_nat n) (copy_up n src dst m)"
  by (induction n arbitrary: src dst m) (simp_all add: algebra_simps)

lemma copy_fours_up: "copy_fours k src dst m = copy_up (4 * k) src dst m"
proof (induction k arbitrary: src dst m)
  case 0
  then show ?case by simp
next
  case (Suc k)
  have four: "4 * Suc k = Suc (Suc (Suc (Suc (4 * k))))" by simp
  show ?case unfolding four copy_fours.simps copy_up.simps Suc.IH Let_def by (simp add: add.assoc)
qed

lemma COPYLOOP_copy_up: "COPYLOOP src dst len m = copy_up len src dst m"
proof -
  have "len AND 3 = len mod 4" using nat_and_mask [of len 2] by (simp add: mask_eq_exp_minus_1)
  moreover have "len = len mod 4 + 4 * (len div 4)" by simp
  ultimately show ?thesis
    unfolding COPYLOOP_def Let_def copy_fours_up
    using copy_up_add [of "len mod 4" "4 * (len div 4)" src dst m] by (simp add: drop_bit_eq_div)
qed

definition words_from :: "(val \<Rightarrow> val) \<Rightarrow> val \<Rightarrow> nat \<Rightarrow> val list" where
  "words_from m p n = map (\<lambda>k. m (p + 4 * word_of_nat k)) [0..<n]"

lemma length_words_from [simp]: "length (words_from m p n) = n"
  by (simp add: words_from_def)

lemma nth_words_from [simp]: "k < n \<Longrightarrow> words_from m p n ! k = m (p + 4 * word_of_nat k)"
  by (simp add: words_from_def)

lemma set_words_from: "w \<in> set (words_from m p n) \<longleftrightarrow> (\<exists>k < n. w = m (p + 4 * word_of_nat k))"
  by (auto simp: words_from_def)

lemma words_from_Suc: "words_from m p (Suc n) = m p # words_from m (p + 4) n"
  by (rule nth_equalityI) (auto simp: nth_Cons algebra_simps split: nat.split)

lemma words_from_cong:
  "(\<And>k. k < n \<Longrightarrow> f (p + 4 * word_of_nat k) = g (p + 4 * word_of_nat k)) \<Longrightarrow> words_from f p n = words_from g p n"
  by (simp add: words_from_def)

lemma write_words_cong: "f a = g a \<Longrightarrow> write_words p ws f a = write_words p ws g a"
proof (induction ws arbitrary: p f g)
  case Nil
  then show ?case by simp
next
  case (Cons w ws)
  show ?case unfolding write_words.simps by (rule Cons.IH) (simp add: Cons.prems)
qed

lemma copy_up_writes:
  assumes "unat dst + 4 * n \<le> 2 ^ 32" and "unat src + 4 * n \<le> 2 ^ 32"
    and "unat src + 4 * n \<le> unat dst \<or> unat dst + 4 * n \<le> unat src"
  shows "copy_up n src dst m = write_words dst (words_from m src n) m"
  using assms
proof (induction n arbitrary: src dst m)
  case 0
  then show ?case by (simp add: words_from_def)
next
  case (Suc n)
  show ?case
  proof (cases n)
    case 0
    then show ?thesis by (simp add: words_from_def)
  next
    case (Suc k)
    then have lt: "unat dst + 4 * 1 < 2 ^ 32" "unat src + 4 * 1 < 2 ^ 32" using Suc.prems(1,2) by auto
    have up: "unat (dst + 4) = unat dst + 4" "unat (src + 4) = unat src + 4"
      using unat_slot_nat [OF lt(1)] unat_slot_nat [OF lt(2)] by simp_all
    have "words_from (m(dst := m src)) (src + 4) n = words_from m (src + 4) n"
    proof (rule words_from_cong)
      fix j
      assume "j < n"
      then have "unat (src + 4 + 4 * word_of_nat j) = unat src + 4 + 4 * j"
        using up(2) Suc.prems(2) by (subst unat_slot_nat) auto
      then have "src + 4 + 4 * word_of_nat j \<noteq> dst" using Suc.prems(3) \<open>j < n\<close> by auto
      then show "(m(dst := m src)) (src + 4 + 4 * word_of_nat j) = m (src + 4 + 4 * word_of_nat j)" by simp
    qed
    moreover have "copy_up n (src + 4) (dst + 4) (m(dst := m src)) =
        write_words (dst + 4) (words_from (m(dst := m src)) (src + 4) n) (m(dst := m src))"
      using Suc.prems up by (intro Suc.IH) auto
    ultimately show ?thesis by (simp add: words_from_Suc)
  qed
qed

section \<open>Alignment\<close>

lemma unat_or_4:
  assumes "unat (p :: val) mod 4 = 0"
  shows "unat (p OR 4) = unat p \<or> unat (p OR 4) = unat p + 4 \<and> p OR 4 = p + 4"
proof (cases "bit p 2")
  case True
  then have "bit (p OR 4) n \<longleftrightarrow> bit p n" for n unfolding bit_or_iff bit_four by auto
  then have "p OR 4 = p" by (rule bit_word_eqI)
  then show ?thesis by simp
next
  case False
  then have "bit (p AND 4) n \<longleftrightarrow> bit (0 :: val) n" for n unfolding bit_and_iff bit_four by auto
  then have z: "p AND 4 = 0" by (rule bit_word_eqI)
  then have e: "p OR 4 = p + 4" by (simp add: disjunctive_add_eq_or)
  have "\<not> bit (unat p) 2" using False by (simp add: bit_unsigned_iff)
  then have "unat p div 4 mod 2 = 0" by (simp add: bit_iff_odd even_iff_mod_2_eq_zero)
  moreover have "unat p < 4294967296" using unat_below [of p] by simp
  ultimately have "unat p + 4 < 4294967296" using assms by presburger
  then have "unat (p + 4) = unat p + 4" using unat_offset [of p 4] by simp
  then show ?thesis using e by simp
qed

lemma unat_or_4_mod_8:
  assumes "unat (p :: val) mod 4 = 0"
  shows "unat (p OR 4) mod 8 = 4"
proof -
  have "bit (p OR 4) 2" unfolding bit_or_iff bit_four by simp
  then have "bit (unat (p OR 4)) 2" by (simp only: bit_unsigned_iff) simp
  then have o: "unat (p OR 4) div 4 mod 2 = 1" by (simp add: bit_iff_odd odd_iff_mod_2_eq_one)
  moreover have "unat (p OR 4) mod 4 = 0" using unat_or_4 [OF assms] assms by (auto simp: mod_add_eq [symmetric])
  ultimately show ?thesis by presburger
qed

section \<open>Property\<close>

text \<open>
  C35. The unrolled copy loop, which takes one to three words first and then four at a time,
  copies every word of a block into a block apart from it, and changes nothing else.
\<close>

theorem copy_loop_copies_the_block:
  assumes "unat dst + 4 * len \<le> 2 ^ 32" and "unat src + 4 * len \<le> 2 ^ 32"
    and "unat src + 4 * len \<le> unat dst \<or> unat dst + 4 * len \<le> unat src"
  shows "(\<forall>k < len. COPYLOOP src dst len m (dst + 4 * word_of_nat k) = m (src + 4 * word_of_nat k)) \<and>
    (\<forall>a. unat a < unat dst \<or> unat dst + 4 * len \<le> unat a \<longrightarrow> COPYLOOP src dst len m a = m a)"
  unfolding COPYLOOP_copy_up copy_up_writes [OF assms]
  using write_words_in [of _ "words_from m src len" dst m] write_words_out [of _ dst "words_from m src len" m] assms(1) by simp

theorem copy_loop_copies_the_block_witness:
  "COPYLOOP 64 128 7 (\<lambda>a. a) 152 = 88 \<and> COPYLOOP 64 128 7 (\<lambda>a. a) 156 = 156"
proof -
  have d: "(\<forall>k < 7. COPYLOOP 64 128 7 (\<lambda>a. a) (128 + 4 * word_of_nat k) = 64 + 4 * word_of_nat k) \<and>
      (\<forall>a. unat a < unat (128 :: val) \<or> unat (128 :: val) + 4 * 7 \<le> unat a \<longrightarrow> COPYLOOP 64 128 7 (\<lambda>a. a) a = a)"
    by (rule copy_loop_copies_the_block) simp_all
  have "COPYLOOP 64 128 7 (\<lambda>a. a) 152 = 88" using d [THEN conjunct1, rule_format, of 6] by simp
  moreover from d have "unat (156 :: val) < unat (128 :: val) \<or> unat (128 :: val) + 4 * 7 \<le> unat (156 :: val) \<longrightarrow>
      COPYLOOP 64 128 7 (\<lambda>a. a) 156 = 156" by blast
  ultimately show ?thesis by simp
qed

end
