(* ===== verification/Minor_Invariant.thy ===== *)
theory Minor_Invariant
  imports Minor_Copying
begin

text \<open>
  The invariant of the minor heapcleaning. A setting fixes what a cleaning starts from: the
  memory, the chunks of agegroup 0, the addresses the cleaning starts at (roots, changed slots,
  words of agegroup 1 not swept yet) and the free parts of the four sibs. While the cleaning runs, ghost state records
  which chunk was copied where (\<open>fwd\<close>), which word of the original memory every address
  stands for (\<open>org\<close>), which addresses have been processed (\<open>dn\<close>) and which copied weak
  references wait for the end of the cleaning (\<open>ws\<close>).
\<close>

section \<open>Chunks\<close>

definition young :: "hugeheap \<Rightarrow> val \<Rightarrow> bool" where
  "young hh w \<longleftrightarrow> IS_POINTER w \<and> SIBID_FOR_POINTER (hh_books hh) w = AGEGROUP0_SIBID"

definition is_pair :: "val \<Rightarrow> bool" where
  "is_pair tw \<longleftrightarrow> GET_BTAG_FROM_TAGWORD tw = PAIRS_AND_RECORDS_BTAG \<and> GET_LENGTH_IN_WORDS_FROM_TAGWORD tw = 2"

definition is_weak :: "val \<Rightarrow> bool" where
  "is_weak tw \<longleftrightarrow> GET_BTAG_FROM_TAGWORD tw = WEAK_POINTER_OR_SUSPENSION_BTAG \<and>
     GET_LENGTH_IN_WORDS_FROM_TAGWORD tw = WEAK_POINTER_CTAG"

definition payload :: "val \<Rightarrow> nat" where
  "payload tw = (let b = GET_BTAG_FROM_TAGWORD tw
     in if b = RO_VECTOR_HEADER_BTAG \<or> b = RW_VECTOR_HEADER_BTAG then 2
        else if b = WEAK_POINTER_OR_SUSPENSION_BTAG then 1
        else GET_LENGTH_IN_WORDS_FROM_TAGWORD tw)"

definition home_sib :: "val \<Rightarrow> ilk" where
  "home_sib tw = (let b = GET_BTAG_FROM_TAGWORD tw
     in if is_pair tw then RO_CONSCELL_SIB
        else if b = RW_VECTOR_DATA_BTAG \<or> b = WEAK_POINTER_OR_SUSPENSION_BTAG then RW_POINTERS_SIB
        else if b = FOUR_BYTE_ALIGNED_NONPOINTER_DATA_BTAG \<or> b = EIGHT_BYTE_ALIGNED_NONPOINTER_DATA_BTAG then NONPTR_DATA_SIB
        else RO_POINTERS_SIB)"

definition copy_length :: "val \<Rightarrow> nat" where
  "copy_length tw = (if is_pair tw then 2 else payload tw + 1)"

definition copy_room :: "val \<Rightarrow> nat" where
  "copy_room tw = copy_length tw + (if GET_BTAG_FROM_TAGWORD tw = EIGHT_BYTE_ALIGNED_NONPOINTER_DATA_BTAG then 1 else 0)"

definition chunk_tag :: "val \<Rightarrow> bool" where
  "chunk_tag tw \<longleftrightarrow> IS_TAGWORD tw \<and> 0 < payload tw \<and>
     GET_BTAG_FROM_TAGWORD tw \<in> {PAIRS_AND_RECORDS_BTAG, RO_VECTOR_HEADER_BTAG, RW_VECTOR_HEADER_BTAG, RW_VECTOR_DATA_BTAG,
       FOUR_BYTE_ALIGNED_NONPOINTER_DATA_BTAG, EIGHT_BYTE_ALIGNED_NONPOINTER_DATA_BTAG, WEAK_POINTER_OR_SUSPENSION_BTAG} \<and>
     (GET_BTAG_FROM_TAGWORD tw = WEAK_POINTER_OR_SUSPENSION_BTAG \<longrightarrow>
        GET_LENGTH_IN_WORDS_FROM_TAGWORD tw \<in> {UNEVALUATED_LAZY_SUSPENSION_CTAG, EVALUATED_LAZY_SUSPENSION_CTAG, WEAK_POINTER_CTAG})"

text \<open>A chunk keeps what its slots point to alive, unless it holds plain data or is a weak reference.\<close>

definition strong :: "val \<Rightarrow> bool" where
  "strong tw \<longleftrightarrow> home_sib tw \<noteq> NONPTR_DATA_SIB \<and> \<not> is_weak tw"

section \<open>What a cleaning starts from\<close>

record setting =
  g_heap :: hugeheap
  g_words :: "val \<Rightarrow> val"
  g_chunks :: "val set"
  g_starts :: "val set"
  g_base :: "ilk \<Rightarrow> val"
  g_limit :: "ilk \<Rightarrow> val"

definition tag_of :: "setting \<Rightarrow> val \<Rightarrow> val" where
  "tag_of g v = g_words g (v - 4)"

definition slot_of :: "setting \<Rightarrow> val \<Rightarrow> nat \<Rightarrow> val" where
  "slot_of g v k = g_words g (v + 4 * word_of_nat k)"

definition in_chunk :: "setting \<Rightarrow> val \<Rightarrow> val \<Rightarrow> bool" where
  "in_chunk g v a \<longleftrightarrow> unat v \<le> unat a + 4 \<and> unat a < unat v + 4 * payload (tag_of g v)"

definition in_fromspace :: "setting \<Rightarrow> val \<Rightarrow> bool" where
  "in_fromspace g a \<longleftrightarrow> (\<exists>v \<in> g_chunks g. in_chunk g v a)"

definition in_tospace :: "setting \<Rightarrow> ilk \<Rightarrow> val \<Rightarrow> bool" where
  "in_tospace g i a \<longleftrightarrow> unat (g_base g i) \<le> unat a \<and> unat a < unat (g_limit g i)"

inductive live :: "setting \<Rightarrow> val \<Rightarrow> bool" for g where
  start: "a \<in> g_starts g \<Longrightarrow> young (g_heap g) (g_words g a) \<Longrightarrow> live g (g_words g a)"
| field: "live g v \<Longrightarrow> strong (tag_of g v) \<Longrightarrow> k < payload (tag_of g v) \<Longrightarrow> young (g_heap g) (slot_of g v k) \<Longrightarrow> live g (slot_of g v k)"

definition chunks_ok :: "setting \<Rightarrow> bool" where
  "chunks_ok g \<longleftrightarrow> finite (g_chunks g) \<and>
     (\<forall>v \<in> g_chunks g. young (g_heap g) v \<and> chunk_tag (tag_of g v) \<and> 4 \<le> unat v \<and> unat v + 4 * payload (tag_of g v) \<le> 2 ^ 32) \<and>
     (\<forall>u \<in> g_chunks g. \<forall>v \<in> g_chunks g. \<forall>a. in_chunk g u a \<longrightarrow> in_chunk g v a \<longrightarrow> u = v) \<and>
     (\<forall>v \<in> g_chunks g. home_sib (tag_of g v) \<noteq> NONPTR_DATA_SIB \<longrightarrow>
        (\<forall>k < payload (tag_of g v). young (g_heap g) (slot_of g v k) \<longrightarrow> slot_of g v k \<in> g_chunks g))"

definition starts_ok :: "setting \<Rightarrow> bool" where
  "starts_ok g \<longleftrightarrow> (\<forall>a \<in> g_starts g. \<not> in_fromspace g a \<and> (\<forall>i. \<not> in_tospace g i a) \<and>
     (young (g_heap g) (g_words g a) \<longrightarrow> g_words g a \<in> g_chunks g))"

definition tospaces_ok :: "setting \<Rightarrow> bool" where
  "tospaces_ok g \<longleftrightarrow> (\<forall>i. unat (g_base g i) mod 4 = 0 \<and> 0 < unat (g_base g i)) \<and>
     (\<forall>i j a. in_tospace g i a \<longrightarrow> in_tospace g j a \<longrightarrow> i = j) \<and>
     (\<forall>i a. in_tospace g i a \<longrightarrow> \<not> in_fromspace g a \<and>
        GET_AGE_FROM_SIBID (SIBID_FOR_POINTER (hh_books (g_heap g)) a) = 1 \<and>
        \<not> SIBID_KIND_IS_CODE (SIBID_FOR_POINTER (hh_books (g_heap g)) a))"

definition setting_ok :: "setting \<Rightarrow> bool" where
  "setting_ok g \<longleftrightarrow> chunks_ok g \<and> starts_ok g \<and> tospaces_ok g"

definition live_chunks :: "setting \<Rightarrow> val set" where
  "live_chunks g = {v. live g v}"

definition room_needed :: "setting \<Rightarrow> ilk \<Rightarrow> val set \<Rightarrow> nat" where
  "room_needed g i vs = (\<Sum>v \<in> {v \<in> vs. home_sib (tag_of g v) = i}. copy_room (tag_of g v))"

section \<open>The invariant\<close>

definition relocate :: "(val \<rightharpoonup> val) \<Rightarrow> val \<Rightarrow> val" where
  "relocate fwd w = (case fwd w of None \<Rightarrow> w | Some n \<Rightarrow> n)"

definition in_copy :: "setting \<Rightarrow> val \<Rightarrow> val \<Rightarrow> val \<Rightarrow> bool" where
  "in_copy g v n a \<longleftrightarrow> unat n \<le> unat a + (if is_pair (tag_of g v) then 0 else 4) \<and> unat a < unat n + 4 * payload (tag_of g v)"

definition in_used :: "setting \<Rightarrow> gc_state \<Rightarrow> ilk \<Rightarrow> val \<Rightarrow> bool" where
  "in_used g s i a \<longleftrightarrow> unat (g_base g i) \<le> unat a \<and> unat a < unat (free_of i s)"

definition inv_from :: "setting \<Rightarrow> gc_state \<Rightarrow> (val \<rightharpoonup> val) \<Rightarrow> bool" where
  "inv_from g s fwd \<longleftrightarrow> dom fwd \<subseteq> live_chunks g \<and>
     (\<forall>v \<in> g_chunks g. fwd v = None \<longrightarrow> (\<forall>a. in_chunk g v a \<longrightarrow> gc_words s a = g_words g a)) \<and>
     (\<forall>v n. fwd v = Some n \<longrightarrow> gc_words s (v - 4) = FORWARDED_CHUNK_TAGWORD \<and> gc_words s v = n)"

definition copy_placed :: "setting \<Rightarrow> gc_state \<Rightarrow> val \<Rightarrow> val \<Rightarrow> bool" where
  "copy_placed g s v n \<longleftrightarrow> unat n mod 4 = 0 \<and>
     (GET_BTAG_FROM_TAGWORD (tag_of g v) = EIGHT_BYTE_ALIGNED_NONPOINTER_DATA_BTAG \<longrightarrow> unat n mod 8 = 0) \<and>
     unat (g_base g (home_sib (tag_of g v))) + (if is_pair (tag_of g v) then 0 else 4) \<le> unat n \<and>
     unat n + 4 * payload (tag_of g v) \<le> unat (free_of (home_sib (tag_of g v)) s)"

definition copy_stands_for :: "setting \<Rightarrow> (val \<Rightarrow> val) \<Rightarrow> val \<Rightarrow> val \<Rightarrow> bool" where
  "copy_stands_for g org v n \<longleftrightarrow> (\<not> is_pair (tag_of g v) \<longrightarrow> org (n - 4) = tag_of g v) \<and>
     (\<forall>k < payload (tag_of g v). org (n + 4 * word_of_nat k) = slot_of g v k)"

definition inv_copies :: "setting \<Rightarrow> gc_state \<Rightarrow> (val \<rightharpoonup> val) \<Rightarrow> (val \<Rightarrow> val) \<Rightarrow> val list \<Rightarrow> bool" where
  "inv_copies g s fwd org ws \<longleftrightarrow>
     (\<forall>v n. fwd v = Some n \<longrightarrow> copy_placed g s v n \<and> (v \<notin> set ws \<longrightarrow> copy_stands_for g org v n)) \<and>
     (\<forall>u v m n a. fwd u = Some m \<longrightarrow> fwd v = Some n \<longrightarrow> in_copy g u m a \<longrightarrow> in_copy g v n a \<longrightarrow> u = v)"

definition inv_words :: "setting \<Rightarrow> gc_state \<Rightarrow> (val \<rightharpoonup> val) \<Rightarrow> (val \<Rightarrow> val) \<Rightarrow> val set \<Rightarrow> bool" where
  "inv_words g s fwd org dn \<longleftrightarrow>
     (\<forall>a. \<not> in_fromspace g a \<longrightarrow> gc_words s a = (if a \<in> dn then relocate fwd (org a) else org a)) \<and>
     (\<forall>a \<in> dn. young (g_heap g) (org a) \<longrightarrow> org a \<in> dom fwd) \<and>
     (\<forall>a. (\<forall>i. \<not> in_used g s i a) \<longrightarrow> org a = g_words g a)"

definition inv_space :: "setting \<Rightarrow> gc_state \<Rightarrow> (val \<rightharpoonup> val) \<Rightarrow> val set \<Rightarrow> bool" where
  "inv_space g s fwd dn \<longleftrightarrow>
     (\<forall>i. unat (free_of i s) mod 4 = 0 \<and> unat (g_base g i) \<le> unat (free_of i s) \<and>
        unat (free_of i s) + 4 * room_needed g i (live_chunks g - dom fwd) \<le> unat (g_limit g i)) \<and>
     (\<forall>a \<in> dn. a \<in> g_starts g \<or> (\<exists>i. i \<noteq> NONPTR_DATA_SIB \<and> in_used g s i a))"

definition inv_queue :: "setting \<Rightarrow> gc_state \<Rightarrow> (val \<Rightarrow> val) \<Rightarrow> bool" where
  "inv_queue g s org \<longleftrightarrow>
     (\<forall>i a. i \<noteq> NONPTR_DATA_SIB \<longrightarrow> in_used g s i a \<longrightarrow> unat a mod 4 = 0 \<longrightarrow> young (g_heap g) (org a) \<longrightarrow> live g (org a))"

definition weak_link :: "(val \<rightharpoonup> val) \<Rightarrow> val list \<Rightarrow> val" where
  "weak_link fwd ws = (case ws of [] \<Rightarrow> 0 | v # _ \<Rightarrow> the (fwd v) - 4)"

fun weak_chain :: "setting \<Rightarrow> (val \<rightharpoonup> val) \<Rightarrow> (val \<Rightarrow> val) \<Rightarrow> val list \<Rightarrow> bool" where
  "weak_chain g fwd org [] \<longleftrightarrow> True"
| "weak_chain g fwd org (v # ws) \<longleftrightarrow> v \<notin> set ws \<and> v \<in> dom fwd \<and> is_weak (tag_of g v) \<and> young (g_heap g) (slot_of g v 0) \<and>
     org (the (fwd v) - 4) = MARK_POINTER (weak_link fwd ws) \<and> org (the (fwd v)) = MARK_POINTER (slot_of g v 0) \<and>
     weak_chain g fwd org ws"

definition copying :: "setting \<Rightarrow> gc_state \<Rightarrow> (val \<rightharpoonup> val) \<Rightarrow> (val \<Rightarrow> val) \<Rightarrow> val set \<Rightarrow> val list \<Rightarrow> bool" where
  "copying g s fwd org dn ws \<longleftrightarrow> inv_from g s fwd \<and> inv_copies g s fwd org ws \<and> inv_words g s fwd org dn \<and>
     inv_space g s fwd dn \<and> inv_queue g s org \<and> weak_chain g fwd org ws \<and> weakrefs_forwarded s = weak_link fwd ws"

section \<open>Facts about chunks\<close>

lemma live_chunk:
  assumes "chunks_ok g" and "starts_ok g" and "live g v"
  shows "v \<in> g_chunks g"
  using assms(3)
proof induction
  case (start a)
  then show ?case using assms(2) by (auto simp: starts_ok_def)
next
  case (field v k)
  then show ?case using assms(1) by (auto simp: chunks_ok_def strong_def)
qed

lemma finite_live: "chunks_ok g \<Longrightarrow> starts_ok g \<Longrightarrow> finite (live_chunks g)"
  unfolding live_chunks_def using live_chunk by (metis (no_types, lifting) chunks_ok_def finite_subset mem_Collect_eq subsetI)

lemma chunkD:
  assumes "chunks_ok g" and "v \<in> g_chunks g"
  shows "young (g_heap g) v" "chunk_tag (tag_of g v)" "4 \<le> unat v" "unat v + 4 * payload (tag_of g v) \<le> 2 ^ 32"
    "unat v mod 4 = 0" "0 < payload (tag_of g v)" "unat (v - 4) = unat v - 4" "in_chunk g v v" "in_chunk g v (v - 4)"
proof -
  show y: "young (g_heap g) v" and t: "chunk_tag (tag_of g v)" and f: "4 \<le> unat v" and "unat v + 4 * payload (tag_of g v) \<le> 2 ^ 32"
    using assms by (auto simp: chunks_ok_def)
  show "unat v mod 4 = 0" using y by (simp add: young_def IS_POINTER_iff)
  show p: "0 < payload (tag_of g v)" using t by (simp add: chunk_tag_def)
  show m: "unat (v - 4) = unat v - 4" using f by (simp add: unat_sub word_le_nat_alt)
  show "in_chunk g v v" "in_chunk g v (v - 4)" using m p f by (simp_all add: in_chunk_def)
qed

lemma slot_in_chunk:
  assumes "chunks_ok g" and "v \<in> g_chunks g" and "k < payload (tag_of g v)"
  shows "unat (v + 4 * word_of_nat k) = unat v + 4 * k" "in_chunk g v (v + 4 * word_of_nat k)"
proof -
  show "unat (v + 4 * word_of_nat k) = unat v + 4 * k"
    using chunkD(4) [OF assms(1,2)] assms(3) by (intro unat_slot_nat) auto
  then show "in_chunk g v (v + 4 * word_of_nat k)" using assms(3) by (simp add: in_chunk_def)
qed

lemma tagword_not_young [simp]: "IS_TAGWORD w \<Longrightarrow> \<not> young hh w"
  unfolding young_def IS_TAGWORD_iff IS_POINTER_iff by simp

lemma marked_not_young [simp]: "\<not> young hh (MARK_POINTER w)"
  using MARK_POINTER_tagged [of w] unfolding young_def IS_TAGGED_INT_iff IS_POINTER_iff by presburger

lemma FORWARDED_not_chunk_tag: "\<not> chunk_tag FORWARDED_CHUNK_TAGWORD"
proof -
  have "GET_BTAG_FROM_TAGWORD FORWARDED_CHUNK_TAGWORD = FORWARDED_CHUNK_BTAG"
    unfolding FORWARDED_CHUNK_TAGWORD_def by (rule GET_BTAG_MAKE_TAGWORD) simp_all
  then show ?thesis by (simp add: chunk_tag_def btag_defs)
qed

end
