(* ===== verification/Minor_Forwarding.thy ===== *)
theory Minor_Forwarding
  imports Minor_Invariant
begin

text \<open>
  Placing a copy keeps the invariant. \<open>placed\<close> says what the three ways of copying a chunk have
  in common: words written at the free end of the chunk's sib, and the forwarding mark.
\<close>

section \<open>A copy at the free end of its sib\<close>

definition placed :: "setting \<Rightarrow> gc_state \<Rightarrow> val \<Rightarrow> val \<Rightarrow> val list \<Rightarrow> val \<Rightarrow> gc_state \<Rightarrow> bool" where
  "placed g s v q cs n s' \<longleftrightarrow> (let i = home_sib (tag_of g v) in
     unat (free_of i s) \<le> unat q \<and> unat q mod 4 = 0 \<and> (i \<noteq> NONPTR_DATA_SIB \<longrightarrow> q = free_of i s) \<and>
     unat q + 4 * length cs \<le> unat (free_of i s) + 4 * copy_room (tag_of g v) \<and>
     length cs = copy_length (tag_of g v) \<and> n = (if is_pair (tag_of g v) then q else q + 4) \<and>
     gc_words s' = (write_words q cs (gc_words s))(v - 4 := FORWARDED_CHUNK_TAGWORD, v := n) \<and>
     free_of i s' = q + 4 * word_of_nat (length cs) \<and> (\<forall>j. j \<noteq> i \<longrightarrow> free_of j s' = free_of j s) \<and>
     (\<forall>j. swept_end (gc_sibs s' j) = swept_end (gc_sibs s j)) \<and>
     (GET_BTAG_FROM_TAGWORD (tag_of g v) = EIGHT_BYTE_ALIGNED_NONPOINTER_DATA_BTAG \<longrightarrow> unat q mod 8 = 4))"

lemma room_needed_take:
  assumes "finite vs" and "v \<in> vs"
  shows "room_needed g i vs = room_needed g i (vs - {v}) + (if home_sib (tag_of g v) = i then copy_room (tag_of g v) else 0)"
proof (cases "home_sib (tag_of g v) = i")
  case True
  have "{u \<in> vs. home_sib (tag_of g u) = i} = insert v {u \<in> vs - {v}. home_sib (tag_of g u) = i}" using True assms(2) by auto
  then show ?thesis using True assms(1) by (simp add: room_needed_def)
next
  case False
  then have "{u \<in> vs. home_sib (tag_of g u) = i} = {u \<in> vs - {v}. home_sib (tag_of g u) = i}" by auto
  then show ?thesis using False by (simp add: room_needed_def)
qed

lemma room_left:
  assumes "setting_ok g" and "inv_space g s fwd dn" and "live g v" and "fwd v = None"
  shows "unat (free_of (home_sib (tag_of g v)) s) + 4 * copy_room (tag_of g v) \<le> unat (g_limit g (home_sib (tag_of g v)))"
proof -
  have "finite (live_chunks g - dom fwd)" using assms(1) finite_live by (simp add: setting_ok_def)
  moreover have "v \<in> live_chunks g - dom fwd" using assms(3,4) by (auto simp: live_chunks_def)
  ultimately have "room_needed g (home_sib (tag_of g v)) (live_chunks g - dom fwd) \<ge> copy_room (tag_of g v)"
    by (simp add: room_needed_take)
  moreover have "unat (free_of (home_sib (tag_of g v)) s) + 4 * room_needed g (home_sib (tag_of g v)) (live_chunks g - dom fwd)
      \<le> unat (g_limit g (home_sib (tag_of g v)))"
    using assms(2) by (simp add: inv_space_def)
  ultimately show ?thesis by linarith
qed

text \<open>The numbers of a placement: where the copy lies, and which addresses it takes.\<close>

lemma placed_range:
  assumes ok: "setting_ok g" and inv: "copying g s fwd org dn ws" and v: "live g v" "fwd v = None" and p: "placed g s v q cs n s'"
  defines "i \<equiv> home_sib (tag_of g v)"
  shows "unat (free_of i s) \<le> unat q" "unat q + 4 * length cs \<le> unat (g_limit g i)" "unat (g_base g i) \<le> unat (free_of i s)"
    "unat (free_of i s') = unat q + 4 * length cs" "in_copy g v n a \<longleftrightarrow> unat q \<le> unat a \<and> unat a < unat q + 4 * length cs"
    "unat n = unat q + (if is_pair (tag_of g v) then 0 else 4)" "unat q mod 4 = 0" "unat n mod 4 = 0"
    "unat n + 4 * payload (tag_of g v) = unat q + 4 * length cs" "unat (free_of i s') mod 4 = 0"
    "GET_BTAG_FROM_TAGWORD (tag_of g v) = EIGHT_BYTE_ALIGNED_NONPOINTER_DATA_BTAG \<Longrightarrow> unat n mod 8 = 0"
proof -
  have sp: "inv_space g s fwd dn" using inv by (simp add: copying_def)
  have len: "length cs = copy_length (tag_of g v)" and n: "n = (if is_pair (tag_of g v) then q else q + 4)"
    and fr: "free_of i s' = q + 4 * word_of_nat (length cs)"
    and q2: "unat q + 4 * length cs \<le> unat (free_of i s) + 4 * copy_room (tag_of g v)"
    using p by (simp_all add: placed_def Let_def i_def)
  show "unat (free_of i s) \<le> unat q" and q4: "unat q mod 4 = 0" using p by (simp_all add: placed_def Let_def i_def)
  show "unat (g_base g i) \<le> unat (free_of i s)" using sp by (simp add: inv_space_def)
  show lim: "unat q + 4 * length cs \<le> unat (g_limit g i)" using q2 room_left [OF ok sp v] by (simp add: i_def)
  then have lt: "unat q + 4 * length cs < 2 ^ 32" using unat_below [of "g_limit g i"] by linarith
  then show f': "unat (free_of i s') = unat q + 4 * length cs" using fr unat_slot_nat by simp
  then show "unat (free_of i s') mod 4 = 0" using q4 by simp
  have pay: "is_pair (tag_of g v) \<Longrightarrow> payload (tag_of g v) = 2"
    by (simp add: is_pair_def payload_def Let_def btag_defs)
  have "0 < length cs" using len by (simp add: copy_length_def)
  then have "unat q + 4 * 1 < 2 ^ 32" using lt by linarith
  then have "unat (q + 4) = unat q + 4" using unat_slot_nat [of q 1] by simp
  then show un: "unat n = unat q + (if is_pair (tag_of g v) then 0 else 4)" using n by simp
  then show "unat n mod 4 = 0" using q4 by simp
  show "unat n mod 8 = 0" if b: "GET_BTAG_FROM_TAGWORD (tag_of g v) = EIGHT_BYTE_ALIGNED_NONPOINTER_DATA_BTAG"
  proof -
    have "unat q mod 8 = 4" using p b by (simp add: placed_def Let_def)
    moreover have "\<not> is_pair (tag_of g v)" using b by (simp add: is_pair_def btag_defs)
    then have "unat n = unat q + 4" using un by simp
    ultimately show ?thesis by presburger
  qed
  show e: "unat n + 4 * payload (tag_of g v) = unat q + 4 * length cs"
    using un len pay by (simp add: copy_length_def)
  show "in_copy g v n a \<longleftrightarrow> unat q \<le> unat a \<and> unat a < unat q + 4 * length cs"
    unfolding in_copy_def e using un by auto
qed

lemma tospace_fromspace: "setting_ok g \<Longrightarrow> in_tospace g i a \<Longrightarrow> \<not> in_fromspace g a"
  by (auto simp: setting_ok_def tospaces_ok_def)

lemma tospace_unique: "setting_ok g \<Longrightarrow> in_tospace g i a \<Longrightarrow> in_tospace g j a \<Longrightarrow> i = j"
  unfolding setting_ok_def tospaces_ok_def by blast

lemma used_in_tospace:
  assumes "inv_space g s fwd dn" and "in_used g s i a"
  shows "in_tospace g i a"
proof -
  have "unat (free_of i s) + 4 * room_needed g i (live_chunks g - dom fwd) \<le> unat (g_limit g i)"
    using assms(1) by (simp add: inv_space_def)
  then show ?thesis using assms(2) by (simp add: in_used_def in_tospace_def)
qed

lemma placed_words:
  assumes ok: "setting_ok g" and inv: "copying g s fwd org dn ws" and v: "live g v" "fwd v = None" and p: "placed g s v q cs n s'"
  shows "in_fromspace g a \<Longrightarrow> a \<noteq> v \<Longrightarrow> a \<noteq> v - 4 \<Longrightarrow> gc_words s' a = gc_words s a"
    and "\<not> in_fromspace g a \<Longrightarrow> gc_words s' a = write_words q cs (gc_words s) a"
    and "gc_words s' v = n" and "gc_words s' (v - 4) = FORWARDED_CHUNK_TAGWORD"
    and "unat a < unat q \<or> unat q + 4 * length cs \<le> unat a \<Longrightarrow> write_words q cs f a = f a"
proof -
  note r = placed_range [OF assms]
  have ck: "chunks_ok g" "starts_ok g" using ok by (simp_all add: setting_ok_def)
  have vc: "v \<in> g_chunks g" by (rule live_chunk [OF ck v(1)])
  have m: "gc_words s' = (write_words q cs (gc_words s))(v - 4 := FORWARDED_CHUNK_TAGWORD, v := n)"
    using p by (simp add: placed_def Let_def)
  have out: "write_words q cs f a = f a" if "unat a < unat q \<or> unat q + 4 * length cs \<le> unat a" for f a
    using that r(2) unat_below [of "g_limit g (home_sib (tag_of g v))"] by (intro write_words_out) linarith+
  then show "unat a < unat q \<or> unat q + 4 * length cs \<le> unat a \<Longrightarrow> write_words q cs f a = f a" .
  have vf: "in_fromspace g v" "in_fromspace g (v - 4)" using chunkD(8,9) [OF ck(1) vc] vc by (auto simp: in_fromspace_def)
  show "gc_words s' v = n" "gc_words s' (v - 4) = FORWARDED_CHUNK_TAGWORD" using m by simp_all
  show "gc_words s' a = write_words q cs (gc_words s) a" if "\<not> in_fromspace g a"
    using that vf m by auto
  show "gc_words s' a = gc_words s a" if "in_fromspace g a" "a \<noteq> v" "a \<noteq> v - 4"
  proof -
    have "\<not> in_tospace g (home_sib (tag_of g v)) a" using that(1) tospace_fromspace [OF ok] by blast
    then have "unat a < unat q \<or> unat q + 4 * length cs \<le> unat a" using r(1,2,3) by (auto simp: in_tospace_def)
    then show ?thesis using m that(2,3) out by simp
  qed
qed

lemma placed_used:
  assumes ok: "setting_ok g" and inv: "copying g s fwd org dn ws" and v: "live g v" "fwd v = None" and p: "placed g s v q cs n s'"
  shows "in_used g s j a \<Longrightarrow> in_used g s' j a" and "unat (free_of j s) \<le> unat (free_of j s')"
    and "in_used g s j a \<Longrightarrow> unat a < unat q \<or> unat q + 4 * length cs \<le> unat a"
proof -
  note r = placed_range [OF assms]
  let ?i = "home_sib (tag_of g v)"
  have "j \<noteq> ?i \<Longrightarrow> free_of j s' = free_of j s" using p by (simp add: placed_def Let_def)
  then show mono: "unat (free_of j s) \<le> unat (free_of j s')" using r(1,4) by (cases "j = ?i") auto
  then show "in_used g s j a \<Longrightarrow> in_used g s' j a" by (auto simp: in_used_def)
  show "unat a < unat q \<or> unat q + 4 * length cs \<le> unat a" if u: "in_used g s j a"
  proof (cases "j = ?i")
    case True
    then show ?thesis using u r(1) by (auto simp: in_used_def)
  next
    case False
    have "inv_space g s fwd dn" using inv by (simp add: copying_def)
    then have "in_tospace g j a" using u by (rule used_in_tospace)
    then have "\<not> in_tospace g ?i a" using tospace_unique [OF ok] False by blast
    then show ?thesis using r(1,2,3) by (auto simp: in_tospace_def)
  qed
qed

text \<open>Apart from the chunk and the free ends of the sibs memory is as before.\<close>

definition words_kept :: "setting \<Rightarrow> gc_state \<Rightarrow> gc_state \<Rightarrow> bool" where
  "words_kept g s s' \<longleftrightarrow> (\<forall>a. \<not> in_fromspace g a \<longrightarrow> (\<forall>i. in_tospace g i a \<longrightarrow> in_used g s i a) \<longrightarrow> gc_words s' a = gc_words s a)"

lemma placed_keeps:
  assumes ok: "setting_ok g" and inv: "copying g s fwd org dn ws" and v: "live g v" "fwd v = None" and p: "placed g s v q cs n s'"
  shows "words_kept g s s'"
  unfolding words_kept_def
proof (intro allI impI)
  fix a
  assume a: "\<not> in_fromspace g a" and u: "\<forall>i. in_tospace g i a \<longrightarrow> in_used g s i a"
  note r = placed_range [OF ok inv v p]
  have "unat a < unat q \<or> unat q + 4 * length cs \<le> unat a"
  proof (cases "in_tospace g (home_sib (tag_of g v)) a")
    case True
    then show ?thesis using u placed_used(3) [OF ok inv v p] by blast
  next
    case False
    then show ?thesis using r(1,2,3) by (auto simp: in_tospace_def)
  qed
  then show "gc_words s' a = gc_words s a" using placed_words(2,5) [OF ok inv v p] a by simp
qed

section \<open>The parts of the invariant after a placement\<close>

lemma placed_inv_from:
  assumes ok: "setting_ok g" and inv: "copying g s fwd org dn ws" and v: "live g v" "fwd v = None" and p: "placed g s v q cs n s'"
  shows "inv_from g s' (fwd(v \<mapsto> n))"
proof -
  note w = placed_words [OF assms]
  have ck: "chunks_ok g" "starts_ok g" using ok by (simp_all add: setting_ok_def)
  have fr: "inv_from g s fwd" using inv by (simp add: copying_def)
  have vc: "v \<in> g_chunks g" by (rule live_chunk [OF ck v(1)])
  have same: "gc_words s' a = gc_words s a" if "u \<in> g_chunks g" "u \<noteq> v" "in_chunk g u a" for u a
  proof (rule w(1))
    show "in_fromspace g a" using that(1,3) by (auto simp: in_fromspace_def)
    show "a \<noteq> v" "a \<noteq> v - 4" using that chunkD(8,9) [OF ck(1) vc] vc ck(1) unfolding chunks_ok_def by blast+
  qed
  show ?thesis unfolding inv_from_def
  proof (intro conjI allI ballI impI)
    show "dom (fwd(v \<mapsto> n)) \<subseteq> live_chunks g" using fr v(1) by (auto simp: inv_from_def live_chunks_def)
  next
    fix u a
    assume "u \<in> g_chunks g" "(fwd(v \<mapsto> n)) u = None" "in_chunk g u a"
    then show "gc_words s' a = g_words g a" using same [of u a] fr by (auto simp: inv_from_def split: if_splits)
  next
    fix u k
    assume f: "(fwd(v \<mapsto> n)) u = Some k"
    have "gc_words s' (u - 4) = FORWARDED_CHUNK_TAGWORD \<and> gc_words s' u = k"
    proof (cases "u = v")
      case True
      then show ?thesis using f w(3,4) by simp
    next
      case False
      then have fu: "fwd u = Some k" using f by simp
      then have "u \<in> g_chunks g" using fr live_chunk [OF ck] by (auto simp: inv_from_def live_chunks_def)
      then show ?thesis using same [OF _ False] chunkD(8,9) [OF ck(1)] fr fu by (simp add: inv_from_def)
    qed
    then show "gc_words s' (u - 4) = FORWARDED_CHUNK_TAGWORD" "gc_words s' u = k" by simp_all
  qed
qed

lemma placed_inv_words:
  assumes ok: "setting_ok g" and inv: "copying g s fwd org dn ws" and v: "live g v" "fwd v = None" and p: "placed g s v q cs n s'"
  shows "inv_words g s' (fwd(v \<mapsto> n)) (write_words q cs org) dn"
proof -
  note w = placed_words [OF assms]
  note u = placed_used [OF assms]
  note r = placed_range [OF assms]
  have iw: "inv_words g s fwd org dn" and sp: "inv_space g s fwd dn" using inv by (simp_all add: copying_def)
  have dn: "write_words q cs f a = f a" if d: "a \<in> dn" for a and f :: "val \<Rightarrow> val"
  proof (rule w(5))
    consider "a \<in> g_starts g" | i where "in_used g s i a" using sp d unfolding inv_space_def by blast
    then show "unat a < unat q \<or> unat q + 4 * length cs \<le> unat a"
    proof cases
      case 1
      then have "\<not> in_tospace g (home_sib (tag_of g v)) a" using ok by (auto simp: setting_ok_def starts_ok_def)
      then show ?thesis using r(1,2,3) by (auto simp: in_tospace_def)
    next
      case 2
      then show ?thesis by (rule u(3))
    qed
  qed
  show ?thesis unfolding inv_words_def
  proof (intro conjI allI ballI impI)
    fix a
    assume nf: "\<not> in_fromspace g a"
    have m: "gc_words s a = (if a \<in> dn then relocate fwd (org a) else org a)" using iw nf by (simp add: inv_words_def)
    show "gc_words s' a = (if a \<in> dn then relocate (fwd(v \<mapsto> n)) (write_words q cs org a) else write_words q cs org a)"
    proof (cases "a \<in> dn")
      case True
      have "v = org a \<Longrightarrow> young (g_heap g) (org a)"
        using chunkD(1) [of g v] live_chunk [of g v] ok v(1) by (auto simp: setting_ok_def)
      then have "org a \<noteq> v" using iw True v(2) unfolding inv_words_def by blast
      then show ?thesis using w(2) [OF nf] dn [OF True] m True by (simp add: relocate_def)
    next
      case False
      then have "gc_words s a = org a" using m by simp
      then have "write_words q cs (gc_words s) a = write_words q cs org a" by (rule write_words_cong)
      then show ?thesis using w(2) [OF nf] False by simp
    qed
  next
    fix a
    assume "a \<in> dn" "young (g_heap g) (write_words q cs org a)"
    then show "write_words q cs org a \<in> dom (fwd(v \<mapsto> n))" using dn iw by (simp add: inv_words_def)
  next
    fix a
    assume nu: "\<forall>i. \<not> in_used g s' i a"
    then have "\<forall>i. \<not> in_used g s i a" using u(1) by blast
    moreover have "unat a < unat q \<or> unat q + 4 * length cs \<le> unat a"
      using nu [rule_format, of "home_sib (tag_of g v)"] r(1,3,4) unfolding in_used_def by linarith
    ultimately show "write_words q cs org a = g_words g a" using iw w(5) by (simp add: inv_words_def)
  qed
qed

lemma placed_inv_space:
  assumes ok: "setting_ok g" and inv: "copying g s fwd org dn ws" and v: "live g v" "fwd v = None" and p: "placed g s v q cs n s'"
  shows "inv_space g s' (fwd(v \<mapsto> n)) dn"
proof -
  note u = placed_used [OF assms]
  note r = placed_range [OF assms]
  have sp: "inv_space g s fwd dn" using inv by (simp add: copying_def)
  have fin: "finite (live_chunks g - dom fwd)" using ok finite_live by (simp add: setting_ok_def)
  have less: "live_chunks g - dom fwd - {v} = live_chunks g - dom (fwd(v \<mapsto> n))" by auto
  have "v \<in> live_chunks g - dom fwd" using v by (auto simp: live_chunks_def)
  note take = room_needed_take [OF fin this, unfolded less]
  have room: "room_needed g j (live_chunks g - dom fwd) = room_needed g j (live_chunks g - dom (fwd(v \<mapsto> n))) +
      (if home_sib (tag_of g v) = j then copy_room (tag_of g v) else 0)" for j
    by (rule take)
  have q2: "unat q + 4 * length cs \<le> unat (free_of (home_sib (tag_of g v)) s) + 4 * copy_room (tag_of g v)"
    and other: "j \<noteq> home_sib (tag_of g v) \<Longrightarrow> free_of j s' = free_of j s" for j
    using p by (simp_all add: placed_def Let_def)
  show ?thesis unfolding inv_space_def
  proof (intro conjI allI ballI)
    fix j
    have old: "unat (free_of j s) mod 4 = 0" "unat (g_base g j) \<le> unat (free_of j s)"
      "unat (free_of j s) + 4 * room_needed g j (live_chunks g - dom fwd) \<le> unat (g_limit g j)"
      using sp by (simp_all add: inv_space_def)
    show "unat (free_of j s') mod 4 = 0" using old(1) other r(10) by (cases "j = home_sib (tag_of g v)") auto
    show "unat (g_base g j) \<le> unat (free_of j s')" using old(2) u(2) [of j] by linarith
    show "unat (free_of j s') + 4 * room_needed g j (live_chunks g - dom (fwd(v \<mapsto> n))) \<le> unat (g_limit g j)"
    proof (cases "j = home_sib (tag_of g v)")
      case True
      then show ?thesis using old(3) room [of j] r(4) q2 by simp
    next
      case False
      then show ?thesis using old(3) room [of j] other by simp
    qed
  next
    fix a
    assume "a \<in> dn"
    then show "a \<in> g_starts g \<or> (\<exists>i. i \<noteq> NONPTR_DATA_SIB \<and> in_used g s' i a)" using sp u(1) unfolding inv_space_def by blast
  qed
qed

lemma old_copy_words:
  assumes ok: "setting_ok g" and inv: "copying g s fwd org dn ws" and v: "live g v" "fwd v = None" and p: "placed g s v q cs n s'"
    and u: "fwd u = Some m"
  shows "\<not> is_pair (tag_of g u) \<Longrightarrow> write_words q cs org (m - 4) = org (m - 4)"
    and "k < payload (tag_of g u) \<Longrightarrow> write_words q cs org (m + 4 * word_of_nat k) = org (m + 4 * word_of_nat k)"
    and "copy_placed g s u m"
proof -
  note w = placed_words(5) [OF ok inv v p]
  note us = placed_used(3) [OF ok inv v p]
  show pl: "copy_placed g s u m" using inv u by (simp add: copying_def inv_copies_def)
  show "write_words q cs org (m - 4) = org (m - 4)" if np: "\<not> is_pair (tag_of g u)"
  proof (rule w, rule us)
    have "unat (m - 4) = unat m - 4" using pl np by (simp add: copy_placed_def unat_sub word_le_nat_alt)
    then show "in_used g s (home_sib (tag_of g u)) (m - 4)"
      using pl np live_chunk [of g u] u unfolding in_used_def copy_placed_def by auto
  qed
  show "write_words q cs org (m + 4 * word_of_nat k) = org (m + 4 * word_of_nat k)" if k: "k < payload (tag_of g u)"
  proof (rule w, rule us)
    have "unat m + 4 * k < 2 ^ 32"
      using pl k unat_below [of "free_of (home_sib (tag_of g u)) s"] unfolding copy_placed_def by linarith
    then have "unat (m + 4 * word_of_nat k) = unat m + 4 * k" by (rule unat_slot_nat)
    then show "in_used g s (home_sib (tag_of g u)) (m + 4 * word_of_nat k)"
      using pl k unfolding in_used_def copy_placed_def by auto
  qed
qed

lemma placed_inv_copies:
  assumes ok: "setting_ok g" and inv: "copying g s fwd org dn ws" and v: "live g v" "fwd v = None" and p: "placed g s v q cs n s'"
    and new: "v \<notin> set ws' \<Longrightarrow> copy_stands_for g (write_words q cs org) v n" and ws: "set ws \<subseteq> set ws'" "set ws' \<subseteq> insert v (set ws)"
  shows "inv_copies g s' (fwd(v \<mapsto> n)) (write_words q cs org) ws'"
proof -
  note us = placed_used [OF ok inv v p]
  note r = placed_range [OF ok inv v p]
  note old = old_copy_words [OF ok inv v p]
  have ic: "inv_copies g s fwd org ws" using inv by (simp add: copying_def)
  have apart: "False" if "fwd u = Some m" "in_copy g u m a" "in_copy g v n a" for u m a
  proof -
    have "copy_placed g s u m" by (rule old(3) [OF that(1)])
    then have "in_used g s (home_sib (tag_of g u)) a"
      using that(2) unfolding in_used_def copy_placed_def in_copy_def by (auto split: if_splits)
    from us(3) [OF this] show False using that(3) r(5) by auto
  qed
  show ?thesis unfolding inv_copies_def
  proof (intro conjI allI impI)
    fix u m
    assume f: "(fwd(v \<mapsto> n)) u = Some m"
    show "copy_placed g s' u m"
    proof (cases "u = v")
      case True
      then show ?thesis using f r unfolding copy_placed_def by auto
    next
      case False
      then have "copy_placed g s u m" using f old(3) by simp
      then show ?thesis using us(2) [of "home_sib (tag_of g u)"] unfolding copy_placed_def by linarith
    qed
    show "copy_stands_for g (write_words q cs org) u m" if nw: "u \<notin> set ws'"
    proof (cases "u = v")
      case True
      then show ?thesis using f new nw by auto
    next
      case False
      then have fu: "fwd u = Some m" using f by simp
      moreover have "u \<notin> set ws" using nw ws by blast
      ultimately have "copy_stands_for g org u m" using ic by (simp add: inv_copies_def)
      then show ?thesis using old(1,2) [OF fu] by (simp add: copy_stands_for_def)
    qed
  next
    fix u x m k a
    assume "(fwd(v \<mapsto> n)) u = Some m" "(fwd(v \<mapsto> n)) x = Some k" "in_copy g u m a" "in_copy g x k a"
    then show "u = x" using apart ic unfolding inv_copies_def by (auto split: if_splits)
  qed
qed

lemma placed_inv_queue:
  assumes ok: "setting_ok g" and inv: "copying g s fwd org dn ws" and v: "live g v" "fwd v = None" and p: "placed g s v q cs n s'"
    and new: "\<And>w. home_sib (tag_of g v) \<noteq> NONPTR_DATA_SIB \<Longrightarrow> w \<in> set cs \<Longrightarrow> young (g_heap g) w \<Longrightarrow> live g w"
  shows "inv_queue g s' (write_words q cs org)"
proof -
  note us = placed_used [OF ok inv v p]
  note r = placed_range [OF ok inv v p]
  have iq: "inv_queue g s org" using inv by (simp add: copying_def)
  show ?thesis unfolding inv_queue_def
  proof (intro allI impI)
    fix i a
    assume i: "i \<noteq> NONPTR_DATA_SIB" and a: "in_used g s' i a" and al: "unat a mod 4 = 0"
      and y: "young (g_heap g) (write_words q cs org a)"
    show "live g (write_words q cs org a)"
    proof (cases "in_used g s i a")
      case True
      then have "write_words q cs org a = org a" by (intro placed_words(5) [OF ok inv v p] us(3))
      then show ?thesis using iq i True al y by (simp add: inv_queue_def)
    next
      case False
      have ih: "i = home_sib (tag_of g v)"
      proof (rule ccontr)
        assume "i \<noteq> home_sib (tag_of g v)"
        then have "free_of i s' = free_of i s" using p by (simp add: placed_def Let_def)
        then show False using a False by (simp add: in_used_def)
      qed
      then have "q = free_of i s" using p i by (simp add: placed_def Let_def)
      then have rng: "unat q \<le> unat a" "unat a < unat q + 4 * length cs" using a False r(4) ih by (auto simp: in_used_def)
      define k where "k = (unat a - unat q) div 4"
      have ak: "unat a = unat q + 4 * k" "k < length cs" using rng al r(7) unfolding k_def by presburger+
      have lt: "unat q + 4 * length cs \<le> 2 ^ 32" using r(2) unat_below [of "g_limit g (home_sib (tag_of g v))"] by linarith
      then have "unat (q + 4 * word_of_nat k) = unat a" using ak by (subst unat_slot_nat) auto
      then have "a = q + 4 * word_of_nat k" by (simp add: word_unat_eq_iff)
      then have "write_words q cs org a = cs ! k" using write_words_in [OF ak(2) lt] by simp
      then show ?thesis using new y ak(2) i ih nth_mem by metis
    qed
  qed
qed

lemma placed_weak_chain:
  assumes ok: "setting_ok g" and inv: "copying g s fwd org dn ws" and v: "live g v" "fwd v = None" and p: "placed g s v q cs n s'"
  shows "weak_chain g (fwd(v \<mapsto> n)) (write_words q cs org) ws" and "weak_link (fwd(v \<mapsto> n)) ws = weak_link fwd ws" and "v \<notin> set ws"
proof -
  note old = old_copy_words [OF ok inv v p]
  have ch: "weak_chain g fwd org ws" using inv by (simp add: copying_def)
  have nv: "v \<notin> set us" if "weak_chain g fwd org us" for us using that v(2) by (induction us) auto
  have link: "weak_link (fwd(v \<mapsto> n)) us = weak_link fwd us" if "v \<notin> set us" for us
    using that by (cases us) (auto simp: weak_link_def)
  show "v \<notin> set ws" by (rule nv [OF ch])
  then show "weak_link (fwd(v \<mapsto> n)) ws = weak_link fwd ws" by (rule link)
  show "weak_chain g (fwd(v \<mapsto> n)) (write_words q cs org) ws"
    using ch
  proof (induction ws)
    case Nil
    then show ?case by simp
  next
    case (Cons u us)
    then obtain m where m: "fwd u = Some m" by auto
    have np: "\<not> is_pair (tag_of g u)" "0 < payload (tag_of g u)"
      using Cons.prems by (auto simp: is_weak_def is_pair_def payload_def btag_defs)
    have "u \<noteq> v" using m v(2) by auto
    moreover have "v \<notin> set us" by (rule nv) (use Cons.prems in simp)
    ultimately have "(fwd(v \<mapsto> n)) u = Some m" "weak_link (fwd(v \<mapsto> n)) us = weak_link fwd us" using m link by auto
    then show ?case using Cons m old(1) [OF m np(1)] old(2) [OF m np(2)] by (simp add: domIff del: fun_upd_apply)
  qed
qed

section \<open>The whole invariant after a placement\<close>

lemma placed_copying:
  assumes ok: "setting_ok g" and inv: "copying g s fwd org dn ws" and v: "live g v" "fwd v = None" and p: "placed g s v q cs n s'"
    and same: "weakrefs_forwarded s' = weakrefs_forwarded s"
    and new: "copy_stands_for g (write_words q cs org) v n"
    and young: "\<And>w. home_sib (tag_of g v) \<noteq> NONPTR_DATA_SIB \<Longrightarrow> w \<in> set cs \<Longrightarrow> young (g_heap g) w \<Longrightarrow> live g w"
  shows "copying g s' (fwd(v \<mapsto> n)) (write_words q cs org) dn ws"
proof -
  have "weakrefs_forwarded s = weak_link fwd ws" using inv by (simp add: copying_def)
  then show ?thesis
    unfolding copying_def using same placed_inv_from [OF ok inv v p] placed_inv_copies [OF ok inv v p, of ws] new
      placed_inv_words [OF ok inv v p] placed_inv_space [OF ok inv v p] placed_inv_queue [OF ok inv v p young]
      placed_weak_chain [OF ok inv v p] by auto
qed

lemma placed_weakref:
  assumes ok: "setting_ok g" and inv: "copying g s fwd org dn ws" and v: "live g v" "fwd v = None"
    and p: "placed g s v q [MARK_POINTER (weakrefs_forwarded s), MARK_POINTER (slot_of g v 0)] n s'"
    and link: "weakrefs_forwarded s' = q" and weak: "is_weak (tag_of g v)" "young (g_heap g) (slot_of g v 0)"
  shows "copying g s' (fwd(v \<mapsto> n)) (write_words q [MARK_POINTER (weakrefs_forwarded s), MARK_POINTER (slot_of g v 0)] org) dn (v # ws)"
proof -
  let ?cs = "[MARK_POINTER (weakrefs_forwarded s), MARK_POINTER (slot_of g v 0)]"
  note r = placed_range [OF ok inv v p]
  note ch = placed_weak_chain [OF ok inv v p]
  have np: "\<not> is_pair (tag_of g v)" using weak(1) by (simp add: is_weak_def is_pair_def btag_defs)
  then have n: "n = q + 4" using p by (simp add: placed_def Let_def)
  have lt: "unat q + 4 * length ?cs \<le> 2 ^ 32" using r(2) unat_below [of "g_limit g (home_sib (tag_of g v))"] by linarith
  have c: "write_words q ?cs org q = ?cs ! 0" "write_words q ?cs org (q + 4) = ?cs ! 1"
    using write_words_in [OF _ lt, of 0 org] write_words_in [OF _ lt, of 1 org] by simp_all
  have wk: "weakrefs_forwarded s = weak_link fwd ws" using inv by (simp add: copying_def)
  have "weak_chain g (fwd(v \<mapsto> n)) (write_words q ?cs org) (v # ws)"
    using ch weak c n wk by simp
  moreover have "weakrefs_forwarded s' = weak_link (fwd(v \<mapsto> n)) (v # ws)" using link n by (simp add: weak_link_def)
  moreover have "inv_copies g s' (fwd(v \<mapsto> n)) (write_words q ?cs org) (v # ws)"
    by (rule placed_inv_copies [OF ok inv v p]) auto
  moreover have "inv_queue g s' (write_words q ?cs org)" by (rule placed_inv_queue [OF ok inv v p]) auto
  ultimately show ?thesis
    unfolding copying_def using placed_inv_from [OF ok inv v p] placed_inv_words [OF ok inv v p] placed_inv_space [OF ok inv v p] by blast
qed

end
