(* ===== verification/Minor_Forwarding_Facts.thy ===== *)
theory Minor_Forwarding_Facts
  imports Minor_Forwarding
begin

text \<open>
  Forwarding one chunk, by each of its ways, keeps the invariant and gives the chunk a copy;
  forwarding it again changes nothing and gives the same copy.
\<close>

section \<open>What forwarding leaves alone\<close>

definition onward :: "gc_state \<Rightarrow> (val \<rightharpoonup> val) \<Rightarrow> gc_state \<Rightarrow> (val \<rightharpoonup> val) \<Rightarrow> bool" where
  "onward s fwd s' fwd' \<longleftrightarrow> fwd \<subseteq>\<^sub>m fwd' \<and> (\<forall>i. swept_end (gc_sibs s' i) = swept_end (gc_sibs s i)) \<and>
     (\<forall>i. unat (free_of i s) \<le> unat (free_of i s')) \<and> (dom fwd' = dom fwd \<longrightarrow> (\<forall>i. free_of i s' = free_of i s)) \<and>
     heap_changelog s' = heap_changelog s"

lemma onward_refl [simp]: "onward s fwd s fwd"
  by (simp add: onward_def)

lemma onward_trans:
  assumes "onward s f s' f'" and "onward s' f' s'' f''"
  shows "onward s f s'' f''"
proof -
  have sub: "f \<subseteq>\<^sub>m f'" "f' \<subseteq>\<^sub>m f''" using assms by (simp_all add: onward_def)
  have "dom f \<subseteq> dom f'" "dom f' \<subseteq> dom f''" using sub by (simp_all add: map_le_implies_dom_le)
  then have "dom f'' = dom f \<Longrightarrow> dom f' = dom f \<and> dom f'' = dom f'" by blast
  then show ?thesis
    using assms map_le_trans [OF sub] order_trans unfolding onward_def by (metis (no_types, lifting))
qed

definition forwarded_to :: "setting \<Rightarrow> gc_state \<Rightarrow> (val \<rightharpoonup> val) \<Rightarrow> val set \<Rightarrow> val \<Rightarrow> gc_state \<Rightarrow> val \<Rightarrow> bool" where
  "forwarded_to g s fwd dn v s' n \<longleftrightarrow>
     (\<exists>fwd' org' ws'. copying g s' fwd' org' dn ws' \<and> fwd' v = Some n \<and> onward s fwd s' fwd') \<and>
     cardmaps s' = cardmaps s \<and> words_kept g s s'"

section \<open>Unforwarded chunks\<close>

lemma unforwarded_words:
  assumes ok: "setting_ok g" and inv: "copying g s fwd org dn ws" and v: "v \<in> g_chunks g" "fwd v = None"
  shows "gc_words s (v - 4) = tag_of g v" and "k < payload (tag_of g v) \<Longrightarrow> gc_words s (v + 4 * word_of_nat k) = slot_of g v k"
proof -
  have fr: "inv_from g s fwd" and ck: "chunks_ok g" using ok inv by (simp_all add: copying_def setting_ok_def)
  then have same: "in_chunk g v a \<Longrightarrow> gc_words s a = g_words g a" for a using v by (auto simp: inv_from_def)
  show "gc_words s (v - 4) = tag_of g v" using same [OF chunkD(9) [OF ck v(1)]] by (simp add: tag_of_def)
  show "gc_words s (v + 4 * word_of_nat k) = slot_of g v k" if "k < payload (tag_of g v)"
    using same [OF slot_in_chunk(2) [OF ck v(1) that]] by (simp add: slot_of_def)
qed

lemma forwarded_mark:
  assumes ok: "setting_ok g" and inv: "copying g s fwd org dn ws" and v: "v \<in> g_chunks g"
  shows "gc_words s (v - 4) = FORWARDED_CHUNK_TAGWORD \<longleftrightarrow> v \<in> dom fwd"
proof (cases "fwd v")
  case None
  have "chunk_tag (tag_of g v)" using ok v by (intro chunkD(2)) (simp_all add: setting_ok_def)
  then have "gc_words s (v - 4) \<noteq> FORWARDED_CHUNK_TAGWORD"
    using unforwarded_words(1) [OF ok inv v None] FORWARDED_not_chunk_tag by auto
  then show ?thesis using None by auto
next
  case (Some n)
  then show ?thesis using inv by (auto simp: copying_def inv_from_def)
qed

text \<open>A chunk of agegroup 0 and a part of agegroup 1 are apart.\<close>

lemma chunk_apart:
  fixes q :: val
  assumes ok: "setting_ok g" and v: "v \<in> g_chunks g"
    and q: "unat (g_base g i) \<le> unat q" "0 < n" "unat q + 4 * n \<le> unat (g_limit g i)"
  shows "unat v + 4 * payload (tag_of g v) \<le> unat q \<or> unat q + 4 * n \<le> unat v - 4"
proof -
  have ck: "chunks_ok g" using ok by (simp add: setting_ok_def)
  note c = chunkD [OF ck v]
  have "in_tospace g i q" using q by (simp add: in_tospace_def)
  then have "\<not> in_fromspace g q" by (rule tospace_fromspace [OF ok])
  then have "\<not> in_chunk g v q" using v by (auto simp: in_fromspace_def)
  moreover have "in_fromspace g (v - 4)" using c(9) v by (auto simp: in_fromspace_def)
  then have "\<not> in_tospace g i (v - 4)" using tospace_fromspace [OF ok] by blast
  ultimately show ?thesis using q c(3,7) unfolding in_chunk_def in_tospace_def by linarith
qed

section \<open>The generic copy\<close>

lemma copy_chunk_result:
  fixes tw :: val
  assumes "unat v + 4 * len \<le> 2 ^ 32" and "unat q + 4 * (len + 1) \<le> 2 ^ 32" and "free_of i s = q"
    and "unat v + 4 * len \<le> unat q \<or> unat q + 4 * (len + 1) \<le> unat v"
  defines "r \<equiv> copy_chunk i len v tw s"
  shows "snd r = q + 4"
    and "gc_words (fst r) = (write_words q (tw # words_from (gc_words s) v len) (gc_words s))(v - 4 := FORWARDED_CHUNK_TAGWORD, v := q + 4)"
    and "free_of i (fst r) = q + 4 * word_of_nat (len + 1)" and "j \<noteq> i \<Longrightarrow> free_of j (fst r) = free_of j s"
    and "swept_end (gc_sibs (fst r) j) = swept_end (gc_sibs s j)" and "weakrefs_forwarded (fst r) = weakrefs_forwarded s"
    and "cardmaps (fst r) = cardmaps s" and "heap_changelog (fst r) = heap_changelog s"
proof -
  note defs = r_def copy_chunk_def note_forwarding_def store_def set_free_def free_of_def Let_def
  show "snd r = q + 4" "free_of i (fst r) = q + 4 * word_of_nat (len + 1)" using assms(3) by (simp_all add: defs)
  show "j \<noteq> i \<Longrightarrow> free_of j (fst r) = free_of j s" "swept_end (gc_sibs (fst r) j) = swept_end (gc_sibs s j)"
    "weakrefs_forwarded (fst r) = weakrefs_forwarded s" "cardmaps (fst r) = cardmaps s" "heap_changelog (fst r) = heap_changelog s"
    by (simp_all add: defs)
  have "COPYLOOP v (q + 4) len ((gc_words s)(q := tw)) = write_words (q + 4) (words_from (gc_words s) v len) ((gc_words s)(q := tw))"
  proof (cases "len = 0")
    case True
    then show ?thesis by (simp add: COPYLOOP_copy_up words_from_def)
  next
    case False
    then have "unat q + 4 * 1 < 2 ^ 32" using assms(2) by (cases len) auto
    then have q4: "unat (q + 4) = unat q + 4" using unat_slot_nat [of q 1] by simp
    have "words_from ((gc_words s)(q := tw)) v len = words_from (gc_words s) v len"
    proof (rule words_from_cong)
      fix k
      assume k: "k < len"
      then have "unat (v + 4 * word_of_nat k) = unat v + 4 * k" using assms(1) by (subst unat_slot_nat) auto
      then have "v + 4 * word_of_nat k \<noteq> q" using assms(4) k by auto
      then show "((gc_words s)(q := tw)) (v + 4 * word_of_nat k) = gc_words s (v + 4 * word_of_nat k)" by simp
    qed
    moreover have "COPYLOOP v (q + 4) len ((gc_words s)(q := tw)) =
        write_words (q + 4) (words_from ((gc_words s)(q := tw)) v len) ((gc_words s)(q := tw))"
      unfolding COPYLOOP_copy_up by (rule copy_up_writes) (use assms q4 in auto)
    ultimately show ?thesis by simp
  qed
  then show "gc_words (fst r) =
      (write_words q (tw # words_from (gc_words s) v len) (gc_words s))(v - 4 := FORWARDED_CHUNK_TAGWORD, v := q + 4)"
    using assms(3) by (simp add: defs)
qed

lemma placed_onward:
  assumes ok: "setting_ok g" and inv: "copying g s fwd org dn ws" and v: "live g v" "fwd v = None" and p: "placed g s v q cs n s'"
    and "heap_changelog s' = heap_changelog s"
  shows "onward s fwd s' (fwd(v \<mapsto> n))"
proof -
  have "v \<in> dom (fwd(v \<mapsto> n))" "v \<notin> dom fwd" using v(2) by auto
  then have "dom (fwd(v \<mapsto> n)) \<noteq> dom fwd" by blast
  moreover have "fwd \<subseteq>\<^sub>m fwd(v \<mapsto> n)" using v(2) by (auto simp: map_le_def)
  moreover have "\<forall>i. swept_end (gc_sibs s' i) = swept_end (gc_sibs s i)" using p by (simp add: placed_def Let_def)
  ultimately show ?thesis unfolding onward_def using assms(6) placed_used(2) [OF ok inv v p] by blast
qed

text \<open>The words of the copy, for the two layouts.\<close>

lemma copy_stands:
  assumes lt: "unat q + 4 * (payload (tag_of g v) + 1) \<le> 2 ^ 32"
  shows "copy_stands_for g (write_words q (tag_of g v # map (slot_of g v) [0..<payload (tag_of g v)]) f) v (q + 4)"
proof -
  let ?cs = "tag_of g v # map (slot_of g v) [0..<payload (tag_of g v)]"
  have c: "k < length ?cs \<Longrightarrow> write_words q ?cs f (q + 4 * word_of_nat k) = ?cs ! k" for k
    using lt by (intro write_words_in) auto
  have "write_words q ?cs f (q + 4 + 4 * word_of_nat k) = slot_of g v k" if "k < payload (tag_of g v)" for k
    using c [of "Suc k"] that by (simp add: add.assoc)
  moreover have "write_words q ?cs f q = tag_of g v" using c [of 0] by simp
  ultimately show ?thesis by (simp add: copy_stands_for_def)
qed

lemma copy_chunk_ok:
  assumes ok: "setting_ok g" and inv: "copying g s fwd org dn ws" and v: "live g v" "fwd v = None"
    and tw: "\<not> is_pair (tag_of g v)" "home_sib (tag_of g v) = i" "payload (tag_of g v) = len" "\<not> is_weak (tag_of g v)"
    and al: "s1 = s \<and> GET_BTAG_FROM_TAGWORD (tag_of g v) \<noteq> EIGHT_BYTE_ALIGNED_NONPOINTER_DATA_BTAG \<or>
      s1 = align_sib_for_float64 s \<and> GET_BTAG_FROM_TAGWORD (tag_of g v) = EIGHT_BYTE_ALIGNED_NONPOINTER_DATA_BTAG"
  shows "\<exists>s' n. copy_chunk i len v (tag_of g v) s1 = (s', n) \<and> forwarded_to g s fwd dn v s' n"
proof -
  have ck: "chunks_ok g" "starts_ok g" and sp: "inv_space g s fwd dn" using ok inv by (simp_all add: setting_ok_def copying_def)
  have vc: "v \<in> g_chunks g" by (rule live_chunk [OF ck v(1)])
  have fr: "unat (free_of i s) mod 4 = 0" "unat (g_base g i) \<le> unat (free_of i s)"
    "unat (free_of i s) + 4 * copy_room (tag_of g v) \<le> unat (g_limit g i)"
    using sp room_left [OF ok sp v] tw(2) by (auto simp: inv_space_def)
  define q where "q = free_of i s1"
  have al8: "GET_BTAG_FROM_TAGWORD (tag_of g v) = EIGHT_BYTE_ALIGNED_NONPOINTER_DATA_BTAG \<Longrightarrow> i = NONPTR_DATA_SIB"
    using tw(1,2) by (auto simp: home_sib_def Let_def btag_defs)
  have q: "unat (free_of i s) \<le> unat q" "unat q mod 4 = 0" "i \<noteq> NONPTR_DATA_SIB \<Longrightarrow> q = free_of i s"
    "unat q + 4 * (len + 1) \<le> unat (free_of i s) + 4 * copy_room (tag_of g v)"
    "GET_BTAG_FROM_TAGWORD (tag_of g v) = EIGHT_BYTE_ALIGNED_NONPOINTER_DATA_BTAG \<Longrightarrow> unat q mod 8 = 4"
    and s1: "gc_words s1 = gc_words s" "\<And>j. j \<noteq> i \<Longrightarrow> free_of j s1 = free_of j s" "\<And>j. swept_end (gc_sibs s1 j) = swept_end (gc_sibs s j)"
      "weakrefs_forwarded s1 = weakrefs_forwarded s" "cardmaps s1 = cardmaps s" "heap_changelog s1 = heap_changelog s"
    using al al8 fr unat_or_4 [OF fr(1)] unat_or_4_mod_8 [OF fr(1)] tw
    by (auto simp: q_def copy_room_def copy_length_def align_sib_for_float64_def set_free_def free_of_def WORD_BYTESIZE_def)
  have lim: "unat q + 4 * (len + 1) \<le> unat (g_limit g i)" using q(4) fr(3) by linarith
  then have lt: "unat q + 4 * (len + 1) \<le> 2 ^ 32" using unat_below [of "g_limit g i"] by linarith
  have apart: "unat v + 4 * len \<le> unat q \<or> unat q + 4 * (len + 1) \<le> unat v"
    using chunk_apart [OF ok vc _ _ lim] q(1) fr(2) tw(3) by fastforce
  have vlt: "unat v + 4 * len \<le> 2 ^ 32" using chunkD(4) [OF ck(1) vc] tw(3) by simp
  obtain s' n where r: "copy_chunk i len v (tag_of g v) s1 = (s', n)" by force
  note res = copy_chunk_result [OF vlt lt q_def [symmetric] apart, where tw = "tag_of g v", unfolded r, simplified]
  let ?cs = "tag_of g v # map (slot_of g v) [0..<payload (tag_of g v)]"
  have "words_from (gc_words s) v len = map (slot_of g v) [0..<payload (tag_of g v)]"
    unfolding words_from_def tw(3) using unforwarded_words(2) [OF ok inv vc v(2)] tw(3) by simp
  then have words: "gc_words s' = (write_words q ?cs (gc_words s))(v - 4 := FORWARDED_CHUNK_TAGWORD, v := q + 4)"
    using res(2) s1(1) by simp
  have p: "placed g s v q ?cs n s'"
    unfolding placed_def Let_def tw(2) using q words res(1,3,4,5) s1 tw by (simp add: copy_length_def)
  have young: "live g w" if "home_sib (tag_of g v) \<noteq> NONPTR_DATA_SIB" "w \<in> set ?cs" "young (g_heap g) w" for w
  proof -
    have "strong (tag_of g v)" using that(1) tw(4) by (simp add: strong_def)
    moreover have "w \<noteq> tag_of g v" using that(3) chunkD(2) [OF ck(1) vc] by (auto simp: chunk_tag_def)
    ultimately show ?thesis using that(2,3) live.field [OF v(1)] by auto
  qed
  have "copying g s' (fwd(v \<mapsto> n)) (write_words q ?cs org) dn ws"
    by (rule placed_copying [OF ok inv v p _ _ young]) (use res(1,6) s1(4) copy_stands lt tw(3) in auto)
  moreover have "onward s fwd s' (fwd(v \<mapsto> n))" by (rule placed_onward [OF ok inv v p]) (use res(8) s1(6) in simp)
  moreover have "(fwd(v \<mapsto> n)) v = Some n" by simp
  moreover have "cardmaps s' = cardmaps s" using res(7) s1(5) by simp
  ultimately have "forwarded_to g s fwd dn v s' n" unfolding forwarded_to_def using placed_keeps [OF ok inv v p] by blast
  with r show ?thesis by blast
qed

section \<open>Pairs\<close>

lemma write_two_words:
  fixes q :: val
  assumes "unat q + 8 \<le> 2 ^ 32"
  shows "write_words q [x, y] m = m(q := x, q + 4 := y)" and "q + 4 \<noteq> q" and "unat (q + 4) = unat q + 4"
  using assms unat_slot_nat [of q 1] by (auto simp: word_unat_eq_iff)

lemma forward_pair_ok:
  assumes ok: "setting_ok g" and inv: "copying g s fwd org dn ws" and v: "live g v" "fwd v = None" and tw: "is_pair (tag_of g v)"
  shows "\<exists>s' n. forward_pair v s = (s', n) \<and> forwarded_to g s fwd dn v s' n"
proof -
  have ck: "chunks_ok g" "starts_ok g" and sp: "inv_space g s fwd dn" using ok inv by (simp_all add: setting_ok_def copying_def)
  have vc: "v \<in> g_chunks g" by (rule live_chunk [OF ck v(1)])
  have home: "home_sib (tag_of g v) = RO_CONSCELL_SIB" "payload (tag_of g v) = 2" "copy_length (tag_of g v) = 2" "copy_room (tag_of g v) = 2"
    using tw by (simp_all add: home_sib_def Let_def copy_length_def copy_room_def payload_def is_pair_def btag_defs)
  define q where "q = free_of RO_CONSCELL_SIB s"
  have fr: "unat q mod 4 = 0" "unat (g_base g RO_CONSCELL_SIB) \<le> unat q" "unat q + 4 * 2 \<le> unat (g_limit g RO_CONSCELL_SIB)"
    using sp room_left [OF ok sp v] home by (auto simp: inv_space_def q_def)
  then have lt: "unat q + 8 \<le> 2 ^ 32" using unat_below [of "g_limit g RO_CONSCELL_SIB"] by linarith
  note two = write_two_words [OF lt]
  have old: "gc_words s v = slot_of g v 0" "gc_words s (v + 4) = slot_of g v 1"
    using unforwarded_words(2) [OF ok inv vc v(2), of 0] unforwarded_words(2) [OF ok inv vc v(2), of 1] home(2) by simp_all
  have "unat (v + 4) = unat v + 4" using slot_in_chunk(1) [OF ck(1) vc, of 1] home(2) by simp
  then have "v + 4 \<noteq> q" using chunk_apart [OF ok vc fr(2) _ fr(3)] home(2) by auto
  then have res: "forward_pair v s = (note_forwarding v q (s\<lparr>
      gc_sibs := (gc_sibs s)(RO_CONSCELL_SIB := (gc_sibs s RO_CONSCELL_SIB)\<lparr>sib_tospace := (sib_tospace (gc_sibs s RO_CONSCELL_SIB))\<lparr>first_free := q + 8\<rparr>\<rparr>),
      gc_words := (gc_words s)(q := slot_of g v 0, q + 4 := slot_of g v 1)\<rparr>), q)"
    (is "_ = (?s', q)")
    using old by (simp add: forward_pair_def Let_def q_def set_free_def store_def)
  let ?cs = "[slot_of g v 0, slot_of g v 1]"
  have words: "gc_words ?s' = (write_words q ?cs (gc_words s))(v - 4 := FORWARDED_CHUNK_TAGWORD, v := q)"
    unfolding two(1) by (simp add: note_forwarding_def store_def)
  have p: "placed g s v q ?cs q ?s'"
    unfolding placed_def Let_def words home using fr(1) tw home by (simp add: note_forwarding_def store_def free_of_def q_def is_pair_def btag_defs)
  have strong: "strong (tag_of g v)" using tw home(1) by (simp add: strong_def is_weak_def is_pair_def btag_defs)
  have young: "live g w" if "w \<in> set ?cs" "young (g_heap g) w" for w
    using that live.field [OF v(1) strong, of 0] live.field [OF v(1) strong, of 1] home(2) by auto
  have stands: "copy_stands_for g (write_words q ?cs org) v q"
    unfolding copy_stands_for_def two(1) using tw home(2) two(2) by (auto simp: less_2_cases_iff)
  have "copying g ?s' (fwd(v \<mapsto> q)) (write_words q ?cs org) dn ws"
    by (rule placed_copying [OF ok inv v p _ stands young]) (simp_all add: note_forwarding_def store_def)
  moreover have "onward s fwd ?s' (fwd(v \<mapsto> q))"
    by (rule placed_onward [OF ok inv v p]) (simp add: note_forwarding_def store_def)
  moreover have "(fwd(v \<mapsto> q)) v = Some q" by simp
  moreover have "cardmaps ?s' = cardmaps s" by (simp add: note_forwarding_def store_def)
  ultimately have "forwarded_to g s fwd dn v ?s' q" unfolding forwarded_to_def using placed_keeps [OF ok inv v p] by blast
  with res show ?thesis by blast
qed

section \<open>Suspensions and weak references\<close>

text \<open>What all branches of \<open>forward_special_chunk\<close> have in common: two words at the free end.\<close>

definition special_copy :: "val \<Rightarrow> val list \<Rightarrow> val \<Rightarrow> gc_state \<Rightarrow> gc_state" where
  "special_copy v cs link s = note_forwarding v (free_of RW_POINTERS_SIB s + 4)
     (s\<lparr>gc_sibs := (gc_sibs s)(RW_POINTERS_SIB := (gc_sibs s RW_POINTERS_SIB)\<lparr>sib_tospace := (sib_tospace (gc_sibs s RW_POINTERS_SIB))\<lparr>first_free := free_of RW_POINTERS_SIB s + 8\<rparr>\<rparr>),
        gc_words := (gc_words s)(free_of RW_POINTERS_SIB s := cs ! 0, free_of RW_POINTERS_SIB s + 4 := cs ! 1),
        weakrefs_forwarded := link\<rparr>)"

lemma special_home:
  assumes "GET_BTAG_FROM_TAGWORD tw = WEAK_POINTER_OR_SUSPENSION_BTAG"
  shows "home_sib tw = RW_POINTERS_SIB" "payload tw = 1" "copy_length tw = 2" "copy_room tw = 2" "\<not> is_pair tw"
  using assms by (simp_all add: home_sib_def Let_def copy_length_def copy_room_def payload_def is_pair_def btag_defs)

lemma special_placed:
  assumes ok: "setting_ok g" and inv: "copying g s fwd org dn ws" and v: "live g v" "fwd v = None"
    and tw: "GET_BTAG_FROM_TAGWORD (tag_of g v) = WEAK_POINTER_OR_SUSPENSION_BTAG" and cs: "length cs = 2"
  defines "q \<equiv> free_of RW_POINTERS_SIB s"
  shows "placed g s v q cs (q + 4) (special_copy v cs link s)" and "unat q + 8 \<le> 2 ^ 32" and "v \<noteq> q" and "v \<noteq> q + 4"
proof -
  note home = special_home [OF tw]
  have ck: "chunks_ok g" "starts_ok g" and sp: "inv_space g s fwd dn" using ok inv by (simp_all add: setting_ok_def copying_def)
  have vc: "v \<in> g_chunks g" by (rule live_chunk [OF ck v(1)])
  have fr: "unat q mod 4 = 0" "unat (g_base g RW_POINTERS_SIB) \<le> unat q" "unat q + 4 * 2 \<le> unat (g_limit g RW_POINTERS_SIB)"
    using sp room_left [OF ok sp v] home by (auto simp: inv_space_def q_def)
  then show lt: "unat q + 8 \<le> 2 ^ 32" using unat_below [of "g_limit g RW_POINTERS_SIB"] by linarith
  note two = write_two_words [OF lt]
  obtain x y where xy: "cs = [x, y]" using cs by (auto simp: numeral_2_eq_2 length_Suc_conv)
  have words: "gc_words (special_copy v cs link s) = (write_words q cs (gc_words s))(v - 4 := FORWARDED_CHUNK_TAGWORD, v := q + 4)"
    unfolding xy two(1) by (simp add: special_copy_def note_forwarding_def store_def q_def)
  show "placed g s v q cs (q + 4) (special_copy v cs link s)"
    unfolding placed_def Let_def words home using fr(1) home cs tw
    by (simp add: special_copy_def note_forwarding_def store_def free_of_def q_def btag_defs)
  show "v \<noteq> q" "v \<noteq> q + 4" using chunk_apart [OF ok vc fr(2) _ fr(3)] two(3) home(2) by auto
qed

lemma special_onward:
  assumes ok: "setting_ok g" and inv: "copying g s fwd org dn ws" and v: "live g v" "fwd v = None"
    and tw: "GET_BTAG_FROM_TAGWORD (tag_of g v) = WEAK_POINTER_OR_SUSPENSION_BTAG" and cs: "length cs = 2"
    and c: "copying g (special_copy v cs link s) (fwd(v \<mapsto> free_of RW_POINTERS_SIB s + 4)) org' dn ws'"
  shows "forwarded_to g s fwd dn v (special_copy v cs link s) (free_of RW_POINTERS_SIB s + 4)"
proof -
  have "onward s fwd (special_copy v cs link s) (fwd(v \<mapsto> free_of RW_POINTERS_SIB s + 4))"
    by (rule placed_onward [OF ok inv v special_placed(1) [OF ok inv v tw cs]]) (simp add: special_copy_def note_forwarding_def store_def)
  moreover have "(fwd(v \<mapsto> free_of RW_POINTERS_SIB s + 4)) v = Some (free_of RW_POINTERS_SIB s + 4)" by simp
  moreover have "cardmaps (special_copy v cs link s) = cardmaps s" by (simp add: special_copy_def note_forwarding_def store_def)
  ultimately show ?thesis
    unfolding forwarded_to_def using c placed_keeps [OF ok inv v special_placed(1) [OF ok inv v tw cs]] by blast
qed

text \<open>A plain copy of the two words, when the slot holds nothing that keeps no chunk alive.\<close>

lemma special_plain:
  assumes ok: "setting_ok g" and inv: "copying g s fwd org dn ws" and v: "live g v" "fwd v = None"
    and tw: "GET_BTAG_FROM_TAGWORD (tag_of g v) = WEAK_POINTER_OR_SUSPENSION_BTAG"
    and slot: "young (g_heap g) (slot_of g v 0) \<Longrightarrow> live g (slot_of g v 0)"
  shows "forwarded_to g s fwd dn v (special_copy v [tag_of g v, slot_of g v 0] (weakrefs_forwarded s) s) (free_of RW_POINTERS_SIB s + 4)"
proof -
  let ?q = "free_of RW_POINTERS_SIB s"
  let ?cs = "[tag_of g v, slot_of g v 0]"
  have ck: "chunks_ok g" "starts_ok g" using ok by (simp_all add: setting_ok_def)
  have t: "IS_TAGWORD (tag_of g v)" using chunkD(2) [OF ck(1) live_chunk [OF ck v(1)]] by (simp add: chunk_tag_def)
  have len: "length ?cs = 2" by simp
  note p = special_placed [OF ok inv v tw len]
  have stands: "copy_stands_for g (write_words ?q ?cs org) v (?q + 4)"
    using copy_stands [of ?q g v org] special_home [OF tw] p(2) by simp
  have "copying g (special_copy v ?cs (weakrefs_forwarded s) s) (fwd(v \<mapsto> ?q + 4)) (write_words ?q ?cs org) dn ws"
    by (rule placed_copying [OF ok inv v p(1) _ stands]) (use t slot in \<open>auto simp: special_copy_def note_forwarding_def store_def\<close>)
  then show ?thesis by (rule special_onward [OF ok inv v tw len])
qed

lemma special_deferred:
  assumes ok: "setting_ok g" and inv: "copying g s fwd org dn ws" and v: "live g v" "fwd v = None"
    and weak: "is_weak (tag_of g v)" "young (g_heap g) (slot_of g v 0)"
  shows "forwarded_to g s fwd dn v (special_copy v [MARK_POINTER (weakrefs_forwarded s), MARK_POINTER (slot_of g v 0)] (free_of RW_POINTERS_SIB s) s)
    (free_of RW_POINTERS_SIB s + 4)"
proof -
  have tw: "GET_BTAG_FROM_TAGWORD (tag_of g v) = WEAK_POINTER_OR_SUSPENSION_BTAG" using weak(1) by (simp add: is_weak_def)
  have len: "length [MARK_POINTER (weakrefs_forwarded s), MARK_POINTER (slot_of g v 0)] = 2" by simp
  note p = special_placed(1) [OF ok inv v tw len]
  show ?thesis
    by (rule special_onward [OF ok inv v tw len placed_weakref [OF ok inv v p _ weak]])
      (simp add: special_copy_def note_forwarding_def store_def)
qed

lemma tagword_eq:
  assumes "IS_TAGWORD tw" and "GET_LENGTH_IN_WORDS_FROM_TAGWORD tw < 2 ^ 25"
  shows "tw = MAKE_TAGWORD (GET_LENGTH_IN_WORDS_FROM_TAGWORD tw) (GET_BTAG_FROM_TAGWORD tw)"
proof -
  have "GET_BTAG_FROM_TAGWORD tw < 32" by (simp add: GET_BTAG_eq)
  then have "unat (MAKE_TAGWORD (GET_LENGTH_IN_WORDS_FROM_TAGWORD tw) (GET_BTAG_FROM_TAGWORD tw)) =
      GET_LENGTH_IN_WORDS_FROM_TAGWORD tw * 128 + GET_BTAG_FROM_TAGWORD tw * 4 + 2"
    using assms(2) by (rule unat_MAKE_TAGWORD [rotated])
  also have "\<dots> = unat tw"
  proof -
    have "unat tw div 128 = unat tw div 4 div 32" by (simp flip: div_mult2_eq)
    moreover have "unat tw mod 4 = 2" using assms(1) by (simp add: IS_TAGWORD_iff)
    ultimately show ?thesis
      unfolding GET_LENGTH_eq GET_BTAG_eq
      using div_mult_mod_eq [of "unat tw div 4" 32] div_mult_mod_eq [of "unat tw" 4] by linarith
  qed
  finally show ?thesis by (simp add: word_unat_eq_iff)
qed

lemma weak_tagword:
  assumes "is_weak tw" and "IS_TAGWORD tw"
  shows "tw = WEAKREF_TAGWORD"
  using tagword_eq [OF assms(2)] assms(1) by (simp add: is_weak_def WEAKREF_TAGWORD_def ctag_defs)

lemma forward_special_ok:
  assumes ok: "setting_ok g" and inv: "copying g s fwd org dn ws" and v: "live g v" "fwd v = None"
    and tw: "GET_BTAG_FROM_TAGWORD (tag_of g v) = WEAK_POINTER_OR_SUSPENSION_BTAG"
  shows "\<exists>s' n. forward_special_chunk (g_heap g) v (tag_of g v) s = Inr (s', n) \<and> forwarded_to g s fwd dn v s' n"
proof -
  let ?q = "free_of RW_POINTERS_SIB s"
  let ?x = "slot_of g v 0"
  have ck: "chunks_ok g" "starts_ok g" and fr: "inv_from g s fwd" using ok inv by (simp_all add: setting_ok_def copying_def)
  have vc: "v \<in> g_chunks g" by (rule live_chunk [OF ck v(1)])
  have tag: "chunk_tag (tag_of g v)" by (rule chunkD(2) [OF ck(1) vc])
  have nq: "v \<noteq> ?q" using special_placed(3) [OF ok inv v tw, of "[0, 0]"] by simp
  have old: "gc_words s v = ?x" using unforwarded_words(2) [OF ok inv vc v(2), of 0] special_home(2) [OF tw] by simp
  have xc: "young (g_heap g) ?x \<Longrightarrow> ?x \<in> g_chunks g"
    using ck(1) vc special_home [OF tw] unfolding chunks_ok_def by auto
  note defs = forward_special_chunk_def special_copy_def Let_def set_free_def store_def free_of_def note_forwarding_def
    SPECIAL_CHUNK_SIZE_IN_WORDS_def
  show ?thesis
  proof (cases "is_weak (tag_of g v)")
    case False
    then have ctag: "GET_LENGTH_IN_WORDS_FROM_TAGWORD (tag_of g v) = EVALUATED_LAZY_SUSPENSION_CTAG \<or>
        GET_LENGTH_IN_WORDS_FROM_TAGWORD (tag_of g v) = UNEVALUATED_LAZY_SUSPENSION_CTAG"
      using tag tw by (auto simp: chunk_tag_def is_weak_def)
    have "live g ?x" if "young (g_heap g) ?x"
      using live.field [OF v(1), of 0] that False special_home [OF tw] by (simp add: strong_def)
    note special_plain [OF ok inv v tw this]
    moreover have "forward_special_chunk (g_heap g) v (tag_of g v) s =
        Inr (special_copy v [tag_of g v, ?x] (weakrefs_forwarded s) s, ?q + 4)"
      using ctag nq old by (simp add: defs)
    ultimately show ?thesis by blast
  next
    case True
    then have t: "tag_of g v = WEAKREF_TAGWORD" using weak_tagword tag by (simp add: chunk_tag_def)
    have ctag: "GET_LENGTH_IN_WORDS_FROM_TAGWORD (tag_of g v) = 2" using True by (simp add: is_weak_def ctag_defs)
    show ?thesis
    proof (cases "young (g_heap g) ?x \<and> ?x \<notin> dom fwd")
      case False
      have "live g ?x" if "young (g_heap g) ?x" using False that fr by (auto simp: inv_from_def live_chunks_def)
      note special_plain [OF ok inv v tw this]
      moreover have "forward_special_chunk (g_heap g) v (tag_of g v) s =
          Inr (special_copy v [tag_of g v, ?x] (weakrefs_forwarded s) s, ?q + 4)"
      proof (cases "young (g_heap g) ?x")
        case True
        then have "gc_words s (?x - 4) = FORWARDED_CHUNK_TAGWORD" using False forwarded_mark [OF ok inv xc] by blast
        then show ?thesis using ctag nq old t by (simp add: defs ctag_defs)
      next
        case False
        then have "\<not> IS_POINTER ?x \<or> SIBID_FOR_POINTER (hh_books (g_heap g)) ?x \<noteq> AGEGROUP0_SIBID" by (simp add: young_def)
        then show ?thesis using ctag nq old t by (auto simp: defs ctag_defs)
      qed
      ultimately show ?thesis by blast
    next
      case yes: True
      then have "gc_words s (?x - 4) \<noteq> FORWARDED_CHUNK_TAGWORD" using forwarded_mark [OF ok inv xc] by blast
      moreover have "IS_POINTER ?x" "SIBID_FOR_POINTER (hh_books (g_heap g)) ?x = AGEGROUP0_SIBID" using yes by (simp_all add: young_def)
      ultimately have "forward_special_chunk (g_heap g) v (tag_of g v) s =
          Inr (special_copy v [MARK_POINTER (weakrefs_forwarded s), MARK_POINTER ?x] ?q s, ?q + 4)"
        using ctag nq old by (simp add: defs ctag_defs)
      then show ?thesis using special_deferred [OF ok inv v True] yes by blast
    qed
  qed
qed

section \<open>Forwarding a chunk\<close>

lemma forward_chunk_ok:
  assumes ok: "setting_ok g" and inv: "copying g s fwd org dn ws" and v: "live g v"
  shows "\<exists>s' n. forward_agegroup0_chunk_to_agegroup1 (g_heap g) v s = Inr (s', n) \<and> forwarded_to g s fwd dn v s' n"
proof (cases "fwd v")
  case (Some n)
  then have m: "gc_words s (v - 4) = FORWARDED_CHUNK_TAGWORD" "gc_words s v = n" using inv by (auto simp: copying_def inv_from_def)
  have "GET_BTAG_FROM_TAGWORD FORWARDED_CHUNK_TAGWORD = FORWARDED_CHUNK_BTAG"
    unfolding FORWARDED_CHUNK_TAGWORD_def by (rule GET_BTAG_MAKE_TAGWORD) simp_all
  then have "forward_agegroup0_chunk_to_agegroup1 (g_heap g) v s = Inr (s, n)"
    using m by (simp add: forward_agegroup0_chunk_to_agegroup1_def Let_def FOLLOW_FORWARDING_POINTER_def btag_defs)
  moreover have "words_kept g s s" by (simp add: words_kept_def)
  then have "forwarded_to g s fwd dn v s n" unfolding forwarded_to_def using inv Some onward_refl by blast
  ultimately show ?thesis by blast
next
  case None
  have ck: "chunks_ok g" "starts_ok g" using ok by (simp_all add: setting_ok_def)
  have vc: "v \<in> g_chunks g" by (rule live_chunk [OF ck v])
  have tag: "chunk_tag (tag_of g v)" by (rule chunkD(2) [OF ck(1) vc])
  have tw: "gc_words s (v - 4) = tag_of g v" by (rule unforwarded_words(1) [OF ok inv vc None])
  note copy = copy_chunk_ok [OF ok inv v None]
  note defs = forward_agegroup0_chunk_to_agegroup1_def Let_def tw
  consider "is_pair (tag_of g v)"
    | "GET_BTAG_FROM_TAGWORD (tag_of g v) = WEAK_POINTER_OR_SUSPENSION_BTAG"
    | "\<not> is_pair (tag_of g v)" "GET_BTAG_FROM_TAGWORD (tag_of g v) = EIGHT_BYTE_ALIGNED_NONPOINTER_DATA_BTAG"
    | "\<not> is_pair (tag_of g v)" "GET_BTAG_FROM_TAGWORD (tag_of g v) \<noteq> WEAK_POINTER_OR_SUSPENSION_BTAG"
      "GET_BTAG_FROM_TAGWORD (tag_of g v) \<noteq> EIGHT_BYTE_ALIGNED_NONPOINTER_DATA_BTAG" by blast
  then show ?thesis
  proof cases
    case 1
    then have "forward_agegroup0_chunk_to_agegroup1 (g_heap g) v s = Inr (forward_pair v s)" by (simp add: defs is_pair_def)
    then show ?thesis using forward_pair_ok [OF ok inv v None 1] by auto
  next
    case 2
    then have "forward_agegroup0_chunk_to_agegroup1 (g_heap g) v s = forward_special_chunk (g_heap g) v (tag_of g v) s"
      by (simp add: defs btag_defs)
    then show ?thesis using forward_special_ok [OF ok inv v None 2] by simp
  next
    case 3
    have "home_sib (tag_of g v) = NONPTR_DATA_SIB" "payload (tag_of g v) = GET_LENGTH_IN_WORDS_FROM_TAGWORD (tag_of g v)" "\<not> is_weak (tag_of g v)"
      using 3 by (simp_all add: home_sib_def payload_def is_weak_def Let_def btag_defs)
    moreover have "forward_agegroup0_chunk_to_agegroup1 (g_heap g) v s =
        Inr (copy_chunk NONPTR_DATA_SIB (GET_LENGTH_IN_WORDS_FROM_TAGWORD (tag_of g v)) v (tag_of g v) (align_sib_for_float64 s))"
      using 3 by (simp add: defs btag_defs)
    ultimately show ?thesis using copy [OF 3(1) _ _ _ disjI2] 3(2) by auto
  next
    case 4
    have "\<not> is_weak (tag_of g v)" using 4(2) by (simp add: is_weak_def)
    moreover have "forward_agegroup0_chunk_to_agegroup1 (g_heap g) v s =
        Inr (copy_chunk (home_sib (tag_of g v)) (payload (tag_of g v)) v (tag_of g v) s)"
      using tag 4 by (auto simp: chunk_tag_def defs home_sib_def payload_def is_pair_def btag_defs)
    ultimately show ?thesis using copy [OF 4(1) _ _ _ disjI1] 4(3) by auto
  qed
qed

end
