(* ===== verification/Minor_Sweeping.thy ===== *)
theory Minor_Sweeping
  imports Minor_Forwarding_Facts
begin

text \<open>
  The work queue: forwarding what one address holds, the sweep of a sib up to its free end, and
  the passes over the three sibs that hold pointers. Every pass that finds work either copies a
  chunk, of which there are finitely many, or catches up with the free ends, so the passes end;
  then every address of the queue has been processed.
\<close>

section \<open>One address\<close>

definition sweepable :: "setting \<Rightarrow> gc_state \<Rightarrow> val \<Rightarrow> bool" where
  "sweepable g s p \<longleftrightarrow> p \<in> g_starts g \<or> unat p mod 4 = 0 \<and> (\<exists>i. i \<noteq> NONPTR_DATA_SIB \<and> in_used g s i p)"

definition cleaned_to :: "setting \<Rightarrow> gc_state \<Rightarrow> (val \<rightharpoonup> val) \<Rightarrow> gc_state \<Rightarrow> (val \<rightharpoonup> val) \<Rightarrow> val set \<Rightarrow> bool" where
  "cleaned_to g s fwd s' fwd' dn' \<longleftrightarrow> onward s fwd s' fwd' \<and> cardmaps s' = cardmaps s \<and> (\<exists>org' ws'. copying g s' fwd' org' dn' ws')"

lemma tospace_not_young:
  assumes "setting_ok g" and "in_tospace g i a"
  shows "\<not> young (g_heap g) a"
proof -
  have "GET_AGE_FROM_SIBID (SIBID_FOR_POINTER (hh_books (g_heap g)) a) = 1"
    using assms unfolding setting_ok_def tospaces_ok_def by blast
  moreover have "GET_AGE_FROM_SIBID AGEGROUP0_SIBID = 0"
    by (simp add: AGEGROUP0_SIBID_def MAKE_SIBID_def AGEGROUP0_def NEW_KIND_def GET_AGE_FROM_SIBID_def)
  ultimately show ?thesis by (auto simp: young_def)
qed

lemma forwarded_chunk:
  assumes "setting_ok g" and "inv_from g s fwd" and "fwd v = Some n"
  shows "v \<in> g_chunks g" and "young (g_heap g) v" and "0 < payload (tag_of g v)" and "in_fromspace g v" and "in_fromspace g (v - 4)"
proof -
  have ck: "chunks_ok g" "starts_ok g" using assms(1) by (simp_all add: setting_ok_def)
  have "live g v" using assms(2,3) by (auto simp: inv_from_def live_chunks_def)
  then show v: "v \<in> g_chunks g" by (rule live_chunk [OF ck])
  note c = chunkD [OF ck(1) v]
  show "young (g_heap g) v" "0 < payload (tag_of g v)" using c by simp_all
  show "in_fromspace g v" "in_fromspace g (v - 4)" using c(8,9) v by (auto simp: in_fromspace_def)
qed

lemma copy_in_tospace:
  assumes ok: "setting_ok g" and inv: "copying g s fwd org dn ws" and n: "fwd v = Some n"
  shows "in_tospace g (home_sib (tag_of g v)) n"
proof -
  have "copy_placed g s v n" and sp: "inv_space g s fwd dn" and fr: "inv_from g s fwd"
    using inv n by (simp_all add: copying_def inv_copies_def)
  then have "in_used g s (home_sib (tag_of g v)) n"
    using forwarded_chunk(3) [OF ok fr n] unfolding copy_placed_def in_used_def by auto
  then show ?thesis by (rule used_in_tospace [OF sp])
qed

lemma sweepable_place:
  assumes ok: "setting_ok g" and inv: "copying g s fwd org dn ws" and p: "sweepable g s p"
  shows "\<not> in_fromspace g p" and "in_tospace g i p \<Longrightarrow> in_used g s i p" and "young (g_heap g) (org p) \<Longrightarrow> live g (org p)"
proof -
  have sp: "inv_space g s fwd dn" and iq: "inv_queue g s org" and iw: "inv_words g s fwd org dn" using inv by (simp_all add: copying_def)
  have start: "\<not> in_fromspace g p \<and> (\<forall>i. \<not> in_tospace g i p) \<and> org p = g_words g p" if "p \<in> g_starts g"
  proof -
    have "\<not> in_fromspace g p" "\<forall>i. \<not> in_tospace g i p" using ok that by (simp_all add: setting_ok_def starts_ok_def)
    moreover have "\<forall>i. \<not> in_used g s i p" using calculation(2) used_in_tospace [OF sp] by blast
    ultimately show ?thesis using iw by (simp add: inv_words_def)
  qed
  show "\<not> in_fromspace g p" using p start used_in_tospace [OF sp] tospace_fromspace [OF ok] unfolding sweepable_def by blast
  show "in_tospace g i p \<Longrightarrow> in_used g s i p"
    using p start used_in_tospace [OF sp] tospace_unique [OF ok] unfolding sweepable_def by metis
  show "young (g_heap g) (org p) \<Longrightarrow> live g (org p)"
    using p start iq live.start [of p g] unfolding sweepable_def inv_queue_def by metis
qed

lemma store_done:
  assumes ok: "setting_ok g" and inv: "copying g s fwd org dn ws" and p: "sweepable g s p"
    and y: "young (g_heap g) (org p) \<Longrightarrow> org p \<in> dom fwd"
  shows "copying g (store p (relocate fwd (org p)) s) fwd org (insert p dn) ws"
proof -
  let ?s = "store p (relocate fwd (org p)) s"
  have ck: "chunks_ok g" "starts_ok g" using ok by (simp_all add: setting_ok_def)
  have nf: "\<not> in_fromspace g p" by (rule sweepable_place(1) [OF ok inv p])
  have same: "gc_words ?s a = gc_words s a" if "in_fromspace g a" for a using that nf by (auto simp: store_def)
  have fr: "free_of i ?s = free_of i s" for i by (simp add: store_def free_of_def)
  then have us: "in_used g ?s = in_used g s" by (simp add: in_used_def fun_eq_iff)
  have "inv_from g ?s fwd"
  proof -
    have old: "inv_from g s fwd" using inv by (simp add: copying_def)
    show ?thesis unfolding inv_from_def
    proof (intro conjI allI ballI impI)
      show "dom fwd \<subseteq> live_chunks g" using old by (simp add: inv_from_def)
    next
      fix v a
      assume v: "v \<in> g_chunks g" "fwd v = None" "in_chunk g v a"
      then have "in_fromspace g a" by (auto simp: in_fromspace_def)
      then show "gc_words ?s a = g_words g a" using same old v by (auto simp: inv_from_def)
    next
      fix v n
      assume f: "fwd v = Some n"
      show "gc_words ?s (v - 4) = FORWARDED_CHUNK_TAGWORD" "gc_words ?s v = n"
        using same forwarded_chunk(4,5) [OF ok old f] old f by (simp_all add: inv_from_def)
    qed
  qed
  moreover have "inv_copies g ?s fwd org ws"
    using inv fr by (simp add: copying_def inv_copies_def copy_placed_def)
  moreover have "inv_words g ?s fwd org (insert p dn)"
    using inv y unfolding copying_def inv_words_def us by (simp add: store_def)
  moreover have "inv_space g ?s fwd (insert p dn)"
  proof -
    have old: "inv_space g s fwd dn" using inv by (simp add: copying_def)
    have new: "a \<in> insert p dn \<Longrightarrow> a \<in> g_starts g \<or> (\<exists>i. i \<noteq> NONPTR_DATA_SIB \<and> in_used g s i a)" for a
      using old p unfolding inv_space_def sweepable_def by blast
    from old show ?thesis unfolding inv_space_def us fr using new by (intro conjI ballI) simp_all
  qed
  moreover have "inv_queue g ?s org" using inv by (simp add: copying_def inv_queue_def us)
  moreover have "weakrefs_forwarded ?s = weakrefs_forwarded s" by (simp add: store_def)
  ultimately show ?thesis using inv unfolding copying_def by simp
qed

lemma onward_store:
  "onward s fwd s' fwd' \<Longrightarrow> onward s fwd (store p w s') fwd'"
  by (simp add: onward_def store_def free_of_def)

lemma forward_slot_ok:
  assumes ok: "setting_ok g" and inv: "copying g s fwd org dn ws" and p: "sweepable g s p"
  shows "\<exists>s' fwd'. forward_to_agegroup1_if_in_agegroup0 (g_heap g) p s = Inr s' \<and> cleaned_to g s fwd s' fwd' (insert p dn)"
proof -
  have iw: "inv_words g s fwd org dn" and fr: "inv_from g s fwd" using inv by (simp_all add: copying_def)
  have ck: "chunks_ok g" "starts_ok g" using ok by (simp_all add: setting_ok_def)
  have dom_young: "fwd w = Some n \<Longrightarrow> young (g_heap g) w" for w n by (rule forwarded_chunk(2) [OF ok fr])
  have m: "gc_words s p = (if p \<in> dn then relocate fwd (org p) else org p)"
    using iw sweepable_place(1) [OF ok inv p] by (simp add: inv_words_def)
  show ?thesis
  proof (cases "young (g_heap g) (gc_words s p)")
    case True
    have nd: "p \<notin> dn"
    proof
      assume d: "p \<in> dn"
      show False
      proof (cases "fwd (org p)")
        case None
        then show False using m d True iw by (auto simp: relocate_def inv_words_def)
      next
        case (Some n)
        then show False using m d True tospace_not_young [OF ok copy_in_tospace [OF ok inv Some]] by (simp add: relocate_def)
      qed
    qed
    then have w: "gc_words s p = org p" using m by simp
    have "live g (org p)" using sweepable_place(3) [OF ok inv p] True w by simp
    then obtain s' n fwd' org' ws' where f: "forward_agegroup0_chunk_to_agegroup1 (g_heap g) (org p) s = Inr (s', n)"
      and c: "copying g s' fwd' org' dn ws'" and n: "fwd' (org p) = Some n" and on: "onward s fwd s' fwd'"
      and k: "cardmaps s' = cardmaps s" "words_kept g s s'"
      using forward_chunk_ok [OF ok inv] unfolding forwarded_to_def by blast
    have p': "sweepable g s' p" using p on unfolding sweepable_def in_used_def onward_def by (meson le_trans less_le_trans)
    have "gc_words s' p = gc_words s p" using k(2) sweepable_place [OF ok inv p] unfolding words_kept_def by blast
    moreover have "gc_words s' p = org' p" using c sweepable_place(1) [OF ok inv p] nd by (simp add: copying_def inv_words_def)
    ultimately have o: "org' p = org p" using w by simp
    have "copying g (store p n s') fwd' org' (insert p dn) ws'"
      using store_done [OF ok c p'] n o by (simp add: relocate_def domIff)
    then have "cleaned_to g s fwd (store p n s') fwd' (insert p dn)"
      unfolding cleaned_to_def using onward_store [OF on] k(1) by (auto simp: store_def)
    moreover have "forward_to_agegroup1_if_in_agegroup0 (g_heap g) p s = Inr (store p n s')"
      using f True w by (simp add: forward_to_agegroup1_if_in_agegroup0_def young_def Let_def)
    ultimately show ?thesis by blast
  next
    case False
    have r: "relocate fwd (org p) = gc_words s p"
    proof (cases "p \<in> dn")
      case True
      then show ?thesis using m by simp
    next
      case nd: False
      then have "fwd (org p) = None" using m False dom_young by (cases "fwd (org p)") auto
      then show ?thesis using m nd by (simp add: relocate_def)
    qed
    have y: "young (g_heap g) (org p) \<Longrightarrow> org p \<in> dom fwd" using iw m False by (cases "p \<in> dn") (auto simp: inv_words_def)
    have "store p (gc_words s p) s = s" by (simp add: store_def)
    then have "copying g s fwd org (insert p dn) ws" using store_done [OF ok inv p y] r by simp
    then have "cleaned_to g s fwd s fwd (insert p dn)" unfolding cleaned_to_def using onward_refl by blast
    moreover have "forward_to_agegroup1_if_in_agegroup0 (g_heap g) p s = Inr s"
      using False by (auto simp: forward_to_agegroup1_if_in_agegroup0_def young_def Let_def)
    ultimately show ?thesis by blast
  qed
qed

lemma cleaned_trans:
  assumes "cleaned_to g s fwd s' fwd' d'" and "cleaned_to g s' fwd' s'' fwd'' d''"
  shows "cleaned_to g s fwd s'' fwd'' d''"
  using assms onward_trans unfolding cleaned_to_def by metis

lemma sweepable_later: "sweepable g s p \<Longrightarrow> onward s fwd s' fwd' \<Longrightarrow> sweepable g s' p"
  unfolding sweepable_def in_used_def onward_def by (meson less_le_trans)

section \<open>The roots\<close>

lemma forward_roots_ok:
  assumes ok: "setting_ok g" and "copying g s fwd org dn ws" and "set roots \<subseteq> g_starts g"
  shows "\<exists>s' fwd'. forward_roots (g_heap g) roots s = Inr s' \<and> cleaned_to g s fwd s' fwd' (dn \<union> set roots)"
  using assms(2,3)
proof (induction roots arbitrary: s fwd org dn ws)
  case Nil
  then have "cleaned_to g s fwd s fwd dn" unfolding cleaned_to_def using onward_refl by blast
  then show ?case by auto
next
  case (Cons p roots)
  have "sweepable g s p" using Cons.prems(2) by (simp add: sweepable_def)
  from forward_slot_ok [OF ok Cons.prems(1) this] obtain s1 fwd1
    where 1: "forward_to_agegroup1_if_in_agegroup0 (g_heap g) p s = Inr s1" "cleaned_to g s fwd s1 fwd1 (insert p dn)" by blast
  then obtain org1 ws1 where c: "copying g s1 fwd1 org1 (insert p dn) ws1" unfolding cleaned_to_def by blast
  from Cons.IH [OF c] Cons.prems(2) obtain s2 fwd2
    where 2: "forward_roots (g_heap g) roots s1 = Inr s2" "cleaned_to g s1 fwd1 s2 fwd2 (insert p dn \<union> set roots)" by auto
  have "insert p dn \<union> set roots = dn \<union> set (p # roots)" by auto
  then have "cleaned_to g s fwd s2 fwd2 (dn \<union> set (p # roots))" using cleaned_trans [OF 1(2) 2(2)] by simp
  moreover have "forward_roots (g_heap g) (p # roots) s = Inr s2" using 1(1) 2(1) by simp
  ultimately show ?case by blast
qed

end
