(* ===== verification/Minor_Passes.thy ===== *)
theory Minor_Passes
  imports Minor_Sweeping
begin

text \<open>
  The sweep of one sib and the passes over the sibs, with the measure that makes them end: the
  number of live chunks not copied yet, and whether some sib is behind its free end.
\<close>

section \<open>Sweeping the words of a sib\<close>

lemma sweep_words_ok:
  assumes ok: "setting_ok g" and "copying g s fwd org dn ws"
    and "unat p mod 4 = 0" and "unat q mod 4 = 0" and "unat p \<le> unat q"
    and "\<And>a. unat a mod 4 = 0 \<Longrightarrow> unat p \<le> unat a \<Longrightarrow> unat a < unat q \<Longrightarrow> sweepable g s a"
  shows "\<exists>s' fwd' dn'. sweep_words (g_heap g) p q s = Some (Inr (q, s')) \<and> cleaned_to g s fwd s' fwd' dn' \<and>
    dn \<subseteq> dn' \<and> (\<forall>a. unat a mod 4 = 0 \<longrightarrow> unat p \<le> unat a \<longrightarrow> unat a < unat q \<longrightarrow> a \<in> dn')"
  using assms(2-)
proof (induction "unat q - unat p" arbitrary: p s fwd org dn ws rule: less_induct)
  case less
  show ?case
  proof (cases "p < q")
    case False
    then have e: "p = q" using less.prems(4) by (simp add: word_less_nat_alt word_unat_eq_iff)
    have "cleaned_to g s fwd s fwd dn" unfolding cleaned_to_def using less.prems(1) onward_refl by blast
    then show ?thesis using False e by (subst sweep_words.simps) auto
  next
    case True
    then have lt: "unat p < unat q" by (simp add: word_less_nat_alt)
    then have le: "unat p + 4 \<le> unat q" using less.prems(2,3) by presburger
    then have "unat p + 4 * 1 < 2 ^ 32" using unat_below [of q] less.prems(3) by (cases "unat p + 4 = unat q") auto
    then have p4: "unat (p + 4) = unat p + 4" using unat_slot_nat [of p 1] by simp
    have "sweepable g s p" using less.prems(2,5) lt by simp
    from forward_slot_ok [OF ok less.prems(1) this] obtain s1 fwd1
      where 1: "forward_to_agegroup1_if_in_agegroup0 (g_heap g) p s = Inr s1" "cleaned_to g s fwd s1 fwd1 (insert p dn)" by blast
    then obtain org1 ws1 where c: "copying g s1 fwd1 org1 (insert p dn) ws1" and on: "onward s fwd s1 fwd1"
      unfolding cleaned_to_def by blast
    have sw: "sweepable g s1 a" if "unat a mod 4 = 0" "unat (p + 4) \<le> unat a" "unat a < unat q" for a
      using sweepable_later [OF less.prems(5) on] that p4 by simp
    have m: "unat q - unat (p + 4) < unat q - unat p" and al: "unat (p + 4) mod 4 = 0" and le4: "unat (p + 4) \<le> unat q"
      using p4 le lt less.prems(2) by simp_all
    obtain s2 fwd2 dn2 where 2: "sweep_words (g_heap g) (p + 4) q s1 = Some (Inr (q, s2))" "cleaned_to g s1 fwd1 s2 fwd2 dn2"
      "insert p dn \<subseteq> dn2" "\<forall>a. unat a mod 4 = 0 \<longrightarrow> unat (p + 4) \<le> unat a \<longrightarrow> unat a < unat q \<longrightarrow> a \<in> dn2"
      using less.hyps [OF m c al less.prems(3) le4 sw] by blast
    have "a \<in> dn2" if "unat a mod 4 = 0" "unat p \<le> unat a" "unat a < unat q" for a
    proof (cases "a = p")
      case True
      then show ?thesis using 2(3) by auto
    next
      case False
      then have "unat a \<noteq> unat p" by (simp add: word_unat_eq_iff)
      then have "unat p + 4 \<le> unat a" using that less.prems(2) by presburger
      then show ?thesis using 2(4) that p4 by simp
    qed
    moreover have "sweep_words (g_heap g) p q s = Some (Inr (q, s2))" using True 1(1) 2(1) by (subst sweep_words.simps) simp
    ultimately show ?thesis using cleaned_trans [OF 1(2) 2(2)] 2(3) by blast
  qed
qed

definition to_copy :: "setting \<Rightarrow> (val \<rightharpoonup> val) \<Rightarrow> nat" where
  "to_copy g fwd = card (live_chunks g - dom fwd)"

lemma to_copy_less:
  assumes ok: "setting_ok g" and c: "cleaned_to g s fwd s' fwd' dn'"
  shows "to_copy g fwd' \<le> to_copy g fwd" and "free_of i s' \<noteq> free_of i s \<Longrightarrow> to_copy g fwd' < to_copy g fwd"
proof -
  have on: "onward s fwd s' fwd'" and sub: "dom fwd' \<subseteq> live_chunks g" using c by (auto simp: cleaned_to_def copying_def inv_from_def)
  have fin: "finite (live_chunks g - dom fwd)" using ok finite_live by (simp add: setting_ok_def)
  have le: "dom fwd \<subseteq> dom fwd'" using on by (simp add: onward_def map_le_implies_dom_le)
  then show "to_copy g fwd' \<le> to_copy g fwd" unfolding to_copy_def by (intro card_mono fin) auto
  show "to_copy g fwd' < to_copy g fwd" if "free_of i s' \<noteq> free_of i s"
  proof -
    have "dom fwd' \<noteq> dom fwd" using on that by (auto simp: onward_def)
    then have "live_chunks g - dom fwd' \<subset> live_chunks g - dom fwd" using le sub by blast
    then show ?thesis unfolding to_copy_def by (intro psubset_card_mono fin)
  qed
qed

lemma free_place:
  assumes "copying g s fwd org dn ws"
  shows "unat (free_of i s) mod 4 = 0" and "unat (g_base g i) \<le> unat (free_of i s)"
    and "i \<noteq> NONPTR_DATA_SIB \<Longrightarrow> unat a mod 4 = 0 \<Longrightarrow> unat (g_base g i) \<le> unat a \<Longrightarrow> unat a < unat (free_of i s) \<Longrightarrow> sweepable g s a"
  using assms by (auto simp: copying_def inv_space_def sweepable_def in_used_def)

lemma sweep_queue_ok:
  assumes ok: "setting_ok g" and i: "i \<noteq> NONPTR_DATA_SIB" and "copying g s fwd org dn ws"
    and "unat p mod 4 = 0" and "unat p \<le> unat (free_of i s)"
    and "\<And>a. unat a mod 4 = 0 \<Longrightarrow> unat p \<le> unat a \<Longrightarrow> unat a < unat (free_of i s) \<Longrightarrow> sweepable g s a"
  shows "\<exists>s' fwd' dn'. sweep_queue (g_heap g) i p s = Some (Inr (free_of i s', s')) \<and> cleaned_to g s fwd s' fwd' dn' \<and>
    dn \<subseteq> dn' \<and> (\<forall>a. unat a mod 4 = 0 \<longrightarrow> unat p \<le> unat a \<longrightarrow> unat a < unat (free_of i s') \<longrightarrow> a \<in> dn')"
  using assms(3-)
proof (induction "to_copy g fwd" arbitrary: p s fwd org dn ws rule: less_induct)
  case less
  let ?q = "free_of i s"
  obtain s1 fwd1 dn1 where 1: "sweep_words (g_heap g) p ?q s = Some (Inr (?q, s1))" "cleaned_to g s fwd s1 fwd1 dn1"
    "dn \<subseteq> dn1" "\<forall>a. unat a mod 4 = 0 \<longrightarrow> unat p \<le> unat a \<longrightarrow> unat a < unat ?q \<longrightarrow> a \<in> dn1"
    using sweep_words_ok [OF ok less.prems(1,2) free_place(1) [OF less.prems(1)] less.prems(3,4)] by blast
  then obtain org1 ws1 where c: "copying g s1 fwd1 org1 dn1 ws1" unfolding cleaned_to_def by blast
  show ?case
  proof (cases "free_of i s1 = ?q")
    case True
    then show ?thesis using 1 by (subst sweep_queue.simps) auto
  next
    case False
    have qa: "unat ?q mod 4 = 0" by (rule free_place(1) [OF less.prems(1)])
    have ql: "unat ?q \<le> unat (free_of i s1)" using 1(2) by (simp add: cleaned_to_def onward_def)
    have sw: "sweepable g s1 a" if "unat a mod 4 = 0" "unat ?q \<le> unat a" "unat a < unat (free_of i s1)" for a
      using free_place(3) [OF c i that(1) _ that(3)] free_place(2) [OF less.prems(1), of i] that(2) by linarith
    obtain s2 fwd2 dn2 where 2: "sweep_queue (g_heap g) i ?q s1 = Some (Inr (free_of i s2, s2))" "cleaned_to g s1 fwd1 s2 fwd2 dn2"
      "dn1 \<subseteq> dn2" "\<forall>a. unat a mod 4 = 0 \<longrightarrow> unat ?q \<le> unat a \<longrightarrow> unat a < unat (free_of i s2) \<longrightarrow> a \<in> dn2"
      using less.hyps [OF to_copy_less(2) [OF ok 1(2) False] c qa ql sw] by blast
    have "a \<in> dn2" if "unat a mod 4 = 0" "unat p \<le> unat a" "unat a < unat (free_of i s2)" for a
      using that 1(4) 2(3,4) by (cases "unat a < unat ?q") auto
    moreover have "sweep_queue (g_heap g) i p s = Some (Inr (free_of i s2, s2))"
      using 1(1) 2(1) False by (subst sweep_queue.simps) simp
    ultimately show ?thesis using cleaned_trans [OF 1(2) 2(2)] 1(3) 2(3) by blast
  qed
qed

section \<open>Sweeping a sib\<close>

text \<open>The queue of a sib starts where the last cleaning stopped; what lies before the new copies is among the starts.\<close>

definition queue_ok :: "setting \<Rightarrow> (ilk \<Rightarrow> val) \<Rightarrow> gc_state \<Rightarrow> val set \<Rightarrow> ilk \<Rightarrow> bool" where
  "queue_ok g sw0 s dn i \<longleftrightarrow> unat (swept_end (gc_sibs s i)) mod 4 = 0 \<and> unat (sw0 i) \<le> unat (swept_end (gc_sibs s i)) \<and>
     unat (swept_end (gc_sibs s i)) \<le> unat (free_of i s) \<and>
     (\<forall>a. unat a mod 4 = 0 \<longrightarrow> unat (sw0 i) \<le> unat a \<longrightarrow> unat a < unat (g_base g i) \<longrightarrow> a \<in> g_starts g) \<and>
     (\<forall>a. unat a mod 4 = 0 \<longrightarrow> unat (sw0 i) \<le> unat a \<longrightarrow> unat a < unat (swept_end (gc_sibs s i)) \<longrightarrow> a \<in> dn)"

definition behind :: "gc_state \<Rightarrow> ilk \<Rightarrow> bool" where
  "behind s i \<longleftrightarrow> swept_end (gc_sibs s i) < free_of i s"

lemma set_swept_simps [simp]:
  "free_of j (set_swept i p s) = free_of j s" "gc_words (set_swept i p s) = gc_words s"
  "weakrefs_forwarded (set_swept i p s) = weakrefs_forwarded s" "cardmaps (set_swept i p s) = cardmaps s"
  "heap_changelog (set_swept i p s) = heap_changelog s"
  "swept_end (gc_sibs (set_swept i p s) j) = (if j = i then p else swept_end (gc_sibs s j))"
  by (simp_all add: set_swept_def free_of_def)

lemma copying_same:
  assumes "gc_words s' = gc_words s" and "\<And>i. free_of i s' = free_of i s" and "weakrefs_forwarded s' = weakrefs_forwarded s"
  shows "copying g s' fwd org dn ws = copying g s fwd org dn ws"
proof -
  have "in_used g s' = in_used g s" using assms(2) by (simp add: in_used_def fun_eq_iff)
  then show ?thesis
    using assms unfolding copying_def inv_from_def inv_copies_def inv_words_def inv_space_def inv_queue_def copy_placed_def by simp
qed

text \<open>What a pass over some of the sibs has done.\<close>

definition passed :: "setting \<Rightarrow> (ilk \<Rightarrow> val) \<Rightarrow> gc_state \<Rightarrow> (val \<rightharpoonup> val) \<Rightarrow> val set \<Rightarrow> gc_state \<Rightarrow> (val \<rightharpoonup> val) \<Rightarrow> val set \<Rightarrow> bool" where
  "passed g sw0 s fwd dn s' fwd' dn' \<longleftrightarrow> (\<exists>org' ws'. copying g s' fwd' org' dn' ws') \<and> dn \<subseteq> dn' \<and>
     (\<forall>i. i \<noteq> NONPTR_DATA_SIB \<longrightarrow> queue_ok g sw0 s' dn' i) \<and> fwd \<subseteq>\<^sub>m fwd' \<and>
     (\<forall>i. unat (free_of i s) \<le> unat (free_of i s')) \<and>
     cardmaps s' = cardmaps s \<and> heap_changelog s' = heap_changelog s \<and>
     to_copy g fwd' \<le> to_copy g fwd \<and> (to_copy g fwd' = to_copy g fwd \<longrightarrow> (\<forall>i. free_of i s' = free_of i s))"

lemma passed_trans:
  assumes "passed g sw0 s f d s' f' d'" and "passed g sw0 s' f' d' s'' f'' d''"
  shows "passed g sw0 s f d s'' f'' d''"
proof -
  have "to_copy g f'' \<le> to_copy g f" using assms unfolding passed_def by (meson le_trans)
  moreover have "free_of i s'' = free_of i s" if "to_copy g f'' = to_copy g f" for i
  proof -
    have "to_copy g f'' \<le> to_copy g f'" "to_copy g f' \<le> to_copy g f" using assms by (simp_all add: passed_def)
    then have "to_copy g f'' = to_copy g f'" "to_copy g f' = to_copy g f" using that by simp_all
    then show ?thesis using assms by (simp add: passed_def)
  qed
  moreover have "unat (free_of i s) \<le> unat (free_of i s'')" for i using assms unfolding passed_def by (meson le_trans)
  moreover have "f \<subseteq>\<^sub>m f''" "d \<subseteq> d''" using assms map_le_trans unfolding passed_def by blast+
  ultimately show ?thesis using assms unfolding passed_def by simp
qed

lemma sweep_sib_ok:
  assumes ok: "setting_ok g" and i: "i \<noteq> NONPTR_DATA_SIB" and c: "copying g s fwd org dn ws"
    and qs: "\<And>j. j \<noteq> NONPTR_DATA_SIB \<Longrightarrow> queue_ok g sw0 s dn j"
  shows "\<exists>b s' fwd' dn'. sweep_agegroup1_sib_tospace (g_heap g) i s = Some (Inr (b, s')) \<and> passed g sw0 s fwd dn s' fwd' dn' \<and>
    b = behind s i \<and> \<not> behind s' i \<and> (\<forall>j. j \<noteq> i \<longrightarrow> swept_end (gc_sibs s' j) = swept_end (gc_sibs s j)) \<and> (\<not> b \<longrightarrow> s' = s)"
proof (cases "behind s i")
  case False
  then have "sweep_agegroup1_sib_tospace (g_heap g) i s = Some (Inr (False, s))"
    by (simp add: sweep_agegroup1_sib_tospace_def behind_def Let_def)
  moreover have "passed g sw0 s fwd dn s fwd dn" unfolding passed_def using c qs by auto
  ultimately show ?thesis using False by blast
next
  case True
  let ?p = "swept_end (gc_sibs s i)"
  have q: "unat ?p mod 4 = 0" "unat ?p \<le> unat (free_of i s)" "unat (sw0 i) \<le> unat ?p"
    "\<And>a. unat a mod 4 = 0 \<Longrightarrow> unat (sw0 i) \<le> unat a \<Longrightarrow> unat a < unat (g_base g i) \<Longrightarrow> a \<in> g_starts g"
    using qs [OF i] by (simp_all add: queue_ok_def)
  have sw: "sweepable g s a" if "unat a mod 4 = 0" "unat ?p \<le> unat a" "unat a < unat (free_of i s)" for a
  proof (cases "unat a < unat (g_base g i)")
    case True
    then show ?thesis using q(3,4) that by (auto simp: sweepable_def)
  next
    case False
    then show ?thesis using free_place(3) [OF c i that(1) _ that(3)] by simp
  qed
  obtain s1 fwd1 dn1 where 1: "sweep_queue (g_heap g) i ?p s = Some (Inr (free_of i s1, s1))" "cleaned_to g s fwd s1 fwd1 dn1"
    "dn \<subseteq> dn1" "\<forall>a. unat a mod 4 = 0 \<longrightarrow> unat ?p \<le> unat a \<longrightarrow> unat a < unat (free_of i s1) \<longrightarrow> a \<in> dn1"
    using sweep_queue_ok [OF ok i c q(1,2) sw] by blast
  then obtain org1 ws1 where c1: "copying g s1 fwd1 org1 dn1 ws1" and on: "onward s fwd s1 fwd1" and cards: "cardmaps s1 = cardmaps s"
    unfolding cleaned_to_def by blast
  let ?s = "set_swept i (free_of i s1) s1"
  have run: "sweep_agegroup1_sib_tospace (g_heap g) i s = Some (Inr (True, ?s))"
    using True 1(1) by (simp add: sweep_agegroup1_sib_tospace_def behind_def Let_def)
  have mono: "unat (free_of j s) \<le> unat (free_of j s1)" "swept_end (gc_sibs s1 j) = swept_end (gc_sibs s j)" for j
    using on by (simp_all add: onward_def)
  have "queue_ok g sw0 ?s dn1 j" if j: "j \<noteq> NONPTR_DATA_SIB" for j
  proof (cases "j = i")
    case True
    have "a \<in> dn1" if "unat a mod 4 = 0" "unat (sw0 i) \<le> unat a" "unat a < unat (free_of i s1)" for a
      using that 1(3,4) qs [OF i] by (cases "unat a < unat ?p") (auto simp: queue_ok_def)
    then show ?thesis
      using True q free_place(1) [OF c1, of i] mono(1) [of i] unfolding queue_ok_def by auto
  next
    case False
    then show ?thesis using qs [OF j] mono [of j] 1(3) unfolding queue_ok_def by auto
  qed
  moreover have "copying g ?s fwd1 org1 dn1 ws1" using c1 copying_same [of ?s s1] by simp
  moreover have "to_copy g fwd1 = to_copy g fwd \<Longrightarrow> free_of j ?s = free_of j s" for j
    using to_copy_less(2) [OF ok 1(2), of j] by fastforce
  moreover have "fwd \<subseteq>\<^sub>m fwd1" "heap_changelog ?s = heap_changelog s" using on by (simp_all add: onward_def)
  ultimately have "passed g sw0 s fwd dn ?s fwd1 dn1"
    unfolding passed_def using 1(3) cards mono(1) to_copy_less(1) [OF ok 1(2)] by auto
  moreover have "\<not> behind ?s i" by (simp add: behind_def)
  moreover have "j \<noteq> i \<Longrightarrow> swept_end (gc_sibs ?s j) = swept_end (gc_sibs s j)" for j using mono(2) by simp
  ultimately show ?thesis using run True by blast
qed

section \<open>Passes over the three sibs\<close>

lemma passedD:
  assumes "passed g sw0 s fwd dn s' fwd' dn'"
  shows "\<exists>org' ws'. copying g s' fwd' org' dn' ws'" and "j \<noteq> NONPTR_DATA_SIB \<Longrightarrow> queue_ok g sw0 s' dn' j"
    and "to_copy g fwd' \<le> to_copy g fwd" and "to_copy g fwd' = to_copy g fwd \<Longrightarrow> free_of j s' = free_of j s"
  using assms by (simp_all add: passed_def)

lemma sweep_all_sibs_once_ok:
  assumes ok: "setting_ok g" and c: "copying g s fwd org dn ws"
    and qs: "\<And>j. j \<noteq> NONPTR_DATA_SIB \<Longrightarrow> queue_ok g sw0 s dn j"
  shows "\<exists>b s' fwd' dn'. sweep_all_sibs_once (g_heap g) s = Some (Inr (b, s')) \<and> passed g sw0 s fwd dn s' fwd' dn' \<and>
    (b \<longrightarrow> to_copy g fwd' < to_copy g fwd \<or> (\<exists>i. i \<noteq> NONPTR_DATA_SIB \<and> behind s i)) \<and>
    (to_copy g fwd' = to_copy g fwd \<longrightarrow> (\<forall>i. i \<noteq> NONPTR_DATA_SIB \<longrightarrow> \<not> behind s' i)) \<and>
    (\<not> b \<longrightarrow> (\<forall>i. i \<noteq> NONPTR_DATA_SIB \<longrightarrow> \<not> behind s' i))"
proof -
  obtain b1 s1 f1 d1 where 1: "sweep_agegroup1_sib_tospace (g_heap g) RO_POINTERS_SIB s = Some (Inr (b1, s1))"
    "passed g sw0 s fwd dn s1 f1 d1" "b1 = behind s RO_POINTERS_SIB" "\<not> behind s1 RO_POINTERS_SIB"
    "\<forall>j. j \<noteq> RO_POINTERS_SIB \<longrightarrow> swept_end (gc_sibs s1 j) = swept_end (gc_sibs s j)" "\<not> b1 \<longrightarrow> s1 = s"
    using sweep_sib_ok [OF ok _ c qs, of RO_POINTERS_SIB] by auto
  obtain o1 w1 where c1: "copying g s1 f1 o1 d1 w1" using passedD(1) [OF 1(2)] by blast
  obtain b2 s2 f2 d2 where 2: "sweep_agegroup1_sib_tospace (g_heap g) RO_CONSCELL_SIB s1 = Some (Inr (b2, s2))"
    "passed g sw0 s1 f1 d1 s2 f2 d2" "b2 = behind s1 RO_CONSCELL_SIB" "\<not> behind s2 RO_CONSCELL_SIB"
    "\<forall>j. j \<noteq> RO_CONSCELL_SIB \<longrightarrow> swept_end (gc_sibs s2 j) = swept_end (gc_sibs s1 j)" "\<not> b2 \<longrightarrow> s2 = s1"
    using sweep_sib_ok [OF ok _ c1 passedD(2) [OF 1(2)], of RO_CONSCELL_SIB] by auto
  obtain o2 w2 where c2: "copying g s2 f2 o2 d2 w2" using passedD(1) [OF 2(2)] by blast
  obtain b3 s3 f3 d3 where 3: "sweep_agegroup1_sib_tospace (g_heap g) RW_POINTERS_SIB s2 = Some (Inr (b3, s3))"
    "passed g sw0 s2 f2 d2 s3 f3 d3" "b3 = behind s2 RW_POINTERS_SIB" "\<not> behind s3 RW_POINTERS_SIB"
    "\<forall>j. j \<noteq> RW_POINTERS_SIB \<longrightarrow> swept_end (gc_sibs s3 j) = swept_end (gc_sibs s2 j)" "\<not> b3 \<longrightarrow> s3 = s2"
    using sweep_sib_ok [OF ok _ c2 passedD(2) [OF 2(2)], of RW_POINTERS_SIB] by auto
  have run: "sweep_all_sibs_once (g_heap g) s = Some (Inr (b1 \<or> b2 \<or> b3, s3))"
    unfolding sweep_all_sibs_once_def using 1(1) 2(1) 3(1) by simp
  have all: "passed g sw0 s fwd dn s3 f3 d3" by (rule passed_trans [OF 1(2) passed_trans [OF 2(2) 3(2)]])
  have le: "to_copy g f1 \<le> to_copy g fwd" "to_copy g f2 \<le> to_copy g f1" "to_copy g f3 \<le> to_copy g f2"
    using passedD(3) 1(2) 2(2) 3(2) by blast+
  have ilks: "i = RO_POINTERS_SIB \<or> i = RO_CONSCELL_SIB \<or> i = RW_POINTERS_SIB" if "i \<noteq> NONPTR_DATA_SIB" for i
    using that by (cases i) simp_all
  have caught: "\<not> behind s3 i" if e: "to_copy g f3 = to_copy g fwd" and i: "i \<noteq> NONPTR_DATA_SIB" for i
  proof -
    have "to_copy g f3 = to_copy g f2" "to_copy g f2 = to_copy g f1" "to_copy g f1 = to_copy g fwd" using e le by simp_all
    then have "free_of i s3 = free_of i s2" "free_of i s2 = free_of i s1" "free_of i s1 = free_of i s"
      using passedD(4) 1(2) 2(2) 3(2) by blast+
    then show ?thesis using ilks [OF i] 1(4,5) 2(4,5) 3(4,5) by (auto simp: behind_def)
  qed
  have work: "to_copy g f3 < to_copy g fwd \<or> (\<exists>i. i \<noteq> NONPTR_DATA_SIB \<and> behind s i)" if b: "b1 \<or> b2 \<or> b3"
  proof (rule ccontr)
    assume no: "\<not> ?thesis"
    then have nb: "\<not> b1" using 1(3) by auto
    then have "s1 = s" using 1(6) by simp
    then have nb2: "\<not> b2" using 2(3) no by auto
    then have "s2 = s" using 2(6) \<open>s1 = s\<close> by simp
    then have "\<not> b3" using 3(3) no by auto
    then show False using b nb nb2 by simp
  qed
  have idle: "\<not> behind s3 i" if b: "\<not> (b1 \<or> b2 \<or> b3)" and i: "i \<noteq> NONPTR_DATA_SIB" for i
    using b 1(3,4,6) 2(3,4,6) 3(3,4,6) ilks [OF i] by auto
  show ?thesis using run all caught work idle by blast
qed

lemma copy_all_ok:
  assumes ok: "setting_ok g" and "copying g s fwd org dn ws"
    and "\<And>j. j \<noteq> NONPTR_DATA_SIB \<Longrightarrow> queue_ok g sw0 s dn j"
  shows "\<exists>s' fwd' dn'. copy_all_remaining_reachable_values_in_agegroup0_to_agegroup1 (g_heap g) s = Some (Inr s') \<and>
    passed g sw0 s fwd dn s' fwd' dn' \<and> (\<forall>i. i \<noteq> NONPTR_DATA_SIB \<longrightarrow> \<not> behind s' i)"
  using assms(2-)
proof (induction "2 * to_copy g fwd + (if \<exists>i. i \<noteq> NONPTR_DATA_SIB \<and> behind s i then 1 else 0)" arbitrary: s fwd org dn ws rule: less_induct)
  case less
  obtain b s1 f1 d1 where 1: "sweep_all_sibs_once (g_heap g) s = Some (Inr (b, s1))" "passed g sw0 s fwd dn s1 f1 d1"
    "b \<longrightarrow> to_copy g f1 < to_copy g fwd \<or> (\<exists>i. i \<noteq> NONPTR_DATA_SIB \<and> behind s i)"
    "to_copy g f1 = to_copy g fwd \<longrightarrow> (\<forall>i. i \<noteq> NONPTR_DATA_SIB \<longrightarrow> \<not> behind s1 i)"
    "\<not> b \<longrightarrow> (\<forall>i. i \<noteq> NONPTR_DATA_SIB \<longrightarrow> \<not> behind s1 i)"
    using sweep_all_sibs_once_ok [OF ok less.prems] by blast
  show ?case
  proof (cases b)
    case False
    then have "copy_all_remaining_reachable_values_in_agegroup0_to_agegroup1 (g_heap g) s = Some (Inr s1)"
      using 1(1) by (subst copy_all_remaining_reachable_values_in_agegroup0_to_agegroup1.simps) simp
    then show ?thesis using 1(2,5) False by blast
  next
    case True
    obtain o1 w1 where c1: "copying g s1 f1 o1 d1 w1" using passedD(1) [OF 1(2)] by blast
    have le: "to_copy g f1 \<le> to_copy g fwd" by (rule passedD(3) [OF 1(2)])
    have m: "2 * to_copy g f1 + (if \<exists>i. i \<noteq> NONPTR_DATA_SIB \<and> behind s1 i then 1 else 0)
        < 2 * to_copy g fwd + (if \<exists>i. i \<noteq> NONPTR_DATA_SIB \<and> behind s i then 1 else 0)"
    proof (cases "to_copy g f1 = to_copy g fwd")
      case same: True
      then have "\<not> (\<exists>i. i \<noteq> NONPTR_DATA_SIB \<and> behind s1 i)" "\<exists>i. i \<noteq> NONPTR_DATA_SIB \<and> behind s i"
        using 1(3,4) True by auto
      then show ?thesis using same by simp
    next
      case False
      then show ?thesis using le by auto
    qed
    obtain s2 f2 d2 where 2: "copy_all_remaining_reachable_values_in_agegroup0_to_agegroup1 (g_heap g) s1 = Some (Inr s2)"
      "passed g sw0 s1 f1 d1 s2 f2 d2" "\<forall>i. i \<noteq> NONPTR_DATA_SIB \<longrightarrow> \<not> behind s2 i"
      using less.hyps [OF m c1 passedD(2) [OF 1(2)]] by blast
    have "copy_all_remaining_reachable_values_in_agegroup0_to_agegroup1 (g_heap g) s = Some (Inr s2)"
      using 1(1) 2(1) True by (subst copy_all_remaining_reachable_values_in_agegroup0_to_agegroup1.simps) simp
    then show ?thesis using passed_trans [OF 1(2) 2(2)] 2(3) by blast
  qed
qed

end
