(* ===== verification/Minor_Changelog.thy ===== *)
theory Minor_Changelog
  imports Minor_Passes
begin

text \<open>
  The changelogs: every logged slot of an older agegroup is treated like a root, and its card is
  marked when the slot is older than what it points to afterwards.
\<close>

section \<open>Cards only get younger\<close>

definition cards_lower :: "(nat \<Rightarrow> cardmap option) \<Rightarrow> (nat \<Rightarrow> cardmap option) \<Rightarrow> bool" where
  "cards_lower cms cms' \<longleftrightarrow> (\<forall>a cm. cms a = Some cm \<longrightarrow> (\<exists>cm'. cms' a = Some cm' \<and> base_address cm' = base_address cm \<and>
     length (min_age cm') = length (min_age cm) \<and> (\<forall>k < length (min_age cm). uint (min_age cm' ! k) \<le> uint (min_age cm ! k))))"

lemma cards_lower_refl [simp]: "cards_lower cms cms"
  by (simp add: cards_lower_def)

lemma cards_lower_trans:
  assumes "cards_lower c1 c2" and "cards_lower c2 c3"
  shows "cards_lower c1 c3"
  unfolding cards_lower_def
proof (intro allI impI)
  fix a cm
  assume "c1 a = Some cm"
  then obtain cm2 where 2: "c2 a = Some cm2" "base_address cm2 = base_address cm" "length (min_age cm2) = length (min_age cm)"
    "\<forall>k < length (min_age cm). uint (min_age cm2 ! k) \<le> uint (min_age cm ! k)"
    using assms(1) unfolding cards_lower_def by blast
  then obtain cm3 where "c3 a = Some cm3" "base_address cm3 = base_address cm2" "length (min_age cm3) = length (min_age cm2)"
    "\<forall>k < length (min_age cm2). uint (min_age cm3 ! k) \<le> uint (min_age cm2 ! k)"
    using assms(2) unfolding cards_lower_def by blast
  then show "\<exists>cm'. c3 a = Some cm' \<and> base_address cm' = base_address cm \<and> length (min_age cm') = length (min_age cm) \<and>
      (\<forall>k < length (min_age cm). uint (min_age cm' ! k) \<le> uint (min_age cm ! k))"
    using 2 by fastforce
qed

definition card_ready :: "(nat \<Rightarrow> cardmap option) \<Rightarrow> nat \<Rightarrow> val \<Rightarrow> bool" where
  "card_ready cms a p \<longleftrightarrow> 0 < a \<and> (\<exists>cm. cms (a - 1) = Some cm \<and> POINTER_TO_CARD_INDEX cm p < length (min_age cm))"

definition card_notes :: "(nat \<Rightarrow> cardmap option) \<Rightarrow> nat \<Rightarrow> val \<Rightarrow> nat \<Rightarrow> bool" where
  "card_notes cms a p d \<longleftrightarrow> (\<exists>cm. cms (a - 1) = Some cm \<and> POINTER_TO_CARD_INDEX cm p < length (min_age cm) \<and>
     uint (min_age cm ! POINTER_TO_CARD_INDEX cm p) \<le> int d)"

lemma card_ready_lower: "cards_lower c c' \<Longrightarrow> card_ready c a p \<Longrightarrow> card_ready c' a p"
  unfolding cards_lower_def card_ready_def POINTER_TO_CARD_INDEX_def by fastforce

lemma card_notes_lower: "cards_lower c c' \<Longrightarrow> card_notes c a p d \<Longrightarrow> card_notes c' a p d"
  unfolding cards_lower_def card_notes_def POINTER_TO_CARD_INDEX_def by fastforce

lemma update_cardmap_ok:
  assumes "card_ready (cardmaps s) a p"
  shows "\<exists>cms. update_cardmap a p (int d) s = Inr (s\<lparr>cardmaps := cms\<rparr>) \<and> cards_lower (cardmaps s) cms \<and> card_notes cms a p d"
proof -
  obtain cm where cm: "cardmaps s (a - 1) = Some cm" and idx: "POINTER_TO_CARD_INDEX cm p < length (min_age cm)" and a: "0 < a"
    using assms by (auto simp: card_ready_def)
  let ?k = "POINTER_TO_CARD_INDEX cm p"
  let ?cm = "if int d < uint (min_age cm ! ?k) then cm\<lparr>min_age := (min_age cm)[?k := word_of_int (int d)]\<rparr> else cm"
  have up: "MAYBE_UPDATE_CARD_MIN_AGE_PER_POINTER cm p (int d) = Inr ?cm"
    using idx by (simp add: MAYBE_UPDATE_CARD_MIN_AGE_PER_POINTER_def Let_def)
  have small: "uint (word_of_int (int d) :: unt8) = int d" if "int d < uint (min_age cm ! ?k)"
  proof -
    have "int d < 256" using that uint_lt2p [of "min_age cm ! ?k"] by simp
    then show ?thesis by (simp only: unsigned_of_int) (simp add: take_bit_int_eq_self)
  qed
  have same: "POINTER_TO_CARD_INDEX ?cm p = ?k" by (simp add: POINTER_TO_CARD_INDEX_def)
  have "update_cardmap a p (int d) s = Inr (s\<lparr>cardmaps := (cardmaps s)(a - 1 := Some ?cm)\<rparr>)"
    using a cm up by (simp add: update_cardmap_def)
  moreover have "cards_lower (cardmaps s) ((cardmaps s)(a - 1 := Some ?cm))"
  proof -
    have "uint ((min_age cm)[?k := word_of_int (int d)] ! k) \<le> uint (min_age cm ! k)"
      if "int d < uint (min_age cm ! ?k)" "k < length (min_age cm)" for k
      using small [OF that(1)] that by (cases "k = ?k") (simp_all del: of_int_of_nat_eq)
    then show ?thesis using cm by (auto simp: cards_lower_def)
  qed
  moreover have "card_notes ((cardmaps s)(a - 1 := Some ?cm)) a p d"
    unfolding card_notes_def using same idx small by (intro exI [of _ ?cm]) auto
  ultimately show ?thesis by blast
qed

lemma note_if_older_ok:
  assumes "card_ready (cardmaps s) a p"
  shows "\<exists>cms. note_if_older a p (int d) s = Inr (s\<lparr>cardmaps := cms\<rparr>) \<and> cards_lower (cardmaps s) cms \<and> (d < a \<longrightarrow> card_notes cms a p d)"
proof (cases "d < a")
  case True
  then show ?thesis using update_cardmap_ok [OF assms, of d] by (auto simp: note_if_older_def)
next
  case False
  then have "note_if_older a p (int d) s = Inr (s\<lparr>cardmaps := cardmaps s\<rparr>)" by (simp add: note_if_older_def)
  then show ?thesis using False cards_lower_refl by blast
qed

section \<open>One logged slot\<close>

definition slot_sibid :: "setting \<Rightarrow> val \<Rightarrow> sibid" where
  "slot_sibid g p = SIBID_FOR_POINTER (hh_books (g_heap g)) p"

text \<open>The slots the cleaning looks at: those of the mapped agegroups other than 0.\<close>

definition older_slot :: "setting \<Rightarrow> val \<Rightarrow> bool" where
  "older_slot g p \<longleftrightarrow> slot_sibid g p \<noteq> AGEGROUP0_SIBID \<and> \<not> BOOK_IS_UNMAPPED (slot_sibid g p)"

definition pointee_ok :: "setting \<Rightarrow> nat \<Rightarrow> val \<Rightarrow> bool" where
  "pointee_ok g a w \<longleftrightarrow> (IS_POINTER w \<longrightarrow>
     (if SIBID_KIND_IS_CODE (slot_sibid g w)
      then GET_AGE_FROM_SIBID (slot_sibid g w) < a \<longrightarrow> (\<exists>d. get_age_of_codechunk (g_heap g) w = Inr (int d))
      else GET_AGE_FROM_SIBID (slot_sibid g w) = 0 \<longrightarrow> slot_sibid g w = AGEGROUP0_SIBID))"

definition change_ok :: "setting \<Rightarrow> (nat \<Rightarrow> cardmap option) \<Rightarrow> val \<Rightarrow> bool" where
  "change_ok g cms p \<longleftrightarrow> (older_slot g p \<longrightarrow> p \<in> g_starts g \<and> card_ready cms (GET_AGE_FROM_SIBID (slot_sibid g p)) p \<and>
     pointee_ok g (GET_AGE_FROM_SIBID (slot_sibid g p)) (g_words g p))"

definition change_noted :: "setting \<Rightarrow> val set \<Rightarrow> (nat \<Rightarrow> cardmap option) \<Rightarrow> val \<Rightarrow> bool" where
  "change_noted g dn cms p \<longleftrightarrow> (older_slot g p \<longrightarrow> p \<in> dn \<and>
     (young (g_heap g) (g_words g p) \<longrightarrow> 1 < GET_AGE_FROM_SIBID (slot_sibid g p) \<longrightarrow>
        card_notes cms (GET_AGE_FROM_SIBID (slot_sibid g p)) p 1))"

definition logged_to :: "setting \<Rightarrow> gc_state \<Rightarrow> (val \<rightharpoonup> val) \<Rightarrow> val set \<Rightarrow> gc_state \<Rightarrow> (val \<rightharpoonup> val) \<Rightarrow> val set \<Rightarrow> bool" where
  "logged_to g s fwd dn s' fwd' dn' \<longleftrightarrow> onward s fwd s' fwd' \<and> dn \<subseteq> dn' \<and> cards_lower (cardmaps s) (cardmaps s') \<and>
     (\<exists>org' ws'. copying g s' fwd' org' dn' ws')"

lemma logged_refl: "copying g s fwd org dn ws \<Longrightarrow> logged_to g s fwd dn s fwd dn"
  unfolding logged_to_def using onward_refl by auto

lemma logged_trans:
  assumes "logged_to g s fwd dn s' fwd' dn'" and "logged_to g s' fwd' dn' s'' fwd'' dn''"
  shows "logged_to g s fwd dn s'' fwd'' dn''"
proof -
  have "onward s fwd s'' fwd''" using assms onward_trans unfolding logged_to_def by blast
  moreover have "cards_lower (cardmaps s) (cardmaps s'')" using assms cards_lower_trans unfolding logged_to_def by blast
  ultimately show ?thesis using assms unfolding logged_to_def by blast
qed

lemma change_noted_later:
  "change_noted g dn (cardmaps s) p \<Longrightarrow> logged_to g s fwd dn s' fwd' dn' \<Longrightarrow> change_noted g dn' (cardmaps s') p"
  unfolding change_noted_def logged_to_def using card_notes_lower by blast

lemma logged_cards:
  assumes "logged_to g s fwd dn s' fwd' dn'" and "cards_lower (cardmaps s') cms"
  shows "logged_to g s fwd dn (s'\<lparr>cardmaps := cms\<rparr>) fwd' dn'"
proof -
  have "copying g (s'\<lparr>cardmaps := cms\<rparr>) = copying g s'"
    by (intro ext copying_same) (simp_all add: free_of_def)
  moreover have "onward s fwd (s'\<lparr>cardmaps := cms\<rparr>) fwd' = onward s fwd s' fwd'" by (simp add: onward_def free_of_def)
  moreover have "cards_lower (cardmaps s) cms" using assms cards_lower_trans unfolding logged_to_def by blast
  ultimately show ?thesis using assms(1) unfolding logged_to_def by simp
qed

lemma young_sibid:
  assumes "young (g_heap g) w"
  shows "slot_sibid g w = AGEGROUP0_SIBID" "IS_POINTER w" "\<not> SIBID_KIND_IS_CODE AGEGROUP0_SIBID" "GET_AGE_FROM_SIBID AGEGROUP0_SIBID = 0"
  using assms by (simp_all add: young_def slot_sibid_def SIBID_KIND_IS_CODE_def AGEGROUP0_SIBID_def MAKE_SIBID_def AGEGROUP0_def
      NEW_KIND_def GET_AGE_FROM_SIBID_def GET_KIND_FROM_SIBID_def CODE_KIND_def KIND_FROM_HUGESIB_def MAX_PLAIN_SIBS_def CODE__HUGE_SIB_def)

lemma process_young_change:
  assumes "older_slot g p" and y: "young (g_heap g) (gc_words s p)"
  shows "process_change (g_heap g) p s = seq_result (forward_to_agegroup1_if_in_agegroup0 (g_heap g) p s) (note_if_older (GET_AGE_FROM_SIBID (slot_sibid g p)) p 1)"
proof (cases "forward_agegroup0_chunk_to_agegroup1 (g_heap g) (gc_words s p) s")
  case (Inl e)
  then show ?thesis
    using assms young_sibid [OF y]
    by (simp add: process_change_def forward_to_agegroup1_if_in_agegroup0_def older_slot_def slot_sibid_def Let_def young_def AGEGROUP0_def)
next
  case (Inr r)
  then show ?thesis
    using assms young_sibid [OF y]
    by (cases r) (simp add: process_change_def forward_to_agegroup1_if_in_agegroup0_def older_slot_def slot_sibid_def Let_def young_def AGEGROUP0_def)
qed

lemma process_change_ok:
  assumes ok: "setting_ok g" and inv: "copying g s fwd org dn ws" and p: "change_ok g cms p" and cms: "cards_lower cms (cardmaps s)"
  shows "\<exists>s' fwd' dn'. process_change (g_heap g) p s = Inr s' \<and> logged_to g s fwd dn s' fwd' dn' \<and> change_noted g dn' (cardmaps s') p"
proof (cases "older_slot g p")
  case False
  then have "process_change (g_heap g) p s = Inr s" by (auto simp: process_change_def older_slot_def slot_sibid_def Let_def)
  then show ?thesis using logged_refl [OF inv] False by (auto simp: change_noted_def)
next
  case old: True
  let ?a = "GET_AGE_FROM_SIBID (slot_sibid g p)"
  have st: "p \<in> g_starts g" and ready: "card_ready (cardmaps s) ?a p" and pt: "pointee_ok g ?a (g_words g p)"
    using p old card_ready_lower [OF cms] by (simp_all add: change_ok_def)
  have sw: "sweepable g s p" using st by (simp add: sweepable_def)
  have iw: "inv_words g s fwd org dn" and sp: "inv_space g s fwd dn" using inv by (simp_all add: copying_def)
  have "\<forall>i. \<not> in_tospace g i p" using ok st by (simp add: setting_ok_def starts_ok_def)
  then have "\<forall>i. \<not> in_used g s i p" using used_in_tospace [OF sp] by blast
  then have o: "org p = g_words g p" using iw by (simp add: inv_words_def)
  have m: "gc_words s p = (if p \<in> dn then relocate fwd (g_words g p) else g_words g p)"
    using iw sweepable_place(1) [OF ok inv sw] o by (simp add: inv_words_def)
  obtain s1 fwd1 where f: "forward_to_agegroup1_if_in_agegroup0 (g_heap g) p s = Inr s1" "cleaned_to g s fwd s1 fwd1 (insert p dn)"
    using forward_slot_ok [OF ok inv sw] by blast
  have log: "logged_to g s fwd dn s1 fwd1 (insert p dn)" and c1: "cardmaps s1 = cardmaps s"
    using f(2) by (auto simp: cleaned_to_def logged_to_def)
  show ?thesis
  proof (cases "young (g_heap g) (gc_words s p)")
    case True
    obtain cms' where n: "note_if_older ?a p (int 1) s1 = Inr (s1\<lparr>cardmaps := cms'\<rparr>)" "cards_lower (cardmaps s1) cms'"
      "1 < ?a \<longrightarrow> card_notes cms' ?a p 1"
      using note_if_older_ok [of s1 ?a p 1] ready c1 by auto
    have "process_change (g_heap g) p s = Inr (s1\<lparr>cardmaps := cms'\<rparr>)"
      using process_young_change [OF old True] f(1) n(1) by simp
    then show ?thesis using logged_cards [OF log n(2)] n(3) by (auto simp: change_noted_def)
  next
    case False
    then have s1: "s1 = s" using f(1) by (auto simp: forward_to_agegroup1_if_in_agegroup0_def young_def Let_def)
    have src: "slot_sibid g p \<noteq> AGEGROUP0_SIBID" "\<not> BOOK_IS_UNMAPPED (slot_sibid g p)" using old by (simp_all add: older_slot_def)
    have finish: ?thesis if "process_change (g_heap g) p s = note_if_older ?a p (int d) s"
      and y: "young (g_heap g) (g_words g p) \<Longrightarrow> d = 1" for d
    proof -
      obtain cms' where n: "note_if_older ?a p (int d) s1 = Inr (s1\<lparr>cardmaps := cms'\<rparr>)" "cards_lower (cardmaps s1) cms'"
        "d < ?a \<longrightarrow> card_notes cms' ?a p d"
        using note_if_older_ok [of s1 ?a p d] ready c1 by auto
      then show ?thesis using that logged_cards [OF log n(2)] s1 by (auto simp: change_noted_def)
    qed
    have idle: ?thesis if "process_change (g_heap g) p s = Inr s" and "\<not> young (g_heap g) (g_words g p)"
      using that log s1 by (auto simp: change_noted_def)
    show ?thesis
    proof (cases "young (g_heap g) (g_words g p)")
      case True
      then have d: "p \<in> dn" using m False by (cases "p \<in> dn") simp_all
      then obtain n where n: "fwd (g_words g p) = Some n" using iw o True by (auto simp: inv_words_def)
      have "in_tospace g (home_sib (tag_of g (g_words g p))) n" by (rule copy_in_tospace [OF ok inv n])
      then have t: "GET_AGE_FROM_SIBID (slot_sibid g n) = 1" "\<not> SIBID_KIND_IS_CODE (slot_sibid g n)"
        using ok unfolding setting_ok_def tospaces_ok_def slot_sibid_def by blast+
      have "copy_placed g s (g_words g p) n" using inv n by (simp add: copying_def inv_copies_def)
      then have ptr: "IS_POINTER n" by (simp add: copy_placed_def IS_POINTER_iff)
      have "gc_words s p = n" using m d n by (simp add: relocate_def)
      then have "process_change (g_heap g) p s = note_if_older ?a p (int 1) s"
        using src t ptr by (simp add: process_change_def slot_sibid_def Let_def AGEGROUP0_def)
      then show ?thesis by (rule finish) simp
    next
      case ny: False
      have "gc_words s p = g_words g p"
      proof (cases "fwd (g_words g p)")
        case None
        then show ?thesis using m by (auto simp: relocate_def)
      next
        case (Some n)
        have "inv_from g s fwd" using inv by (simp add: copying_def)
        from forwarded_chunk(2) [OF ok this Some] ny show ?thesis by simp
      qed
      note w = this
      show ?thesis
      proof (cases "IS_POINTER (g_words g p)")
        case False
        then have "process_change (g_heap g) p s = Inr s" using w by (simp add: process_change_def Let_def)
        then show ?thesis using ny by (rule idle)
      next
        case ptr: True
        let ?w = "g_words g p"
        show ?thesis
        proof (cases "SIBID_KIND_IS_CODE (slot_sibid g ?w)")
          case False
          then have "GET_AGE_FROM_SIBID (slot_sibid g ?w) \<noteq> 0" using pt ptr ny by (auto simp: pointee_ok_def young_def slot_sibid_def)
          then have "process_change (g_heap g) p s = note_if_older ?a p (int (GET_AGE_FROM_SIBID (slot_sibid g ?w))) s"
            using w ptr src False by (simp add: process_change_def slot_sibid_def Let_def AGEGROUP0_def)
          then show ?thesis by (rule finish) (use ny in simp)
        next
          case code: True
          show ?thesis
          proof (cases "GET_AGE_FROM_SIBID (slot_sibid g ?w) < ?a")
            case False
            then have "process_change (g_heap g) p s = Inr s" using w ptr src code by (simp add: process_change_def slot_sibid_def Let_def)
            then show ?thesis using ny by (rule idle)
          next
            case True
            then obtain d where "get_age_of_codechunk (g_heap g) ?w = Inr (int d)" using pt ptr code by (auto simp: pointee_ok_def)
            then have "process_change (g_heap g) p s = note_if_older ?a p (int d) s"
              using w ptr src code True by (simp add: process_change_def slot_sibid_def Let_def)
            then show ?thesis by (rule finish) (use ny in simp)
          qed
        qed
      qed
    qed
  qed
qed

end
