(* ===== verification/Minor_Weakrefs.thy ===== *)
theory Minor_Weakrefs
  imports Minor_Changelog
begin

text \<open>
  The changelogs of all host threads, and the end of a cleaning: the chain of copied weak
  references is walked, and each is given the copy of what it refers to, or nulled out.
\<close>

section \<open>One changelog\<close>

fun changelog_cells :: "(val \<Rightarrow> val) \<Rightarrow> val \<Rightarrow> val list \<Rightarrow> bool" where
  "changelog_cells m c [] \<longleftrightarrow> c = HEAP_CHANGELOG_NIL"
| "changelog_cells m c (x # xs) \<longleftrightarrow> c = x \<and> c \<noteq> HEAP_CHANGELOG_NIL \<and> changelog_cells m (m (c + 4)) xs"

definition cell_ok :: "setting \<Rightarrow> val \<Rightarrow> bool" where
  "cell_ok g c \<longleftrightarrow> (\<forall>a \<in> {c, c + 4}. \<not> in_fromspace g a \<and> (\<forall>i. \<not> in_tospace g i a) \<and> a \<notin> g_starts g)"

definition log_ok :: "setting \<Rightarrow> (nat \<Rightarrow> cardmap option) \<Rightarrow> val \<Rightarrow> val list \<Rightarrow> bool" where
  "log_ok g cms c cells \<longleftrightarrow> changelog_cells (g_words g) c cells \<and> (\<forall>x \<in> set cells. cell_ok g x \<and> change_ok g cms (g_words g x))"

lemma cell_words:
  assumes inv: "copying g s fwd org dn ws" and c: "cell_ok g c" and a: "a \<in> {c, c + 4}"
  shows "gc_words s a = g_words g a"
proof -
  have iw: "inv_words g s fwd org dn" and sp: "inv_space g s fwd dn" using inv by (simp_all add: copying_def)
  have out: "\<not> in_fromspace g a" "\<forall>i. \<not> in_tospace g i a" "a \<notin> g_starts g" using c a by (auto simp: cell_ok_def)
  then have nu: "\<forall>i. \<not> in_used g s i a" using used_in_tospace [OF sp] by blast
  then have "a \<notin> dn" using sp out(3) by (auto simp: inv_space_def)
  then show ?thesis using iw out(1) nu by (simp add: inv_words_def)
qed

lemma process_changelog_ok:
  assumes ok: "setting_ok g" and "copying g s fwd org dn ws" and "log_ok g cms c cells" and "cards_lower cms (cardmaps s)"
  shows "\<exists>s' fwd' dn'. process_changelog_from (g_heap g) c s = Some (Inr s') \<and> logged_to g s fwd dn s' fwd' dn' \<and>
    (\<forall>x \<in> set cells. change_noted g dn' (cardmaps s') (g_words g x))"
  using assms(2-)
proof (induction cells arbitrary: c s fwd org dn ws)
  case Nil
  then have "process_changelog_from (g_heap g) c s = Some (Inr s)" by (subst process_changelog_from.simps) (simp add: log_ok_def)
  then show ?case using logged_refl [OF Nil.prems(1)] by auto
next
  case (Cons x cells)
  have c: "c = x" "c \<noteq> HEAP_CHANGELOG_NIL" and cell: "cell_ok g x" and p: "change_ok g cms (g_words g x)"
    and rest: "log_ok g cms (g_words g (x + 4)) cells"
    using Cons.prems(2) by (auto simp: log_ok_def)
  obtain s1 f1 d1 where 1: "process_change (g_heap g) (g_words g x) s = Inr s1" "logged_to g s fwd dn s1 f1 d1"
    "change_noted g d1 (cardmaps s1) (g_words g x)"
    using process_change_ok [OF ok Cons.prems(1) p Cons.prems(3)] by blast
  then obtain o1 w1 where c1: "copying g s1 f1 o1 d1 w1" and low: "cards_lower cms (cardmaps s1)"
    using cards_lower_trans [OF Cons.prems(3)] unfolding logged_to_def by blast
  obtain s2 f2 d2 where 2: "process_changelog_from (g_heap g) (g_words g (x + 4)) s1 = Some (Inr s2)"
    "logged_to g s1 f1 d1 s2 f2 d2" "\<forall>x \<in> set cells. change_noted g d2 (cardmaps s2) (g_words g x)"
    using Cons.IH [OF c1 rest low] by blast
  have "gc_words s x = g_words g x" "gc_words s (x + 4) = g_words g (x + 4)" using cell_words [OF Cons.prems(1) cell] by simp_all
  then have "process_changelog_from (g_heap g) c s = Some (Inr s2)"
    using c 1(1) 2(1) by (subst process_changelog_from.simps) (simp add: HEAP_CHANGELOG_HEAD_def HEAP_CHANGELOG_TAIL_def Let_def)
  moreover have "change_noted g d2 (cardmaps s2) (g_words g x)" by (rule change_noted_later [OF 1(3) 2(2)])
  ultimately show ?case using logged_trans [OF 1(2) 2(2)] 2(3) by auto
qed

section \<open>All changelogs\<close>

lemma logged_with_changelog:
  assumes "logged_to g s fwd dn s' fwd' dn'"
  shows "logged_to g (s\<lparr>heap_changelog := h\<rparr>) fwd dn (s'\<lparr>heap_changelog := h\<rparr>) fwd' dn'"
proof -
  have "copying g (s'\<lparr>heap_changelog := h\<rparr>) = copying g s'" by (intro ext copying_same) (simp_all add: free_of_def)
  then show ?thesis using assms by (simp add: logged_to_def onward_def free_of_def)
qed

definition logs_ok :: "setting \<Rightarrow> (nat \<Rightarrow> cardmap option) \<Rightarrow> (nat \<Rightarrow> Hostthread_Mode) \<Rightarrow> (nat \<Rightarrow> val) \<Rightarrow> (nat \<Rightarrow> val list) \<Rightarrow> nat list \<Rightarrow> bool" where
  "logs_ok g cms modes heads logs is \<longleftrightarrow> (\<forall>i \<in> set is. modes i \<noteq> HOSTTHREAD_IS_VOID \<longrightarrow> log_ok g cms (heads i) (logs i))"

definition logs_noted :: "setting \<Rightarrow> (nat \<Rightarrow> Hostthread_Mode) \<Rightarrow> (nat \<Rightarrow> val list) \<Rightarrow> nat list \<Rightarrow> val set \<Rightarrow> gc_state \<Rightarrow> bool" where
  "logs_noted g modes logs is dn s \<longleftrightarrow> (\<forall>i \<in> set is. modes i \<noteq> HOSTTHREAD_IS_VOID \<longrightarrow> heap_changelog s i = HEAP_CHANGELOG_NIL \<and>
     (\<forall>x \<in> set (logs i). change_noted g dn (cardmaps s) (g_words g x)))"

lemma process_task_ok:
  assumes ok: "setting_ok g" and inv: "copying g s fwd org dn ws" and l: "log_ok g cms (heap_changelog s t) cells"
    and low: "cards_lower cms (cardmaps s)"
  shows "\<exists>s' fwd' dn'. process_task_heap_changelog (g_heap g) t s = Some (Inr s') \<and>
    heap_changelog s' = (heap_changelog s)(t := HEAP_CHANGELOG_NIL) \<and>
    logged_to g s fwd dn (s'\<lparr>heap_changelog := heap_changelog s\<rparr>) fwd' dn' \<and>
    (\<forall>x \<in> set cells. change_noted g dn' (cardmaps s') (g_words g x))"
proof (cases "heap_changelog s t = HEAP_CHANGELOG_NIL")
  case True
  then have "cells = []" using l by (cases cells) (auto simp: log_ok_def)
  then show ?thesis
    using True logged_refl [OF inv] by (intro exI [of _ s] exI [of _ fwd] exI [of _ dn]) (auto simp: process_task_heap_changelog_def)
next
  case False
  obtain s1 f1 d1 where 1: "process_changelog_from (g_heap g) (heap_changelog s t) s = Some (Inr s1)"
    "logged_to g s fwd dn s1 f1 d1" "\<forall>x \<in> set cells. change_noted g d1 (cardmaps s1) (g_words g x)"
    using process_changelog_ok [OF ok inv l low] by blast
  have h: "heap_changelog s1 = heap_changelog s" using 1(2) by (simp add: logged_to_def onward_def)
  then have e: "s1\<lparr>heap_changelog := heap_changelog s\<rparr> = s1" by simp
  have "logged_to g s fwd dn (s1\<lparr>heap_changelog := heap_changelog s\<rparr>) f1 d1" unfolding e by (rule 1(2))
  then show ?thesis
    using False 1 h by (intro exI [of _ "s1\<lparr>heap_changelog := (heap_changelog s)(t := HEAP_CHANGELOG_NIL)\<rparr>"] exI [of _ f1] exI [of _ d1])
      (auto simp: process_task_heap_changelog_def)
qed

lemma process_changelogs_ok:
  assumes ok: "setting_ok g" and "copying g s fwd org dn ws" and "logs_ok g cms modes (heap_changelog s) logs is"
    and "cards_lower cms (cardmaps s)" and "distinct is"
  shows "\<exists>s' fwd' dn'. process_changelogs (g_heap g) modes is s = Some (Inr s') \<and> (\<forall>j. j \<notin> set is \<longrightarrow> heap_changelog s' j = heap_changelog s j) \<and>
    logged_to g s fwd dn (s'\<lparr>heap_changelog := heap_changelog s\<rparr>) fwd' dn' \<and> logs_noted g modes logs is dn' s'"
  using assms(2-)
proof (induction "is" arbitrary: s fwd org dn ws)
  case Nil
  then show ?case using logged_refl [OF Nil.prems(1)] by (intro exI [of _ s] exI [of _ fwd] exI [of _ dn]) (simp add: logs_noted_def)
next
  case (Cons i "is")
  show ?case
  proof (cases "modes i = HOSTTHREAD_IS_VOID")
    case True
    then have "logs_ok g cms modes (heap_changelog s) logs is" using Cons.prems(2) by (simp add: logs_ok_def)
    from Cons.IH [OF Cons.prems(1) this Cons.prems(3)] Cons.prems(4) True show ?thesis by (auto simp: logs_noted_def)
  next
    case False
    then have l: "log_ok g cms (heap_changelog s i) (logs i)" using Cons.prems(2) by (simp add: logs_ok_def)
    obtain s1 f1 d1 where 1: "process_task_heap_changelog (g_heap g) i s = Some (Inr s1)"
      "heap_changelog s1 = (heap_changelog s)(i := HEAP_CHANGELOG_NIL)"
      "logged_to g s fwd dn (s1\<lparr>heap_changelog := heap_changelog s\<rparr>) f1 d1"
      "\<forall>x \<in> set (logs i). change_noted g d1 (cardmaps s1) (g_words g x)"
      using process_task_ok [OF ok Cons.prems(1) l Cons.prems(3)] by blast
    have e: "copying g (s1\<lparr>heap_changelog := heap_changelog s\<rparr>) = copying g s1" by (intro ext copying_same) (simp_all add: free_of_def)
    then obtain o1 w1 where c1: "copying g s1 f1 o1 d1 w1" using 1(3) unfolding logged_to_def by auto
    have low: "cards_lower cms (cardmaps s1)" using 1(3) cards_lower_trans [OF Cons.prems(3)] by (simp add: logged_to_def)
    have ls: "logs_ok g cms modes (heap_changelog s1) logs is"
      using Cons.prems(2,4) 1(2) unfolding logs_ok_def by auto
    obtain s2 f2 d2 where 2: "process_changelogs (g_heap g) modes is s1 = Some (Inr s2)"
      "\<forall>j. j \<notin> set is \<longrightarrow> heap_changelog s2 j = heap_changelog s1 j"
      "logged_to g s1 f1 d1 (s2\<lparr>heap_changelog := heap_changelog s1\<rparr>) f2 d2" "logs_noted g modes logs is d2 s2"
      using Cons.IH [OF c1 ls low] Cons.prems(4) by auto
    have t: "logged_to g (s1\<lparr>heap_changelog := heap_changelog s\<rparr>) f1 d1 (s2\<lparr>heap_changelog := heap_changelog s\<rparr>) f2 d2"
      using logged_with_changelog [OF 2(3), of "heap_changelog s"] by simp
    have "change_noted g d2 (cardmaps s2) (g_words g x)" if "x \<in> set (logs i)" for x
      using change_noted_later [OF _ t] 1(4) that by simp
    moreover have "heap_changelog s2 i = HEAP_CHANGELOG_NIL" using 1(2) 2(2) Cons.prems(4) by simp
    ultimately have noted: "logs_noted g modes logs (i # is) d2 s2" using 2(4) by (simp add: logs_noted_def)
    have run: "process_changelogs (g_heap g) modes (i # is) s = Some (Inr s2)" using False 1(1) 2(1) by simp
    have "\<forall>j. j \<notin> set (i # is) \<longrightarrow> heap_changelog s2 j = heap_changelog s j" using 1(2) 2(2) by simp
    then show ?thesis using run logged_trans [OF 1(3) t] noted by blast
  qed
qed

section \<open>Weak references\<close>

definition weak_words :: "setting \<Rightarrow> (val \<rightharpoonup> val) \<Rightarrow> val \<Rightarrow> val \<times> val" where
  "weak_words g fwd v = (case fwd (slot_of g v 0) of Some n \<Rightarrow> (WEAKREF_TAGWORD, n) | None \<Rightarrow> (NULLED_WEAKREF_TAGWORD, HEAP_VOID))"

definition weak_places :: "(val \<rightharpoonup> val) \<Rightarrow> val list \<Rightarrow> val set" where
  "weak_places fwd ws = (\<Union>v \<in> set ws. {the (fwd v) - 4, the (fwd v)})"

lemma weak_chain_cong:
  assumes "weak_chain g fwd f ws" and "\<And>a. a \<in> weak_places fwd ws \<Longrightarrow> f' a = f a"
  shows "weak_chain g fwd f' ws"
  using assms by (induction ws) (auto simp: weak_places_def)

definition weakrefs_nulled :: "setting \<Rightarrow> (val \<rightharpoonup> val) \<Rightarrow> val list \<Rightarrow> gc_state \<Rightarrow> gc_state \<Rightarrow> bool" where
  "weakrefs_nulled g fwd ws s s' \<longleftrightarrow> s' = s\<lparr>gc_words := gc_words s'\<rparr> \<and>
     (\<forall>v \<in> set ws. gc_words s' (the (fwd v) - 4) = fst (weak_words g fwd v) \<and> gc_words s' (the (fwd v)) = snd (weak_words g fwd v)) \<and>
     (\<forall>a. a \<notin> weak_places fwd ws \<longrightarrow> gc_words s' a = gc_words s a)"

lemma null_out_weakref_ok:
  assumes y: "young (g_heap g) (slot_of g v 0)" and m: "gc_words s (p + 4) = MARK_POINTER (slot_of g v 0)"
    and f: "gc_words s (slot_of g v 0 - 4) = FORWARDED_CHUNK_TAGWORD \<longleftrightarrow> slot_of g v 0 \<in> dom fwd"
    and n: "\<And>k. fwd (slot_of g v 0) = Some k \<Longrightarrow> gc_words s (slot_of g v 0) = k \<and> slot_of g v 0 \<noteq> p"
  shows "null_out_weakref (g_heap g) p s = Inr (store (p + 4) (snd (weak_words g fwd v)) (store p (fst (weak_words g fwd v)) s))"
proof -
  have x: "UNMARK_POINTER (gc_words s (p + 4)) = slot_of g v 0" using m y by (simp add: young_def UNMARK_MARK_POINTER)
  have k: "GET_KIND_FROM_SIBID (SIBID_FOR_POINTER (hh_books (g_heap g)) (slot_of g v 0)) = NEW_KIND"
    using y by (simp add: young_def AGEGROUP0_SIBID_def MAKE_SIBID_def AGEGROUP0_def NEW_KIND_def GET_KIND_FROM_SIBID_def)
  show ?thesis
  proof (cases "fwd (slot_of g v 0)")
    case None
    then show ?thesis using f unfolding null_out_weakref_def Let_def x k by (simp add: weak_words_def domIff)
  next
    case (Some n)
    then show ?thesis
      using f assms(4) unfolding null_out_weakref_def Let_def x k
      by (simp add: weak_words_def domIff FOLLOW_FORWARDING_POINTER_def store_def)
  qed
qed

lemma weak_copy_place:
  assumes ok: "setting_ok g" and inv: "copying g s fwd org dn ws" and v: "fwd v = Some n" "is_weak (tag_of g v)"
  shows "unat (n - 4) = unat n - 4" "4 < unat n" "unat n mod 4 = 0" "in_copy g v n n" "in_copy g v n (n - 4)"
    "\<not> in_fromspace g n" "\<not> in_fromspace g (n - 4)"
proof -
  have pl: "copy_placed g s v n" and sp: "inv_space g s fwd dn" using inv v by (simp_all add: copying_def inv_copies_def)
  have np: "\<not> is_pair (tag_of g v)" "payload (tag_of g v) = 1" using v(2) by (auto simp: is_weak_def is_pair_def payload_def btag_defs)
  have b: "0 < unat (g_base g (home_sib (tag_of g v)))" using ok by (simp add: setting_ok_def tospaces_ok_def)
  show n4: "4 < unat n" using pl np b by (simp add: copy_placed_def)
  then show m: "unat (n - 4) = unat n - 4" by (simp add: unat_sub word_le_nat_alt)
  show "unat n mod 4 = 0" using pl by (simp add: copy_placed_def)
  show "in_copy g v n n" "in_copy g v n (n - 4)" using np n4 m by (simp_all add: in_copy_def)
  have "in_used g s (home_sib (tag_of g v)) n" "in_used g s (home_sib (tag_of g v)) (n - 4)"
    using pl np m unfolding in_used_def copy_placed_def by auto
  then show "\<not> in_fromspace g n" "\<not> in_fromspace g (n - 4)"
    using used_in_tospace [OF sp] tospace_fromspace [OF ok] by blast+
qed

lemma null_out_ok:
  assumes ok: "setting_ok g" and inv: "copying g s0 fwd org dn ws0"
    and "weak_chain g fwd (gc_words s) ws" and "\<And>a. in_fromspace g a \<Longrightarrow> gc_words s a = gc_words s0 a"
  shows "\<exists>s'. null_out_from (g_heap g) (weak_link fwd ws) s = Some (Inr s') \<and> weakrefs_nulled g fwd ws s s'"
  using assms(3-)
proof (induction ws arbitrary: s)
  case Nil
  then show ?case by (subst null_out_from.simps) (simp add: weak_link_def weakrefs_nulled_def weak_places_def)
next
  case (Cons v ws)
  obtain n where n: "fwd v = Some n" using Cons.prems(1) by auto
  have ch: "v \<notin> set ws" "is_weak (tag_of g v)" "young (g_heap g) (slot_of g v 0)" "gc_words s (n - 4) = MARK_POINTER (weak_link fwd ws)"
    "gc_words s n = MARK_POINTER (slot_of g v 0)" "weak_chain g fwd (gc_words s) ws"
    using Cons.prems(1) n by simp_all
  note pl = weak_copy_place [OF ok inv n ch(2)]
  have ck: "chunks_ok g" and fr: "inv_from g s0 fwd" using ok inv by (simp_all add: setting_ok_def copying_def)
  have vc: "v \<in> g_chunks g" by (rule forwarded_chunk(1) [OF ok fr n])
  let ?x = "slot_of g v 0"
  have xc: "?x \<in> g_chunks g"
    using ck vc ch(2,3) special_home [of "tag_of g v"] unfolding chunks_ok_def is_weak_def by auto
  have xf: "in_fromspace g ?x" "in_fromspace g (?x - 4)" using chunkD(8,9) [OF ck xc] xc by (auto simp: in_fromspace_def)
  let ?s = "store n (snd (weak_words g fwd v)) (store (n - 4) (fst (weak_words g fwd v)) s)"
  have "null_out_weakref (g_heap g) (n - 4) s =
      Inr (store (n - 4 + 4) (snd (weak_words g fwd v)) (store (n - 4) (fst (weak_words g fwd v)) s))"
  proof (rule null_out_weakref_ok)
    show "gc_words s (?x - 4) = FORWARDED_CHUNK_TAGWORD \<longleftrightarrow> ?x \<in> dom fwd"
      using forwarded_mark [OF ok inv xc] Cons.prems(2) [OF xf(2)] by simp
    show "gc_words s ?x = k \<and> ?x \<noteq> n - 4" if "fwd ?x = Some k" for k
      using that fr Cons.prems(2) [OF xf(1)] pl(7) xf(1) by (auto simp: inv_from_def)
  qed (use ch in simp_all)
  then have step: "null_out_weakref (g_heap g) (n - 4) s = Inr ?s" by simp
  have link: "UNMARK_POINTER (gc_words s (n - 4)) = weak_link fwd ws"
  proof -
    have "IS_POINTER (weak_link fwd ws)"
    proof (cases ws)
      case Nil
      then show ?thesis by (simp add: weak_link_def IS_POINTER_iff)
    next
      case (Cons u us)
      then obtain k where k: "fwd u = Some k" "is_weak (tag_of g u)" using ch(6) by auto
      note pk = weak_copy_place [OF ok inv k]
      have "unat (k - 4) mod 4 = 0" using pk(1,2,3) by presburger
      then show ?thesis using Cons k by (simp add: weak_link_def IS_POINTER_iff)
    qed
    then show ?thesis unfolding ch(4) by (rule UNMARK_MARK_POINTER)
  qed
  have apart: "n - 4 \<notin> weak_places fwd ws \<and> n \<notin> weak_places fwd ws"
  proof -
    have "n - 4 \<noteq> k \<and> n - 4 \<noteq> k - 4 \<and> n \<noteq> k \<and> n \<noteq> k - 4" if u: "u \<in> set ws" "fwd u = Some k" "is_weak (tag_of g u)" for u k
    proof -
      have "u \<noteq> v" using u(1) ch(1) by auto
      moreover have "fwd a = Some i \<Longrightarrow> fwd b = Some j \<Longrightarrow> in_copy g a i c \<Longrightarrow> in_copy g b j c \<Longrightarrow> a = b" for a b i j c
        using inv unfolding copying_def inv_copies_def by blast
      ultimately show ?thesis using pl(4,5) weak_copy_place(4,5) [OF ok inv u(2,3)] n u(2) by metis
    qed
    moreover have "\<exists>k. fwd u = Some k \<and> is_weak (tag_of g u)" if "u \<in> set us" "weak_chain g fwd f us" for u us f
      using that by (induction us) auto
    ultimately show ?thesis using ch(6) unfolding weak_places_def by fastforce
  qed
  have "weak_chain g fwd (gc_words ?s) ws" by (rule weak_chain_cong [OF ch(6)]) (use apart in \<open>auto simp: store_def\<close>)
  moreover have "gc_words ?s a = gc_words s0 a" if "in_fromspace g a" for a
    using that pl(6,7) Cons.prems(2) by (auto simp: store_def)
  ultimately obtain s' where s': "null_out_from (g_heap g) (weak_link fwd ws) ?s = Some (Inr s')" "weakrefs_nulled g fwd ws ?s s'"
    using Cons.IH by blast
  have "n - 4 \<noteq> 0" using pl(1,2) by (auto simp: word_unat_eq_iff)
  then have run: "null_out_from (g_heap g) (weak_link fwd (v # ws)) s = Some (Inr s')"
    using step link s'(1) n by (subst null_out_from.simps) (simp add: weak_link_def Let_def)
  have ne: "n - 4 \<noteq> n" using pl(1,2) by (auto simp: word_unat_eq_iff)
  have at: "gc_words s' (n - 4) = fst (weak_words g fwd v)" "gc_words s' n = snd (weak_words g fwd v)"
    using s'(2) apart ne unfolding weakrefs_nulled_def by (auto simp: store_def)
  have out: "gc_words s' a = gc_words s a" if "a \<notin> weak_places fwd (v # ws)" for a
    using s'(2) that n unfolding weakrefs_nulled_def by (auto simp: store_def weak_places_def)
  have "s' = ?s\<lparr>gc_words := gc_words s'\<rparr>" using s'(2) by (simp add: weakrefs_nulled_def)
  then have rest: "s' = s\<lparr>gc_words := gc_words s'\<rparr>" by (simp add: store_def)
  have "weakrefs_nulled g fwd (v # ws) s s'"
    unfolding weakrefs_nulled_def using rest at out s'(2) n by (simp add: weakrefs_nulled_def)
  with run show ?case by blast
qed

end
