(* ===== verification/Minor_Facts.thy ===== *)
theory Minor_Facts
  imports Minor_Weakrefs
begin

text \<open>
  What a minor heapcleaning does as a whole. From a well-formed heap with room in agegroup 1 for
  what is live in agegroup 0 it ends, and leaves a copy of every live chunk and of no other, whose
  slots, like the roots, point to the copies of what they pointed to; nothing the mutator can
  reach leads into agegroup 0 any more, logged slots are on their cards, and weak references
  refer to the copies of live chunks or are nulled out.
\<close>

section \<open>Where a cleaning starts and what it ends with\<close>

definition unswept :: "gc_state \<Rightarrow> val \<Rightarrow> bool" where
  "unswept s a \<longleftrightarrow> (\<exists>i. i \<noteq> NONPTR_DATA_SIB \<and> unat a mod 4 = 0 \<and>
     unat (swept_end (gc_sibs s i)) \<le> unat a \<and> unat a < unat (free_of i s))"

definition logged_slots :: "setting \<Rightarrow> (nat \<Rightarrow> Hostthread_Mode) \<Rightarrow> (nat \<Rightarrow> val list) \<Rightarrow> val set" where
  "logged_slots g modes logs =
     {p. \<exists>i < MAX_HOSTTHREADS. modes i \<noteq> HOSTTHREAD_IS_VOID \<and> (\<exists>x \<in> set (logs i). p = g_words g x) \<and> older_slot g p}"

definition ready_to_clean :: "setting \<Rightarrow> (nat \<Rightarrow> Hostthread_Mode) \<Rightarrow> val list \<Rightarrow> (nat \<Rightarrow> val list) \<Rightarrow> gc_state \<Rightarrow> bool" where
  "ready_to_clean g modes roots logs s \<longleftrightarrow> gc_words s = g_words g \<and> weakrefs_forwarded s = 0 \<and>
     (\<forall>i. free_of i s = g_base g i \<and> unat (g_base g i) + 4 * room_needed g i (live_chunks g) \<le> unat (g_limit g i)) \<and>
     (\<forall>i. i \<noteq> NONPTR_DATA_SIB \<longrightarrow> unat (swept_end (gc_sibs s i)) mod 4 = 0 \<and> unat (swept_end (gc_sibs s i)) \<le> unat (free_of i s)) \<and>
     logs_ok g (cardmaps s) modes (heap_changelog s) logs [0..<MAX_HOSTTHREADS] \<and>
     g_starts g = set roots \<union> logged_slots g modes logs \<union> {a. unswept s a}"

text \<open>The copy \<open>n\<close> of a chunk \<open>v\<close>; a weak reference whose chunk is not live loses it.\<close>

definition evacuated :: "setting \<Rightarrow> gc_state \<Rightarrow> (val \<rightharpoonup> val) \<Rightarrow> val \<Rightarrow> val \<Rightarrow> bool" where
  "evacuated g s fwd v n \<longleftrightarrow> (\<not> is_pair (tag_of g v) \<longrightarrow> gc_words s (n - 4) = tag_of g v) \<and>
     (\<forall>k < payload (tag_of g v). gc_words s (n + 4 * word_of_nat k) =
        (if home_sib (tag_of g v) = NONPTR_DATA_SIB then slot_of g v k else relocate fwd (slot_of g v k)))"

definition dying_weakref :: "setting \<Rightarrow> val \<Rightarrow> bool" where
  "dying_weakref g v \<longleftrightarrow> is_weak (tag_of g v) \<and> young (g_heap g) (slot_of g v 0) \<and> \<not> live g (slot_of g v 0)"

definition cleaned :: "setting \<Rightarrow> gc_state \<Rightarrow> gc_state \<Rightarrow> (val \<rightharpoonup> val) \<Rightarrow> bool" where
  "cleaned g s s' fwd \<longleftrightarrow> dom fwd = live_chunks g \<and>
     (\<forall>v n. fwd v = Some n \<longrightarrow> copy_placed g s' v n \<and> (\<not> dying_weakref g v \<longrightarrow> evacuated g s' fwd v n)) \<and>
     (\<forall>u v m n a. fwd u = Some m \<longrightarrow> fwd v = Some n \<longrightarrow> in_copy g u m a \<longrightarrow> in_copy g v n a \<longrightarrow> u = v) \<and>
     (\<forall>a \<in> g_starts g. gc_words s' a = relocate fwd (g_words g a)) \<and>
     (\<forall>a. a \<notin> g_starts g \<longrightarrow> \<not> in_fromspace g a \<longrightarrow> (\<forall>i. \<not> in_used g s' i a) \<longrightarrow> gc_words s' a = g_words g a) \<and>
     (\<forall>i. unat (free_of i s') \<le> unat (g_limit g i)) \<and>
     (\<forall>i a. i \<noteq> NONPTR_DATA_SIB \<longrightarrow> unat a mod 4 = 0 \<longrightarrow> unat (swept_end (gc_sibs s i)) \<le> unat a \<longrightarrow> unat a < unat (free_of i s') \<longrightarrow>
        \<not> young (g_heap g) (gc_words s' a))"

section \<open>The stages put together\<close>

lemma copying_start:
  assumes ok: "setting_ok g" and r: "ready_to_clean g modes roots logs s"
  shows "copying g s Map.empty (g_words g) {} []"
proof -
  have fr: "free_of i s = g_base g i" and room: "unat (g_base g i) + 4 * room_needed g i (live_chunks g) \<le> unat (g_limit g i)" for i
    using r by (simp_all add: ready_to_clean_def)
  have al: "unat (g_base g i) mod 4 = 0" for i using ok by (simp add: setting_ok_def tospaces_ok_def)
  have none: "\<not> in_used g s i a" for i a by (simp add: in_used_def fr)
  show ?thesis
    unfolding copying_def inv_from_def inv_copies_def inv_words_def inv_space_def inv_queue_def
    using r none room al by (simp add: ready_to_clean_def weak_link_def fr)
qed

text \<open>The state when all is copied and the weak references wait.\<close>

definition all_copied :: "setting \<Rightarrow> gc_state \<Rightarrow> (val \<rightharpoonup> val) \<Rightarrow> (val \<Rightarrow> val) \<Rightarrow> val set \<Rightarrow> val list \<Rightarrow> gc_state \<Rightarrow> bool" where
  "all_copied g s fwd org dn ws s0 \<longleftrightarrow> copying g s fwd org dn ws \<and> g_starts g \<subseteq> dn \<and>
     (\<forall>i a. i \<noteq> NONPTR_DATA_SIB \<longrightarrow> unat a mod 4 = 0 \<longrightarrow> unat (swept_end (gc_sibs s0 i)) \<le> unat a \<longrightarrow> unat a < unat (free_of i s) \<longrightarrow> a \<in> dn) \<and>
     (\<forall>i. i \<noteq> NONPTR_DATA_SIB \<longrightarrow> unat (swept_end (gc_sibs s0 i)) \<le> unat (g_base g i))"

lemma logged_slots_noted:
  assumes "logs_noted g modes logs [0..<MAX_HOSTTHREADS] dn s"
  shows "logged_slots g modes logs \<subseteq> dn"
  using assms by (auto simp: logged_slots_def logs_noted_def change_noted_def)

lemma all_copied_reached:
  fixes b :: bigcounter
  assumes ok: "setting_ok g" and r: "ready_to_clean g modes roots logs s0"
  defines "s1 \<equiv> s0\<lparr>gc_bytes_allocated := b\<rparr>"
  shows "\<exists>s2 s3 s4 fwd org dn ws. forward_roots (g_heap g) roots s1 = Inr s2 \<and>
    process_changelogs (g_heap g) modes [0..<MAX_HOSTTHREADS] s2 = Some (Inr s3) \<and>
    copy_all_remaining_reachable_values_in_agegroup0_to_agegroup1 (g_heap g) s3 = Some (Inr s4) \<and>
    all_copied g s4 fwd org dn ws s0 \<and> logs_noted g modes logs [0..<MAX_HOSTTHREADS] dn s4"
proof -
  have c0: "copying g s0 Map.empty (g_words g) {} []" by (rule copying_start [OF ok r])
  have c1: "copying g s1 Map.empty (g_words g) {} []"
    using c0 copying_same [of s1 s0] by (simp add: s1_def free_of_def)
  have rts: "set roots \<subseteq> g_starts g" using r by (auto simp: ready_to_clean_def)
  obtain s2 f2 where 2: "forward_roots (g_heap g) roots s1 = Inr s2" "cleaned_to g s1 Map.empty s2 f2 ({} \<union> set roots)"
    using forward_roots_ok [OF ok c1 rts] by blast
  then obtain o2 w2 where c2: "copying g s2 f2 o2 (set roots) w2" and on2: "onward s1 Map.empty s2 f2" and cm2: "cardmaps s2 = cardmaps s0"
    by (auto simp: cleaned_to_def s1_def)
  have h2: "heap_changelog s2 = heap_changelog s0" using on2 by (simp add: onward_def s1_def)
  have "logs_ok g (cardmaps s0) modes (heap_changelog s2) logs [0..<MAX_HOSTTHREADS]"
    unfolding h2 using r by (simp add: ready_to_clean_def)
  then obtain s3 f3 d3 where 3: "process_changelogs (g_heap g) modes [0..<MAX_HOSTTHREADS] s2 = Some (Inr s3)"
    "logged_to g s2 f2 (set roots) (s3\<lparr>heap_changelog := heap_changelog s2\<rparr>) f3 d3" "logs_noted g modes logs [0..<MAX_HOSTTHREADS] d3 s3"
    using process_changelogs_ok [OF ok c2, of "cardmaps s0" modes logs "[0..<MAX_HOSTTHREADS]"] cm2 cards_lower_refl distinct_upt by auto
  have "copying g (s3\<lparr>heap_changelog := heap_changelog s2\<rparr>) = copying g s3" by (intro ext copying_same) (simp_all add: free_of_def)
  then obtain o3 w3 where c3: "copying g s3 f3 o3 d3 w3" using 3(2) by (auto simp: logged_to_def)
  have on3: "onward s2 f2 (s3\<lparr>heap_changelog := heap_changelog s2\<rparr>) f3" and sub3: "set roots \<subseteq> d3" using 3(2) by (simp_all add: logged_to_def)
  have sw3: "swept_end (gc_sibs s3 i) = swept_end (gc_sibs s0 i)" for i using on2 on3 by (simp add: onward_def s1_def)
  have q3: "queue_ok g (\<lambda>i. swept_end (gc_sibs s0 i)) s3 d3 i" if i: "i \<noteq> NONPTR_DATA_SIB" for i
  proof -
    have al: "unat (swept_end (gc_sibs s0 i)) mod 4 = 0" and le: "unat (swept_end (gc_sibs s0 i)) \<le> unat (g_base g i)"
      and base: "free_of i s0 = g_base g i" and st: "unswept s0 a \<Longrightarrow> a \<in> g_starts g" for a
      using r i by (auto simp: ready_to_clean_def)
    have "a \<in> g_starts g" if "unat a mod 4 = 0" "unat (swept_end (gc_sibs s0 i)) \<le> unat a" "unat a < unat (g_base g i)" for a
      using that i base by (intro st) (auto simp: unswept_def)
    then show ?thesis using al le free_place(2) [OF c3, of i] by (simp add: queue_ok_def sw3)
  qed
  obtain s4 f4 d4 where 4: "copy_all_remaining_reachable_values_in_agegroup0_to_agegroup1 (g_heap g) s3 = Some (Inr s4)"
    "passed g (\<lambda>i. swept_end (gc_sibs s0 i)) s3 f3 d3 s4 f4 d4" "\<forall>i. i \<noteq> NONPTR_DATA_SIB \<longrightarrow> \<not> behind s4 i"
    using copy_all_ok [OF ok c3 q3] by blast
  then obtain o4 w4 where c4: "copying g s4 f4 o4 d4 w4" by (auto simp: passed_def)
  have sub4: "d3 \<subseteq> d4" and cm4: "cardmaps s4 = cardmaps s3" "heap_changelog s4 = heap_changelog s3" using 4(2) by (simp_all add: passed_def)
  have swept: "a \<in> d4" if a: "i \<noteq> NONPTR_DATA_SIB" "unat a mod 4 = 0" "unat (swept_end (gc_sibs s0 i)) \<le> unat a" "unat a < unat (free_of i s4)" for i a
  proof -
    have q: "queue_ok g (\<lambda>i. swept_end (gc_sibs s0 i)) s4 d4 i" using 4(2) a(1) by (simp add: passed_def)
    have "unat (free_of i s4) \<le> unat (swept_end (gc_sibs s4 i))" using 4(3) a(1) by (simp add: behind_def word_less_nat_alt not_less)
    then show ?thesis using q a by (simp add: queue_ok_def)
  qed
  have noted: "logs_noted g modes logs [0..<MAX_HOSTTHREADS] d4 s4"
    using 3(3) sub4 cm4 unfolding logs_noted_def change_noted_def by auto
  have base: "unat (swept_end (gc_sibs s0 i)) \<le> unat (g_base g i)" if "i \<noteq> NONPTR_DATA_SIB" for i
    using r that by (auto simp: ready_to_clean_def)
  have uns: "{a. unswept s0 a} \<subseteq> d4"
  proof
    fix a
    assume "a \<in> {a. unswept s0 a}"
    then obtain i where "i \<noteq> NONPTR_DATA_SIB" "unat a mod 4 = 0" "unat (swept_end (gc_sibs s0 i)) \<le> unat a" "unat a < unat (g_base g i)"
      using r by (auto simp: unswept_def ready_to_clean_def)
    then show "a \<in> d4" using swept free_place(2) [OF c4, of i] by fastforce
  qed
  have starts: "g_starts g \<subseteq> d4"
    using r sub3 sub4 logged_slots_noted [OF noted] uns by (simp add: ready_to_clean_def)
  have "all_copied g s4 f4 o4 d4 w4 s0" unfolding all_copied_def using c4 starts swept base by blast
  with 2(1) 3(1) 4(1) noted show ?thesis by blast
qed

lemma all_copiedD:
  assumes "all_copied g s fwd org dn ws s0"
  shows "copying g s fwd org dn ws" and "g_starts g \<subseteq> dn"
    and "i \<noteq> NONPTR_DATA_SIB \<Longrightarrow> unat a mod 4 = 0 \<Longrightarrow> unat (swept_end (gc_sibs s0 i)) \<le> unat a \<Longrightarrow> unat a < unat (free_of i s) \<Longrightarrow> a \<in> dn"
    and "i \<noteq> NONPTR_DATA_SIB \<Longrightarrow> unat (swept_end (gc_sibs s0 i)) \<le> unat (g_base g i)"
  using assms by (simp_all add: all_copied_def)

text \<open>An address of the copy of a chunk that is not plain data has been processed.\<close>

lemma copy_done:
  assumes ac: "all_copied g s fwd org dn ws s0" and n: "fwd v = Some n" and home: "home_sib (tag_of g v) \<noteq> NONPTR_DATA_SIB"
    and a: "in_copy g v n a" "unat a mod 4 = 0"
  shows "a \<in> dn"
proof (rule all_copiedD(3) [OF ac home a(2)])
  have pl: "copy_placed g s v n" using all_copiedD(1) [OF ac] n by (simp add: copying_def inv_copies_def)
  then show "unat a < unat (free_of (home_sib (tag_of g v)) s)" using a(1) unfolding copy_placed_def in_copy_def by linarith
  show "unat (swept_end (gc_sibs s0 (home_sib (tag_of g v)))) \<le> unat a"
    using pl a(1) all_copiedD(4) [OF ac home] unfolding copy_placed_def in_copy_def by linarith
qed

lemma copy_slot:
  assumes "copy_placed g s v n" and "k < payload (tag_of g v)"
  shows "unat (n + 4 * word_of_nat k) = unat n + 4 * k" and "in_copy g v n (n + 4 * word_of_nat k)"
    and "unat (n + 4 * word_of_nat k) mod 4 = 0" and "in_used g s (home_sib (tag_of g v)) (n + 4 * word_of_nat k)"
proof -
  have lt: "unat n + 4 * payload (tag_of g v) \<le> unat (free_of (home_sib (tag_of g v)) s)" using assms(1) by (simp add: copy_placed_def)
  then have "unat n + 4 * k < 2 ^ 32" using assms(2) unat_below [of "free_of (home_sib (tag_of g v)) s"] by linarith
  then show u: "unat (n + 4 * word_of_nat k) = unat n + 4 * k" by (rule unat_slot_nat)
  then show "in_copy g v n (n + 4 * word_of_nat k)" using assms(2) by (simp add: in_copy_def)
  show "unat (n + 4 * word_of_nat k) mod 4 = 0" using u assms(1) by (simp add: copy_placed_def)
  show "in_used g s (home_sib (tag_of g v)) (n + 4 * word_of_nat k)"
    using u lt assms unfolding in_used_def copy_placed_def by linarith
qed

lemma all_copied_live:
  assumes ok: "setting_ok g" and ac: "all_copied g s fwd org dn ws s0"
  shows "dom fwd = live_chunks g"
proof
  have inv: "copying g s fwd org dn ws" using ac by (simp add: all_copied_def)
  then have iw: "inv_words g s fwd org dn" and sp: "inv_space g s fwd dn" and ic: "inv_copies g s fwd org ws"
    and ch: "weak_chain g fwd org ws" and fr: "inv_from g s fwd" by (simp_all add: copying_def)
  show "dom fwd \<subseteq> live_chunks g" using inv by (simp add: copying_def inv_from_def)
  have done_young: "a \<in> dn \<Longrightarrow> young (g_heap g) (org a) \<Longrightarrow> org a \<in> dom fwd" for a using iw by (simp add: inv_words_def)
  have "v \<in> dom fwd" if "live g v" for v
    using that
  proof induction
    case (start a)
    have "\<forall>i. \<not> in_tospace g i a" using ok start(1) by (simp add: setting_ok_def starts_ok_def)
    then have "org a = g_words g a" using iw used_in_tospace [OF sp] unfolding inv_words_def by blast
    moreover have "a \<in> dn" using ac start(1) by (auto simp: all_copied_def)
    ultimately show ?case using done_young [of a] start(2) by simp
  next
    case (field v k)
    then obtain n where n: "fwd v = Some n" by auto
    have home: "home_sib (tag_of g v) \<noteq> NONPTR_DATA_SIB" "\<not> is_weak (tag_of g v)" using field(2) by (simp_all add: strong_def)
    have weak: "u \<in> set us \<Longrightarrow> weak_chain g fwd f us \<Longrightarrow> is_weak (tag_of g u)" for u us f by (induction us) auto
    then have "v \<notin> set ws" using home(2) ch by blast
    then have o: "org (n + 4 * word_of_nat k) = slot_of g v k" and pl: "copy_placed g s v n"
      using ic n field(3) by (simp_all add: inv_copies_def copy_stands_for_def)
    have "n + 4 * word_of_nat k \<in> dn"
      by (rule copy_done [OF ac n home(1) copy_slot(2,3) [OF pl field(3)]])
    from done_young [OF this] show ?case using o field(4) by simp
  qed
  then show "live_chunks g \<subseteq> dom fwd" by (auto simp: live_chunks_def)
qed

section \<open>After the weak references\<close>

lemma done_place:
  assumes ok: "setting_ok g" and inv: "copying g s fwd org dn ws" and a: "a \<in> dn"
  shows "\<not> in_fromspace g a" and "\<not> in_tospace g NONPTR_DATA_SIB a"
    and "gc_words s a = relocate fwd (org a)" and "\<not> young (g_heap g) (gc_words s a)"
proof -
  have sp: "inv_space g s fwd dn" and iw: "inv_words g s fwd org dn" and fr: "inv_from g s fwd" using inv by (simp_all add: copying_def)
  have start: "\<not> in_fromspace g a \<and> (\<forall>i. \<not> in_tospace g i a)" if "a \<in> g_starts g"
    using ok that by (simp add: setting_ok_def starts_ok_def)
  have used: "a \<in> g_starts g \<or> (\<exists>i. i \<noteq> NONPTR_DATA_SIB \<and> in_tospace g i a)"
    using sp a used_in_tospace [OF sp] unfolding inv_space_def by blast
  then show nf: "\<not> in_fromspace g a" and "\<not> in_tospace g NONPTR_DATA_SIB a"
    using start tospace_fromspace [OF ok] tospace_unique [OF ok] by blast+
  show m: "gc_words s a = relocate fwd (org a)" using iw nf a by (simp add: inv_words_def)
  have y: "young (g_heap g) (org a) \<Longrightarrow> org a \<in> dom fwd" using iw a by (simp add: inv_words_def)
  show "\<not> young (g_heap g) (gc_words s a)"
  proof (cases "fwd (org a)")
    case None
    then show ?thesis using m y by (auto simp: relocate_def)
  next
    case (Some n)
    then show ?thesis using m tospace_not_young [OF ok copy_in_tospace [OF ok inv Some]] by (simp add: relocate_def)
  qed
qed

lemma weak_chain_members:
  "weak_chain g fwd f ws \<Longrightarrow> v \<in> set ws \<Longrightarrow> (\<exists>n. fwd v = Some n) \<and> is_weak (tag_of g v) \<and> young (g_heap g) (slot_of g v 0)"
  by (induction ws) auto

lemma weak_places_used:
  assumes ok: "setting_ok g" and inv: "copying g s fwd org dn ws" and a: "a \<in> weak_places fwd ws"
  obtains v n where "v \<in> set ws" "fwd v = Some n" "in_copy g v n a" "a = n \<or> a = n - 4" "is_weak (tag_of g v)"
    "in_used g s (home_sib (tag_of g v)) a"
proof -
  have ch: "weak_chain g fwd org ws" using inv by (simp add: copying_def)
  from a obtain v where v: "v \<in> set ws" "a = the (fwd v) \<or> a = the (fwd v) - 4" by (auto simp: weak_places_def)
  then obtain n where n: "fwd v = Some n" "is_weak (tag_of g v)" using weak_chain_members [OF ch] by blast
  note pl = weak_copy_place [OF ok inv n]
  have cp: "copy_placed g s v n" using inv n by (simp add: copying_def inv_copies_def)
  have ic: "in_copy g v n a" using v(2) n pl(4,5) by auto
  then have "in_used g s (home_sib (tag_of g v)) a" using cp unfolding in_used_def copy_placed_def in_copy_def by linarith
  then show thesis using that v n ic by auto
qed

lemma copy_stable:
  assumes ok: "setting_ok g" and inv: "copying g s fwd org dn ws" and n: "fwd v = Some n" "v \<notin> set ws" and a: "in_copy g v n a"
  shows "a \<notin> weak_places fwd ws"
proof
  assume "a \<in> weak_places fwd ws"
  then obtain u k where u: "u \<in> set ws" "fwd u = Some k" "in_copy g u k a" using weak_places_used [OF ok inv] by metis
  then have "u = v" using inv n(1) a unfolding copying_def inv_copies_def by blast
  then show False using u(1) n(2) by simp
qed

lemma evacuated_plain:
  assumes ok: "setting_ok g" and ac: "all_copied g s fwd org dn ws s0" and n: "fwd v = Some n" "v \<notin> set ws"
    and m: "\<And>a. a \<notin> weak_places fwd ws \<Longrightarrow> gc_words s' a = gc_words s a"
  shows "evacuated g s' fwd v n"
proof -
  note inv = all_copiedD(1) [OF ac]
  have sp: "inv_space g s fwd dn" and iw: "inv_words g s fwd org dn" and fr: "inv_from g s fwd" and ic: "inv_copies g s fwd org ws"
    using inv by (simp_all add: copying_def)
  have st: "copy_stands_for g org v n" and pl: "copy_placed g s v n" using ic n by (simp_all add: inv_copies_def)
  have vc: "chunk_tag (tag_of g v)" using chunkD(2) [of g v] forwarded_chunk(1) [OF ok fr n(1)] ok by (simp add: setting_ok_def)
  have pay: "0 < payload (tag_of g v)" by (rule forwarded_chunk(3) [OF ok fr n(1)])
  have word: "gc_words s' a = (if a \<in> dn then relocate fwd (org a) else org a)" if "in_copy g v n a" for a
  proof -
    have "in_used g s (home_sib (tag_of g v)) a" using that pl unfolding in_used_def copy_placed_def in_copy_def by linarith
    then have "\<not> in_fromspace g a" by (intro tospace_fromspace [OF ok] used_in_tospace [OF sp])
    then show ?thesis using iw m [OF copy_stable [OF ok inv n that]] by (simp add: inv_words_def)
  qed
  show ?thesis unfolding evacuated_def
  proof (intro conjI impI allI)
    assume np: "\<not> is_pair (tag_of g v)"
    have "unat (n - 4) = unat n - 4" using pl np by (simp add: copy_placed_def unat_sub word_le_nat_alt)
    then have "in_copy g v n (n - 4)" using pl np pay by (simp add: in_copy_def copy_placed_def)
    moreover have o: "org (n - 4) = tag_of g v" using st np by (simp add: copy_stands_for_def)
    have "fwd (tag_of g v) = None"
    proof (cases "fwd (tag_of g v)")
      case (Some k)
      then show ?thesis using forwarded_chunk(2) [OF ok fr Some] vc by (simp add: chunk_tag_def)
    qed simp
    then have "relocate fwd (tag_of g v) = tag_of g v" by (simp add: relocate_def)
    ultimately show "gc_words s' (n - 4) = tag_of g v" using word o by simp
  next
    fix k
    assume k: "k < payload (tag_of g v)"
    let ?a = "n + 4 * word_of_nat k"
    note c = copy_slot [OF pl k]
    have o: "org ?a = slot_of g v k" using st k by (simp add: copy_stands_for_def)
    show "gc_words s' ?a = (if home_sib (tag_of g v) = NONPTR_DATA_SIB then slot_of g v k else relocate fwd (slot_of g v k))"
    proof (cases "home_sib (tag_of g v) = NONPTR_DATA_SIB")
      case True
      then have "in_tospace g NONPTR_DATA_SIB ?a" using used_in_tospace [OF sp c(4)] by simp
      then have "?a \<notin> dn" using done_place(2) [OF ok inv] by blast
      then show ?thesis using word [OF c(2)] o True by simp
    next
      case False
      then have "?a \<in> dn" using copy_done [OF ac n(1) _ c(2,3)] by simp
      then show ?thesis using word [OF c(2)] o False by simp
    qed
  qed
qed

lemma evacuated_weak:
  assumes ok: "setting_ok g" and ac: "all_copied g s fwd org dn ws s0" and n: "fwd v = Some n" "v \<in> set ws"
    and m: "gc_words s' (n - 4) = fst (weak_words g fwd v)" "gc_words s' n = snd (weak_words g fwd v)"
  shows "if live g (slot_of g v 0) then evacuated g s' fwd v n else gc_words s' (n - 4) = NULLED_WEAKREF_TAGWORD \<and> gc_words s' n = HEAP_VOID"
proof -
  note inv = all_copiedD(1) [OF ac]
  have ch: "weak_chain g fwd org ws" and fr: "inv_from g s fwd" using inv by (simp_all add: copying_def)
  note w = weak_chain_members [OF ch n(2)]
  have dom: "live g x \<longleftrightarrow> x \<in> dom fwd" for x using all_copied_live [OF ok ac] by (auto simp: live_chunks_def)
  have tag: "tag_of g v = WEAKREF_TAGWORD"
    using w chunkD(2) [of g v] forwarded_chunk(1) [OF ok fr n(1)] ok by (intro weak_tagword) (auto simp: setting_ok_def chunk_tag_def)
  have "payload (tag_of g v) = 1" "home_sib (tag_of g v) = RW_POINTERS_SIB" using special_home w by (auto simp: is_weak_def)
  then show ?thesis
    using m dom [of "slot_of g v 0"] tag by (auto simp: evacuated_def weak_words_def relocate_def)
qed

text \<open>A dying weak reference is one of those that waited.\<close>

lemma dying_waited:
  assumes ok: "setting_ok g" and ac: "all_copied g s fwd org dn ws s0" and n: "fwd v = Some n" and d: "dying_weakref g v"
  shows "v \<in> set ws"
proof (rule ccontr)
  assume nw: "v \<notin> set ws"
  note inv = all_copiedD(1) [OF ac]
  have iw: "inv_words g s fwd org dn" and ic: "inv_copies g s fwd org ws" using inv by (simp_all add: copying_def)
  have weak: "is_weak (tag_of g v)" using d by (simp add: dying_weakref_def)
  have sh: "payload (tag_of g v) = 1" "home_sib (tag_of g v) = RW_POINTERS_SIB" using special_home weak by (auto simp: is_weak_def)
  have st: "copy_stands_for g org v n" using ic n nw by (simp add: inv_copies_def)
  have o: "org n = slot_of g v 0" using st sh(1) by (simp add: copy_stands_for_def)
  note pl = weak_copy_place [OF ok inv n weak]
  have "n \<in> dn" by (rule copy_done [OF ac n _ pl(4,3)]) (use sh in simp)
  then have "slot_of g v 0 \<in> dom fwd" using iw o d by (auto simp: inv_words_def dying_weakref_def)
  then show False using d all_copied_live [OF ok ac] by (auto simp: dying_weakref_def live_chunks_def)
qed

lemma nulled_cleaned:
  assumes ok: "setting_ok g" and ac: "all_copied g s fwd org dn ws s0" and wn: "weakrefs_nulled g fwd ws s s'"
  shows "cleaned g s0 s' fwd" and "fwd v = Some n \<Longrightarrow> dying_weakref g v \<Longrightarrow> gc_words s' (n - 4) = NULLED_WEAKREF_TAGWORD \<and> gc_words s' n = HEAP_VOID"
proof -
  note inv = all_copiedD(1) [OF ac]
  have sp: "inv_space g s fwd dn" and iw: "inv_words g s fwd org dn" and ic: "inv_copies g s fwd org ws" and ch: "weak_chain g fwd org ws"
    and fr: "inv_from g s fwd"
    using inv by (simp_all add: copying_def)
  have e: "s' = s\<lparr>gc_words := gc_words s'\<rparr>" using wn by (simp add: weakrefs_nulled_def)
  have fs: "free_of i s' = free_of i s" for i by (subst e) (simp add: free_of_def)
  have us: "in_used g s' = in_used g s" by (simp add: in_used_def fun_eq_iff fs)
  have out: "a \<notin> weak_places fwd ws \<Longrightarrow> gc_words s' a = gc_words s a" for a using wn by (simp add: weakrefs_nulled_def)
  have at: "gc_words s' (n - 4) = fst (weak_words g fwd v)" "gc_words s' n = snd (weak_words g fwd v)"
    if "v \<in> set ws" "fwd v = Some n" for v n using wn that by (auto simp: weakrefs_nulled_def)
  note dom = all_copied_live [OF ok ac]
  have unused: "a \<notin> weak_places fwd ws" if "\<forall>i. \<not> in_used g s i a" for a using weak_places_used [OF ok inv] that by metis
  show dying: "gc_words s' (n - 4) = NULLED_WEAKREF_TAGWORD \<and> gc_words s' n = HEAP_VOID" if "fwd v = Some n" "dying_weakref g v" for v n
    using evacuated_weak [OF ok ac that(1) _ at] dying_waited [OF ok ac that] that by (simp add: dying_weakref_def)
  have ev: "evacuated g s' fwd v n" if n: "fwd v = Some n" and nd: "\<not> dying_weakref g v" for v n
  proof (cases "v \<in> set ws")
    case True
    then have "live g (slot_of g v 0)" using weak_chain_members [OF ch True] nd by (simp add: dying_weakref_def)
    then show ?thesis using evacuated_weak [OF ok ac n True at [OF True n]] by simp
  next
    case False
    then show ?thesis by (rule evacuated_plain [OF ok ac n _ out])
  qed
  have starts: "gc_words s' a = relocate fwd (g_words g a)" if a: "a \<in> g_starts g" for a
  proof -
    have d: "a \<in> dn" using all_copiedD(2) [OF ac] a by blast
    have "\<forall>i. \<not> in_tospace g i a" using ok a by (simp add: setting_ok_def starts_ok_def)
    then have nu: "\<forall>i. \<not> in_used g s i a" using used_in_tospace [OF sp] by blast
    then have "org a = g_words g a" using iw by (simp add: inv_words_def)
    then show ?thesis using done_place(3) [OF ok inv d] out [OF unused [OF nu]] by simp
  qed
  have others: "gc_words s' a = g_words g a" if a: "a \<notin> g_starts g" "\<not> in_fromspace g a" "\<forall>i. \<not> in_used g s' i a" for a
  proof -
    have nu: "\<forall>i. \<not> in_used g s i a" using a(3) us by simp
    then have "a \<notin> dn" using sp a(1) by (auto simp: inv_space_def)
    then show ?thesis using iw a(2) nu out [OF unused [OF nu]] by (simp add: inv_words_def)
  qed
  have old: "\<not> young (g_heap g) (gc_words s' a)" if a: "a \<in> dn" for a
  proof (cases "a \<in> weak_places fwd ws")
    case False
    then show ?thesis using done_place(4) [OF ok inv a] out by simp
  next
    case True
    then obtain v n where v: "v \<in> set ws" "fwd v = Some n" "a = n \<or> a = n - 4" using weak_places_used [OF ok inv] by metis
    have tags: "IS_TAGWORD WEAKREF_TAGWORD" "IS_TAGWORD NULLED_WEAKREF_TAGWORD"
      unfolding WEAKREF_TAGWORD_def NULLED_WEAKREF_TAGWORD_def by (rule IS_TAGWORD_MAKE_TAGWORD; simp add: ctag_defs)+
    have void: "\<not> young (g_heap g) HEAP_VOID" by (simp add: young_def IS_POINTER_iff HEAP_VOID_def TAGGED_INT_FROM_C_INT_def)
    have "\<not> young (g_heap g) k" if "fwd (slot_of g v 0) = Some k" for k
      by (rule tospace_not_young [OF ok copy_in_tospace [OF ok inv that]])
    then show ?thesis using v at [OF v(1,2)] tags void by (auto simp: weak_words_def split: option.splits)
  qed
  have lim: "unat (free_of i s') \<le> unat (g_limit g i)" for i
  proof -
    have "unat (free_of i s) + 4 * room_needed g i (live_chunks g - dom fwd) \<le> unat (g_limit g i)" using sp by (simp add: inv_space_def)
    then show ?thesis unfolding fs by linarith
  qed
  have placed: "copy_placed g s' v n" if "fwd v = Some n" for v n
    using ic that by (simp add: inv_copies_def copy_placed_def fs)
  have apart: "fwd u = Some m \<Longrightarrow> fwd v = Some n \<Longrightarrow> in_copy g u m a \<Longrightarrow> in_copy g v n a \<Longrightarrow> u = v" for u v m n a
    using ic unfolding inv_copies_def by blast
  show "cleaned g s0 s' fwd"
    unfolding cleaned_def using dom placed ev apart starts others lim old all_copiedD(3) [OF ac] fs by (auto simp: fs)
qed

end
