(* ===== verification/Minor_Properties.thy ===== *)
theory Minor_Properties
  imports Minor_Facts
begin

text \<open>
  The properties of a minor heapcleaning, with a small heap that has a pair that points to itself,
  a weak reference to a dead refcell, and a slot of agegroup 2 on a changelog.
\<close>

section \<open>The whole cleaning\<close>

lemma weak_chain_marks:
  "weak_chain g fwd f ws \<Longrightarrow> a \<in> weak_places fwd ws \<Longrightarrow> \<exists>w. f a = MARK_POINTER w"
  by (induction ws) (auto simp: weak_places_def)

lemma weak_words_in_place:
  assumes ok: "setting_ok g" and inv: "copying g s fwd org dn ws"
  shows "weak_chain g fwd (gc_words s) ws"
proof (rule weak_chain_cong)
  show ch: "weak_chain g fwd org ws" using inv by (simp add: copying_def)
  have sp: "inv_space g s fwd dn" and iw: "inv_words g s fwd org dn" and fr: "inv_from g s fwd" using inv by (simp_all add: copying_def)
  fix a
  assume a: "a \<in> weak_places fwd ws"
  obtain v n where "in_used g s (home_sib (tag_of g v)) a" using weak_places_used [OF ok inv a] by metis
  then have nf: "\<not> in_fromspace g a" by (intro tospace_fromspace [OF ok] used_in_tospace [OF sp])
  have "fwd (org a) = None"
  proof (cases "fwd (org a)")
    case (Some k)
    then show ?thesis using forwarded_chunk(2) [OF ok fr Some] weak_chain_marks [OF ch a] by auto
  qed simp
  then have "relocate fwd (org a) = org a" by (simp add: relocate_def)
  then show "gc_words s a = org a" using iw nf by (simp add: inv_words_def)
qed

lemma null_out_newly_dead_weakrefs_ok:
  assumes ok: "setting_ok g" and inv: "copying g s fwd org dn ws"
  shows "\<exists>s'. null_out_newly_dead_weakrefs (g_heap g) s = Some (Inr (s'\<lparr>weakrefs_forwarded := 0\<rparr>)) \<and> weakrefs_nulled g fwd ws s s'"
proof (cases "weakrefs_forwarded s = 0")
  case True
  have link: "weakrefs_forwarded s = weak_link fwd ws" and ch: "weak_chain g fwd org ws" using inv by (simp_all add: copying_def)
  have "ws = []"
  proof (cases ws)
    case (Cons v us)
    then obtain n where n: "fwd v = Some n" "is_weak (tag_of g v)" using ch by auto
    note pl = weak_copy_place [OF ok inv n]
    have "weak_link fwd ws = n - 4" using Cons n by (simp add: weak_link_def)
    then have "unat (n - 4) = 0" using True link by simp
    then show ?thesis using pl(1,2) by simp
  qed simp
  then have "weakrefs_nulled g fwd ws s s" by (simp add: weakrefs_nulled_def weak_places_def)
  moreover have "s\<lparr>weakrefs_forwarded := 0\<rparr> = s" using True by simp
  ultimately show ?thesis using True unfolding null_out_newly_dead_weakrefs_def by (intro exI [of _ s]) simp
next
  case False
  have "weakrefs_forwarded s = weak_link fwd ws" using inv by (simp add: copying_def)
  then show ?thesis
    using null_out_ok [OF ok inv weak_words_in_place [OF ok inv]] False by (auto simp: null_out_newly_dead_weakrefs_def)
qed

lemma cleaned_same:
  assumes "gc_words s'' = gc_words s'" and "\<And>i. free_of i s'' = free_of i s'"
  shows "cleaned g s s'' fwd = cleaned g s s' fwd"
proof -
  have "in_used g s'' = in_used g s'" using assms(2) by (simp add: in_used_def fun_eq_iff)
  then show ?thesis using assms unfolding cleaned_def copy_placed_def evacuated_def by simp
qed

definition weakrefs_settled :: "setting \<Rightarrow> gc_state \<Rightarrow> (val \<rightharpoonup> val) \<Rightarrow> bool" where
  "weakrefs_settled g s' fwd \<longleftrightarrow> weakrefs_forwarded s' = 0 \<and>
     (\<forall>v n. fwd v = Some n \<longrightarrow> dying_weakref g v \<longrightarrow> gc_words s' (n - 4) = NULLED_WEAKREF_TAGWORD \<and> gc_words s' n = HEAP_VOID)"

definition changes_noted :: "setting \<Rightarrow> (nat \<Rightarrow> Hostthread_Mode) \<Rightarrow> (nat \<Rightarrow> val list) \<Rightarrow> gc_state \<Rightarrow> bool" where
  "changes_noted g modes logs s' \<longleftrightarrow>
     (\<forall>i < MAX_HOSTTHREADS. modes i \<noteq> HOSTTHREAD_IS_VOID \<longrightarrow> heap_changelog s' i = HEAP_CHANGELOG_NIL) \<and>
     (\<forall>p \<in> logged_slots g modes logs. young (g_heap g) (g_words g p) \<longrightarrow> 1 < GET_AGE_FROM_SIBID (slot_sibid g p) \<longrightarrow>
        card_notes (cardmaps s') (GET_AGE_FROM_SIBID (slot_sibid g p)) p 1)"

lemma minor_cleaning:
  assumes ok: "setting_ok g" and r: "ready_to_clean g modes roots logs s"
  shows "\<exists>s' fwd. heapclean_agegroup0 (g_heap g) modes task roots s = Some (Inr s') \<and> cleaned g s s' fwd \<and>
    weakrefs_settled g s' fwd \<and> changes_noted g modes logs s'"
proof -
  let ?b = "INCREASE_BIGCOUNTER (gc_bytes_allocated s) (agegroup0_usedspace_in_bytes task)"
  obtain s2 s3 s4 fwd org dn ws where run: "forward_roots (g_heap g) roots (s\<lparr>gc_bytes_allocated := ?b\<rparr>) = Inr s2"
    "process_changelogs (g_heap g) modes [0..<MAX_HOSTTHREADS] s2 = Some (Inr s3)"
    "copy_all_remaining_reachable_values_in_agegroup0_to_agegroup1 (g_heap g) s3 = Some (Inr s4)"
    and ac: "all_copied g s4 fwd org dn ws s" and noted: "logs_noted g modes logs [0..<MAX_HOSTTHREADS] dn s4"
    using all_copied_reached [OF ok r, of ?b] by blast
  define s5 where "s5 = s4\<lparr>agegroup0_heapcleanings_count := agegroup0_heapcleanings_count s4 + 1\<rparr>"
  have f5: "free_of i s5 = free_of i s4" for i by (simp add: s5_def free_of_def)
  have c5: "copying g s5 = copying g s4" by (intro ext copying_same) (simp_all add: s5_def free_of_def)
  then have ac5: "all_copied g s5 fwd org dn ws s" using ac by (simp add: all_copied_def f5)
  obtain s6 where 6: "null_out_newly_dead_weakrefs (g_heap g) s5 = Some (Inr (s6\<lparr>weakrefs_forwarded := 0\<rparr>))"
    "weakrefs_nulled g fwd ws s5 s6"
    using null_out_newly_dead_weakrefs_ok [OF ok all_copiedD(1) [OF ac5]] by blast
  let ?s = "count_bytes_copied (\<lambda>i. free_of i s) (s6\<lparr>weakrefs_forwarded := 0\<rparr>)"
  have e: "s6 = s5\<lparr>gc_words := gc_words s6\<rparr>" using 6(2) by (simp add: weakrefs_nulled_def)
  have top: "free_of i (s\<lparr>gc_bytes_allocated := ?b\<rparr>) = free_of i s" for i by (simp add: free_of_def)
  have "heapclean_agegroup0 (g_heap g) modes task roots s = Some (Inr ?s)"
    using run 6(1) by (simp add: heapclean_agegroup0_def Let_def top flip: s5_def)
  moreover have fin: "gc_words ?s = gc_words s6" "free_of i ?s = free_of i s6" "weakrefs_forwarded ?s = 0" for i
    by (simp_all add: count_bytes_copied_def free_of_def)
  then have "cleaned g s ?s fwd" using nulled_cleaned(1) [OF ok ac5 6(2)] cleaned_same [of ?s s6] by simp
  moreover have "weakrefs_settled g ?s fwd"
    using nulled_cleaned(2) [OF ok ac5 6(2)] fin by (simp add: weakrefs_settled_def)
  moreover have "heap_changelog s6 = heap_changelog s4" "cardmaps s6 = cardmaps s4" by (subst e, simp add: s5_def)+
  then have "heap_changelog ?s = heap_changelog s4" "cardmaps ?s = cardmaps s4" by (simp_all add: count_bytes_copied_def)
  then have "changes_noted g modes logs ?s"
    using noted by (auto simp: changes_noted_def logs_noted_def logged_slots_def change_noted_def)
  ultimately show ?thesis by blast
qed

section \<open>A small heap\<close>

text \<open>
  Book 1 is agegroup 0, books 2 to 5 are the sibs of agegroup 1, book 7 belongs to agegroup 2 and
  book 6 to the C variables. The chunks are a pair at 65544, a weak reference at 65556 and a
  refcell at 65564, with the changelog's one cell at 65792.
\<close>

definition example_books :: book2sibid where
  "example_books b = (if b = 1 then AGEGROUP0_SIBID else if 2 \<le> b \<and> b \<le> 5 then MAKE_SIBID 1 RO_POINTERS_KIND 0
     else if b = 7 then MAKE_SIBID 2 RW_POINTERS_KIND 0 else UNMAPPED_BOOK_SIBID)"

definition example_words :: "val \<Rightarrow> val" where
  "example_words = (\<lambda>_. 1)(65540 := PAIR_TAGWORD, 65544 := 65544, 65548 := 3, 65552 := WEAKREF_TAGWORD, 65556 := 65564,
     65560 := REFCELL_TAGWORD, 65564 := 3, 65792 := 458752, 393216 := 65556, 458752 := 65544)"

definition example_base :: "ilk \<Rightarrow> val" where
  "example_base i = (case i of RO_POINTERS_SIB \<Rightarrow> 131072 | RO_CONSCELL_SIB \<Rightarrow> 196608 | NONPTR_DATA_SIB \<Rightarrow> 262144 | RW_POINTERS_SIB \<Rightarrow> 327680)"

definition example_setting :: setting where
  "example_setting = \<lparr>g_heap = initial_hugeheap example_books, g_words = example_words, g_chunks = {65544, 65556, 65564},
     g_starts = {393216, 458752}, g_base = example_base, g_limit = (\<lambda>i. example_base i + 4096)\<rparr>"

definition example_modes :: "nat \<Rightarrow> Hostthread_Mode" where
  "example_modes i = (if i = 0 then HOSTTHREAD_IS_PRIMARY_HEAPCLEANER else HOSTTHREAD_IS_VOID)"

definition example_logs :: "nat \<Rightarrow> val list" where
  "example_logs i = (if i = 0 then [65792] else [])"

definition example_gc_state :: gc_state where
  "example_gc_state = \<lparr>gc_words = example_words,
     gc_sibs = (\<lambda>i. \<lparr>sib_tospace = \<lparr>first_free = example_base i, tospace_start = example_base i, tospace_bytesize = 4096,
        tospace_limit = example_base i + 4096\<rparr>, swept_end = example_base i, requested_extra_free_bytes = 0\<rparr>),
     weakrefs_forwarded = 0, heap_changelog = (\<lambda>i. if i = 0 then 65792 else HEAP_CHANGELOG_NIL),
     cardmaps = (\<lambda>a. if a = 1 then Some \<lparr>base_address = 458752, card_count = 2, map_bytesize = 16, min_age = [255, 255]\<rparr> else None),
     agegroup0_heapcleanings_count = 0, gc_bytes_allocated = \<lparr>millions = 0, ones = 0\<rparr>,
     bytes_copied_to_sib = (\<lambda>_. \<lparr>millions = 0, ones = 0\<rparr>)\<rparr>"

lemma example_tags:
  "tag_of example_setting 65544 = PAIR_TAGWORD" "tag_of example_setting 65556 = WEAKREF_TAGWORD" "tag_of example_setting 65564 = REFCELL_TAGWORD"
  by (simp_all add: tag_of_def example_setting_def example_words_def)

lemma example_slots:
  "slot_of example_setting 65544 0 = 65544" "slot_of example_setting 65544 (Suc 0) = 3"
  "slot_of example_setting 65556 0 = 65564" "slot_of example_setting 65564 0 = 3"
  by (simp_all add: slot_of_def example_setting_def example_words_def)

lemma pair_tag: "GET_BTAG_FROM_TAGWORD PAIR_TAGWORD = PAIRS_AND_RECORDS_BTAG" "GET_LENGTH_IN_WORDS_FROM_TAGWORD PAIR_TAGWORD = 2" "IS_TAGWORD PAIR_TAGWORD"
  unfolding PAIR_TAGWORD_def by (rule GET_BTAG_MAKE_TAGWORD GET_LENGTH_MAKE_TAGWORD IS_TAGWORD_MAKE_TAGWORD; simp)+

lemma weakref_tag: "GET_BTAG_FROM_TAGWORD WEAKREF_TAGWORD = WEAK_POINTER_OR_SUSPENSION_BTAG" "GET_LENGTH_IN_WORDS_FROM_TAGWORD WEAKREF_TAGWORD = WEAK_POINTER_CTAG"
  "IS_TAGWORD WEAKREF_TAGWORD"
  unfolding WEAKREF_TAGWORD_def by (rule GET_BTAG_MAKE_TAGWORD GET_LENGTH_MAKE_TAGWORD IS_TAGWORD_MAKE_TAGWORD; simp add: ctag_defs)+

lemma refcell_tag: "GET_BTAG_FROM_TAGWORD REFCELL_TAGWORD = RW_VECTOR_DATA_BTAG" "GET_LENGTH_IN_WORDS_FROM_TAGWORD REFCELL_TAGWORD = 1" "IS_TAGWORD REFCELL_TAGWORD"
  unfolding REFCELL_TAGWORD_def by (rule GET_BTAG_MAKE_TAGWORD GET_LENGTH_MAKE_TAGWORD IS_TAGWORD_MAKE_TAGWORD; simp)+

lemmas example_tag_facts = pair_tag weakref_tag refcell_tag

lemma example_chunks:
  "payload PAIR_TAGWORD = 2" "payload WEAKREF_TAGWORD = 1" "payload REFCELL_TAGWORD = 1"
  "home_sib PAIR_TAGWORD = RO_CONSCELL_SIB" "home_sib WEAKREF_TAGWORD = RW_POINTERS_SIB" "home_sib REFCELL_TAGWORD = RW_POINTERS_SIB"
  "chunk_tag PAIR_TAGWORD" "chunk_tag WEAKREF_TAGWORD" "chunk_tag REFCELL_TAGWORD"
  "copy_room PAIR_TAGWORD = 2" "copy_room WEAKREF_TAGWORD = 2" "copy_room REFCELL_TAGWORD = 2"
  by (simp_all add: payload_def home_sib_def chunk_tag_def copy_room_def copy_length_def is_pair_def example_tag_facts btag_defs ctag_defs)

lemma example_sibids:
  "hh_books (g_heap example_setting) = example_books" "GET_AGE_FROM_SIBID (MAKE_SIBID 1 RO_POINTERS_KIND 0) = 1"
  "GET_AGE_FROM_SIBID (MAKE_SIBID 2 RW_POINTERS_KIND 0) = 2" "\<not> SIBID_KIND_IS_CODE (MAKE_SIBID 1 RO_POINTERS_KIND 0)"
  "AGEGROUP0_SIBID = 0" "MAKE_SIBID 2 RW_POINTERS_KIND 0 \<noteq> 0" "\<not> BOOK_IS_UNMAPPED (MAKE_SIBID 2 RW_POINTERS_KIND 0)"
  "\<not> SIBID_KIND_IS_CODE 0"
  by (simp_all add: example_setting_def initial_hugeheap_def MAKE_SIBID_def GET_AGE_FROM_SIBID_def RO_POINTERS_KIND_def RW_POINTERS_KIND_def
      KIND_FROM_SIB_def SIBID_KIND_IS_CODE_def GET_KIND_FROM_SIBID_def CODE_KIND_def KIND_FROM_HUGESIB_def MAX_PLAIN_SIBS_def
      CODE__HUGE_SIB_def AGEGROUP0_SIBID_def AGEGROUP0_def NEW_KIND_def BOOK_IS_UNMAPPED_def UNMAPPED_BOOK_SIBID_def unat_and_mask)

lemma example_young: "young (g_heap example_setting) w \<longleftrightarrow> unat w mod 4 = 0 \<and> unat w div 65536 = 1"
proof -
  have "MAKE_SIBID 1 RO_POINTERS_KIND 0 \<noteq> 0" "UNMAPPED_BOOK_SIBID \<noteq> 0"
    by (simp_all add: MAKE_SIBID_def RO_POINTERS_KIND_def KIND_FROM_SIB_def UNMAPPED_BOOK_SIBID_def)
  then show ?thesis
    using example_sibids by (simp add: young_def IS_POINTER_iff SIBID_FOR_POINTER_def GET_BOOK_eq example_books_def)
qed

lemma example_in_chunk:
  "in_chunk example_setting 65544 a \<longleftrightarrow> 65540 \<le> unat a \<and> unat a < 65552"
  "in_chunk example_setting 65556 a \<longleftrightarrow> 65552 \<le> unat a \<and> unat a < 65560"
  "in_chunk example_setting 65564 a \<longleftrightarrow> 65560 \<le> unat a \<and> unat a < 65568"
  by (auto simp: in_chunk_def example_tags example_chunks)

lemma example_in_fromspace: "in_fromspace example_setting a \<longleftrightarrow> 65540 \<le> unat a \<and> unat a < 65568"
  unfolding in_fromspace_def using example_in_chunk by (auto simp: example_setting_def)

lemma example_in_tospace:
  "in_tospace example_setting i a \<longleftrightarrow> unat (example_base i) \<le> unat a \<and> unat a < unat (example_base i) + 4096"
  by (cases i) (simp_all add: in_tospace_def example_setting_def example_base_def)

lemma example_base_unat:
  "unat (example_base i) = 131072 + 65536 * (case i of RO_POINTERS_SIB \<Rightarrow> 0 | RO_CONSCELL_SIB \<Rightarrow> 1 | NONPTR_DATA_SIB \<Rightarrow> 2 | RW_POINTERS_SIB \<Rightarrow> 3)"
  by (cases i) (simp_all add: example_base_def)

lemma example_chunks_ok: "chunks_ok example_setting"
proof -
  have c: "g_chunks example_setting = {65544, 65556, 65564}" by (simp add: example_setting_def)
  show ?thesis
    unfolding chunks_ok_def c
    by (auto simp: example_tags example_chunks example_slots example_young example_in_chunk less_2_cases_iff)
qed

lemma example_starts_ok: "starts_ok example_setting"
proof -
  have s: "g_starts example_setting = {393216, 458752}" "g_chunks example_setting = {65544, 65556, 65564}"
    "g_words example_setting 393216 = 65556" "g_words example_setting 458752 = 65544"
    by (simp_all add: example_setting_def example_words_def)
  show ?thesis
    unfolding starts_ok_def s(1,2)
    by (auto simp: s example_in_fromspace example_in_tospace example_base_unat split: ilk.splits)
qed

lemma example_tospaces_ok: "tospaces_ok example_setting"
proof -
  have b: "g_base example_setting i = example_base i" for i by (simp add: example_setting_def)
  have sib: "SIBID_FOR_POINTER example_books a = MAKE_SIBID 1 RO_POINTERS_KIND 0" if "in_tospace example_setting i a" for i a
  proof -
    have "2 \<le> unat a div 65536 \<and> unat a div 65536 \<le> 5"
      using that unfolding example_in_tospace example_base_unat by (cases i) (simp_all, linarith+)
    then show ?thesis by (simp add: SIBID_FOR_POINTER_def GET_BOOK_eq example_books_def)
  qed
  have u: "i = j" if "in_tospace example_setting i a" "in_tospace example_setting j a" for i j a
    using that unfolding example_in_tospace example_base_unat by (cases i; cases j) simp_all
  have f: "\<not> in_fromspace example_setting a" if "in_tospace example_setting i a" for i a
    using that unfolding example_in_tospace example_base_unat example_in_fromspace by (cases i) simp_all
  have al: "unat (example_base i) mod 4 = 0 \<and> 0 < unat (example_base i)" for i by (cases i) (simp_all add: example_base_def)
  show ?thesis unfolding tospaces_ok_def b using al u f sib example_sibids by (auto dest: u)
qed

lemma example_setting_ok: "setting_ok example_setting"
  using example_chunks_ok example_starts_ok example_tospaces_ok by (simp add: setting_ok_def)

lemma example_room: "room_needed example_setting i (live_chunks example_setting) \<le> 6"
proof -
  let ?c = "{65544, 65556, 65564} :: val set"
  have sub: "{v \<in> live_chunks example_setting. home_sib (tag_of example_setting v) = i} \<subseteq> ?c"
    using live_chunk [OF example_chunks_ok example_starts_ok] by (auto simp: live_chunks_def example_setting_def)
  have "room_needed example_setting i (live_chunks example_setting) \<le> (\<Sum>v \<in> ?c. copy_room (tag_of example_setting v))"
    unfolding room_needed_def by (rule sum_mono2 [OF _ sub]) simp_all
  then show ?thesis by (simp add: example_tags example_chunks)
qed

lemma example_ready: "ready_to_clean example_setting example_modes [393216] example_logs example_gc_state"
proof -
  have older: "older_slot example_setting 458752" "slot_sibid example_setting 458752 = MAKE_SIBID 2 RW_POINTERS_KIND 0"
    "slot_sibid example_setting 65544 = 0"
    using example_sibids by (simp_all add: older_slot_def slot_sibid_def SIBID_FOR_POINTER_def GET_BOOK_eq example_books_def)
  have w: "g_words example_setting 65792 = 458752" "g_words example_setting 65796 = HEAP_CHANGELOG_NIL" "g_words example_setting 458752 = 65544"
    "g_starts example_setting = {393216, 458752}"
    by (simp_all add: example_setting_def example_words_def HEAP_CHANGELOG_NIL_def HEAP_VOID_def TAGGED_INT_FROM_C_INT_def)
  have age: "GET_AGE_FROM_SIBID 0 = 0" by (simp add: GET_AGE_FROM_SIBID_def)
  have chg: "change_ok example_setting (cardmaps example_gc_state) 458752"
    unfolding change_ok_def using older w example_sibids age
    by (simp add: card_ready_def example_gc_state_def POINTER_TO_CARD_INDEX_def pointee_ok_def)
  have cell: "cell_ok example_setting 65792"
    by (auto simp: cell_ok_def example_in_fromspace example_in_tospace example_base_unat w split: ilk.splits)
  have nil: "HEAP_CHANGELOG_NIL \<noteq> 65792" by (simp add: HEAP_CHANGELOG_NIL_def HEAP_VOID_def TAGGED_INT_FROM_C_INT_def)
  have log: "logs_ok example_setting (cardmaps example_gc_state) example_modes (heap_changelog example_gc_state) example_logs [0..<MAX_HOSTTHREADS]"
    using chg cell w nil by (auto simp: logs_ok_def log_ok_def example_modes_def example_logs_def example_gc_state_def split: if_splits)
  have slots: "logged_slots example_setting example_modes example_logs = {458752}"
    using w older by (auto simp: logged_slots_def example_modes_def example_logs_def MAX_HOSTTHREADS_def split: if_splits)
  have fr: "free_of i example_gc_state = example_base i" "g_base example_setting i = example_base i" "swept_end (gc_sibs example_gc_state i) = example_base i"
    "g_limit example_setting i = example_base i + 4096" for i
    by (simp_all add: free_of_def example_gc_state_def example_setting_def)
  have lim: "unat (example_base i + 4096) = unat (example_base i) + 4096" "unat (example_base i) mod 4 = 0" for i
    by (cases i; simp add: example_base_def)+
  have uns: "{a. unswept example_gc_state a} = {}" by (auto simp: unswept_def fr)
  have room: "unat (example_base i) + 4 * room_needed example_setting i (live_chunks example_setting) \<le> unat (example_base i + 4096)" for i
    using example_room [of i] lim(1) [of i] by linarith
  have "g_starts example_setting = set [393216] \<union> logged_slots example_setting example_modes example_logs \<union> {a. unswept example_gc_state a}"
    unfolding slots uns w(4) by auto
  moreover have "gc_words example_gc_state = g_words example_setting" "weakrefs_forwarded example_gc_state = 0"
    by (simp_all add: example_gc_state_def example_setting_def)
  ultimately show ?thesis unfolding ready_to_clean_def fr using log room lim(2) by simp
qed

lemma example_live: "live example_setting v \<Longrightarrow> v = 65544 \<or> v = 65556"
proof (induction rule: live.induct)
  case (start a)
  then show ?case by (auto simp: example_setting_def example_words_def)
next
  case (field v k)
  have "\<not> strong (tag_of example_setting 65556)" by (simp add: strong_def is_weak_def example_tags example_tag_facts)
  then have v: "v = 65544" using field by auto
  then have "k < 2" using field(3) by (simp add: example_tags example_chunks)
  then show ?case using field(4) v by (auto simp: less_2_cases_iff example_slots example_young)
qed

lemma example_live_chunks: "live example_setting 65544" "live example_setting 65556" "\<not> live example_setting 65564"
proof -
  have s: "458752 \<in> g_starts example_setting" "393216 \<in> g_starts example_setting"
    "g_words example_setting 458752 = 65544" "g_words example_setting 393216 = 65556"
    by (simp_all add: example_setting_def example_words_def)
  show "live example_setting 65544" using live.start [OF s(1)] by (simp add: s example_young)
  show "live example_setting 65556" using live.start [OF s(2)] by (simp add: s example_young)
  show "\<not> live example_setting 65564" using example_live [of 65564] by auto
qed

section \<open>Properties\<close>

text \<open>
  C1. A minor heapcleaning of a well-formed heap with room for what is live ends, and moves exactly
  the live chunks: every one has its own copy in the sib its tagword calls for, aligned as it must
  be, and the slots of the copies, the roots and the logged slots of older agegroups point to the copies of what they pointed
  to. Nothing else changes, the sibs do not overflow, and no word that was swept leads into agegroup 0 any more.
\<close>

theorem minor_heapcleaning_moves_what_is_live:
  assumes "setting_ok g" and "ready_to_clean g modes roots logs s"
  shows "\<exists>s' fwd. heapclean_agegroup0 (g_heap g) modes task roots s = Some (Inr s') \<and> cleaned g s s' fwd"
  using minor_cleaning [OF assms] by blast

theorem minor_heapcleaning_moves_what_is_live_witness:
  "\<exists>s' n. heapclean_agegroup0 (g_heap example_setting) example_modes example_buffer [393216] example_gc_state = Some (Inr s') \<and>
     gc_words s' 458752 = n \<and> gc_words s' n = n \<and> gc_words s' (n + 4) = 3 \<and> n \<noteq> 65544"
proof -
  obtain s' fwd where s': "heapclean_agegroup0 (g_heap example_setting) example_modes example_buffer [393216] example_gc_state = Some (Inr s')"
    and c: "cleaned example_setting example_gc_state s' fwd"
    using minor_heapcleaning_moves_what_is_live [OF example_setting_ok example_ready] by blast
  have "65544 \<in> dom fwd" using c example_live_chunks by (simp add: cleaned_def live_chunks_def)
  then obtain n where n: "fwd 65544 = Some n" by auto
  have none: "fwd 3 = None" using c example_live [of 3] by (auto simp: cleaned_def live_chunks_def)
  have "\<not> dying_weakref example_setting 65544" by (simp add: dying_weakref_def is_weak_def example_tags example_tag_facts btag_defs)
  then have ev: "evacuated example_setting s' fwd 65544 n" and pl: "copy_placed example_setting s' 65544 n" using c n by (auto simp: cleaned_def)
  have k: "k < 2 \<Longrightarrow> gc_words s' (n + 4 * word_of_nat k) = relocate fwd (slot_of example_setting 65544 k)" for k
    using ev by (simp add: evacuated_def example_tags example_chunks)
  have "gc_words s' n = n" "gc_words s' (n + 4) = 3" using k [of 0] k [of 1] n none by (simp_all add: example_slots relocate_def)
  moreover have "gc_words s' 458752 = n"
    using c n by (simp add: cleaned_def) (simp add: example_setting_def example_words_def relocate_def)
  moreover have "196608 \<le> unat n"
    using pl by (simp add: copy_placed_def example_tags example_chunks) (simp add: example_setting_def example_base_def)
  then have "n \<noteq> 65544" by auto
  ultimately show ?thesis using s' by blast
qed

text \<open>
  C14. After a minor heapcleaning every weak reference that was copied refers to the copy of its
  chunk when something else keeps the chunk alive, and is nulled out when not; none is left on the
  list of weak references that wait.
\<close>

theorem weak_references_are_settled:
  assumes "setting_ok g" and "ready_to_clean g modes roots logs s"
  shows "\<exists>s' fwd. heapclean_agegroup0 (g_heap g) modes task roots s = Some (Inr s') \<and> dom fwd = live_chunks g \<and> weakrefs_forwarded s' = 0 \<and>
    (\<forall>v n. fwd v = Some n \<longrightarrow> is_weak (tag_of g v) \<longrightarrow> young (g_heap g) (slot_of g v 0) \<longrightarrow>
      (if live g (slot_of g v 0) then gc_words s' (n - 4) = WEAKREF_TAGWORD \<and> fwd (slot_of g v 0) = Some (gc_words s' n)
       else gc_words s' (n - 4) = NULLED_WEAKREF_TAGWORD \<and> gc_words s' n = HEAP_VOID))"
proof -
  obtain s' fwd where s': "heapclean_agegroup0 (g_heap g) modes task roots s = Some (Inr s')" "cleaned g s s' fwd" "weakrefs_settled g s' fwd"
    using minor_cleaning [OF assms] by blast
  have dom: "dom fwd = live_chunks g" using s'(2) by (simp add: cleaned_def)
  have "gc_words s' (n - 4) = WEAKREF_TAGWORD \<and> fwd (slot_of g v 0) = Some (gc_words s' n)"
    if n: "fwd v = Some n" and w: "is_weak (tag_of g v)" and l: "live g (slot_of g v 0)" for v n
  proof -
    have ck: "chunks_ok g" "starts_ok g" using assms(1) by (simp_all add: setting_ok_def)
    have "live g v" using dom n by (auto simp: live_chunks_def)
    then have t: "tag_of g v = WEAKREF_TAGWORD"
      using chunkD(2) [OF ck(1) live_chunk [OF ck]] weak_tagword [OF w] by (simp add: chunk_tag_def)
    obtain m where m: "fwd (slot_of g v 0) = Some m" using dom l by (auto simp: live_chunks_def)
    have "evacuated g s' fwd v n" using s'(2) n l by (simp add: cleaned_def dying_weakref_def)
    then show ?thesis
      using t m special_home [of "tag_of g v"] w by (auto simp: evacuated_def is_weak_def relocate_def)
  qed
  then show ?thesis
    using s' dom unfolding weakrefs_settled_def dying_weakref_def by (intro exI [of _ s'] exI [of _ fwd]) simp
qed

theorem weak_references_are_settled_witness:
  "\<exists>s' n. heapclean_agegroup0 (g_heap example_setting) example_modes example_buffer [393216] example_gc_state = Some (Inr s') \<and>
     gc_words s' (n - 4) = NULLED_WEAKREF_TAGWORD \<and> gc_words s' n = HEAP_VOID"
proof -
  obtain s' fwd where s': "heapclean_agegroup0 (g_heap example_setting) example_modes example_buffer [393216] example_gc_state = Some (Inr s')"
    "dom fwd = live_chunks example_setting"
    "\<And>v n. fwd v = Some n \<Longrightarrow> is_weak (tag_of example_setting v) \<Longrightarrow> young (g_heap example_setting) (slot_of example_setting v 0) \<Longrightarrow>
      if live example_setting (slot_of example_setting v 0)
      then gc_words s' (n - 4) = WEAKREF_TAGWORD \<and> fwd (slot_of example_setting v 0) = Some (gc_words s' n)
      else gc_words s' (n - 4) = NULLED_WEAKREF_TAGWORD \<and> gc_words s' n = HEAP_VOID"
    using weak_references_are_settled [OF example_setting_ok example_ready, of example_buffer] by blast
  have "65556 \<in> dom fwd" using s'(2) example_live_chunks by (simp add: live_chunks_def)
  then obtain n where "fwd 65556 = Some n" by auto
  from s'(3) [OF this] have "gc_words s' (n - 4) = NULLED_WEAKREF_TAGWORD \<and> gc_words s' n = HEAP_VOID"
    by (simp add: example_slots example_live_chunks example_young is_weak_def example_tags example_tag_facts)
  with s'(1) show ?thesis by blast
qed

text \<open>
  C17. A minor heapcleaning leaves every changelog empty, and every logged slot of agegroup 2 or
  older that held a pointer into agegroup 0 lies on a card marked for agegroup 1, where the next
  larger cleaning looks for it.
\<close>

theorem changed_slots_are_noted:
  assumes "setting_ok g" and "ready_to_clean g modes roots logs s"
  shows "\<exists>s'. heapclean_agegroup0 (g_heap g) modes task roots s = Some (Inr s') \<and> changes_noted g modes logs s'"
  using minor_cleaning [OF assms] by blast

theorem changed_slots_are_noted_witness:
  "\<exists>s'. heapclean_agegroup0 (g_heap example_setting) example_modes example_buffer [393216] example_gc_state = Some (Inr s') \<and>
     heap_changelog s' 0 = HEAP_CHANGELOG_NIL \<and> card_notes (cardmaps s') 2 458752 1"
proof -
  obtain s' where s': "heapclean_agegroup0 (g_heap example_setting) example_modes example_buffer [393216] example_gc_state = Some (Inr s')"
    and n: "changes_noted example_setting example_modes example_logs s'"
    using changed_slots_are_noted [OF example_setting_ok example_ready] by blast
  have age: "GET_AGE_FROM_SIBID (slot_sibid example_setting 458752) = 2" and old: "older_slot example_setting 458752"
    using example_sibids by (simp_all add: older_slot_def slot_sibid_def SIBID_FOR_POINTER_def GET_BOOK_eq example_books_def)
  have w: "g_words example_setting 65792 = 458752" "g_words example_setting 458752 = 65544" by (simp_all add: example_setting_def example_words_def)
  have "458752 \<in> logged_slots example_setting example_modes example_logs"
    using w old by (auto simp: logged_slots_def example_modes_def example_logs_def MAX_HOSTTHREADS_def intro!: exI [of _ 0])
  then have "card_notes (cardmaps s') 2 458752 1" using n age w by (auto simp: changes_noted_def example_young)
  moreover have "heap_changelog s' 0 = HEAP_CHANGELOG_NIL" using n by (simp add: changes_noted_def example_modes_def MAX_HOSTTHREADS_def)
  ultimately show ?thesis using s' by blast
qed

end
