(* ===== verification/Signals.thy ===== *)
theory Signals
  imports Heap_Allocation
begin

text \<open>
  Interprocess signals (\<open>src/c/machine-dependent/interprocess-signals.c\<close>): the table of portable
  signal ids, the C signal handler that counts what arrives, the round-robin choice of the signal
  the Mythryl level handles next, and the part of the assembly code that looks for signals when
  Mythryl code is entered. What \<open><signal.h>\<close> of the host says is a parameter. The logging and
  the debugging dumps of the handler are left out.
\<close>

section \<open>State of a host thread\<close>

definition SIGNAL_TABLE_SIZE_IN_SLOTS :: nat where "SIGNAL_TABLE_SIZE_IN_SLOTS = 32"

definition LIB7_SIG_IGNORE :: int where "LIB7_SIG_IGNORE = 0"
definition LIB7_SIG_DEFAULT :: int where "LIB7_SIG_DEFAULT = 1"
definition LIB7_SIG_ENABLED :: int where "LIB7_SIG_ENABLED = 2"

record signal_state =
  executing_mythryl_code :: bool
  interprocess_signal_pending :: bool
  mythryl_handler_for_interprocess_signal_is_running :: bool
  all_seen_count :: vunt
  all_done_count :: vunt
  next_posix_signal_id :: nat
  next_posix_signal_count :: int
  seen_count :: "nat \<Rightarrow> vunt"
  done_count :: "nat \<Rightarrow> vunt"
  posix_signal_rotor :: nat
  ccall_limit_pointer_mask :: vunt
  stackframe_heap_allocation_limit :: val

text \<open>The host: the host's id for each row of the table (0 where it has no such signal), and its
  values of four constants.\<close>

record signal_host =
  host_os_id :: "nat \<Rightarrow> int"
  SIGKILL :: int
  SIGSTOP :: int
  SIGFPE :: int
  SIGSEGV :: int

definition signal_names :: "string list" where
  "signal_names =
     [''SIGZERO'', ''SIGHUP'', ''SIGINT'', ''SIGQUIT'', ''SIGILL'', ''SIGTRAP'', ''SIGABRT'', ''SIGBUS'', ''SIGFPE'', ''SIGKILL'', ''SIGUSR1'',
      ''SIGSEGV'', ''SIGUSR2'', ''SIGPIPE'', ''SIGALRM'', ''SIGTERM'', ''SIGSTKFLT'', ''SIGCHLD'', ''SIGCONT'', ''SIGSTOP'', ''SIGTSTP'',
      ''SIGTTIN'', ''SIGTTOU'', ''SIGURG'', ''SIGXCPU'', ''SIGXFSZ'', ''SIGVTALRM'', ''SIGPROF'', ''SIGWINCH'', ''SIGIO'', ''SIGPWR'', ''SIGSYS'']"

section \<open>Ids\<close>

text \<open>Reading the table outside its rows is a wild read.\<close>

definition portable_signal_id_to_host_os_signal_id :: "signal_host \<Rightarrow> int \<Rightarrow> int result" where
  "portable_signal_id_to_host_os_signal_id h i =
     (if 0 \<le> i \<and> i < int SIGNAL_TABLE_SIZE_IN_SLOTS then Inr (host_os_id h (nat i)) else Inl Wild)"

fun first_row :: "(nat \<Rightarrow> bool) \<Rightarrow> nat \<Rightarrow> nat \<Rightarrow> nat" where
  "first_row P i 0 = 0"
| "first_row P i (Suc n) = (if P i then i else first_row P (i + 1) n)"

definition host_os_signal_id_to_portable_signal_id :: "signal_host \<Rightarrow> int \<Rightarrow> nat" where
  "host_os_signal_id_to_portable_signal_id h sig = first_row (\<lambda>i. host_os_id h i = sig) 0 SIGNAL_TABLE_SIZE_IN_SLOTS"

definition ascii_signal_name_to_portable_signal_id :: "string \<Rightarrow> nat" where
  "ascii_signal_name_to_portable_signal_id name = first_row (\<lambda>i. signal_names ! i = name) 0 SIGNAL_TABLE_SIZE_IN_SLOTS"

definition maximum_valid_portable_signal_id :: nat where
  "maximum_valid_portable_signal_id = SIGNAL_TABLE_SIZE_IN_SLOTS - 1"

section \<open>A signal arrives\<close>

definition clear_signal_counts :: "signal_state \<Rightarrow> signal_state" where
  "clear_signal_counts s =
     s\<lparr>seen_count := (\<lambda>i. if i < SIGNAL_TABLE_SIZE_IN_SLOTS then 0 else seen_count s i),
       done_count := (\<lambda>i. if i < SIGNAL_TABLE_SIZE_IN_SLOTS then 0 else done_count s i)\<rparr>"

text \<open>The heap allocation limit of Mythryl code is in a slot of its stack frame.\<close>

definition ZERO_HEAP_ALLOCATION_LIMIT_FROM_C_SIGNAL_HANDLER :: "signal_state \<Rightarrow> signal_state" where
  "ZERO_HEAP_ALLOCATION_LIMIT_FROM_C_SIGNAL_HANDLER s = s\<lparr>stackframe_heap_allocation_limit := 0\<rparr>"

definition count_signal :: "nat \<Rightarrow> signal_state \<Rightarrow> signal_state" where
  "count_signal sig s = s\<lparr>seen_count := (seen_count s)(sig := seen_count s sig + 1), all_seen_count := all_seen_count s + 1\<rparr>"

definition c_signal_handler :: "signal_host \<Rightarrow> int \<Rightarrow> signal_state \<Rightarrow> signal_state result" where
  "c_signal_handler h host_os_signal_id s =
     (let sig = host_os_signal_id_to_portable_signal_id h host_os_signal_id
      in if sig \<ge> SIGNAL_TABLE_SIZE_IN_SLOTS then Inl (Died ''interprocess-signals.c: c_signal_handler'')
         else let s = (count_signal sig s)\<lparr>ccall_limit_pointer_mask := 0\<rparr>
              in if executing_mythryl_code s \<and> \<not> interprocess_signal_pending s \<and> \<not> mythryl_handler_for_interprocess_signal_is_running s
                 then Inr (ZERO_HEAP_ALLOCATION_LIMIT_FROM_C_SIGNAL_HANDLER (s\<lparr>interprocess_signal_pending := True\<rparr>))
                 else Inr s)"

text \<open>
  Mythryl code is entered and left (\<open>asm_run_mythryl_task\<close> and \<open>set_request\<close> in
  \<open>src/c/machine-dependent/prim.intel32.asm\<close>): on entry the task's allocation limit is put into
  the stack frame and the flag is set, and only then the two sums are compared. Where there are
  signals to handle, the allocation pointer becomes the limit.
\<close>

definition note_entry :: "val \<Rightarrow> signal_state \<Rightarrow> signal_state" where
  "note_entry limit s = s\<lparr>stackframe_heap_allocation_limit := limit, executing_mythryl_code := True\<rparr>"

definition look_for_signals :: "val \<Rightarrow> signal_state \<Rightarrow> signal_state" where
  "look_for_signals allocation_pointer s =
     (if all_done_count s \<noteq> all_seen_count s \<and> \<not> mythryl_handler_for_interprocess_signal_is_running s
      then s\<lparr>interprocess_signal_pending := True, stackframe_heap_allocation_limit := allocation_pointer\<rparr>
      else s)"

definition note_exit :: "signal_state \<Rightarrow> signal_state" where
  "note_exit s = s\<lparr>executing_mythryl_code := False\<rparr>"

section \<open>Choosing a signal\<close>

definition next_row :: "nat \<Rightarrow> nat" where
  "next_row i = (if i + 1 = SIGNAL_TABLE_SIZE_IN_SLOTS then 0 else i + 1)"

definition undone :: "signal_state \<Rightarrow> nat \<Rightarrow> vunt" where
  "undone s i = seen_count s i - done_count s i"

partial_function (option) scan_signal_counts :: "signal_state \<Rightarrow> nat \<Rightarrow> (nat \<times> vunt) result option" where
  "scan_signal_counts s i =
     (let i = next_row i
      in if i \<ge> SIGNAL_TABLE_SIZE_IN_SLOTS then Some (Inl Wild)
         else let delta = undone s i
              in if delta = 0 then scan_signal_counts s i else Some (Inr (i, delta)))"

definition note_choice :: "nat \<Rightarrow> vunt \<Rightarrow> signal_state \<Rightarrow> signal_state" where
  "note_choice i delta s =
     s\<lparr>posix_signal_rotor := i, next_posix_signal_id := i, next_posix_signal_count := sint delta,
       done_count := (done_count s)(i := done_count s i + delta), all_done_count := all_done_count s + delta\<rparr>"

definition choose_signal :: "signal_state \<Rightarrow> signal_state result option" where
  "choose_signal s =
     and_then (scan_signal_counts s (posix_signal_rotor s)) (\<lambda>(i, delta). Some (Inr (note_choice i delta s)))"

section \<open>How the host treats a signal\<close>

datatype disposition = SIG_IGN | SIG_DFL | Handled_By_C_Signal_Handler

text \<open>The kernel's dispositions, by host id. The four signals are compared by their host ids with
  what is a portable id.\<close>

definition set_signal_state :: "signal_host \<Rightarrow> int \<Rightarrow> int \<Rightarrow> (int \<Rightarrow> disposition) \<Rightarrow> (int \<Rightarrow> disposition) result" where
  "set_signal_state h sig_num signal_state d =
     (if sig_num = SIGKILL h then Inr d
      else if sig_num = SIGSTOP h then Inr d
      else if sig_num = SIGFPE h then Inr d
      else if sig_num = SIGSEGV h then Inr d
      else seq_result (portable_signal_id_to_host_os_signal_id h sig_num) (\<lambda>sig.
        if sig = 0 then Inr d
        else if signal_state = LIB7_SIG_IGNORE then Inr (d(sig := SIG_IGN))
        else if signal_state = LIB7_SIG_DEFAULT then Inr (d(sig := SIG_DFL))
        else if signal_state = LIB7_SIG_ENABLED then Inr (d(sig := Handled_By_C_Signal_Handler))
        else Inl (Died ''bogus signal state'')))"

definition get_signal_state :: "signal_host \<Rightarrow> int \<Rightarrow> (int \<Rightarrow> disposition) \<Rightarrow> int result" where
  "get_signal_state h sig_num d =
     seq_result (portable_signal_id_to_host_os_signal_id h sig_num) (\<lambda>sig.
       if sig = 0 then Inr LIB7_SIG_DEFAULT
       else if sig_num = SIGKILL h then Inr LIB7_SIG_DEFAULT
       else if sig_num = SIGSTOP h then Inr LIB7_SIG_DEFAULT
       else if sig_num = SIGFPE h then Inr LIB7_SIG_DEFAULT
       else if sig_num = SIGSEGV h then Inr LIB7_SIG_DEFAULT
       else case d sig of SIG_IGN \<Rightarrow> Inr LIB7_SIG_IGNORE | SIG_DFL \<Rightarrow> Inr LIB7_SIG_DEFAULT | _ \<Rightarrow> Inr LIB7_SIG_ENABLED)"

end
