(* ===== verification/Tasks.thy ===== *)
theory Tasks
  imports Signals Literals
begin

text \<open>
  The C view of a Mythryl computation: the registers a task keeps while C code runs
  (\<open>struct task\<close> in \<open>src/c/h/runtime-base.h\<close>), and the routines that set them up, save them in
  the heap and bring them back (\<open>src/c/main/runtime-state.c\<close>,
  \<open>src/c/main/runtime-exception-stuff.c\<close>, \<open>src/c/machine-dependent/signal-stuff.c\<close>). The allocation
  fields of the task and the memory are the state of the allocation routines; the heapcleaner is a
  parameter, as it is there, and gets the registers as roots before the extra roots.
\<close>

lemma and_then_bind: "and_then m f = Option.bind m (\<lambda>r. case r of Inl e \<Rightarrow> Some (Inl e) | Inr x \<Rightarrow> f x)"
  by (cases m) (auto split: sum.splits)

lemma and_then_mono [partial_function_mono]:
  assumes "mono_option B" and "\<And>x. mono_option (\<lambda>f. C x f)"
  shows "mono_option (\<lambda>f. and_then (B f) (\<lambda>x. C x f))"
  unfolding and_then_bind
proof (rule bind_mono [OF assms(1)])
  fix r :: "fault + 'c"
  show "mono_option (\<lambda>f. case r of Inl e \<Rightarrow> Some (Inl e) | Inr x \<Rightarrow> C x f)"
    using assms(2) option.const_mono by (cases r) auto
qed

section \<open>State\<close>

record task_state =
  task_heap :: alloc_state
  argument :: val
  fate :: val
  current_closure :: val
  link_register :: val
  program_counter :: val
  exception_fate :: val
  current_thread :: val
  callee_saved_register_0 :: val
  callee_saved_register_1 :: val
  callee_saved_register_2 :: val
  task_heap_changelog :: val
  fault_exception :: val
  faulting_program_counter :: val
  heapvoid :: val
  software_generated_periodic_event_is_pending :: bool
  in_software_generated_periodic_event_handler :: bool
  hostthread :: signal_state

definition task_words :: "task_state \<Rightarrow> val \<Rightarrow> val" where
  "task_words t = words (task_heap t)"

definition in_heap :: "(alloc_state \<Rightarrow> alloc_state \<times> val) \<Rightarrow> task_state \<Rightarrow> task_state \<times> val" where
  "in_heap f t = (let (s, v) = f (task_heap t) in (t\<lparr>task_heap := s\<rparr>, v))"

definition task_tuple_slot :: "task_state \<Rightarrow> val \<Rightarrow> int \<Rightarrow> val result" where
  "task_tuple_slot t p i = GET_TUPLE_SLOT_AS_VAL (task_heap t) p i"

definition DEREF :: "task_state \<Rightarrow> val \<Rightarrow> val" where
  "DEREF t r = words (task_heap t) (slot r 0)"

definition ASSIGN :: "val \<Rightarrow> val \<Rightarrow> task_state \<Rightarrow> task_state" where
  "ASSIGN r x t = t\<lparr>task_heap := (task_heap t)\<lparr>words := (words (task_heap t))(slot r 0 := x)\<rparr>\<rparr>"

definition GET_CODE_ADDRESS_FROM_CLOSURE :: "task_state \<Rightarrow> val \<Rightarrow> val result" where
  "GET_CODE_ADDRESS_FROM_CLOSURE t c = task_tuple_slot t c 0"

section \<open>Heapcleaning with the registers as roots\<close>

definition register_roots :: "task_state \<Rightarrow> val list" where
  "register_roots t =
     [link_register t, argument t, fate t, current_closure t, exception_fate t, current_thread t,
      callee_saved_register_0 t, callee_saved_register_1 t, callee_saved_register_2 t, heapvoid t]"

definition set_registers :: "val list \<Rightarrow> task_state \<Rightarrow> task_state" where
  "set_registers rs t =
     t\<lparr>link_register := rs ! 0, argument := rs ! 1, fate := rs ! 2, current_closure := rs ! 3, exception_fate := rs ! 4,
       current_thread := rs ! 5, callee_saved_register_0 := rs ! 6, callee_saved_register_1 := rs ! 7,
       callee_saved_register_2 := rs ! 8, heapvoid := rs ! 9\<rparr>"

definition with_register_roots ::
    "(val list \<Rightarrow> alloc_state \<Rightarrow> (val list \<times> alloc_state \<times> 'a) result option) \<Rightarrow> val list \<Rightarrow> task_state \<Rightarrow>
     (val list \<times> task_state \<times> 'a) result option" where
  "with_register_roots f extra t =
     and_then (f (register_roots t @ extra) (task_heap t)) (\<lambda>(roots, s, v).
       Some (Inr (drop 10 roots, set_registers roots (t\<lparr>task_heap := s\<rparr>), v)))"

text \<open>A heapcleaning empties the changelog of the task.\<close>

definition call_heapcleaner_with_extra_roots :: "cleaner \<Rightarrow> int \<Rightarrow> val list \<Rightarrow> task_state \<Rightarrow> (val list \<times> task_state) result" where
  "call_heapcleaner_with_extra_roots clean level extra t =
     seq_result (clean level (register_roots t @ extra) (task_heap t)) (\<lambda>(roots, s).
       Inr (drop 10 roots, (set_registers roots (t\<lparr>task_heap := s\<rparr>))\<lparr>task_heap_changelog := HEAP_VOID\<rparr>))"

definition call_heapcleaner :: "cleaner \<Rightarrow> int \<Rightarrow> task_state \<Rightarrow> task_state result" where
  "call_heapcleaner clean level t = seq_result (call_heapcleaner_with_extra_roots clean level [] t) (\<lambda>(_, t). Inr t)"

section \<open>Starting\<close>

definition initialize_task :: "task_state \<Rightarrow> task_state" where
  "initialize_task t =
     t\<lparr>task_heap_changelog := HEAP_VOID, software_generated_periodic_event_is_pending := False,
       in_software_generated_periodic_event_handler := False\<rparr>"

definition set_up_hostthread_state :: "task_state \<Rightarrow> task_state" where
  "set_up_hostthread_state t =
     (let h = (hostthread t)\<lparr>executing_mythryl_code := False, interprocess_signal_pending := False,
                mythryl_handler_for_interprocess_signal_is_running := False, all_seen_count := 0, all_done_count := 0,
                next_posix_signal_id := 0, next_posix_signal_count := 0, posix_signal_rotor := 0\<rparr>;
          t = initialize_task (t\<lparr>hostthread := clear_signal_counts h\<rparr>)
      in t\<lparr>argument := HEAP_VOID, fate := HEAP_VOID, current_closure := HEAP_VOID, link_register := HEAP_VOID,
           program_counter := HEAP_VOID, exception_fate := HEAP_VOID, current_thread := HEAP_VOID,
           callee_saved_register_0 := HEAP_VOID, callee_saved_register_1 := HEAP_VOID, callee_saved_register_2 := HEAP_VOID,
           heapvoid := HEAP_VOID\<rparr>)"

section \<open>Saving what C code holds\<close>

fun set_slots_from :: "int \<Rightarrow> val list \<Rightarrow> alloc_state \<Rightarrow> alloc_state" where
  "set_slots_from i [] s = s"
| "set_slots_from i (v # vs) s = set_slots_from (i + 1) vs (set_slot_in_nascent_heapchunk i v s)"

definition make_record_of :: "val list \<Rightarrow> alloc_state \<Rightarrow> alloc_state \<times> val" where
  "make_record_of vs s =
     commit_nascent_heapchunk (int (length vs))
       (set_slots_from 1 vs (set_slot_in_nascent_heapchunk 0 (MAKE_TAGWORD (length vs) PAIRS_AND_RECORDS_BTAG) s))"

definition save_c_state :: "val \<Rightarrow> val list \<Rightarrow> task_state \<Rightarrow> task_state" where
  "save_c_state return_to_c_level_c extra t =
     (let (t, saved) = in_heap (make_record_of extra) t
      in t\<lparr>callee_saved_register_0 := saved, fate := return_to_c_level_c\<rparr>)"

fun get_slots_from :: "task_state \<Rightarrow> val \<Rightarrow> int \<Rightarrow> nat \<Rightarrow> val list result" where
  "get_slots_from t p i 0 = Inr []"
| "get_slots_from t p i (Suc n) =
     seq_result (task_tuple_slot t p i) (\<lambda>v. seq_result (get_slots_from t p (i + 1) n) (\<lambda>vs. Inr (v # vs)))"

definition restore_c_state :: "val list \<Rightarrow> task_state \<Rightarrow> val list result" where
  "restore_c_state extra t = get_slots_from t (callee_saved_register_0 t) 0 (length extra)"

section \<open>Signal handlers\<close>

definition make_posthandler_resumption_fate_from_task :: "val \<Rightarrow> task_state \<Rightarrow> task_state \<times> val" where
  "make_posthandler_resumption_fate_from_task resume t =
     in_heap (make_record_of
       [resume, argument t, fate t, current_closure t, link_register t, program_counter t, exception_fate t,
        callee_saved_register_0 t, callee_saved_register_1 t, callee_saved_register_2 t]) t"

definition make_mythryl_signal_handler_arg :: "val \<Rightarrow> task_state \<Rightarrow> task_state \<times> val" where
  "make_mythryl_signal_handler_arg resume_after_handling_signal t =
     (let (t, run_fate) = make_posthandler_resumption_fate_from_task resume_after_handling_signal t
      in in_heap (make_three_slot_record
           (TAGGED_INT_FROM_C_INT (int (next_posix_signal_id (hostthread t))))
           (TAGGED_INT_FROM_C_INT (next_posix_signal_count (hostthread t))) run_fate) t)"

definition load_task_from_posthandler_resumption_fate :: "task_state \<Rightarrow> task_state result" where
  "load_task_from_posthandler_resumption_fate t =
     seq_result (get_slots_from t (current_closure t) 1 9) (\<lambda>c.
       Inr (t\<lparr>argument := c ! 0, fate := c ! 1, current_closure := c ! 2, link_register := c ! 3, program_counter := c ! 4,
              exception_fate := c ! 5, callee_saved_register_0 := c ! 6, callee_saved_register_1 := c ! 7,
              callee_saved_register_2 := c ! 8\<rparr>))"

section \<open>Exceptions\<close>

definition raise_mythryl_exception :: "val \<Rightarrow> task_state \<Rightarrow> task_state result" where
  "raise_mythryl_exception exn t =
     (let f = exception_fate t
      in seq_result (GET_CODE_ADDRESS_FROM_CLOSURE t f) (\<lambda>code.
           Inr (t\<lparr>argument := exn, current_closure := f, fate := HEAP_VOID, program_counter := code, link_register := code\<rparr>)))"

text \<open>Where an uncaught exception was raised is the last entry of its traceback; what is read of
  the exception goes into a message, and the runtime dies.\<close>

partial_function (option) last_of_list :: "task_state \<Rightarrow> val \<Rightarrow> val result option" where
  "last_of_list t p =
     and_then (Some (LIST_TAIL (task_heap t) p)) (\<lambda>q.
       if q = HEAP_NIL then Some (LIST_HEAD (task_heap t) p) else last_of_list t q)"

definition handle_uncaught_exception :: "task_state \<Rightarrow> val \<Rightarrow> 'a result option" where
  "handle_uncaught_exception t e =
     and_then (Some (task_tuple_slot t e 0)) (\<lambda>to_name.
     and_then (Some (task_tuple_slot t e 1)) (\<lambda>v.
     and_then (Some (task_tuple_slot t e 2)) (\<lambda>traceback.
     and_then (Some (task_tuple_slot t to_name 0)) (\<lambda>name.
     and_then (if traceback = HEAP_NIL then Some (Inr HEAP_NIL) else last_of_list t traceback) (\<lambda>_.
       Some (Inl (Died ''Uncaught exception'')))))))"

end
