(* ===== verification/Runtime_Eventloop.thy ===== *)
theory Runtime_Eventloop
  imports Tasks
begin

text \<open>
  The loop that runs Mythryl code and serves what it asks for
  (\<open>src/c/main/run-mythryl-code-and-runtime-eventloop.c\<close>). Running Mythryl code
  (\<open>asm_run_mythryl_task\<close>) is a parameter: it gives back a request code and a task, or never
  comes back. So are the C functions Mythryl code may call, the search for them, and the addresses of
  static data. Software generated periodic events only clean the heap, as the configuration has it.
\<close>

section \<open>Requests\<close>

definition REQUEST_HEAPCLEANING :: int where "REQUEST_HEAPCLEANING = 0"
definition REQUEST_RETURN_TO_C_LEVEL :: int where "REQUEST_RETURN_TO_C_LEVEL = 1"
definition REQUEST_HANDLE_UNCAUGHT_EXCEPTION :: int where "REQUEST_HANDLE_UNCAUGHT_EXCEPTION = 2"
definition REQUEST_FAULT :: int where "REQUEST_FAULT = 3"
definition REQUEST_FIND_CFUN :: int where "REQUEST_FIND_CFUN = 4"
definition REQUEST_CALL_CFUN :: int where "REQUEST_CALL_CFUN = 5"
definition REQUEST_ALLOCATE_STRING :: int where "REQUEST_ALLOCATE_STRING = 6"
definition REQUEST_ALLOCATE_BYTE_VECTOR :: int where "REQUEST_ALLOCATE_BYTE_VECTOR = 7"
definition REQUEST_ALLOCATE_VECTOR_OF_EIGHT_BYTE_FLOATS :: int where "REQUEST_ALLOCATE_VECTOR_OF_EIGHT_BYTE_FLOATS = 8"
definition REQUEST_MAKE_TYPEAGNOSTIC_RW_VECTOR :: int where "REQUEST_MAKE_TYPEAGNOSTIC_RW_VECTOR = 9"
definition REQUEST_MAKE_TYPEAGNOSTIC_RO_VECTOR :: int where "REQUEST_MAKE_TYPEAGNOSTIC_RO_VECTOR = 10"
definition REQUEST_RETURN_FROM_SIGNAL_HANDLER :: int where "REQUEST_RETURN_FROM_SIGNAL_HANDLER = 11"
definition REQUEST_RESUME_AFTER_RUNNING_SIGNAL_HANDLER :: int where "REQUEST_RESUME_AFTER_RUNNING_SIGNAL_HANDLER = 12"
definition REQUEST_RETURN_FROM_SOFTWARE_GENERATED_PERIODIC_EVENT_HANDLER :: int where
  "REQUEST_RETURN_FROM_SOFTWARE_GENERATED_PERIODIC_EVENT_HANDLER = 13"
definition REQUEST_RESUME_AFTER_RUNNING_SOFTWARE_GENERATED_PERIODIC_EVENT_HANDLER :: int where
  "REQUEST_RESUME_AFTER_RUNNING_SOFTWARE_GENERATED_PERIODIC_EVENT_HANDLER = 14"
definition REQUEST_MAKE_PACKAGE_LITERALS_VIA_BYTECODE_INTERPRETER :: int where
  "REQUEST_MAKE_PACKAGE_LITERALS_VIA_BYTECODE_INTERPRETER = 15"

lemmas request_defs = REQUEST_HEAPCLEANING_def REQUEST_RETURN_TO_C_LEVEL_def REQUEST_HANDLE_UNCAUGHT_EXCEPTION_def
  REQUEST_FAULT_def REQUEST_FIND_CFUN_def REQUEST_CALL_CFUN_def REQUEST_ALLOCATE_STRING_def REQUEST_ALLOCATE_BYTE_VECTOR_def
  REQUEST_ALLOCATE_VECTOR_OF_EIGHT_BYTE_FLOATS_def REQUEST_MAKE_TYPEAGNOSTIC_RW_VECTOR_def REQUEST_MAKE_TYPEAGNOSTIC_RO_VECTOR_def
  REQUEST_RETURN_FROM_SIGNAL_HANDLER_def REQUEST_RESUME_AFTER_RUNNING_SIGNAL_HANDLER_def
  REQUEST_RETURN_FROM_SOFTWARE_GENERATED_PERIODIC_EVENT_HANDLER_def
  REQUEST_RESUME_AFTER_RUNNING_SOFTWARE_GENERATED_PERIODIC_EVENT_HANDLER_def
  REQUEST_MAKE_PACKAGE_LITERALS_VIA_BYTECODE_INTERPRETER_def

definition IN_RUNTIME__CPU_USER_INDEX :: val where "IN_RUNTIME__CPU_USER_INDEX = TAGGED_INT_FROM_C_INT 0"
definition IN_OTHER_CODE__CPU_USER_INDEX :: val where "IN_OTHER_CODE__CPU_USER_INDEX = TAGGED_INT_FROM_C_INT 3"

section \<open>What the loop relies on\<close>

record runtime =
  heapcleaner :: cleaner
  heapcleaner_state :: "task_state \<Rightarrow> Heapcleaner_State"
  periodic_events_switch :: "task_state \<Rightarrow> bool"
  poll_frequency :: "task_state \<Rightarrow> int"
  asm_run_mythryl_task :: "task_state \<Rightarrow> (int \<times> task_state) option"
  find_c_function :: "task_state \<Rightarrow> val \<Rightarrow> val \<Rightarrow> val"
  call_c_function :: "val \<Rightarrow> task_state \<Rightarrow> val \<Rightarrow> (task_state \<times> val) result option"
  codechunk_comment :: "task_state \<Rightarrow> val \<Rightarrow> unt8 list option"
  empty_string :: val
  profiling_hook_refcell :: val
  posix_interprocess_signal_handler_refcell :: val
  return_to_c_level_c :: val
  return_from_signal_handler_c :: val
  resume_after_handling_signal :: val
  handle_uncaught_exception_closure :: val

definition room_is_short :: "runtime \<Rightarrow> task_state \<Rightarrow> val \<Rightarrow> bool" where
  "room_is_short r t bytes_needed =
     need_to_call_heapcleaner (heapcleaner_state r t) (periodic_events_switch r t) (buffer (task_heap t)) bytes_needed"

definition clean_if_room_is_short :: "runtime \<Rightarrow> val \<Rightarrow> task_state \<Rightarrow> task_state result" where
  "clean_if_room_is_short r bytes_needed t =
     (if room_is_short r t bytes_needed then call_heapcleaner (heapcleaner r) 0 t else Inr t)"

section \<open>Linkage\<close>

definition SET_UP_RETURN :: "task_state \<Rightarrow> task_state" where
  "SET_UP_RETURN t = t\<lparr>current_closure := HEAP_VOID, program_counter := fate t\<rparr>"

definition SET_UP_THROW :: "val \<Rightarrow> val \<Rightarrow> task_state \<Rightarrow> task_state result" where
  "SET_UP_THROW f v t =
     seq_result (GET_CODE_ADDRESS_FROM_CLOSURE t f) (\<lambda>code.
       Inr (t\<lparr>current_closure := f, fate := HEAP_VOID, program_counter := code, link_register := code,
              exception_fate := HEAP_VOID, argument := v\<rparr>))"

section \<open>Serving a request\<close>

definition invoke_signal_handler :: "runtime \<Rightarrow> task_state \<Rightarrow> task_state result option" where
  "invoke_signal_handler r t =
     and_then (Some (clean_if_room_is_short r 4096 t)) (\<lambda>t.
     and_then (choose_signal (hostthread t)) (\<lambda>h.
       let (t, arg) = make_mythryl_signal_handler_arg (resume_after_handling_signal r) (t\<lparr>hostthread := h\<rparr>);
           t = t\<lparr>argument := arg, fate := return_from_signal_handler_c r, exception_fate := handle_uncaught_exception_closure r,
                 current_closure := DEREF t (posix_interprocess_signal_handler_refcell r)\<rparr>
       in and_then (Some (GET_CODE_ADDRESS_FROM_CLOSURE t (current_closure t))) (\<lambda>code.
            Some (Inr (t\<lparr>program_counter := code, link_register := code,
              hostthread := (hostthread t)\<lparr>mythryl_handler_for_interprocess_signal_is_running := True,
                interprocess_signal_pending := False\<rparr>\<rparr>)))))"

definition serve_heapcleaning_request :: "runtime \<Rightarrow> task_state \<Rightarrow> task_state result option" where
  "serve_heapcleaning_request r t =
     (if interprocess_signal_pending (hostthread t) then invoke_signal_handler r t
      else if software_generated_periodic_event_is_pending t \<and> \<not> in_software_generated_periodic_event_handler t
      then Some (call_heapcleaner (heapcleaner r) 0 (t\<lparr>software_generated_periodic_event_is_pending := False\<rparr>))
      else Some (call_heapcleaner (heapcleaner r) 0 t))"

definition file_location :: "unt8 list option \<Rightarrow> unt8 list" where
  "file_location namestring =
     (case namestring of
        Some n \<Rightarrow> map of_char ''<file '' @ take 184 n @ map of_char ''>''
      | None \<Rightarrow> map of_char ''<unknown file>'')"

definition serve_fault :: "runtime \<Rightarrow> val list \<Rightarrow> task_state \<Rightarrow> (val list \<times> task_state) result option" where
  "serve_fault r extra t =
     and_then (with_register_roots
         (make_ascii_string_from_c_string__may_heapclean (heapcleaner r) (empty_string r)
            (Some (file_location (codechunk_comment r t (faulting_program_counter t))))) extra t) (\<lambda>(extra, t, loc).
       let (t, trace_stack) = in_heap (LIST_CONS loc HEAP_NIL) t;
           (t, exn) = in_heap (make_three_slot_record (fault_exception t) HEAP_VOID trace_stack) t
       in and_then (Some (raise_mythryl_exception exn t)) (\<lambda>t. Some (Inr (extra, t))))"

definition serve_find_cfun :: "runtime \<Rightarrow> task_state \<Rightarrow> task_state result" where
  "serve_find_cfun r t =
     seq_result (task_tuple_slot t (argument t) 0) (\<lambda>l. seq_result (HEAP_STRING_AS_C_STRING (task_heap t) l) (\<lambda>lib.
     seq_result (task_tuple_slot t (argument t) 1) (\<lambda>f. seq_result (HEAP_STRING_AS_C_STRING (task_heap t) f) (\<lambda>fun.
       Inr (SET_UP_RETURN (t\<lparr>argument := find_c_function r t lib fun\<rparr>))))))"

definition serve_call_cfun :: "runtime \<Rightarrow> task_state \<Rightarrow> task_state result option" where
  "serve_call_cfun r t =
     and_then (Some (clean_if_room_is_short r 8192 (SET_UP_RETURN t))) (\<lambda>t.
     and_then (Some (task_tuple_slot t (argument t) 0)) (\<lambda>f.
     and_then (Some (task_tuple_slot t (argument t) 1)) (\<lambda>arg.
     and_then (call_c_function r f t arg) (\<lambda>(t, v). Some (Inr (t\<lparr>argument := v\<rparr>))))))"

text \<open>The requests that make a value and return it.\<close>

definition return_new_value ::
    "(val list \<Rightarrow> alloc_state \<Rightarrow> allocation) \<Rightarrow> val list \<Rightarrow> task_state \<Rightarrow> (val list \<times> task_state) result option" where
  "return_new_value f extra t =
     and_then (with_register_roots f extra t) (\<lambda>(extra, t, v).
       Some (Inr (extra, SET_UP_RETURN (t\<lparr>argument := v\<rparr>))))"

definition serve_make_vector ::
    "(int \<Rightarrow> val \<Rightarrow> val list \<Rightarrow> alloc_state \<Rightarrow> allocation) \<Rightarrow> val list \<Rightarrow> task_state \<Rightarrow> (val list \<times> task_state) result option" where
  "serve_make_vector f extra t =
     and_then (Some (task_tuple_slot t (argument t) 0)) (\<lambda>len.
     and_then (Some (task_tuple_slot t (argument t) 1)) (\<lambda>init.
       return_new_value (f (TAGGED_INT_TO_C_INT len) init) extra t))"

definition return_from_signal_handler :: "task_state \<Rightarrow> task_state result" where
  "return_from_signal_handler t =
     seq_result (SET_UP_THROW (argument t) HEAP_VOID t) (\<lambda>t.
       Inr (t\<lparr>hostthread := (hostthread t)\<lparr>mythryl_handler_for_interprocess_signal_is_running := False\<rparr>\<rparr>))"

definition return_from_periodic_event_handler :: "runtime \<Rightarrow> task_state \<Rightarrow> task_state result" where
  "return_from_periodic_event_handler r t =
     seq_result (SET_UP_THROW (argument t) HEAP_VOID t) (\<lambda>t.
       let t = t\<lparr>in_software_generated_periodic_event_handler := False\<rparr>;
           (b, m) = reset_heap_allocation_limit_for_software_generated_periodic_events (poll_frequency r t)
                      (buffer (task_heap t)) (words (task_heap t))
       in Inr (t\<lparr>task_heap := (task_heap t)\<lparr>buffer := b, words := m\<rparr>\<rparr>))"

text \<open>A request is served and the loop goes on, or the loop ends.\<close>

datatype served = Go_Round "val list" task_state | Leave_Loop "val list" task_state

definition going_round :: "val list \<Rightarrow> task_state result option \<Rightarrow> served result option" where
  "going_round extra x = and_then x (\<lambda>t. Some (Inr (Go_Round extra t)))"

definition going_round_with :: "(val list \<times> task_state) result option \<Rightarrow> served result option" where
  "going_round_with x = and_then x (\<lambda>(extra, t). Some (Inr (Go_Round extra t)))"

definition serve_request :: "runtime \<Rightarrow> int \<Rightarrow> val list \<Rightarrow> task_state \<Rightarrow> served result option" where
  "serve_request r request extra t =
     (if request = REQUEST_HEAPCLEANING then going_round extra (serve_heapcleaning_request r t)
      else if request = REQUEST_RETURN_TO_C_LEVEL
      then and_then (Some (call_heapcleaner (heapcleaner r) 0 t)) (\<lambda>t. Some (Inr (Leave_Loop extra t)))
      else if request = REQUEST_HANDLE_UNCAUGHT_EXCEPTION then handle_uncaught_exception t (argument t)
      else if request = REQUEST_FAULT then going_round_with (serve_fault r extra t)
      else if request = REQUEST_FIND_CFUN then going_round extra (Some (serve_find_cfun r t))
      else if request = REQUEST_CALL_CFUN then going_round extra (serve_call_cfun r t)
      else if request = REQUEST_ALLOCATE_STRING
      then going_round_with (return_new_value (allocate_nonempty_ascii_string__may_heapclean (heapcleaner r)
             (TAGGED_INT_TO_C_INT (argument t))) extra t)
      else if request = REQUEST_ALLOCATE_BYTE_VECTOR
      then going_round_with (return_new_value (allocate_nonempty_vector_of_one_byte_unts__may_heapclean (heapcleaner r)
             (TAGGED_INT_TO_C_INT (argument t))) extra t)
      else if request = REQUEST_ALLOCATE_VECTOR_OF_EIGHT_BYTE_FLOATS
      then going_round_with (return_new_value (allocate_nonempty_vector_of_eight_byte_floats__may_heapclean (heapcleaner r)
             (TAGGED_INT_TO_C_INT (argument t))) extra t)
      else if request = REQUEST_MAKE_TYPEAGNOSTIC_RW_VECTOR
      then going_round_with (serve_make_vector (make_nonempty_rw_vector__may_heapclean (heapcleaner r)) extra t)
      else if request = REQUEST_MAKE_TYPEAGNOSTIC_RO_VECTOR
      then going_round_with (serve_make_vector (make_nonempty_ro_vector__may_heapclean (heapcleaner r)) extra t)
      else if request = REQUEST_RETURN_FROM_SIGNAL_HANDLER then going_round extra (Some (return_from_signal_handler t))
      else if request = REQUEST_RETURN_FROM_SOFTWARE_GENERATED_PERIODIC_EVENT_HANDLER
      then going_round extra (Some (return_from_periodic_event_handler r t))
      else if request = REQUEST_RESUME_AFTER_RUNNING_SOFTWARE_GENERATED_PERIODIC_EVENT_HANDLER \<or>
              request = REQUEST_RESUME_AFTER_RUNNING_SIGNAL_HANDLER
      then going_round extra (Some (load_task_from_posthandler_resumption_fate t))
      else if request = REQUEST_MAKE_PACKAGE_LITERALS_VIA_BYTECODE_INTERPRETER
      then Some (Inl (Died ''MAKE_PACKAGE_LITERALS_VIA_BYTECODE_INTERPRETER request''))
      else Some (Inl (Died ''unknown request code'')))"

section \<open>The loop\<close>

partial_function (option) eventloop_from ::
    "runtime \<Rightarrow> val \<Rightarrow> val list \<Rightarrow> task_state \<Rightarrow> (val list \<times> task_state) result option" where
  "eventloop_from r previous_profile_index extra t =
     Option.bind (asm_run_mythryl_task r (ASSIGN (profiling_hook_refcell r) previous_profile_index t)) (\<lambda>(request, t).
       let previous_profile_index = DEREF t (profiling_hook_refcell r);
           t = ASSIGN (profiling_hook_refcell r) IN_RUNTIME__CPU_USER_INDEX t
       in Option.bind (serve_request r request extra t) (\<lambda>x. case x of
            Inl e \<Rightarrow> Some (Inl e)
          | Inr (Leave_Loop extra t) \<Rightarrow> Some (Inr (extra, t))
          | Inr (Go_Round extra t) \<Rightarrow> eventloop_from r previous_profile_index extra t))"

definition run_mythryl_task_and_runtime_eventloop__may_heapclean ::
    "runtime \<Rightarrow> val list \<Rightarrow> task_state \<Rightarrow> (val list \<times> task_state) result option" where
  "run_mythryl_task_and_runtime_eventloop__may_heapclean r = eventloop_from r IN_OTHER_CODE__CPU_USER_INDEX"

definition run_mythryl_function__may_heapclean ::
    "runtime \<Rightarrow> val \<Rightarrow> val \<Rightarrow> bool \<Rightarrow> val list \<Rightarrow> task_state \<Rightarrow> (val list \<times> task_state \<times> val) result option" where
  "run_mythryl_function__may_heapclean r f arg use_fate extra t =
     (let t = (initialize_task t)\<lparr>exception_fate := handle_uncaught_exception_closure r, current_thread := HEAP_VOID, argument := arg\<rparr>;
          t = (if use_fate then t else t\<lparr>fate := return_to_c_level_c r\<rparr>);
          t = t\<lparr>current_closure := f\<rparr>
      in and_then (Some (GET_CODE_ADDRESS_FROM_CLOSURE t f)) (\<lambda>code.
         and_then (run_mythryl_task_and_runtime_eventloop__may_heapclean r extra (t\<lparr>program_counter := code, link_register := code\<rparr>))
           (\<lambda>(extra, t). Some (Inr (extra, t, argument t)))))"

end
