(* ===== verification/Signal_Facts.thy ===== *)
theory Signal_Facts
  imports Signals
begin

text \<open>
  What the signal code promises. The runtime and the assembly code run step by step, signals
  arrive between any two of their steps, and a history counts what has arrived and what was given
  to the Mythryl level: nothing is lost, nothing is given twice, and no handler is started while
  another runs. The choice of the next signal is fair.
\<close>

section \<open>Rows of the table\<close>

lemma first_row_less: "i + n \<le> m \<Longrightarrow> 0 < m \<Longrightarrow> first_row P i n < m"
  by (induction n arbitrary: i) simp_all

lemma portable_id_less [simp]: "host_os_signal_id_to_portable_signal_id h sig < SIGNAL_TABLE_SIZE_IN_SLOTS"
  unfolding host_os_signal_id_to_portable_signal_id_def by (rule first_row_less) (simp_all add: SIGNAL_TABLE_SIZE_IN_SLOTS_def)

lemma next_row_less: "i < SIGNAL_TABLE_SIZE_IN_SLOTS \<Longrightarrow> next_row i < SIGNAL_TABLE_SIZE_IN_SLOTS"
  by (simp add: next_row_def SIGNAL_TABLE_SIZE_IN_SLOTS_def)

text \<open>How far round the table a row is from the one a scan starts after.\<close>

definition rows_ahead :: "nat \<Rightarrow> nat \<Rightarrow> nat" where
  "rows_ahead i j = (j + SIGNAL_TABLE_SIZE_IN_SLOTS - i - 1) mod SIGNAL_TABLE_SIZE_IN_SLOTS"

lemma rows_ahead_next:
  assumes "i < SIGNAL_TABLE_SIZE_IN_SLOTS" and "j < SIGNAL_TABLE_SIZE_IN_SLOTS"
  shows "if j = next_row i then rows_ahead i j = 0 else rows_ahead i j = Suc (rows_ahead (next_row i) j)"
proof (cases "i < j")
  case True
  then have "rows_ahead i j = j - i - 1" using assms
    by (simp add: rows_ahead_def SIGNAL_TABLE_SIZE_IN_SLOTS_def mod_if)
  moreover have "rows_ahead (next_row i) j = j - (i + 1) - 1" if "j \<noteq> next_row i"
    using that True assms by (simp add: rows_ahead_def next_row_def SIGNAL_TABLE_SIZE_IN_SLOTS_def mod_if)
  ultimately show ?thesis using True assms by (auto simp: next_row_def SIGNAL_TABLE_SIZE_IN_SLOTS_def)
next
  case False
  then have "rows_ahead i j = j + 31 - i" using assms by (simp add: rows_ahead_def SIGNAL_TABLE_SIZE_IN_SLOTS_def)
  moreover have "rows_ahead (next_row i) j = (if i = 31 then j - 1 else j + 30 - i)" if "j \<noteq> next_row i"
    using that False assms by (auto simp: rows_ahead_def next_row_def SIGNAL_TABLE_SIZE_IN_SLOTS_def mod_if split: if_splits)
  ultimately show ?thesis using False assms
    by (auto simp: next_row_def SIGNAL_TABLE_SIZE_IN_SLOTS_def split: if_splits)
qed

lemma rows_ahead_less: "rows_ahead i j < SIGNAL_TABLE_SIZE_IN_SLOTS"
  by (simp add: rows_ahead_def SIGNAL_TABLE_SIZE_IN_SLOTS_def)

section \<open>The choice\<close>

text \<open>A scan stops at the first row ahead of it that has something to do.\<close>

lemma scan_signal_counts_ok:
  assumes "i < SIGNAL_TABLE_SIZE_IN_SLOTS" and "j < SIGNAL_TABLE_SIZE_IN_SLOTS" and "undone s j \<noteq> 0"
  shows "\<exists>k. scan_signal_counts s i = Some (Inr (k, undone s k)) \<and> k < SIGNAL_TABLE_SIZE_IN_SLOTS \<and> undone s k \<noteq> 0 \<and>
    rows_ahead i k \<le> rows_ahead i j \<and> (k = j \<or> rows_ahead k j < rows_ahead i j)"
  using assms
proof (induction "rows_ahead i j" arbitrary: i rule: less_induct)
  case less
  let ?k = "next_row i"
  have k: "?k < SIGNAL_TABLE_SIZE_IN_SLOTS" using less.prems(1) by (rule next_row_less)
  note next_j = rows_ahead_next [OF less.prems(1,2)] and next_k = rows_ahead_next [OF less.prems(1) k]
  show ?case
  proof (cases "undone s ?k = 0")
    case False
    then have "scan_signal_counts s i = Some (Inr (?k, undone s ?k))" using k by (subst scan_signal_counts.simps) (simp add: Let_def)
    then show ?thesis using False k next_k next_j by (auto split: if_splits)
  next
    case True
    then have "j \<noteq> ?k" using less.prems(3) by auto
    then have closer: "rows_ahead i j = Suc (rows_ahead ?k j)" using next_j by simp
    then obtain l where l: "scan_signal_counts s ?k = Some (Inr (l, undone s l))" "l < SIGNAL_TABLE_SIZE_IN_SLOTS" "undone s l \<noteq> 0"
      "rows_ahead ?k l \<le> rows_ahead ?k j" "l = j \<or> rows_ahead l j < rows_ahead ?k j"
      using less.hyps [OF _ k less.prems(2,3)] by auto
    have "scan_signal_counts s i = Some (Inr (l, undone s l))" using True k l(1) by (subst scan_signal_counts.simps) (simp add: Let_def)
    moreover have "rows_ahead i l \<le> Suc (rows_ahead ?k l)" using rows_ahead_next [OF less.prems(1) l(2)] by (auto split: if_splits)
    ultimately show ?thesis using l closer by auto
  qed
qed

lemma choose_signal_ok:
  assumes "posix_signal_rotor s < SIGNAL_TABLE_SIZE_IN_SLOTS" and "j < SIGNAL_TABLE_SIZE_IN_SLOTS" and "undone s j \<noteq> 0"
  shows "\<exists>k. choose_signal s = Some (Inr (note_choice k (undone s k) s)) \<and> k < SIGNAL_TABLE_SIZE_IN_SLOTS \<and> undone s k \<noteq> 0 \<and>
    rows_ahead (posix_signal_rotor s) k \<le> rows_ahead (posix_signal_rotor s) j \<and>
    (k = j \<or> rows_ahead k j < rows_ahead (posix_signal_rotor s) j)"
  using scan_signal_counts_ok [OF assms] by (fastforce simp: choose_signal_def)

section \<open>Fairness\<close>

text \<open>Rounds in which signals arrive and then one is chosen; the ids chosen are listed. Never do
  \<open>2 ^ 32\<close> arrivals of one signal wait.\<close>

inductive signal_rounds :: "signal_host \<Rightarrow> signal_state \<Rightarrow> nat list \<Rightarrow> signal_state \<Rightarrow> bool" for h where
  no_round: "signal_rounds h s [] s"
| arrival: "c_signal_handler h sig s = Inr s' \<Longrightarrow> undone s (host_os_signal_id_to_portable_signal_id h sig) + 1 \<noteq> 0 \<Longrightarrow> signal_rounds h s' is s'' \<Longrightarrow> signal_rounds h s is s''"
| choice: "choose_signal s = Some (Inr s') \<Longrightarrow> signal_rounds h s' is s'' \<Longrightarrow> signal_rounds h s (next_posix_signal_id s' # is) s''"

definition waits :: "nat \<Rightarrow> signal_state \<Rightarrow> bool" where
  "waits i s \<longleftrightarrow> i < SIGNAL_TABLE_SIZE_IN_SLOTS \<and> posix_signal_rotor s < SIGNAL_TABLE_SIZE_IN_SLOTS \<and> undone s i \<noteq> 0"

lemma c_signal_handler_simps:
  assumes "c_signal_handler h sig s = Inr s'"
  shows "posix_signal_rotor s' = posix_signal_rotor s" "done_count s' = done_count s" "all_done_count s' = all_done_count s"
    "executing_mythryl_code s' = executing_mythryl_code s"
    "mythryl_handler_for_interprocess_signal_is_running s' = mythryl_handler_for_interprocess_signal_is_running s"
    "seen_count s' = (seen_count s)(host_os_signal_id_to_portable_signal_id h sig := seen_count s (host_os_signal_id_to_portable_signal_id h sig) + 1)"
    "all_seen_count s' = all_seen_count s + 1"
    "interprocess_signal_pending s' \<longleftrightarrow> interprocess_signal_pending s \<or>
       executing_mythryl_code s \<and> \<not> mythryl_handler_for_interprocess_signal_is_running s"
    "stackframe_heap_allocation_limit s' = (if interprocess_signal_pending s' \<and> \<not> interprocess_signal_pending s then 0 else stackframe_heap_allocation_limit s)"
  using assms
  by (auto simp: c_signal_handler_def Let_def count_signal_def ZERO_HEAP_ALLOCATION_LIMIT_FROM_C_SIGNAL_HANDLER_def split: if_splits)

lemma c_signal_handler_succeeds: "\<exists>s'. c_signal_handler h sig s = Inr s'"
  using portable_id_less [of h sig] by (simp add: c_signal_handler_def Let_def not_le [symmetric])

lemma note_choice_simps [simp]:
  "posix_signal_rotor (note_choice k d s) = k" "next_posix_signal_id (note_choice k d s) = k"
  "next_posix_signal_count (note_choice k d s) = sint d"
  "undone (note_choice k d s) j = (if j = k then undone s k - d else undone s j)"
  by (simp_all add: note_choice_def undone_def)

lemma arrival_keeps_waiting:
  assumes "c_signal_handler h sig s = Inr s'" and "undone s (host_os_signal_id_to_portable_signal_id h sig) + 1 \<noteq> 0" and "waits i s"
  shows "waits i s'" "posix_signal_rotor s' = posix_signal_rotor s"
proof -
  show "waits i s'" using assms(2,3) by (auto simp: waits_def undone_def c_signal_handler_simps [OF assms(1)] algebra_simps)
  show "posix_signal_rotor s' = posix_signal_rotor s" by (rule c_signal_handler_simps(1) [OF assms(1)])
qed

text \<open>What waits is chosen before as many rounds are over as there are rows between.\<close>

lemma waiting_signal_is_chosen:
  assumes "signal_rounds h s is s''" and "waits i s" and "rows_ahead (posix_signal_rotor s) i < length is"
  shows "i \<in> set (take (Suc (rows_ahead (posix_signal_rotor s) i)) is)"
  using assms
proof (induction rule: signal_rounds.induct)
  case (no_round s)
  then show ?case by simp
next
  case (arrival sig s s' "is" s'')
  then show ?case using arrival_keeps_waiting [OF arrival(1,2) arrival.prems(1)] by simp
next
  case (choice s s' "is" s'')
  obtain k where k: "choose_signal s = Some (Inr (note_choice k (undone s k) s))" "k < SIGNAL_TABLE_SIZE_IN_SLOTS"
    "k = i \<or> rows_ahead k i < rows_ahead (posix_signal_rotor s) i"
    using choose_signal_ok [of s i] choice.prems(1) by (auto simp: waits_def)
  have s': "s' = note_choice k (undone s k) s" using choice(1) k(1) by simp
  show ?case
  proof (cases "k = i")
    case True
    then show ?thesis by (simp add: s')
  next
    case False
    then have "waits i s'" using choice.prems(1) k(2) by (simp add: waits_def s')
    moreover have lt: "rows_ahead k i < rows_ahead (posix_signal_rotor s) i" using k(3) False by simp
    ultimately have "i \<in> set (take (Suc (rows_ahead k i)) is)" using choice.IH choice.prems(2) by (simp add: s')
    then show ?thesis using lt set_take_subset_set_take [of "Suc (rows_ahead k i)" "rows_ahead (posix_signal_rotor s) i" "is"] by auto
  qed
qed

text \<open>
  C16. The choice of signals is fair. A signal that waits is chosen in one of the next 32 rounds,
  whatever other signals arrive and are chosen meanwhile.
\<close>

theorem every_waiting_signal_is_chosen:
  assumes "signal_rounds h s is s''" and "waits i s" and "length is = SIGNAL_TABLE_SIZE_IN_SLOTS"
  shows "i \<in> set is"
  using waiting_signal_is_chosen [OF assms(1,2)] rows_ahead_less assms(3) set_take_subset by fastforce

section \<open>Steps\<close>

text \<open>Where a host thread is, and the history: how often each signal has arrived, how many arrivals
  were given to the Mythryl level, and where the allocation pointer was when Mythryl code was
  entered.\<close>

datatype signal_phase = In_Runtime | Entering | In_Mythryl | Scanning nat | Choosing nat vunt

record signal_machine =
  sm_phase :: signal_phase
  sm_state :: signal_state
  sm_arrived :: "nat \<Rightarrow> nat"
  sm_given :: "nat \<Rightarrow> nat"
  sm_entered_at :: val

definition total :: "(nat \<Rightarrow> nat) \<Rightarrow> nat" where
  "total f = (\<Sum>i < SIGNAL_TABLE_SIZE_IN_SLOTS. f i)"

definition handler_invoked :: "signal_state \<Rightarrow> signal_state" where
  "handler_invoked s = s\<lparr>mythryl_handler_for_interprocess_signal_is_running := True, interprocess_signal_pending := False\<rparr>"

definition handler_returned :: "signal_state \<Rightarrow> signal_state" where
  "handler_returned s = s\<lparr>mythryl_handler_for_interprocess_signal_is_running := False\<rparr>"

text \<open>A signal arrives at any moment, as long as fewer than \<open>2 ^ 32\<close> arrivals wait after it. The
  choice is made row by row, so that signals arrive between its steps as well.\<close>

inductive signal_step :: "signal_host \<Rightarrow> signal_machine \<Rightarrow> signal_machine \<Rightarrow> bool" for h where
  arrive: "c_signal_handler h sig (sm_state m) = Inr s \<Longrightarrow> total (sm_arrived m) - total (sm_given m) + 1 < 2 ^ 32 \<Longrightarrow>
    i = host_os_signal_id_to_portable_signal_id h sig \<Longrightarrow>
    signal_step h m (m\<lparr>sm_state := s, sm_arrived := (sm_arrived m)(i := Suc (sm_arrived m i))\<rparr>)"
| enter: "sm_phase m = In_Runtime \<Longrightarrow>
    signal_step h m (m\<lparr>sm_phase := Entering, sm_state := note_entry limit (sm_state m), sm_entered_at := pointer\<rparr>)"
| compare: "sm_phase m = Entering \<Longrightarrow>
    signal_step h m (m\<lparr>sm_phase := In_Mythryl, sm_state := look_for_signals (sm_entered_at m) (sm_state m)\<rparr>)"
| leave: "sm_phase m = In_Mythryl \<Longrightarrow> signal_step h m (m\<lparr>sm_phase := In_Runtime, sm_state := note_exit (sm_state m)\<rparr>)"
| begin_choice: "sm_phase m = In_Runtime \<Longrightarrow> interprocess_signal_pending (sm_state m) \<Longrightarrow>
    signal_step h m (m\<lparr>sm_phase := Scanning (posix_signal_rotor (sm_state m))\<rparr>)"
| go_on: "sm_phase m = Scanning i \<Longrightarrow> undone (sm_state m) (next_row i) = 0 \<Longrightarrow>
    signal_step h m (m\<lparr>sm_phase := Scanning (next_row i)\<rparr>)"
| found: "sm_phase m = Scanning i \<Longrightarrow> undone (sm_state m) (next_row i) \<noteq> 0 \<Longrightarrow>
    signal_step h m (m\<lparr>sm_phase := Choosing (next_row i) (undone (sm_state m) (next_row i))\<rparr>)"
| choose: "sm_phase m = Choosing i d \<Longrightarrow>
    signal_step h m (m\<lparr>sm_phase := In_Runtime, sm_state := handler_invoked (note_choice i d (sm_state m)),
      sm_given := (sm_given m)(i := sm_given m i + unat d)\<rparr>)"
| return: "sm_phase m = In_Runtime \<Longrightarrow> signal_step h m (m\<lparr>sm_state := handler_returned (sm_state m)\<rparr>)"

definition no_signals_yet :: "signal_machine \<Rightarrow> bool" where
  "no_signals_yet m \<longleftrightarrow> sm_phase m = In_Runtime \<and> sm_arrived m = (\<lambda>_. 0) \<and> sm_given m = (\<lambda>_. 0) \<and>
     (\<forall>i < SIGNAL_TABLE_SIZE_IN_SLOTS. seen_count (sm_state m) i = 0 \<and> done_count (sm_state m) i = 0) \<and>
     all_seen_count (sm_state m) = 0 \<and> all_done_count (sm_state m) = 0 \<and> posix_signal_rotor (sm_state m) = 0 \<and>
     \<not> executing_mythryl_code (sm_state m) \<and> \<not> interprocess_signal_pending (sm_state m) \<and>
     \<not> mythryl_handler_for_interprocess_signal_is_running (sm_state m)"

inductive reachable_signals :: "signal_host \<Rightarrow> signal_machine \<Rightarrow> bool" for h where
  start: "no_signals_yet m \<Longrightarrow> reachable_signals h m"
| step: "reachable_signals h m \<Longrightarrow> signal_step h m m' \<Longrightarrow> reachable_signals h m'"

section \<open>The invariant\<close>

definition counts_ok :: "signal_machine \<Rightarrow> bool" where
  "counts_ok m \<longleftrightarrow> posix_signal_rotor (sm_state m) < SIGNAL_TABLE_SIZE_IN_SLOTS \<and>
     (\<forall>i < SIGNAL_TABLE_SIZE_IN_SLOTS. seen_count (sm_state m) i = word_of_nat (sm_arrived m i) \<and>
        done_count (sm_state m) i = word_of_nat (sm_given m i) \<and> sm_given m i \<le> sm_arrived m i) \<and>
     all_seen_count (sm_state m) = word_of_nat (total (sm_arrived m)) \<and> all_done_count (sm_state m) = word_of_nat (total (sm_given m)) \<and>
     total (sm_arrived m) - total (sm_given m) < 2 ^ 32"

definition flags_ok :: "signal_machine \<Rightarrow> bool" where
  "flags_ok m \<longleftrightarrow>
     (executing_mythryl_code (sm_state m) \<longleftrightarrow> sm_phase m = Entering \<or> sm_phase m = In_Mythryl) \<and>
     (interprocess_signal_pending (sm_state m) \<longrightarrow>
        \<not> mythryl_handler_for_interprocess_signal_is_running (sm_state m) \<and> total (sm_given m) < total (sm_arrived m))"

fun phase_ok :: "signal_machine \<Rightarrow> signal_phase \<Rightarrow> bool" where
  "phase_ok m (Scanning i) \<longleftrightarrow> interprocess_signal_pending (sm_state m) \<and> i < SIGNAL_TABLE_SIZE_IN_SLOTS"
| "phase_ok m (Choosing i d) \<longleftrightarrow> interprocess_signal_pending (sm_state m) \<and> i < SIGNAL_TABLE_SIZE_IN_SLOTS \<and>
     0 < unat d \<and> unat d \<le> sm_arrived m i - sm_given m i"
| "phase_ok m In_Mythryl \<longleftrightarrow> (total (sm_given m) < total (sm_arrived m) \<longrightarrow> mythryl_handler_for_interprocess_signal_is_running (sm_state m) \<or>
     interprocess_signal_pending (sm_state m) \<and> stackframe_heap_allocation_limit (sm_state m) \<le> sm_entered_at m)"
| "phase_ok m _ \<longleftrightarrow> True"

definition signals_ok :: "signal_machine \<Rightarrow> bool" where
  "signals_ok m \<longleftrightarrow> counts_ok m \<and> flags_ok m \<and> phase_ok m (sm_phase m)"

lemma total_update: "i < SIGNAL_TABLE_SIZE_IN_SLOTS \<Longrightarrow> total (f(i := f i + n)) = total f + n"
proof -
  assume i: "i < SIGNAL_TABLE_SIZE_IN_SLOTS"
  have "total (f(i := f i + n)) = f i + n + (\<Sum>j \<in> {..<SIGNAL_TABLE_SIZE_IN_SLOTS} - {i}. f j)" "total f = f i + (\<Sum>j \<in> {..<SIGNAL_TABLE_SIZE_IN_SLOTS} - {i}. f j)"
    using i by (simp_all add: total_def sum.remove)
  then show ?thesis by simp
qed

lemma backlogs:
  assumes "\<And>i. i < SIGNAL_TABLE_SIZE_IN_SLOTS \<Longrightarrow> g i \<le> f i"
  shows "total g \<le> total f" "i < SIGNAL_TABLE_SIZE_IN_SLOTS \<Longrightarrow> f i - g i \<le> total f - total g"
proof -
  show "total g \<le> total f" unfolding total_def using assms by (auto intro: sum_mono)
  have "total f - total g = total (\<lambda>i. f i - g i)" unfolding total_def
    by (rule sum_subtractf_nat [symmetric]) (use assms in simp)
  then show "f i - g i \<le> total f - total g" if "i < SIGNAL_TABLE_SIZE_IN_SLOTS"
    unfolding total_def using that member_le_sum [of i "{..<SIGNAL_TABLE_SIZE_IN_SLOTS}" "\<lambda>i. f i - g i"] by simp
qed

lemma counts_okD:
  assumes "counts_ok m"
  shows "total (sm_given m) \<le> total (sm_arrived m)"
    "i < SIGNAL_TABLE_SIZE_IN_SLOTS \<Longrightarrow> unat (undone (sm_state m) i) = sm_arrived m i - sm_given m i"
    "all_done_count (sm_state m) = all_seen_count (sm_state m) \<longleftrightarrow> total (sm_arrived m) = total (sm_given m)"
proof -
  note le = backlogs [of "sm_given m" "sm_arrived m"] and c = assms [unfolded counts_ok_def]
  show t: "total (sm_given m) \<le> total (sm_arrived m)" using le(1) c by simp
  have u: "unat (word_of_nat a - word_of_nat b :: vunt) = a - b" if "b \<le> a" "a - b < 2 ^ 32" for a b
    using that by (simp flip: of_nat_diff add: unat_of_nat take_bit_nat_eq_self)
  show "unat (undone (sm_state m) i) = sm_arrived m i - sm_given m i" if "i < SIGNAL_TABLE_SIZE_IN_SLOTS"
    using u [of "sm_given m i" "sm_arrived m i"] le(2) [OF _ that] c that by (simp add: undone_def)
  have "all_done_count (sm_state m) = all_seen_count (sm_state m) \<longleftrightarrow> all_seen_count (sm_state m) - all_done_count (sm_state m) = 0" by auto
  also have "\<dots> \<longleftrightarrow> unat (all_seen_count (sm_state m) - all_done_count (sm_state m)) = 0" by (simp only: unat_eq_zero)
  also have "\<dots> \<longleftrightarrow> total (sm_arrived m) = total (sm_given m)" using u [OF t] c t by simp
  finally show "all_done_count (sm_state m) = all_seen_count (sm_state m) \<longleftrightarrow> total (sm_arrived m) = total (sm_given m)" .
qed

lemma arrival_ok:
  assumes "signals_ok m" and "c_signal_handler h sig (sm_state m) = Inr s" and "total (sm_arrived m) - total (sm_given m) + 1 < 2 ^ 32"
    and "i = host_os_signal_id_to_portable_signal_id h sig"
  shows "signals_ok (m\<lparr>sm_state := s, sm_arrived := (sm_arrived m)(i := Suc (sm_arrived m i))\<rparr>)" (is "signals_ok ?m")
proof -
  have i: "i < SIGNAL_TABLE_SIZE_IN_SLOTS" using assms(4) by simp
  note h = c_signal_handler_simps [OF assms(2), folded assms(4)]
  have ok: "counts_ok m" "flags_ok m" "phase_ok m (sm_phase m)" using assms(1) by (simp_all add: signals_ok_def)
  have t: "total ((sm_arrived m)(i := Suc (sm_arrived m i))) = Suc (total (sm_arrived m))"
    using total_update [OF i, of "sm_arrived m" 1] by simp
  note le = counts_okD(1) [OF ok(1)]
  have "counts_ok ?m" using ok(1) assms(3) le by (auto simp: counts_ok_def h t intro: le_SucI)
  moreover have f: "flags_ok ?m" using ok(2) le by (auto simp: flags_ok_def h t)
  moreover have "phase_ok ?m (sm_phase m)"
    using ok(2,3) le by (cases "sm_phase m") (auto simp: h t flags_ok_def split: if_splits)
  ultimately show ?thesis by (simp add: signals_ok_def)
qed

lemma choice_ok:
  assumes "signals_ok m" and "sm_phase m = Choosing i d"
  shows "signals_ok (m\<lparr>sm_phase := In_Runtime, sm_state := handler_invoked (note_choice i d (sm_state m)),
      sm_given := (sm_given m)(i := sm_given m i + unat d)\<rparr>)"
proof -
  have ok: "counts_ok m" "flags_ok m" "i < SIGNAL_TABLE_SIZE_IN_SLOTS" "unat d \<le> sm_arrived m i - sm_given m i" "0 < unat d"
    using assms by (simp_all add: signals_ok_def)
  note t = total_update [OF ok(3), of "sm_given m"]
  have "sm_arrived m i - sm_given m i \<le> total (sm_arrived m) - total (sm_given m)"
    using backlogs(2) [OF _ ok(3)] ok(1) by (simp add: counts_ok_def)
  then show ?thesis using assms(2) ok
    by (auto simp: signals_ok_def counts_ok_def flags_ok_def handler_invoked_def note_choice_def t)
qed

lemma signal_step_ok: "signal_step h m m' \<Longrightarrow> signals_ok m \<Longrightarrow> signals_ok m'"
proof (induction rule: signal_step.induct)
  case (arrive sig m s i)
  then show ?case by (intro arrival_ok) simp_all
next
  case (choose m i d)
  then show ?case by (intro choice_ok)
next
  case (compare m)
  then have ok: "counts_ok m" "flags_ok m" by (simp_all add: signals_ok_def)
  show ?case using compare ok counts_okD(3) [OF ok(1)] counts_okD(1) [OF ok(1)]
    by (auto simp: signals_ok_def counts_ok_def flags_ok_def look_for_signals_def)
next
  case (found m i)
  then have "counts_ok m" "next_row i < SIGNAL_TABLE_SIZE_IN_SLOTS" by (simp_all add: signals_ok_def next_row_less)
  moreover have "0 < unat (undone (sm_state m) (next_row i))" using found(2) by (simp add: unat_gt_0)
  ultimately show ?case using found counts_okD(2) [of m "next_row i"] by (auto simp: signals_ok_def counts_ok_def flags_ok_def)
qed (auto simp: signals_ok_def counts_ok_def flags_ok_def note_entry_def note_exit_def handler_returned_def next_row_less)

lemma reachable_signals_ok: "reachable_signals h m \<Longrightarrow> signals_ok m"
proof (induction rule: reachable_signals.induct)
  case (start m)
  then show ?case by (simp add: no_signals_yet_def signals_ok_def counts_ok_def flags_ok_def total_def SIGNAL_TABLE_SIZE_IN_SLOTS_def)
qed (blast intro: signal_step_ok)

section \<open>Properties\<close>

text \<open>
  C3. No signal is lost and none is given to the Mythryl level twice, however the arrivals fall
  between the steps of the runtime: of every signal, what has arrived is what was given and what
  still waits. While a signal waits and Mythryl code runs, either a handler is running, or the flag
  is set and the allocation limit is so low that the next heap check leaves Mythryl code. Whenever
  the flag is set no handler runs, and the choice finds a signal.
\<close>

theorem signals_are_neither_lost_nor_repeated:
  assumes "reachable_signals h m"
  shows "(\<forall>i < SIGNAL_TABLE_SIZE_IN_SLOTS. sm_arrived m i = sm_given m i + unat (undone (sm_state m) i)) \<and>
    (sm_phase m = In_Mythryl \<and> (\<exists>i < SIGNAL_TABLE_SIZE_IN_SLOTS. undone (sm_state m) i \<noteq> 0) \<longrightarrow>
       mythryl_handler_for_interprocess_signal_is_running (sm_state m) \<or>
       interprocess_signal_pending (sm_state m) \<and> stackframe_heap_allocation_limit (sm_state m) \<le> sm_entered_at m) \<and>
    (interprocess_signal_pending (sm_state m) \<longrightarrow>
       \<not> mythryl_handler_for_interprocess_signal_is_running (sm_state m) \<and>
       (\<exists>i. choose_signal (sm_state m) = Some (Inr (note_choice i (undone (sm_state m) i) (sm_state m))) \<and> undone (sm_state m) i \<noteq> 0))"
proof -
  have ok: "counts_ok m" "flags_ok m" "phase_ok m (sm_phase m)" using reachable_signals_ok [OF assms] by (simp_all add: signals_ok_def)
  have le: "i < SIGNAL_TABLE_SIZE_IN_SLOTS \<Longrightarrow> sm_given m i \<le> sm_arrived m i" for i using ok(1) by (simp add: counts_ok_def)
  note u = counts_okD(2) [OF ok(1)]
  have waiting: "\<exists>i < SIGNAL_TABLE_SIZE_IN_SLOTS. undone (sm_state m) i \<noteq> 0" if "total (sm_given m) < total (sm_arrived m)"
  proof (rule ccontr)
    assume "\<not> ?thesis"
    then have "i < SIGNAL_TABLE_SIZE_IN_SLOTS \<Longrightarrow> sm_arrived m i \<le> sm_given m i" for i using u [of i] by fastforce
    then have "total (sm_arrived m) \<le> total (sm_given m)" by (rule backlogs(1))
    with that show False by simp
  qed
  have strict: "total (sm_given m) < total (sm_arrived m)" if "i < SIGNAL_TABLE_SIZE_IN_SLOTS" "undone (sm_state m) i \<noteq> 0" for i
  proof -
    have "0 < unat (undone (sm_state m) i)" using that(2) by (simp add: unat_gt_0)
    then show ?thesis using u [OF that(1)] backlogs(2) [OF _ that(1), of "sm_given m" "sm_arrived m"] le by fastforce
  qed
  have rotor: "posix_signal_rotor (sm_state m) < SIGNAL_TABLE_SIZE_IN_SLOTS" using ok(1) by (simp add: counts_ok_def)
  have chosen: "\<exists>i. choose_signal (sm_state m) = Some (Inr (note_choice i (undone (sm_state m) i) (sm_state m))) \<and> undone (sm_state m) i \<noteq> 0"
    if "interprocess_signal_pending (sm_state m)"
    using waiting choose_signal_ok [OF rotor] that ok(2) by (fastforce simp: flags_ok_def)
  show ?thesis using u le strict ok(2,3) chosen by (auto simp: flags_ok_def)
qed

text \<open>A host with the numbers of Linux, on which one alarm has arrived before Mythryl code runs.\<close>

definition linux_signals :: signal_host where
  "linux_signals = \<lparr>host_os_id = int, SIGKILL = 9, SIGSTOP = 19, SIGFPE = 8, SIGSEGV = 11\<rparr>"

definition quiet_state :: signal_state where
  "quiet_state = \<lparr>executing_mythryl_code = False, interprocess_signal_pending = False,
     mythryl_handler_for_interprocess_signal_is_running = False, all_seen_count = 0, all_done_count = 0, next_posix_signal_id = 0,
     next_posix_signal_count = 0, seen_count = (\<lambda>_. 0), done_count = (\<lambda>_. 0), posix_signal_rotor = 0, ccall_limit_pointer_mask = 0,
     stackframe_heap_allocation_limit = 0\<rparr>"

definition quiet_machine :: signal_machine where
  "quiet_machine = \<lparr>sm_phase = In_Runtime, sm_state = quiet_state, sm_arrived = (\<lambda>_. 0), sm_given = (\<lambda>_. 0), sm_entered_at = 0\<rparr>"

definition alarmed_state :: signal_state where
  "alarmed_state = quiet_state\<lparr>seen_count := (\<lambda>i. if i = 14 then 1 else 0), all_seen_count := 1\<rparr>"

lemma sigalrm_is_row_14: "host_os_signal_id_to_portable_signal_id linux_signals 14 = 14"
  by (simp add: host_os_signal_id_to_portable_signal_id_def linux_signals_def SIGNAL_TABLE_SIZE_IN_SLOTS_def numeral_eq_Suc)

lemma alarm_arrives: "c_signal_handler linux_signals 14 quiet_state = Inr alarmed_state"
  by (auto simp: c_signal_handler_def sigalrm_is_row_14 SIGNAL_TABLE_SIZE_IN_SLOTS_def count_signal_def quiet_state_def alarmed_state_def)

theorem signals_are_neither_lost_nor_repeated_witness:
  "\<exists>m :: signal_machine. sm_phase m = In_Mythryl \<and> sm_arrived m 14 = 1 \<and> sm_given m 14 = 0 \<and> interprocess_signal_pending (sm_state m) \<and>
    stackframe_heap_allocation_limit (sm_state m) \<le> sm_entered_at m"
proof -
  let ?m1 = "quiet_machine\<lparr>sm_state := alarmed_state, sm_arrived := (\<lambda>_. 0)(14 := Suc 0)\<rparr>"
  let ?m2 = "?m1\<lparr>sm_phase := Entering, sm_state := note_entry 4096 alarmed_state, sm_entered_at := 1024\<rparr>"
  let ?m3 = "?m2\<lparr>sm_phase := In_Mythryl, sm_state := look_for_signals 1024 (note_entry 4096 alarmed_state)\<rparr>"
  have "reachable_signals linux_signals quiet_machine"
    by (rule reachable_signals.start) (simp add: no_signals_yet_def quiet_machine_def quiet_state_def)
  moreover have "signal_step linux_signals quiet_machine ?m1"
    using signal_step.arrive [of linux_signals 14 quiet_machine alarmed_state 14] alarm_arrives sigalrm_is_row_14
    by (simp add: quiet_machine_def total_def)
  moreover have "signal_step linux_signals ?m1 ?m2"
    using signal_step.enter [of ?m1 linux_signals 1024 4096] by (simp add: quiet_machine_def)
  moreover have "signal_step linux_signals ?m2 ?m3" using signal_step.compare [of ?m2 linux_signals] by (simp add: quiet_machine_def)
  ultimately have "reachable_signals linux_signals ?m3" by (blast intro: reachable_signals.step)
  from signals_are_neither_lost_nor_repeated [OF this]
  have p: "interprocess_signal_pending (sm_state ?m3) \<and> stackframe_heap_allocation_limit (sm_state ?m3) \<le> sm_entered_at ?m3"
    by (auto simp: look_for_signals_def note_entry_def alarmed_state_def quiet_state_def undone_def SIGNAL_TABLE_SIZE_IN_SLOTS_def
        dest!: spec [where x = 14])
  show ?thesis by (rule exI [of _ ?m3]) (use p in \<open>simp add: quiet_machine_def\<close>)
qed

text \<open>An alarm in every round.\<close>

lemma only_waiting_signal_is_chosen:
  assumes "posix_signal_rotor s < SIGNAL_TABLE_SIZE_IN_SLOTS" and "\<And>j. j < SIGNAL_TABLE_SIZE_IN_SLOTS \<Longrightarrow> (undone s j \<noteq> 0) = (j = 14)"
  shows "choose_signal s = Some (Inr (note_choice 14 (undone s 14) s))"
proof -
  have "14 < SIGNAL_TABLE_SIZE_IN_SLOTS" by (simp add: SIGNAL_TABLE_SIZE_IN_SLOTS_def)
  then show ?thesis using choose_signal_ok [OF assms(1), of 14] assms(2) by force
qed

lemma alarms_in_every_round:
  assumes "posix_signal_rotor s < SIGNAL_TABLE_SIZE_IN_SLOTS" and "\<And>j. j < SIGNAL_TABLE_SIZE_IN_SLOTS \<Longrightarrow> undone s j = 0"
  shows "\<exists>is s'. signal_rounds linux_signals s is s' \<and> length is = n"
  using assms
proof (induction n arbitrary: s)
  case 0
  then show ?case using signal_rounds.no_round [of linux_signals s] by force
next
  case (Suc n)
  obtain t where t: "c_signal_handler linux_signals 14 s = Inr t" using c_signal_handler_succeeds by blast
  note h = c_signal_handler_simps [OF t, unfolded sigalrm_is_row_14]
  let ?u = "note_choice 14 (undone t 14) t"
  have u: "undone t j = (if j = 14 then 1 else 0)" if "j < SIGNAL_TABLE_SIZE_IN_SLOTS" for j
    using Suc.prems(2) [OF that] by (auto simp: undone_def h algebra_simps)
  have c: "choose_signal t = Some (Inr ?u)" using Suc.prems(1) u by (intro only_waiting_signal_is_chosen) (simp_all add: h)
  have "\<exists>is s'. signal_rounds linux_signals ?u is s' \<and> length is = n"
    by (rule Suc.IH) (use u in \<open>simp_all add: SIGNAL_TABLE_SIZE_IN_SLOTS_def\<close>)
  moreover have "undone s 14 + 1 \<noteq> 0" using Suc.prems(2) [of 14] by (simp add: SIGNAL_TABLE_SIZE_IN_SLOTS_def)
  ultimately show ?case
    using signal_rounds.arrival [OF t, unfolded sigalrm_is_row_14] signal_rounds.choice [OF c] by (metis length_Cons)
qed

theorem every_waiting_signal_is_chosen_witness:
  "\<exists>is s. signal_rounds linux_signals alarmed_state is s \<and> length is = 32 \<and> 14 \<in> set is"
proof -
  have u: "undone alarmed_state j = (if j = 14 then 1 else 0)" for j by (simp add: undone_def alarmed_state_def quiet_state_def)
  have rotor: "posix_signal_rotor alarmed_state < SIGNAL_TABLE_SIZE_IN_SLOTS"
    by (simp add: alarmed_state_def quiet_state_def SIGNAL_TABLE_SIZE_IN_SLOTS_def)
  have c: "choose_signal alarmed_state = Some (Inr (note_choice 14 (undone alarmed_state 14) alarmed_state))"
    by (rule only_waiting_signal_is_chosen [OF rotor]) (simp add: u)
  let ?s = "note_choice 14 (undone alarmed_state 14) alarmed_state"
  have "undone ?s j = 0" for j by (simp add: u)
  then obtain "is" s where s: "signal_rounds linux_signals ?s is s" "length is = 31"
    using alarms_in_every_round [of ?s 31] by (auto simp: SIGNAL_TABLE_SIZE_IN_SLOTS_def)
  have r: "signal_rounds linux_signals alarmed_state (14 # is) s" using signal_rounds.choice [OF c s(1)] by simp
  moreover have "waits 14 alarmed_state" using u rotor by (simp add: waits_def SIGNAL_TABLE_SIZE_IN_SLOTS_def)
  ultimately have "14 \<in> set (14 # is)" using every_waiting_signal_is_chosen [OF r] s(2) by (simp add: SIGNAL_TABLE_SIZE_IN_SLOTS_def)
  then show ?thesis using r s(2) by (intro exI [of _ "14 # is"] exI [of _ s]) simp
qed

end
