(* ===== verification/Task_Facts.thy ===== *)
theory Task_Facts
  imports Runtime_Eventloop Literal_Facts Signal_Facts
begin

text \<open>
  What the runtime's event loop promises to interrupted Mythryl code: the registers go into a record
  in the heap when a signal handler is called, and come back from it afterwards.
\<close>

section \<open>Records laid down slot by slot\<close>

lemma set_slots_from_words:
  "set_slots_from i vs s = s\<lparr>words := write_words (slot (hap s) i) vs (words s)\<rparr>"
proof (induction vs arbitrary: i s)
  case Nil
  then show ?case by simp
next
  case (Cons v vs)
  have "slot (hap s) (i + 1) = slot (hap s) i + 4" by (simp add: slot_def algebra_simps)
  then show ?case using Cons.IH [of "i + 1" "set_slot_in_nascent_heapchunk i v s"] by (simp add: set_slot_in_nascent_heapchunk_def fun_upd_def)
qed

lemma make_record_of_chunk: "make_record_of vs = make_chunk (MAKE_TAGWORD (length vs) PAIRS_AND_RECORDS_BTAG) vs"
proof
  fix s
  let ?tag = "MAKE_TAGWORD (length vs) PAIRS_AND_RECORDS_BTAG" and ?p = "hap s"
  have p: "slot (slot ?p (int (length vs) + 1)) (- int (length vs)) = ?p + 4" "slot ?p 1 = ?p + 4" "slot ?p 0 = ?p"
    by (simp_all add: slot_def algebra_simps)
  show "make_record_of vs s = make_chunk ?tag vs s"
    using p by (simp add: make_record_of_def make_chunk_def commit_nascent_heapchunk_def set_slots_from_words
        set_slot_in_nascent_heapchunk_def set_heap_allocation_pointer_def Let_def)
qed

text \<open>A record read back, slot by slot, from a memory that agrees where it lies.\<close>

lemma get_slots_from_ok:
  assumes "IS_POINTER p" and "\<And>j. j < n \<Longrightarrow> words (task_heap t) (p + 4 * word_of_nat (i + j)) = vs ! j" and "length vs = n"
  shows "get_slots_from t p (int i) n = Inr vs"
  using assms(2,3)
proof (induction n arbitrary: i vs)
  case 0
  then show ?case by simp
next
  case (Suc n)
  then obtain v ws where vs: "vs = v # ws" by (cases vs) auto
  have v: "words (task_heap t) (p + 4 * word_of_nat i) = v" using Suc.prems(1) [of 0] by (simp add: vs)
  have "get_slots_from t p (int (Suc i)) n = Inr ws"
  proof (rule Suc.IH)
    show "words (task_heap t) (p + 4 * word_of_nat (Suc i + j)) = ws ! j" if "j < n" for j
      using Suc.prems(1) [of "Suc j"] that by (simp add: vs)
  qed (use Suc.prems(2) vs in simp)
  then show ?case using v assms(1)
    by (simp add: vs task_tuple_slot_def GET_TUPLE_SLOT_AS_VAL_def slot_def add.commute [of 1])
qed

definition registers :: "task_state \<Rightarrow> val list" where
  "registers t = [argument t, fate t, current_closure t, link_register t, program_counter t, exception_fate t,
     callee_saved_register_0 t, callee_saved_register_1 t, callee_saved_register_2 t]"

text \<open>Two memories hold the same words from one address on.\<close>

definition same_words :: "(val \<Rightarrow> val) \<Rightarrow> (val \<Rightarrow> val) \<Rightarrow> val \<Rightarrow> nat \<Rightarrow> bool" where
  "same_words m m' p n \<longleftrightarrow> (\<forall>i < n. m' (p + 4 * word_of_nat i) = m (p + 4 * word_of_nat i))"

definition with_registers :: "val list \<Rightarrow> task_state \<Rightarrow> task_state" where
  "with_registers vs t =
     t\<lparr>argument := vs ! 0, fate := vs ! 1, current_closure := vs ! 2, link_register := vs ! 3, program_counter := vs ! 4,
       exception_fate := vs ! 5, callee_saved_register_0 := vs ! 6, callee_saved_register_1 := vs ! 7,
       callee_saved_register_2 := vs ! 8\<rparr>"

lemma resumption_fate_ok:
  assumes "make_posthandler_resumption_fate_from_task resume t = (u, f)" and "room 11 (task_heap t)"
  shows "u = t\<lparr>task_heap := task_heap u\<rparr>" "new_chunk (task_heap t) (task_heap u) f (MAKE_TAGWORD 10 PAIRS_AND_RECORDS_BTAG) 10"
    "unat (hap (task_heap u)) = unat (hap (task_heap t)) + 44"
    "\<And>i. i < 10 \<Longrightarrow> words (task_heap u) (f + 4 * word_of_nat i) = (resume # registers t) ! i"
proof -
  obtain s where s: "make_chunk (MAKE_TAGWORD 10 PAIRS_AND_RECORDS_BTAG) (resume # registers t) (task_heap t) = (s, f)" "u = t\<lparr>task_heap := s\<rparr>"
    using assms(1) by (auto simp: make_posthandler_resumption_fate_from_task_def in_heap_def make_record_of_chunk registers_def
        eval_nat_numeral split: prod.splits)
  have "room (length (resume # registers t) + 1) (task_heap t)" using assms(2) by (simp add: registers_def eval_nat_numeral)
  note ok = make_chunk_ok [OF s(1) this]
  show "u = t\<lparr>task_heap := task_heap u\<rparr>" using s(2) by simp
  show "new_chunk (task_heap t) (task_heap u) f (MAKE_TAGWORD 10 PAIRS_AND_RECORDS_BTAG) 10"
    using ok(1) s(2) by (simp add: registers_def eval_nat_numeral)
  show "unat (hap (task_heap u)) = unat (hap (task_heap t)) + 44" using ok(3) s(2) by (simp add: registers_def)
  show "words (task_heap u) (f + 4 * word_of_nat i) = (resume # registers t) ! i" if "i < 10" for i
    using ok(2) [of i] that s(2) by (simp add: registers_def)
qed

lemma load_task_ok:
  assumes "IS_POINTER f" and "\<And>i. i < 10 \<Longrightarrow> m (f + 4 * word_of_nat i) = (resume # vs) ! i" and "length vs = 9"
    and "current_closure t = f" and "same_words m (words (task_heap t)) f 10"
  shows "load_task_from_posthandler_resumption_fate t = Inr (with_registers vs t)"
proof -
  have "get_slots_from t f (int 1) 9 = Inr vs"
  proof (rule get_slots_from_ok [OF assms(1) _ assms(3)])
    show "words (task_heap t) (f + 4 * word_of_nat (1 + j)) = vs ! j" if "j < 9" for j
      using assms(2) [of "1 + j"] assms(5) that by (simp add: same_words_def del: of_nat_add of_nat_Suc)
  qed
  then show ?thesis by (simp add: load_task_from_posthandler_resumption_fate_def assms(4) with_registers_def)
qed

section \<open>Interruption and resumption\<close>

text \<open>What a signal handler finds: its own argument record, and the linkage of its call.\<close>

definition handler_called :: "runtime \<Rightarrow> task_state \<Rightarrow> signal_state \<Rightarrow> task_state \<Rightarrow> val \<Rightarrow> bool" where
  "handler_called r t h u f \<longleftrightarrow>
     task_words u (argument u) = TAGGED_INT_FROM_C_INT (int (next_posix_signal_id h)) \<and>
     task_words u (argument u + 4) = TAGGED_INT_FROM_C_INT (next_posix_signal_count h) \<and>
     task_words u (argument u + 8) = f \<and>
     current_closure u = DEREF t (posix_interprocess_signal_handler_refcell r) \<and> fate u = return_from_signal_handler_c r \<and>
     program_counter u = task_words u (current_closure u) \<and> link_register u = program_counter u \<and>
     hostthread u = handler_invoked h"

lemma signal_handler_call_ok:
  assumes "room 15 (task_heap t)" and clean: "clean_if_room_is_short r 4096 t' = Inr t" and "choose_signal (hostthread t) = Some (Inr h)"
    and cell: "unat (posix_interprocess_signal_handler_refcell r) < unat (hap (task_heap t)) \<or>
      unat (hap (task_heap t)) + 60 \<le> unat (posix_interprocess_signal_handler_refcell r)"
    and "IS_POINTER (DEREF t (posix_interprocess_signal_handler_refcell r))"
  obtains u f where "invoke_signal_handler r t' = Some (Inr u)" "handler_called r t h u f" "grows (task_heap t) (task_heap u)"
    "IS_POINTER f" "\<And>i. i < 10 \<Longrightarrow> words (task_heap u) (f + 4 * word_of_nat i) = (resume_after_handling_signal r # registers t) ! i"
proof -
  let ?t = "t\<lparr>hostthread := h\<rparr>" and ?c = "posix_interprocess_signal_handler_refcell r"
  obtain t1 f where t1: "make_posthandler_resumption_fate_from_task (resume_after_handling_signal r) ?t = (t1, f)" by fastforce
  have "room 11 (task_heap ?t)" using assms(1) by (simp add: room_def)
  note f = resumption_fate_ok [OF t1 this]
  let ?ws = "[TAGGED_INT_FROM_C_INT (int (next_posix_signal_id h)), TAGGED_INT_FROM_C_INT (next_posix_signal_count h), f]"
  obtain s arg where s: "make_chunk (MAKE_TAGWORD 3 PAIRS_AND_RECORDS_BTAG) ?ws (task_heap t1) = (s, arg)" by fastforce
  note al = new_chunkD(7) [OF f(2)]
  have "room (length ?ws + 1) (task_heap t1)" using assms(1) f(3) al by (simp add: room_def)
  note a = make_chunk_ok [OF s this]
  have "hostthread t1 = h" using arg_cong [OF f(1), of hostthread] by simp
  then have arg: "make_mythryl_signal_handler_arg (resume_after_handling_signal r) ?t = (t1\<lparr>task_heap := s\<rparr>, arg)"
    using t1 s by (simp add: make_mythryl_signal_handler_arg_def in_heap_def make_three_slot_record_def)
  have g: "grows (task_heap t) s" using new_chunkD(1) [OF f(2)] new_chunkD(1) [OF a(1)] grows_trans by simp
  have top: "unat (hap s) = unat (hap (task_heap t)) + 60" using a(3) f(3) by simp
  have deref: "words s ?c = words (task_heap t) ?c" using g cell top unfolding grows_def by auto
  define code where "code = words s (DEREF t ?c)"
  define u where "u = t1\<lparr>task_heap := s, argument := arg, fate := return_from_signal_handler_c r,
    exception_fate := handle_uncaught_exception_closure r, current_closure := DEREF t ?c, program_counter := code, link_register := code,
    hostthread := h\<lparr>mythryl_handler_for_interprocess_signal_is_running := True, interprocess_signal_pending := False\<rparr>\<rparr>"
  have "invoke_signal_handler r t' = Some (Inr u)"
    using clean assms(3,5) arg deref \<open>hostthread t1 = h\<close>
    by (simp add: invoke_signal_handler_def DEREF_def slot_def GET_CODE_ADDRESS_FROM_CLOSURE_def
        task_tuple_slot_def GET_TUPLE_SLOT_AS_VAL_def u_def code_def)
  moreover have "handler_called r t h u f"
    using a(2) [of 0] a(2) [of 1] a(2) [of 2] by (simp add: handler_called_def u_def code_def task_words_def handler_invoked_def)
  moreover have "grows (task_heap t) (task_heap u)" using g by (simp add: u_def)
  moreover have "words (task_heap u) (f + 4 * word_of_nat i) = (resume_after_handling_signal r # registers t) ! i" if "i < 10" for i
  proof -
    have "words s (f + 4 * word_of_nat i) = words (task_heap t1) (f + 4 * word_of_nat i)"
      by (rule chunk_word_agree [OF new_chunkD(6) [OF f(2)] grows_agree [OF new_chunkD(1) [OF a(1)]] that])
    then show ?thesis using f(4) [OF that] by (simp add: u_def registers_def)
  qed
  ultimately show thesis using that new_chunkD(2) [OF f(2)] by blast
qed

text \<open>
  What can happen to the signal state while a handler runs: signals arrive, and Mythryl code is
  entered, looks for signals, and is left, any number of times.
\<close>

inductive while_handler_runs :: "signal_host \<Rightarrow> signal_state \<Rightarrow> signal_state \<Rightarrow> bool" for sh s where
  at_first: "while_handler_runs sh s s"
| arrival: "while_handler_runs sh s u \<Longrightarrow> c_signal_handler sh sig u = Inr v \<Longrightarrow> while_handler_runs sh s v"
| entry: "while_handler_runs sh s u \<Longrightarrow> while_handler_runs sh s (note_entry limit u)"
| look: "while_handler_runs sh s u \<Longrightarrow> while_handler_runs sh s (look_for_signals pointer u)"
| leaving: "while_handler_runs sh s u \<Longrightarrow> while_handler_runs sh s (note_exit u)"

lemma no_request_while_handler_runs:
  assumes "while_handler_runs sh s v" and "mythryl_handler_for_interprocess_signal_is_running s" and "\<not> interprocess_signal_pending s"
  shows "mythryl_handler_for_interprocess_signal_is_running v \<and> \<not> interprocess_signal_pending v"
  using assms
  by (induction rule: while_handler_runs.induct)
    (simp_all add: c_signal_handler_simps note_entry_def look_for_signals_def note_exit_def)

text \<open>What the heapcleaning before the call makes of the registers; the program counter is no root.\<close>

definition cleaned_registers :: "runtime \<Rightarrow> task_state \<Rightarrow> task_state \<Rightarrow> bool" where
  "cleaned_registers r t t' \<longleftrightarrow> (\<exists>roots s. heapcleaner r 0 (register_roots t) (task_heap t) = Inr (roots, s) \<and> task_heap t' = s \<and>
     registers t' = [roots ! 1, roots ! 2, roots ! 3, roots ! 0, program_counter t, roots ! 4, roots ! 6, roots ! 7, roots ! 8])"

lemma clean_if_room_is_short_ok:
  assumes "clean_if_room_is_short r n t = Inr t'"
  shows "hostthread t' = hostthread t" and "if room_is_short r t n then cleaned_registers r t t' else t' = t"
  using assms
  by (auto simp: clean_if_room_is_short_def call_heapcleaner_def call_heapcleaner_with_extra_roots_def seq_result_eq_Inr
      set_registers_def cleaned_registers_def registers_def split: if_splits prod.splits)

text \<open>
  C15. Mythryl code that a signal interrupts goes on where it was. The request leads to a call of
  the Mythryl level's handler, with the chosen signal, its count and a resumption fate as arguments;
  until the handler is done, whatever signals arrive and however often Mythryl code is entered and
  left, no second call of a handler is requested. When the handler resumes that fate, and its record
  is unchanged, nine registers are put back: argument, fate, current closure, link register, program
  counter, exception fate and the three callee-saved registers. They have the values of the
  interruption, or, where the room in the heap was short and it was cleaned before the call, those
  the heapcleaner has made of them. (The buffer then has room for the 15 words of the
  handler's arguments, and the refcell of the handler, which is outside them, holds its closure. The
  current thread is deliberately left to the handler.)
\<close>

theorem interrupted_task_resumes:
  assumes "interprocess_signal_pending (hostthread t)" and "choose_signal (hostthread t) = Some (Inr h)"
    and clean: "clean_if_room_is_short r 4096 t = Inr t'" and "room 15 (task_heap t')"
    and "unat (posix_interprocess_signal_handler_refcell r) < unat (hap (task_heap t'))"
    and "IS_POINTER (DEREF t' (posix_interprocess_signal_handler_refcell r))"
  shows "\<exists>u f. serve_request r REQUEST_HEAPCLEANING extra t = Some (Inr (Go_Round extra u)) \<and> handler_called r t' h u f \<and>
    (if room_is_short r t 4096 then cleaned_registers r t t' else t' = t) \<and> grows (task_heap t') (task_heap u) \<and>
    (\<forall>sh s. while_handler_runs sh (hostthread u) s \<longrightarrow> \<not> interprocess_signal_pending s) \<and>
    (\<forall>v extra'. current_closure v = f \<and> same_words (task_words u) (task_words v) f 10 \<longrightarrow>
       (\<exists>w. serve_request r REQUEST_RESUME_AFTER_RUNNING_SIGNAL_HANDLER extra' v = Some (Inr (Go_Round extra' w)) \<and>
         registers w = registers t' \<and> w = with_registers (registers t') v \<and> current_thread w = current_thread v))"
proof -
  have h: "choose_signal (hostthread t') = Some (Inr h)" using assms(2) clean_if_room_is_short_ok(1) [OF clean] by simp
  obtain u f where u: "invoke_signal_handler r t = Some (Inr u)" "handler_called r t' h u f" "grows (task_heap t') (task_heap u)"
    "IS_POINTER f" "\<And>i. i < 10 \<Longrightarrow> words (task_heap u) (f + 4 * word_of_nat i) = (resume_after_handling_signal r # registers t') ! i"
    using signal_handler_call_ok [OF assms(4) clean h disjI1 [OF assms(5)] assms(6)] by blast
  have load: "load_task_from_posthandler_resumption_fate v = Inr (with_registers (registers t') v)"
    if "current_closure v = f" "same_words (task_words u) (task_words v) f 10" for v
    by (rule load_task_ok [OF u(4,5) _ that(1)]) (use that(2) in \<open>simp_all add: registers_def task_words_def\<close>)
  have "hostthread u = handler_invoked h" using u(2) by (simp add: handler_called_def)
  then have quiet: "\<not> interprocess_signal_pending s" if "while_handler_runs sh (hostthread u) s" for sh s
    using no_request_while_handler_runs [OF that] by (simp add: handler_invoked_def)
  have regs: "registers (with_registers (registers t') v) = registers t'" "current_thread (with_registers (registers t') v) = current_thread v" for v
    by (simp_all add: registers_def with_registers_def)
  show ?thesis using u(1-3) assms(1) load quiet regs clean_if_room_is_short_ok(2) [OF clean]
    by (intro exI [of _ u] exI [of _ f]) (simp add: serve_request_def request_defs serve_heapcleaning_request_def going_round_def)
qed

text \<open>A task interrupted by an alarm; the refcell of the handler is at 4096 and its closure at 8192.\<close>

definition example_runtime :: runtime where
  "example_runtime = \<lparr>heapcleaner = (\<lambda>_ _ _. Inl Wild), heapcleaner_state = (\<lambda>_. HEAPCLEANER_IS_OFF), periodic_events_switch = (\<lambda>_. False),
     poll_frequency = (\<lambda>_. 0), asm_run_mythryl_task = (\<lambda>_. None), find_c_function = (\<lambda>_ _ _. HEAP_VOID),
     call_c_function = (\<lambda>_ _ _. None), codechunk_comment = (\<lambda>_ _. None), empty_string = 256, profiling_hook_refcell = 512,
     posix_interprocess_signal_handler_refcell = 4096, return_to_c_level_c = 1024, return_from_signal_handler_c = 1028,
     resume_after_handling_signal = 1032, handle_uncaught_exception_closure = 1036\<rparr>"

definition example_task :: task_state where
  "example_task = \<lparr>task_heap = example_state\<lparr>words := (words example_state)(4096 := 8192, 8192 := 9000)\<rparr>, argument = 11, fate = 2000,
     current_closure = 3000, link_register = 3004, program_counter = 3008, exception_fate = 3012, current_thread = HEAP_VOID,
     callee_saved_register_0 = 21, callee_saved_register_1 = 23, callee_saved_register_2 = 25, task_heap_changelog = HEAP_VOID,
     fault_exception = HEAP_VOID, faulting_program_counter = 0, heapvoid = HEAP_VOID,
     software_generated_periodic_event_is_pending = False, in_software_generated_periodic_event_handler = False,
     hostthread = alarmed_state\<lparr>interprocess_signal_pending := True\<rparr>\<rparr>"

lemma example_task_room: "\<not> room_is_short example_runtime example_task 4096"
  by (simp add: room_is_short_def need_to_call_heapcleaner_def example_runtime_def example_task_def example_state_def example_buffer_def
      hostthread_buffer_def Let_def HEAP_ALLOCATION_LIMIT_def HEAP_ALLOCATION_LIMIT_SIZE_def buffer_sizes)

lemma example_task_choice:
  "choose_signal (hostthread example_task) = Some (Inr (note_choice 14 (undone (hostthread example_task) 14) (hostthread example_task)))"
  by (rule only_waiting_signal_is_chosen)
    (simp_all add: example_task_def alarmed_state_def quiet_state_def undone_def SIGNAL_TABLE_SIZE_IN_SLOTS_def)

text \<open>A runtime in which a cleaning is asked for, and moves the chunk at 3000 to 3100.\<close>

definition cleaning_runtime :: runtime where
  "cleaning_runtime = example_runtime\<lparr>heapcleaner := (\<lambda>_ roots s. Inr (map (\<lambda>v. if v = 3000 then 3100 else v) roots, s)),
     heapcleaner_state := (\<lambda>_. HEAPCLEANER_IS_STARTING)\<rparr>"

theorem interrupted_task_resumes_witness:
  "(\<exists>u f. serve_request example_runtime REQUEST_HEAPCLEANING [] example_task = Some (Inr (Go_Round [] u)) \<and>
    task_words u (argument u) = TAGGED_INT_FROM_C_INT 14 \<and> task_words u (argument u + 4) = TAGGED_INT_FROM_C_INT 1 \<and>
    program_counter u = 9000 \<and>
    serve_request example_runtime REQUEST_RESUME_AFTER_RUNNING_SIGNAL_HANDLER [] (u\<lparr>current_closure := f\<rparr>) =
      Some (Inr (Go_Round [] (with_registers [11, 2000, 3000, 3004, 3008, 3012, 21, 23, 25] u)))) \<and>
   (\<exists>u f. serve_request cleaning_runtime REQUEST_HEAPCLEANING [] example_task = Some (Inr (Go_Round [] u)) \<and>
    serve_request cleaning_runtime REQUEST_RESUME_AFTER_RUNNING_SIGNAL_HANDLER [] (u\<lparr>current_closure := f\<rparr>) =
      Some (Inr (Go_Round [] (with_registers [11, 2000, 3100, 3004, 3008, 3012, 21, 23, 25] u))))"
proof
  have h: "unat (hap (task_heap example_task)) = 0x10000000" using example_hap by (simp add: example_task_def)
  have cell: "DEREF example_task (posix_interprocess_signal_handler_refcell example_runtime) = 8192"
    by (simp add: DEREF_def example_task_def example_runtime_def slot_def)
  have pending: "interprocess_signal_pending (hostthread example_task)" by (simp add: example_task_def)
  have room: "room 15 (task_heap example_task)" using h example_hap by (simp add: room_def example_task_def)
  have c1: "clean_if_room_is_short example_runtime 4096 example_task = Inr example_task"
    by (simp add: clean_if_room_is_short_def example_task_room)
  have p1: "unat (posix_interprocess_signal_handler_refcell example_runtime) < unat (hap (task_heap example_task))"
    "IS_POINTER (DEREF example_task (posix_interprocess_signal_handler_refcell example_runtime))"
    using h cell by (simp_all add: example_runtime_def IS_POINTER_iff)
  obtain u f where u: "serve_request example_runtime REQUEST_HEAPCLEANING [] example_task = Some (Inr (Go_Round [] u))"
    "handler_called example_runtime example_task (note_choice 14 (undone (hostthread example_task) 14) (hostthread example_task)) u f"
    "grows (task_heap example_task) (task_heap u)"
    "\<And>v extra'. current_closure v = f \<and> same_words (task_words u) (task_words v) f 10 \<Longrightarrow>
       serve_request example_runtime REQUEST_RESUME_AFTER_RUNNING_SIGNAL_HANDLER extra' v =
         Some (Inr (Go_Round extra' (with_registers (registers example_task) v)))"
    using interrupted_task_resumes [OF pending example_task_choice c1 room p1, of "[]"] by metis
  have "task_words u 8192 = words (task_heap example_task) 8192" using u(3) h unfolding grows_def task_words_def by simp
  then have "program_counter u = 9000" using u(2) cell by (simp add: handler_called_def example_task_def)
  moreover have "undone (hostthread example_task) 14 = 1" by (simp add: example_task_def alarmed_state_def quiet_state_def undone_def)
  then have "task_words u (argument u) = TAGGED_INT_FROM_C_INT 14" "task_words u (argument u + 4) = TAGGED_INT_FROM_C_INT 1"
    using u(2) by (simp_all add: handler_called_def)
  moreover have "serve_request example_runtime REQUEST_RESUME_AFTER_RUNNING_SIGNAL_HANDLER [] (u\<lparr>current_closure := f\<rparr>) =
      Some (Inr (Go_Round [] (with_registers [11, 2000, 3000, 3004, 3008, 3012, 21, 23, 25] u)))"
    using u(4) [of "u\<lparr>current_closure := f\<rparr>"] by (simp add: same_words_def task_words_def registers_def example_task_def with_registers_def)
  ultimately show "\<exists>u f. serve_request example_runtime REQUEST_HEAPCLEANING [] example_task = Some (Inr (Go_Round [] u)) \<and>
    task_words u (argument u) = TAGGED_INT_FROM_C_INT 14 \<and> task_words u (argument u + 4) = TAGGED_INT_FROM_C_INT 1 \<and>
    program_counter u = 9000 \<and>
    serve_request example_runtime REQUEST_RESUME_AFTER_RUNNING_SIGNAL_HANDLER [] (u\<lparr>current_closure := f\<rparr>) =
      Some (Inr (Go_Round [] (with_registers [11, 2000, 3000, 3004, 3008, 3012, 21, 23, 25] u)))" using u(1) by blast
  let ?t = "example_task\<lparr>current_closure := 3100\<rparr>"
  have "room_is_short cleaning_runtime example_task 4096"
    by (simp add: room_is_short_def need_to_call_heapcleaner_def cleaning_runtime_def)
  then have c2: "clean_if_room_is_short cleaning_runtime 4096 example_task = Inr ?t"
    by (simp add: clean_if_room_is_short_def call_heapcleaner_def call_heapcleaner_with_extra_roots_def cleaning_runtime_def
        register_roots_def set_registers_def example_task_def HEAP_VOID_def TAGGED_INT_FROM_C_INT_def)
  have p2: "room 15 (task_heap ?t)" "unat (posix_interprocess_signal_handler_refcell cleaning_runtime) < unat (hap (task_heap ?t))"
    "IS_POINTER (DEREF ?t (posix_interprocess_signal_handler_refcell cleaning_runtime))"
    using room p1 by (simp_all add: cleaning_runtime_def DEREF_def)
  obtain u f where u: "serve_request cleaning_runtime REQUEST_HEAPCLEANING [] example_task = Some (Inr (Go_Round [] u))"
    "\<And>v extra'. current_closure v = f \<and> same_words (task_words u) (task_words v) f 10 \<Longrightarrow>
       serve_request cleaning_runtime REQUEST_RESUME_AFTER_RUNNING_SIGNAL_HANDLER extra' v =
         Some (Inr (Go_Round extra' (with_registers (registers ?t) v)))"
    using interrupted_task_resumes [OF pending example_task_choice c2 p2, of "[]"] by metis
  have "serve_request cleaning_runtime REQUEST_RESUME_AFTER_RUNNING_SIGNAL_HANDLER [] (u\<lparr>current_closure := f\<rparr>) =
      Some (Inr (Go_Round [] (with_registers [11, 2000, 3100, 3004, 3008, 3012, 21, 23, 25] u)))"
    using u(2) [of "u\<lparr>current_closure := f\<rparr>"] by (simp add: same_words_def task_words_def registers_def example_task_def with_registers_def)
  with u(1) show "\<exists>u f. serve_request cleaning_runtime REQUEST_HEAPCLEANING [] example_task = Some (Inr (Go_Round [] u)) \<and>
    serve_request cleaning_runtime REQUEST_RESUME_AFTER_RUNNING_SIGNAL_HANDLER [] (u\<lparr>current_closure := f\<rparr>) =
      Some (Inr (Go_Round [] (with_registers [11, 2000, 3100, 3004, 3008, 3012, 21, 23, 25] u)))" by blast
qed

end
