(* ===== verification/Signal_Masks.thy ===== *)
theory Signal_Masks
  imports Signal_Facts Literal_Facts
begin

text \<open>
  The signal mask of the process, set from and read back into Mythryl values
  (\<open>set_signal_mask\<close> and \<open>get_signal_mask__may_heapclean\<close> in
  \<open>src/c/machine-dependent/interprocess-signals.c\<close>). A Mythryl mask is \<open>NULL\<close> for no signal,
  \<open>THE []\<close> for all of them, and otherwise \<open>THE\<close> the list of portable ids. The kernel's mask is a
  set of host ids; the kernel silently leaves \<open>SIGKILL\<close> and \<open>SIGSTOP\<close> out of it.
\<close>

section \<open>Definitions\<close>

definition OPTION_NULL :: val where "OPTION_NULL = TAGGED_INT_FROM_C_INT 0"

definition OPTION_THE :: "val \<Rightarrow> alloc_state \<Rightarrow> alloc_state \<times> val" where
  "OPTION_THE a = make_one_slot_record a"

definition OPTION_GET :: "alloc_state \<Rightarrow> val \<Rightarrow> val result" where
  "OPTION_GET s r = GET_TUPLE_SLOT_AS_VAL s r 0"

text \<open>\<open>sigaddset\<close> refuses what is not the id of a signal.\<close>

definition ADD_SIGNAL_TO_SET :: "int \<Rightarrow> int set \<Rightarrow> int set" where
  "ADD_SIGNAL_TO_SET sig blocked = (if 0 < sig \<and> sig \<le> 64 then insert sig blocked else blocked)"

definition SET_PROCESS_SIGNAL_MASK :: "signal_host \<Rightarrow> int set \<Rightarrow> int set" where
  "SET_PROCESS_SIGNAL_MASK h blocked = blocked - {SIGKILL h, SIGSTOP h}"

partial_function (option) add_signals_of_list :: "signal_host \<Rightarrow> alloc_state \<Rightarrow> val \<Rightarrow> int set \<Rightarrow> int set result option" where
  "add_signals_of_list h s signal_list blocked =
     (if signal_list = HEAP_NIL then Some (Inr blocked)
      else case LIST_HEAD s signal_list of Inl e \<Rightarrow> Some (Inl e) | Inr car \<Rightarrow>
        (case portable_signal_id_to_host_os_signal_id h (TAGGED_INT_TO_C_INT car) of Inl e \<Rightarrow> Some (Inl e) | Inr sig \<Rightarrow>
          (case LIST_TAIL s signal_list of Inl e \<Rightarrow> Some (Inl e) | Inr signal_list \<Rightarrow>
             add_signals_of_list h s signal_list (ADD_SIGNAL_TO_SET sig blocked))))"

definition all_signals :: "signal_host \<Rightarrow> int set" where
  "all_signals h = foldl (\<lambda>blocked i. ADD_SIGNAL_TO_SET (host_os_id h i) blocked) {} [0..<SIGNAL_TABLE_SIZE_IN_SLOTS]"

definition set_signal_mask :: "signal_host \<Rightarrow> val \<Rightarrow> alloc_state \<Rightarrow> int set result option" where
  "set_signal_mask h arg s =
     and_then
       (if arg = OPTION_NULL then Some (Inr {})
        else and_then (Some (OPTION_GET s arg)) (\<lambda>signal_list.
          if signal_list = HEAP_NIL then Some (Inr (all_signals h)) else add_signals_of_list h s signal_list {}))
       (\<lambda>blocked. Some (Inr (SET_PROCESS_SIGNAL_MASK h blocked)))"

text \<open>The ids of the table's signals that are in the mask are put before the list, from the first row on.\<close>

definition masked_row :: "signal_host \<Rightarrow> int set \<Rightarrow> nat \<Rightarrow> bool" where
  "masked_row h blocked i \<longleftrightarrow> host_os_id h i \<noteq> 0 \<and> host_os_id h i \<in> blocked"

fun list_masked_rows :: "cleaner \<Rightarrow> signal_host \<Rightarrow> int set \<Rightarrow> nat \<Rightarrow> nat \<Rightarrow> val list \<Rightarrow> alloc_state \<Rightarrow> val \<Rightarrow> allocation" where
  "list_masked_rows clean h blocked i 0 roots s signal_list = returning roots (s, signal_list)"
| "list_masked_rows clean h blocked i (Suc n) roots s signal_list =
     and_then (Some (clean_if_half_full clean (signal_list # roots) s)) (\<lambda>(roots, s).
       let (s, signal_list) = (if masked_row h blocked i then LIST_CONS (TAGGED_INT_FROM_C_INT (int i)) (hd roots) s else (s, hd roots))
       in list_masked_rows clean h blocked (i + 1) n (tl roots) s signal_list)"

definition get_signal_mask__may_heapclean :: "cleaner \<Rightarrow> signal_host \<Rightarrow> int set \<Rightarrow> val list \<Rightarrow> alloc_state \<Rightarrow> allocation" where
  "get_signal_mask__may_heapclean clean h blocked roots s =
     (let n = length (filter (masked_row h blocked) [0..<SIGNAL_TABLE_SIZE_IN_SLOTS]);
          total_signals = length (filter (\<lambda>i. host_os_id h i \<noteq> 0) [0..<SIGNAL_TABLE_SIZE_IN_SLOTS])
      in if n = 0 then returning roots (s, OPTION_NULL)
         else and_then (if n = total_signals then returning roots (s, HEAP_NIL)
                        else list_masked_rows clean h blocked 0 SIGNAL_TABLE_SIZE_IN_SLOTS roots s HEAP_NIL) (\<lambda>(roots, s, signal_list).
                returning roots (OPTION_THE signal_list s)))"

section \<open>Lists of ids\<close>

fun id_list_at :: "(val \<Rightarrow> val) \<Rightarrow> nat \<Rightarrow> val \<Rightarrow> nat list \<Rightarrow> bool" where
  "id_list_at m lim p [] \<longleftrightarrow> p = HEAP_NIL"
| "id_list_at m lim p (i # is) \<longleftrightarrow> chunk m lim p PAIR_TAGWORD 2 \<and> m p = TAGGED_INT_FROM_C_INT (int i) \<and> id_list_at m lim (m (p + 4)) is"

lemma id_list_at_agree:
  "id_list_at m lim p is \<Longrightarrow> agree m m' lim \<Longrightarrow> lim \<le> lim' \<Longrightarrow> id_list_at m' lim' p is"
proof (induction "is" arbitrary: p)
  case (Cons i "is")
  then have c: "chunk m lim p PAIR_TAGWORD 2" by simp
  have "m' p = m p" "m' (p + 4) = m (p + 4)"
    using chunk_word_agree [OF c Cons.prems(2), of 0] chunk_word_agree [OF c Cons.prems(2), of 1] by simp_all
  then show ?case using Cons chunk_agree [OF c Cons.prems(2,3)] by simp
qed simp

lemma unsigned_half_free_no_clean:
  assumes "half_free n s"
  shows "clean_if_half_full clean roots s = Inr (roots, s)"
proof -
  let ?b = "buffer s"
  have le: "unat (heap_allocation_buffer ?b) \<le> unat (hap s)" "unat (hap s) \<le> unat (real_heap_allocation_limit ?b)"
    and half: "unat (hap s) - unat (heap_allocation_buffer ?b) \<le> unat (real_heap_allocation_limit ?b) - unat (hap s)"
    using assms by (auto simp: half_free_def)
  have "unat (agegroup0_freespace_in_bytes ?b) = unat (real_heap_allocation_limit ?b) - unat (hap s)"
    unfolding agegroup0_freespace_in_bytes_def using le by (simp add: unat_sub word_le_nat_alt)
  moreover have "unat (agegroup0_usedspace_in_bytes ?b) = unat (hap s) - unat (heap_allocation_buffer ?b)"
    unfolding agegroup0_usedspace_in_bytes_def using le by (simp add: unat_sub word_le_nat_alt)
  ultimately show ?thesis using half by (simp add: clean_if_half_full_def word_less_nat_alt)
qed

section \<open>Setting\<close>

text \<open>A host whose signals have valid ids, one row for each.\<close>

definition signal_host_ok :: "signal_host \<Rightarrow> bool" where
  "signal_host_ok h \<longleftrightarrow> (\<forall>i < SIGNAL_TABLE_SIZE_IN_SLOTS. 0 \<le> host_os_id h i \<and> host_os_id h i \<le> 64) \<and>
     (\<forall>i < SIGNAL_TABLE_SIZE_IN_SLOTS. \<forall>j < SIGNAL_TABLE_SIZE_IN_SLOTS. host_os_id h i = host_os_id h j \<longrightarrow> host_os_id h i \<noteq> 0 \<longrightarrow> i = j) \<and>
     (\<exists>i < SIGNAL_TABLE_SIZE_IN_SLOTS. host_os_id h i = SIGKILL h) \<and> SIGKILL h \<noteq> 0"

lemma add_signals_of_list_ok:
  assumes "signal_host_ok h" and "id_list_at (words s) lim p is" and "\<forall>i \<in> set is. i < SIGNAL_TABLE_SIZE_IN_SLOTS"
  shows "add_signals_of_list h s p b = Some (Inr (b \<union> (host_os_id h ` set is - {0})))"
  using assms(2,3)
proof (induction "is" arbitrary: p b)
  case Nil
  then show ?case by (subst add_signals_of_list.simps) simp
next
  case (Cons i "is")
  have p: "IS_POINTER p" "words s p = TAGGED_INT_FROM_C_INT (int i)" using Cons.prems(1) by (simp_all add: chunk_def)
  have "p \<noteq> HEAP_NIL" using p(1) by (auto simp: IS_POINTER_iff HEAP_NIL_def TAGGED_INT_FROM_C_INT_def)
  moreover have "TAGGED_INT_TO_C_INT (TAGGED_INT_FROM_C_INT (int i)) = int i"
    by (rule TAGGED_INT_round_trip) (use Cons.prems(2) in \<open>simp_all add: SIGNAL_TABLE_SIZE_IN_SLOTS_def\<close>)
  moreover have "0 \<le> host_os_id h i" "host_os_id h i \<le> 64" using assms(1) Cons.prems(2) by (simp_all add: signal_host_ok_def)
  ultimately show ?case
    using p Cons.IH [of "words s (p + 4)" "ADD_SIGNAL_TO_SET (host_os_id h i) b"] Cons.prems
    by (subst add_signals_of_list.simps)
      (auto simp: LIST_HEAD_def LIST_TAIL_def GET_TUPLE_SLOT_AS_VAL_def slot_def portable_signal_id_to_host_os_signal_id_def ADD_SIGNAL_TO_SET_def)
qed

definition mask_set_to :: "signal_host \<Rightarrow> nat list \<Rightarrow> int set" where
  "mask_set_to h is = host_os_id h ` set is - {0, SIGKILL h, SIGSTOP h}"

lemma all_signals_ok: "signal_host_ok h \<Longrightarrow> all_signals h = host_os_id h ` set [0..<SIGNAL_TABLE_SIZE_IN_SLOTS] - {0}"
proof -
  have "foldl (\<lambda>b i. ADD_SIGNAL_TO_SET (host_os_id h i) b) b is = b \<union> (host_os_id h ` set is - {0})"
    if "\<forall>i \<in> set is. 0 \<le> host_os_id h i \<and> host_os_id h i \<le> 64" for b "is"
    using that by (induction "is" arbitrary: b) (auto simp: ADD_SIGNAL_TO_SET_def)
  then show "signal_host_ok h \<Longrightarrow> ?thesis" by (simp add: all_signals_def signal_host_ok_def)
qed

text \<open>
  What a Mythryl value asks for: \<open>NULL\<close> for nothing, \<open>THE\<close> a list for the signals it names, where the
  empty list stands for every row of the table.
\<close>

fun mask_at :: "(val \<Rightarrow> val) \<Rightarrow> nat \<Rightarrow> val \<Rightarrow> nat list option \<Rightarrow> bool" where
  "mask_at m lim arg None \<longleftrightarrow> arg = OPTION_NULL"
| "mask_at m lim arg (Some is) \<longleftrightarrow> chunk m lim arg (MAKE_TAGWORD 1 PAIRS_AND_RECORDS_BTAG) 1 \<and> id_list_at m lim (m arg) is \<and>
     (\<forall>i \<in> set is. i < SIGNAL_TABLE_SIZE_IN_SLOTS)"

fun asked_for :: "nat list option \<Rightarrow> nat list" where
  "asked_for None = []"
| "asked_for (Some []) = [0..<SIGNAL_TABLE_SIZE_IN_SLOTS]"
| "asked_for (Some is) = is"

lemma asked_for_rows: "mask_at m lim arg what \<Longrightarrow> \<forall>i \<in> set (asked_for what). i < SIGNAL_TABLE_SIZE_IN_SLOTS"
  by (cases what rule: asked_for.cases) auto

lemma set_signal_mask_ok:
  assumes "signal_host_ok h" and "mask_at (words s) lim arg what"
  shows "set_signal_mask h arg s = Some (Inr (mask_set_to h (asked_for what)))"
proof (cases what)
  case None
  then show ?thesis using assms(2) by (simp add: set_signal_mask_def SET_PROCESS_SIGNAL_MASK_def mask_set_to_def)
next
  case (Some l)
  then have l: "chunk (words s) lim arg (MAKE_TAGWORD 1 PAIRS_AND_RECORDS_BTAG) 1" "id_list_at (words s) lim (words s arg) l"
    "\<forall>i \<in> set l. i < SIGNAL_TABLE_SIZE_IN_SLOTS" using assms(2) by simp_all
  have p: "IS_POINTER arg" using l(1) by (simp add: chunk_def)
  then have "arg \<noteq> OPTION_NULL" by (auto simp: IS_POINTER_iff OPTION_NULL_def TAGGED_INT_FROM_C_INT_def)
  then have set: "set_signal_mask h arg s = and_then (if words s arg = HEAP_NIL then Some (Inr (all_signals h)) else add_signals_of_list h s (words s arg) {})
      (\<lambda>blocked. Some (Inr (SET_PROCESS_SIGNAL_MASK h blocked)))"
    using p by (simp add: set_signal_mask_def OPTION_GET_def GET_TUPLE_SLOT_AS_VAL_def slot_def)
  show ?thesis
  proof (cases l)
    case Nil
    then show ?thesis using set l(2) Some all_signals_ok [OF assms(1)]
      by (auto simp: SET_PROCESS_SIGNAL_MASK_def mask_set_to_def)
  next
    case (Cons i "is")
    have "IS_POINTER (words s arg)" using l(2) Cons by (simp add: chunk_def)
    then have "words s arg \<noteq> HEAP_NIL" by (auto simp: IS_POINTER_iff HEAP_NIL_def TAGGED_INT_FROM_C_INT_def)
    then show ?thesis using set Some Cons add_signals_of_list_ok [OF assms(1) l(2,3), of "{}"]
      by (auto simp: SET_PROCESS_SIGNAL_MASK_def mask_set_to_def)
  qed
qed

section \<open>Getting\<close>

lemma masked_row_of_list:
  assumes "signal_host_ok h" and "\<forall>i \<in> set is. i < SIGNAL_TABLE_SIZE_IN_SLOTS" and "i < SIGNAL_TABLE_SIZE_IN_SLOTS"
  shows "masked_row h (mask_set_to h is) i \<longleftrightarrow> i \<in> set is \<and> host_os_id h i \<notin> {0, SIGKILL h, SIGSTOP h}"
proof -
  have one: "i = j" if "host_os_id h i = host_os_id h j" "host_os_id h i \<noteq> 0" "j \<in> set is" for j
  proof -
    have "j < SIGNAL_TABLE_SIZE_IN_SLOTS" using assms(2) that(3) by simp
    then show ?thesis using assms(1,3) that(1,2) by (simp add: signal_host_ok_def)
  qed
  have "(host_os_id h i \<in> host_os_id h ` set is) = (i \<in> set is)" if nz: "host_os_id h i \<noteq> 0"
  proof
    assume "host_os_id h i \<in> host_os_id h ` set is"
    then obtain j where "j \<in> set is" "host_os_id h i = host_os_id h j" by (elim imageE) simp
    then show "i \<in> set is" using one [OF _ nz] by simp
  qed (rule imageI)
  then show ?thesis by (simp add: masked_row_def mask_set_to_def) (metis)
qed

lemma list_masked_rows_ok:
  assumes "half_free (3 * n + k) s" and "unat (hap s) mod 4 = 0" and "id_list_at (words s) (unat (hap s)) p is"
  shows "\<exists>t q. list_masked_rows clean h b i n roots s p = Some (Inr (roots, t, q)) \<and> grows s t \<and> unat (hap t) mod 4 = 0 \<and>
    unat (hap t) \<le> unat (hap s) + 4 * (3 * n) \<and> id_list_at (words t) (unat (hap t)) q (rev (filter (masked_row h b) [i..<i + n]) @ is)"
  using assms
proof (induction n arbitrary: i s p "is")
  case 0
  then show ?case by (simp add: returning_def)
next
  case (Suc n)
  note quiet = unsigned_half_free_no_clean [OF Suc.prems(1)]
  have seg: "[i..<i + Suc n] = i # [i + 1..<i + 1 + n]" by (simp add: upt_conv_Cons)
  show ?case
  proof (cases "masked_row h b i")
    case False
    have "half_free (3 * n + k) s" using Suc.prems(1) by (auto simp: half_free_def)
    from Suc.IH [OF this Suc.prems(2,3), of "i + 1"] show ?thesis using False quiet seg by auto
  next
    case True
    obtain u q where u: "make_chunk PAIR_TAGWORD [TAGGED_INT_FROM_C_INT (int i), p] s = (u, q)" by fastforce
    have "room (length [TAGGED_INT_FROM_C_INT (int i), p] + 1) s" using Suc.prems(1,2) by (auto simp: half_free_def room_def)
    note c = make_chunk_ok [OF u this]
    note g = new_chunkD(1) [OF c(1)]
    have hf: "half_free (3 * n + k) u" by (rule half_free_after [of 3, OF _ g]) (use Suc.prems(1) c(3) in \<open>simp_all add: add.assoc\<close>)
    have "id_list_at (words u) (unat (hap u)) p is" by (rule id_list_at_agree [OF Suc.prems(3) grows_agree [OF g] grows_le [OF g]])
    then have "id_list_at (words u) (unat (hap u)) q (i # is)"
      using new_chunkD(6) [OF c(1)] c(2) [of 0] c(2) [of 1] by (simp add: numeral_2_eq_2)
    from Suc.IH [OF hf new_chunkD(7) [OF c(1)] this, of "i + 1"] obtain t q' where t:
      "list_masked_rows clean h b (i + 1) n roots u q = Some (Inr (roots, t, q'))" "grows u t" "unat (hap t) mod 4 = 0"
      "unat (hap t) \<le> unat (hap u) + 4 * (3 * n)"
      "id_list_at (words t) (unat (hap t)) q' (rev (filter (masked_row h b) [i + 1..<i + 1 + n]) @ i # is)"
      by (elim exE conjE)
    have "list_masked_rows clean h b i (Suc n) roots s p = Some (Inr (roots, t, q'))"
      using True quiet u t(1) by (simp add: LIST_CONS_def make_two_slot_record_def)
    then show ?thesis using t grows_trans [OF g t(2)] c(3) True seg by auto
  qed
qed

text \<open>
  C21. What a Mythryl program sets as the signal mask it gets back as a list: whether it set
  \<open>NULL\<close> (no signal), \<open>THE\<close> a list of portable ids or \<open>THE []\<close> (every signal of the table), getting the mask
  gives \<open>THE\<close> the list of the signals asked for, without repetitions and the greatest first; ids
  the host does not have are left out, and so are \<open>SIGKILL\<close> and \<open>SIGSTOP\<close>, which the kernel does not
  block. When nothing is left the answer is \<open>NULL\<close>; it is never \<open>THE []\<close>, also where \<open>THE []\<close> was
  set. (The
  host's signals have different ids from 1 to 64, \<open>SIGKILL\<close> among them. While the answer is built agegroup 0 stays at most half full, with 100 words to spare, so
  that it is not cleaned on the way.)
\<close>

theorem signal_mask_comes_back:
  assumes "signal_host_ok h" and "mask_at (words s) lim arg what"
    and "half_free 100 t" and "unat (hap t) mod 4 = 0"
  defines "left \<equiv> rev (filter (\<lambda>i. i \<in> set (asked_for what) \<and> host_os_id h i \<notin> {0, SIGKILL h, SIGSTOP h}) [0..<SIGNAL_TABLE_SIZE_IN_SLOTS])"
  shows "\<exists>m u v. set_signal_mask h arg s = Some (Inr m) \<and> get_signal_mask__may_heapclean clean h m roots t = Some (Inr (roots, u, v)) \<and>
    grows t u \<and> (if left = [] then v = OPTION_NULL
      else chunk (words u) (unat (hap u)) v (MAKE_TAGWORD 1 PAIRS_AND_RECORDS_BTAG) 1 \<and> id_list_at (words u) (unat (hap u)) (words u v) left)"
proof -
  let ?is = "asked_for what" and ?m = "mask_set_to h (asked_for what)" and ?rows = "[0..<SIGNAL_TABLE_SIZE_IN_SLOTS]"
  note rows = asked_for_rows [OF assms(2)]
  have "filter (\<lambda>i. i \<in> set ?is \<and> host_os_id h i \<notin> {0, SIGKILL h, SIGSTOP h}) ?rows = filter (masked_row h ?m) ?rows"
    by (rule filter_cong [OF refl]) (use masked_row_of_list [OF assms(1) rows] in simp)
  then have left: "left = rev (filter (masked_row h ?m) ?rows)" unfolding left_def by simp
  have set: "set_signal_mask h arg s = Some (Inr ?m)" by (rule set_signal_mask_ok [OF assms(1,2)])
  show ?thesis
  proof (cases "left = []")
    case True
    then have "get_signal_mask__may_heapclean clean h ?m roots t = Some (Inr (roots, t, OPTION_NULL))"
      unfolding get_signal_mask__may_heapclean_def using left by (simp add: returning_def)
    then show ?thesis using set True by auto
  next
    case False
    obtain k where k: "k \<in> set ?rows" "host_os_id h k = SIGKILL h" "SIGKILL h \<noteq> 0" using assms(1) by (auto simp: signal_host_ok_def)
    let ?l = "set (filter (masked_row h ?m) ?rows)" and ?r = "set (filter (\<lambda>i. host_os_id h i \<noteq> 0) ?rows)"
    have "\<not> masked_row h ?m k" using masked_row_of_list [OF assms(1) rows, of k] k by simp
    then have "k \<notin> ?l" "k \<in> ?r" using k by simp_all
    moreover have "?l \<subseteq> ?r" by (auto simp: masked_row_def)
    ultimately have "?l \<subset> ?r" by blast
    then have "card (set (filter (masked_row h ?m) ?rows)) < card (set (filter (\<lambda>i. host_os_id h i \<noteq> 0) ?rows))"
      by (intro psubset_card_mono) simp_all
    then have some: "length (filter (masked_row h ?m) ?rows) \<noteq> length (filter (\<lambda>i. host_os_id h i \<noteq> 0) ?rows)"
      by (simp add: distinct_card [symmetric])
    have "half_free (3 * SIGNAL_TABLE_SIZE_IN_SLOTS + 4) t" using assms(3) by (simp add: SIGNAL_TABLE_SIZE_IN_SLOTS_def)
    from list_masked_rows_ok [OF this assms(4), of HEAP_NIL "[]" clean h ?m 0 roots] obtain u q where u:
      "list_masked_rows clean h ?m 0 SIGNAL_TABLE_SIZE_IN_SLOTS roots t HEAP_NIL = Some (Inr (roots, u, q))" "grows t u"
      "unat (hap u) mod 4 = 0" "unat (hap u) \<le> unat (hap t) + 4 * (3 * SIGNAL_TABLE_SIZE_IN_SLOTS)" "id_list_at (words u) (unat (hap u)) q left"
      using left by auto
    obtain w v where w: "make_chunk (MAKE_TAGWORD 1 PAIRS_AND_RECORDS_BTAG) [q] u = (w, v)" by fastforce
    have "room (length [q] + 1) u" using u(3,4) assms(3) by (auto simp: half_free_def room_def SIGNAL_TABLE_SIZE_IN_SLOTS_def)
    note c = make_chunk_ok [OF w this]
    note g = new_chunkD(1) [OF c(1)]
    have "get_signal_mask__may_heapclean clean h ?m roots t = Some (Inr (roots, w, v))"
      using u(1) w some False left
      by (simp add: get_signal_mask__may_heapclean_def OPTION_THE_def make_one_slot_record_def returning_def)
    moreover have "id_list_at (words w) (unat (hap w)) (words w v) left"
      using id_list_at_agree [OF u(5) grows_agree [OF g] grows_le [OF g]] c(2) [of 0] by simp
    ultimately show ?thesis using set False new_chunkD(6) [OF c(1)] grows_trans [OF u(2) g]
      by (intro exI [of _ ?m] exI [of _ w] exI [of _ v]) simp
  qed
qed

text \<open>The list of \<open>SIGALRM\<close>, \<open>SIGKILL\<close> and \<open>SIGINT\<close>, in a record at 4096.\<close>

definition mask_state :: alloc_state where
  "mask_state = example_state\<lparr>words := (words example_state)(4092 := MAKE_TAGWORD 1 PAIRS_AND_RECORDS_BTAG, 4096 := 8196,
     8192 := PAIR_TAGWORD, 8196 := TAGGED_INT_FROM_C_INT 14, 8200 := 8208,
     8204 := PAIR_TAGWORD, 8208 := TAGGED_INT_FROM_C_INT 9, 8212 := 8220,
     8216 := PAIR_TAGWORD, 8220 := TAGGED_INT_FROM_C_INT 2, 8224 := HEAP_NIL)\<rparr>"

lemma linux_signal_host_ok: "signal_host_ok linux_signals"
  by (auto simp: signal_host_ok_def linux_signals_def SIGNAL_TABLE_SIZE_IN_SLOTS_def intro!: exI [of _ 9])

text \<open>Asked for those three, and asked for all by an empty list in a record at 4096 of an otherwise empty heap.\<close>

theorem signal_mask_comes_back_witness:
  "(\<exists>m u v. set_signal_mask linux_signals 4096 mask_state = Some (Inr m) \<and>
    get_signal_mask__may_heapclean (\<lambda>_ _ _. Inl Wild) linux_signals m [] example_state = Some (Inr ([], u, v)) \<and>
    IS_POINTER v \<and> id_list_at (words u) (unat (hap u)) (words u v) [14, 2]) \<and>
   (\<exists>m u v. set_signal_mask linux_signals 4096 (mask_state\<lparr>words := (words mask_state)(4096 := HEAP_NIL)\<rparr>) = Some (Inr m) \<and>
    get_signal_mask__may_heapclean (\<lambda>_ _ _. Inl Wild) linux_signals m [] example_state = Some (Inr ([], u, v)) \<and>
    IS_POINTER v \<and> IS_POINTER (words u v))"
proof
  let ?s = "mask_state\<lparr>words := (words mask_state)(4096 := HEAP_NIL)\<rparr>"
  have free: "half_free 100 example_state"
    by (simp add: half_free_def example_state_def example_buffer_def hostthread_buffer_def Let_def HEAP_ALLOCATION_LIMIT_SIZE_def buffer_sizes)
  have al: "unat (hap example_state) mod 4 = 0" by (simp add: example_hap)
  have left: "rev (filter (\<lambda>i. i \<in> set (asked_for (Some [14, 9, 2])) \<and> host_os_id linux_signals i \<notin> {0, SIGKILL linux_signals, SIGSTOP linux_signals})
      [0..<SIGNAL_TABLE_SIZE_IN_SLOTS]) = [14, 2]"
    by (simp add: linux_signals_def SIGNAL_TABLE_SIZE_IN_SLOTS_def upt_rec)
  have three: "mask_at (words mask_state) 9000 4096 (Some [14, 9, 2])"
    by (simp add: mask_state_def chunk_def IS_POINTER_iff SIGNAL_TABLE_SIZE_IN_SLOTS_def)
  from signal_mask_comes_back [OF linux_signal_host_ok three free al, of "\<lambda>_ _ _. Inl Wild" "[]", unfolded left]
  show "\<exists>m u v. set_signal_mask linux_signals 4096 mask_state = Some (Inr m) \<and>
    get_signal_mask__may_heapclean (\<lambda>_ _ _. Inl Wild) linux_signals m [] example_state = Some (Inr ([], u, v)) \<and>
    IS_POINTER v \<and> id_list_at (words u) (unat (hap u)) (words u v) [14, 2]" unfolding chunk_def by auto
  have every: "mask_at (words ?s) 9000 4096 (Some [])" by (simp add: mask_state_def chunk_def IS_POINTER_iff)
  let ?left = "rev (filter (\<lambda>i. i \<in> set (asked_for (Some [])) \<and> host_os_id linux_signals i \<notin> {0, SIGKILL linux_signals, SIGSTOP linux_signals})
      [0..<SIGNAL_TABLE_SIZE_IN_SLOTS])"
  have "14 \<in> set ?left" by (simp add: linux_signals_def SIGNAL_TABLE_SIZE_IN_SLOTS_def)
  then have "?left \<noteq> []" by (metis list.distinct(1) list.set_cases)
  then obtain i l where "?left = i # l" by (meson neq_Nil_conv)
  from signal_mask_comes_back [OF linux_signal_host_ok every free al, of "\<lambda>_ _ _. Inl Wild" "[]", unfolded this]
  show "\<exists>m u v. set_signal_mask linux_signals 4096 ?s = Some (Inr m) \<and>
    get_signal_mask__may_heapclean (\<lambda>_ _ _. Inl Wild) linux_signals m [] example_state = Some (Inr ([], u, v)) \<and>
    IS_POINTER v \<and> IS_POINTER (words u v)" by (auto simp: chunk_def)
qed

end
