(* ===== verification/Compiled_Bytes.thy ===== *)
theory Compiled_Bytes
  imports Tasks
begin

text \<open>
  What the loader of \<open>.compiled\<close> files reads (\<open>src/c/main/load-compiledfiles.c\<close>,
  \<open>src/c/h/compiledfile.h\<close>, \<open>src/c/main/swap-bytes.c\<close>): files as bytes, big-endian and packed
  integers, the header of a \<open>.compiled\<close> file, hexadecimal digits, and the header lines and
  names of a list of files. A file is its contents and the bytes that are still to be read; C
  strings are lists of bytes without a zero byte. A variable nothing was stored into is \<open>None\<close>,
  and using it is a fault. Logging is left out.
\<close>

section \<open>Files\<close>

record input_file =
  file_contents :: "unt8 list"
  file_rest :: "unt8 list"

definition from_start :: "unt8 list \<Rightarrow> input_file" where
  "from_start bs = \<lparr>file_contents = bs, file_rest = bs\<rparr>"

text \<open>A position may lie behind the end of the file but not before its start.\<close>

definition fseek :: "val \<Rightarrow> input_file \<Rightarrow> input_file option" where
  "fseek offset f =
     (if sint offset < 0 then None else Some (f\<lparr>file_rest := drop (unat offset) (file_contents f)\<rparr>))"

text \<open>
  \<open>fread\<close> stores what it finds and returns the number of whole objects that makes. That is never
  \<open>-1\<close>, so a read that comes to the end of the file stores fewer bytes and goes unnoticed.
\<close>

definition fread :: "nat \<Rightarrow> input_file \<Rightarrow> unt8 list \<times> input_file \<times> nat" where
  "fread nbytes f =
     (let got = take nbytes (file_rest f)
      in (got, f\<lparr>file_rest := drop nbytes (file_rest f)\<rparr>, if nbytes > 0 \<and> length got = nbytes then 1 else 0))"

definition read_n_bytes_from_file :: "nat \<Rightarrow> input_file \<Rightarrow> (unt8 list \<times> input_file) result" where
  "read_n_bytes_from_file nbytes f =
     (let (got, f, count) = fread nbytes f
      in if word_of_nat count = (- 1 :: val) then Inl (Died ''Cannot read file'') else Inr (got, f))"

definition all_bytes :: "nat \<Rightarrow> unt8 list \<Rightarrow> unt8 list result" where
  "all_bytes n bs = (if length bs = n then Inr bs else Inl Wild)"

definition known :: "'a option \<Rightarrow> 'a result" where
  "known x = (case x of None \<Rightarrow> Inl Wild | Some v \<Rightarrow> Inr v)"

lemma read_n_bytes_from_file_eq [simp]:
  "read_n_bytes_from_file n f = Inr (take n (file_rest f), f\<lparr>file_rest := drop n (file_rest f)\<rparr>)"
  by (simp add: read_n_bytes_from_file_def fread_def Let_def)

section \<open>Integers\<close>

definition swap_word_bytes :: "vunt \<Rightarrow> vunt" where
  "swap_word_bytes x =
     (let b0 = x AND 0x000000FF; b1 = x AND 0x0000FF00; b2 = x AND 0x00FF0000; b3 = x AND 0xFF000000
      in push_bit 24 b0 OR push_bit 8 b1 OR drop_bit 8 b2 OR drop_bit 24 b3)"

definition BIGENDIAN_TO_HOST :: "vunt \<Rightarrow> vunt" where
  "BIGENDIAN_TO_HOST x = swap_word_bytes x"

text \<open>The bytes of a word in memory, from its low end on.\<close>

fun host_word :: "unt8 list \<Rightarrow> vunt" where
  "host_word [] = 0"
| "host_word (b # bs) = push_bit 8 (host_word bs) OR ucast b"

definition host_bytes :: "vunt \<Rightarrow> unt8 list" where
  "host_bytes w = [ucast w, ucast (drop_bit 8 w), ucast (drop_bit 16 w), ucast (drop_bit 24 w)]"

text \<open>Four bytes read into a variable that holds \<open>old\<close>; those that are not there stay as they were.\<close>

definition read_int1 :: "vunt option \<Rightarrow> input_file \<Rightarrow> (vunt option \<times> input_file) result" where
  "read_int1 old f =
     seq_result (read_n_bytes_from_file 4 f) (\<lambda>(got, f).
       Inr (if length got = 4 then Some (host_word got)
            else map_option (\<lambda>w. host_word (got @ drop (length got) (host_bytes w))) old, f))"

lemma taken_nonempty: "c # cs = take n bs \<Longrightarrow> 0 < length bs"
  by (cases bs) auto

text \<open>Packed integers: seven bits a byte, the most significant ones first.\<close>

function read_packed_from :: "vunt \<Rightarrow> input_file \<Rightarrow> (vunt \<times> input_file) result" where
  "read_packed_from n f =
     seq_result (read_n_bytes_from_file 1 f) (\<lambda>(got, f).
       case got of
         [] \<Rightarrow> Inl Wild
       | c # _ \<Rightarrow>
           (let n = push_bit 7 n OR ucast (c AND 0x7F)
            in if c AND 0x80 = 0 then Inr (n, f) else read_packed_from n f))"
  by pat_completeness auto
termination
  by (relation "measure (\<lambda>(n, f). length (file_rest f))") (auto dest: taken_nonempty)

definition read_packed_int1 :: "input_file \<Rightarrow> (vunt \<times> input_file) result" where
  "read_packed_int1 f = read_packed_from 0 f"

section \<open>The header of a compiled file\<close>

definition PICKLEHASH_BYTES :: nat where "PICKLEHASH_BYTES = 16"

record compiledfile_header =
  magic :: "unt8 list"
  number_of_imported_picklehashes :: vunt
  number_of_exported_picklehashes :: vunt
  bytes_of_import_tree :: vunt
  bytes_of_dependency_info :: vunt
  bytes_of_inlinable_code :: vunt
  reserved :: vunt
  pad :: vunt
  bytes_of_compiled_code :: vunt
  bytes_of_symbolmapstack :: vunt

definition SIZEOF_COMPILEDFILE_HEADER :: nat where "SIZEOF_COMPILEDFILE_HEADER = 52"

definition header_field :: "unt8 list \<Rightarrow> nat \<Rightarrow> vunt" where
  "header_field bs offset = BIGENDIAN_TO_HOST (host_word (take 4 (drop offset bs)))"

definition read_compiledfile_header :: "input_file \<Rightarrow> (compiledfile_header \<times> input_file) result" where
  "read_compiledfile_header f =
     seq_result (read_n_bytes_from_file SIZEOF_COMPILEDFILE_HEADER f) (\<lambda>(got, f).
     seq_result (all_bytes SIZEOF_COMPILEDFILE_HEADER got) (\<lambda>bs.
       Inr (\<lparr>magic = take 16 bs,
             number_of_imported_picklehashes = header_field bs 16,
             number_of_exported_picklehashes = header_field bs 20,
             bytes_of_import_tree = header_field bs 24,
             bytes_of_dependency_info = header_field bs 28,
             bytes_of_inlinable_code = header_field bs 32,
             reserved = header_field bs 36,
             pad = header_field bs 40,
             bytes_of_compiled_code = header_field bs 44,
             bytes_of_symbolmapstack = header_field bs 48\<rparr>, f)))"

section \<open>Hexadecimal digits\<close>

text \<open>Characters are signed.\<close>

definition hex :: "unt8 \<Rightarrow> int" where
  "hex c =
     (let c = sint c
      in if 48 \<le> c \<and> c \<le> 57 then c - 48
         else if 97 \<le> c \<and> c \<le> 122 then c - 97 + 10
         else c - 65 + 10)"

text \<open>The bytes named by pairs of digits; a byte whose digits are not there is not stored into.\<close>

definition picklehash_from_hex :: "unt8 list \<Rightarrow> unt8 option list" where
  "picklehash_from_hex digits =
     map (\<lambda>i. if 2 * i + 1 < length digits
              then Some (word_of_int (hex (digits ! (2 * i)) * 16 + hex (digits ! (2 * i + 1)))) else None)
       [0..<PICKLEHASH_BYTES]"

definition hex_digit :: "nat \<Rightarrow> unt8" where
  "hex_digit n = (if n < 10 then word_of_nat (48 + n) else word_of_nat (97 + (n - 10)))"

definition hex_of_byte :: "unt8 \<Rightarrow> unt8 list" where
  "hex_of_byte b = [hex_digit (unat b div 16), hex_digit (unat b mod 16)]"

definition picklehash_to_hex_string :: "unt8 list \<Rightarrow> unt8 list" where
  "picklehash_to_hex_string bytes = [91] @ concat (map hex_of_byte bytes) @ [93]"

section \<open>Decimal, octal and hexadecimal numbers\<close>

text \<open>
  \<open>strtoul\<close> with base 0: white space, a sign, a prefix that tells the base, and the longest run of
  digits; a number that does not fit is the greatest one. No digits are the number zero.
\<close>

definition is_space :: "unt8 \<Rightarrow> bool" where
  "is_space c \<longleftrightarrow> c = 32 \<or> 9 \<le> c \<and> c \<le> 13"

definition digit_value :: "unt8 \<Rightarrow> nat" where
  "digit_value c =
     (if 48 \<le> c \<and> c \<le> 57 then unat c - 48
      else if 97 \<le> c \<and> c \<le> 122 then unat c - 87
      else if 65 \<le> c \<and> c \<le> 90 then unat c - 55
      else 36)"

definition number_value :: "nat \<Rightarrow> unt8 list \<Rightarrow> nat" where
  "number_value base cs = foldl (\<lambda>n c. base * n + digit_value c) 0 (takeWhile (\<lambda>c. digit_value c < base) cs)"

definition base_and_digits :: "unt8 list \<Rightarrow> nat \<times> unt8 list" where
  "base_and_digits cs =
     (case cs of
        c0 # c1 # c2 # cs' \<Rightarrow>
          if c0 = 48 \<and> (c1 = 120 \<or> c1 = 88) \<and> digit_value c2 < 16 then (16, c2 # cs')
          else if c0 = 48 then (8, cs) else (10, cs)
      | c0 # _ \<Rightarrow> if c0 = 48 then (8, cs) else (10, cs)
      | [] \<Rightarrow> (10, cs))"

definition strtoul :: "unt8 list \<Rightarrow> vunt" where
  "strtoul cs =
     (let cs = dropWhile is_space cs;
          negative = (cs \<noteq> [] \<and> hd cs = 45);
          cs = (if cs \<noteq> [] \<and> (hd cs = 45 \<or> hd cs = 43) then tl cs else cs);
          (base, digits) = base_and_digits cs;
          n = number_value base digits
      in if n > 4294967295 then 4294967295 else if negative then - word_of_nat n else word_of_nat n)"

section \<open>The lines of a list of files\<close>

definition BUF_LEN :: int where "BUF_LEN = 1024"
definition MAX_NUMBER_OF_BOOT_FILES :: int where "MAX_NUMBER_OF_BOOT_FILES = 1024"
definition MAX_LENGTH_FOR_A_BOOTFILE_PATHNAME :: int where "MAX_LENGTH_FOR_A_BOOTFILE_PATHNAME = 512"

definition next_line :: "unt8 list \<Rightarrow> unt8 list" where
  "next_line bs = takeWhile (\<lambda>b. b \<noteq> 10) bs @ take 1 (dropWhile (\<lambda>b. b \<noteq> 10) bs)"

text \<open>\<open>fgets\<close> fills a buffer of \<open>size\<close> bytes with a line, or with as much of it as leaves room for the
  zero byte; a buffer of one byte gets the zero byte alone.\<close>

definition fgets :: "int \<Rightarrow> input_file \<Rightarrow> (unt8 list \<times> input_file) option" where
  "fgets bufsize f =
     (if bufsize \<le> 0 then None
      else if bufsize = 1 then Some ([], f)
      else let line = take (nat bufsize - 1) (next_line (file_rest f))
           in if line = [] then None else Some (line, f\<lparr>file_rest := drop (length line) (file_rest f)\<rparr>))"

definition c_string :: "unt8 list \<Rightarrow> unt8 list" where
  "c_string buf = takeWhile (\<lambda>b. b \<noteq> 0) buf"

definition skip_blanks :: "unt8 list \<Rightarrow> unt8 list" where
  "skip_blanks p = dropWhile (\<lambda>b. b = 32 \<or> b = 9) p"

definition chars :: "string \<Rightarrow> unt8 list" where
  "chars s = map of_char s"

definition begins_with :: "unt8 list \<Rightarrow> unt8 list \<Rightarrow> bool" where
  "begins_with p prefix \<longleftrightarrow> take (length prefix) p = prefix"

lemma next_line_nonempty: "next_line bs = [] \<longleftrightarrow> bs = []"
  by (cases bs) (auto simp: next_line_def)

lemma fgets_shortens: "1 < n \<Longrightarrow> fgets n f = Some (buf, f') \<Longrightarrow> length (file_rest f') < length (file_rest f)"
  by (auto simp: fgets_def Let_def next_line_nonempty split: if_splits)

function read_list_header :: "int \<Rightarrow> int \<Rightarrow> input_file \<Rightarrow> (int \<times> int \<times> input_file) result" where
  "read_list_header max_num_boot_files max_boot_path_len f =
     (case fgets BUF_LEN f of
        None \<Rightarrow> Inl (Died ''compiled_files_to_load file ends before end-of-header'')
      | Some (buf, f) \<Rightarrow>
          (let p = skip_blanks (c_string buf)
           in if begins_with p [10] then Inr (max_num_boot_files, max_boot_path_len, f)
              else if begins_with p (chars ''#'') then read_list_header max_num_boot_files max_boot_path_len f
              else if begins_with p (chars ''FILES='')
              then read_list_header (sint (strtoul (drop 6 p))) max_boot_path_len f
              else if begins_with p (chars ''MAX_LINE_LENGTH='')
              then read_list_header max_num_boot_files (sint (strtoul (drop 16 p) + 2)) f
              else Inl (Died ''compiled_files_to_load file contains unrecognized header line'')))"
  by pat_completeness auto
termination
  by (relation "measure (\<lambda>(m, l, f). length (file_rest f))") (auto simp: BUF_LEN_def dest!: fgets_shortens [rotated])

text \<open>The name on a line, where there is one. The character before the start of the buffer is read
  when the buffer has the empty string.\<close>

definition name_on_line :: "unt8 list \<Rightarrow> unt8 list option result" where
  "name_on_line buf =
     (let name_buf = c_string buf; p = skip_blanks name_buf
      in if begins_with p [10] \<or> begins_with p (chars ''#'') then Inr None
         else if p = [] then (if name_buf = [] then Inl Wild else Inr (Some []))
         else Inr (Some (if last p = 10 then butlast p else p)))"

section \<open>Names with an offset into a library\<close>

definition after_first :: "unt8 \<Rightarrow> unt8 list \<Rightarrow> unt8 list option" where
  "after_first c p = (case dropWhile (\<lambda>b. b \<noteq> c) p of [] \<Rightarrow> None | _ # rest \<Rightarrow> Some rest)"

definition split_library_name :: "unt8 list \<Rightarrow> unt8 list \<times> vunt" where
  "split_library_name filename =
     (case after_first 64 filename of
        None \<Rightarrow> (filename, 0)
      | Some rest \<Rightarrow> (takeWhile (\<lambda>b. b \<noteq> 64) filename, strtoul (takeWhile (\<lambda>b. b \<noteq> 58) rest)))"

end
