(* ===== verification/Compiled_Files.thy ===== *)
theory Compiled_Files
  imports Compiled_Bytes Runtime_Eventloop Hugechunks
begin

text \<open>
  The linker (\<open>src/c/main/load-compiledfiles.c\<close>): it reads a list of \<open>.compiled\<close> files, and for
  each of them builds the record of what the file imports, builds its literals, runs its code and
  registers what the code returns under the picklehash that names the file. The registry is a
  linked list in the heap, in the refcell \<open>PERVASIVE_PACKAGE_PICKLE_LIST_REFCELL__GLOBAL\<close>. The package
  of runtime functions comes from \<open>src/c/main/construct-runtime-package.c\<close>, the memory for code from
  \<open>allocate_nonempty_code_chunk\<close> in \<open>src/c/heapcleaner/make-strings-and-vectors-etc.c\<close>.

  The file system, \<open>malloc\<close>, what the operating system answers to requests for memory and what the
  event loop relies on are parameters. C variables the heapcleaner knows as roots are words of
  memory at fixed addresses. Running Mythryl code is not taken to touch the hugechunks.
\<close>

section \<open>What the linker relies on\<close>

record linker =
  run_time :: runtime
  literal_statics :: static_values
  file_named :: "unt8 list \<Rightarrow> unt8 list option"
  malloc_succeeds :: "int \<Rightarrow> bool"
  obtain_quire :: "nat \<Rightarrow> vunt option"
  active_agegroups :: nat
  pickle_list_refcell :: val
  runtime_package_variable :: val
  asm_closures :: "val list"
  runtime_values :: "val list"

record loader =
  load_task :: task_state
  load_hugeheap :: hugeheap
  code_chunk_lists :: "nat \<Rightarrow> nat"

definition open_file :: "linker \<Rightarrow> unt8 list \<Rightarrow> input_file option" where
  "open_file k filename = map_option from_start (file_named k filename)"

definition REC_BYTESIZE :: "vunt \<Rightarrow> val" where "REC_BYTESIZE n = (n + 1) * 4"

definition clean_with_roots_if_short :: "linker \<Rightarrow> val \<Rightarrow> val list \<Rightarrow> task_state \<Rightarrow> (val list \<times> task_state) result" where
  "clean_with_roots_if_short k bytes_needed roots t =
     (if room_is_short (run_time k) t bytes_needed
      then call_heapcleaner_with_extra_roots (heapcleaner (run_time k)) 0 roots t else Inr (roots, t))"

definition clean_task_if_half_full :: "linker \<Rightarrow> val list \<Rightarrow> task_state \<Rightarrow> (val list \<times> task_state) result" where
  "clean_task_if_half_full k roots t =
     (if agegroup0_freespace_in_bytes (buffer (task_heap t)) < agegroup0_usedspace_in_bytes (buffer (task_heap t))
      then call_heapcleaner_with_extra_roots (heapcleaner (run_time k)) 0 roots t else Inr (roots, t))"

section \<open>The registry of loaded files\<close>

definition PERVASIVE_PACKAGE_PICKLE_LIST__GLOBAL :: "linker \<Rightarrow> alloc_state \<Rightarrow> val" where
  "PERVASIVE_PACKAGE_PICKLE_LIST__GLOBAL k s = words s (pickle_list_refcell k)"

definition set_pickle_list :: "linker \<Rightarrow> val \<Rightarrow> alloc_state \<Rightarrow> alloc_state" where
  "set_pickle_list k p s = s\<lparr>words := (words s)(pickle_list_refcell k := p)\<rparr>"

definition add_to_pickle_list :: "linker \<Rightarrow> val \<Rightarrow> val \<Rightarrow> alloc_state \<Rightarrow> alloc_state" where
  "add_to_pickle_list k heap_picklehash exports_tree s =
     (let (s, r) = make_three_slot_record heap_picklehash exports_tree (PERVASIVE_PACKAGE_PICKLE_LIST__GLOBAL k s) s
      in set_pickle_list k r s)"

definition register_compiled_file_exports__may_heapclean ::
    "linker \<Rightarrow> unt8 list \<Rightarrow> val \<Rightarrow> val list \<Rightarrow> task_state \<Rightarrow> (val list \<times> task_state) result option" where
  "register_compiled_file_exports__may_heapclean k c_picklehash exports_tree extra t =
     and_then (with_register_roots
         (allocate_nonempty_ascii_string__may_heapclean (heapcleaner (run_time k)) (int PICKLEHASH_BYTES)) (exports_tree # extra) t)
       (\<lambda>(roots, t, heap_picklehash).
     and_then (Some (HEAP_STRING_AS_C_STRING (task_heap t) heap_picklehash)) (\<lambda>p.
     and_then (Some (all_bytes PICKLEHASH_BYTES c_picklehash)) (\<lambda>bs.
       Some (Inr (tl roots, t\<lparr>task_heap := add_to_pickle_list k heap_picklehash (hd roots) (put_bytes p bs (task_heap t))\<rparr>)))))"

definition bytes_at :: "alloc_state \<Rightarrow> val \<Rightarrow> nat \<Rightarrow> unt8 list" where
  "bytes_at s p n = map (\<lambda>i. get_byte (words s) (p + word_of_nat i)) [0..<n]"

partial_function (option) scan_pickle_list :: "unt8 list \<Rightarrow> alloc_state \<Rightarrow> val \<Rightarrow> val result option" where
  "scan_pickle_list picklehash s p =
     (if p = HEAP_VOID then Some (Inl (Died ''unable to find picklehash (compiledfile identifier)''))
      else and_then (Some (GET_TUPLE_SLOT_AS_VAL s p 0)) (\<lambda>key.
           and_then (Some (HEAP_STRING_AS_C_STRING s key)) (\<lambda>str.
             if bytes_at s str PICKLEHASH_BYTES = picklehash then Some (GET_TUPLE_SLOT_AS_VAL s p 1)
             else and_then (Some (GET_TUPLE_SLOT_AS_VAL s p 2)) (\<lambda>p. scan_pickle_list picklehash s p))))"

definition picklehash_to_exports_tree :: "linker \<Rightarrow> unt8 list \<Rightarrow> alloc_state \<Rightarrow> val result option" where
  "picklehash_to_exports_tree k picklehash s = scan_pickle_list picklehash s (PERVASIVE_PACKAGE_PICKLE_LIST__GLOBAL k s)"

section \<open>Imports\<close>

text \<open>The slots are those of the record under construction. A count of kids below zero is a count of none.\<close>

type_synonym fetching = "(int \<times> input_file \<times> alloc_state) result option"

primrec visit_kids ::
    "(int \<Rightarrow> val \<Rightarrow> input_file \<Rightarrow> alloc_state \<Rightarrow> fetching) \<Rightarrow> val \<Rightarrow> nat \<Rightarrow> int \<Rightarrow> input_file \<Rightarrow> alloc_state \<Rightarrow> fetching" where
  "visit_kids visit tree_node 0 i f s = Some (Inr (i, f, s))"
| "visit_kids visit tree_node (Suc n) i f s =
     and_then (Some (read_packed_int1 f)) (\<lambda>(kid_selector, f).
     and_then (Some (GET_TUPLE_SLOT_AS_VAL s tree_node (sint kid_selector))) (\<lambda>kid.
     and_then (visit i kid f s) (\<lambda>(i, f, s). visit_kids visit tree_node n i f s)))"

lemma visit_kids_mono [partial_function_mono]:
  assumes "\<And>i v f s. mono_option (\<lambda>g. F g i v f s)"
  shows "mono_option (\<lambda>g. visit_kids (F g) tree_node n i f s)"
proof (induction n arbitrary: i f s)
  case 0
  show ?case by (simp add: option.const_mono)
next
  case (Suc n)
  show ?case
    unfolding visit_kids.simps
    by (intro and_then_mono option.const_mono; clarsimp; intro and_then_mono option.const_mono assms)
       (auto split: prod.splits intro: Suc.IH)
qed

partial_function (option) fetch_imports :: "int \<Rightarrow> val \<Rightarrow> input_file \<Rightarrow> alloc_state \<Rightarrow> fetching" where
  "fetch_imports next_import_record_slot_to_fill tree_node f s =
     and_then (Some (read_packed_int1 f)) (\<lambda>(kid_count, f).
       if kid_count = 0
       then Some (Inr (next_import_record_slot_to_fill + 1, f,
                       set_slot_in_nascent_heapchunk next_import_record_slot_to_fill tree_node s))
       else visit_kids fetch_imports tree_node (nat (sint kid_count)) next_import_record_slot_to_fill f s)"

partial_function (option) fetch_all_imports ::
    "linker \<Rightarrow> int \<Rightarrow> int \<Rightarrow> input_file \<Rightarrow> alloc_state \<Rightarrow> (input_file \<times> alloc_state) result option" where
  "fetch_all_imports k imports_record_slot_count i f s =
     (if i < imports_record_slot_count
      then and_then (Some (read_n_bytes_from_file PICKLEHASH_BYTES f)) (\<lambda>(got, f).
           and_then (Some (all_bytes PICKLEHASH_BYTES got)) (\<lambda>picklehash.
           and_then (picklehash_to_exports_tree k picklehash s) (\<lambda>tree.
           and_then (fetch_imports i tree f s) (\<lambda>(i, f, s).
             fetch_all_imports k imports_record_slot_count i f s))))
      else Some (Inr (f, s)))"

definition make_import_record ::
    "linker \<Rightarrow> vunt \<Rightarrow> input_file \<Rightarrow> val list \<Rightarrow> task_state \<Rightarrow> (input_file \<times> val list \<times> task_state \<times> val) result option" where
  "make_import_record k imports_record_slot_count f extra t =
     (let n = sint imports_record_slot_count
      in and_then (Some (clean_with_roots_if_short k (REC_BYTESIZE imports_record_slot_count) extra t)) (\<lambda>(extra, t).
         and_then (fetch_all_imports k n 1 f (set_slot_in_nascent_heapchunk 0 (int_tagword n PAIRS_AND_RECORDS_BTAG) (task_heap t)))
           (\<lambda>(f, s).
              let (t, r) = in_heap (\<lambda>s. commit_nascent_heapchunk n (set_slot_in_nascent_heapchunk n HEAP_NIL s)) (t\<lparr>task_heap := s\<rparr>)
              in Some (Inr (f, extra, t, r)))))"

section \<open>Literals\<close>

text \<open>A code segment: its size and its entry point come first. The entry point of the first segment
  is not used.\<close>

definition load_literals ::
    "linker \<Rightarrow> vunt \<Rightarrow> input_file \<Rightarrow> val list \<Rightarrow> task_state \<Rightarrow>
     (vunt \<times> vunt \<times> vunt option \<times> input_file \<times> val list \<times> task_state \<times> val) result option" where
  "load_literals k code_bytes f roots t =
     and_then (Some (read_int1 None f)) (\<lambda>(segment_bytesize, f).
     and_then (Some (known segment_bytesize)) (\<lambda>segment_bytesize.
       let segment_bytesize = BIGENDIAN_TO_HOST segment_bytesize
       in and_then (Some (read_int1 None f)) (\<lambda>(entrypoint_offset_in_bytes, f).
          let bytes_of_code_remaining = code_bytes - (segment_bytesize + 8)
          in if sint bytes_of_code_remaining < 0 then Some (Inl (Died ''format error (data size mismatch)''))
             else if 0 < sint segment_bytesize
             then if \<not> malloc_succeeds k (sint segment_bytesize) then Some (Inl Wild)
                  else and_then (Some (read_n_bytes_from_file (unat segment_bytesize) f)) (\<lambda>(got, f).
                       and_then (Some (all_bytes (unat segment_bytesize) got)) (\<lambda>data_chunk.
                       and_then (with_register_roots (make_package_literals_via_bytecode_interpreter__may_heapclean
                            (heapcleaner (run_time k)) (literal_statics k) data_chunk) roots t) (\<lambda>(roots, t, result).
                         Some (Inr (bytes_of_code_remaining, segment_bytesize, entrypoint_offset_in_bytes, f, roots, t, result)))))
             else Some (Inr (bytes_of_code_remaining, segment_bytesize, entrypoint_offset_in_bytes, f, roots, t, HEAP_VOID)))))"

text \<open>The import record is copied, with the literals in its last slot. There is no check that the
  buffer has room for the copy.\<close>

fun copy_slots :: "val \<Rightarrow> int \<Rightarrow> nat \<Rightarrow> alloc_state \<Rightarrow> alloc_state" where
  "copy_slots import_record i 0 s = s"
| "copy_slots import_record i (Suc n) s =
     copy_slots import_record (i + 1) n (set_slot_in_nascent_heapchunk i (words s (slot import_record (i - 1))) s)"

definition with_last_slot :: "vunt \<Rightarrow> val \<Rightarrow> val \<Rightarrow> alloc_state \<Rightarrow> alloc_state \<times> val" where
  "with_last_slot imports_record_slot_count import_record mythryl_result s =
     (let n = sint imports_record_slot_count
      in commit_nascent_heapchunk n (set_slot_in_nascent_heapchunk n mythryl_result (copy_slots import_record 0 (nat n) s)))"

section \<open>Code\<close>

definition CODECHUNK_ALLOCATION_AGEGROUP :: nat where "CODECHUNK_ALLOCATION_AGEGROUP = 2"

definition allocate_nonempty_code_chunk :: "linker \<Rightarrow> vunt \<Rightarrow> loader \<Rightarrow> (loader \<times> val) result option" where
  "allocate_nonempty_code_chunk k len st =
     (let allocGen = (if active_agegroups k < CODECHUNK_ALLOCATION_AGEGROUP then active_agegroups k else CODECHUNK_ALLOCATION_AGEGROUP)
      in and_then (allocate_hugechunk (obtain_quire k) (load_hugeheap st) allocGen (unat len)) (\<lambda>(hh, dp).
         and_then (Some (get_chunk hh dp)) (\<lambda>d.
         and_then (Some (update_chunk hh dp (\<lambda>d. d\<lparr>hc_next := code_chunk_lists st allocGen, hc_huge_ilk := CODE__HUGE_SIB\<rparr>))) (\<lambda>hh.
           Some (Inr (st\<lparr>load_hugeheap := hh, code_chunk_lists := (code_chunk_lists st)(allocGen := dp),
                        load_task := (load_task st)\<lparr>task_heap := COUNT_ALLOC len (task_heap (load_task st))\<rparr>\<rparr>,
                      hc_chunk d))))))"

definition update_load_task :: "task_state \<Rightarrow> loader \<Rightarrow> loader" where
  "update_load_task t st = st\<lparr>load_task := t\<rparr>"

definition run_code_chunk :: "linker \<Rightarrow> val \<Rightarrow> val \<Rightarrow> val list \<Rightarrow> task_state \<Rightarrow> (val list \<times> task_state \<times> val) result option" where
  "run_code_chunk k entrypoint arg extra t =
     (let (t, closure) = in_heap (make_one_slot_record entrypoint) t;
          t = save_c_state (return_to_c_level_c (run_time k)) extra t
      in and_then (run_mythryl_function__may_heapclean (run_time k) closure arg True [] t) (\<lambda>(_, t, mythryl_result).
         and_then (Some (restore_c_state extra t)) (\<lambda>extra.
         and_then (Some (clean_with_roots_if_short k (of_nat PICKLEHASH_BYTES + REC_BYTESIZE 5) (mythryl_result # extra) t)) (\<lambda>(roots, t).
           Some (Inr (tl roots, t, hd roots))))))"

partial_function (option) run_code_segments ::
    "linker \<Rightarrow> vunt \<Rightarrow> vunt \<Rightarrow> vunt option \<Rightarrow> val \<Rightarrow> input_file \<Rightarrow> val list \<Rightarrow> loader \<Rightarrow> (val list \<times> loader \<times> val) result option" where
  "run_code_segments k bytes_of_code_remaining segment_bytesize entrypoint_offset_in_bytes mythryl_result f extra st =
     (if sint bytes_of_code_remaining \<le> 0 then Some (Inr (extra, st, mythryl_result))
      else and_then (Some (read_int1 (Some segment_bytesize) f)) (\<lambda>(segment_bytesize, f).
           and_then (Some (known segment_bytesize)) (\<lambda>segment_bytesize.
           and_then (Some (read_int1 entrypoint_offset_in_bytes f)) (\<lambda>(entrypoint_offset_in_bytes, f).
           and_then (Some (known entrypoint_offset_in_bytes)) (\<lambda>entrypoint_offset_in_bytes.
             let segment_bytesize = BIGENDIAN_TO_HOST segment_bytesize;
                 entrypoint_offset_in_bytes = BIGENDIAN_TO_HOST entrypoint_offset_in_bytes;
                 bytes_of_code_remaining = bytes_of_code_remaining - (segment_bytesize + 8)
             in if sint bytes_of_code_remaining < 0 then Some (Inl (Died ''format error (code size mismatch)''))
                else and_then (allocate_nonempty_code_chunk k segment_bytesize st) (\<lambda>(st, code_chunk).
                     and_then (Some (read_n_bytes_from_file (unat segment_bytesize) f)) (\<lambda>(got, f).
                     let t = (load_task st)\<lparr>task_heap := put_bytes code_chunk got (task_heap (load_task st))\<rparr>
                     in and_then (run_code_chunk k (code_chunk + entrypoint_offset_in_bytes) mythryl_result extra t)
                          (\<lambda>(extra, t, mythryl_result).
                             run_code_segments k bytes_of_code_remaining segment_bytesize (Some entrypoint_offset_in_bytes)
                               mythryl_result f extra (update_load_task t st)))))))))"

section \<open>Loading a file\<close>

definition seek_to_code :: "vunt \<Rightarrow> compiledfile_header \<Rightarrow> vunt \<Rightarrow> input_file \<Rightarrow> input_file result" where
  "seek_to_code archive_offset header bytes_of_exports f =
     (case fseek (archive_offset + of_nat SIZEOF_COMPILEDFILE_HEADER + bytes_of_import_tree header + bytes_of_exports
                  + bytes_of_dependency_info header + bytes_of_inlinable_code header + reserved header + pad header) f of
        None \<Rightarrow> Inl (Died ''cannot seek on .compiled file'')
      | Some f \<Rightarrow> Inr f)"

definition read_export_picklehash :: "compiledfile_header \<Rightarrow> input_file \<Rightarrow> (unt8 list option \<times> input_file) result" where
  "read_export_picklehash header f =
     (if number_of_exported_picklehashes header = 1
      then seq_result (read_n_bytes_from_file PICKLEHASH_BYTES f) (\<lambda>(got, f). Inr (Some got, f))
      else if number_of_exported_picklehashes header \<noteq> 0
      then Inl (Died ''Number of exported picklehashes (should be 0 or 1)'')
      else Inr (None, f))"

definition open_compiled_file :: "linker \<Rightarrow> unt8 list \<Rightarrow> (vunt \<times> input_file) result" where
  "open_compiled_file k filename =
     (let (filename, archive_offset) = split_library_name filename
      in case open_file k filename of
           None \<Rightarrow> Inl (Died ''Unable to open'')
         | Some f \<Rightarrow>
             if archive_offset = 0 then Inr (0, f)
             else (case fseek archive_offset f of
                     None \<Rightarrow> Inl (Died ''Cannot seek on archive file'')
                   | Some f \<Rightarrow> Inr (archive_offset, f)))"

definition load_compiled_file__may_heapclean :: "linker \<Rightarrow> unt8 list \<Rightarrow> val list \<Rightarrow> loader \<Rightarrow> (val list \<times> loader) result option" where
  "load_compiled_file__may_heapclean k filename extra st =
     and_then (Some (open_compiled_file k filename)) (\<lambda>(archive_offset, f).
     and_then (Some (read_compiledfile_header f)) (\<lambda>(header, f).
       let imports_record_slot_count = number_of_imported_picklehashes header + 1
       in and_then (make_import_record k imports_record_slot_count f extra (load_task st)) (\<lambda>(f, extra, t, import_record).
          and_then (Some (read_export_picklehash header f)) (\<lambda>(export_picklehash, f).
          and_then (Some (seek_to_code archive_offset header (if export_picklehash = None then 0 else of_nat PICKLEHASH_BYTES) f)) (\<lambda>f.
          and_then (load_literals k (bytes_of_compiled_code header) f (import_record # extra) t)
            (\<lambda>(bytes_of_code_remaining, segment_bytesize, entrypoint_offset_in_bytes, f, roots, t, literals).
          let (t, mythryl_result) = in_heap (with_last_slot imports_record_slot_count (hd roots) literals) t
          in and_then (Some (clean_with_roots_if_short k (of_nat PICKLEHASH_BYTES + REC_BYTESIZE 5) (mythryl_result # tl roots) t)) (\<lambda>(roots, t).
             and_then (run_code_segments k bytes_of_code_remaining segment_bytesize entrypoint_offset_in_bytes
                  (hd roots) f (tl roots) (update_load_task t st)) (\<lambda>(extra, st, mythryl_result).
               case export_picklehash of
                 None \<Rightarrow> Some (Inr (extra, st))
               | Some picklehash \<Rightarrow>
                   and_then (register_compiled_file_exports__may_heapclean k picklehash mythryl_result extra (load_task st))
                     (\<lambda>(extra, t). Some (Inr (extra, update_load_task t st)))))))))))"

end
