(* ===== verification/Linker.thy ===== *)
theory Linker
  imports Compiled_Files
begin

text \<open>
  The two ends of the linker (\<open>src/c/main/load-compiledfiles.c\<close>): the list of files to load is read
  from a file, as a Mythryl list of Mythryl strings, and every file on it is loaded in its turn;
  an entry that starts with \<open>RUNTIME_PACKAGE_PICKLEHASH=\<close> registers the package of runtime functions
  instead. Making the first task and installing the fault handlers come before, and are left out.
\<close>

section \<open>The list of files\<close>

text \<open>Every name is put before the list, after a heapcleaning where the buffer is more than half
  full. The count of files is never increased.\<close>

partial_function (option) read_names ::
    "linker \<Rightarrow> int \<Rightarrow> int \<Rightarrow> input_file \<Rightarrow> val list \<Rightarrow> task_state \<Rightarrow> val \<Rightarrow> (val list \<times> task_state \<times> val) result option" where
  "read_names k max_num_boot_files max_boot_path_len f extra t file_list =
     (case fgets max_boot_path_len f of
        None \<Rightarrow> Some (Inr (extra, t, file_list))
      | Some (buf, f) \<Rightarrow>
          and_then (Some (name_on_line buf)) (\<lambda>name. case name of
            None \<Rightarrow> read_names k max_num_boot_files max_boot_path_len f extra t file_list
          | Some p \<Rightarrow>
              if 0 \<ge> max_num_boot_files then Some (Inl (Died ''too many files''))
              else and_then (Some (clean_task_if_half_full k (file_list # extra) t)) (\<lambda>(roots, t).
                   and_then (with_register_roots (make_ascii_string_from_c_string__may_heapclean (heapcleaner (run_time k))
                        (empty_string (run_time k)) (Some p)) roots t) (\<lambda>(roots, t, file_name).
                     let (t, file_list) = in_heap (LIST_CONS file_name (hd roots)) t
                     in read_names k max_num_boot_files max_boot_path_len f (tl roots) t file_list))))"

partial_function (option) reverse_names ::
    "linker \<Rightarrow> val list \<Rightarrow> task_state \<Rightarrow> val \<Rightarrow> val \<Rightarrow> (val list \<times> task_state \<times> val) result option" where
  "reverse_names k extra t file_list file_list2 =
     (if file_list = HEAP_NIL then Some (Inr (extra, t, file_list2))
      else and_then (Some (LIST_HEAD (task_heap t) file_list)) (\<lambda>file_name.
             let (t, file_list2) = in_heap (LIST_CONS file_name file_list2) t
             in and_then (Some (clean_task_if_half_full k (file_list2 # file_list # extra) t)) (\<lambda>(roots, t).
                and_then (Some (LIST_TAIL (task_heap t) (roots ! 1))) (\<lambda>file_list.
                  reverse_names k (drop 2 roots) t file_list (roots ! 0)))))"

text \<open>The length of the longest line is set only where the file could be opened.\<close>

definition read_in_compiled_file_list__may_heapclean ::
    "linker \<Rightarrow> unt8 list \<Rightarrow> val list \<Rightarrow> task_state \<Rightarrow> (int option \<times> val list \<times> task_state \<times> val) result option" where
  "read_in_compiled_file_list__may_heapclean k filename extra t =
     and_then
       (case open_file k filename of
          None \<Rightarrow> Some (Inr (None, extra, t, HEAP_NIL))
        | Some f \<Rightarrow>
            and_then (Some (read_list_header MAX_NUMBER_OF_BOOT_FILES MAX_LENGTH_FOR_A_BOOTFILE_PATHNAME f))
              (\<lambda>(max_num_boot_files, max_boot_path_len, f).
                 if max_num_boot_files < 0 then Some (Inl (Died ''compiled_files_to_load file contains negative files count?!''))
                 else if max_boot_path_len < 0 then Some (Inl (Died ''compiled_file_to_load file contains negative boot path len?!''))
                 else if \<not> malloc_succeeds k max_boot_path_len
                 then Some (Inl (Died ''unable to allocate space for .compiled file filenames''))
                 else and_then (read_names k max_num_boot_files max_boot_path_len f extra t HEAP_NIL) (\<lambda>(extra, t, file_list).
                        Some (Inr (Some max_boot_path_len, extra, t, file_list)))))
       (\<lambda>(max_boot_path_len, extra, t, file_list).
          and_then (reverse_names k extra t file_list HEAP_NIL) (\<lambda>(extra, t, file_list).
            Some (Inr (max_boot_path_len, extra, t, file_list))))"

section \<open>The package of runtime functions\<close>

definition construct_runtime_package__global :: "linker \<Rightarrow> alloc_state \<Rightarrow> alloc_state" where
  "construct_runtime_package__global k s =
     (let (s, runtime_asm) = make_record_of (asm_closures k) s;
          (s, runtime) = make_record_of (runtime_asm # runtime_values k) s;
          (s, runtime_package) = make_one_slot_record runtime s
      in s\<lparr>words := (words s)(runtime_package_variable k := runtime_package)\<rparr>)"

section \<open>Loading everything\<close>

partial_function (option) c_string_from :: "alloc_state \<Rightarrow> val \<Rightarrow> unt8 list option" where
  "c_string_from s p =
     (let c = get_byte (words s) p
      in if c = 0 then Some [] else Option.bind (c_string_from s (p + 1)) (\<lambda>cs. Some (c # cs)))"

definition RUNTIME_PACKAGE_PICKLEHASH :: "unt8 list" where
  "RUNTIME_PACKAGE_PICKLEHASH = chars ''RUNTIME_PACKAGE_PICKLEHASH=''"

definition register_runtime_package :: "linker \<Rightarrow> unt8 list \<Rightarrow> val list \<Rightarrow> task_state \<Rightarrow> (val list \<times> task_state) result option" where
  "register_runtime_package k digits roots t =
     and_then (Some (if None \<in> set (picklehash_from_hex digits) then Inl Wild else Inr (map the (picklehash_from_hex digits))))
       (\<lambda>picklehash. register_compiled_file_exports__may_heapclean k picklehash
          (words (task_heap t) (runtime_package_variable k)) roots t)"

definition load_entry :: "linker \<Rightarrow> unt8 list \<Rightarrow> bool \<Rightarrow> val list \<Rightarrow> loader \<Rightarrow> (bool \<times> val list \<times> loader) result option" where
  "load_entry k filename seen_runtime_package_picklehash roots st =
     (if \<not> begins_with filename RUNTIME_PACKAGE_PICKLEHASH
      then and_then (load_compiled_file__may_heapclean k filename roots st) (\<lambda>(roots, st).
             Some (Inr (seen_runtime_package_picklehash, roots, st)))
      else if seen_runtime_package_picklehash
      then Some (Inl (Died ''Runtime system picklehash registered more than once!''))
      else and_then (register_runtime_package k (drop (length RUNTIME_PACKAGE_PICKLEHASH) filename) roots (load_task st)) (\<lambda>(roots, t).
             Some (Inr (True, roots, update_load_task t st))))"

text \<open>Copying a name that is longer than the buffer writes past its end.\<close>

partial_function (option) load_entries ::
    "linker \<Rightarrow> int \<Rightarrow> bool \<Rightarrow> val \<Rightarrow> val list \<Rightarrow> loader \<Rightarrow> (val list \<times> loader) result option" where
  "load_entries k max_boot_path_len seen compiled_file_list extra st =
     (if compiled_file_list = HEAP_NIL then Some (Inr (extra, st))
      else and_then (Some (LIST_HEAD (task_heap (load_task st)) compiled_file_list)) (\<lambda>name.
           and_then (Some (HEAP_STRING_AS_C_STRING (task_heap (load_task st)) name)) (\<lambda>p.
           Option.bind (c_string_from (task_heap (load_task st)) p) (\<lambda>filename.
             if int (length filename) + 1 > max_boot_path_len then Some (Inl Wild)
             else and_then (Some (LIST_TAIL (task_heap (load_task st)) compiled_file_list)) (\<lambda>compiled_file_list.
                  and_then (load_entry k filename seen (compiled_file_list # extra) st) (\<lambda>(seen, roots, st).
                    load_entries k max_boot_path_len seen (hd roots) (tl roots) st))))))"

definition load_compiled_files__may_heapclean :: "linker \<Rightarrow> unt8 list \<Rightarrow> val list \<Rightarrow> loader \<Rightarrow> (val list \<times> loader) result option" where
  "load_compiled_files__may_heapclean k compiled_files_to_load_filename extra st =
     (let t = (load_task st)\<lparr>task_heap := construct_runtime_package__global k (task_heap (load_task st))\<rparr>
      in and_then (read_in_compiled_file_list__may_heapclean k compiled_files_to_load_filename extra t)
           (\<lambda>(max_boot_path_len, extra, t, compiled_file_list).
              and_then (Some (known max_boot_path_len)) (\<lambda>max_boot_path_len.
                if \<not> malloc_succeeds k max_boot_path_len then Some (Inl (Died ''unable to allocate space for boot file names''))
                else load_entries k max_boot_path_len False compiled_file_list extra (update_load_task t st))))"

end
