(* ===== verification/Import_Facts.thy ===== *)
theory Import_Facts
  imports Compiled_Files Task_Facts
begin

text \<open>
  What the linker reads of a file's imports: the packed integers come back as they were
  written, and the import trees select, in the order of their leaves, what the registered files
  export.
\<close>

section \<open>Packed integers\<close>

text \<open>The routine that writes them, as the comment on the file format in
  \<open>load-compiledfiles.c\<close> has it.\<close>

fun recur_write_ul :: "nat \<Rightarrow> unt8 list" where
  "recur_write_ul l = (if l = 0 then [] else recur_write_ul (l div 128) @ [word_of_nat (l mod 128) OR 0x80])"

declare recur_write_ul.simps [simp del]

definition write_ul :: "nat \<Rightarrow> unt8 list" where
  "write_ul l = recur_write_ul (l div 128) @ [word_of_nat (l mod 128)]"

lemma seven_bits_all:
  "\<forall>r \<in> set [0..<128]. (word_of_nat r OR 0x80 :: unt8) AND 0x7F = word_of_nat r \<and> (word_of_nat r OR 0x80 :: unt8) AND 0x80 \<noteq> 0 \<and>
     (word_of_nat r :: unt8) AND 0x7F = word_of_nat r \<and> (word_of_nat r :: unt8) AND 0x80 = 0"
  by code_simp

lemma seven_bits:
  fixes r :: nat
  assumes "r < 128"
  shows "(word_of_nat r OR 0x80 :: unt8) AND 0x7F = word_of_nat r" and "(word_of_nat r OR 0x80 :: unt8) AND 0x80 \<noteq> 0"
    and "(word_of_nat r :: unt8) AND 0x7F = word_of_nat r" and "(word_of_nat r :: unt8) AND 0x80 = 0"
  using seven_bits_all assms by auto

lemma append_seven_bits:
  fixes r :: nat
  assumes "r < 128"
  shows "push_bit 7 (word_of_nat q :: vunt) OR ucast (word_of_nat r :: unt8) = word_of_nat (128 * q + r)"
proof -
  have r: "(ucast (word_of_nat r :: unt8) :: vunt) = word_of_nat r"
    using assms by (simp add: word_unat_eq_iff unsigned_ucast_eq unsigned_of_nat take_bit_nat_eq_self)
  have "push_bit 7 (word_of_nat q :: vunt) + word_of_nat r = push_bit 7 (word_of_nat q) OR word_of_nat r"
  proof (rule disjunctive_add)
    fix n
    show "\<not> bit (push_bit 7 (word_of_nat q :: vunt)) n \<or> \<not> bit (word_of_nat r :: vunt) n"
    proof (cases "n < 7")
      case True
      then show ?thesis by (simp add: bit_push_bit_iff)
    next
      case False
      have "r < 2 ^ n" using assms power_increasing [of 7 n "2 :: nat"] False by simp
      then have "\<not> bit r n" by (simp add: bit_iff_odd)
      then show ?thesis by (simp add: bit_of_nat_iff_bit [symmetric] bit_simps)
    qed
  qed
  then show ?thesis unfolding r by (simp add: push_bit_eq_mult mult.commute)
qed

lemma read_packed_Cons:
  "read_packed_from n (f\<lparr>file_rest := c # bs\<rparr>) =
     (if c AND 0x80 = 0 then Inr (push_bit 7 n OR ucast (c AND 0x7F), f\<lparr>file_rest := bs\<rparr>)
      else read_packed_from (push_bit 7 n OR ucast (c AND 0x7F)) (f\<lparr>file_rest := bs\<rparr>))"
  by (subst read_packed_from.simps) (simp add: Let_def)

declare read_packed_from.simps [simp del]

lemma read_packed_high:
  "read_packed_from 0 (f\<lparr>file_rest := recur_write_ul m @ bs\<rparr>) = read_packed_from (word_of_nat m) (f\<lparr>file_rest := bs\<rparr>)"
proof (induction m arbitrary: bs rule: recur_write_ul.induct)
  case (1 m)
  show ?case
  proof (cases "m = 0")
    case True
    then show ?thesis by (simp add: recur_write_ul.simps)
  next
    case False
    let ?c = "word_of_nat (m mod 128) OR 0x80 :: unt8"
    have "read_packed_from 0 (f\<lparr>file_rest := recur_write_ul m @ bs\<rparr>) =
        read_packed_from 0 (f\<lparr>file_rest := recur_write_ul (m div 128) @ ?c # bs\<rparr>)"
      using False by (simp add: recur_write_ul.simps [of m])
    also have "\<dots> = read_packed_from (word_of_nat (m div 128)) (f\<lparr>file_rest := ?c # bs\<rparr>)" by (rule 1 [OF False])
    also have "\<dots> = read_packed_from (word_of_nat m) (f\<lparr>file_rest := bs\<rparr>)"
      unfolding read_packed_Cons using seven_bits(1,2) [of "m mod 128"] append_seven_bits [of "m mod 128" "m div 128"] by simp
    finally show ?thesis .
  qed
qed

lemma read_packed_int1_written:
  "read_packed_int1 (f\<lparr>file_rest := write_ul n @ bs\<rparr>) = Inr (word_of_nat n, f\<lparr>file_rest := bs\<rparr>)"
  unfolding read_packed_int1_def write_ul_def append_assoc read_packed_high
  using seven_bits(3,4) [of "n mod 128"] append_seven_bits [of "n mod 128" "n div 128"] by (simp add: read_packed_Cons)

section \<open>Import trees\<close>

datatype import_tree = Node "(vunt \<times> import_tree) list"

text \<open>How a tree is written, and what it selects of the exports of a file.\<close>

fun tree_bytes :: "import_tree \<Rightarrow> unt8 list" and kids_bytes :: "(vunt \<times> import_tree) list \<Rightarrow> unt8 list" where
  "tree_bytes (Node kids) = write_ul (length kids) @ kids_bytes kids"
| "kids_bytes [] = []"
| "kids_bytes ((selector, t) # kids) = write_ul (unat selector) @ tree_bytes t @ kids_bytes kids"

fun selected :: "(val \<Rightarrow> val) \<Rightarrow> val \<Rightarrow> import_tree \<Rightarrow> val list"
  and selected_kids :: "(val \<Rightarrow> val) \<Rightarrow> val \<Rightarrow> (vunt \<times> import_tree) list \<Rightarrow> val list" where
  "selected m v (Node kids) = (if kids = [] then [v] else selected_kids m v kids)"
| "selected_kids m v [] = []"
| "selected_kids m v ((selector, t) # kids) = selected m (m (slot v (sint selector))) t @ selected_kids m v kids"

text \<open>The inner nodes are records among the words \<open>U\<close>.\<close>

fun passable :: "val set \<Rightarrow> (val \<Rightarrow> val) \<Rightarrow> val \<Rightarrow> import_tree \<Rightarrow> bool"
  and passable_kids :: "val set \<Rightarrow> (val \<Rightarrow> val) \<Rightarrow> val \<Rightarrow> (vunt \<times> import_tree) list \<Rightarrow> bool" where
  "passable U m v (Node kids) \<longleftrightarrow> length kids < 2 ^ 31 \<and> passable_kids U m v kids"
| "passable_kids U m v [] \<longleftrightarrow> True"
| "passable_kids U m v ((selector, t) # kids) \<longleftrightarrow>
     IS_POINTER v \<and> slot v (sint selector) \<in> U \<and> passable U m (m (slot v (sint selector))) t \<and> passable_kids U m v kids"

definition agree_on :: "val set \<Rightarrow> (val \<Rightarrow> val) \<Rightarrow> (val \<Rightarrow> val) \<Rightarrow> bool" where
  "agree_on U m m' \<longleftrightarrow> (\<forall>a \<in> U. m' a = m a)"

lemma passable_agree:
  "passable U m v t \<Longrightarrow> agree_on U m m' \<Longrightarrow> passable U m' v t \<and> selected m' v t = selected m v t"
  "passable_kids U m v kids \<Longrightarrow> agree_on U m m' \<Longrightarrow> passable_kids U m' v kids \<and> selected_kids m' v kids = selected_kids m v kids"
  by (induction U m v t and U m v kids rule: passable_passable_kids.induct) (auto simp: agree_on_def)

section \<open>Filling the slots\<close>

definition nascent_apart :: "val set \<Rightarrow> alloc_state \<Rightarrow> int \<Rightarrow> nat \<Rightarrow> bool" where
  "nascent_apart U s i n \<longleftrightarrow> (\<forall>j. i \<le> j \<longrightarrow> j < i + int n \<longrightarrow> slot (hap s) j \<notin> U)"

lemma set_slots_from_append:
  "set_slots_from i (xs @ ys) s = set_slots_from (i + int (length xs)) ys (set_slots_from i xs s)"
  by (induction xs arbitrary: i s) (simp_all add: add.assoc)

lemma set_slot_simps [simp]:
  "hap (set_slot_in_nascent_heapchunk i v s) = hap s" "buffer (set_slot_in_nascent_heapchunk i v s) = buffer s"
  by (simp_all add: set_slot_in_nascent_heapchunk_def)

lemma hap_set_slots_from [simp]: "hap (set_slots_from i vs s) = hap s"
  by (induction i vs s rule: set_slots_from.induct) simp_all

lemma set_slots_from_agree:
  "nascent_apart U s i (length vs) \<Longrightarrow> agree_on U (words s) (words (set_slots_from i vs s))"
proof (induction i vs s rule: set_slots_from.induct)
  case (1 i s)
  then show ?case by (simp add: agree_on_def)
next
  case (2 i v vs s)
  have "slot (hap s) i \<notin> U" and "nascent_apart U (set_slot_in_nascent_heapchunk i v s) (i + 1) (length vs)"
    using 2(2) by (simp_all add: nascent_apart_def)
  then show ?case using 2(1) by (auto simp: agree_on_def set_slot_in_nascent_heapchunk_def)
qed

lemma nascent_apart_split:
  "nascent_apart U s i (m + n) \<longleftrightarrow> nascent_apart U s i m \<and> nascent_apart U s (i + int m) n"
  unfolding nascent_apart_def by (auto simp: algebra_simps)

lemma nascent_apart_set_slots [simp]: "nascent_apart U (set_slots_from j vs s) i n = nascent_apart U s i n"
  by (simp add: nascent_apart_def)

lemma sint_word_of_nat: "n < 2 ^ 31 \<Longrightarrow> sint (word_of_nat n :: vunt) = int n"
  by (rule sint_of_nat) simp

lemma fetch_imports_ok:
  "passable U (words s) v t \<Longrightarrow> nascent_apart U s i (length (selected (words s) v t)) \<Longrightarrow>
     fetch_imports i v (f\<lparr>file_rest := tree_bytes t @ bs\<rparr>) s =
       Some (Inr (i + int (length (selected (words s) v t)), f\<lparr>file_rest := bs\<rparr>, set_slots_from i (selected (words s) v t) s))"
  "passable_kids U (words s) v kids \<Longrightarrow> nascent_apart U s i (length (selected_kids (words s) v kids)) \<Longrightarrow>
     visit_kids fetch_imports v (length kids) i (f\<lparr>file_rest := kids_bytes kids @ bs\<rparr>) s =
       Some (Inr (i + int (length (selected_kids (words s) v kids)), f\<lparr>file_rest := bs\<rparr>,
                  set_slots_from i (selected_kids (words s) v kids) s))"
proof (induction t and kids arbitrary: v s i bs and v s i bs rule: tree_bytes_kids_bytes.induct)
  case (1 kids)
  show ?case
  proof (cases "kids = []")
    case True
    then show ?thesis by (subst fetch_imports.simps) (simp add: read_packed_int1_written)
  next
    case False
    have len: "length kids < 2 ^ 31" using 1(2) by simp
    then have "(word_of_nat (length kids) :: vunt) \<noteq> 0"
      using False sint_word_of_nat [OF len] by (metis length_0_conv of_nat_eq_0_iff signed_0)
    then show ?thesis using 1 False sint_word_of_nat [OF len] by (subst fetch_imports.simps) (simp add: read_packed_int1_written)
  qed
next
  case 2
  show ?case by simp
next
  case (3 selector t kids)
  let ?w = "words s (slot v (sint selector))" and ?xs = "selected (words s) (words s (slot v (sint selector))) t"
  let ?s = "set_slots_from i ?xs s"
  have p: "IS_POINTER v" "passable U (words s) ?w t" "passable_kids U (words s) v kids" using 3(3) by simp_all
  have a: "nascent_apart U s i (length ?xs)" "nascent_apart U s (i + int (length ?xs)) (length (selected_kids (words s) v kids))"
    using 3(4) by (simp_all add: nascent_apart_split)
  note ag = passable_agree(2) [OF p(3) set_slots_from_agree [OF a(1)]]
  show ?case
    using 3(1) [OF p(2) a(1)] 3(2) [of ?s v "i + int (length ?xs)"] ag a(2) p(1)
    by (simp add: read_packed_int1_written GET_TUPLE_SLOT_AS_VAL_def set_slots_from_append add.assoc)
qed


section \<open>The registry as an association list\<close>

fun registry :: "val set \<Rightarrow> (val \<Rightarrow> val) \<Rightarrow> val \<Rightarrow> (unt8 list \<times> val) list \<Rightarrow> bool" where
  "registry U m p [] \<longleftrightarrow> p = HEAP_VOID"
| "registry U m p ((h, v) # es) \<longleftrightarrow>
     p \<noteq> HEAP_VOID \<and> IS_POINTER p \<and> slot p 0 \<in> U \<and> slot p 1 \<in> U \<and> slot p 2 \<in> U \<and> m (slot p 1) = v \<and>
     IS_POINTER (m (slot p 0)) \<and> slot (m (slot p 0)) 0 \<in> U \<and>
     (\<forall>i < PICKLEHASH_BYTES. (m (slot (m (slot p 0)) 0) + word_of_nat i) AND NOT 3 \<in> U \<and>
        get_byte m (m (slot (m (slot p 0)) 0) + word_of_nat i) = h ! i) \<and>
     length h = PICKLEHASH_BYTES \<and> registry U m (m (slot p 2)) es"

lemma registry_agree: "registry U m p es \<Longrightarrow> agree_on U m m' \<Longrightarrow> registry U m' p es"
  by (induction U m p es rule: registry.induct) (auto simp: agree_on_def get_byte_def)

lemma registry_mono: "registry U m p es \<Longrightarrow> U \<subseteq> V \<Longrightarrow> registry V m p es"
  by (induction U m p es rule: registry.induct) auto

lemma bytes_at_eq: "length h = n \<Longrightarrow> (\<forall>i < n. get_byte (words s) (p + word_of_nat i) = h ! i) \<Longrightarrow> bytes_at s p n = h"
  by (auto simp: bytes_at_def intro: nth_equalityI)

definition unknown_picklehash :: fault where
  "unknown_picklehash = Died ''unable to find picklehash (compiledfile identifier)''"

lemma scan_pickle_list_ok:
  "registry U (words s) p es \<Longrightarrow>
     scan_pickle_list h s p = Some (case map_of es h of None \<Rightarrow> Inl unknown_picklehash | Some v \<Rightarrow> Inr v)"
proof (induction es arbitrary: p)
  case Nil
  then show ?case by (subst scan_pickle_list.simps) (simp add: unknown_picklehash_def)
next
  case (Cons e es)
  obtain h' v where e: "e = (h', v)" by fastforce
  have "bytes_at s (words s (slot (words s (slot p 0)) 0)) PICKLEHASH_BYTES = h'"
    by (rule bytes_at_eq) (use Cons.prems e in auto)
  then show ?case
    using Cons e by (subst scan_pickle_list.simps)
      (auto simp: GET_TUPLE_SLOT_AS_VAL_def HEAP_STRING_AS_C_STRING_def GET_VECTOR_DATACHUNK_def)
qed

section \<open>All imports of a file\<close>

fun imports_bytes :: "(unt8 list \<times> import_tree) list \<Rightarrow> unt8 list" where
  "imports_bytes [] = []"
| "imports_bytes ((h, t) # wanted) = h @ tree_bytes t @ imports_bytes wanted"

fun imported :: "(val \<Rightarrow> val) \<Rightarrow> (unt8 list \<times> val) list \<Rightarrow> (unt8 list \<times> import_tree) list \<Rightarrow> val list" where
  "imported m es [] = []"
| "imported m es ((h, t) # wanted) = selected m (the (map_of es h)) t @ imported m es wanted"

fun available :: "val set \<Rightarrow> (val \<Rightarrow> val) \<Rightarrow> (unt8 list \<times> val) list \<Rightarrow> (unt8 list \<times> import_tree) list \<Rightarrow> bool" where
  "available U m es [] \<longleftrightarrow> True"
| "available U m es ((h, t) # wanted) \<longleftrightarrow>
     length h = PICKLEHASH_BYTES \<and> (\<exists>v. map_of es h = Some v \<and> passable U m v t) \<and> available U m es wanted"

lemma available_agree:
  "available U m es wanted \<Longrightarrow> agree_on U m m' \<Longrightarrow> available U m' es wanted \<and> imported m' es wanted = imported m es wanted"
  by (induction U m es wanted rule: available.induct) (auto dest: passable_agree(1))

lemma selected_nonempty: "0 < length (selected m v t)" and "kids \<noteq> [] \<Longrightarrow> 0 < length (selected_kids m v kids)"
  by (induction m v t and m v kids rule: selected_selected_kids.induct) auto

lemma fetch_all_imports_ok:
  assumes "available U (words s) es wanted" and "registry U (words s) (words s (pickle_list_refcell k)) es"
    and "nascent_apart (insert (pickle_list_refcell k) U) s i (length (imported (words s) es wanted))"
  shows "fetch_all_imports k (i + int (length (imported (words s) es wanted))) i (f\<lparr>file_rest := imports_bytes wanted @ bs\<rparr>) s =
    Some (Inr (f\<lparr>file_rest := bs\<rparr>, set_slots_from i (imported (words s) es wanted) s))"
  using assms
proof (induction wanted arbitrary: i s)
  case Nil
  then show ?case by (subst fetch_all_imports.simps) simp
next
  case (Cons x wanted)
  obtain h t where x: "x = (h, t)" by fastforce
  obtain v where v: "map_of es h = Some v" "passable U (words s) v t" and h: "length h = PICKLEHASH_BYTES"
    using Cons.prems(1) by (auto simp: x)
  let ?c = "pickle_list_refcell k" and ?vs = "selected (words s) v t" and ?ws = "imported (words s) es wanted"
  let ?s = "set_slots_from i ?vs s"
  have apart: "nascent_apart (insert ?c U) s i (length ?vs)" "nascent_apart (insert ?c U) s (i + int (length ?vs)) (length ?ws)"
    using Cons.prems(3) v(1) by (simp_all add: x nascent_apart_split)
  then have apartU: "nascent_apart U s i (length ?vs)" by (simp add: nascent_apart_def)
  have ag: "agree_on (insert ?c U) (words s) (words ?s)" by (rule set_slots_from_agree [OF apart(1)])
  then have agU: "agree_on U (words s) (words ?s)" and c: "words ?s ?c = words s ?c" by (simp_all add: agree_on_def)
  have av: "available U (words ?s) es wanted" "imported (words ?s) es wanted = ?ws"
    using available_agree [OF _ agU] Cons.prems(1) by (simp_all add: x)
  have "registry U (words ?s) (words ?s ?c) es" unfolding c by (rule registry_agree [OF Cons.prems(2) agU])
  note IH = Cons.IH [OF av(1) this, of "i + int (length ?vs)"]
  have "0 < length ?vs" by (rule selected_nonempty)
  then have "0 < int (length ?vs) + int (length ?ws)" by linarith
  moreover have "picklehash_to_exports_tree k h s = Some (Inr v)"
    using scan_pickle_list_ok [OF Cons.prems(2), of h] v(1)
    by (simp add: picklehash_to_exports_tree_def PERVASIVE_PACKAGE_PICKLE_LIST__GLOBAL_def)
  ultimately show ?case
    using IH apart(2) fetch_imports_ok(1) [OF v(2) apartU] v(1) h
    by (subst fetch_all_imports.simps) (simp add: x av(2) all_bytes_def set_slots_from_append add.assoc)
qed

end
