(* ===== verification/Linker_Facts.thy ===== *)
theory Linker_Facts
  imports Linker Import_Facts
begin

text \<open>
  What the linker promises: the record of imports a file gets, the registry of what the loaded
  files export, and the notation of picklehashes.
\<close>

section \<open>The record of imports\<close>

definition apart_from_buffer :: "val set \<Rightarrow> alloc_state \<Rightarrow> nat \<Rightarrow> bool" where
  "apart_from_buffer U s n \<longleftrightarrow> (\<forall>a \<in> U. unat a < unat (hap s) \<or> unat (hap s) + 4 * n \<le> unat a)"

lemma nascent_apartI:
  assumes "apart_from_buffer U s n" and "room n s" and "0 \<le> i" and "i + int m \<le> int n"
  shows "nascent_apart U s i m"
  unfolding nascent_apart_def
proof (intro allI impI notI)
  fix j
  assume j: "i \<le> j" "j < i + int m" "slot (hap s) j \<in> U"
  then have n: "nat j < n" "slot (hap s) j = hap s + 4 * word_of_nat (nat j)" using assms(3,4) slot_of_nat [of "hap s" "nat j"] by auto
  have "unat (hap s + 4 * word_of_nat (nat j)) = unat (hap s) + 4 * nat j"
    by (rule unat_slot_nat) (use assms(2) n(1) in \<open>simp add: room_def\<close>)
  then show False using assms(1) j(3) n by (force simp: apart_from_buffer_def)
qed

lemma room_le: "room n s \<Longrightarrow> m \<le> n \<Longrightarrow> room m s"
  by (simp add: room_def)

text \<open>
  What is there before a record of \<open>n\<close> slots is made. Where the buffer is short of room the heap is
  cleaned first, with ten registers and the extra roots as its roots; the task goes on with what the
  heapcleaner makes of them, and with an empty changelog. Elsewhere nothing happens.
\<close>

definition cleaned_for :: "linker \<Rightarrow> nat \<Rightarrow> val list \<Rightarrow> task_state \<Rightarrow> val list \<Rightarrow> task_state \<Rightarrow> bool" where
  "cleaned_for k n extra t extra' t' \<longleftrightarrow>
     (if room_is_short (run_time k) t (REC_BYTESIZE (word_of_nat n))
      then (\<exists>l a f c e p x y z v s. heapcleaner (run_time k) 0
          ([link_register t, argument t, fate t, current_closure t, exception_fate t, current_thread t, callee_saved_register_0 t,
            callee_saved_register_1 t, callee_saved_register_2 t, heapvoid t] @ extra) (task_heap t) =
            Inr ([l, a, f, c, e, p, x, y, z, v] @ extra', s) \<and>
          t' = t\<lparr>task_heap := s, link_register := l, argument := a, fate := f, current_closure := c, exception_fate := e, current_thread := p,
            callee_saved_register_0 := x, callee_saved_register_1 := y, callee_saved_register_2 := z, heapvoid := v,
            task_heap_changelog := HEAP_VOID\<rparr>)
      else extra' = extra \<and> t' = t)"

lemma cleaned_for_ok:
  "cleaned_for k n extra t extra' t' \<Longrightarrow> clean_with_roots_if_short k (REC_BYTESIZE (word_of_nat n)) extra t = Inr (extra', t')"
  by (auto simp: cleaned_for_def clean_with_roots_if_short_def call_heapcleaner_with_extra_roots_def register_roots_def set_registers_def
      seq_result_eq_Inr split: if_splits)

lemma make_import_record_ok:
  fixes t' :: task_state and k :: linker
  defines "s \<equiv> task_heap t'" and "c \<equiv> pickle_list_refcell k"
  assumes clean: "cleaned_for k (n + 1) extra t extra' t'"
    and av: "available U (words s) es wanted" and reg: "registry U (words s) (words s c) es"
    and len: "length (imported (words s) es wanted) = n" and room: "room (n + 2) s" and far: "apart_from_buffer (insert c U) s (n + 2)"
  shows "make_import_record k (word_of_nat (n + 1)) (f\<lparr>file_rest := imports_bytes wanted @ bs\<rparr>) extra t =
    (let (u, r) = in_heap (make_record_of (imported (words s) es wanted @ [HEAP_NIL])) t'
     in Some (Inr (f\<lparr>file_rest := bs\<rparr>, extra', u, r)))"
proof -
  let ?vs = "imported (words s) es wanted"
  let ?s = "set_slot_in_nascent_heapchunk 0 (int_tagword (int (n + 1)) PAIRS_AND_RECORDS_BTAG) s"
  have lt: "n + 1 < 2 ^ 31" using room by (simp add: room_def)
  have apart: "nascent_apart (insert c U) s i m" if "0 \<le> i" "i + int m \<le> int (n + 2)" for i m
    by (rule nascent_apartI [OF far room that])
  have ag: "agree_on (insert c U) (words s) (words ?s)"
    using apart [of 0 1] by (auto simp: nascent_apart_def agree_on_def set_slot_in_nascent_heapchunk_def)
  then have agU: "agree_on U (words s) (words ?s)" and c: "words ?s c = words s c" by (simp_all add: agree_on_def)
  note av = available_agree [OF av agU]
  have "nascent_apart (insert c U) s 1 (length ?vs)" using apart [of 1 "length ?vs"] len by simp
  then have na: "nascent_apart (insert c U) ?s 1 (length ?vs)" unfolding nascent_apart_def set_slot_simps .
  have reg: "registry U (words ?s) (words ?s c) es" unfolding c by (rule registry_agree [OF reg agU])
  have "fetch_all_imports k (1 + int n) 1 (f\<lparr>file_rest := imports_bytes wanted @ bs\<rparr>) ?s =
      Some (Inr (f\<lparr>file_rest := bs\<rparr>, set_slots_from 1 ?vs ?s))"
    using fetch_all_imports_ok [of U ?s es wanted k 1 bs f] av reg na len by (simp add: c_def)
  moreover have "sint (word_of_nat (n + 1) :: vunt) = 1 + int n" using sint_word_of_nat [OF lt] by simp
  moreover have "int_tagword (int (n + 1)) PAIRS_AND_RECORDS_BTAG = MAKE_TAGWORD (n + 1) PAIRS_AND_RECORDS_BTAG"
    by (rule int_tagword_of_nat) (use lt in simp)
  ultimately show ?thesis
    using len cleaned_for_ok [OF clean]
    by (simp add: make_import_record_def in_heap_def make_record_of_def set_slots_from_append s_def
        add.commute [of _ 1] Let_def split: prod.splits)
qed

text \<open>
  C10. A file gets what it imports. Its import section holds, for each file it imports from, the
  picklehash and the tree of the selectors it needs, as the comment on the file format lays them
  down. Where the buffer is short of room for the record the heap is cleaned first; the rest is said
  of the heap as it is then. If the files are registered, the trees select within what they
  export, and the buffer has room for the record (none of what is read lies in it), the linker reads exactly this section and makes a record of the selected values, in
  the order of the leaves of the trees, with one more slot at its end for the literals. Making it
  changes nothing else of the heap.
\<close>

theorem a_file_gets_what_it_imports:
  fixes t :: task_state
  assumes clean: "cleaned_for k (n + 1) extra t extra' t'"
    and "available U (task_words t') es wanted" and "registry U (task_words t') (task_words t' (pickle_list_refcell k)) es"
    and n: "length (imported (task_words t') es wanted) = n" and room: "room (n + 2) (task_heap t')"
    and "apart_from_buffer (insert (pickle_list_refcell k) U) (task_heap t') (n + 2)"
  shows "\<exists>u r. make_import_record k (word_of_nat (n + 1)) (f\<lparr>file_rest := imports_bytes wanted @ bs\<rparr>) extra t =
      Some (Inr (f\<lparr>file_rest := bs\<rparr>, extra', u, r)) \<and>
    new_chunk (task_heap t') (task_heap u) r (MAKE_TAGWORD (n + 1) PAIRS_AND_RECORDS_BTAG) (n + 1) \<and>
    (\<forall>i < n. task_words u (r + 4 * word_of_nat i) = imported (task_words t') es wanted ! i) \<and>
    task_words u (r + 4 * word_of_nat n) = HEAP_NIL \<and> u = t'\<lparr>task_heap := task_heap u\<rparr>"
proof -
  let ?vs = "imported (task_words t') es wanted @ [HEAP_NIL]"
  obtain s r where s: "make_record_of ?vs (task_heap t') = (s, r)" by fastforce
  then have mk: "make_chunk (MAKE_TAGWORD (n + 1) PAIRS_AND_RECORDS_BTAG) ?vs (task_heap t') = (s, r)"
    using n by (simp add: make_record_of_chunk)
  have "room (length ?vs + 1) (task_heap t')" using n room by simp
  note ok = make_chunk_ok [OF mk this]
  have "make_import_record k (word_of_nat (n + 1)) (f\<lparr>file_rest := imports_bytes wanted @ bs\<rparr>) extra t =
      Some (Inr (f\<lparr>file_rest := bs\<rparr>, extra', t'\<lparr>task_heap := s\<rparr>, r))"
    using make_import_record_ok [OF assms [unfolded task_words_def], of bs f] s by (simp add: in_heap_def task_words_def)
  moreover have "words s (r + 4 * word_of_nat i) = imported (task_words t') es wanted ! i" if "i < n" for i
    using ok(2) [of i] that n by (simp add: nth_append)
  moreover have "words s (r + 4 * word_of_nat n) = HEAP_NIL" using ok(2) [of n] n by (simp add: nth_append)
  ultimately show ?thesis
    using ok(1) n
    by (intro exI [of _ "t'\<lparr>task_heap := s\<rparr>"] exI [of _ r]) (simp add: task_words_def)
qed


section \<open>Strings that are filled after their header is made\<close>

lemma filled_string_ok:
  assumes "length bs < 2047" and "room (string_words (length bs) + 4) s"
  obtains w v where "allocate_nonempty_ascii_string__may_heapclean clean (int (length bs)) roots s = returning roots (w, v)"
    and "IS_POINTER v" and "grows s (put_bytes (words w v) bs w)"
    and "string_at (words (put_bytes (words w v) bs w)) (unat (hap w)) v bs"
    and "unat (hap w) = unat (hap s) + 4 * (string_words (length bs) + 4)" and "unat (hap s) \<le> unat (words w v)" and "unat (hap s) \<le> unat v"
    and "words (put_bytes (words w v) bs w) v = words w v"
proof -
  let ?n = "string_words (length bs)" and ?tag = "MAKE_TAGWORD (string_words (length bs)) FOUR_BYTE_ALIGNED_NONPOINTER_DATA_BTAG"
  have small: "int ?n \<le> MAX_AGEGROUP0_ALLOCATION_SIZE_IN_WORDS"
    using assms(1) by (simp add: string_words_def MAX_AGEGROUP0_ALLOCATION_SIZE_IN_WORDS_def)
  have "room (?n + 1) s" using assms(2) by (simp add: room_def)
  from headerless_string_ok [OF small this, of clean roots] obtain u p
    where call: "allocate_headerless_ascii_string__may_heapclean clean (int (length bs)) roots s = returning roots (u, p)"
      and u: "new_chunk s u p ?tag ?n" and hu: "unat (hap u) = unat (hap s) + 4 * (?n + 1)"
      and zero: "\<And>i. length bs \<le> i \<Longrightarrow> i < 4 * ?n \<Longrightarrow> get_byte (words u) (p + word_of_nat i) = 0" by blast
  obtain w v where h: "make_vector_header STRING_TAGWORD p (int (length bs)) u = (w, v)" by fastforce
  then have mk: "make_chunk STRING_TAGWORD [p, TAGGED_INT_FROM_C_INT (int (length bs))] u = (w, v)" by (simp add: make_vector_header_def)
  have "room (length [p, TAGGED_INT_FROM_C_INT (int (length bs))] + 1) u"
    using hu assms(2) new_chunkD(7) [OF u] by (simp add: room_def)
  note ok = make_chunk_ok [OF mk this]
  have w0: "words w v = p" and w4: "words w (v + 4) = TAGGED_INT_FROM_C_INT (int (length bs))" using ok(2) [of 0] ok(2) [of 1] by simp_all
  have top: "unat (hap w) = unat (hap u) + 12" using ok(3) by simp
  have gu: "grows u w" by (rule new_chunkD(1) [OF ok(1)])
  let ?x = "put_bytes p bs w"
  have len: "length bs < 4 * ?n" by (rule string_words_bounds(1))
  have pn: "unat p + 4 * ?n < 2 ^ 32" "unat (hap u) = unat p + 4 * ?n" "IS_POINTER p" "unat (hap s) + 4 \<le> unat p"
    using new_chunkD [OF u] by auto
  have fits: "unat p + length bs \<le> 2 ^ 32" using pn(1) len by simp
  have out: "words ?x a = words w a" if "unat a < unat p \<or> unat (hap u) \<le> unat a" for a
    unfolding put_bytes_def using copy_bytes_word_out [OF _ fits, of a "words w"] that pn len
    by (auto simp: IS_POINTER_iff)
  have v: "IS_POINTER v" "unat (hap u) + 4 \<le> unat v" "unat v + 8 = unat (hap w)" using new_chunkD [OF ok(1)] by auto
  have "unat (v + 4) = unat v + 4" using unat_slot_nat [of v 1] unat_below [of "hap w"] v(3) by simp
  then have x0: "words ?x v = p" and x4: "words ?x (v + 4) = TAGGED_INT_FROM_C_INT (int (length bs))"
    using out [of v] out [of "v + 4"] v w0 w4 by simp_all
  have "grows s ?x" unfolding put_bytes_def
    by (rule grows_rewrite [OF grows_trans [OF new_chunkD(1) [OF u] gu]]) (use out pn top in \<open>auto simp: put_bytes_def\<close>)
  moreover have cw: "chunk (words w) (unat (hap w)) p ?tag ?n"
    by (rule chunk_agree [OF new_chunkD(6) [OF u] grows_agree [OF gu]]) (use top in simp)
  then have "chunk (words ?x) (unat (hap w)) p ?tag ?n"
    using out [of "p - 4"] pn(4) unfolding chunk_def by (simp add: unat_sub word_le_nat_alt)
  moreover have "chunk (words ?x) (unat (hap w)) v STRING_TAGWORD 2"
  proof -
    have "unat (v - 4) = unat v - 4" using v(2) by (simp add: unat_sub word_le_nat_alt)
    then have "unat (hap u) \<le> unat (v - 4)" using v(2) by linarith
    then have "words ?x (v - 4) = words w (v - 4)" by (intro out disjI2)
    then show ?thesis using new_chunkD(6) [OF ok(1)] unfolding chunk_def by (simp add: numeral_2_eq_2)
  qed
  moreover have "get_byte (words ?x) (p + word_of_nat i) = (if i < length bs then bs ! i else 0)" if "i < 4 * ?n" for i
  proof (cases "i < length bs")
    case True
    then show ?thesis using copy_bytes_byte_in [OF True fits] by (simp add: put_bytes_def)
  next
    case False
    have "unat (p + word_of_nat i) = unat p + i" by (rule unat_offset) (use pn that in simp)
    then have "get_byte (words ?x) (p + word_of_nat i) = get_byte (words w) (p + word_of_nat i)"
      unfolding put_bytes_def using copy_bytes_byte_out [OF _ fits, of "p + word_of_nat i"] False by simp
    then show ?thesis
      using chunk_byte_agree [OF new_chunkD(6) [OF u] grows_agree [OF gu] that] zero [of i] that False by simp
  qed
  ultimately have "string_at (words ?x) (unat (hap w)) v bs" using x0 x4 by (simp add: string_at_def Let_def)
  moreover have "allocate_nonempty_ascii_string__may_heapclean clean (int (length bs)) roots s = returning roots (w, v)"
    using call h by (simp add: allocate_nonempty_ascii_string__may_heapclean_def returning_def)
  ultimately show thesis using that [of w v] \<open>grows s ?x\<close> v hu top pn w0 x0 by simp
qed


section \<open>Registering a file\<close>

lemma with_register_roots_same:
  assumes "f (register_roots t @ extra) (task_heap t) = returning (register_roots t @ extra) (s, v)"
  shows "with_register_roots f extra t = Some (Inr (extra, t\<lparr>task_heap := s\<rparr>, v))"
proof -
  have "set_registers (register_roots t @ extra) (t\<lparr>task_heap := s\<rparr>) = t\<lparr>task_heap := s\<rparr>"
    by (cases t) (simp add: set_registers_def register_roots_def)
  then show ?thesis using assms by (simp add: with_register_roots_def returning_def register_roots_def)
qed

lemma registry_new_entry:
  assumes reg: "registry U m p es" and ag: "agree_on U m m'" and str: "string_at m' lim key h"
    and key: "lo \<le> unat key" "lo \<le> unat (m' key)" "length h = PICKLEHASH_BYTES"
    and r: "IS_POINTER r" "lo \<le> unat r" "unat r + 12 \<le> lim" "lim < 2 ^ 32"
    and w: "m' r = key" "m' (r + 4) = v" "m' (r + 8) = p"
  shows "registry (U \<union> {a. lo \<le> unat a \<and> unat a < lim}) m' r ((h, v) # es)"
proof -
  let ?W = "{a :: val. lo \<le> unat a \<and> unat a < lim}" and ?p = "m' key"
  have sl: "slot r 0 = r" "slot r 1 = r + 4" "slot r 2 = r + 8" "slot key 0 = key" by (simp_all add: slot_def)
  have u: "unat (r + 4) = unat r + 4" "unat (r + 8) = unat r + 8"
    using unat_slot_nat [of r 1] unat_slot_nat [of r 2] r(3,4) by simp_all
  have ck: "chunk m' lim key STRING_TAGWORD 2" using str by (simp add: string_at_def)
  have cp: "chunk m' lim ?p (MAKE_TAGWORD (string_words 16) FOUR_BYTE_ALIGNED_NONPOINTER_DATA_BTAG) (string_words 16)"
    and b: "\<And>i. i < 16 \<Longrightarrow> get_byte m' (?p + word_of_nat i) = h ! i"
    using str key(3) by (auto simp: string_at_def Let_def PICKLEHASH_BYTES_def string_words_def)
  have pp: "IS_POINTER ?p" "unat ?p + 20 \<le> lim" using cp by (simp_all add: chunk_def string_words_def)
  have "(?p + word_of_nat i) AND NOT 3 \<in> ?W" if "i < 16" for i
  proof -
    have "unat (?p + word_of_nat i) = unat ?p + i" by (rule unat_offset) (use pp(2) r(4) that in simp)
    then have "unat ((?p + word_of_nat i) AND NOT 3) = unat ?p + i - (unat ?p + i) mod 4" by (simp only: unat_and_not_3)
    moreover have "(unat ?p + i) mod 4 = i mod 4" using pp(1) by (simp add: IS_POINTER_iff mod_add_eq [symmetric])
    moreover have "i mod 4 \<le> i" by simp
    ultimately show ?thesis using key(2) pp(2) that unfolding mem_Collect_eq by linarith
  qed
  moreover have "registry (U \<union> ?W) m' p es" by (rule registry_mono [OF registry_agree [OF reg ag]]) simp
  moreover have "r \<noteq> HEAP_VOID" using r(1) by (auto simp: IS_POINTER_def HEAP_VOID_def TAGGED_INT_FROM_C_INT_def POINTER_ATAG_def ATAG_MASK_def)
  moreover have "IS_POINTER key" "unat key + 8 \<le> lim" using ck by (simp_all add: chunk_def)
  ultimately show ?thesis using r u key w b by (simp add: sl PICKLEHASH_BYTES_def)
qed

text \<open>
  C11. The registry is a finite map that registering extends. When a loaded file is registered under a
  picklehash, looking up that picklehash gives what the file exports, also where the picklehash
  was registered before; every other picklehash is found, or not found, as before; and what the
  files that were loaded before export is unchanged.
\<close>

theorem registering_extends_the_registry:
  fixes t :: task_state and k :: linker
  assumes reg: "registry U (task_words t) (task_words t (pickle_list_refcell k)) es" and h: "length h = PICKLEHASH_BYTES"
    and room: "room 13 (task_heap t)" and apart: "apart_from_buffer (insert (pickle_list_refcell k) U) (task_heap t) 13"
    and c: "pickle_list_refcell k \<notin> U"
  shows "\<exists>u V. register_compiled_file_exports__may_heapclean k h v extra t = Some (Inr (extra, u)) \<and>
    registry V (task_words u) (task_words u (pickle_list_refcell k)) ((h, v) # es) \<and> U \<subseteq> V \<and> pickle_list_refcell k \<notin> V \<and>
    agree_on U (task_words t) (task_words u) \<and>
    (\<forall>h'. picklehash_to_exports_tree k h' (task_heap u) =
       (if h' = h then Some (Inr v) else picklehash_to_exports_tree k h' (task_heap t)))"
proof -
  let ?s = "task_heap t" and ?clean = "heapcleaner (run_time k)" and ?R = "register_roots t @ v # extra" and ?c = "pickle_list_refcell k"
  have len: "length h < 2047" "room (string_words (length h) + 4) ?s"
    using h room_le [OF room] by (simp_all add: PICKLEHASH_BYTES_def string_words_def)
  from filled_string_ok [OF len, of ?clean ?R] obtain w key
    where alloc: "allocate_nonempty_ascii_string__may_heapclean ?clean (int (length h)) ?R ?s = returning ?R (w, key)"
      and kp: "IS_POINTER key" and gx: "grows ?s (put_bytes (words w key) h w)"
      and str: "string_at (words (put_bytes (words w key) h w)) (unat (hap w)) key h"
      and hw: "unat (hap w) = unat (hap ?s) + 4 * (string_words (length h) + 4)"
      and lo: "unat (hap ?s) \<le> unat (words w key)" "unat (hap ?s) \<le> unat key"
      and xk: "words (put_bytes (words w key) h w) key = words w key" by blast
  let ?x = "put_bytes (words w key) h w"
  have hx: "hap ?x = hap w" by (simp add: put_bytes_def)
  have hw': "unat (hap w) = unat (hap ?s) + 36" using hw h by (simp add: PICKLEHASH_BYTES_def string_words_def)
  obtain y r where y: "make_three_slot_record key v (words ?x ?c) ?x = (y, r)" by fastforce
  then have mk: "make_chunk (MAKE_TAGWORD 3 PAIRS_AND_RECORDS_BTAG) [key, v, words ?x ?c] ?x = (y, r)" by (simp add: make_three_slot_record_def)
  have al: "unat (hap ?s) mod 4 = 0" "unat (hap ?s) + 52 < 2 ^ 32" using room by (simp_all add: room_def)
  have "(unat (hap ?s) + 36) mod 4 = 0" using al(1) by (simp add: mod_add_eq [symmetric])
  then have "room (length [key, v, words ?x ?c] + 1) ?x" using hw' al by (simp add: room_def hx)
  note ok = make_chunk_ok [OF mk this]
  have gy: "grows ?x y" by (rule new_chunkD(1) [OF ok(1)])
  have hy: "unat (hap y) = unat (hap ?s) + 52" using ok(3) hw' hx by simp
  have sy: "words y a = words ?s a" if "unat a < unat (hap ?s) \<or> unat (hap ?s) + 52 \<le> unat a" for a
    using grows_trans [OF gx gy] that hy unfolding grows_def by auto
  have cs: "words ?x ?c = words ?s ?c" using gx apart hw' hx by (auto simp: grows_def apart_from_buffer_def)
  have agU: "agree_on U (words ?s) (words y)" using sy apart by (auto simp: agree_on_def apart_from_buffer_def)
  let ?V = "U \<union> {a. unat (hap ?s) \<le> unat a \<and> unat a < unat (hap y)}" and ?u = "t\<lparr>task_heap := set_pickle_list k r y\<rparr>"
  have cV: "?c \<notin> ?V" using apart hy c by (auto simp: apart_from_buffer_def)
  have agx: "agree (words ?x) (words y) (unat (hap w))" using grows_agree [OF gy] by (simp add: hx)
  have ck: "chunk (words ?x) (unat (hap w)) key STRING_TAGWORD 2" using str by (simp add: string_at_def)
  have yk: "words y key = words w key" using chunk_word_agree [OF ck agx, of 0] xk by simp
  have regy: "registry ?V (words y) r ((h, v) # es)"
  proof (rule registry_new_entry [OF _ agU])
    show "registry U (words ?s) (words ?s ?c) es" using reg by (simp add: task_words_def)
    show "string_at (words y) (unat (hap y)) key h" by (rule string_at_agree [OF str agx]) (use hy hw' in simp)
    show "words y r = key" "words y (r + 4) = v" "words y (r + 8) = words ?s ?c"
      using ok(2) [of 0] ok(2) [of 1] ok(2) [of 2] cs by simp_all
    show "IS_POINTER r" by (rule new_chunkD(2) [OF ok(1)])
    show "unat (hap ?s) \<le> unat r" "unat r + 12 \<le> unat (hap y)" using new_chunkD(3,4) [OF ok(1)] hw' hx hy by simp_all
    show "unat (hap y) < 2 ^ 32" by (rule unat_below)
  qed (use lo yk h in simp_all)
  have agV: "agree_on ?V (words y) (task_words ?u)" and uc: "task_words ?u ?c = r"
    using cV by (auto simp: agree_on_def task_words_def set_pickle_list_def)
  have regu: "registry ?V (task_words ?u) (task_words ?u ?c) ((h, v) # es)"
    unfolding uc by (rule registry_agree [OF regy agV])
  have "agree_on U (task_words t) (task_words ?u)" using agU agV by (auto simp: agree_on_def task_words_def)
  moreover have "register_compiled_file_exports__may_heapclean k h v extra t = Some (Inr (extra, ?u))"
  proof -
    have "with_register_roots (allocate_nonempty_ascii_string__may_heapclean ?clean (int PICKLEHASH_BYTES)) (v # extra) t =
        Some (Inr (v # extra, t\<lparr>task_heap := w\<rparr>, key))"
      by (rule with_register_roots_same) (use alloc h in simp)
    then show ?thesis using h y kp
      by (simp add: register_compiled_file_exports__may_heapclean_def all_bytes_def add_to_pickle_list_def HEAP_STRING_AS_C_STRING_def
          GET_VECTOR_DATACHUNK_def GET_TUPLE_SLOT_AS_VAL_def slot_def PERVASIVE_PACKAGE_PICKLE_LIST__GLOBAL_def)
  qed
  moreover have "picklehash_to_exports_tree k h' (task_heap ?u) =
      (if h' = h then Some (Inr v) else picklehash_to_exports_tree k h' ?s)" for h'
    using scan_pickle_list_ok [OF regu [unfolded task_words_def], of h'] scan_pickle_list_ok [OF reg [unfolded task_words_def], of h']
    by (simp add: picklehash_to_exports_tree_def PERVASIVE_PACKAGE_PICKLE_LIST__GLOBAL_def)
  ultimately show ?thesis using cV regu by (intro exI [of _ ?u] exI [of _ ?V]) blast
qed

section \<open>An example\<close>

text \<open>One file is registered, under a picklehash of zeros; its exports are a record of two values. The
  registry's refcell is at 4096.\<close>

definition example_linker :: linker where
  "example_linker = \<lparr>run_time = example_runtime, literal_statics = example_statics, file_named = (\<lambda>_. None), malloc_succeeds = (\<lambda>_. True),
     obtain_quire = (\<lambda>_. None), active_agegroups = 1, pickle_list_refcell = 0x1000, runtime_package_variable = 0x1100,
     asm_closures = [], runtime_values = []\<rparr>"

definition linking_task :: task_state where
  "linking_task = example_task\<lparr>task_heap := example_state\<lparr>words := (\<lambda>_. 0)
     (0x1000 := 0x2000, 0x2000 := 0x3000, 0x2004 := 0x4000, 0x2008 := HEAP_VOID, 0x3000 := 0x3100, 0x4000 := 0x5000, 0x4004 := 0x6000)\<rparr>\<rparr>"

definition linking_words :: "val set" where
  "linking_words = {0x2000, 0x2004, 0x2008, 0x3000, 0x3100, 0x3104, 0x3108, 0x310C, 0x4000, 0x4004}"

definition zero_hash :: "unt8 list" where "zero_hash = replicate 16 0"

definition second_export :: import_tree where "second_export = Node [(1, Node [])]"

lemma linking_bytes: "\<forall>i \<in> set [0..<16]. (0x3100 + word_of_nat i :: val) AND NOT 3 \<in> {0x3100, 0x3104, 0x3108, 0x310C}"
  by code_simp

definition registry_words :: "val set" where
  "registry_words = {0x2000, 0x2004, 0x2008, 0x3000, 0x3100, 0x3104, 0x3108, 0x310C}"

lemma linking_registry_words:
  "registry registry_words (task_words linking_task) (task_words linking_task (pickle_list_refcell example_linker)) [(zero_hash, 0x4000)]"
proof -
  have "\<forall>i < 16. (0x3100 + word_of_nat i :: val) AND NOT 3 \<in> {0x3100, 0x3104, 0x3108, 0x310C}"
    using linking_bytes by simp
  then have m: "(0x3100 + word_of_nat i :: val) AND NOT 3 \<in> {0x3100, 0x3104, 0x3108, 0x310C}" if "i < 16" for i using that by blast
  have "task_words linking_task ((0x3100 + word_of_nat i) AND NOT 3) = 0" if "i < 16" for i
    using m [OF that] by (auto simp: task_words_def linking_task_def)
  then have "get_byte (task_words linking_task) (0x3100 + word_of_nat i) = 0" if "i < 16" for i
    using that by (simp add: get_byte_def)
  then show ?thesis
    using m by (auto simp: task_words_def linking_task_def example_linker_def registry_words_def slot_def zero_hash_def
        PICKLEHASH_BYTES_def IS_POINTER_iff HEAP_VOID_def TAGGED_INT_FROM_C_INT_def)
qed

lemma linking_registry:
  "registry linking_words (task_words linking_task) (task_words linking_task (pickle_list_refcell example_linker)) [(zero_hash, 0x4000)]"
  by (rule registry_mono [OF linking_registry_words]) (simp add: registry_words_def linking_words_def)

lemma linking_hap: "unat (hap (task_heap linking_task)) = 0x10000000"
  using example_hap by (simp add: linking_task_def)

lemma linking_apart: "apart_from_buffer (insert (pickle_list_refcell example_linker) linking_words) (task_heap linking_task) n"
  unfolding apart_from_buffer_def linking_hap by (simp add: linking_words_def example_linker_def)

lemma linking_room: "n \<le> 1000 \<Longrightarrow> room n (task_heap linking_task)"
  unfolding room_def linking_hap by simp

lemma linking_enough: "\<not> room_is_short (run_time example_linker) linking_task 12"
  by (simp add: room_is_short_def need_to_call_heapcleaner_def example_linker_def example_runtime_def linking_task_def example_state_def
      example_buffer_def hostthread_buffer_def Let_def HEAP_ALLOCATION_LIMIT_def HEAP_ALLOCATION_LIMIT_SIZE_def buffer_sizes)

lemma linking_available:
  "available linking_words (task_words linking_task) [(zero_hash, 0x4000)] [(zero_hash, second_export)]"
  "imported (task_words linking_task) [(zero_hash, 0x4000)] [(zero_hash, second_export)] = [0x6000]"
  by (simp_all add: second_export_def zero_hash_def PICKLEHASH_BYTES_def slot_def linking_words_def IS_POINTER_iff task_words_def linking_task_def)

text \<open>
  A linker for which a cleaning is due. It moves the exported value at 0x6000, the extra root at
  3000 and the closure of the task, also at 3000.
\<close>

definition moved_words :: "val \<Rightarrow> val" where "moved_words = (words (task_heap linking_task))(0x4004 := 0x6100)"

definition short_linker :: linker where
  "short_linker = example_linker\<lparr>run_time := example_runtime
     \<lparr>heapcleaner := (\<lambda>_ roots s. Inr (map (\<lambda>v. if v = 3000 then 3100 else v) roots, s\<lparr>words := moved_words\<rparr>)),
      heapcleaner_state := (\<lambda>_. HEAPCLEANER_IS_STARTING)\<rparr>\<rparr>"

definition moved_task :: task_state where
  "moved_task = linking_task\<lparr>task_heap := (task_heap linking_task)\<lparr>words := moved_words\<rparr>, current_closure := 3100, task_heap_changelog := HEAP_VOID\<rparr>"

lemma moved_task_simps: "task_words moved_task = moved_words" "hap (task_heap moved_task) = hap (task_heap linking_task)"
  "pickle_list_refcell short_linker = pickle_list_refcell example_linker"
  by (simp_all add: moved_task_def task_words_def short_linker_def)

lemma short_linker_cleans: "cleaned_for short_linker n (3000 # extra) linking_task (3100 # map (\<lambda>v. if v = 3000 then 3100 else v) extra) moved_task"
proof -
  have "room_is_short (run_time short_linker) linking_task (REC_BYTESIZE (word_of_nat n))"
    by (simp add: room_is_short_def need_to_call_heapcleaner_def short_linker_def)
  then show ?thesis
    by (simp add: cleaned_for_def short_linker_def moved_task_def linking_task_def example_task_def HEAP_VOID_def TAGGED_INT_FROM_C_INT_def)
qed

lemma moved_registry:
  "registry registry_words (task_words moved_task) (task_words moved_task (pickle_list_refcell short_linker)) [(zero_hash, 0x4000)]"
proof -
  have "agree_on registry_words (task_words linking_task) (task_words moved_task)"
    unfolding agree_on_def moved_task_simps moved_words_def registry_words_def by (simp add: task_words_def)
  moreover have "task_words moved_task (pickle_list_refcell short_linker) = task_words linking_task (pickle_list_refcell example_linker)"
    unfolding moved_task_simps moved_words_def by (simp add: task_words_def example_linker_def)
  ultimately show ?thesis using registry_agree [OF linking_registry_words] by simp
qed

lemma moved_available:
  "registry linking_words (task_words moved_task) (task_words moved_task (pickle_list_refcell short_linker)) [(zero_hash, 0x4000)]"
  "available linking_words (task_words moved_task) [(zero_hash, 0x4000)] [(zero_hash, second_export)]"
  "imported (task_words moved_task) [(zero_hash, 0x4000)] [(zero_hash, second_export)] = [0x6100]"
  by (rule registry_mono [OF moved_registry], simp add: registry_words_def linking_words_def)
    (simp_all add: second_export_def zero_hash_def PICKLEHASH_BYTES_def slot_def linking_words_def IS_POINTER_iff moved_task_simps moved_words_def)

lemma moved_space:
  "n \<le> 1000 \<Longrightarrow> room n (task_heap moved_task)"
  "apart_from_buffer (insert (pickle_list_refcell short_linker) linking_words) (task_heap moved_task) n"
  using linking_room linking_apart by (simp_all add: room_def apart_from_buffer_def moved_task_simps)

lemma linking_cleaned: "cleaned_for example_linker 2 extra linking_task extra linking_task"
  using linking_enough by (simp add: cleaned_for_def REC_BYTESIZE_def)

theorem a_file_gets_what_it_imports_witness:
  "(\<exists>u r. make_import_record example_linker 2 (from_start (imports_bytes [(zero_hash, second_export)] @ [7])) [3000] linking_task =
      Some (Inr ((from_start (imports_bytes [(zero_hash, second_export)] @ [7]))\<lparr>file_rest := [7]\<rparr>, [3000], u, r)) \<and>
    task_words u r = 0x6000 \<and> task_words u (r + 4) = HEAP_NIL) \<and>
   (\<exists>u r. make_import_record short_linker 2 (from_start (imports_bytes [(zero_hash, second_export)] @ [7])) [3000] linking_task =
      Some (Inr ((from_start (imports_bytes [(zero_hash, second_export)] @ [7]))\<lparr>file_rest := [7]\<rparr>, [3100], u, r)) \<and>
    task_words u r = 0x6100 \<and> task_words u (r + 4) = HEAP_NIL \<and> current_closure u = 3100)"
proof
  let ?f = "from_start (imports_bytes [(zero_hash, second_export)] @ [7])"
  have f: "?f\<lparr>file_rest := imports_bytes [(zero_hash, second_export)] @ [7]\<rparr> = ?f" by (simp add: from_start_def)
  have n: "length (imported (task_words linking_task) [(zero_hash, 0x4000)] [(zero_hash, second_export)]) = 1"
    unfolding linking_available(2) by simp
  have c: "cleaned_for example_linker (1 + 1) [3000] linking_task [3000] linking_task" unfolding one_add_one by (rule linking_cleaned)
  show "\<exists>u r. make_import_record example_linker 2 ?f [3000] linking_task = Some (Inr (?f\<lparr>file_rest := [7]\<rparr>, [3000], u, r)) \<and>
      task_words u r = 0x6000 \<and> task_words u (r + 4) = HEAP_NIL"
    using a_file_gets_what_it_imports [OF c linking_available(1) linking_registry n linking_room linking_apart, of "[7]" ?f]
    unfolding f linking_available(2) by auto
  have n: "length (imported (task_words moved_task) [(zero_hash, 0x4000)] [(zero_hash, second_export)]) = 1"
    unfolding moved_available(3) by simp
  have c: "cleaned_for short_linker (1 + 1) [3000] linking_task [3100] moved_task" using short_linker_cleans [of "1 + 1" "[]"] by simp
  have room: "room (1 + 2) (task_heap moved_task)" by (rule moved_space(1)) simp
  have closure: "u = moved_task\<lparr>task_heap := s\<rparr> \<Longrightarrow> current_closure u = 3100" for u s by (simp add: moved_task_def)
  show "\<exists>u r. make_import_record short_linker 2 ?f [3000] linking_task = Some (Inr (?f\<lparr>file_rest := [7]\<rparr>, [3100], u, r)) \<and>
      task_words u r = 0x6100 \<and> task_words u (r + 4) = HEAP_NIL \<and> current_closure u = 3100"
    using a_file_gets_what_it_imports [OF c moved_available(2,1) n room moved_space(2), of "[7]" ?f]
    unfolding f moved_available(3) by (auto dest: closure)
qed

theorem registering_extends_the_registry_witness:
  "\<exists>u. register_compiled_file_exports__may_heapclean example_linker (replicate 16 1) 0x7000 [] linking_task = Some (Inr ([], u)) \<and>
    picklehash_to_exports_tree example_linker (replicate 16 1) (task_heap u) = Some (Inr 0x7000) \<and>
    picklehash_to_exports_tree example_linker zero_hash (task_heap u) =
      picklehash_to_exports_tree example_linker zero_hash (task_heap linking_task)"
proof -
  have c: "pickle_list_refcell example_linker \<notin> linking_words" by (simp add: example_linker_def linking_words_def)
  have ne: "zero_hash \<noteq> replicate 16 1" by (simp add: zero_hash_def)
  have h: "length (replicate 16 (1 :: unt8)) = PICKLEHASH_BYTES" by (simp add: PICKLEHASH_BYTES_def)
  from registering_extends_the_registry [OF linking_registry h linking_room linking_apart c, where v = "0x7000" and extra = "[]"] ne
  show ?thesis by auto
qed

end
