(* ===== verification/Load_Facts.thy ===== *)
theory Load_Facts
  imports Linker_Facts
begin

text \<open>
  Loading a file, from its bytes to its entry in the registry: a file that is laid out as the
  comment on the format in \<open>src/c/main/load-compiledfiles.c\<close> says is linked as the unit it stands for.
\<close>

section \<open>Big-endian words\<close>

lemma byte_masks:
  "(0x000000FF :: vunt) = mask 8" "(0x0000FF00 :: vunt) = push_bit 8 (mask 8)"
  "(0x00FF0000 :: vunt) = push_bit 16 (mask 8)" "(0xFF000000 :: vunt) = push_bit 24 (mask 8)"
  by (simp_all add: mask_eq_decr_exp push_bit_eq_mult)

lemma bit_BIGENDIAN_TO_HOST:
  assumes "n < 8"
  shows "bit (BIGENDIAN_TO_HOST x) n = bit x (24 + n)" and "bit (BIGENDIAN_TO_HOST x) (8 + n) = bit x (16 + n)"
    and "bit (BIGENDIAN_TO_HOST x) (16 + n) = bit x (8 + n)" and "bit (BIGENDIAN_TO_HOST x) (24 + n) = bit x n"
  unfolding BIGENDIAN_TO_HOST_def swap_word_bytes_def Let_def byte_masks
  using assms by (simp_all add: bit_simps)

lemma bit_host_word:
  assumes "n < 8"
  shows "bit (host_word [a, b, c, d]) n = bit a n" and "bit (host_word [a, b, c, d]) (8 + n) = bit b n"
    and "bit (host_word [a, b, c, d]) (16 + n) = bit c n" and "bit (host_word [a, b, c, d]) (24 + n) = bit d n"
proof -
  have "\<not> bit x (8 + m)" for x :: unt8 and m using bit_imp_le_length [of x "8 + m"] by auto
  moreover have "16 + m = 8 + (8 + m)" "24 + m = 8 + (16 + m)" for m :: nat by simp_all
  ultimately have "\<not> bit x (8 + m)" "\<not> bit x (16 + m)" "\<not> bit x (24 + m)" for x :: unt8 and m by metis+
  then show "bit (host_word [a, b, c, d]) n = bit a n" and "bit (host_word [a, b, c, d]) (8 + n) = bit b n"
    and "bit (host_word [a, b, c, d]) (16 + n) = bit c n" and "bit (host_word [a, b, c, d]) (24 + n) = bit d n"
    using assms by (simp_all add: bit_simps)
qed

lemma BIGENDIAN_be32: "BIGENDIAN_TO_HOST (host_word (be32 w)) = w"
proof (rule bit_word_eqI)
  fix n :: nat
  assume n: "n < LENGTH(32)"
  define k where "k = n mod 8"
  have k: "k < 8" by (simp add: k_def)
  have "n div 8 = 0 \<or> n div 8 = 1 \<or> n div 8 = 2 \<or> n div 8 = 3" using n by auto
  then have "n = k \<or> n = 8 + k \<or> n = 16 + k \<or> n = 24 + k"
  proof -
    have "n = n div 8 * 8 + k" unfolding k_def by simp
    then show ?thesis using \<open>n div 8 = 0 \<or> n div 8 = 1 \<or> n div 8 = 2 \<or> n div 8 = 3\<close> by (elim disjE) simp_all
  qed
  moreover have "bit (BIGENDIAN_TO_HOST (host_word (be32 w))) k = bit w k"
    "bit (BIGENDIAN_TO_HOST (host_word (be32 w))) (8 + k) = bit w (8 + k)"
    "bit (BIGENDIAN_TO_HOST (host_word (be32 w))) (16 + k) = bit w (16 + k)"
    "bit (BIGENDIAN_TO_HOST (host_word (be32 w))) (24 + k) = bit w (24 + k)"
    unfolding be32_def bit_BIGENDIAN_TO_HOST [OF k] bit_host_word [OF k] using k by (simp_all add: bit_simps)
  ultimately show "bit (BIGENDIAN_TO_HOST (host_word (be32 w))) n \<longleftrightarrow> bit w n" by metis
qed

section \<open>Picklehashes in hexadecimal\<close>

lemma hex_digits_all: "\<forall>n \<in> set [0..<16]. hex (hex_digit n) = int n"
  by code_simp

lemma hex_of_byte_back: "word_of_int (hex (hex_digit (unat b div 16)) * 16 + hex (hex_digit (unat b mod 16))) = (b :: unt8)"
proof -
  have "unat b < 256" using unsigned_less [of b] by simp
  then have "unat b div 16 < 16" "unat b mod 16 < 16" by auto
  then have h: "hex (hex_digit (unat b div 16)) = int (unat b div 16)" "hex (hex_digit (unat b mod 16)) = int (unat b mod 16)"
    using hex_digits_all by auto
  have "int (unat b div 16) * 16 + int (unat b mod 16) = int (unat b)" by presburger
  then show ?thesis unfolding h by simp
qed

lemma hex_digits_nth:
  "i < length bs \<Longrightarrow> concat (map hex_of_byte bs) ! (2 * i) = hex_digit (unat (bs ! i) div 16) \<and>
     concat (map hex_of_byte bs) ! (2 * i + 1) = hex_digit (unat (bs ! i) mod 16)"
proof (induction bs arbitrary: i)
  case (Cons b bs)
  then show ?case by (cases i) (auto simp: hex_of_byte_def)
qed simp

lemma length_hex_digits [simp]: "length (concat (map hex_of_byte bs)) = 2 * length bs"
  by (induction bs) (simp_all add: hex_of_byte_def)

text \<open>
  C23. The hexadecimal notation of a picklehash that the runtime prints is the one it reads: behind
  the opening bracket, the sixteen bytes come back from their digits.
\<close>

theorem picklehash_comes_back_from_hex:
  assumes "length bs = PICKLEHASH_BYTES"
  shows "picklehash_from_hex (tl (picklehash_to_hex_string bs)) = map Some bs"
proof (rule nth_equalityI)
  show "length (picklehash_from_hex (tl (picklehash_to_hex_string bs))) = length (map Some bs)"
    using assms by (simp add: picklehash_from_hex_def)
  fix i assume "i < length (picklehash_from_hex (tl (picklehash_to_hex_string bs)))"
  then have i: "i < length bs" using assms by (simp add: picklehash_from_hex_def)
  let ?ds = "concat (map hex_of_byte bs)"
  have l: "2 * i + 1 < length ?ds" using i by simp
  have "(?ds @ [93]) ! (2 * i) = ?ds ! (2 * i)" "(?ds @ [93]) ! (2 * i + 1) = ?ds ! (2 * i + 1)"
    using l unfolding nth_append by simp_all
  then show "picklehash_from_hex (tl (picklehash_to_hex_string bs)) ! i = map Some bs ! i"
    using hex_digits_nth [OF i] hex_of_byte_back [of "bs ! i"] i assms l
    by (simp add: picklehash_from_hex_def picklehash_to_hex_string_def)
qed


theorem picklehash_comes_back_from_hex_witness:
  "\<exists>bs. length bs = PICKLEHASH_BYTES \<and> picklehash_from_hex (tl (picklehash_to_hex_string bs)) = map Some bs"
  using picklehash_comes_back_from_hex [of "replicate 16 (0xA1 :: unt8)"] by (intro exI [of _ "replicate 16 0xA1"]) (simp add: PICKLEHASH_BYTES_def)

section \<open>Units and their files\<close>

record unit_file =
  cu_magic :: "unt8 list"
  cu_imports :: "(unt8 list \<times> import_tree) list"
  cu_export :: "unt8 list option"
  cu_dependency_info :: "unt8 list"
  cu_inlinable :: "unt8 list"
  cu_reserved :: "unt8 list"
  cu_pad :: "unt8 list"
  cu_literals :: "unt8 list"
  cu_code :: "(vunt \<times> unt8 list) list"
  cu_symbols :: "unt8 list"

fun tree_leaves :: "import_tree \<Rightarrow> nat" and kids_leaves :: "(vunt \<times> import_tree) list \<Rightarrow> nat" where
  "tree_leaves (Node kids) = (if kids = [] then 1 else kids_leaves kids)"
| "kids_leaves [] = 0"
| "kids_leaves ((selector, t) # kids) = tree_leaves t + kids_leaves kids"

definition import_count :: "unit_file \<Rightarrow> nat" where
  "import_count cu = sum_list (map (tree_leaves \<circ> snd) (cu_imports cu))"

definition word_of_length :: "unt8 list \<Rightarrow> unt8 list" where
  "word_of_length bs = be32 (word_of_nat (length bs))"

definition segment_bytes :: "vunt \<times> unt8 list \<Rightarrow> unt8 list" where
  "segment_bytes seg = word_of_length (snd seg) @ be32 (fst seg) @ snd seg"

definition code_area :: "unit_file \<Rightarrow> unt8 list" where
  "code_area cu = segment_bytes (0, cu_literals cu) @ concat (map segment_bytes (cu_code cu))"

definition export_bytes :: "unit_file \<Rightarrow> unt8 list" where
  "export_bytes cu = (case cu_export cu of None \<Rightarrow> [] | Some h \<Rightarrow> h)"

definition header_bytes :: "unit_file \<Rightarrow> unt8 list" where
  "header_bytes cu =
     cu_magic cu @ be32 (word_of_nat (import_count cu)) @ be32 (if cu_export cu = None then 0 else 1) @
     word_of_length (imports_bytes (cu_imports cu)) @ word_of_length (cu_dependency_info cu) @ word_of_length (cu_inlinable cu) @
     word_of_length (cu_reserved cu) @ word_of_length (cu_pad cu) @ word_of_length (code_area cu) @ word_of_length (cu_symbols cu)"

definition before_code :: "unit_file \<Rightarrow> unt8 list" where
  "before_code cu = header_bytes cu @ imports_bytes (cu_imports cu) @ export_bytes cu @ cu_dependency_info cu @ cu_inlinable cu @
     cu_reserved cu @ cu_pad cu"

definition unit_bytes :: "unit_file \<Rightarrow> unt8 list" where
  "unit_bytes cu = before_code cu @ code_area cu @ cu_symbols cu"

definition unit_ok :: "unit_file \<Rightarrow> bool" where
  "unit_ok cu \<longleftrightarrow> length (cu_magic cu) = 16 \<and> (\<forall>h. cu_export cu = Some h \<longrightarrow> length h = PICKLEHASH_BYTES)"

text \<open>What linking a unit is, whatever its file looks like.\<close>

primrec run_code :: "linker \<Rightarrow> (vunt \<times> unt8 list) list \<Rightarrow> val \<Rightarrow> val list \<Rightarrow> loader \<Rightarrow> (val list \<times> loader \<times> val) result option" where
  "run_code k [] mythryl_result extra st = Some (Inr (extra, st, mythryl_result))"
| "run_code k (seg # segs) mythryl_result extra st =
     and_then (allocate_nonempty_code_chunk k (word_of_nat (length (snd seg))) st) (\<lambda>(st, code_chunk).
     and_then (run_code_chunk k (code_chunk + fst seg) mythryl_result extra
          ((load_task st)\<lparr>task_heap := put_bytes code_chunk (snd seg) (task_heap (load_task st))\<rparr>)) (\<lambda>(extra, t, mythryl_result).
       run_code k segs mythryl_result extra (update_load_task t st)))"

definition build_literals :: "linker \<Rightarrow> unt8 list \<Rightarrow> val list \<Rightarrow> task_state \<Rightarrow> (val list \<times> task_state \<times> val) result option" where
  "build_literals k literals roots t =
     (if literals = [] then Some (Inr (roots, t, HEAP_VOID))
      else with_register_roots (make_package_literals_via_bytecode_interpreter__may_heapclean
             (heapcleaner (run_time k)) (literal_statics k) literals) roots t)"

definition link_unit :: "linker \<Rightarrow> unit_file \<Rightarrow> val list \<Rightarrow> val list \<Rightarrow> loader \<Rightarrow> (val list \<times> loader) result option" where
  "link_unit k cu imports_found extra st =
     (let (t, import_record) = in_heap (make_record_of (imports_found @ [HEAP_NIL])) (load_task st)
      in and_then (build_literals k (cu_literals cu) (import_record # extra) t) (\<lambda>(roots, t, literals).
         let (t, arg) = in_heap (with_last_slot (word_of_nat (import_count cu) + 1) (hd roots) literals) t
         in and_then (Some (clean_with_roots_if_short k (of_nat PICKLEHASH_BYTES + REC_BYTESIZE 5) (arg # tl roots) t)) (\<lambda>(roots, t).
            and_then (run_code k (cu_code cu) (hd roots) (tl roots) (update_load_task t st)) (\<lambda>(extra, st, exports).
              case cu_export cu of
                None \<Rightarrow> Some (Inr (extra, st))
              | Some h \<Rightarrow> and_then (register_compiled_file_exports__may_heapclean k h exports extra (load_task st))
                  (\<lambda>(extra, t). Some (Inr (extra, update_load_task t st)))))))"

section \<open>Reading a unit\<close>

lemma and_then_assoc: "and_then (and_then m f) g = and_then m (\<lambda>x. and_then (f x) g)"
  by (cases m rule: option.exhaust) (auto simp: and_then_def split: sum.splits)

lemma and_then_cong: "(\<And>x. f x = g x) \<Longrightarrow> and_then m f = and_then m g"
  by (cases m rule: option.exhaust) (auto simp: and_then_def split: sum.splits)


lemma take_rest [simp]: "length xs = n \<Longrightarrow> take n (file_rest (f\<lparr>file_rest := xs @ bs\<rparr>)) = xs" and
  drop_rest: "length xs = n \<Longrightarrow> drop n (file_rest (f\<lparr>file_rest := xs @ bs\<rparr>)) = bs"
  by simp_all

lemma read_int1_be32: "read_int1 old (f\<lparr>file_rest := be32 w @ bs\<rparr>) = Inr (Some (host_word (be32 w)), f\<lparr>file_rest := bs\<rparr>)"
  by (simp add: read_int1_def)

lemma run_code_segments_ok:
  assumes "length (concat (map segment_bytes segs)) < 2 ^ 31"
  shows "run_code_segments k (word_of_nat (length (concat (map segment_bytes segs)))) sz entry v
      (f\<lparr>file_rest := concat (map segment_bytes segs) @ bs\<rparr>) extra st = run_code k segs v extra st"
  using assms
proof (induction segs arbitrary: sz entry v extra st)
  case Nil
  then show ?case by (subst run_code_segments.simps) simp
next
  case (Cons seg segs)
  let ?m = "length (concat (map segment_bytes segs))" and ?n = "length (snd seg)"
  have len: "length (concat (map segment_bytes (seg # segs))) = ?n + 8 + ?m" by (simp add: segment_bytes_def word_of_length_def)
  have lt: "?n + 8 + ?m < 2 ^ 31" "?n < 2 ^ 31" "?m < 2 ^ 31" using Cons.prems unfolding len by simp_all
  have "sint (word_of_nat (?n + 8 + ?m) :: vunt) = int (?n + 8 + ?m)" by (rule sint_word_of_nat [OF lt(1)])
  moreover have "sint (word_of_nat ?m :: vunt) = int ?m" by (rule sint_word_of_nat [OF lt(3)])
  moreover have "word_of_nat (?n + 8 + ?m) - (word_of_nat ?n + 8) = (word_of_nat ?m :: vunt)" by simp
  moreover have "unat (word_of_nat ?n :: vunt) = ?n" by (rule unat_word_of_nat) (use lt(2) in simp)
  moreover have "concat (map segment_bytes (seg # segs)) @ bs =
      be32 (word_of_nat ?n) @ be32 (fst seg) @ snd seg @ concat (map segment_bytes segs) @ bs"
    by (simp add: segment_bytes_def word_of_length_def)
  ultimately show ?case unfolding len
    using Cons.IH [OF lt(3)] by (subst run_code_segments.simps) (simp add: read_int1_be32 known_def BIGENDIAN_be32 Let_def case_prod_unfold)
qed


lemma length_code_area: "length (code_area cu) = length (cu_literals cu) + 8 + length (concat (map segment_bytes (cu_code cu)))"
  by (simp add: code_area_def segment_bytes_def word_of_length_def)

lemma load_literals_ok:
  assumes "length (code_area cu) < 2 ^ 31" and "malloc_succeeds k (int (length (cu_literals cu)))"
  shows "load_literals k (word_of_nat (length (code_area cu))) (f\<lparr>file_rest := code_area cu @ bs\<rparr>) roots t =
    and_then (build_literals k (cu_literals cu) roots t) (\<lambda>(roots, t, v).
      Some (Inr (word_of_nat (length (concat (map segment_bytes (cu_code cu)))), word_of_nat (length (cu_literals cu)),
        Some (host_word (be32 0)), f\<lparr>file_rest := concat (map segment_bytes (cu_code cu)) @ bs\<rparr>, roots, t, v)))"
proof -
  let ?m = "length (concat (map segment_bytes (cu_code cu)))" and ?n = "length (cu_literals cu)"
  have lt: "?n < 2 ^ 31" "?m < 2 ^ 31" using assms(1) unfolding length_code_area by simp_all
  have "sint (word_of_nat ?n :: vunt) = int ?n" "sint (word_of_nat ?m :: vunt) = int ?m"
    using sint_word_of_nat [OF lt(1)] sint_word_of_nat [OF lt(2)] by simp_all
  moreover have "word_of_nat (?n + 8 + ?m) - (word_of_nat ?n + 8) = (word_of_nat ?m :: vunt)" by simp
  moreover have "unat (word_of_nat ?n :: vunt) = ?n" by (rule unat_word_of_nat) (use lt(1) in simp)
  moreover have "code_area cu @ bs =
      be32 (word_of_nat ?n) @ be32 0 @ cu_literals cu @ concat (map segment_bytes (cu_code cu)) @ bs"
    by (simp add: code_area_def segment_bytes_def word_of_length_def)
  ultimately show ?thesis unfolding length_code_area
    using assms(2) by (simp add: load_literals_def read_int1_be32 known_def BIGENDIAN_be32 Let_def all_bytes_def build_literals_def)
qed

definition header_of :: "unit_file \<Rightarrow> compiledfile_header" where
  "header_of cu =
     \<lparr>magic = cu_magic cu,
      number_of_imported_picklehashes = word_of_nat (import_count cu),
      number_of_exported_picklehashes = (if cu_export cu = None then 0 else 1),
      bytes_of_import_tree = word_of_nat (length (imports_bytes (cu_imports cu))),
      bytes_of_dependency_info = word_of_nat (length (cu_dependency_info cu)),
      bytes_of_inlinable_code = word_of_nat (length (cu_inlinable cu)),
      reserved = word_of_nat (length (cu_reserved cu)),
      pad = word_of_nat (length (cu_pad cu)),
      bytes_of_compiled_code = word_of_nat (length (code_area cu)),
      bytes_of_symbolmapstack = word_of_nat (length (cu_symbols cu))\<rparr>"

lemma read_header_ok:
  assumes "unit_ok cu"
  shows "read_compiledfile_header (f\<lparr>file_rest := header_bytes cu @ bs\<rparr>) = Inr (header_of cu, f\<lparr>file_rest := bs\<rparr>)"
proof -
  have m: "length (cu_magic cu) = 16" using assms by (simp add: unit_ok_def)
  then have len: "length (header_bytes cu) = SIZEOF_COMPILEDFILE_HEADER"
    by (simp add: header_bytes_def word_of_length_def SIZEOF_COMPILEDFILE_HEADER_def)
  have "header_field (header_bytes cu) 16 = word_of_nat (import_count cu)"
    "header_field (header_bytes cu) 20 = (if cu_export cu = None then 0 else 1)"
    "header_field (header_bytes cu) 24 = word_of_nat (length (imports_bytes (cu_imports cu)))"
    "header_field (header_bytes cu) 28 = word_of_nat (length (cu_dependency_info cu))"
    "header_field (header_bytes cu) 32 = word_of_nat (length (cu_inlinable cu))"
    "header_field (header_bytes cu) 36 = word_of_nat (length (cu_reserved cu))"
    "header_field (header_bytes cu) 40 = word_of_nat (length (cu_pad cu))"
    "header_field (header_bytes cu) 44 = word_of_nat (length (code_area cu))"
    "header_field (header_bytes cu) 48 = word_of_nat (length (cu_symbols cu))"
    using m by (simp_all add: header_field_def header_bytes_def word_of_length_def BIGENDIAN_be32)
  moreover have "take 16 (header_bytes cu) = cu_magic cu" using m by (simp add: header_bytes_def)
  ultimately show ?thesis using len by (simp add: read_compiledfile_header_def all_bytes_def header_of_def)
qed

lemma length_selected:
  "length (selected m v t) = tree_leaves t" "length (selected_kids m v kids) = kids_leaves kids"
  by (induction m v t and m v kids rule: selected_selected_kids.induct) simp_all

lemma length_imported: "length (imported m es wanted) = sum_list (map (tree_leaves \<circ> snd) wanted)"
  by (induction m es wanted rule: imported.induct) (simp_all add: length_selected)

lemma seek_to_code_ok:
  assumes "unit_ok cu" and "length before + length (unit_bytes cu) < 2 ^ 31"
    and "file_contents f = before @ unit_bytes cu @ after"
    and "bytes_of_import_tree hdr = word_of_nat (length (imports_bytes (cu_imports cu)))"
    and "bytes_of_dependency_info hdr = word_of_nat (length (cu_dependency_info cu))"
    and "bytes_of_inlinable_code hdr = word_of_nat (length (cu_inlinable cu))"
    and "reserved hdr = word_of_nat (length (cu_reserved cu))" and "pad hdr = word_of_nat (length (cu_pad cu))"
  shows "seek_to_code (word_of_nat (length before)) hdr (if cu_export cu = None then 0 else of_nat PICKLEHASH_BYTES) f =
    Inr (f\<lparr>file_rest := code_area cu @ cu_symbols cu @ after\<rparr>)"
proof -
  have e: "(if cu_export cu = None then 0 else of_nat PICKLEHASH_BYTES) = (word_of_nat (length (export_bytes cu)) :: vunt)"
    using assms(1) by (auto simp: unit_ok_def export_bytes_def split: option.splits)
  have "length (header_bytes cu) = SIZEOF_COMPILEDFILE_HEADER"
    using assms(1) by (simp add: unit_ok_def header_bytes_def word_of_length_def SIZEOF_COMPILEDFILE_HEADER_def)
  then have off: "word_of_nat (length before) + of_nat SIZEOF_COMPILEDFILE_HEADER + bytes_of_import_tree hdr + word_of_nat (length (export_bytes cu))
      + bytes_of_dependency_info hdr + bytes_of_inlinable_code hdr + reserved hdr + pad hdr =
      (word_of_nat (length before + length (before_code cu)) :: vunt)"
    by (simp add: assms(4-8) before_code_def)
  have lt: "length before + length (before_code cu) < 2 ^ 31" using assms(2) by (simp add: unit_bytes_def)
  have "unat (word_of_nat (length before + length (before_code cu)) :: vunt) = length before + length (before_code cu)"
    by (rule unat_word_of_nat) (use lt in simp)
  then show ?thesis unfolding seek_to_code_def e off
    using sint_word_of_nat [OF lt] assms(3) by (simp add: fseek_def unit_bytes_def)
qed


text \<open>
  C4. The linker reads the files it is meant to read. A unit whose file, alone or at an offset within a
  library, is laid out as the format's comment says is linked as that unit: with the values it
  imports, the literals its first segment builds in the last slot of the record of imports, its
  code segments run in order, each with the result of the one before, and the result of the last
  registered under the file's picklehash, where it has one. Where the buffer is short of room for the
  record of imports, the heap is cleaned first, with the registers and the extra roots as its roots,
  and the unit is linked with what it imports from the heap as it is then. (The
  files it imports from are registered and the trees select within their exports, the buffer then has
  room for the record, and the host gives memory for the literals; the file ends before \<open>2 ^ 31\<close>.) The
  bytes before and after the unit, and those of its other sections, play no part in it.
\<close>

theorem a_compiled_file_is_linked_as_its_unit:
  fixes st :: loader
  assumes unit: "unit_ok cu" "length before + length (unit_bytes cu) < 2 ^ 31"
    and named: "split_library_name filename = (name, word_of_nat (length before))"
      "file_named k name = Some (before @ unit_bytes cu @ after)" "malloc_succeeds k (int (length (cu_literals cu)))"
    and clean: "cleaned_for k (import_count cu + 1) extra (load_task st) extra' t"
    and found: "available U (task_words t) es (cu_imports cu)" "registry U (task_words t) (task_words t (pickle_list_refcell k)) es"
    and space: "room (import_count cu + 2) (task_heap t)"
      "apart_from_buffer (insert (pickle_list_refcell k) U) (task_heap t) (import_count cu + 2)"
  shows "load_compiled_file__may_heapclean k filename extra st =
    link_unit k cu (imported (task_words t) es (cu_imports cu)) extra' (update_load_task t st)"
proof -
  define F where "F = from_start (before @ unit_bytes cu @ after)"
  let ?t = t and ?n = "import_count cu"
  let ?vs = "imported (task_words ?t) es (cu_imports cu)"
  have F: "file_contents F = before @ unit_bytes cu @ after" by (simp add: F_def from_start_def)
  have open_it: "open_compiled_file k filename = Inr (word_of_nat (length before), F\<lparr>file_rest := unit_bytes cu @ after\<rparr>)"
  proof (cases "before = []")
    case True
    then show ?thesis using named(1,2) by (simp add: open_compiled_file_def open_file_def from_start_def F_def)
  next
    case False
    have lt: "length before < 2 ^ 31" using unit(2) by simp
    have un: "unat (word_of_nat (length before) :: vunt) = length before" by (rule unat_word_of_nat) (use lt in simp)
    then have "(word_of_nat (length before) :: vunt) \<noteq> 0" using False by (metis length_0_conv unsigned_0)
    then show ?thesis using named(1,2) sint_word_of_nat [OF lt] un
      by (simp add: open_compiled_file_def open_file_def fseek_def from_start_def F_def)
  qed
  let ?hdr = "header_of cu"
  note hdr = read_header_ok [OF unit(1), where f = F]
  have fields: "number_of_imported_picklehashes ?hdr = word_of_nat ?n" "bytes_of_compiled_code ?hdr = word_of_nat (length (code_area cu))"
    by (simp_all add: header_of_def)
  let ?tail = "cu_dependency_info cu @ cu_inlinable cu @ cu_reserved cu @ cu_pad cu @ code_area cu @ cu_symbols cu @ after"
  have layout: "unit_bytes cu @ after = header_bytes cu @ imports_bytes (cu_imports cu) @ export_bytes cu @ ?tail"
    by (simp add: unit_bytes_def before_code_def)
  have made: "make_import_record k (word_of_nat ?n + 1) (F\<lparr>file_rest := imports_bytes (cu_imports cu) @ bs\<rparr>) extra (load_task st) =
      (let (u, r) = in_heap (make_record_of (?vs @ [HEAP_NIL])) ?t in Some (Inr (F\<lparr>file_rest := bs\<rparr>, extra', u, r)))" for bs
    using make_import_record_ok [OF clean found [unfolded task_words_def] _ space] by (simp add: length_imported import_count_def task_words_def add.commute [of _ "1 :: vunt"])
  have export: "read_export_picklehash ?hdr (F\<lparr>file_rest := export_bytes cu @ bs\<rparr>) = Inr (cu_export cu, F\<lparr>file_rest := bs\<rparr>)" for bs
    using unit(1) by (auto simp: header_of_def read_export_picklehash_def export_bytes_def unit_ok_def split: option.splits)
  have sought: "seek_to_code (word_of_nat (length before)) ?hdr (if cu_export cu = None then 0 else of_nat PICKLEHASH_BYTES) (F\<lparr>file_rest := bs\<rparr>) =
      Inr (F\<lparr>file_rest := code_area cu @ cu_symbols cu @ after\<rparr>)" for bs
    using seek_to_code_ok [OF unit, of "F\<lparr>file_rest := bs\<rparr>" after ?hdr] F by (simp add: header_of_def)
  have code: "length (code_area cu) < 2 ^ 31" using unit(2) by (simp add: unit_bytes_def)
  then have segs: "length (concat (map segment_bytes (cu_code cu))) < 2 ^ 31" unfolding length_code_area by simp
  obtain u r where ur: "in_heap (make_record_of (?vs @ [HEAP_NIL])) ?t = (u, r)" by fastforce
  note lits = load_literals_ok [OF code named(3)]
  have upd: "load_task (update_load_task t st) = t" "update_load_task x (update_load_task t st) = update_load_task x st" for x
    by (simp_all add: update_load_task_def)
  show ?thesis
    unfolding load_compiled_file__may_heapclean_def link_unit_def open_it layout ur upd
    apply (simp add: hdr fields made export sought lits and_then_assoc ur)
    apply (rule and_then_cong)
    subgoal for x by (cases x) (simp add: run_code_segments_ok [OF segs])
    done
qed


text \<open>A file that imports one value, has no literals and one byte of code.\<close>

definition example_unit :: unit_file where
  "example_unit = \<lparr>cu_magic = replicate 16 77, cu_imports = [(zero_hash, second_export)], cu_export = Some (replicate 16 1),
     cu_dependency_info = [1, 2], cu_inlinable = [3], cu_reserved = [], cu_pad = [0], cu_literals = [], cu_code = [(0, [0x90])],
     cu_symbols = [4, 5]\<rparr>"

definition library_linker :: linker where
  "library_linker = example_linker\<lparr>file_named := (\<lambda>_. Some ([9, 9, 9] @ unit_bytes example_unit @ [8])), malloc_succeeds := (\<lambda>_. True)\<rparr>"

definition short_library_linker :: linker where
  "short_library_linker = short_linker\<lparr>file_named := (\<lambda>_. Some ([9, 9, 9] @ unit_bytes example_unit @ [8])), malloc_succeeds := (\<lambda>_. True)\<rparr>"

definition example_loader :: loader where
  "example_loader = \<lparr>load_task = linking_task, load_hugeheap = \<lparr>hh_chunks = Map.empty, hh_fresh = 1, hh_quires = Map.empty,
     hh_first_quire = 0, hh_quire_count = 0, hh_freelist = 0, hh_books = (\<lambda>_. 0)\<rparr>, code_chunk_lists = (\<lambda>_. 0)\<rparr>"

lemma write_ul_small: "n < 128 \<Longrightarrow> write_ul n = [word_of_nat n]"
  by (simp add: write_ul_def recur_write_ul.simps [of 0])

lemma example_unit_length: "length (unit_bytes example_unit) < 200"
proof -
  have h: "length (header_bytes example_unit) = 52"
    unfolding header_bytes_def word_of_length_def length_append length_be by (simp add: example_unit_def)
  have i: "length (imports_bytes (cu_imports example_unit)) = 19"
    by (simp add: example_unit_def second_export_def zero_hash_def write_ul_small)
  have c: "length (code_area example_unit) = 17"
    unfolding length_code_area by (simp add: example_unit_def segment_bytes_def word_of_length_def)
  have "length (unit_bytes example_unit) = 110"
    unfolding unit_bytes_def before_code_def length_append h i c by (simp add: example_unit_def export_bytes_def)
  then show ?thesis by simp
qed

lemma cleaned_for_same: "run_time k = run_time k' \<Longrightarrow> cleaned_for k n extra t extra' t' = cleaned_for k' n extra t extra' t'"
  by (simp add: cleaned_for_def)

lemma example_name: "split_library_name [108, 64, 51, 58, 102] = ([108], 3)"
  by (simp add: split_library_name_def after_first_def strtoul_def is_space_def base_and_digits_def number_value_def digit_value_def
      word_le_nat_alt Let_def)

theorem a_compiled_file_is_linked_as_its_unit_witness:
  "load_compiled_file__may_heapclean library_linker [108, 64, 51, 58, 102] [3000] example_loader =
    link_unit library_linker example_unit [0x6000] [3000] example_loader \<and>
   load_compiled_file__may_heapclean short_library_linker [108, 64, 51, 58, 102] [3000] example_loader =
    link_unit short_library_linker example_unit [0x6100] [3100] (update_load_task moved_task example_loader)"
proof
  have u: "unit_ok example_unit" by (simp add: unit_ok_def example_unit_def PICKLEHASH_BYTES_def)
  have i: "import_count example_unit = 1" "cu_imports example_unit = [(zero_hash, second_export)]"
    by (simp_all add: import_count_def example_unit_def second_export_def)
  have l: "length [9, 9, 9 :: unt8] + length (unit_bytes example_unit) < 2 ^ 31" using example_unit_length by simp
  have n: "split_library_name [108, 64, 51, 58, 102] = ([108], word_of_nat (length [9, 9, 9 :: unt8]))" using example_name by simp
  have e: "load_task example_loader = linking_task" by (simp add: example_loader_def)
  have f: "file_named library_linker [108] = Some ([9, 9, 9] @ unit_bytes example_unit @ [8])"
    "malloc_succeeds library_linker (int (length (cu_literals example_unit)))" by (simp_all add: library_linker_def)
  have c: "cleaned_for library_linker (import_count example_unit + 1) [3000] (load_task example_loader) [3000] linking_task"
    unfolding i(1) e one_add_one by (subst cleaned_for_same [of _ example_linker], simp add: library_linker_def) (rule linking_cleaned)
  have a: "available linking_words (task_words linking_task) [(zero_hash, 0x4000)] (cu_imports example_unit)"
    "registry linking_words (task_words linking_task) (task_words linking_task (pickle_list_refcell library_linker)) [(zero_hash, 0x4000)]"
    unfolding i(2) using linking_available(1) linking_registry by (simp_all add: library_linker_def)
  have s: "room (import_count example_unit + 2) (task_heap linking_task)"
    "apart_from_buffer (insert (pickle_list_refcell library_linker) linking_words) (task_heap linking_task) (import_count example_unit + 2)"
    unfolding i(1) using linking_room linking_apart by (simp_all add: library_linker_def)
  have "update_load_task linking_task example_loader = example_loader" unfolding e [symmetric] by (simp add: update_load_task_def)
  then show "load_compiled_file__may_heapclean library_linker [108, 64, 51, 58, 102] [3000] example_loader =
      link_unit library_linker example_unit [0x6000] [3000] example_loader"
    using a_compiled_file_is_linked_as_its_unit [OF u l n f c a s] unfolding i(2) linking_available(2) by simp
  have f: "file_named short_library_linker [108] = Some ([9, 9, 9] @ unit_bytes example_unit @ [8])"
    "malloc_succeeds short_library_linker (int (length (cu_literals example_unit)))" by (simp_all add: short_library_linker_def)
  have c: "cleaned_for short_library_linker (import_count example_unit + 1) [3000] (load_task example_loader) [3100] moved_task"
    unfolding i(1) e one_add_one by (subst cleaned_for_same [of _ short_linker], simp add: short_library_linker_def)
      (use short_linker_cleans [of 2 "[]"] in simp)
  have a: "available linking_words (task_words moved_task) [(zero_hash, 0x4000)] (cu_imports example_unit)"
    "registry linking_words (task_words moved_task) (task_words moved_task (pickle_list_refcell short_library_linker)) [(zero_hash, 0x4000)]"
    unfolding i(2) using moved_available(1,2) by (simp_all add: short_library_linker_def)
  have s: "room (import_count example_unit + 2) (task_heap moved_task)"
    "apart_from_buffer (insert (pickle_list_refcell short_library_linker) linking_words) (task_heap moved_task) (import_count example_unit + 2)"
    unfolding i(1) using moved_space by (simp_all add: short_library_linker_def)
  show "load_compiled_file__may_heapclean short_library_linker [108, 64, 51, 58, 102] [3000] example_loader =
      link_unit short_library_linker example_unit [0x6100] [3100] (update_load_task moved_task example_loader)"
    using a_compiled_file_is_linked_as_its_unit [OF u l n f c a s] unfolding i(2) moved_available(3) .
qed

end
