(* ===== verification/Boot_List_Facts.thy ===== *)
theory Boot_List_Facts
  imports Linker_Facts
begin

text \<open>
  Reading the list of files to load: the names on its lines become a Mythryl list of Mythryl
  strings, from which the C code that loads the files gets the names back, in their order.
\<close>

section \<open>Lines\<close>

definition list_line :: "unt8 list \<Rightarrow> unt8 list" where
  "list_line l = l @ [10]"

text \<open>The names among the lines: blanks before them are dropped, and so are empty lines and comments.\<close>

definition listed :: "unt8 list list \<Rightarrow> unt8 list list" where
  "listed ls = filter (\<lambda>p. p \<noteq> [] \<and> hd p \<noteq> 35) (map skip_blanks ls)"

definition line_ok :: "int \<Rightarrow> unt8 list \<Rightarrow> bool" where
  "line_ok max_len l \<longleftrightarrow> 0 \<notin> set l \<and> 10 \<notin> set l \<and> int (length l) + 2 \<le> max_len \<and> length l < 2048"

lemma fgets_line:
  assumes "line_ok n l" and "file_rest f = list_line l @ rest"
  shows "fgets n f = Some (list_line l, f\<lparr>file_rest := rest\<rparr>)"
proof -
  have l: "\<forall>b \<in> set l. b \<noteq> 10" using assms(1) by (auto simp: line_ok_def)
  then have "next_line (file_rest f) = list_line l"
    unfolding assms(2) by (simp add: next_line_def list_line_def takeWhile_append2 dropWhile_append2)
  moreover have "length (list_line l) \<le> nat n - 1"
  proof -
    have "int (length l) + 2 \<le> n" using assms(1) by (simp add: line_ok_def)
    then have "length l + 2 \<le> nat n" by linarith
    then show ?thesis by (simp add: list_line_def)
  qed
  then have "take (nat n - 1) (list_line l) = list_line l" by (rule take_all)
  ultimately show ?thesis using assms by (simp add: fgets_def Let_def line_ok_def list_line_def)
qed

lemma fgets_end: "file_rest f = [] \<Longrightarrow> 1 < n \<Longrightarrow> fgets n f = None"
  by (simp add: fgets_def next_line_def)

lemma skip_blanks_line: "skip_blanks (list_line l) = skip_blanks l @ [10]"
  by (induction l) (simp_all add: skip_blanks_def list_line_def)

lemma c_string_line: "line_ok n l \<Longrightarrow> c_string (list_line l) = list_line l"
  by (auto simp: c_string_def line_ok_def list_line_def takeWhile_eq_all_conv)

lemma name_on_line_ok:
  assumes "line_ok n l"
  shows "name_on_line (list_line l) = Inr (if skip_blanks l = [] \<or> hd (skip_blanks l) = 35 then None else Some (skip_blanks l))"
proof -
  let ?p = "skip_blanks l"
  note c = c_string_line [OF assms]
  have "set ?p \<subseteq> set l" unfolding skip_blanks_def by (auto dest: set_dropWhileD)
  then have "10 \<notin> set ?p" using assms by (auto simp: line_ok_def)
  then show ?thesis
    by (cases ?p) (auto simp: name_on_line_def c skip_blanks_line begins_with_def chars_def Let_def)
qed

lemma read_header_line:
  assumes "line_ok BUF_LEN l" and "file_rest f = list_line l @ rest"
  shows "skip_blanks l = [] \<Longrightarrow> read_list_header max_files max_len f = Inr (max_files, max_len, f\<lparr>file_rest := rest\<rparr>)"
    and "begins_with (skip_blanks l) (chars ''#'') \<Longrightarrow>
      read_list_header max_files max_len f = read_list_header max_files max_len (f\<lparr>file_rest := rest\<rparr>)"
    and "skip_blanks l = chars ''FILES='' @ digits \<Longrightarrow>
      read_list_header max_files max_len f = read_list_header (sint (strtoul (digits @ [10]))) max_len (f\<lparr>file_rest := rest\<rparr>)"
    and "skip_blanks l = chars ''MAX_LINE_LENGTH='' @ digits \<Longrightarrow>
      read_list_header max_files max_len f = read_list_header max_files (sint (strtoul (digits @ [10]) + 2)) (f\<lparr>file_rest := rest\<rparr>)"
proof -
  let ?p = "skip_blanks l @ [10]"
  have step: "read_list_header max_files max_len f =
      (if begins_with ?p [10] then Inr (max_files, max_len, f\<lparr>file_rest := rest\<rparr>)
       else if begins_with ?p (chars ''#'') then read_list_header max_files max_len (f\<lparr>file_rest := rest\<rparr>)
       else if begins_with ?p (chars ''FILES='') then read_list_header (sint (strtoul (drop 6 ?p))) max_len (f\<lparr>file_rest := rest\<rparr>)
       else if begins_with ?p (chars ''MAX_LINE_LENGTH='')
       then read_list_header max_files (sint (strtoul (drop 16 ?p) + 2)) (f\<lparr>file_rest := rest\<rparr>)
       else Inl (Died ''compiled_files_to_load file contains unrecognized header line''))"
    using fgets_line [OF assms] c_string_line [OF assms(1)] by (subst read_list_header.simps) (simp add: skip_blanks_line Let_def)
  show "skip_blanks l = [] \<Longrightarrow> read_list_header max_files max_len f = Inr (max_files, max_len, f\<lparr>file_rest := rest\<rparr>)"
    unfolding step by (simp add: begins_with_def)
  show "begins_with (skip_blanks l) (chars ''#'') \<Longrightarrow>
      read_list_header max_files max_len f = read_list_header max_files max_len (f\<lparr>file_rest := rest\<rparr>)"
    unfolding step by (cases "skip_blanks l") (simp_all add: begins_with_def chars_def)
  show "skip_blanks l = chars ''FILES='' @ digits \<Longrightarrow>
      read_list_header max_files max_len f = read_list_header (sint (strtoul (digits @ [10]))) max_len (f\<lparr>file_rest := rest\<rparr>)"
    unfolding step by (simp add: begins_with_def chars_def)
  show "skip_blanks l = chars ''MAX_LINE_LENGTH='' @ digits \<Longrightarrow>
      read_list_header max_files max_len f = read_list_header max_files (sint (strtoul (digits @ [10]) + 2)) (f\<lparr>file_rest := rest\<rparr>)"
    unfolding step by (simp add: begins_with_def chars_def)
qed

lemma listed_Cons:
  "listed (l # ls) = (if skip_blanks l = [] \<or> hd (skip_blanks l) = 35 then listed ls else skip_blanks l # listed ls)"
  by (simp add: listed_def)

lemma listed_ok:
  assumes "\<forall>l \<in> set ls. line_ok n l" and "p \<in> set (listed ls)"
  shows "p \<noteq> []" and "0 \<notin> set p" and "length p < 2048"
proof -
  obtain l where l: "l \<in> set ls" "p = skip_blanks l" "p \<noteq> []" using assms(2) by (auto simp: listed_def)
  have "set p \<subseteq> set l" "length p \<le> length l"
    unfolding l(2) skip_blanks_def by (auto dest: set_dropWhileD simp: length_dropWhile_le)
  then show "p \<noteq> []" and "0 \<notin> set p" and "length p < 2048" using l assms(1) by (auto simp: line_ok_def)
qed

section \<open>Lists in the heap\<close>

lemma cons_ok:
  assumes "ready st s xs ls" and "grows s u" and "unat (hap u) mod 4 = 0" and "unat (hap u) \<le> unat (hap s) + 4 * k"
    and "denotes st (words u) (unat (hap u)) v l" and "room (k + 3) s"
  obtains t ys where "LIST_CONS v xs u = (t, ys)" and "reaches st s (k + 3) t ys (l # ls)"
proof -
  have "unat (hap s) mod 4 = 0" "stack_denotes st (words s) (unat (hap s)) xs ls" using assms(1) by (simp_all add: ready_def)
  from push_chunk_ok [OF this assms(2-6)] obtain t ys
    where "push_and_go_on 0 (xs # []) (u, v) = Some (Inr (Go_On 0 (ys # []) t))" "reaches st s (k + 3) t ys (l # ls)"
    by metis
  then show thesis using that by (auto simp: push_and_go_on_def split: prod.splits)
qed

lemma reaches_ready: "reaches st s k t xs ls \<Longrightarrow> ready st t xs ls"
  by (simp add: reaches_def ready_def)

lemma reaches_trans:
  assumes "reaches st s k t xs ls" and "reaches st t j u ys ls'"
  shows "reaches st s (k + j) u ys ls'"
  using assms grows_trans unfolding reaches_def by (auto intro: grows_trans)

lemma pointer_not_nil: "IS_POINTER xs \<Longrightarrow> xs \<noteq> HEAP_NIL"
  by (auto simp: IS_POINTER_iff HEAP_NIL_def TAGGED_INT_FROM_C_INT_def)

lemma half_free_room: "half_free n s \<Longrightarrow> unat (hap s) mod 4 = 0 \<Longrightarrow> room n s"
  by (auto simp: half_free_def room_def)

lemma half_free_no_task_clean:
  assumes "half_free n (task_heap t)"
  shows "clean_task_if_half_full k roots t = Inr (roots, t)"
proof -
  let ?s = "task_heap t"
  let ?b = "buffer ?s"
  have le: "unat (heap_allocation_buffer ?b) \<le> unat (hap ?s)" "unat (hap ?s) \<le> unat (real_heap_allocation_limit ?b)"
    and half: "unat (hap ?s) - unat (heap_allocation_buffer ?b) \<le> unat (real_heap_allocation_limit ?b) - unat (hap ?s)"
    using assms by (auto simp: half_free_def)
  have "unat (agegroup0_freespace_in_bytes ?b) = unat (real_heap_allocation_limit ?b) - unat (hap ?s)"
    unfolding agegroup0_freespace_in_bytes_def using le by (simp add: unat_sub word_le_nat_alt)
  moreover have "unat (agegroup0_usedspace_in_bytes ?b) = unat (hap ?s) - unat (heap_allocation_buffer ?b)"
    unfolding agegroup0_usedspace_in_bytes_def using le by (simp add: unat_sub word_le_nat_alt)
  ultimately have "\<not> agegroup0_freespace_in_bytes ?b < agegroup0_usedspace_in_bytes ?b"
    using half by (simp only: word_less_nat_alt not_less)
  then show ?thesis by (simp add: clean_task_if_half_full_def)
qed

section \<open>Reading the names\<close>

definition names_words :: "unt8 list list \<Rightarrow> nat" where
  "names_words ns = sum_list (map (\<lambda>n. string_words (length n) + 7) ns)"

lemma new_name_ok:
  assumes r: "ready st (task_heap t) xs (map Lit_String ns)" and n: "n \<noteq> []" "length n < 2048"
    and room: "room (string_words (length n) + 7) (task_heap t)"
  obtains u v s ys where "with_register_roots (make_ascii_string_from_c_string__may_heapclean clean es (Some n)) roots t =
      Some (Inr (roots, t\<lparr>task_heap := u\<rparr>, v))"
    and "LIST_CONS v xs u = (s, ys)"
    and "reaches st (task_heap t) (string_words (length n) + 7) s ys (map Lit_String (n # ns))"
proof -
  let ?k = "string_words (length n) + 4"
  have room4: "room ?k (task_heap t)" using room by (simp add: room_def)
  obtain u v where mk: "make_ascii_string_from_c_string__may_heapclean clean es (Some n) (register_roots t @ roots) (task_heap t) =
      returning (register_roots t @ roots) (u, v)"
    and g: "grows (task_heap t) u" and str: "string_at (words u) (unat (hap u)) v n"
    and top: "unat (hap u) = unat (hap (task_heap t)) + 4 * ?k"
    by (rule make_ascii_string_ok [OF n room4, where clean = clean and empty_string = es and roots = "register_roots t @ roots"])
  have registers: "with_register_roots (make_ascii_string_from_c_string__may_heapclean clean es (Some n)) roots t =
      Some (Inr (roots, t\<lparr>task_heap := u\<rparr>, v))"
    by (rule with_register_roots_same) (rule mk)
  have al: "unat (hap u) mod 4 = 0" unfolding top mod_mult_self2 using room by (simp add: room_def)
  have d: "denotes st (words u) (unat (hap u)) v (Lit_String n)" using str n(1) by simp
  have room': "room (?k + 3) (task_heap t)" using room by (simp add: room_def)
  obtain s ys where "LIST_CONS v xs u = (s, ys)" and "reaches st (task_heap t) (?k + 3) s ys (Lit_String n # map Lit_String ns)"
    by (rule cons_ok [OF r g al _ d room']) (use top in simp)
  moreover have "?k + 3 = string_words (length n) + 7" by simp
  ultimately show thesis using that registers by simp
qed

lemma read_names_ok:
  assumes "file_rest f = concat (map list_line ls)" and "\<forall>l \<in> set ls. line_ok max_len l" and "0 < max_files" and "1 < max_len"
    and "ready (literal_statics k) (task_heap t) xs (map Lit_String ns)" and "half_free (names_words (listed ls) + n) (task_heap t)"
  shows "\<exists>s ys. read_names k max_files max_len f roots t xs = Some (Inr (roots, t\<lparr>task_heap := s\<rparr>, ys)) \<and>
    reaches (literal_statics k) (task_heap t) (names_words (listed ls)) s ys (map Lit_String (rev (listed ls) @ ns))"
  using assms
proof (induction ls arbitrary: f t xs ns)
  case Nil
  have "fgets max_len f = None" by (rule fgets_end) (use Nil.prems in simp_all)
  then have "read_names k max_files max_len f roots t xs = Some (Inr (roots, t\<lparr>task_heap := task_heap t\<rparr>, xs))"
    by (simp add: read_names.simps)
  moreover have "reaches (literal_statics k) (task_heap t) 0 (task_heap t) xs (map Lit_String ns)"
    using Nil.prems(5) by (simp add: reaches_def ready_def)
  ultimately show ?case
    by (intro exI [of _ "task_heap t"] exI [of _ xs]) (simp add: listed_def names_words_def)
next
  case (Cons l ls)
  let ?st = "literal_statics k" and ?p = "skip_blanks l"
  let ?f = "f\<lparr>file_rest := concat (map list_line ls)\<rparr>"
  have l: "line_ok max_len l" and ls: "\<forall>l \<in> set ls. line_ok max_len l" using Cons.prems(2) by simp_all
  have line: "fgets max_len f = Some (list_line l, ?f)" by (rule fgets_line [OF l]) (use Cons.prems(1) in simp)
  note name = name_on_line_ok [OF l]
  show ?case
  proof (cases "?p = [] \<or> hd ?p = 35")
    case True
    then have "read_names k max_files max_len f roots t xs = read_names k max_files max_len ?f roots t xs"
      using line name by (subst read_names.simps) simp
    then show ?thesis using Cons.IH [of ?f t xs ns] Cons.prems(3-6) ls True by (simp add: listed_Cons)
  next
    case False
    then have li: "listed (l # ls) = ?p # listed ls" by (simp add: listed_Cons)
    have p: "?p \<noteq> []" "length ?p < 2048" using listed_ok [OF Cons.prems(2), of ?p] li by simp_all
    have hf: "half_free ((string_words (length ?p) + 7) + (names_words (listed ls) + n)) (task_heap t)"
      using Cons.prems(6) by (simp add: li names_words_def add.assoc)
    have "unat (hap (task_heap t)) mod 4 = 0" using Cons.prems(5) by (simp add: ready_def)
    then have room: "room (string_words (length ?p) + 7) (task_heap t)" using half_free_room [OF hf] by (simp add: room_def)
    obtain u v s ys where mk: "with_register_roots (make_ascii_string_from_c_string__may_heapclean (heapcleaner (run_time k))
          (empty_string (run_time k)) (Some ?p)) (xs # roots) t = Some (Inr (xs # roots, t\<lparr>task_heap := u\<rparr>, v))"
      and c: "LIST_CONS v xs u = (s, ys)"
      and r: "reaches ?st (task_heap t) (string_words (length ?p) + 7) s ys (map Lit_String (?p # ns))"
      by (rule new_name_ok [OF Cons.prems(5) p room])
    let ?t = "t\<lparr>task_heap := s\<rparr>"
    have "read_names k max_files max_len f roots t xs = read_names k max_files max_len ?f roots ?t ys"
      using False line name mk c Cons.prems(3) half_free_no_task_clean [OF hf]
      by (subst read_names.simps) (simp add: in_heap_def)
    moreover have "\<exists>s' ys'. read_names k max_files max_len ?f roots ?t ys = Some (Inr (roots, ?t\<lparr>task_heap := s'\<rparr>, ys')) \<and>
        reaches ?st (task_heap ?t) (names_words (listed ls)) s' ys' (map Lit_String (rev (listed ls) @ ?p # ns))"
    proof (rule Cons.IH [OF _ ls Cons.prems(3,4)])
      show "ready ?st (task_heap ?t) ys (map Lit_String (?p # ns))" using reaches_ready [OF r] by simp
      show "half_free (names_words (listed ls) + n) (task_heap ?t)"
        using half_free_after [OF hf reachesD(1) [OF r] reachesD(3) [OF r]] by simp
    qed simp
    ultimately obtain s' ys' where "read_names k max_files max_len f roots t xs = Some (Inr (roots, t\<lparr>task_heap := s'\<rparr>, ys'))"
      and "reaches ?st s (names_words (listed ls)) s' ys' (map Lit_String (rev (listed ls) @ ?p # ns))"
      by auto
    then show ?thesis using reaches_trans [OF r]
      by (intro exI [of _ s'] exI [of _ ys']) (simp add: li names_words_def)
  qed
qed

section \<open>Reversing the list\<close>

lemma reverse_names_ok:
  assumes "stack_denotes st (words (task_heap t)) (unat (hap (task_heap t))) xs ls" and "ready st (task_heap t) ys ls'"
    and "half_free (3 * length ls + n) (task_heap t)"
  shows "\<exists>s zs. reverse_names k roots t xs ys = Some (Inr (roots, t\<lparr>task_heap := s\<rparr>, zs)) \<and>
    reaches st (task_heap t) (3 * length ls) s zs (rev ls @ ls')"
  using assms
proof (induction ls arbitrary: t xs ys ls')
  case Nil
  then have "reverse_names k roots t xs ys = Some (Inr (roots, t\<lparr>task_heap := task_heap t\<rparr>, ys))"
    by (simp add: reverse_names.simps)
  moreover have "reaches st (task_heap t) 0 (task_heap t) ys ls'" using Nil.prems(2) by (simp add: reaches_def ready_def)
  ultimately show ?case by (intro exI [of _ "task_heap t"] exI [of _ ys]) simp
next
  case (Cons l ls)
  let ?s = "task_heap t"
  have c: "chunk (words ?s) (unat (hap ?s)) xs PAIR_TAGWORD 2" and v: "denotes st (words ?s) (unat (hap ?s)) (words ?s xs) l"
    and tl: "stack_denotes st (words ?s) (unat (hap ?s)) (words ?s (xs + 4)) ls"
    using Cons.prems(1) by simp_all
  have ptr: "IS_POINTER xs" using c by (simp add: chunk_def)
  then have nn: "xs \<noteq> HEAP_NIL" by (rule pointer_not_nil)
  have al: "unat (hap ?s) mod 4 = 0" using Cons.prems(2) by (simp add: ready_def)
  have hf: "half_free (3 + (3 * length ls + n)) ?s" using Cons.prems(3) by (simp add: add.assoc)
  then have room: "room (0 + 3) ?s" using half_free_room [OF hf al] by (simp add: room_def)
  obtain s zs where cons: "LIST_CONS (words ?s xs) ys ?s = (s, zs)" and r: "reaches st ?s (0 + 3) s zs (l # ls')"
    by (rule cons_ok [OF Cons.prems(2) grows_refl al _ v room]) simp
  let ?t = "t\<lparr>task_heap := s\<rparr>"
  have g: "grows ?s s" by (rule reachesD(1) [OF r])
  have r3: "reaches st ?s 3 s zs (l # ls')" using r by simp
  have hf': "half_free (3 * length ls + n) s" by (rule half_free_after [OF hf g reachesD(3) [OF r3]])
  have tail: "words s (xs + 4) = words ?s (xs + 4)" using chunk_word_agree [OF c grows_agree [OF g], of 1] by simp
  have "reverse_names k roots t xs ys = reverse_names k roots ?t (words ?s (xs + 4)) zs"
    using nn ptr cons half_free_no_task_clean [of "3 * length ls + n" ?t] hf'
    by (subst reverse_names.simps)
      (simp add: LIST_HEAD_def LIST_TAIL_def GET_TUPLE_SLOT_AS_VAL_def slot_def in_heap_def tail)
  moreover have "\<exists>s' zs'. reverse_names k roots ?t (words ?s (xs + 4)) zs = Some (Inr (roots, ?t\<lparr>task_heap := s'\<rparr>, zs')) \<and>
      reaches st (task_heap ?t) (3 * length ls) s' zs' (rev ls @ l # ls')"
  proof (rule Cons.IH)
    show "stack_denotes st (words (task_heap ?t)) (unat (hap (task_heap ?t))) (words ?s (xs + 4)) ls"
      using stack_denotes_agree [OF tl grows_agree [OF g] grows_le [OF g]] by simp
    show "ready st (task_heap ?t) zs (l # ls')" using reaches_ready [OF r] by simp
    show "half_free (3 * length ls + n) (task_heap ?t)" using hf' by simp
  qed
  ultimately obtain s' zs' where "reverse_names k roots t xs ys = Some (Inr (roots, t\<lparr>task_heap := s'\<rparr>, zs'))"
    and "reaches st s (3 * length ls) s' zs' (rev ls @ l # ls')"
    by auto
  then show ?case using reaches_trans [OF r3] by (intro exI [of _ s'] exI [of _ zs']) simp
qed

section \<open>The names come back\<close>

text \<open>What the code that loads the files gets from the list.\<close>

fun reads_as :: "alloc_state \<Rightarrow> val \<Rightarrow> unt8 list list \<Rightarrow> bool" where
  "reads_as s xs [] = (xs = HEAP_NIL)"
| "reads_as s xs (n # ns) =
     (xs \<noteq> HEAP_NIL \<and>
      (case seq_result (LIST_HEAD s xs) (HEAP_STRING_AS_C_STRING s) of Inr p \<Rightarrow> c_string_from s p = Some n | Inl e \<Rightarrow> False) \<and>
      (case LIST_TAIL s xs of Inr ys \<Rightarrow> reads_as s ys ns | Inl e \<Rightarrow> False))"

lemma c_string_from_ok:
  assumes "\<forall>i < length bs. get_byte (words s) (p + word_of_nat i) = bs ! i" and "get_byte (words s) (p + word_of_nat (length bs)) = 0"
    and "0 \<notin> set bs"
  shows "c_string_from s p = Some bs"
  using assms
proof (induction bs arbitrary: p)
  case Nil
  then show ?case by (simp add: c_string_from.simps Let_def)
next
  case (Cons b bs)
  have b: "get_byte (words s) p = b" using Cons.prems(1) [rule_format, of 0] by simp
  have "c_string_from s (p + 1) = Some bs"
  proof (rule Cons.IH)
    show "\<forall>i < length bs. get_byte (words s) (p + 1 + word_of_nat i) = bs ! i"
    proof (intro allI impI)
      fix i assume "i < length bs"
      then show "get_byte (words s) (p + 1 + word_of_nat i) = bs ! i"
        using Cons.prems(1) [rule_format, of "Suc i"] by (simp add: add.assoc)
    qed
    show "get_byte (words s) (p + 1 + word_of_nat (length bs)) = 0" using Cons.prems(2) by (simp add: add.assoc)
  qed (use Cons.prems(3) in simp)
  then show ?case using b Cons.prems(3) by (subst c_string_from.simps) (simp add: Let_def)
qed

lemma stack_reads_as:
  assumes "stack_denotes st (words s) lim xs (map Lit_String ns)" and "\<forall>n \<in> set ns. n \<noteq> [] \<and> 0 \<notin> set n"
  shows "reads_as s xs ns"
  using assms
proof (induction ns arbitrary: xs)
  case Nil
  then show ?case by simp
next
  case (Cons n ns)
  have ptr: "IS_POINTER xs" and str: "string_at (words s) lim (words s xs) n"
    and tl: "stack_denotes st (words s) lim (words s (xs + 4)) (map Lit_String ns)"
    using Cons.prems by (simp_all add: chunk_def)
  have "IS_POINTER (words s xs)" using str by (simp add: string_at_def chunk_def)
  moreover have "c_string_from s (words s (words s xs)) = Some n"
    by (rule c_string_from_ok) (use str string_words_bounds(1) [of "length n"] Cons.prems(2) in \<open>auto simp: string_at_def Let_def\<close>)
  moreover have "xs \<noteq> HEAP_NIL" using ptr by (rule pointer_not_nil)
  moreover have "reads_as s (words s (xs + 4)) ns" using Cons.IH [OF tl] Cons.prems(2) by simp
  ultimately show ?case using ptr
    by (simp add: LIST_HEAD_def LIST_TAIL_def HEAP_STRING_AS_C_STRING_def GET_VECTOR_DATACHUNK_def GET_TUPLE_SLOT_AS_VAL_def slot_def)
qed

text \<open>
  C12. The files of a list are loaded in the order of its lines. Where the list can be opened and its
  header is in order, reading it ends, and what the code that loads the files then gets from the Mythryl
  list it built, one string after the other, are the names on the lines, without the blanks before them,
  and without empty lines and comments. The number of lines is bounded by the space for the names
  alone, not by the number of files the header allows, as long as that is positive. Nothing that
  was on the heap before is changed.
\<close>

theorem listed_names_come_back_in_order:
  fixes t :: task_state
  assumes opened: "file_named k filename = Some bs" "malloc_succeeds k max_len"
      "read_list_header MAX_NUMBER_OF_BOOT_FILES MAX_LENGTH_FOR_A_BOOTFILE_PATHNAME (from_start bs) = Inr (max_files, max_len, f)"
    and lines: "file_rest f = concat (map list_line ls)" "\<forall>l \<in> set ls. line_ok max_len l" "0 < max_files" "1 < max_len"
    and space: "unat (hap (task_heap t)) mod 4 = 0" "half_free (names_words (listed ls) + 3 * length (listed ls)) (task_heap t)"
  shows "\<exists>s names. read_in_compiled_file_list__may_heapclean k filename extra t =
      Some (Inr (Some max_len, extra, t\<lparr>task_heap := s\<rparr>, names)) \<and>
    reads_as s names (listed ls) \<and> (\<forall>a. unat a < unat (hap (task_heap t)) \<longrightarrow> words s a = words (task_heap t) a)"
proof -
  let ?st = "literal_statics k" and ?ns = "map Lit_String (listed ls)"
  have "ready ?st (task_heap t) HEAP_NIL (map Lit_String [])" using space(1) by (simp add: ready_def)
  from read_names_ok [OF lines this space(2), of extra] obtain s1 l1
    where read: "read_names k max_files max_len f extra t HEAP_NIL = Some (Inr (extra, t\<lparr>task_heap := s1\<rparr>, l1))"
      and r1: "reaches ?st (task_heap t) (names_words (listed ls)) s1 l1 (rev ?ns)"
    by (auto simp: rev_map)
  let ?t = "t\<lparr>task_heap := s1\<rparr>"
  have "half_free (3 * length (rev ?ns) + 0) (task_heap ?t)"
    using half_free_after [OF space(2) reachesD(1) [OF r1] reachesD(3) [OF r1]] by simp
  moreover have "stack_denotes ?st (words (task_heap ?t)) (unat (hap (task_heap ?t))) l1 (rev ?ns)"
    using reachesD(4) [OF r1] by simp
  moreover have "ready ?st (task_heap ?t) HEAP_NIL []" using reachesD(2) [OF r1] by (simp add: ready_def)
  ultimately obtain s2 l2 where rev: "reverse_names k extra ?t l1 HEAP_NIL = Some (Inr (extra, ?t\<lparr>task_heap := s2\<rparr>, l2))"
    and r2: "reaches ?st s1 (3 * length ?ns) s2 l2 ?ns"
    using reverse_names_ok [of ?st ?t l1 "rev ?ns" HEAP_NIL "[]" 0 k extra] by auto
  have "reads_as s2 l2 (listed ls)"
    by (rule stack_reads_as [OF reachesD(4) [OF r2]]) (use listed_ok [OF lines(2)] in blast)
  moreover have "grows (task_heap t) s2" by (rule grows_trans [OF reachesD(1) [OF r1] reachesD(1) [OF r2]])
  moreover have "read_in_compiled_file_list__may_heapclean k filename extra t =
      Some (Inr (Some max_len, extra, t\<lparr>task_heap := s2\<rparr>, l2))"
    using opened lines(3,4) read rev by (simp add: read_in_compiled_file_list__may_heapclean_def open_file_def)
  ultimately show ?thesis unfolding grows_def by blast
qed

text \<open>A list with a header, a comment, an indented name, an empty line and another name; the header
  allows one file.\<close>

definition example_list :: "unt8 list" where
  "example_list = list_line (chars ''# boot'') @ list_line (chars ''FILES=1'') @ list_line [] @
     concat (map list_line [chars ''#x'', chars ''  a'', [], chars ''b@3:c''])"

definition listing_linker :: linker where
  "listing_linker = example_linker\<lparr>file_named := (\<lambda>_. Some example_list)\<rparr>"

lemma example_list_header:
  "read_list_header MAX_NUMBER_OF_BOOT_FILES MAX_LENGTH_FOR_A_BOOTFILE_PATHNAME (from_start example_list) =
     Inr (1, MAX_LENGTH_FOR_A_BOOTFILE_PATHNAME,
       (from_start example_list)\<lparr>file_rest := concat (map list_line [chars ''#x'', chars ''  a'', [], chars ''b@3:c''])\<rparr>)"
proof -
  have ok: "line_ok BUF_LEN (chars ''# boot'')" "line_ok BUF_LEN (chars ''FILES=1'')" "line_ok BUF_LEN []" by code_simp+
  have p: "begins_with (skip_blanks (chars ''# boot'')) (chars ''#'')" "skip_blanks (chars ''FILES=1'') = chars ''FILES='' @ [49]"
    "skip_blanks [] = []"
    by code_simp+
  have n: "sint (strtoul ([49] @ [10])) = 1"
    by (simp add: strtoul_def is_space_def base_and_digits_def number_value_def digit_value_def word_le_nat_alt Let_def)
  show ?thesis
    unfolding example_list_def from_start_def
    by (simp del: read_list_header.simps add: read_header_line(2) [OF ok(1) _ p(1)] read_header_line(3) [OF ok(2) _ p(2)] read_header_line(1) [OF ok(3) _ p(3)] n [simplified])
qed

theorem listed_names_come_back_in_order_witness:
  "\<exists>s names. read_in_compiled_file_list__may_heapclean listing_linker [108] [0x6000] linking_task =
      Some (Inr (Some MAX_LENGTH_FOR_A_BOOTFILE_PATHNAME, [0x6000], linking_task\<lparr>task_heap := s\<rparr>, names)) \<and>
    reads_as s names [chars ''a'', chars ''b@3:c''] \<and>
    (\<forall>a. unat a < unat (hap (task_heap linking_task)) \<longrightarrow> words s a = words (task_heap linking_task) a)"
proof -
  let ?ls = "[chars ''#x'', chars ''  a'', [], chars ''b@3:c'']"
  have n: "listed ?ls = [chars ''a'', chars ''b@3:c'']" by code_simp
  have l: "\<forall>l \<in> set ?ls. line_ok MAX_LENGTH_FOR_A_BOOTFILE_PATHNAME l" by code_simp
  have w: "names_words (listed ?ls) + 3 * length (listed ?ls) \<le> 100" unfolding n by code_simp
  have h: "half_free 100 (task_heap linking_task)"
    by (simp add: half_free_def linking_task_def example_state_def example_buffer_def hostthread_buffer_def Let_def
        HEAP_ALLOCATION_LIMIT_SIZE_def buffer_sizes)
  have "half_free (names_words (listed ?ls) + 3 * length (listed ?ls)) (task_heap linking_task)"
    using h w by (auto simp: half_free_def)
  moreover have "unat (hap (task_heap linking_task)) mod 4 = 0" unfolding linking_hap by simp
  ultimately show ?thesis
    using listed_names_come_back_in_order [OF _ _ example_list_header, where k = listing_linker and filename = "[108]" and ls = ?ls
        and t = linking_task and extra = "[0x6000]"] l n
    by (simp add: listing_linker_def example_linker_def MAX_LENGTH_FOR_A_BOOTFILE_PATHNAME_def)
qed

end
