(* ===== verification/Spec2Isabelle.thy ===== *)
theory Spec2Isabelle
  imports Heap_Tags Bigcounters Cardmaps Address_Hashtables Hugechunk_Freeing Cfun_Exports Slot_Vector_Facts Hostthread_Roots Hostthread_Object_Facts Agegroup0_Buffers Literal_Facts Minor_Properties
    Task_Facts Signal_Masks Load_Facts Boot_List_Facts
begin

text \<open>
  A model of the C runtime of Mythryl (\<open>src/c\<close>, to which the file names below are relative), the
  part of the system that owns memory: it allocates and cleans the heap, keeps the tables the
  heapcleaner works from, lets host threads share the heap, passes signals to Mythryl code, and
  loads and links compiled code. The modelled platform is the 32-bit one (Linux on intel32):
  addresses and Mythryl values are 32-bit words.

  \<^bold>\<open>Parts, and how they interact.\<close> Mythryl code runs under the runtime's event loop. When its
  allocation buffer is used up, or a signal waits, it enters the loop with a request; the loop
  calls the heapcleaner, starts a signal handler, calls a C function or
  rebuilds literals. Every host thread allocates in its own buffer of agegroup 0. A minor
  heapcleaning copies what is live there into agegroup 1, starting at the roots and at the
  changelogs by which Mythryl code reports its stores into older agegroups, and notes in card
  maps what still has to be swept later. Big byte chunks (code) come from the hugechunk allocator
  instead. The book map tells for each 64 KB of address space who owns it. At the start the
  linker reads compiled files, gives each the values it imports, builds its literals, runs its
  code and registers what it exports; the C functions are registered by name.

  \<^bold>\<open>Shared vocabulary\<close>
  \<^item> \<open>Prelude\<close>: C integer types as words, the ways a routine ends (\<open>Died\<close> for a call of \<open>die\<close>,
    \<open>Wild\<close> for an undefined access), the sequencing of routines, rounding, decimal output, and the
    named collections of facts.
  \<^item> \<open>Keyed_Tables\<close>: the contract of the runtime's hash tables; \<open>Chained_Buckets\<close>: bucket vectors
    over shared entries, and what chains promise.

  \<^bold>\<open>Values and the tables of the heap\<close>
  \<^item> \<open>Heap_Tags\<close>: tag bits and tagwords (\<open>h/heap-tags.h\<close>, \<open>h/runtime-values.h\<close>).
  \<^item> \<open>Sibids\<close>: sib ids and the book map (\<open>h/sibid.h\<close>).
  \<^item> \<open>Bigcounters\<close>: the statistics counters (\<open>h/bigcounter.h\<close>).
  \<^item> \<open>Cardmaps\<close>: the card maps of the write barrier (\<open>h/coarse-inter-agegroup-pointers-map.h\<close>).
  \<^item> \<open>Address_Hashtables\<close>: the address table (\<open>heapcleaner/address-hashtable.c\<close>).
  \<^item> \<open>Agegroup0_Buffers\<close>: the division of the master buffer among host threads, the room checks
    and the tripwire buffers (\<open>heapcleaner/hostthread-heapcleaner-stuff.c\<close>,
    \<open>heapcleaner/call-heapcleaner.c\<close>, \<open>heapcleaner/heap-debug-stuff.c\<close>).
  \<^item> \<open>Heap_Allocation\<close>, \<open>Heap_Values\<close>: how C code makes Mythryl values
    (\<open>h/make-strings-and-vectors-etc.h\<close> and the C file of the same name); \<open>Heap_Allocation_Facts\<close>,
    \<open>Heap_Value_Facts\<close>: what they do to memory, and that strings read back.

  \<^bold>\<open>Hugechunks\<close> (\<open>heapcleaner/hugechunk.c\<close>)
  \<^item> \<open>Hugechunk_Quires\<close>, \<open>Hugechunks\<close>: the sizing of quires and the allocator itself, with the
    descriptors in a store.
  \<^item> \<open>Hugechunk_Lists\<close>, \<open>Hugechunk_Layout\<close>, \<open>Hugechunk_Tiles\<close>, \<open>Hugechunk_Heap\<close>: the invariant in
    layers: free list, extents and page vectors, sizes and counts, and all of it together.
  \<^item> \<open>Hugechunk_Allocation\<close>, \<open>Hugechunk_Freeing\<close>: allocating, freeing and finding keep it.

  \<^bold>\<open>Heapcleaning of agegroup 0\<close> (\<open>heapcleaner/heapclean-agegroup0.c\<close>, \<open>heapcleaner/copy-loop.h\<close>)
  \<^item> \<open>Minor_Heapcleaner\<close>: forwarding, sweeping, changelogs, weak references, the whole cleaning.
  \<^item> \<open>Minor_Copying\<close>, \<open>Minor_Invariant\<close>, \<open>Minor_Forwarding\<close>, \<open>Minor_Forwarding_Facts\<close>: the invariant
    over a ghost state (which chunk went where, which addresses are still to be processed), and that
    forwarding a chunk keeps it.
  \<^item> \<open>Minor_Sweeping\<close>, \<open>Minor_Passes\<close>, \<open>Minor_Changelog\<close>, \<open>Minor_Weakrefs\<close>, \<open>Minor_Facts\<close>,
    \<open>Minor_Properties\<close>: the passes end, and what they leave behind.

  \<^bold>\<open>Host threads\<close>
  \<^item> \<open>Slot_Vectors\<close>, \<open>Slot_Vector_Facts\<close>: the vectors behind the small integers Mythryl code uses for
    mutexes, condition variables and barriers, and their contract.
  \<^item> \<open>Hostthread_Objects\<close>, \<open>Hostthread_Object_Facts\<close>: the calls of Mythryl code on them
    (\<open>hostthread/hostthread-on-posix-threads.c\<close>).
  \<^item> \<open>Hostthreads\<close>: modes of host threads and how one of them gets the heap for a cleaning, as a step
    relation (\<open>heapcleaner/hostthread-heapcleaner-stuff.c\<close>). A thread that waits sleeps on the condition
    variable and runs its wait loop again only when a broadcast, or the host without one, has woken
    it. \<open>Hostthread_Protocol\<close>, \<open>Hostthread_Roots\<close>: the invariant, that no wake-up is lost, the roots.

  \<^bold>\<open>Literals, signals and the event loop\<close>
  \<^item> \<open>Literals\<close>: the interpreter of literal bytecode
    (\<open>heapcleaner/make-package-literals-via-bytecode-interpreter.c\<close>); \<open>Literal_Machine\<close>: an abstract
    machine that has literals on its stack; \<open>Literal_Facts\<close>: the interpreter simulates the machine.
  \<^item> \<open>Signals\<close>: signal tables, the handler, the choice of the next signal
    (\<open>machine-dependent/interprocess-signals.c\<close>); \<open>Signal_Facts\<close>: their steps interleaved with
    arrivals; \<open>Signal_Masks\<close>: the mask of the process.
  \<^item> \<open>Tasks\<close>: the registers of a task and how they are set up and saved (\<open>main/runtime-state.c\<close>,
    \<open>machine-dependent/signal-stuff.c\<close>, \<open>main/runtime-exception-stuff.c\<close>); \<open>Runtime_Eventloop\<close>: the
    loop (\<open>main/run-mythryl-code-and-runtime-eventloop.c\<close>); \<open>Task_Facts\<close>: interrupted code goes on as
    before.

  \<^bold>\<open>C functions and the linker\<close>
  \<^item> \<open>Cfun_Tables\<close>, \<open>Cfun_Facts\<close>, \<open>Cfun_Libraries\<close>, \<open>Cfun_Properties\<close>, \<open>Cfun_Exports\<close>: the table of C
    functions, the contents of the runtime package and the libraries registered at startup, in that
    order, and the export tables of heap images (\<open>heapcleaner/mythryl-callable-cfun-hashtable.c\<close>,
    \<open>lib/mythryl-callable-c-libraries.c\<close>, \<open>main/construct-runtime-package.c\<close>, \<open>main/runtime-main.c\<close>).
  \<^item> \<open>Compiled_Bytes\<close>, \<open>Compiled_Files\<close>, \<open>Linker\<close>: bytes and headers of compiled files, loading one
    file, and the list of files to load (\<open>main/load-compiledfiles.c\<close>, \<open>h/compiledfile.h\<close>,
    \<open>main/swap-bytes.c\<close>, \<open>main/construct-runtime-package.c\<close>).
  \<^item> \<open>Import_Facts\<close>, \<open>Linker_Facts\<close>, \<open>Load_Facts\<close>: what a file imports, the registry of exports, and
    a whole file, from its bytes to its entry in the registry; \<open>Boot_List_Facts\<close>: the list of files,
    whose names come back from the heap in the order of the lines.

  \<^bold>\<open>How state corresponds to the code.\<close> Memory is a function from word addresses to words, and a
  routine gets the part of the C state it uses as a record that it returns updated. Pointers to
  C structs the allocator shares (hugechunk descriptors, table entries) are names in a store. A
  call of \<open>die\<close> gives \<open>Inl (Died message)\<close>; an access C does not define gives \<open>Inl Wild\<close>. A C
  loop that need not end is a partial function into an option, and is \<open>None\<close> where it runs for
  ever: the theorems say that it returns, in the form \<open>= Some result\<close>. What host threads and signals
  do at the same time are steps of an inductive relation in any order. Pushing roots for the
  cleaner (the \<open>Roots\<close> chains) is a list of values, given to the cleaner and taken back from it.

  \<^bold>\<open>Parameters.\<close> What is not C code of the repository, or not modelled, is an argument: answers of the
  operating system and of the host's thread library, \<open>malloc\<close>, the file system, running Mythryl
  code and the assembly routines, C functions called by Mythryl code, and the
  heapcleaner where a routine calls it. Properties name what they rely on as a hypothesis, and
  every such property has an instance on concrete functions. Where a routine may clean the heap
  first (the call of a signal handler, the record of a file's imports), the property covers both
  branches: it speaks of the task as the heapcleaner leaves it, or of the task as it was.

  \<^bold>\<open>Bounds.\<close> Requests to the hugechunk allocator are below \<open>2 ^ 30\<close> bytes, within the range in which
  the rounding of sizes does not wrap; slot integers stay below \<open>2 ^ 29\<close>, which is what a tagged
  31-bit integer and doubling of the vector allow; cleanings have at most 15 extra roots, the size of
  the buffer for them; small chunks have at most 512 words, and a literal program needs no more than
  half of the buffer, the condition under which no cleaning interrupts it, as does reading back the
  signal mask and the list of files; an address table has at most \<open>2 ^ 29\<close> buckets, above which the size
  of its vector overflows; a minor heapcleaning needs
  room in agegroup 1 for what is live, with one word of padding for each 8-byte-aligned chunk (without
  it the copy loop would run over the end of the sib); fewer than \<open>2 ^ 32\<close> arrivals of a signal wait
  at a time, since the counters are 32-bit; compiled files are shorter than \<open>2 ^ 31\<close> bytes,
  since C computes offsets in them with \<open>int\<close>. No model uses fuel.

  \<^bold>\<open>What the properties show.\<close> A minor heapcleaning moves exactly what is live and keeps its shape,
  settles weak references and notes what older agegroups point to; a cleaner at work has the heap to
  itself, and no host thread that waits for it sleeps through the broadcast it waits for; signals are neither lost nor repeated and
  chosen fairly; literal bytecode and compiled files build what they describe; the hugechunk
  allocator and the tables refine maps; values read back as they were made. Some properties are
  about what goes wrong in the code as it is: extra roots a second cleaning forgets,
  nicknames that growing loses, a freed entry left on a chain, byte vectors without a
  terminator.

  \<^bold>\<open>What is not modelled.\<close> The heapcleaning of several agegroups
  (\<open>heapcleaner/heapclean-n-agegroups.c\<close>) needs the invariants of all agegroups and of dirty cards
  at once. Heap images and pickling are copying collectors of their own, of which only the shared
  tables are modelled. Command line, initialization of the heap and of the first task, the
  POSIX and socket libraries, calls to foreign C code, Windows support, debugging dumps, the
  generated bindings and the third-party floating-point conversion are glue around the parts above or
  not part of the program's own logic. Assembly code is not C; what the C code relies on is a
  parameter.
\<close>

end
